(* ===== verification/Prelude.thy ===== *)
theory Prelude
  imports Complex_Main "HOL-Library.AList" "HOL-Library.Multiset"
    "HOL-Library.Product_Lexorder" "HOL-Library.List_Lexorder" "HOL-Library.Char_ord"
begin

text \<open>
  Shared vocabulary of the development: Python exceptions as values, results and
  state-passing operations, dictionaries as association lists in insertion order, first
  minima (\<open>min(xs, key=f)\<close>), slices in steps of a block size, and the priority queue
  interface of \<open>heapq\<close>. Python floats are exact rationals throughout.
\<close>

section \<open>Errors, results and operations\<close>

text \<open>The exceptions the modelled code raises or lets through.\<close>

datatype py_error =
    KeyError
  | IndexError
  | ValueError
  | TypeError
  | AttributeError
  | ZeroDivisionError
  | AssertionError
  | NotImplementedError
  | NoFreeBlocksError
  | RecursionError
  | HTTPException nat
  | SystemExit
  | RuntimeError

type_synonym 'a res = "py_error + 'a"

text \<open>
  A method that mutates an object of type \<open>'s\<close>: it gets the object's state and yields the
  result or the exception together with the state it leaves behind, since Python keeps the
  mutations made before a raise.
\<close>

type_synonym ('s, 'a) act = "'s \<Rightarrow> 'a res \<times> 's"

type_synonym pyfloat = rat

definition bind_res :: "'a res \<Rightarrow> ('a \<Rightarrow> 'b res) \<Rightarrow> 'b res" where
  "bind_res r f = (case r of Inl e \<Rightarrow> Inl e | Inr x \<Rightarrow> f x)"

lemma bind_res_simps [simp]:
  "bind_res (Inl e) f = Inl e"
  "bind_res (Inr x) f = f x"
  by (simp_all add: bind_res_def)

lemma bind_res_Inr_iff: "bind_res r f = Inr y \<longleftrightarrow> (\<exists>x. r = Inr x \<and> f x = Inr y)"
  by (cases r) auto

text \<open>Results that are certainly not exceptions.\<close>

lemma res_total_bind: "\<exists>v. p = Inr v \<Longrightarrow> (\<And>v. \<exists>b. f v = Inr b) \<Longrightarrow> \<exists>b. bind_res p f = Inr b"
  by auto

lemma res_total_if:
  "(c \<Longrightarrow> \<exists>b. x = Inr b) \<Longrightarrow> (\<not> c \<Longrightarrow> \<exists>b. y = Inr b) \<Longrightarrow> \<exists>b. (if c then x else y) = Inr b"
  by simp

lemma res_total_Inr: "\<exists>b. Inr x = Inr b"
  by simp

text \<open>A comprehension \<open>[f(x) for x in xs]\<close> whose elements may raise.\<close>

fun map_res :: "('a \<Rightarrow> 'b res) \<Rightarrow> 'a list \<Rightarrow> 'b list res" where
  "map_res f [] = Inr []"
| "map_res f (x # xs) =
     (case f x of Inl e \<Rightarrow> Inl e
      | Inr y \<Rightarrow> (case map_res f xs of Inl e \<Rightarrow> Inl e | Inr ys \<Rightarrow> Inr (y # ys)))"

lemma map_res_all_Inr: "(\<And>x. x \<in> set xs \<Longrightarrow> f x = Inr (g x)) \<Longrightarrow> map_res f xs = Inr (map g xs)"
  by (induction xs) auto

lemma map_res_total: "(\<And>x. x \<in> set xs \<Longrightarrow> \<exists>y. f x = Inr y) \<Longrightarrow> \<exists>ys. map_res f xs = Inr ys"
proof (induction xs)
  case (Cons x xs)
  then obtain ys where "map_res f xs = Inr ys" by (metis list.set_intros(2))
  moreover obtain y where "f x = Inr y" using Cons.prems by (metis list.set_intros(1))
  ultimately show ?case by simp
qed simp

lemma map_res_length: "map_res f xs = Inr ys \<Longrightarrow> length ys = length xs"
  by (induction xs arbitrary: ys) (auto split: sum.splits)

lemma map_res_nth:
  "map_res f xs = Inr ys \<Longrightarrow> i < length xs \<Longrightarrow> f (xs ! i) = Inr (ys ! i)"
proof (induction xs arbitrary: ys i)
  case Nil
  then show ?case by simp
next
  case (Cons x xs)
  then show ?case
    by (cases i) (auto split: sum.splits)
qed

text \<open>Sequencing of operations, and the operations that only return, raise or check.\<close>

definition bind_act :: "('s, 'a) act \<Rightarrow> ('a \<Rightarrow> ('s, 'b) act) \<Rightarrow> ('s, 'b) act" where
  "bind_act f g s = (case f s of (Inl e, s') \<Rightarrow> (Inl e, s') | (Inr x, s') \<Rightarrow> g x s')"

definition ret :: "'a \<Rightarrow> ('s, 'a) act" where
  "ret x s = (Inr x, s)"

definition raise :: "py_error \<Rightarrow> ('s, 'a) act" where
  "raise e s = (Inl e, s)"

definition check :: "bool \<Rightarrow> ('s, unit) act" where
  "check b s = (if b then Inr () else Inl AssertionError, s)"

definition gets :: "('s \<Rightarrow> 'a) \<Rightarrow> ('s, 'a) act" where
  "gets f s = (Inr (f s), s)"

definition modify :: "('s \<Rightarrow> 's) \<Rightarrow> ('s, unit) act" where
  "modify f s = (Inr (), f s)"

definition lift_res :: "'a res \<Rightarrow> ('s, 'a) act" where
  "lift_res r s = (r, s)"

text \<open>An operation on a part of the state.\<close>

definition zoom :: "('s \<Rightarrow> 't) \<Rightarrow> ('t \<Rightarrow> 's \<Rightarrow> 's) \<Rightarrow> ('t, 'a) act \<Rightarrow> ('s, 'a) act" where
  "zoom part put f s = (case f (part s) of (r, t) \<Rightarrow> (r, put t s))"

fun for_each :: "('a \<Rightarrow> ('s, unit) act) \<Rightarrow> 'a list \<Rightarrow> ('s, unit) act" where
  "for_each f [] = ret ()"
| "for_each f (x # xs) = bind_act (f x) (\<lambda>_. for_each f xs)"

lemmas act_defs = bind_act_def ret_def raise_def check_def gets_def modify_def lift_res_def zoom_def

lemma bind_act_Inr: "f s = (Inr x, s') \<Longrightarrow> bind_act f g s = g x s'"
  by (simp add: bind_act_def)

lemma bind_act_Inl: "f s = (Inl e, s') \<Longrightarrow> bind_act f g s = (Inl e, s')"
  by (simp add: bind_act_def)

lemma act_simps [simp]:
  "bind_act (ret x) g s = g x s"
  "bind_act (raise e) h s = (Inl e, s)"
  "bind_act (gets f) k s = k (f s) s"
  "bind_act (modify u) l s = l () (u s)"
  by (simp_all add: act_defs)

lemma bind_act_Inr_iff:
  "bind_act f g s = (Inr y, s'') \<longleftrightarrow> (\<exists>x s'. f s = (Inr x, s') \<and> g x s' = (Inr y, s''))"
  by (auto simp: bind_act_def split: prod.splits sum.splits)

lemma bind_check [simp]: "bind_act (check b) g s = (if b then g () s else (Inl AssertionError, s))"
  by (simp add: act_defs)

section \<open>Dictionaries\<close>

text \<open>
  A Python dict iterates in insertion order and an assignment to an existing key keeps its
  place: \<^const>\<open>AList.update\<close> on an association list does exactly this. \<open>d[k]\<close> raises
  \<^const>\<open>KeyError\<close>, \<open>d.get(k)\<close> is \<^const>\<open>map_of\<close>.
\<close>

type_synonym ('k, 'v) dict = "('k \<times> 'v) list"

definition dict_item :: "('k, 'v) dict \<Rightarrow> 'k \<Rightarrow> 'v res" where
  "dict_item d k = (case map_of d k of None \<Rightarrow> Inl KeyError | Some v \<Rightarrow> Inr v)"

definition dict_wf :: "('k, 'v) dict \<Rightarrow> bool" where
  "dict_wf d \<longleftrightarrow> distinct (map fst d)"

lemma dict_item_Inr [simp]: "dict_item d k = Inr v \<longleftrightarrow> map_of d k = Some v"
  by (auto simp: dict_item_def split: option.splits)

lemma dict_item_Inl [simp]: "dict_item d k = Inl e \<longleftrightarrow> map_of d k = None \<and> e = KeyError"
  by (auto simp: dict_item_def split: option.splits)

lemma map_of_update [simp]: "map_of (AList.update k v d) = (map_of d)(k \<mapsto> v)"
  by (simp add: update_conv')

lemma map_of_delete [simp]: "map_of (AList.delete k d) = (map_of d)(k := None)"
  by (simp add: delete_conv')

lemma dict_wf_Nil [simp]: "dict_wf []"
  by (simp add: dict_wf_def)

lemma dict_wf_update [simp]: "dict_wf d \<Longrightarrow> dict_wf (AList.update k v d)"
  by (simp add: dict_wf_def distinct_update)

lemma dict_wf_delete [simp]: "dict_wf d \<Longrightarrow> dict_wf (AList.delete k d)"
  by (simp add: dict_wf_def distinct_delete)

lemma keys_update: "fst ` set (AList.update k v d) = insert k (fst ` set d)"
  by (induction d) auto

lemma map_fst_update_mem:
  "k \<in> fst ` set d \<Longrightarrow> map fst (AList.update k v d) = map fst d"
  by (induction d) auto

lemma map_of_None_iff: "map_of d k = None \<longleftrightarrow> k \<notin> fst ` set d"
  by (rule map_of_eq_None_iff)

lemma dict_wf_map_of: "dict_wf d \<Longrightarrow> (k, v) \<in> set d \<longleftrightarrow> map_of d k = Some v"
  by (simp add: dict_wf_def)

lemma length_update_mem: "k \<in> fst ` set d \<Longrightarrow> length (AList.update k v d) = length d"
  by (induction d) auto

section \<open>First minimum\<close>

text \<open>
  \<open>min(xs, key=f)\<close>: the first element whose key is smallest, and no value (Python raises
  \<^const>\<open>ValueError\<close>) on an empty iterable.
\<close>

fun min_by :: "('a \<Rightarrow> 'k::linorder) \<Rightarrow> 'a list \<Rightarrow> 'a option" where
  "min_by f [] = None"
| "min_by f (x # xs) =
     (case min_by f xs of None \<Rightarrow> Some x
      | Some y \<Rightarrow> Some (if f y < f x then y else x))"

lemma min_by_None [simp]: "min_by f xs = None \<longleftrightarrow> xs = []"
  by (cases xs) (auto split: option.splits)

lemma min_by_mem: "min_by f xs = Some y \<Longrightarrow> y \<in> set xs"
  by (induction xs arbitrary: y) (auto split: option.splits if_splits)

lemma min_by_le: "min_by f xs = Some y \<Longrightarrow> x \<in> set xs \<Longrightarrow> f y \<le> f x"
proof (induction xs arbitrary: y)
  case Nil
  then show ?case by simp
next
  case (Cons z zs)
  then show ?case
    by (cases "min_by f zs") (force split: if_splits)+
qed

lemma min_by_ex: "xs \<noteq> [] \<Longrightarrow> \<exists>y. min_by f xs = Some y"
  by (metis min_by_None not_None_eq)

text \<open>It is the first such element: everything before it has a strictly larger key.\<close>

lemma min_by_first:
  "min_by f xs = Some y \<Longrightarrow> \<exists>us vs. xs = us @ y # vs \<and> (\<forall>u \<in> set us. f y < f u)"
proof (induction xs arbitrary: y)
  case Nil
  then show ?case by simp
next
  case (Cons x xs)
  show ?case
  proof (cases "min_by f xs")
    case None
    with Cons.prems have "x # xs = [] @ y # []" by simp
    then show ?thesis by (metis empty_iff empty_set)
  next
    case (Some z)
    show ?thesis
    proof (cases "f z < f x")
      case True
      with Some Cons.prems have "z = y" by simp
      with Cons.IH [OF Some] obtain us vs where
        "xs = us @ y # vs" "\<forall>u \<in> set us. f y < f u" by blast
      with True \<open>z = y\<close> have "x # xs = (x # us) @ y # vs" "\<forall>u \<in> set (x # us). f y < f u"
        by auto
      then show ?thesis by blast
    next
      case False
      with Some Cons.prems have "y = x" by simp
      then show ?thesis
        by (rule_tac x = "[]" in exI) simp
    qed
  qed
qed

text \<open>The same with a key function that may raise; the key of every element is computed.\<close>

definition min_by_res :: "('a \<Rightarrow> ('k::linorder) res) \<Rightarrow> 'a list \<Rightarrow> 'a res" where
  "min_by_res f xs =
     bind_res (map_res f xs) (\<lambda>ks.
       case min_by fst (zip ks xs) of None \<Rightarrow> Inl ValueError | Some (k, x) \<Rightarrow> Inr x)"

lemma map_res_zip:
  "map_res f xs = Inr ks \<Longrightarrow> (k, x) \<in> set (zip ks xs) \<Longrightarrow> f x = Inr k \<and> x \<in> set xs"
  by (induction xs arbitrary: ks) (auto split: sum.splits)

lemma map_res_mem: "map_res f xs = Inr ks \<Longrightarrow> x \<in> set xs \<Longrightarrow> \<exists>k. f x = Inr k \<and> (k, x) \<in> set (zip ks xs)"
  by (induction xs arbitrary: ks) (auto split: sum.splits)

lemma min_by_res_ok:
  assumes "min_by_res f xs = Inr x"
  shows "x \<in> set xs \<and> (\<exists>k. f x = Inr k \<and> (\<forall>y \<in> set xs. \<exists>l. f y = Inr l \<and> k \<le> l))"
proof -
  from assms obtain ks k where ks: "map_res f xs = Inr ks" and k: "min_by fst (zip ks xs) = Some (k, x)"
    unfolding min_by_res_def bind_res_Inr_iff by (fastforce split: option.splits)
  from map_res_zip [OF ks min_by_mem [OF k]] have "f x = Inr k" "x \<in> set xs" by auto
  moreover have "\<exists>l. f y = Inr l \<and> k \<le> l" if "y \<in> set xs" for y
    using map_res_mem [OF ks that] min_by_le [OF k] by force
  ultimately show ?thesis by blast
qed

lemma min_by_res_total:
  assumes "xs \<noteq> []" and "\<And>y. y \<in> set xs \<Longrightarrow> \<exists>k. f y = Inr k"
  shows "\<exists>x. min_by_res f xs = Inr x"
proof -
  from assms(2) have "map_res f xs = Inr (map (\<lambda>y. projr (f y)) xs)"
    by (intro map_res_all_Inr) fastforce
  moreover have "zip (map (\<lambda>y. projr (f y)) xs) xs \<noteq> []" using assms(1) by (cases xs) auto
  ultimately show ?thesis by (auto simp: min_by_res_def split: option.splits dest: min_by_ex)
qed

section \<open>Slices of a fixed size\<close>

text \<open>
  \<open>[xs[i:i+n] for i in range(0, len(xs), n)]\<close>. A step of 0 raises in \<open>range\<close>; the
  function is used with a positive step only and yields one slice otherwise.
\<close>

function chunks :: "nat \<Rightarrow> 'a list \<Rightarrow> 'a list list" where
  "chunks n xs =
     (if xs = [] then [] else if n = 0 then [xs] else take n xs # chunks n (drop n xs))"
  by pat_completeness auto
termination
  by (relation "measure (\<lambda>(n, xs). length xs)") auto

declare chunks.simps [simp del]

lemma chunks_Nil [simp]: "chunks n [] = []"
  by (simp add: chunks.simps)

lemma chunks_step: "0 < n \<Longrightarrow> xs \<noteq> [] \<Longrightarrow> chunks n xs = take n xs # chunks n (drop n xs)"
  by (subst chunks.simps) simp

lemma concat_chunks [simp]: "concat (chunks n xs) = xs"
proof (induction n xs rule: chunks.induct)
  case (1 n xs)
  show ?case
  proof (cases "xs = [] \<or> n = 0")
    case True
    then show ?thesis by (subst chunks.simps) auto
  next
    case False
    with "1.IH" show ?thesis by (subst chunks.simps) simp
  qed
qed

lemma chunks_full:
  assumes "0 < n" and "n \<le> length xs"
  shows "chunks n xs = take n xs # chunks n (drop n xs)"
  using assms by (intro chunks_step) auto

lemma length_chunks_le: "0 < n \<Longrightarrow> c \<in> set (chunks n xs) \<Longrightarrow> length c \<le> n"
proof (induction n xs rule: chunks.induct)
  case (1 n xs)
  then show ?case
    by (cases "xs = []") (auto simp: chunks_step)
qed

text \<open>Every slice but the last one is full.\<close>

lemma chunks_butlast_full:
  "0 < n \<Longrightarrow> c \<in> set (butlast (chunks n xs)) \<Longrightarrow> length c = n"
proof (induction n xs rule: chunks.induct)
  case (1 n xs)
  show ?case
  proof (cases "xs = []")
    case True
    with "1.prems" show ?thesis by simp
  next
    case False
    show ?thesis
    proof (cases "drop n xs = []")
      case True
      with "1.prems" False show ?thesis by (simp add: chunks_step)
    next
      case drop: False
      then have "n < length xs" by simp
      with "1.prems" False drop "1.IH" show ?thesis
        by (auto simp: chunks_step split: if_splits)
    qed
  qed
qed

section \<open>The priority queue interface of heapq\<close>

text \<open>
  What \<open>heapq\<close> promises on a list kept by it: a push adds one element, a pop removes and
  returns the least one. The order inside the array is never observed by the callers. The
  interface is a locale; its facts are used through the interpretation below.
\<close>

locale min_heap =
  fixes push :: "'a::linorder \<Rightarrow> 'h \<Rightarrow> 'h"
    and pop :: "'h \<Rightarrow> ('a \<times> 'h) option"
    and elems :: "'h \<Rightarrow> 'a multiset"
  assumes elems_push: "elems (push x h) = add_mset x (elems h)"
    and pop_None: "pop h = None \<longleftrightarrow> elems h = {#}"
    and pop_elems: "pop h = Some (x, h') \<Longrightarrow> elems h = add_mset x (elems h')"
    and pop_least: "pop h = Some (x, h') \<Longrightarrow> y \<in># elems h \<Longrightarrow> x \<le> y"
begin

lemma pop_size: "pop h = Some (x, h') \<Longrightarrow> size (elems h) = Suc (size (elems h'))"
  by (simp add: pop_elems)

lemma pop_progress: "elems h \<noteq> {#} \<Longrightarrow> \<exists>x h'. pop h = Some (x, h')"
  using pop_None [of h] by (cases "pop h") auto

lemma pop_push_size: "pop h = Some (x, h') \<Longrightarrow> size (elems (push y h')) = size (elems h)"
  by (simp add: pop_elems elems_push)

lemma pop_mem: "pop h = Some (x, h') \<Longrightarrow> x \<in># elems h"
  by (simp add: pop_elems)

end

definition heap_push :: "'a::linorder \<Rightarrow> 'a list \<Rightarrow> 'a list" where
  "heap_push x h = x # h"

definition heap_pop :: "'a::linorder list \<Rightarrow> ('a \<times> 'a list) option" where
  "heap_pop h = (case min_by id h of None \<Rightarrow> None | Some x \<Rightarrow> Some (x, remove1 x h))"

interpretation lheap: min_heap heap_push heap_pop mset
proof
  show "mset (heap_push x h) = add_mset x (mset h)" for x and h :: "'a::linorder list"
    by (simp add: heap_push_def)
  show "heap_pop h = None \<longleftrightarrow> mset h = {#}" for h :: "'a::linorder list"
    by (auto simp: heap_pop_def split: option.splits)
  show "mset h = add_mset x (mset h')" if "heap_pop h = Some (x, h')"
    for x and h h' :: "'a::linorder list"
    using that by (auto simp: heap_pop_def split: option.splits dest: min_by_mem)
  show "x \<le> y" if "heap_pop h = Some (x, h')" "y \<in># mset h"
    for x y and h h' :: "'a::linorder list"
    using that by (auto simp: heap_pop_def split: option.splits dest: min_by_le)
qed

section \<open>Lists and sums\<close>

lemma sum_list_update_add:
  fixes xs :: "nat list"
  assumes "i < length xs"
  shows "sum_list (xs[i := xs ! i + n]) = sum_list xs + n"
  using assms by (induction xs arbitrary: i) (auto split: nat.splits)

lemma sum_list_ge_nth: "i < length xs \<Longrightarrow> xs ! i \<le> sum_list (xs :: nat list)"
  by (rule elem_le_sum_list)

lemma sum_list_replicate_nat [simp]: "sum_list (replicate n (x::nat)) = n * x"
  by (induction n) auto

lemma takeWhile_prefix_all: "takeWhile P xs = xs \<longleftrightarrow> (\<forall>x \<in> set xs. P x)"
  by (induction xs) auto

lemma filter_singleton:
  assumes "distinct xs" "x \<in> set xs" "P x" "\<And>y. y \<in> set xs \<Longrightarrow> P y \<Longrightarrow> y = x"
  shows "filter P xs = [x]"
proof -
  from assms(2) obtain us vs where xs: "xs = us @ x # vs" by (meson split_list)
  with assms(1) have "x \<notin> set us" "x \<notin> set vs" by auto
  with assms(4) xs have "filter P us = []" "filter P vs = []" by (auto simp: filter_empty_conv)
  with xs assms(3) show ?thesis by simp
qed

end
