(* ===== verification/PyValue.thy ===== *)
theory PyValue
  imports Prelude
begin

text \<open>
  The values the components exchange as JSON and what the code uses of Python's built-in
  conversions on them: \<open>int\<close>, \<open>bool\<close>, \<open>list\<close>, \<open>str.split\<close>, the decimal
  rendering of integers in f-strings, and \<open>repr\<close> of the tuples the block hashes are
  computed from. Strings are byte strings; only their ASCII part occurs in identifiers.
\<close>

section \<open>Decimal integers\<close>

definition digit_char :: "nat \<Rightarrow> char" where
  "digit_char d = char_of (48 + d)"

definition digit_val :: "char \<Rightarrow> nat option" where
  "digit_val c = (let k = of_char c :: nat in if 48 \<le> k \<and> k \<le> 57 then Some (k - 48) else None)"

fun show_nat :: "nat \<Rightarrow> string" where
  "show_nat n = (if n < 10 then [digit_char n] else show_nat (n div 10) @ [digit_char (n mod 10)])"

declare show_nat.simps [simp del]

text \<open>\<open>str(i)\<close>, and \<open>{i}\<close> in an f-string.\<close>

definition show_int :: "int \<Rightarrow> string" where
  "show_int i = (if i < 0 then CHR ''-'' # show_nat (nat (- i)) else show_nat (nat i))"

text \<open>
  \<open>int(s)\<close> on a string: surrounding white space is dropped, then an optional sign and
  decimal digits, with single underscores allowed between digits.
\<close>

definition is_space :: "char \<Rightarrow> bool" where
  "is_space c = (let k = of_char c :: nat in k = 32 \<or> (9 \<le> k \<and> k \<le> 13) \<or> (28 \<le> k \<and> k \<le> 31))"

definition py_strip :: "string \<Rightarrow> string" where
  "py_strip s = rev (dropWhile is_space (rev (dropWhile is_space s)))"

fun digits_acc :: "bool \<Rightarrow> nat \<Rightarrow> string \<Rightarrow> nat option" where
  "digits_acc prev acc [] = (if prev then Some acc else None)"
| "digits_acc prev acc (c # cs) =
     (if c = CHR ''_'' then (if prev then digits_acc False acc cs else None)
      else (case digit_val c of None \<Rightarrow> None | Some d \<Rightarrow> digits_acc True (acc * 10 + d) cs))"

fun int_body :: "string \<Rightarrow> int option" where
  "int_body [] = None"
| "int_body (c # cs) =
     (if c = CHR ''-'' then map_option (\<lambda>n. - int n) (digits_acc False 0 cs)
      else if c = CHR ''+'' then map_option int (digits_acc False 0 cs)
      else map_option int (digits_acc False 0 (c # cs)))"

definition int_of_str :: "string \<Rightarrow> int res" where
  "int_of_str s = (case int_body (py_strip s) of None \<Rightarrow> Inl ValueError | Some i \<Rightarrow> Inr i)"

text \<open>\<open>s.split(c)\<close> for a one-character separator.\<close>

fun split_on :: "char \<Rightarrow> string \<Rightarrow> string list" where
  "split_on c [] = [[]]"
| "split_on c (x # xs) =
     (if x = c then [] # split_on c xs
      else (case split_on c xs of [] \<Rightarrow> [[x]] | h # t \<Rightarrow> (x # h) # t))"

text \<open>\<open>sep.join(parts)\<close>.\<close>

fun join_str :: "string \<Rightarrow> string list \<Rightarrow> string" where
  "join_str sep [] = []"
| "join_str sep [x] = x"
| "join_str sep (x # y # zs) = x @ sep @ join_str sep (y # zs)"

section \<open>JSON values and conversions\<close>

datatype json =
    JNull
  | JBool bool
  | JInt int
  | JFloat rat
  | JStr string
  | JList "json list"
  | JObj "(string \<times> json) list"

text \<open>\<open>d[k]\<close> and \<open>d.get(k)\<close> on a parsed JSON object.\<close>

fun json_get :: "json \<Rightarrow> string \<Rightarrow> json res" where
  "json_get (JObj d) k = Inr (case map_of d k of None \<Rightarrow> JNull | Some v \<Rightarrow> v)"
| "json_get _ k = Inl AttributeError"

fun json_item :: "json \<Rightarrow> string \<Rightarrow> json res" where
  "json_item (JObj d) k = dict_item d k"
| "json_item _ k = Inl TypeError"

text \<open>Truth value of a JSON value, used by \<open>or\<close> and \<open>bool(...)\<close>.\<close>

fun truthy :: "json \<Rightarrow> bool" where
  "truthy JNull = False"
| "truthy (JBool b) = b"
| "truthy (JInt i) = (i \<noteq> 0)"
| "truthy (JFloat r) = (r \<noteq> 0)"
| "truthy (JStr s) = (s \<noteq> [])"
| "truthy (JList xs) = (xs \<noteq> [])"
| "truthy (JObj d) = (d \<noteq> [])"

text \<open>\<open>int(x)\<close>; a float is truncated towards zero.\<close>

definition trunc_rat :: "rat \<Rightarrow> int" where
  "trunc_rat r = (if 0 \<le> r then \<lfloor>r\<rfloor> else \<lceil>r\<rceil>)"

fun int_of_json :: "json \<Rightarrow> int res" where
  "int_of_json (JInt i) = Inr i"
| "int_of_json (JBool b) = Inr (if b then 1 else 0)"
| "int_of_json (JFloat r) = Inr (trunc_rat r)"
| "int_of_json (JStr s) = int_of_str s"
| "int_of_json _ = Inl TypeError"

text \<open>\<open>list(x)\<close>.\<close>

fun list_of_json :: "json \<Rightarrow> json list res" where
  "list_of_json (JList xs) = Inr xs"
| "list_of_json (JStr s) = Inr (map (\<lambda>c. JStr [c]) s)"
| "list_of_json (JObj d) = Inr (map (\<lambda>p. JStr (fst p)) d)"
| "list_of_json _ = Inl TypeError"

text \<open>\<open>x or d\<close>, \<open>x.get(k, d)\<close> and \<open>len(x)\<close>.\<close>

definition json_or :: "json \<Rightarrow> json \<Rightarrow> json" where
  "json_or j d = (if truthy j then j else d)"

fun json_get_or :: "json \<Rightarrow> string \<Rightarrow> json \<Rightarrow> json res" where
  "json_get_or (JObj d) k x = Inr (case map_of d k of None \<Rightarrow> x | Some v \<Rightarrow> v)"
| "json_get_or _ k x = Inl AttributeError"

definition json_len :: "json \<Rightarrow> nat res" where
  "json_len j = map_sum id length (list_of_json j)"

section \<open>repr of the hashed tuples\<close>

definition repr_bool :: "bool \<Rightarrow> string" where
  "repr_bool b = (if b then ''True'' else ''False'')"

definition repr_opt_int :: "int option \<Rightarrow> string" where
  "repr_opt_int x = (case x of None \<Rightarrow> ''None'' | Some i \<Rightarrow> show_int i)"

fun repr_int_tuple :: "int list \<Rightarrow> string" where
  "repr_int_tuple [] = ''()''"
| "repr_int_tuple [x] = ''('' @ show_int x @ '',)''"
| "repr_int_tuple xs = ''('' @ join_str '', '' (map show_int xs) @ '')''"

text \<open>\<open>repr((is_first, prev, tuple(tokens), extra))\<close>.\<close>

definition repr_block_key :: "bool \<Rightarrow> int option \<Rightarrow> int list \<Rightarrow> int option \<Rightarrow> string" where
  "repr_block_key is_first prev toks extra =
     ''('' @ repr_bool is_first @ '', '' @ repr_opt_int prev @ '', '' @
     repr_int_tuple toks @ '', '' @ repr_opt_int extra @ '')''"

section \<open>Round trip of integers\<close>

lemma digit_val_char [simp]: "d < 10 \<Longrightarrow> digit_val (digit_char d) = Some d"
  by (simp add: digit_val_def digit_char_def)

lemma digit_char_not_space [simp]: "d < 10 \<Longrightarrow> \<not> is_space (digit_char d)"
  by (simp add: is_space_def digit_char_def)

lemma digit_char_range:
  assumes "d < 10"
  shows "(of_char (digit_char d) :: nat) = 48 + d"
  using assms by (simp add: digit_char_def)

lemma digit_char_neq:
  assumes "d < 10" and "(of_char c :: nat) < 48 \<or> 57 < (of_char c :: nat)"
  shows "digit_char d \<noteq> c"
  using digit_char_range [OF assms(1)] assms by auto

lemma show_nat_small: "n < 10 \<Longrightarrow> show_nat n = [digit_char n]"
  by (simp add: show_nat.simps)

lemma show_nat_big:
  "\<not> n < 10 \<Longrightarrow> show_nat n = show_nat (n div 10) @ [digit_char (n mod 10)]"
  by (subst show_nat.simps) simp

lemma show_nat_chars: "c \<in> set (show_nat n) \<Longrightarrow> \<exists>d < 10. c = digit_char d"
proof (induction n rule: show_nat.induct)
  case (1 n)
  show ?case
  proof (cases "n < 10")
    case True
    with "1.prems" show ?thesis by (auto simp: show_nat_small)
  next
    case False
    have "n mod 10 < 10" by simp
    moreover from "1.prems" False have "c \<in> set (show_nat (n div 10)) \<or> c = digit_char (n mod 10)"
      by (simp add: show_nat_big disj_commute)
    ultimately show ?thesis using "1.IH" [OF False] by blast
  qed
qed

lemma show_nat_not_Nil [simp]: "show_nat n \<noteq> []"
  by (subst show_nat.simps) simp

lemma digits_acc_digit:
  "d < 10 \<Longrightarrow> digits_acc prev acc (digit_char d # ys) = digits_acc True (acc * 10 + d) ys"
  using digit_char_neq [of d "CHR ''_''"] by simp

lemma digits_acc_show_nat:
  "digits_acc prev acc (show_nat n @ ys) = digits_acc True (acc * 10 ^ length (show_nat n) + n) ys"
proof (induction n arbitrary: prev acc ys rule: show_nat.induct)
  case (1 n)
  show ?case
  proof (cases "n < 10")
    case True
    then show ?thesis
      by (simp add: show_nat_small digits_acc_digit del: digits_acc.simps)
  next
    case False
    have "digits_acc prev acc (show_nat n @ ys)
        = digits_acc prev acc (show_nat (n div 10) @ digit_char (n mod 10) # ys)"
      using False by (simp add: show_nat_big)
    also have "\<dots> = digits_acc True
        ((acc * 10 ^ length (show_nat (n div 10)) + n div 10) * 10 + n mod 10) ys"
      by (subst "1.IH" [OF False]) (simp add: digits_acc_digit del: digits_acc.simps)
    also have "(acc * 10 ^ length (show_nat (n div 10)) + n div 10) * 10 + n mod 10
        = acc * 10 ^ length (show_nat n) + n"
      using False by (simp add: show_nat_big algebra_simps)
    finally show ?thesis .
  qed
qed

lemma digits_acc_show_nat_all: "digits_acc False 0 (show_nat n) = Some n"
  using digits_acc_show_nat [of False 0 n "[]"] by simp

lemma show_int_char:
  "c \<in> set (show_int i) \<Longrightarrow> c = CHR ''-'' \<or> (\<exists>d < 10. c = digit_char d)"
  by (auto simp: show_int_def dest: show_nat_chars split: if_splits)

lemma show_int_avoids:
  assumes "(of_char c :: nat) < 48 \<or> 57 < (of_char c :: nat)" and "c \<noteq> CHR ''-''"
  shows "c \<notin> set (show_int i)"
  using assms digit_char_neq show_int_char by blast

lemma show_int_not_Nil [simp]: "show_int i \<noteq> []"
  by (simp add: show_int_def)

lemma py_strip_id: "(\<And>c. c \<in> set s \<Longrightarrow> \<not> is_space c) \<Longrightarrow> py_strip s = s"
proof -
  assume a: "\<And>c. c \<in> set s \<Longrightarrow> \<not> is_space c"
  have "dropWhile is_space t = t" if "set t \<subseteq> set s" for t
    using that a by (cases t) auto
  then show ?thesis by (simp add: py_strip_def)
qed

lemma minus_not_space [simp]: "\<not> is_space (CHR ''-'')"
  by (simp add: is_space_def)

lemma py_strip_show_int [simp]: "py_strip (show_int i) = show_int i"
  by (rule py_strip_id) (auto dest: show_int_char)

lemma int_body_digits:
  assumes "s \<noteq> []" and "\<And>c. c \<in> set s \<Longrightarrow> \<exists>d < 10. c = digit_char d"
  shows "int_body s = map_option int (digits_acc False 0 s)"
proof (cases s)
  case (Cons c cs)
  then obtain d where "d < 10" "c = digit_char d"
    using assms(2) by (metis list.set_intros(1))
  with digit_char_neq [of d "CHR ''-''"] digit_char_neq [of d "CHR ''+''"] Cons show ?thesis
    by simp
qed (use assms in simp)

lemma int_of_str_show_int [simp]: "int_of_str (show_int i) = Inr i"
proof (cases "i < 0")
  case True
  then have "int_body (show_int i) = Some i"
    by (simp add: show_int_def digits_acc_show_nat_all)
  then show ?thesis by (simp add: int_of_str_def)
next
  case False
  then have "int_body (show_int i) = Some i"
    by (simp add: show_int_def int_body_digits show_nat_chars digits_acc_show_nat_all)
  then show ?thesis by (simp add: int_of_str_def)
qed

lemma show_int_inject [simp]: "show_int i = show_int j \<longleftrightarrow> i = j"
  by (metis int_of_str_show_int sum.inject(2))

section \<open>Splitting\<close>

lemma split_on_not_Nil [simp]: "split_on c s \<noteq> []"
  by (induction s) (auto split: list.splits)

lemma split_on_none: "c \<notin> set s \<Longrightarrow> split_on c s = [s]"
  by (induction s) auto

lemma split_on_append:
  "c \<notin> set a \<Longrightarrow> split_on c (a @ c # b) = a # split_on c b"
  by (induction a) auto

lemma split_on_two: "c \<notin> set a \<Longrightarrow> c \<notin> set b \<Longrightarrow> split_on c (a @ c # b) = [a, b]"
  by (simp add: split_on_append split_on_none)

section \<open>The rendering of a hashed tuple determines the tuple\<close>

lemma prefix_sep_inject:
  assumes "a @ c # x = b @ c # y" and "c \<notin> set a" and "c \<notin> set b"
  shows "a = b \<and> x = y"
  using assms
proof (induction a arbitrary: b)
  case Nil
  then show ?case by (cases b) auto
next
  case (Cons d a)
  then show ?case by (cases b) auto
qed

lemma comma_not_in_show_int [simp]: "CHR '','' \<notin> set (show_int i)"
  by (rule show_int_avoids) auto

lemma paren_not_in_show_int [simp]: "CHR '')'' \<notin> set (show_int i)"
  by (rule show_int_avoids) auto

lemma comma_not_in_repr_opt_int [simp]: "CHR '','' \<notin> set (repr_opt_int x)"
  by (simp add: repr_opt_int_def split: option.splits)

lemma comma_not_in_repr_bool [simp]: "CHR '','' \<notin> set (repr_bool b)"
  by (simp add: repr_bool_def)

lemma letter_not_in_show_int: "CHR ''N'' \<notin> set (show_int i)"
  by (rule show_int_avoids) auto

lemma repr_opt_int_inject [simp]: "repr_opt_int x = repr_opt_int y \<longleftrightarrow> x = y"
proof -
  have "show_int i \<noteq> ''None''" for i
    using letter_not_in_show_int [of i] by (metis list.set_intros(1))
  then show ?thesis
    by (auto simp: repr_opt_int_def split: option.splits) metis+
qed

lemma repr_bool_inject [simp]: "repr_bool a = repr_bool b \<longleftrightarrow> a = b"
  by (simp add: repr_bool_def)

text \<open>
  Inside the parentheses a tuple is rendered as its numbers separated by a comma and a
  blank; this helper states it uniformly with the closing parenthesis and what follows.
\<close>

fun tuple_tail :: "int list \<Rightarrow> string" where
  "tuple_tail [] = '')''"
| "tuple_tail (x # xs) = '', '' @ show_int x @ tuple_tail xs"

lemma join_tuple_tail:
  "join_str '', '' (map show_int (x # xs)) @ '')'' = show_int x @ tuple_tail xs"
  by (induction xs arbitrary: x) auto

lemma repr_int_tuple_eq:
  "repr_int_tuple xs = (case xs of [] \<Rightarrow> ''()'' | [x] \<Rightarrow> ''('' @ show_int x @ '',)''
     | x # y # zs \<Rightarrow> ''('' @ show_int x @ tuple_tail (y # zs))"
proof (cases xs rule: repr_int_tuple.cases)
  case (3 x y zs)
  then show ?thesis
    using join_tuple_tail [of x "y # zs"] by (simp del: tuple_tail.simps join_str.simps)
qed simp_all

lemma stop_char_inject:
  assumes "a @ x = b @ y" and "\<And>c. c \<in> set a \<Longrightarrow> c \<noteq> CHR '','' \<and> c \<noteq> CHR '')''"
    and "\<And>c. c \<in> set b \<Longrightarrow> c \<noteq> CHR '','' \<and> c \<noteq> CHR '')''"
    and "x \<noteq> []" "hd x = CHR '','' \<or> hd x = CHR '')''"
    and "y \<noteq> []" "hd y = CHR '','' \<or> hd y = CHR '')''"
  shows "a = b \<and> x = y"
  using assms
proof (induction a arbitrary: b)
  case Nil
  then show ?case by (cases b) auto
next
  case (Cons c a)
  show ?case
  proof (cases b)
    case Nil
    with Cons.prems show ?thesis by (cases y) auto
  next
    case (Cons d b')
    with Cons.prems Cons.IH [of b'] show ?thesis by auto
  qed
qed

lemma show_int_stop:
  "c \<in> set (show_int i) \<Longrightarrow> c \<noteq> CHR '','' \<and> c \<noteq> CHR '')''"
  using comma_not_in_show_int paren_not_in_show_int by metis

lemma tuple_tail_hd [simp]:
  "tuple_tail xs \<noteq> []" "hd (tuple_tail xs) = CHR '','' \<or> hd (tuple_tail xs) = CHR '')''"
  by (cases xs; simp)+

lemma tuple_tail_inject:
  "tuple_tail xs @ r = tuple_tail ys @ s \<Longrightarrow> xs = ys \<and> r = s"
proof (induction xs arbitrary: ys)
  case Nil
  then show ?case by (cases ys) auto
next
  case (Cons x xs)
  show ?case
  proof (cases ys)
    case Nil
    with Cons.prems show ?thesis by simp
  next
    case ys: (Cons y ys')
    with Cons.prems have "show_int x @ (tuple_tail xs @ r) = show_int y @ (tuple_tail ys' @ s)"
      by simp
    from stop_char_inject [OF this show_int_stop show_int_stop]
    have "show_int x = show_int y" "tuple_tail xs @ r = tuple_tail ys' @ s"
      by simp_all
    with Cons.IH ys show ?thesis by simp
  qed
qed

text \<open>What follows the opening parenthesis of a rendered tuple.\<close>

fun tuple_body :: "int list \<Rightarrow> string" where
  "tuple_body [] = '')''"
| "tuple_body [z] = show_int z @ '',)''"
| "tuple_body (z # y # ys) = show_int z @ tuple_tail (y # ys)"

lemma repr_tuple_body: "repr_int_tuple zs = CHR ''('' # tuple_body zs"
  by (cases zs rule: tuple_body.cases) (simp_all add: repr_int_tuple_eq)

lemma tuple_body_Cons:
  "tuple_body (z # zs) @ q = show_int z @ (if zs = [] then '',)'' @ q else tuple_tail zs @ q)"
  by (cases zs) simp_all

lemma hd_tuple_body_Cons: "hd (tuple_body (z # zs) @ q) \<noteq> CHR '')''"
  using show_int_stop [of "hd (show_int z)" z] by (simp add: tuple_body_Cons)

lemma tuple_body_rest_inject:
  assumes "(if xs = [] then '',)'' @ r else tuple_tail xs @ r)
      = (if ys = [] then '',)'' @ s else tuple_tail ys @ s)"
  shows "xs = ys \<and> r = s"
proof -
  have ne: "tuple_tail (z # zs) @ q \<noteq> '',)'' @ q'" for z zs q q'
    by simp
  show ?thesis
  proof (cases "xs = []")
    case True
    with assms ne show ?thesis by (cases ys) (auto split: if_splits)
  next
    case False
    with assms ne have "ys \<noteq> []" by (cases xs) (auto split: if_splits)
    with False assms show ?thesis
      by (simp add: tuple_tail_inject)
  qed
qed

lemma tuple_body_inject:
  assumes "tuple_body xs @ r = tuple_body ys @ s"
  shows "xs = ys \<and> r = s"
proof (cases xs)
  case Nil
  with assms hd_tuple_body_Cons show ?thesis
    by (cases ys) (simp, metis append_Cons list.sel(1) tuple_body.simps(1))
next
  case xs: (Cons x xs')
  with assms hd_tuple_body_Cons have "ys \<noteq> []"
    by (metis append_Cons list.sel(1) tuple_body.simps(1))
  then obtain y ys' where ys: "ys = y # ys'" by (cases ys) auto
  let ?t = "if xs' = [] then '',)'' @ r else tuple_tail xs' @ r"
  let ?u = "if ys' = [] then '',)'' @ s else tuple_tail ys' @ s"
  from assms xs ys have "show_int x @ ?t = show_int y @ ?u"
    by (simp only: tuple_body_Cons)
  from stop_char_inject [OF this show_int_stop show_int_stop]
  have "x = y" "?t = ?u" by simp_all
  from \<open>?t = ?u\<close> have "xs' = ys' \<and> r = s"
    by (rule tuple_body_rest_inject)
  with xs ys \<open>x = y\<close> show ?thesis by simp
qed

lemma repr_int_tuple_inject:
  "repr_int_tuple xs @ r = repr_int_tuple ys @ s \<Longrightarrow> xs = ys \<and> r = s"
  by (simp add: repr_tuple_body tuple_body_inject)

lemma repr_block_key_inject:
  assumes "repr_block_key f p t e = repr_block_key f' p' t' e'"
  shows "f = f' \<and> p = p' \<and> t = t' \<and> e = e'"
proof -
  define k1 where "k1 t e = CHR '' '' # repr_int_tuple t @ '', '' @ repr_opt_int e @ '')''" for t e
  define k2 where "k2 p t e = CHR '' '' # repr_opt_int p @ CHR '','' # k1 t e" for p t e
  have key: "repr_block_key f p t e = CHR ''('' # (repr_bool f @ CHR '','' # k2 p t e)" for f p t e
    by (simp add: repr_block_key_def k1_def k2_def)
  from assms have "repr_bool f @ CHR '','' # k2 p t e = repr_bool f' @ CHR '','' # k2 p' t' e'"
    by (simp only: key list.inject)
  from prefix_sep_inject [OF this] have f: "f = f'" and 1: "k2 p t e = k2 p' t' e'"
    by simp_all
  from 1 have "repr_opt_int p @ CHR '','' # k1 t e = repr_opt_int p' @ CHR '','' # k1 t' e'"
    by (simp only: k2_def list.inject)
  from prefix_sep_inject [OF this] have p: "p = p'" and 2: "k1 t e = k1 t' e'"
    by simp_all
  from 2 have "t = t' \<and> '', '' @ repr_opt_int e @ '')'' = '', '' @ repr_opt_int e' @ '')''"
    by (intro repr_int_tuple_inject) (simp only: k1_def list.inject)
  with f p show ?thesis by simp
qed

section \<open>Node identifiers\<close>

text \<open>
  A node id is \<open>invocation:repeat\<close>; \<open>a, b = map(int, s.split(":"))\<close> raises
  \<^const>\<open>ValueError\<close> unless there are exactly two integer parts.
\<close>

definition parse_node_id :: "string \<Rightarrow> (int \<times> int) res" where
  "parse_node_id s =
     (case split_on (CHR '':'') s of
        [a, b] \<Rightarrow> bind_res (int_of_str a) (\<lambda>i. bind_res (int_of_str b) (\<lambda>r. Inr (i, r)))
      | _ \<Rightarrow> Inl ValueError)"

definition show_node_id :: "int \<times> int \<Rightarrow> string" where
  "show_node_id k = show_int (fst k) @ '':'' @ show_int (snd k)"

lemma colon_not_in_show_int [simp]: "CHR '':'' \<notin> set (show_int i)"
  by (rule show_int_avoids) auto

lemma parse_show_node_id [simp]: "parse_node_id (show_node_id k) = Inr k"
  by (simp add: parse_node_id_def show_node_id_def split_on_two)

end
