(* ===== verification/Dag.thy ===== *)
theory Dag
  imports PyValue
begin

text \<open>
  The execution graph of one query: \<open>src/coreflow/dag/dag.py\<close> and
  \<open>src/coreflow/dag/query.py\<close>. A \<open>Node\<close> object is referred to by its key
  \<open>(invocation_id, repeat)\<close> in \<open>node_mapping\<close>. The values of \<open>time.time()\<close> during one
  call are given by a clock: \<open>clk i\<close> is what the \<open>i\<close>-th read of that call returns.
\<close>

section \<open>Data\<close>

datatype node_status = WAITING | EXECUTING | FINISHED

type_synonym node_key = "int \<times> int"

record node =
  n_agent_id :: json
  n_invocation_id :: int
  n_repeat :: int
  n_status :: node_status
  n_query_id :: int
  n_input_tokens :: "json list"
  n_output_tokens :: "json list"
  n_keep_cache_in_gpu :: bool
  n_free_cache :: bool
  n_start_time :: pyfloat
  n_end_time :: "pyfloat option"
  n_cached_tokens :: int
  n_num_input_tokens :: int
  n_num_output_tokens :: int
  n_has_next_repeat :: bool
  n_next_repeat_cached_tokens :: "int option"
  n_next_repeat_context :: "int option"
  n_tool_call_finish_time :: pyfloat

text \<open>\<open>Node.__init__\<close>; an absent token list (\<open>None\<close>) becomes the empty list.\<close>

definition node_init ::
  "json \<Rightarrow> int \<Rightarrow> node_status \<Rightarrow> int \<Rightarrow> bool \<Rightarrow> bool \<Rightarrow> int \<Rightarrow> json list option \<Rightarrow> json list option
    \<Rightarrow> int \<Rightarrow> int \<Rightarrow> int \<Rightarrow> bool \<Rightarrow> int option \<Rightarrow> int option \<Rightarrow> pyfloat \<Rightarrow> node" where
  "node_init agent inv_id status rep keep free qid inp out cached n_in n_out has_next nr_cached nr_ctx tool =
     \<lparr>n_agent_id = agent, n_invocation_id = inv_id, n_repeat = rep, n_status = status,
      n_query_id = qid,
      n_input_tokens = (case inp of None \<Rightarrow> [] | Some xs \<Rightarrow> xs),
      n_output_tokens = (case out of None \<Rightarrow> [] | Some xs \<Rightarrow> xs),
      n_keep_cache_in_gpu = keep, n_free_cache = free,
      n_start_time = 0, n_end_time = None,
      n_cached_tokens = cached, n_num_input_tokens = n_in, n_num_output_tokens = n_out,
      n_has_next_repeat = has_next, n_next_repeat_cached_tokens = nr_cached,
      n_next_repeat_context = nr_ctx, n_tool_call_finish_time = tool\<rparr>"

definition assign_num_tokens :: "int \<Rightarrow> int \<Rightarrow> int \<Rightarrow> node \<Rightarrow> node" where
  "assign_num_tokens inp out cached n =
     n\<lparr>n_num_input_tokens := (if inp \<noteq> 0 then inp else 10),
       n_num_output_tokens := out, n_cached_tokens := cached\<rparr>"

text \<open>
  The dependency list of a key holds tuples of whatever length the parent ids split into;
  only pairs can ever equal the key of an executed node.
\<close>

type_synonym workflow = "(node_key, int list list) dict"

record dag =
  d_workflow :: workflow
  d_excuted :: "node_key set"
  d_entry :: "node_key option"
  d_node_count :: nat
  d_nodes :: "(node_key, node) dict"
  d_start_time :: pyfloat
  d_end_time :: "pyfloat option"
  d_latency :: "pyfloat option"

definition dag_new :: "pyfloat \<Rightarrow> dag" where
  "dag_new now = \<lparr>d_workflow = [], d_excuted = {}, d_entry = None, d_node_count = 0,
     d_nodes = [], d_start_time = now, d_end_time = None, d_latency = None\<rparr>"

section \<open>Loading the payload\<close>

definition parse_parent :: "json \<Rightarrow> int list res" where
  "parse_parent j =
     (case j of JStr s \<Rightarrow> map_res int_of_str (split_on (CHR '':'') s) | _ \<Rightarrow> Inl AttributeError)"

fun load_dependencies :: "(string \<times> json) list \<Rightarrow> workflow \<Rightarrow> workflow res" where
  "load_dependencies [] w = Inr w"
| "load_dependencies ((child, parents) # rest) w =
     bind_res (parse_node_id child) (\<lambda>k.
     bind_res (list_of_json parents) (\<lambda>ps.
     bind_res (map_res parse_parent ps) (\<lambda>deps.
     load_dependencies rest (AList.update k deps w))))"

definition node_of_record :: "json \<Rightarrow> (node_key \<times> node) res" where
  "node_of_record r =
     bind_res (json_item r ''node_id'') (\<lambda>nid.
     bind_res (case nid of JStr s \<Rightarrow> parse_node_id s | _ \<Rightarrow> Inl AttributeError) (\<lambda>k.
     bind_res (json_item r ''agent_name'') (\<lambda>agent.
     bind_res (bind_res (json_item r ''input_token_ids'') list_of_json) (\<lambda>inp.
     bind_res (bind_res (json_item r ''output_token_ids'') list_of_json) (\<lambda>out.
     bind_res (bind_res (json_item r ''cached_tokens'') int_of_json) (\<lambda>cached.
     bind_res (bind_res (json_item r ''num_input_tokens'') int_of_json) (\<lambda>n_in.
     bind_res (bind_res (json_item r ''num_output_tokens'') int_of_json) (\<lambda>n_out.
     bind_res (json_item r ''keep_cache_in_gpu'') (\<lambda>keep.
     bind_res (json_item r ''free_cache'') (\<lambda>free.
     Inr (k, node_init agent (fst k) WAITING (snd k) (truthy keep) (truthy free) 0
               (Some inp) (Some out) cached n_in n_out False None None 0)))))))))))"

fun load_nodes :: "json list \<Rightarrow> (node_key, node) dict \<Rightarrow> (node_key, node) dict res" where
  "load_nodes [] m = Inr m"
| "load_nodes (r # rs) m =
     bind_res (node_of_record r) (\<lambda>(k, n). load_nodes rs (AList.update k n m))"

definition init_from_payload :: "(string \<times> json) list \<Rightarrow> json list \<Rightarrow> dag \<Rightarrow> dag res" where
  "init_from_payload node_dependency node_list d =
     bind_res (load_dependencies node_dependency []) (\<lambda>w.
     bind_res (load_nodes node_list (d_nodes d)) (\<lambda>m.
     Inr (d\<lparr>d_workflow := w, d_nodes := m, d_node_count := length m\<rparr>)))"

definition create_dag_by_json :: "pyfloat \<Rightarrow> (string \<times> json) list \<Rightarrow> json list \<Rightarrow> dag res" where
  "create_dag_by_json now node_dependency node_list =
     init_from_payload node_dependency node_list (dag_new now)"

section \<open>Advancing the graph\<close>

definition dep_done :: "node_key set \<Rightarrow> int list \<Rightarrow> bool" where
  "dep_done ex dep = (case dep of [a, b] \<Rightarrow> (a, b) \<in> ex | _ \<Rightarrow> False)"

text \<open>
  The loop both \<open>update_result\<close> and \<open>get_entry_nodes\<close> run over the workflow: a waiting
  node whose dependency list passes the test is marked executing and returned. The node
  lookup happens only when the test holds and raises when the key has no node.
\<close>

fun start_where ::
  "(int list list \<Rightarrow> bool) \<Rightarrow> (nat \<Rightarrow> pyfloat) \<Rightarrow> nat \<Rightarrow> workflow \<Rightarrow> dag \<Rightarrow> node_key list res \<times> nat \<times> dag"
where
  "start_where ready clk i [] d = (Inr [], i, d)"
| "start_where ready clk i ((k, deps) # w) d =
     (if ready deps then
        (case map_of (d_nodes d) k of
           None \<Rightarrow> (Inl KeyError, i, d)
         | Some n \<Rightarrow>
             if n_status n = WAITING then
               (let d' = d\<lparr>d_nodes := AList.update k
                       (n\<lparr>n_status := EXECUTING, n_start_time := clk i\<rparr>) (d_nodes d)\<rparr>
                in case start_where ready clk (Suc i) w d' of
                     (Inl e, j, d'') \<Rightarrow> (Inl e, j, d'')
                   | (Inr ks, j, d'') \<Rightarrow> (Inr (k # ks), j, d''))
             else start_where ready clk i w d)
      else start_where ready clk i w d)"

definition is_completed :: "dag \<Rightarrow> bool" where
  "is_completed d \<longleftrightarrow> card (d_excuted d) = d_node_count d"

definition update_result ::
  "(nat \<Rightarrow> pyfloat) \<Rightarrow> int \<Rightarrow> int \<Rightarrow> (dag, node_key list) act" where
  "update_result clk inv_id rep d =
     (case map_of (d_nodes d) (inv_id, rep) of
        None \<Rightarrow> (Inl KeyError, d)
      | Some n \<Rightarrow>
          (let d1 = d\<lparr>d_excuted := insert (inv_id, rep) (d_excuted d),
                     d_nodes := AList.update (inv_id, rep)
                       (n\<lparr>n_status := FINISHED, n_end_time := Some (clk 1)\<rparr>) (d_nodes d)\<rparr>
           in case start_where (list_all (dep_done (d_excuted d1))) clk 2 (d_workflow d1) d1 of
                (Inl e, j, d2) \<Rightarrow> (Inl e, d2)
              | (Inr ks, j, d2) \<Rightarrow>
                  (Inr ks,
                   if is_completed d2
                   then d2\<lparr>d_end_time := Some (clk j), d_latency := Some (clk j - d_start_time d2)\<rparr>
                   else d2)))"

definition get_entry_nodes :: "(nat \<Rightarrow> pyfloat) \<Rightarrow> (dag, node_key list) act" where
  "get_entry_nodes clk d =
     (case start_where (\<lambda>deps. deps = []) clk 0 (d_workflow d) d of
        (r, j, d') \<Rightarrow> (r, d'))"

section \<open>Queries\<close>

record query =
  q_query_id :: int
  q_node_dependency :: "(string \<times> json) list"
  q_node_list :: "json list"
  q_submit_time :: pyfloat
  q_work_dir :: string
  q_dag :: dag
  q_agent_cumulative_time :: pyfloat

definition query_new ::
  "int \<Rightarrow> string \<Rightarrow> (string \<times> json) list \<Rightarrow> json list \<Rightarrow> pyfloat \<Rightarrow> pyfloat \<Rightarrow> query res" where
  "query_new qid work_dir deps nodes submit now =
     bind_res (create_dag_by_json now deps nodes) (\<lambda>d.
     Inr \<lparr>q_query_id = qid, q_node_dependency = deps, q_node_list = nodes,
          q_submit_time = submit, q_work_dir = work_dir, q_dag = d,
          q_agent_cumulative_time = 0\<rparr>)"

definition query_get_entry_nodes :: "(nat \<Rightarrow> pyfloat) \<Rightarrow> (query, node_key list) act" where
  "query_get_entry_nodes clk q =
     (case get_entry_nodes clk (q_dag q) of (r, d) \<Rightarrow> (r, q\<lparr>q_dag := d\<rparr>))"

definition get_entry :: "query \<Rightarrow> node_key option" where
  "get_entry q = d_entry (q_dag q)"

text \<open>The time spent in the finished node is added before the graph is advanced.\<close>

definition get_next_execute_agents ::
  "pyfloat \<Rightarrow> (nat \<Rightarrow> pyfloat) \<Rightarrow> int \<Rightarrow> int \<Rightarrow> (query, node_key list) act" where
  "get_next_execute_agents now clk inv_id rep q =
     (let q1 = (case map_of (d_nodes (q_dag q)) (inv_id, rep) of
                  None \<Rightarrow> q
                | Some n \<Rightarrow> q\<lparr>q_agent_cumulative_time := q_agent_cumulative_time q + (now - n_start_time n)\<rparr>)
      in case update_result clk inv_id rep (q_dag q1) of (r, d) \<Rightarrow> (r, q1\<lparr>q_dag := d\<rparr>))"

definition query_is_completed :: "query \<Rightarrow> bool" where
  "query_is_completed q = is_completed (q_dag q)"

definition get_latency :: "query \<Rightarrow> pyfloat res" where
  "get_latency q =
     (if \<not> query_is_completed q then Inl AssertionError
      else case d_latency (q_dag q) of None \<Rightarrow> Inl AssertionError | Some t \<Rightarrow> Inr t)"

section \<open>Runs\<close>

text \<open>
  A run of the graph: the entry nodes are started once, then a completion arrives for a
  node that is executing. The list collects every node ever handed to the dispatcher, in
  order. Calls that raise are not part of a run; they are treated on their own below.
\<close>

definition node_state :: "dag \<Rightarrow> node_key \<Rightarrow> node_status option" where
  "node_state d k = map_option n_status (map_of (d_nodes d) k)"

inductive dag_run :: "dag \<Rightarrow> node_key list \<Rightarrow> dag \<Rightarrow> bool" for d0 :: dag where
  start: "get_entry_nodes clk d0 = (Inr ks, d) \<Longrightarrow> dag_run d0 ks d"
| complete: "dag_run d0 ks d \<Longrightarrow> node_state d (i, r) = Some EXECUTING \<Longrightarrow>
    update_result clk i r d = (Inr ks', d') \<Longrightarrow> dag_run d0 (ks @ ks') d'"

text \<open>The state a freshly loaded graph is in.\<close>

definition dag_fresh :: "dag \<Rightarrow> bool" where
  "dag_fresh d \<longleftrightarrow> dict_wf (d_workflow d) \<and> dict_wf (d_nodes d) \<and> d_excuted d = {}
     \<and> d_node_count d = length (d_nodes d) \<and> d_end_time d = None \<and> d_latency d = None
     \<and> (\<forall>k n. map_of (d_nodes d) k = Some n \<longrightarrow> n_status n = WAITING)"

section \<open>Lemmas: loading\<close>

lemma load_dependencies_wf: "load_dependencies deps w = Inr w' \<Longrightarrow> dict_wf w \<Longrightarrow> dict_wf w'"
  by (induction deps w rule: load_dependencies.induct) (auto simp: bind_res_Inr_iff)

lemma node_of_record_waiting: "node_of_record r = Inr (k, n) \<Longrightarrow> n_status n = WAITING"
  by (auto simp: node_of_record_def bind_res_Inr_iff node_init_def)

lemma load_nodes_wf:
  "load_nodes rs m = Inr m' \<Longrightarrow> dict_wf m \<Longrightarrow> dict_wf m'"
  by (induction rs m rule: load_nodes.induct) (auto simp: bind_res_Inr_iff)

lemma load_nodes_waiting:
  "load_nodes rs m = Inr m' \<Longrightarrow> \<forall>k n. map_of m k = Some n \<longrightarrow> n_status n = WAITING \<Longrightarrow>
     map_of m' k = Some n \<Longrightarrow> n_status n = WAITING"
proof (induction rs m arbitrary: m' rule: load_nodes.induct)
  case (2 r rs m)
  then obtain k' n' where r: "node_of_record r = Inr (k', n')"
    and l: "load_nodes rs (AList.update k' n' m) = Inr m'"
    by (auto simp: bind_res_Inr_iff)
  from "2.prems"(2) node_of_record_waiting [OF r]
  have "\<forall>k n. map_of (AList.update k' n' m) k = Some n \<longrightarrow> n_status n = WAITING"
    by simp
  from "2.IH" [OF l this "2.prems"(3)] show ?case .
next
  case (1 m)
  then have "m' = m" by simp
  with "1.prems" show ?case by blast
qed

lemma create_dag_fresh:
  "create_dag_by_json now deps nodes = Inr d \<Longrightarrow> dag_fresh d \<and> d_start_time d = now"
  by (auto simp: create_dag_by_json_def init_from_payload_def dag_new_def dag_fresh_def
      bind_res_Inr_iff dest: load_dependencies_wf load_nodes_wf load_nodes_waiting)

section \<open>Lemmas: the starting loop\<close>

text \<open>Which nodes the loop starts, in workflow order.\<close>

definition to_start :: "(int list list \<Rightarrow> bool) \<Rightarrow> workflow \<Rightarrow> dag \<Rightarrow> node_key list" where
  "to_start ready w d = map fst (filter (\<lambda>(k, deps). ready deps \<and> node_state d k = Some WAITING) w)"

lemma node_state_update:
  "node_state (d\<lparr>d_nodes := AList.update k n (d_nodes d)\<rparr>) =
     (node_state d)(k \<mapsto> n_status n)"
  by (auto simp: node_state_def)

lemma to_start_other:
  "k \<notin> fst ` set w \<Longrightarrow>
     to_start ready w (d\<lparr>d_nodes := AList.update k n (d_nodes d)\<rparr>) = to_start ready w d"
  unfolding to_start_def node_state_update
  by (intro arg_cong [where f = "map fst"] filter_cong refl) force

definition same_frame :: "dag \<Rightarrow> dag \<Rightarrow> bool" where
  "same_frame d d' \<longleftrightarrow> d_workflow d' = d_workflow d \<and> d_node_count d' = d_node_count d
     \<and> d_start_time d' = d_start_time d \<and> map fst (d_nodes d') = map fst (d_nodes d)"

lemma same_frame_refl [simp]: "same_frame d d"
  by (simp add: same_frame_def)

lemma same_frame_trans: "same_frame a b \<Longrightarrow> same_frame b c \<Longrightarrow> same_frame a c"
  by (simp add: same_frame_def)

lemma same_frame_upd:
  assumes "map_of (d_nodes d) k = Some n"
  shows "same_frame d (d\<lparr>d_nodes := AList.update k n' (d_nodes d)\<rparr>)"
proof -
  from assms have "k \<in> fst ` set (d_nodes d)"
    by (metis map_of_eq_None_iff option.distinct(1))
  then show ?thesis by (simp add: same_frame_def map_fst_update_mem)
qed

lemma same_frame_keys: "same_frame d d' \<Longrightarrow> fst ` set (d_nodes d') = fst ` set (d_nodes d)"
  unfolding same_frame_def by (metis list.set_map)

lemma node_state_None: "node_state d k = None \<longleftrightarrow> k \<notin> fst ` set (d_nodes d)"
  by (simp add: node_state_def map_of_eq_None_iff)

lemma same_frame_state: "same_frame d d' \<Longrightarrow> node_state d' k = None \<longleftrightarrow> node_state d k = None"
  by (simp add: node_state_None same_frame_keys)

text \<open>One step of the loop, by the cases of its tests.\<close>

lemma start_where_skip:
  "\<not> ready deps \<or> (\<exists>s. node_state d k = Some s \<and> s \<noteq> WAITING) \<Longrightarrow>
     start_where ready clk i ((k, deps) # w) d = start_where ready clk i w d"
  by (auto simp: node_state_def)

lemma start_where_missing:
  "ready deps \<Longrightarrow> node_state d k = None \<Longrightarrow>
     start_where ready clk i ((k, deps) # w) d = (Inl KeyError, i, d)"
  by (auto simp: node_state_def)

definition mark_started :: "pyfloat \<Rightarrow> node_key \<Rightarrow> dag \<Rightarrow> dag" where
  "mark_started t k d = (case map_of (d_nodes d) k of None \<Rightarrow> d | Some n \<Rightarrow>
     d\<lparr>d_nodes := AList.update k (n\<lparr>n_status := EXECUTING, n_start_time := t\<rparr>) (d_nodes d)\<rparr>)"

lemma start_where_hit:
  "ready deps \<Longrightarrow> node_state d k = Some WAITING \<Longrightarrow>
     start_where ready clk i ((k, deps) # w) d =
       (case start_where ready clk (Suc i) w (mark_started (clk i) k d) of
          (Inl e, j, d'') \<Rightarrow> (Inl e, j, d'') | (Inr ks, j, d'') \<Rightarrow> (Inr (k # ks), j, d''))"
  by (auto simp: node_state_def mark_started_def Let_def)

lemma node_state_mark_started:
  "node_state d k = Some s \<Longrightarrow> node_state (mark_started t k d) = (node_state d)(k \<mapsto> EXECUTING)"
  by (auto simp: mark_started_def node_state_def)

lemma to_start_mark_started:
  assumes "k \<notin> fst ` set w"
  shows "to_start ready w (mark_started t k d) = to_start ready w d"
  using to_start_other [OF assms] by (simp add: mark_started_def split: option.split)

lemma mark_started_frame:
  "same_frame d (mark_started t k d) \<and> d_excuted (mark_started t k d) = d_excuted d
     \<and> d_end_time (mark_started t k d) = d_end_time d \<and> d_latency (mark_started t k d) = d_latency d"
  by (simp add: mark_started_def same_frame_upd split: option.split)

lemma start_where_cases:
  obtains (skip) "\<not> ready deps \<or> (\<exists>s. node_state d k = Some s \<and> s \<noteq> WAITING)"
  | (missing) "ready deps" "node_state d k = None"
  | (hit) "ready deps" "node_state d k = Some WAITING"
  by (cases "ready deps"; cases "node_state d k") auto

lemma start_where_frame:
  "start_where ready clk i w d = (r, j, d') \<Longrightarrow>
     same_frame d d' \<and> d_excuted d' = d_excuted d \<and> d_end_time d' = d_end_time d
     \<and> d_latency d' = d_latency d"
proof (induction w arbitrary: i d r j d')
  case (Cons kd w)
  obtain k deps where kd: "kd = (k, deps)" by (cases kd)
  show ?case
  proof (cases rule: start_where_cases [of ready deps d k])
    case skip
    then have "start_where ready clk i w d = (r, j, d')"
      using Cons.prems kd start_where_skip by metis
    then show ?thesis by (rule Cons.IH)
  next
    case missing
    then have "d' = d" using Cons.prems kd start_where_missing by (metis prod.inject)
    then show ?thesis by simp
  next
    case hit
    obtain r1 j1 d1 where eq: "start_where ready clk (Suc i) w (mark_started (clk i) k d) = (r1, j1, d1)"
      by (cases "start_where ready clk (Suc i) w (mark_started (clk i) k d)")
    with Cons.prems kd start_where_hit [of ready deps d k clk i w] hit have "d' = d1"
      by (auto split: sum.splits)
    with Cons.IH [OF eq] mark_started_frame [of d "clk i" k] show ?thesis
      by (auto intro: same_frame_trans)
  qed
qed simp

lemma start_where_ok:
  "start_where ready clk i w d = (Inr ks, j, d') \<Longrightarrow> dict_wf w \<Longrightarrow>
     ks = to_start ready w d
     \<and> node_state d' = (\<lambda>k. if k \<in> set ks then Some EXECUTING else node_state d k)
     \<and> (\<forall>(k, deps) \<in> set w. ready deps \<longrightarrow> node_state d k \<noteq> None)"
proof (induction w arbitrary: i d ks j d')
  case Nil
  then show ?case by (simp add: to_start_def)
next
  case (Cons kd w)
  obtain k deps where kd: "kd = (k, deps)" by (cases kd)
  with Cons.prems(2) have wf: "dict_wf w" and new: "k \<notin> fst ` set w"
    by (auto simp: dict_wf_def)
  show ?case
  proof (cases rule: start_where_cases [of ready deps d k])
    case skip
    then have "start_where ready clk i w d = (Inr ks, j, d')"
      using Cons.prems(1) kd start_where_skip by metis
    from Cons.IH [OF this wf] skip kd show ?thesis
      by (auto simp: to_start_def)
  next
    case missing
    with Cons.prems(1) kd start_where_missing [of ready deps d k clk i w] show ?thesis by simp
  next
    case hit
    from Cons.prems(1) kd start_where_hit [of ready deps d k clk i w] hit
    obtain ks' where ks: "ks = k # ks'"
      and eq: "start_where ready clk (Suc i) w (mark_started (clk i) k d) = (Inr ks', j, d')"
      by (auto split: prod.splits sum.splits)
    from Cons.IH [OF eq wf]
    have ks': "ks' = to_start ready w d"
      and st: "node_state d' = (\<lambda>l. if l \<in> set ks' then Some EXECUTING else ((node_state d)(k \<mapsto> EXECUTING)) l)"
      and all: "\<forall>(l, dp) \<in> set w. ready dp \<longrightarrow> ((node_state d)(k \<mapsto> EXECUTING)) l \<noteq> None"
      unfolding to_start_mark_started [OF new] node_state_mark_started [OF hit(2)] by blast+
    have "to_start ready (kd # w) d = k # to_start ready w d"
      using hit kd by (simp add: to_start_def)
    moreover have "node_state d' = (\<lambda>l. if l \<in> set ks then Some EXECUTING else node_state d l)"
      using st ks by auto
    moreover have "\<forall>(l, dp) \<in> set (kd # w). ready dp \<longrightarrow> node_state d l \<noteq> None"
      using all hit(2) kd by (auto split: if_splits)
    ultimately show ?thesis using ks ks' by simp
  qed
qed

text \<open>The loop does not raise when every workflow key has a node.\<close>

lemma start_where_total:
  "\<forall>k \<in> fst ` set w. node_state d k \<noteq> None \<Longrightarrow> \<exists>ks j d'. start_where ready clk i w d = (Inr ks, j, d')"
proof (induction w arbitrary: i d)
  case (Cons kd w)
  obtain k deps where kd: "kd = (k, deps)" by (cases kd)
  show ?case
  proof (cases rule: start_where_cases [of ready deps d k])
    case skip
    then show ?thesis using Cons kd start_where_skip by (metis image_insert insertCI list.simps(15))
  next
    case missing
    with Cons.prems kd show ?thesis by simp
  next
    case hit
    have "\<forall>l \<in> fst ` set w. node_state (mark_started (clk i) k d) l \<noteq> None"
      using Cons.prems by (simp add: node_state_mark_started [OF hit(2)])
    from Cons.IH [OF this, of "Suc i"] obtain ks j d' where
      "start_where ready clk (Suc i) w (mark_started (clk i) k d) = (Inr ks, j, d')" by blast
    with hit kd start_where_hit [of ready deps d k clk i w] show ?thesis by simp
  qed
qed simp

section \<open>Lemmas: the two operations\<close>

lemma get_entry_nodes_ok:
  assumes "get_entry_nodes clk d = (Inr ks, d')" and "dict_wf (d_workflow d)"
  shows "ks = to_start (\<lambda>deps. deps = []) (d_workflow d) d"
    and "node_state d' = (\<lambda>k. if k \<in> set ks then Some EXECUTING else node_state d k)"
    and "same_frame d d' \<and> d_excuted d' = d_excuted d"
proof -
  from assms(1) obtain j where
    "start_where (\<lambda>deps. deps = []) clk 0 (d_workflow d) d = (Inr ks, j, d')"
    by (auto simp: get_entry_nodes_def split: prod.splits)
  from start_where_ok [OF this assms(2)] start_where_frame [OF this]
  show "ks = to_start (\<lambda>deps. deps = []) (d_workflow d) d"
    and "node_state d' = (\<lambda>k. if k \<in> set ks then Some EXECUTING else node_state d k)"
    and "same_frame d d' \<and> d_excuted d' = d_excuted d"
    by blast+
qed

definition mark_finished :: "pyfloat \<Rightarrow> node_key \<Rightarrow> dag \<Rightarrow> dag" where
  "mark_finished t k d = (case map_of (d_nodes d) k of None \<Rightarrow> d | Some n \<Rightarrow>
     d\<lparr>d_excuted := insert k (d_excuted d),
       d_nodes := AList.update k (n\<lparr>n_status := FINISHED, n_end_time := Some t\<rparr>) (d_nodes d)\<rparr>)"

lemma mark_finished_facts:
  assumes "node_state d k = Some s"
  shows "node_state (mark_finished t k d) = (node_state d)(k \<mapsto> FINISHED)"
    and "d_excuted (mark_finished t k d) = insert k (d_excuted d)"
    and "same_frame d (mark_finished t k d)"
    and "d_workflow (mark_finished t k d) = d_workflow d"
  using assms same_frame_upd [of d k]
  by (auto simp: mark_finished_def node_state_def same_frame_def split: option.splits)

lemma update_result_eq:
  assumes "node_state d (i, r) = Some s"
  shows "update_result clk i r d =
     (case start_where (list_all (dep_done (insert (i, r) (d_excuted d)))) clk 2 (d_workflow d)
             (mark_finished (clk 1) (i, r) d) of
        (Inl e, j, d2) \<Rightarrow> (Inl e, d2)
      | (Inr ks, j, d2) \<Rightarrow>
          (Inr ks, if is_completed d2
             then d2\<lparr>d_end_time := Some (clk j), d_latency := Some (clk j - d_start_time d2)\<rparr>
             else d2))"
  using assms by (auto simp: update_result_def mark_finished_def node_state_def Let_def)

lemma update_result_known:
  assumes "update_result clk i r d = (Inr ks, d')"
  shows "\<exists>s. node_state d (i, r) = Some s"
  using assms by (auto simp: update_result_def node_state_def split: option.splits)

text \<open>What a completion does to the states of the nodes, and which nodes it hands out.\<close>

lemma update_result_ok:
  assumes upd: "update_result clk i r d = (Inr ks, d')" and wf: "dict_wf (d_workflow d)"
  defines "ex \<equiv> insert (i, r) (d_excuted d)"
  defines "d1 \<equiv> mark_finished (clk 1) (i, r) d"
  shows "ks = to_start (list_all (dep_done ex)) (d_workflow d) d1"
    and "node_state d' = (\<lambda>k. if k \<in> set ks then Some EXECUTING
           else if k = (i, r) then Some FINISHED else node_state d k)"
    and "d_excuted d' = ex"
    and "same_frame d d'"
    and "is_completed d' \<longleftrightarrow> card ex = d_node_count d"
    and "is_completed d' \<Longrightarrow> \<exists>t. d_end_time d' = Some t \<and> d_latency d' = Some (t - d_start_time d)"
proof -
  obtain s where s: "node_state d (i, r) = Some s"
    using update_result_known [OF upd] by blast
  obtain j d2 where sw: "start_where (list_all (dep_done ex)) clk 2 (d_workflow d) d1 = (Inr ks, j, d2)"
    and d': "d' = (if is_completed d2
        then d2\<lparr>d_end_time := Some (clk j), d_latency := Some (clk j - d_start_time d2)\<rparr> else d2)"
    using upd unfolding update_result_eq [OF s] ex_def d1_def
    by (auto split: prod.splits sum.splits)
  note ok = start_where_ok [OF sw wf] and frame = start_where_frame [OF sw]
  note fin = mark_finished_facts [OF s, of "clk 1", folded d1_def]
  from ok show "ks = to_start (list_all (dep_done ex)) (d_workflow d) d1" by blast
  have st: "node_state d' = node_state d2" by (simp add: d' node_state_def fun_eq_iff)
  from ok have "node_state d2 = (\<lambda>k. if k \<in> set ks then Some EXECUTING else node_state d1 k)" by blast
  then show "node_state d' = (\<lambda>k. if k \<in> set ks then Some EXECUTING
       else if k = (i, r) then Some FINISHED else node_state d k)"
    by (auto simp: st fin(1))
  show "d_excuted d' = ex" using frame fin(2) by (simp add: d' ex_def)
  show sf: "same_frame d d'"
  proof -
    from frame fin(3) have "same_frame d d2" by (blast intro: same_frame_trans)
    then show ?thesis by (simp add: d' same_frame_def)
  qed
  show c: "is_completed d' \<longleftrightarrow> card ex = d_node_count d"
    using \<open>d_excuted d' = ex\<close> sf by (simp add: is_completed_def same_frame_def)
  show "is_completed d' \<Longrightarrow> \<exists>t. d_end_time d' = Some t \<and> d_latency d' = Some (t - d_start_time d)"
    using frame fin(3) by (auto simp: d' same_frame_def is_completed_def split: if_splits)
qed

lemma update_result_total:
  assumes "node_state d (i, r) = Some s" and "\<forall>k \<in> fst ` set (d_workflow d). node_state d k \<noteq> None"
  shows "\<exists>ks d'. update_result clk i r d = (Inr ks, d')"
proof -
  have "\<forall>k \<in> fst ` set (d_workflow d). node_state (mark_finished (clk 1) (i, r) d) k \<noteq> None"
    using assms(2) by (simp add: mark_finished_facts(1) [OF assms(1)])
  from start_where_total [OF this, of "list_all (dep_done (insert (i, r) (d_excuted d)))" clk 2]
  show ?thesis
    unfolding update_result_eq [OF assms(1)] by auto
qed

section \<open>The invariant of a run\<close>

text \<open>
  The nodes handed out so far are exactly those that are no longer waiting, none of them
  twice; the executed set is exactly the finished nodes; and a node of the workflow has
  been handed out iff all its dependencies are executed.
\<close>

definition dag_inv :: "dag \<Rightarrow> node_key list \<Rightarrow> dag \<Rightarrow> bool" where
  "dag_inv d0 ks d \<longleftrightarrow> same_frame d0 d
     \<and> distinct ks
     \<and> (\<forall>k. k \<in> set ks \<longleftrightarrow> node_state d k = Some EXECUTING \<or> node_state d k = Some FINISHED)
     \<and> (\<forall>k. k \<in> d_excuted d \<longleftrightarrow> node_state d k = Some FINISHED)
     \<and> set ks \<subseteq> fst ` set (d_workflow d0)
     \<and> (\<forall>(k, deps) \<in> set (d_workflow d0). node_state d0 k \<noteq> None \<longrightarrow>
          (k \<in> set ks \<longleftrightarrow> list_all (dep_done (d_excuted d)) deps))"

lemma dag_invD:
  assumes "dag_inv d0 ks d"
  shows "same_frame d0 d" and "distinct ks"
    and "\<And>k. k \<in> set ks \<longleftrightarrow> node_state d k = Some EXECUTING \<or> node_state d k = Some FINISHED"
    and "\<And>k. k \<in> d_excuted d \<longleftrightarrow> node_state d k = Some FINISHED"
    and "set ks \<subseteq> fst ` set (d_workflow d0)"
    and "\<And>k deps. (k, deps) \<in> set (d_workflow d0) \<Longrightarrow> node_state d0 k \<noteq> None \<Longrightarrow>
          k \<in> set ks \<longleftrightarrow> list_all (dep_done (d_excuted d)) deps"
  using assms unfolding dag_inv_def by blast+

lemma distinct_to_start: "dict_wf w \<Longrightarrow> distinct (to_start ready w d)"
  by (simp add: to_start_def dict_wf_def distinct_map_filter)

lemma set_to_start:
  "set (to_start ready w d) = {k. \<exists>deps. (k, deps) \<in> set w \<and> ready deps \<and> node_state d k = Some WAITING}"
  by (force simp: to_start_def)

lemma dep_done_mono: "ex \<subseteq> ex' \<Longrightarrow> dep_done ex dep \<Longrightarrow> dep_done ex' dep"
  by (auto simp: dep_done_def split: list.splits)

lemma list_all_dep_done_mono:
  "ex \<subseteq> ex' \<Longrightarrow> list_all (dep_done ex) deps \<Longrightarrow> list_all (dep_done ex') deps"
  by (auto simp: list_all_iff intro: dep_done_mono)

lemma dep_done_empty [simp]: "\<not> dep_done {} dep"
  by (simp add: dep_done_def split: list.splits)

lemma list_all_dep_done_empty: "list_all (dep_done {}) deps \<longleftrightarrow> deps = []"
  by (cases deps) simp_all

lemma dict_wf_unique: "dict_wf w \<Longrightarrow> (k, a) \<in> set w \<Longrightarrow> (k, b) \<in> set w \<Longrightarrow> a = b"
  by (metis dict_wf_map_of option.inject)

lemma fresh_state: "dag_fresh d \<Longrightarrow> node_state d k = None \<or> node_state d k = Some WAITING"
  by (cases "map_of (d_nodes d) k"; cases k) (auto simp: dag_fresh_def node_state_def)

lemma dag_inv_start:
  assumes fresh: "dag_fresh d0" and st: "get_entry_nodes clk d0 = (Inr ks, d)"
  shows "dag_inv d0 ks d"
proof -
  from fresh have wf: "dict_wf (d_workflow d0)" and ex: "d_excuted d0 = {}"
    by (simp_all add: dag_fresh_def)
  note ok = get_entry_nodes_ok [OF st wf]
  note states = fresh_state [OF fresh]
  have mem: "k \<in> set ks \<longleftrightarrow> (k, []) \<in> set (d_workflow d0) \<and> node_state d0 k = Some WAITING" for k
    by (simp add: ok(1) set_to_start)
  have 1: "distinct ks" using distinct_to_start [OF wf] ok(1) by simp
  have 2: "k \<in> set ks \<longleftrightarrow> node_state d k = Some EXECUTING \<or> node_state d k = Some FINISHED" for k
    using states [of k] by (auto simp: ok(2))
  have 3: "k \<in> d_excuted d \<longleftrightarrow> node_state d k = Some FINISHED" for k
    using states [of k] ok(3) ex by (auto simp: ok(2))
  have 4: "set ks \<subseteq> fst ` set (d_workflow d0)" using mem by force
  have 5: "k \<in> set ks \<longleftrightarrow> list_all (dep_done (d_excuted d)) deps"
    if m: "(k, deps) \<in> set (d_workflow d0)" "node_state d0 k \<noteq> None" for k deps
  proof -
    have "node_state d0 k = Some WAITING" using m(2) states [of k] by auto
    then have "k \<in> set ks \<longleftrightarrow> (k, []) \<in> set (d_workflow d0)" by (simp add: mem)
    also have "\<dots> \<longleftrightarrow> deps = []" using m(1) dict_wf_unique [OF wf m(1)] by metis
    finally show ?thesis using ok(3) ex by (simp add: list_all_dep_done_empty)
  qed
  from 1 2 3 4 5 ok(3) show ?thesis unfolding dag_inv_def by blast
qed

lemma dag_inv_step:
  assumes fresh: "dag_fresh d0" and inv: "dag_inv d0 ks d"
    and ex: "node_state d (i, r) = Some EXECUTING"
    and upd: "update_result clk i r d = (Inr ks', d')"
  shows "dag_inv d0 (ks @ ks') d'"
proof -
  note sf = dag_invD(1) [OF inv] and dist = dag_invD(2) [OF inv] and handed = dag_invD(3) [OF inv]
    and fin_ex = dag_invD(4) [OF inv] and sub = dag_invD(5) [OF inv] and deps = dag_invD(6) [OF inv]
  have w: "d_workflow d = d_workflow d0" using sf by (simp add: same_frame_def)
  from fresh w have wf: "dict_wf (d_workflow d)" by (simp add: dag_fresh_def)
  note ok = update_result_ok [OF upd wf]
  let ?ex = "insert (i, r) (d_excuted d)"
  have new: "k \<in> set ks' \<longleftrightarrow> (\<exists>dp. (k, dp) \<in> set (d_workflow d0) \<and> list_all (dep_done ?ex) dp
      \<and> node_state d k = Some WAITING)" for k
    using ex by (auto simp: ok(1) set_to_start mark_finished_facts(1) [OF ex] w)
  have disj: "k \<notin> set ks" if "k \<in> set ks'" for k
  proof -
    from that have "node_state d k = Some WAITING" unfolding new by blast
    then show ?thesis by (simp add: handed)
  qed
  have irk: "(i, r) \<in> set ks" "(i, r) \<notin> set ks'" using handed ex disj by auto
  have st: "node_state d' k = (if k \<in> set ks' then Some EXECUTING
       else if k = (i, r) then Some FINISHED else node_state d k)" for k
    by (simp add: ok(2))
  have 1: "distinct (ks @ ks')"
    using dist disj distinct_to_start [OF wf] ok(1) by auto
  have 2: "k \<in> set (ks @ ks') \<longleftrightarrow> node_state d' k = Some EXECUTING \<or> node_state d' k = Some FINISHED" for k
    using handed irk by (auto simp: st)
  have 3: "k \<in> d_excuted d' \<longleftrightarrow> node_state d' k = Some FINISHED" for k
    using fin_ex disj handed irk(2) by (auto simp: st ok(3))
  have 4: "set (ks @ ks') \<subseteq> fst ` set (d_workflow d0)"
  proof
    fix k assume "k \<in> set (ks @ ks')"
    then consider "k \<in> set ks" | "k \<in> set ks'" by auto
    then show "k \<in> fst ` set (d_workflow d0)"
    proof cases
      case 1
      with sub show ?thesis by blast
    next
      case 2
      then obtain dp where "(k, dp) \<in> set (d_workflow d0)" unfolding new by blast
      then show ?thesis by (rule image_eqI [rotated]) simp
    qed
  qed
  have 5: "k \<in> set (ks @ ks') \<longleftrightarrow> list_all (dep_done (d_excuted d')) dp"
    if m: "(k, dp) \<in> set (d_workflow d0)" "node_state d0 k \<noteq> None" for k dp
  proof
    assume "k \<in> set (ks @ ks')"
    then consider "k \<in> set ks" | "k \<in> set ks'" by auto
    then show "list_all (dep_done (d_excuted d')) dp"
    proof cases
      case 1
      with deps [OF m] show ?thesis
        using list_all_dep_done_mono [of "d_excuted d" "d_excuted d'"] by (auto simp: ok(3))
    next
      case 2
      then obtain dq where dq: "(k, dq) \<in> set (d_workflow d0)" "list_all (dep_done ?ex) dq"
        unfolding new by blast
      have "dq = dp" using dict_wf_unique [OF wf] dq(1) m(1) unfolding w by blast
      with dq(2) show ?thesis by (simp add: ok(3))
    qed
  next
    assume all: "list_all (dep_done (d_excuted d')) dp"
    have "node_state d k \<noteq> None" using m(2) same_frame_state [OF sf] by metis
    then consider "node_state d k = Some WAITING" | "k \<in> set ks"
      using handed node_status.exhaust by (metis option.exhaust)
    then show "k \<in> set (ks @ ks')"
      using all m(1) by cases (auto simp: new ok(3))
  qed
  have "same_frame d0 d'" using sf ok(4) by (rule same_frame_trans)
  with 1 2 3 4 5 show ?thesis unfolding dag_inv_def by blast
qed

lemma dag_run_inv: "dag_run d0 ks d \<Longrightarrow> dag_fresh d0 \<Longrightarrow> dag_inv d0 ks d"
  by (induction rule: dag_run.induct) (auto intro: dag_inv_start dag_inv_step)


lemma inv_counts:
  assumes fresh: "dag_fresh d0" and inv: "dag_inv d0 ks d"
  shows "d_excuted d \<subseteq> fst ` set (d_nodes d0)" and "finite (d_excuted d)"
    and "d_node_count d = card (fst ` set (d_nodes d0))"
    and "is_completed d \<longleftrightarrow> d_excuted d = fst ` set (d_nodes d0)"
proof -
  from inv have sf: "same_frame d0 d" by (simp add: dag_inv_def)
  show sub: "d_excuted d \<subseteq> fst ` set (d_nodes d0)"
  proof
    fix k assume "k \<in> d_excuted d"
    then have "node_state d k = Some FINISHED" by (simp add: dag_invD(4) [OF inv])
    then have "\<not> node_state d k = None" by simp
    then show "k \<in> fst ` set (d_nodes d0)"
      unfolding node_state_None same_frame_keys [OF sf] by simp
  qed
  then show "finite (d_excuted d)" by (rule finite_subset) simp
  have "d_node_count d = length (map fst (d_nodes d0))"
    using sf fresh by (simp add: same_frame_def dag_fresh_def)
  also have "\<dots> = card (set (map fst (d_nodes d0)))"
    using fresh distinct_card [of "map fst (d_nodes d0)"] by (simp add: dag_fresh_def dict_wf_def)
  finally show cnt: "d_node_count d = card (fst ` set (d_nodes d0))" by simp
  show "is_completed d \<longleftrightarrow> d_excuted d = fst ` set (d_nodes d0)"
    unfolding is_completed_def cnt using sub by (metis card_subset_eq finite_imageI finite_set)
qed

text \<open>
  A payload whose graph can run to its end: every node has a line in the dependency table,
  every line and every parent is a node, and the parents decrease along a rank.
\<close>

definition dag_closed :: "(node_key \<Rightarrow> nat) \<Rightarrow> dag \<Rightarrow> bool" where
  "dag_closed rank d \<longleftrightarrow> fst ` set (d_workflow d) = fst ` set (d_nodes d)
     \<and> (\<forall>(k, deps) \<in> set (d_workflow d). \<forall>dep \<in> set deps.
          \<exists>a b. dep = [a, b] \<and> (a, b) \<in> fst ` set (d_nodes d) \<and> rank (a, b) < rank k)"

lemma closed_some_executing:
  assumes fresh: "dag_fresh d0" and inv: "dag_inv d0 ks d" and closed: "dag_closed rank d0"
    and open_: "\<not> is_completed d"
  shows "\<exists>k. node_state d k = Some EXECUTING"
proof (rule ccontr)
  assume none: "\<not> (\<exists>k. node_state d k = Some EXECUTING)"
  note handed = dag_invD(3) [OF inv] and fin = dag_invD(4) [OF inv] and deps = dag_invD(6) [OF inv]
  have "k \<in> d_excuted d" if "k \<in> fst ` set (d_nodes d0)" for k
    using that
  proof (induction "rank k" arbitrary: k rule: less_induct)
    case less
    from less.prems closed have "k \<in> fst ` set (d_workflow d0)" by (simp add: dag_closed_def)
    then obtain dp where dp: "(k, dp) \<in> set (d_workflow d0)" by auto
    have "dep_done (d_excuted d) dep" if "dep \<in> set dp" for dep
    proof -
      from closed dp that obtain a b where ab: "dep = [a, b]" "(a, b) \<in> fst ` set (d_nodes d0)"
        "rank (a, b) < rank k" unfolding dag_closed_def by fast
      from less.hyps [OF ab(3,2)] ab(1) show ?thesis by (simp add: dep_done_def)
    qed
    then have "list_all (dep_done (d_excuted d)) dp" by (simp add: list_all_iff)
    with deps [OF dp] less.prems have "k \<in> set ks" by (simp add: node_state_None)
    with handed none fin show ?case by metis
  qed
  then have "d_excuted d = fst ` set (d_nodes d0)" using inv_counts(1) [OF fresh inv] by blast
  with open_ inv_counts(4) [OF fresh inv] show False by simp
qed

lemma closed_complete_ok:
  assumes fresh: "dag_fresh d0" and inv: "dag_inv d0 ks d" and closed: "dag_closed rank d0"
    and ex: "node_state d (i, r) = Some EXECUTING"
  shows "\<exists>ks' d'. update_result clk i r d = (Inr ks', d') \<and> dag_inv d0 (ks @ ks') d'
           \<and> card (d_excuted d') = Suc (card (d_excuted d))"
proof -
  note sf = dag_invD(1) [OF inv] and fin = dag_invD(4) [OF inv]
  have w: "d_workflow d = d_workflow d0" using sf by (simp add: same_frame_def)
  have "\<forall>k \<in> fst ` set (d_workflow d). node_state d k \<noteq> None"
    using closed same_frame_keys [OF sf] by (simp add: w dag_closed_def node_state_None)
  from update_result_total [OF ex this] obtain ks' d' where
    upd: "update_result clk i r d = (Inr ks', d')" by blast
  have wf: "dict_wf (d_workflow d)" using fresh w by (simp add: dag_fresh_def)
  have "(i, r) \<notin> d_excuted d" using fin ex by simp
  then have "card (d_excuted d') = Suc (card (d_excuted d))"
    using update_result_ok(3) [OF upd wf] inv_counts(2) [OF fresh inv] by simp
  with upd dag_inv_step [OF fresh inv ex upd] show ?thesis by blast
qed

section \<open>A concrete payload\<close>

text \<open>A diamond-shaped query: 0:0 before 1:0 and 2:0, both before 3:0.\<close>

definition example_record :: "int \<times> int \<Rightarrow> json" where
  "example_record k = JObj [(''node_id'', JStr (show_node_id k)), (''agent_name'', JStr ''coder''),
     (''input_token_ids'', JList [JInt 5, JInt 6]), (''output_token_ids'', JList [JInt 7]),
     (''cached_tokens'', JInt 0), (''num_input_tokens'', JInt 2), (''num_output_tokens'', JInt 1),
     (''keep_cache_in_gpu'', JBool False), (''free_cache'', JBool True)]"

definition example_deps :: "(string \<times> json) list" where
  "example_deps = [(''0:0'', JList []), (''1:0'', JList [JStr ''0:0'']), (''2:0'', JList [JStr ''0:0'']),
     (''3:0'', JList [JStr ''1:0'', JStr ''2:0''])]"

definition example_nodes :: "json list" where
  "example_nodes = map example_record [(0, 0), (1, 0), (2, 0), (3, 0)]"

definition example_dag :: dag where
  "example_dag = (case create_dag_by_json 10 example_deps example_nodes of Inl e \<Rightarrow> dag_new 0 | Inr d \<Rightarrow> d)"

definition example_clk :: "nat \<Rightarrow> pyfloat" where
  "example_clk i = 20 + of_nat i"

definition example_started :: dag where
  "example_started = snd (get_entry_nodes example_clk example_dag)"

definition example_finish :: "int list \<Rightarrow> dag" where
  "example_finish is = foldl (\<lambda>d i. snd (update_result example_clk i 0 d)) example_started is"

lemma example_create: "create_dag_by_json 10 example_deps example_nodes = Inr example_dag"
  by code_simp

lemma example_run_start: "dag_run example_dag [(0, 0)] example_started"
proof (rule dag_run.start)
  show "get_entry_nodes example_clk example_dag = (Inr [(0, 0)], example_started)" by code_simp
qed

lemma example_run_one: "dag_run example_dag [(0, 0), (1, 0), (2, 0)] (example_finish [0])"
proof -
  have "node_state example_started (0, 0) = Some EXECUTING" by code_simp
  moreover have "update_result example_clk 0 0 example_started = (Inr [(1, 0), (2, 0)], example_finish [0])"
    by code_simp
  ultimately show ?thesis using dag_run.complete [OF example_run_start] by fastforce
qed

lemma example_closed: "dag_closed (\<lambda>(i, r). nat i) example_dag"
proof -
  have w: "d_workflow example_dag =
      [((0, 0), []), ((1, 0), [[0, 0]]), ((2, 0), [[0, 0]]), ((3, 0), [[1, 0], [2, 0]])]"
    by code_simp
  have n: "map fst (d_nodes example_dag) = [(0, 0), (1, 0), (2, 0), (3, 0)]" by code_simp
  then have "fst ` set (d_nodes example_dag) = set [(0, 0), (1, 0), (2, 0), (3, 0)]"
    by (metis list.set_map)
  then show ?thesis by (auto simp: dag_closed_def w)
qed

section \<open>Properties\<close>

text \<open>
  C34. In every run of a query whose payload loads, no node is handed to the dispatcher
  twice, and at every point the nodes handed out are exactly the workflow nodes (that exist)
  all of whose dependencies have been executed: none is started too early and none that is
  ready is left behind.
\<close>

theorem dispatch_order:
  assumes "create_dag_by_json now deps nodes = Inr d0" and "dag_run d0 ks d"
  shows "distinct ks
    \<and> set ks = {k. \<exists>dp. (k, dp) \<in> set (d_workflow d0) \<and> node_state d0 k \<noteq> None
                      \<and> list_all (dep_done (d_excuted d)) dp}"
proof -
  have fresh: "dag_fresh d0" using create_dag_fresh [OF assms(1)] by simp
  note D = dag_invD [OF dag_run_inv [OF assms(2) fresh]]
  have wf: "dict_wf (d_workflow d0)" using fresh by (simp add: dag_fresh_def)
  have known: "node_state d0 k \<noteq> None" if "k \<in> set ks" for k
    using that D(3) [of k] same_frame_state [OF D(1), of k] by auto
  have "k \<in> set ks \<longleftrightarrow> (\<exists>dp. (k, dp) \<in> set (d_workflow d0) \<and> node_state d0 k \<noteq> None
           \<and> list_all (dep_done (d_excuted d)) dp)" for k
  proof
    assume "k \<in> set ks"
    moreover from this D(5) have "k \<in> fst ` set (d_workflow d0)" by blast
    then obtain dp where "(k, dp) \<in> set (d_workflow d0)" by auto
    ultimately show "\<exists>dp. (k, dp) \<in> set (d_workflow d0) \<and> node_state d0 k \<noteq> None
           \<and> list_all (dep_done (d_excuted d)) dp"
      using D(6) known by blast
  next
    assume "\<exists>dp. (k, dp) \<in> set (d_workflow d0) \<and> node_state d0 k \<noteq> None
           \<and> list_all (dep_done (d_excuted d)) dp"
    then show "k \<in> set ks" using D(6) by blast
  qed
  then have "set ks = {k. \<exists>dp. (k, dp) \<in> set (d_workflow d0) \<and> node_state d0 k \<noteq> None
                      \<and> list_all (dep_done (d_excuted d)) dp}" by blast
  with D(2) show ?thesis by blast
qed

theorem dispatch_order_witness:
  "distinct [(0, 0), (1, 0), (2 :: int, 0 :: int)]
    \<and> set [(0, 0), (1, 0), (2, 0)] =
        {k. \<exists>dp. (k, dp) \<in> set (d_workflow example_dag) \<and> node_state example_dag k \<noteq> None
              \<and> list_all (dep_done (d_excuted (example_finish [0]))) dp}"
  using dispatch_order [OF example_create example_run_one] .

text \<open>
  C35. A query whose payload is closed (every node has a line in the dependency table, every
  parent is a node, the parents decrease along a rank) never gets stuck: while it is not
  completed some node is executing, and the completion of any executing node succeeds and
  adds exactly one node to the executed set, so the query completes after as many
  completions as it has nodes.
\<close>

theorem query_progress:
  assumes "create_dag_by_json now deps nodes = Inr d0" and "dag_closed rank d0" and "dag_run d0 ks d"
  shows "(is_completed d \<or> (\<exists>k. node_state d k = Some EXECUTING))
    \<and> (\<forall>i r clk. node_state d (i, r) = Some EXECUTING \<longrightarrow>
         (\<exists>ks' d'. update_result clk i r d = (Inr ks', d') \<and> dag_run d0 (ks @ ks') d'
            \<and> card (d_excuted d') = Suc (card (d_excuted d))))
    \<and> card (d_excuted d) \<le> d_node_count d"
proof -
  have fresh: "dag_fresh d0" using create_dag_fresh [OF assms(1)] by simp
  note inv = dag_run_inv [OF assms(3) fresh]
  have "card (d_excuted d) \<le> d_node_count d"
    unfolding inv_counts(3) [OF fresh inv] by (rule card_mono) (use inv_counts [OF fresh inv] in auto)
  moreover have "is_completed d \<or> (\<exists>k. node_state d k = Some EXECUTING)"
    using closed_some_executing [OF fresh inv assms(2)] by blast
  moreover have "\<exists>ks' d'. update_result clk i r d = (Inr ks', d') \<and> dag_run d0 (ks @ ks') d'
            \<and> card (d_excuted d') = Suc (card (d_excuted d))"
    if "node_state d (i, r) = Some EXECUTING" for i r clk
    using closed_complete_ok [OF fresh inv assms(2) that, of clk] dag_run.complete [OF assms(3) that]
    by blast
  ultimately show ?thesis by blast
qed

theorem query_progress_witness:
  "(is_completed example_started \<or> (\<exists>k. node_state example_started k = Some EXECUTING))
    \<and> (\<exists>ks' d'. update_result example_clk 0 0 example_started = (Inr ks', d')
            \<and> dag_run example_dag ([(0, 0)] @ ks') d'
            \<and> card (d_excuted d') = Suc (card (d_excuted example_started)))
    \<and> card (d_excuted example_started) \<le> d_node_count example_started"
proof -
  have "node_state example_started (0, 0) = Some EXECUTING" by code_simp
  with query_progress [OF example_create example_closed example_run_start] show ?thesis by blast
qed

text \<open>
  A completion for a node the query does not have raises KeyError and changes nothing
  (neither the graph nor the accumulated agent time); a second completion of a node that is
  already finished hands out nothing and leaves the state of every node as it was.
\<close>

theorem completion_errors:
  assumes "create_dag_by_json now deps nodes = Inr d0" and "dag_run d0 ks (q_dag q)"
  shows "(node_state (q_dag q) (i, r) = None \<longrightarrow>
            get_next_execute_agents t clk i r q = (Inl KeyError, q))
    \<and> (node_state (q_dag q) (i, r) = Some FINISHED \<and> get_next_execute_agents t clk i r q = (Inr ks', q') \<longrightarrow>
            ks' = [] \<and> node_state (q_dag q') = node_state (q_dag q))"
proof (intro conjI impI)
  assume "node_state (q_dag q) (i, r) = None"
  then have "map_of (d_nodes (q_dag q)) (i, r) = None" by (simp add: node_state_def)
  then show "get_next_execute_agents t clk i r q = (Inl KeyError, q)"
    by (simp add: get_next_execute_agents_def update_result_def)
next
  assume a: "node_state (q_dag q) (i, r) = Some FINISHED \<and> get_next_execute_agents t clk i r q = (Inr ks', q')"
  have fresh: "dag_fresh d0" using create_dag_fresh [OF assms(1)] by simp
  note inv = dag_run_inv [OF assms(2) fresh]
  have wf: "dict_wf (d_workflow (q_dag q))"
    using fresh dag_invD(1) [OF inv] by (simp add: dag_fresh_def same_frame_def)
  from a have upd: "update_result clk i r (q_dag q) = (Inr ks', q_dag q')"
    by (auto simp: get_next_execute_agents_def Let_def split: prod.splits option.splits)
  note ok = update_result_ok [OF upd wf]
  have ir: "(i, r) \<in> d_excuted (q_dag q)" using a dag_invD(4) [OF inv] by simp
  show nil: "ks' = []"
  proof (rule ccontr)
    assume "ks' \<noteq> []"
    then obtain k where k: "k \<in> set ks'" by (meson list.set_sel(1))
    then obtain dp where dp: "(k, dp) \<in> set (d_workflow (q_dag q))"
      "list_all (dep_done (d_excuted (q_dag q))) dp"
      "node_state (mark_finished (clk 1) (i, r) (q_dag q)) k = Some WAITING"
      unfolding ok(1) set_to_start insert_absorb [OF ir] by blast
    have st: "node_state (q_dag q) k = Some WAITING"
      using dp(3) a by (auto simp: mark_finished_facts(1) split: if_splits)
    have "k \<in> set ks"
      using dp st dag_invD(6) [OF inv, of k dp] dag_invD(1) [OF inv] same_frame_state [OF dag_invD(1) [OF inv], of k]
      by (simp add: same_frame_def)
    with st show False using dag_invD(3) [OF inv, of k] by simp
  qed
  show "node_state (q_dag q') = node_state (q_dag q)"
    using a by (auto simp: ok(2) nil)
qed

definition example_query :: query where
  "example_query = \<lparr>q_query_id = 7, q_node_dependency = example_deps, q_node_list = example_nodes,
     q_submit_time = 9, q_work_dir = ''wd'', q_dag = example_finish [0], q_agent_cumulative_time = 0\<rparr>"

lemma example_query_dag: "q_dag example_query = example_finish [0]"
  by (simp add: example_query_def)

theorem completion_errors_witness:
  "get_next_execute_agents 30 example_clk 9 0 example_query = (Inl KeyError, example_query)
    \<and> node_state (q_dag (snd (get_next_execute_agents 30 example_clk 0 0 example_query)))
        = node_state (q_dag example_query)"
proof -
  note run = example_run_one [folded example_query_dag]
  have "node_state (q_dag example_query) (9, 0) = None" by code_simp
  with completion_errors [OF example_create run, of 9 0 30 example_clk "[]" example_query]
  have 1: "get_next_execute_agents 30 example_clk 9 0 example_query = (Inl KeyError, example_query)" by blast
  have "node_state (q_dag example_query) (0, 0) = Some FINISHED" by code_simp
  moreover have "get_next_execute_agents 30 example_clk 0 0 example_query
             = (Inr [], snd (get_next_execute_agents 30 example_clk 0 0 example_query))" by code_simp
  ultimately show ?thesis
    using completion_errors [OF example_create run,
      of 0 0 30 example_clk "[]" "snd (get_next_execute_agents 30 example_clk 0 0 example_query)"] 1
    by blast
qed

text \<open>
  A node that has no line in the dependency table is never started, so a query with such
  a node is never completed, however many completions arrive.
\<close>

theorem orphan_node_blocks_query:
  assumes "create_dag_by_json now deps nodes = Inr d0" and "dag_run d0 ks d"
    and "k \<in> fst ` set (d_nodes d0)" and "k \<notin> fst ` set (d_workflow d0)"
  shows "node_state d k = Some WAITING \<and> \<not> is_completed d"
proof -
  have fresh: "dag_fresh d0" using create_dag_fresh [OF assms(1)] by simp
  note inv = dag_run_inv [OF assms(2) fresh]
  have "k \<notin> set ks" using dag_invD(5) [OF inv] assms(4) by blast
  then have no: "node_state d k \<noteq> Some EXECUTING \<and> node_state d k \<noteq> Some FINISHED"
    using dag_invD(3) [OF inv, of k] by blast
  have "node_state d k \<noteq> None"
    using assms(3) same_frame_state [OF dag_invD(1) [OF inv], of k] by (simp add: node_state_None)
  with no have "node_state d k = Some WAITING" by (metis node_status.exhaust option.exhaust)
  moreover have "k \<notin> d_excuted d" using no dag_invD(4) [OF inv, of k] by blast
  then have "\<not> is_completed d" using inv_counts(4) [OF fresh inv] assms(3) by blast
  ultimately show ?thesis by blast
qed

definition orphan_dag :: dag where
  "orphan_dag = (case create_dag_by_json 10 [(''0:0'', JList [])] (map example_record [(0, 0), (1, 0)]) of
     Inl e \<Rightarrow> dag_new 0 | Inr d \<Rightarrow> d)"

theorem orphan_node_blocks_query_witness:
  "node_state (snd (update_result example_clk 0 0 (snd (get_entry_nodes example_clk orphan_dag)))) (1, 0)
      = Some WAITING
    \<and> \<not> is_completed (snd (update_result example_clk 0 0 (snd (get_entry_nodes example_clk orphan_dag))))"
proof (rule orphan_node_blocks_query)
  show "create_dag_by_json 10 [(''0:0'', JList [])] (map example_record [(0, 0), (1, 0)]) = Inr orphan_dag"
    by code_simp
  have "get_entry_nodes example_clk orphan_dag = (Inr [(0, 0)], snd (get_entry_nodes example_clk orphan_dag))"
    by code_simp
  then have "dag_run orphan_dag [(0, 0)] (snd (get_entry_nodes example_clk orphan_dag))"
    by (rule dag_run.start)
  moreover have "node_state (snd (get_entry_nodes example_clk orphan_dag)) (0, 0) = Some EXECUTING"
    by code_simp
  moreover have "update_result example_clk 0 0 (snd (get_entry_nodes example_clk orphan_dag))
      = (Inr [], snd (update_result example_clk 0 0 (snd (get_entry_nodes example_clk orphan_dag))))"
    by code_simp
  ultimately show "dag_run orphan_dag ([(0, 0)] @ [])
      (snd (update_result example_clk 0 0 (snd (get_entry_nodes example_clk orphan_dag))))"
    by (rule dag_run.complete)
  show "(1, 0) \<in> fst ` set (d_nodes orphan_dag)" by code_simp
  show "(1, 0) \<notin> fst ` set (d_workflow orphan_dag)" by code_simp
qed

text \<open>
  When the last node of a query finishes, the query is completed and its end-to-end
  latency is the time of completion minus the time the graph was created; before that,
  asking for the latency fails the assertion.
\<close>

theorem latency_on_completion:
  assumes "create_dag_by_json now deps nodes = Inr d0" and "dag_run d0 ks (q_dag q)"
    and "get_next_execute_agents t clk i r q = (Inr ks', q')"
  shows "if query_is_completed q'
         then \<exists>e. d_end_time (q_dag q') = Some e \<and> get_latency q' = Inr (e - now)
         else get_latency q' = Inl AssertionError"
proof -
  have fresh: "dag_fresh d0" and now: "d_start_time d0 = now" using create_dag_fresh [OF assms(1)] by auto
  note inv = dag_run_inv [OF assms(2) fresh]
  note sf = dag_invD(1) [OF inv]
  have wf: "dict_wf (d_workflow (q_dag q))" using fresh sf by (simp add: dag_fresh_def same_frame_def)
  from assms(3) have upd: "update_result clk i r (q_dag q) = (Inr ks', q_dag q')"
    by (auto simp: get_next_execute_agents_def Let_def split: prod.splits option.splits)
  from update_result_ok(6) [OF upd wf] sf now show ?thesis
    by (auto simp: query_is_completed_def get_latency_def same_frame_def)
qed

theorem latency_on_completion_witness:
  "if query_is_completed (snd (get_next_execute_agents 30 example_clk 1 0 example_query))
   then \<exists>e. d_end_time (q_dag (snd (get_next_execute_agents 30 example_clk 1 0 example_query))) = Some e
          \<and> get_latency (snd (get_next_execute_agents 30 example_clk 1 0 example_query)) = Inr (e - 10)
   else get_latency (snd (get_next_execute_agents 30 example_clk 1 0 example_query)) = Inl AssertionError"
proof (rule latency_on_completion [OF example_create example_run_one [folded example_query_dag]])
  show "get_next_execute_agents 30 example_clk 1 0 example_query
      = (Inr [], snd (get_next_execute_agents 30 example_clk 1 0 example_query))" by code_simp
qed

end
