(* ===== verification/Config.thy ===== *)
theory Config
  imports PyValue
begin

text \<open>
  The configuration dataclasses of \<open>src/coreflow/config.py\<close>: architecture, hardware,
  profiler ranges, agent and allocator parameters, with the defaults of the source and the
  two prebuilt workflow configurations. Paths are strings.
\<close>

record path_config =
  pc_project_root :: string
  pc_data_dir :: string
  pc_default_node_list :: string
  pc_default_node_dependency :: string
  pc_attn_profile :: string
  pc_interference_profile :: string
  pc_mlp_profile :: string
  pc_increment_profile :: string

text \<open>The project root is where the package is installed, hence an argument.\<close>

definition path_config_default :: "string \<Rightarrow> path_config" where
  "path_config_default proj = \<lparr>pc_project_root = proj, pc_data_dir = ''data'',
     pc_default_node_list = ''data/node_list.json'',
     pc_default_node_dependency = ''data/node_dependency.json'',
     pc_attn_profile = ''Profiler/attn_profile.json'',
     pc_interference_profile = ''Profiler/interference_profile.json'',
     pc_mlp_profile = ''Profiler/mlp_profile.json'',
     pc_increment_profile = ''Profiler/increment.json''\<rparr>"

record model_config =
  mc_num_layers :: int
  mc_num_heads :: int
  mc_head_size :: int
  mc_num_kv_heads :: int
  mc_intermediate_size :: int

definition model_config_default :: model_config where
  "model_config_default = \<lparr>mc_num_layers = 32, mc_num_heads = 32, mc_head_size = 128,
     mc_num_kv_heads = 8, mc_intermediate_size = 14336\<rparr>"

definition hidden_size :: "model_config \<Rightarrow> int" where
  "hidden_size c = mc_num_heads c * mc_head_size c"

definition kv_hidden_size :: "model_config \<Rightarrow> int" where
  "kv_hidden_size c = mc_num_kv_heads c * mc_head_size c"

record hardware_config =
  hw_dtype :: string
  hw_device :: string
  hw_total_num_gpus :: int
  hw_total_num_blocks :: int
  hw_block_size :: int

definition hardware_config_default :: hardware_config where
  "hardware_config_default = \<lparr>hw_dtype = ''bfloat16'', hw_device = ''cuda:2'',
     hw_total_num_gpus = 32, hw_total_num_blocks = 100000, hw_block_size = 16\<rparr>"

record profiler_config =
  pr_warmup :: int
  pr_repeat :: int
  pr_decode_batch_sizes :: "int \<times> int \<times> int"
  pr_decode_seq_lengths :: "int \<times> int \<times> int"
  pr_prefill_query_lengths :: "int \<times> int \<times> int"
  pr_prefill_seq_lengths :: "int \<times> int \<times> int"
  pr_interference_small_lengths :: "int \<times> int \<times> int"
  pr_interference_large_lengths :: "int list"
  pr_interference_small_batch_range :: "int \<times> int \<times> int"
  pr_increment_small_lengths_start :: int
  pr_increment_small_lengths_range :: "int \<times> int \<times> int"
  pr_increment_num_small_seqs_range :: "int \<times> int \<times> int"

definition profiler_config_default :: profiler_config where
  "profiler_config_default = \<lparr>pr_warmup = 5, pr_repeat = 10,
     pr_decode_batch_sizes = (16, 256, 16), pr_decode_seq_lengths = (128, 10240, 128),
     pr_prefill_query_lengths = (16, 512, 16), pr_prefill_seq_lengths = (128, 10240, 128),
     pr_interference_small_lengths = (1000, 9000, 1000),
     pr_interference_large_lengths = [16000, 32000, 48000, 64000, 80000, 96000, 112000, 128000],
     pr_interference_small_batch_range = (1, 64, 1),
     pr_increment_small_lengths_start = 1,
     pr_increment_small_lengths_range = (1000, 129000, 1000),
     pr_increment_num_small_seqs_range = (4, 64, 4)\<rparr>"

record agent_config =
  ag_agents :: "string list"
  ag_instance_cached_tokens :: int
  ag_max_instance_group :: int
  ag_min_instance_group :: int
  ag_reuse :: bool
  ag_interference :: bool

definition agent_config_default :: agent_config where
  "agent_config_default = \<lparr>ag_agents = [''Reflector'', ''System'', ''Search''],
     ag_instance_cached_tokens = 216000, ag_max_instance_group = 3, ag_min_instance_group = 1,
     ag_reuse = False, ag_interference = False\<rparr>"

record allocator_config =
  al_context_step :: int
  al_max_context_length :: int
  al_dp_gpu_step :: int
  al_gpus_per_instance :: int
  al_chunk_size :: int
  al_cache_swap_latency :: pyfloat
  al_max_iterations :: int

definition allocator_config_default :: allocator_config where
  "allocator_config_default = \<lparr>al_context_step = 2000, al_max_context_length = 200000,
     al_dp_gpu_step = 1, al_gpus_per_instance = 1, al_chunk_size = 512,
     al_cache_swap_latency = 1 / 10, al_max_iterations = 100\<rparr>"

text \<open>\<open>//\<close> rounds down and raises on a zero divisor.\<close>

definition max_context_idx :: "allocator_config \<Rightarrow> int res" where
  "max_context_idx c =
     (if al_context_step c = 0 then Inl ZeroDivisionError
      else Inr (al_max_context_length c div al_context_step c))"

record workflow_config =
  wc_paths :: path_config
  wc_model :: model_config
  wc_hardware :: hardware_config
  wc_profiler :: profiler_config
  wc_agent :: agent_config
  wc_allocator :: allocator_config
  wc_workflow_name :: string
  wc_node_list_path :: "string option"
  wc_node_dependency_path :: "string option"

definition workflow_config_default :: "string \<Rightarrow> workflow_config" where
  "workflow_config_default proj = \<lparr>wc_paths = path_config_default proj,
     wc_model = model_config_default, wc_hardware = hardware_config_default,
     wc_profiler = profiler_config_default, wc_agent = agent_config_default,
     wc_allocator = allocator_config_default, wc_workflow_name = ''default'',
     wc_node_list_path = None, wc_node_dependency_path = None\<rparr>"

text \<open>\<open>a or b\<close> on an optional string: both \<open>None\<close> and the empty string are false.\<close>

definition str_or :: "string option \<Rightarrow> string \<Rightarrow> string" where
  "str_or s t = (case s of None \<Rightarrow> t | Some u \<Rightarrow> if u = [] then t else u)"

definition get_node_list_path :: "workflow_config \<Rightarrow> string" where
  "get_node_list_path c = str_or (wc_node_list_path c) (pc_default_node_list (wc_paths c))"

definition get_node_dependency_path :: "workflow_config \<Rightarrow> string" where
  "get_node_dependency_path c =
     str_or (wc_node_dependency_path c) (pc_default_node_dependency (wc_paths c))"

definition get_reflection_config :: "string \<Rightarrow> workflow_config" where
  "get_reflection_config proj = (workflow_config_default proj)
     \<lparr>wc_workflow_name := ''reflection'',
      wc_node_list_path := Some ''data/node_list.json'',
      wc_node_dependency_path := Some ''data/node_dependency.json'',
      wc_agent := \<lparr>ag_agents = [''Reflector'', ''System'', ''Search''],
        ag_instance_cached_tokens = 216000, ag_max_instance_group = 3, ag_min_instance_group = 1,
        ag_reuse = False, ag_interference = False\<rparr>,
      wc_hardware := hardware_config_default\<lparr>hw_total_num_gpus := 32\<rparr>\<rparr>"

definition get_single_agent_config :: "string \<Rightarrow> workflow_config" where
  "get_single_agent_config proj = (workflow_config_default proj)
     \<lparr>wc_workflow_name := ''single_agent'',
      wc_agent := \<lparr>ag_agents = [''Search''],
        ag_instance_cached_tokens = 216000, ag_max_instance_group = 2, ag_min_instance_group = 1,
        ag_reuse = True, ag_interference = True\<rparr>,
      wc_hardware := hardware_config_default\<lparr>hw_total_num_gpus := 16\<rparr>\<rparr>"

text \<open>
  What the allocator relies on in a configuration: a positive context step, positive
  instance sizes and nonempty, ordered group bounds. Both prebuilt configurations satisfy it.
\<close>

definition config_ok :: "workflow_config \<Rightarrow> bool" where
  "config_ok c \<longleftrightarrow> 0 < al_context_step (wc_allocator c) \<and> 0 < al_gpus_per_instance (wc_allocator c)
     \<and> 0 < al_dp_gpu_step (wc_allocator c) \<and> 0 < al_chunk_size (wc_allocator c)
     \<and> 1 \<le> ag_min_instance_group (wc_agent c)
     \<and> ag_min_instance_group (wc_agent c) \<le> ag_max_instance_group (wc_agent c)
     \<and> 0 < hw_block_size (wc_hardware c)
     \<and> (length (ag_agents (wc_agent c))) * nat (al_gpus_per_instance (wc_allocator c))
          \<le> nat (hw_total_num_gpus (wc_hardware c))"

lemma prebuilt_configs_ok: "config_ok (get_reflection_config proj) \<and> config_ok (get_single_agent_config proj)"
  by (simp add: config_ok_def get_reflection_config_def get_single_agent_config_def
      workflow_config_default_def allocator_config_default_def hardware_config_default_def)

end
