(* ===== verification/InstanceManager.thy ===== *)
theory InstanceManager
  imports PyValue
begin

text \<open>
  The registry of running instances, \<open>src/coreflow/instance_manager.py\<close>. Dictionaries are
  association lists in insertion order. An agent's instance ids are a Python set, whose
  iteration order is not specified: operations that iterate it take the order as a function
  argument \<open>ord\<close>, of which only \<open>mset (ord xs) = mset xs\<close> is ever assumed.
\<close>

section \<open>Data\<close>

record instance_info =
  ii_instance_id :: string
  ii_agent_id :: string
  ii_host :: string
  ii_port :: int
  ii_context_range :: "(int \<times> int) option"
  ii_num_gpus :: json
  ii_status :: string

definition endpoint :: "instance_info \<Rightarrow> string" where
  "endpoint i = ''http://'' @ ii_host i @ '':'' @ show_int (ii_port i)"

definition is_ready :: "instance_info \<Rightarrow> bool" where
  "is_ready i \<longleftrightarrow> ii_status i = ''ready''"

record im =
  im_instances :: "(string, instance_info) dict"
  im_agent_instances :: "(string, string list) dict"
  im_context_instances :: "(string \<times> int, string list) dict"
  im_range_slots :: "(string \<times> int \<times> int, int) dict"
  im_slot_ranges :: "(string \<times> int, int \<times> int) dict"
  im_next_port :: int

definition im_new :: im where
  "im_new = \<lparr>im_instances = [], im_agent_instances = [], im_context_instances = [],
     im_range_slots = [], im_slot_ranges = [], im_next_port = 8000\<rparr>"

section \<open>Registration\<close>

definition existing_slots :: "string \<Rightarrow> im \<Rightarrow> int list" where
  "existing_slots agent s = map (snd \<circ> fst) (filter (\<lambda>((a, sl), cr). a = agent) (im_slot_ranges s))"

definition get_or_create_slot :: "string \<Rightarrow> int \<times> int \<Rightarrow> im \<Rightarrow> int \<times> im" where
  "get_or_create_slot agent cr s =
     (case map_of (im_range_slots s) (agent, cr) of
        Some slot \<Rightarrow> (slot, s)
      | None \<Rightarrow>
          (let slot = foldr max (existing_slots agent s) (- 1) + 1
           in (slot, s\<lparr>im_range_slots := AList.update (agent, cr) slot (im_range_slots s),
                      im_slot_ranges := AList.update (agent, slot) cr (im_slot_ranges s)\<rparr>)))"

text \<open>\<open>d.setdefault(k, empty)\<close> followed by adding an element that is not there yet.\<close>

definition index_add :: "'k \<Rightarrow> string \<Rightarrow> ('k, string list) dict \<Rightarrow> ('k, string list) dict" where
  "index_add k x d =
     (case map_of d k of
        None \<Rightarrow> AList.update k [x] d
      | Some xs \<Rightarrow> if x \<in> set xs then d else AList.update k (xs @ [x]) d)"

definition register ::
  "string \<Rightarrow> string \<Rightarrow> string \<Rightarrow> int option \<Rightarrow> (int \<times> int) option \<Rightarrow> json \<Rightarrow> im \<Rightarrow> instance_info \<times> im" where
  "register iid agent host port cr gpus s =
     (let (p, s0) = (case port of
                       None \<Rightarrow> (im_next_port s, s\<lparr>im_next_port := im_next_port s + 1\<rparr>)
                     | Some q \<Rightarrow> (q, s));
          info = \<lparr>ii_instance_id = iid, ii_agent_id = agent, ii_host = host, ii_port = p,
                  ii_context_range = cr, ii_num_gpus = gpus, ii_status = ''starting''\<rparr>;
          s1 = s0\<lparr>im_instances := AList.update iid info (im_instances s0),
                  im_agent_instances := index_add agent iid (im_agent_instances s0)\<rparr>
      in case cr of
           None \<Rightarrow> (info, s1)
         | Some r \<Rightarrow>
             (let (slot, s2) = get_or_create_slot agent r s1
              in (info, s2\<lparr>im_context_instances :=
                             index_add (agent, slot) iid (im_context_instances s2)\<rparr>)))"

definition set_status :: "string \<Rightarrow> string \<Rightarrow> im \<Rightarrow> im" where
  "set_status iid st s =
     (case map_of (im_instances s) iid of
        None \<Rightarrow> s
      | Some info \<Rightarrow> s\<lparr>im_instances := AList.update iid (info\<lparr>ii_status := st\<rparr>) (im_instances s)\<rparr>)"

definition set_ready :: "string \<Rightarrow> im \<Rightarrow> im" where
  "set_ready iid s = set_status iid ''ready'' s"

section \<open>Lookup\<close>

definition im_get :: "im \<Rightarrow> string \<Rightarrow> instance_info option" where
  "im_get s iid = map_of (im_instances s) iid"

text \<open>\<open>[self._instances[i] for i in ids if self._instances[i].is_ready]\<close>\<close>

definition ready_infos :: "im \<Rightarrow> string list \<Rightarrow> instance_info list res" where
  "ready_infos s ids =
     bind_res (map_res (dict_item (im_instances s)) ids) (\<lambda>is. Inr (filter is_ready is))"

definition get_instances_for_agent ::
  "(string list \<Rightarrow> string list) \<Rightarrow> string \<Rightarrow> im \<Rightarrow> instance_info list res" where
  "get_instances_for_agent ord agent s =
     (case map_of (im_agent_instances s) agent of
        None \<Rightarrow> Inr []
      | Some ids \<Rightarrow> ready_infos s (ord ids))"

definition get_instances_for_context :: "string \<Rightarrow> int \<Rightarrow> im \<Rightarrow> instance_info list res" where
  "get_instances_for_context agent slot s =
     (case map_of (im_context_instances s) (agent, slot) of
        None \<Rightarrow> Inr []
      | Some ids \<Rightarrow> ready_infos s ids)"

definition get_context_range_for_slot :: "string \<Rightarrow> int \<Rightarrow> im \<Rightarrow> (int \<times> int) option res" where
  "get_context_range_for_slot agent slot s =
     (case map_of (im_slot_ranges s) (agent, slot) of
        Some cr \<Rightarrow> Inr (Some cr)
      | None \<Rightarrow>
          bind_res (get_instances_for_context agent slot s) (\<lambda>infos.
            Inr (case infos of [] \<Rightarrow> None | i # _ \<Rightarrow> ii_context_range i)))"

definition in_range :: "int \<Rightarrow> int \<times> int \<Rightarrow> bool" where
  "in_range n r \<longleftrightarrow> fst r \<le> n \<and> n < snd r"

fun scan_slots :: "int \<Rightarrow> (int \<times> int \<times> int) list \<Rightarrow> int option" where
  "scan_slots n [] = None"
| "scan_slots n ((slot, r) # rest) = (if in_range n r then Some slot else scan_slots n rest)"

fun scan_ids :: "im \<Rightarrow> int \<Rightarrow> string list \<Rightarrow> bool res" where
  "scan_ids s n [] = Inr False"
| "scan_ids s n (i # ids) =
     (case map_of (im_instances s) i of
        None \<Rightarrow> Inl KeyError
      | Some info \<Rightarrow>
          (case ii_context_range info of
             Some r \<Rightarrow> if in_range n r then Inr True else scan_ids s n ids
           | None \<Rightarrow> scan_ids s n ids))"

fun scan_context :: "im \<Rightarrow> string \<Rightarrow> int \<Rightarrow> (string \<times> int, string list) dict \<Rightarrow> int option res" where
  "scan_context s agent n [] = Inr None"
| "scan_context s agent n (((a, slot), ids) # rest) =
     (if a \<noteq> agent then scan_context s agent n rest
      else (case scan_ids s n ids of
              Inl e \<Rightarrow> Inl e
            | Inr True \<Rightarrow> Inr (Some slot)
            | Inr False \<Rightarrow> scan_context s agent n rest))"

definition agent_slots :: "string \<Rightarrow> im \<Rightarrow> (int \<times> int \<times> int) list" where
  "agent_slots agent s =
     sort (map (\<lambda>((a, slot), cr). (slot, cr)) (filter (\<lambda>((a, slot), cr). a = agent) (im_slot_ranges s)))"

definition find_context_slot :: "string \<Rightarrow> int \<Rightarrow> im \<Rightarrow> int option res" where
  "find_context_slot agent n s =
     (case scan_slots n (agent_slots agent s) of
        Some slot \<Rightarrow> Inr (Some slot)
      | None \<Rightarrow> scan_context s agent n (im_context_instances s))"

definition all_instance_ids :: "im \<Rightarrow> string list" where
  "all_instance_ids s = map fst (im_instances s)"

section \<open>Failover\<close>

definition mark_unavailable :: "string \<Rightarrow> im \<Rightarrow> instance_info option \<times> im" where
  "mark_unavailable iid s =
     (let s' = set_status iid ''unavailable'' s in (im_get s' iid, s'))"

definition remove_instance :: "string \<Rightarrow> im \<Rightarrow> im" where
  "remove_instance iid s =
     (case map_of (im_instances s) iid of
        None \<Rightarrow> s
      | Some info \<Rightarrow>
          (let s1 = s\<lparr>im_instances := AList.delete iid (im_instances s),
                     im_agent_instances :=
                       (case map_of (im_agent_instances s) (ii_agent_id info) of
                          None \<Rightarrow> im_agent_instances s
                        | Some ids \<Rightarrow> AList.update (ii_agent_id info) (removeAll iid ids) (im_agent_instances s))\<rparr>
           in case ii_context_range info of
                None \<Rightarrow> s1
              | Some cr \<Rightarrow>
                  (case map_of (im_range_slots s1) (ii_agent_id info, cr) of
                     None \<Rightarrow> s1
                   | Some slot \<Rightarrow>
                       (case map_of (im_context_instances s1) (ii_agent_id info, slot) of
                          None \<Rightarrow> s1
                        | Some ids \<Rightarrow> s1\<lparr>im_context_instances :=
                            AList.update (ii_agent_id info, slot) (remove1 iid ids) (im_context_instances s1)\<rparr>))))"

definition first_other :: "string \<Rightarrow> instance_info list \<Rightarrow> instance_info option" where
  "first_other excl infos = List.find (\<lambda>i. ii_instance_id i \<noteq> excl) infos"

definition find_alternative ::
  "(string list \<Rightarrow> string list) \<Rightarrow> string \<Rightarrow> int \<Rightarrow> string \<Rightarrow> im \<Rightarrow> instance_info option res" where
  "find_alternative ord agent slot excl s =
     bind_res (get_instances_for_context agent slot s) (\<lambda>cs.
       case first_other excl cs of
         Some i \<Rightarrow> Inr (Some i)
       | None \<Rightarrow>
           bind_res (get_instances_for_agent ord agent s) (\<lambda>as. Inr (first_other excl as)))"

section \<open>The registry invariant\<close>

definition ids_of :: "('k, string list) dict \<Rightarrow> 'k \<Rightarrow> string list" where
  "ids_of d k = (case map_of d k of None \<Rightarrow> [] | Some xs \<Rightarrow> xs)"

text \<open>Ranges and slots of an agent are in bijection.\<close>

definition slots_inv :: "im \<Rightarrow> bool" where
  "slots_inv s \<longleftrightarrow> dict_wf (im_slot_ranges s)
     \<and> (\<forall>a cr slot. map_of (im_range_slots s) (a, cr) = Some slot
                    \<longleftrightarrow> map_of (im_slot_ranges s) (a, slot) = Some cr)"

definition ids_inv :: "im \<Rightarrow> bool" where
  "ids_inv s \<longleftrightarrow> (\<forall>i info. map_of (im_instances s) i = Some info \<longrightarrow> ii_instance_id info = i)"

definition agents_inv :: "im \<Rightarrow> bool" where
  "agents_inv s \<longleftrightarrow> (\<forall>a. distinct (ids_of (im_agent_instances s) a)
     \<and> set (ids_of (im_agent_instances s) a) =
         {i. \<exists>info. map_of (im_instances s) i = Some info \<and> ii_agent_id info = a})"

definition context_inv :: "im \<Rightarrow> bool" where
  "context_inv s \<longleftrightarrow> dict_wf (im_context_instances s)
     \<and> (\<forall>i info cr. map_of (im_instances s) i = Some info \<longrightarrow> ii_context_range info = Some cr \<longrightarrow>
          map_of (im_range_slots s) (ii_agent_id info, cr) \<noteq> None)
     \<and> (\<forall>a slot. distinct (ids_of (im_context_instances s) (a, slot))
          \<and> set (ids_of (im_context_instances s) (a, slot)) =
              {i. \<exists>info cr. map_of (im_instances s) i = Some info \<and> ii_agent_id info = a
                    \<and> ii_context_range info = Some cr \<and> map_of (im_range_slots s) (a, cr) = Some slot})"

definition im_inv :: "im \<Rightarrow> bool" where
  "im_inv s \<longleftrightarrow> slots_inv s \<and> ids_inv s \<and> agents_inv s \<and> context_inv s"

lemma im_new_inv: "im_inv im_new"
  by (simp add: im_inv_def slots_inv_def ids_inv_def agents_inv_def context_inv_def im_new_def ids_of_def)

lemma ids_of_index_add:
  "ids_of (index_add k x d) k' =
     (if k' = k then (if x \<in> set (ids_of d k) then ids_of d k else ids_of d k @ [x]) else ids_of d k')"
  by (auto simp: ids_of_def index_add_def split: option.splits)

lemma dict_wf_index_add [simp]: "dict_wf d \<Longrightarrow> dict_wf (index_add k x d)"
  by (simp add: index_add_def split: option.split)

lemma ids_of_update [simp]: "ids_of (AList.update k xs d) k' = (if k' = k then xs else ids_of d k')"
  by (simp add: ids_of_def)

section \<open>Slots\<close>

lemma foldr_max_ge: "x \<in> set xs \<Longrightarrow> (x::int) \<le> foldr max xs b"
  by (induction xs) auto

lemma existing_slots_mem:
  "map_of (im_slot_ranges s) (a, slot) = Some cr \<Longrightarrow> slot \<in> set (existing_slots a s)"
  by (force simp: existing_slots_def dest: map_of_SomeD)

lemma get_or_create_slot_ok:
  assumes inv: "slots_inv s" and g: "get_or_create_slot a cr s = (slot, s')"
  shows "map_of (im_range_slots s') = (map_of (im_range_slots s))((a, cr) \<mapsto> slot)"
    and "slots_inv s'"
    and "im_instances s' = im_instances s" and "im_agent_instances s' = im_agent_instances s"
    and "im_context_instances s' = im_context_instances s"
proof -
  show "map_of (im_range_slots s') = (map_of (im_range_slots s))((a, cr) \<mapsto> slot)"
    and "im_instances s' = im_instances s" and "im_agent_instances s' = im_agent_instances s"
    and "im_context_instances s' = im_context_instances s"
    using g by (auto simp: get_or_create_slot_def Let_def split: option.splits)
  show "slots_inv s'"
  proof (cases "map_of (im_range_slots s) (a, cr)")
    case (Some sl)
    with g inv show ?thesis by (simp add: get_or_create_slot_def)
  next
    case None
    have bij: "\<And>a cr slot. map_of (im_range_slots s) (a, cr) = Some slot
                    \<longleftrightarrow> map_of (im_slot_ranges s) (a, slot) = Some cr"
      and wf: "dict_wf (im_slot_ranges s)" using inv by (auto simp: slots_inv_def)
    from g None have slot: "slot = foldr max (existing_slots a s) (- 1) + 1"
      and s': "s' = s\<lparr>im_range_slots := AList.update (a, cr) slot (im_range_slots s),
                      im_slot_ranges := AList.update (a, slot) cr (im_slot_ranges s)\<rparr>"
      by (auto simp: get_or_create_slot_def Let_def)
    have free: "map_of (im_slot_ranges s) (a, slot) = None"
    proof (rule ccontr)
      assume "map_of (im_slot_ranges s) (a, slot) \<noteq> None"
      then have "slot \<in> set (existing_slots a s)" using existing_slots_mem by blast
      from foldr_max_ge [OF this, of "- 1"] slot show False by simp
    qed
    have "(map_of (im_range_slots s'))(b, cr') = Some sl
            \<longleftrightarrow> map_of (im_slot_ranges s') (b, sl) = Some cr'" for b cr' sl
      using bij [of b cr' sl] bij [of a cr' slot] bij [of a cr sl] None free
      by (auto simp: s')
    then show ?thesis using wf by (simp add: slots_inv_def s')
  qed
qed

text \<open>A range that has a slot keeps it for ever.\<close>

lemma get_or_create_slot_stable:
  assumes "get_or_create_slot a cr s = (slot, s')" and "map_of (im_range_slots s) k = Some sl"
  shows "map_of (im_range_slots s') k = Some sl"
  using assms by (auto simp: get_or_create_slot_def Let_def split: option.splits)

section \<open>The operations keep the invariant\<close>

text \<open>
  A registration is compatible when the id is new or is registered again for the same agent
  and the same range (a restart).
\<close>

definition reg_compatible :: "im \<Rightarrow> string \<Rightarrow> string \<Rightarrow> (int \<times> int) option \<Rightarrow> bool" where
  "reg_compatible s iid agent cr =
     (case map_of (im_instances s) iid of
        None \<Rightarrow> True
      | Some info \<Rightarrow> ii_agent_id info = agent \<and> ii_context_range info = cr)"

lemma set_status_inv: "im_inv s \<Longrightarrow> im_inv (set_status iid st s)"
proof -
  assume inv: "im_inv s"
  show ?thesis
  proof (cases "map_of (im_instances s) iid")
    case None
    with inv show ?thesis by (simp add: set_status_def)
  next
    case (Some info)
    have 1: "(\<exists>i. ((map_of (im_instances s))(iid \<mapsto> info\<lparr>ii_status := st\<rparr>)) j = Some i \<and> ii_agent_id i = a)
           \<longleftrightarrow> (\<exists>i. map_of (im_instances s) j = Some i \<and> ii_agent_id i = a)" for j a
      using Some by auto
    have 2: "(\<exists>i cr. ((map_of (im_instances s))(iid \<mapsto> info\<lparr>ii_status := st\<rparr>)) j = Some i \<and> ii_agent_id i = a
             \<and> ii_context_range i = Some cr \<and> map_of (im_range_slots s) (a, cr) = Some slot)
           \<longleftrightarrow> (\<exists>i cr. map_of (im_instances s) j = Some i \<and> ii_agent_id i = a
             \<and> ii_context_range i = Some cr \<and> map_of (im_range_slots s) (a, cr) = Some slot)" for j a slot
      using Some by auto
    from inv Some have "slots_inv (set_status iid st s)" "ids_inv (set_status iid st s)"
      by (auto simp: im_inv_def set_status_def slots_inv_def ids_inv_def)
    moreover have "agents_inv (set_status iid st s)"
      using inv Some 1 by (simp add: im_inv_def set_status_def agents_inv_def)
    moreover have "context_inv (set_status iid st s)"
      using inv Some 2 by (auto simp: im_inv_def set_status_def context_inv_def)
    ultimately show ?thesis by (simp add: im_inv_def)
  qed
qed

text \<open>What a registration leaves behind, in terms of the lookups.\<close>

lemma register_facts:
  assumes inv: "slots_inv s" and r: "register iid a host port cr gpus s = (info, s')"
  shows "ii_instance_id info = iid" "ii_agent_id info = a" "ii_context_range info = cr"
    and "map_of (im_instances s') = (map_of (im_instances s))(iid \<mapsto> info)"
    and "ids_of (im_agent_instances s') = ids_of (index_add a iid (im_agent_instances s))"
    and "slots_inv s'"
    and "cr = None \<Longrightarrow> im_range_slots s' = im_range_slots s \<and> im_context_instances s' = im_context_instances s"
    and "cr = Some c \<Longrightarrow> \<exists>slot. map_of (im_range_slots s') = (map_of (im_range_slots s))((a, c) \<mapsto> slot)
           \<and> im_context_instances s' = index_add (a, slot) iid (im_context_instances s)"
proof -
  let ?i = "\<lambda>p. \<lparr>ii_instance_id = iid, ii_agent_id = a, ii_host = host, ii_port = p,
                  ii_context_range = cr, ii_num_gpus = gpus, ii_status = ''starting''\<rparr>"
  obtain p s0 where p: "(case port of None \<Rightarrow> (im_next_port s, s\<lparr>im_next_port := im_next_port s + 1\<rparr>)
                     | Some q \<Rightarrow> (q, s)) = (p, s0)" by fastforce
  then have s0: "im_instances s0 = im_instances s" "im_agent_instances s0 = im_agent_instances s"
    "im_range_slots s0 = im_range_slots s" "im_slot_ranges s0 = im_slot_ranges s"
    "im_context_instances s0 = im_context_instances s" by (auto split: option.splits)
  define s1 where "s1 = s0\<lparr>im_instances := AList.update iid (?i p) (im_instances s0),
                  im_agent_instances := index_add a iid (im_agent_instances s0)\<rparr>"
  have inv1: "slots_inv s1" using inv s0 by (simp add: s1_def slots_inv_def)
  have info: "info = ?i p" using r p by (auto simp: register_def Let_def split: option.splits prod.splits)
  show "ii_instance_id info = iid" "ii_agent_id info = a" "ii_context_range info = cr"
    by (simp_all add: info)
  have "map_of (im_instances s') = (map_of (im_instances s))(iid \<mapsto> info)
    \<and> ids_of (im_agent_instances s') = ids_of (index_add a iid (im_agent_instances s))
    \<and> slots_inv s'
    \<and> (cr = None \<longrightarrow> im_range_slots s' = im_range_slots s \<and> im_context_instances s' = im_context_instances s)
    \<and> (\<forall>c. cr = Some c \<longrightarrow> (\<exists>slot. map_of (im_range_slots s') = (map_of (im_range_slots s))((a, c) \<mapsto> slot)
           \<and> im_context_instances s' = index_add (a, slot) iid (im_context_instances s)))"
  proof (cases cr)
    case None
    then have "s' = s1" using r p by (auto simp: register_def s1_def Let_def)
    with None inv1 s0 info show ?thesis by (simp add: s1_def)
  next
    case (Some d)
    obtain slot s2 where g: "get_or_create_slot a d s1 = (slot, s2)" by fastforce
    have s': "s' = s2\<lparr>im_context_instances := index_add (a, slot) iid (im_context_instances s2)\<rparr>"
      using r p g Some by (auto simp: register_def s1_def Let_def)
    note ok = get_or_create_slot_ok [OF inv1 g]
    have "slots_inv s'" using ok(2) by (simp add: s' slots_inv_def)
    with ok s0 info Some show ?thesis by (auto simp: s' s1_def)
  qed
  then show "map_of (im_instances s') = (map_of (im_instances s))(iid \<mapsto> info)"
    and "ids_of (im_agent_instances s') = ids_of (index_add a iid (im_agent_instances s))"
    and "slots_inv s'"
    and "cr = None \<Longrightarrow> im_range_slots s' = im_range_slots s \<and> im_context_instances s' = im_context_instances s"
    and "cr = Some c \<Longrightarrow> \<exists>slot. map_of (im_range_slots s') = (map_of (im_range_slots s))((a, c) \<mapsto> slot)
           \<and> im_context_instances s' = index_add (a, slot) iid (im_context_instances s)"
    by blast+
qed

lemma register_context_inv:
  assumes inv: "im_inv s" and comp: "reg_compatible s iid a cr"
    and r: "register iid a host port cr gpus s = (info, s')"
  shows "context_inv s'"
proof -
  have sl: "slots_inv s" and cx: "context_inv s" using inv by (auto simp: im_inv_def)
  note F = register_facts [OF sl r]
  let ?serves = "\<lambda>I R b slot i. \<exists>info cr. I i = Some info \<and> ii_agent_id info = b
                    \<and> ii_context_range info = Some cr \<and> R (b, cr) = Some slot"
  have old: "ii_agent_id w = a \<and> ii_context_range w = cr" if "map_of (im_instances s) iid = Some w" for w
    using comp that by (simp add: reg_compatible_def)
  have has: "map_of (im_range_slots s) (ii_agent_id w, c) \<noteq> None"
    if "map_of (im_instances s) i = Some w" "ii_context_range w = Some c" for i w c
    using cx that unfolding context_inv_def by blast
  have dist: "distinct (ids_of (im_context_instances s) (b, slot))"
    and mem: "set (ids_of (im_context_instances s) (b, slot)) =
       {i. ?serves (map_of (im_instances s)) (map_of (im_range_slots s)) b slot i}" for b slot
    using cx unfolding context_inv_def by blast+
  show ?thesis
  proof (cases cr)
    case None
    have "?serves (map_of (im_instances s')) (map_of (im_range_slots s')) b slot i
      \<longleftrightarrow> ?serves (map_of (im_instances s)) (map_of (im_range_slots s)) b slot i" for b slot i
      using F(3,4) F(7) [OF None] None old by auto
    with cx F(3,4) F(7) [OF None] None show ?thesis
      by (auto simp: context_inv_def)
  next
    case (Some c)
    from F(8) [OF Some] obtain slot0 where
      R: "map_of (im_range_slots s') = (map_of (im_range_slots s))((a, c) \<mapsto> slot0)"
      and X: "im_context_instances s' = index_add (a, slot0) iid (im_context_instances s)" by blast
    have Rold: "map_of (im_range_slots s') k = Some sl" if "map_of (im_range_slots s) k = Some sl" for k sl
    proof (cases "k = (a, c)")
      case True
      from r Some that True show ?thesis
        by (auto simp: register_def Let_def get_or_create_slot_def split: option.splits)
    next
      case False
      with that show ?thesis by (simp add: R)
    qed
    have serves: "?serves (map_of (im_instances s')) (map_of (im_range_slots s')) b slot i
      \<longleftrightarrow> (b = a \<and> slot = slot0 \<and> i = iid)
          \<or> ?serves (map_of (im_instances s)) (map_of (im_range_slots s)) b slot i" for b slot i
    proof (cases "i = iid")
      case True
      have "?serves (map_of (im_instances s')) (map_of (im_range_slots s')) b slot iid
          \<longleftrightarrow> b = a \<and> slot = slot0"
        using F(2,3,4) Some R by (metis fun_upd_same option.inject)
      moreover have "b = a \<and> slot = slot0"
        if "?serves (map_of (im_instances s)) (map_of (im_range_slots s)) b slot iid"
        using that old Rold R Some by (metis fun_upd_same option.inject)
      ultimately show ?thesis using True by blast
    next
      case False
      then have "?serves (map_of (im_instances s')) (map_of (im_range_slots s')) b slot i
         \<longleftrightarrow> ?serves (map_of (im_instances s)) (map_of (im_range_slots s')) b slot i"
        by (simp add: F(4))
      also have "\<dots> \<longleftrightarrow> ?serves (map_of (im_instances s)) (map_of (im_range_slots s)) b slot i"
        using has [of i] Rold by (metis option.exhaust option.inject)
      finally show ?thesis using False by simp
    qed
    have "dict_wf (im_context_instances s')" using cx by (simp add: X context_inv_def)
    moreover have "map_of (im_range_slots s') (ii_agent_id w, d) \<noteq> None"
      if "map_of (im_instances s') i = Some w" "ii_context_range w = Some d" for i w d
      using that F(2,3,4) Some R has [of i w d] by (auto split: if_splits)
    moreover have "distinct (ids_of (im_context_instances s') (b, slot))
      \<and> set (ids_of (im_context_instances s') (b, slot)) =
         {i. ?serves (map_of (im_instances s')) (map_of (im_range_slots s')) b slot i}" for b slot
      unfolding serves using dist [of b slot] mem [of b slot] by (auto simp: X ids_of_index_add)
    ultimately show ?thesis unfolding context_inv_def by blast
  qed
qed

lemma register_inv:
  assumes inv: "im_inv s" and comp: "reg_compatible s iid a cr"
    and r: "register iid a host port cr gpus s = (info, s')"
  shows "im_inv s'"
proof -
  have sl: "slots_inv s" using inv by (simp add: im_inv_def)
  note F = register_facts [OF sl r]
  have ag: "distinct (ids_of (im_agent_instances s) b)"
    "set (ids_of (im_agent_instances s) b) =
       {i. \<exists>info. map_of (im_instances s) i = Some info \<and> ii_agent_id info = b}" for b
    using inv by (auto simp: im_inv_def agents_inv_def)
  have "ids_inv s'" using inv F(1,4) by (auto simp: im_inv_def ids_inv_def)
  moreover have "distinct (ids_of (im_agent_instances s') b)" for b
    using ag(1) by (simp add: F(5) ids_of_index_add)
  moreover have "set (ids_of (im_agent_instances s') b) =
       {i. \<exists>info. map_of (im_instances s') i = Some info \<and> ii_agent_id info = b}" for b
    using ag(2) [of b] ag(2) [of a] F(2) comp
    by (auto simp: F(4,5) ids_of_index_add reg_compatible_def)
  ultimately show ?thesis
    using F(6) register_context_inv [OF assms] by (simp add: im_inv_def agents_inv_def)
qed

lemma remove_instance_facts:
  assumes inv: "im_inv s" and known: "map_of (im_instances s) iid = Some info"
  shows "map_of (im_instances (remove_instance iid s)) = (map_of (im_instances s))(iid := None)"
    and "im_range_slots (remove_instance iid s) = im_range_slots s"
    and "im_slot_ranges (remove_instance iid s) = im_slot_ranges s"
    and "set (ids_of (im_agent_instances (remove_instance iid s)) a)
           = set (ids_of (im_agent_instances s) a) - {iid}"
    and "distinct (ids_of (im_agent_instances (remove_instance iid s)) a)"
    and "dict_wf (im_context_instances (remove_instance iid s))"
    and "set (ids_of (im_context_instances (remove_instance iid s)) (a, slot))
           = set (ids_of (im_context_instances s) (a, slot)) - {iid}"
    and "distinct (ids_of (im_context_instances (remove_instance iid s)) (a, slot))"
proof -
  let ?s = "remove_instance iid s"
  have ag: "distinct (ids_of (im_agent_instances s) b)"
    "iid \<in> set (ids_of (im_agent_instances s) b) \<longleftrightarrow> b = ii_agent_id info" for b
    using inv known by (auto simp: im_inv_def agents_inv_def)
  have cx: "dict_wf (im_context_instances s)" "distinct (ids_of (im_context_instances s) (b, sl))"
    "iid \<in> set (ids_of (im_context_instances s) (b, sl)) \<longleftrightarrow> b = ii_agent_id info \<and>
       (\<exists>cr. ii_context_range info = Some cr \<and> map_of (im_range_slots s) (b, cr) = Some sl)" for b sl
    using inv known by (auto simp: im_inv_def context_inv_def)
  show "map_of (im_instances ?s) = (map_of (im_instances s))(iid := None)"
    and "im_range_slots ?s = im_range_slots s" and "im_slot_ranges ?s = im_slot_ranges s"
    using known by (auto simp: remove_instance_def Let_def split: option.splits)
  have A: "ids_of (im_agent_instances ?s) b =
      (if b = ii_agent_id info then removeAll iid (ids_of (im_agent_instances s) b)
       else ids_of (im_agent_instances s) b)" for b
    using known by (auto simp: remove_instance_def Let_def ids_of_def split: option.splits)
  show "set (ids_of (im_agent_instances ?s) a) = set (ids_of (im_agent_instances s) a) - {iid}"
    using ag(2) [of a] by (auto simp: A)
  show "distinct (ids_of (im_agent_instances ?s) a)" using ag(1) by (simp add: A distinct_removeAll)
  show "dict_wf (im_context_instances ?s)"
    using known cx(1) by (auto simp: remove_instance_def Let_def split: option.splits)
  have X: "ids_of (im_context_instances ?s) (b, sl) = remove1 iid (ids_of (im_context_instances s) (b, sl))" for b sl
  proof (cases "iid \<in> set (ids_of (im_context_instances s) (b, sl))")
    case True
    then obtain cr where "b = ii_agent_id info" "ii_context_range info = Some cr"
      "map_of (im_range_slots s) (b, cr) = Some sl" using cx(3) by blast
    moreover from True obtain ids where "map_of (im_context_instances s) (b, sl) = Some ids"
      by (cases "map_of (im_context_instances s) (b, sl)") (auto simp: ids_of_def)
    ultimately show ?thesis using known by (simp add: remove_instance_def Let_def ids_of_def)
  next
    case False
    then have no: "\<not> (b = ii_agent_id info \<and>
       (\<exists>cr. ii_context_range info = Some cr \<and> map_of (im_range_slots s) (b, cr) = Some sl))"
      using cx(3) by blast
    have "ids_of (im_context_instances ?s) (b, sl) = ids_of (im_context_instances s) (b, sl)"
      using known no by (auto simp: remove_instance_def Let_def ids_of_def split: option.splits)
    with False show ?thesis by (simp add: remove1_idem)
  qed
  show "set (ids_of (im_context_instances ?s) (a, slot)) = set (ids_of (im_context_instances s) (a, slot)) - {iid}"
    and "distinct (ids_of (im_context_instances ?s) (a, slot))"
    using cx(2) by (simp_all add: X set_remove1_eq)
qed

lemma remove_instance_inv:
  assumes inv: "im_inv s"
  shows "im_inv (remove_instance iid s)"
proof (cases "map_of (im_instances s) iid")
  case None
  with inv show ?thesis by (simp add: remove_instance_def)
next
  case (Some info)
  note F = remove_instance_facts [OF inv Some]
  from inv have "slots_inv (remove_instance iid s)" "ids_inv (remove_instance iid s)"
    using F(1-3) by (auto simp: im_inv_def slots_inv_def ids_inv_def)
  moreover have "agents_inv (remove_instance iid s)"
    using inv by (auto simp: im_inv_def agents_inv_def F(1,4,5))
  moreover have "context_inv (remove_instance iid s)"
  proof -
    have old: "\<And>i w cr. map_of (im_instances s) i = Some w \<Longrightarrow> ii_context_range w = Some cr \<Longrightarrow>
          map_of (im_range_slots s) (ii_agent_id w, cr) \<noteq> None"
      and mem: "\<And>a slot. set (ids_of (im_context_instances s) (a, slot)) =
              {i. \<exists>info cr. map_of (im_instances s) i = Some info \<and> ii_agent_id info = a
                    \<and> ii_context_range info = Some cr \<and> map_of (im_range_slots s) (a, cr) = Some slot}"
      using inv unfolding im_inv_def context_inv_def by blast+
    have "map_of (im_range_slots s) (ii_agent_id w, cr) \<noteq> None"
      if "map_of (im_instances (remove_instance iid s)) i = Some w" "ii_context_range w = Some cr" for i w cr
      using that old [of i w cr] by (simp add: F(1) split: if_splits)
    then show ?thesis
      unfolding context_inv_def F(2) using F(6,8) by (auto simp: F(1,7) mem)
  qed
  ultimately show ?thesis by (simp add: im_inv_def)
qed

section \<open>Lookups under the invariant\<close>

lemma ready_infos_ok:
  assumes "\<forall>i \<in> set ids. map_of (im_instances s) i \<noteq> None"
  shows "ready_infos s ids = Inr (filter is_ready (map (the \<circ> map_of (im_instances s)) ids))"
proof -
  have "map_res (dict_item (im_instances s)) ids = Inr (map (the \<circ> map_of (im_instances s)) ids)"
    using assms by (intro map_res_all_Inr) (auto simp: dict_item_def)
  then show ?thesis by (simp add: ready_infos_def)
qed

lemma get_instances_for_agent_ids:
  "ord [] = [] \<Longrightarrow> get_instances_for_agent ord a s = ready_infos s (ord (ids_of (im_agent_instances s) a))"
  by (simp add: get_instances_for_agent_def ids_of_def ready_infos_def split: option.split)

lemma get_instances_for_context_ids:
  "get_instances_for_context a slot s = ready_infos s (ids_of (im_context_instances s) (a, slot))"
  by (simp add: get_instances_for_context_def ids_of_def ready_infos_def split: option.split)

lemma ready_infos_set:
  assumes ids: "ids_inv s"
    and mem: "set ids = {i. \<exists>info. map_of (im_instances s) i = Some info \<and> P info}"
  shows "\<exists>is. ready_infos s ids = Inr is
     \<and> set is = {info. im_get s (ii_instance_id info) = Some info \<and> P info \<and> is_ready info}"
proof -
  let ?is = "filter is_ready (map (the \<circ> map_of (im_instances s)) ids)"
  have id: "ii_instance_id info = i" if "map_of (im_instances s) i = Some info" for i info
    using ids that by (simp add: ids_inv_def)
  have "info \<in> set ?is \<longleftrightarrow> im_get s (ii_instance_id info) = Some info \<and> P info \<and> is_ready info" for info
  proof
    assume "info \<in> set ?is"
    then obtain i where i: "i \<in> set ids" "info = the (map_of (im_instances s) i)" "is_ready info" by auto
    from i(1) obtain w where "map_of (im_instances s) i = Some w" "P w" unfolding mem by blast
    with i id [of i w] show "im_get s (ii_instance_id info) = Some info \<and> P info \<and> is_ready info"
      by (simp add: im_get_def)
  next
    assume a: "im_get s (ii_instance_id info) = Some info \<and> P info \<and> is_ready info"
    then have "ii_instance_id info \<in> set ids" unfolding mem by (auto simp: im_get_def)
    with a show "info \<in> set ?is" by (force simp: im_get_def)
  qed
  moreover have "\<forall>i \<in> set ids. map_of (im_instances s) i \<noteq> None" by (auto simp: mem)
  ultimately show ?thesis using ready_infos_ok by blast
qed

lemma get_instances_for_agent_ok:
  assumes inv: "im_inv s" and ord: "\<And>xs. mset (ord xs) = mset xs"
  shows "\<exists>is. get_instances_for_agent ord a s = Inr is
     \<and> set is = {info. im_get s (ii_instance_id info) = Some info \<and> ii_agent_id info = a \<and> is_ready info}"
proof -
  have so: "set (ord xs) = set xs" for xs using ord by (metis set_mset_mset)
  have o0: "ord [] = []" using ord by (metis mset_zero_iff)
  show ?thesis
    unfolding get_instances_for_agent_ids [of ord, OF o0]
    by (rule ready_infos_set) (use inv in \<open>simp_all add: so im_inv_def agents_inv_def\<close>)
qed

definition serves :: "im \<Rightarrow> string \<Rightarrow> int \<Rightarrow> instance_info \<Rightarrow> bool" where
  "serves s a slot info \<longleftrightarrow> ii_agent_id info = a
     \<and> (\<exists>cr. ii_context_range info = Some cr \<and> map_of (im_range_slots s) (a, cr) = Some slot)"

lemma get_instances_for_context_ok:
  assumes inv: "im_inv s"
  shows "\<exists>is. get_instances_for_context a slot s = Inr is
     \<and> set is = {info. im_get s (ii_instance_id info) = Some info \<and> serves s a slot info \<and> is_ready info}"
  unfolding get_instances_for_context_ids
proof (rule ready_infos_set)
  show "ids_inv s" using inv by (simp add: im_inv_def)
  have "set (ids_of (im_context_instances s) (a, slot)) =
    {i. \<exists>info cr. map_of (im_instances s) i = Some info \<and> ii_agent_id info = a
          \<and> ii_context_range info = Some cr \<and> map_of (im_range_slots s) (a, cr) = Some slot}"
    using inv unfolding im_inv_def context_inv_def by blast
  then show "set (ids_of (im_context_instances s) (a, slot)) =
    {i. \<exists>info. map_of (im_instances s) i = Some info \<and> serves s a slot info}"
    unfolding serves_def by blast
qed

lemma scan_slots_Some:
  "scan_slots n xs = Some slot \<Longrightarrow> \<exists>us r vs. xs = us @ (slot, r) # vs \<and> in_range n r
     \<and> (\<forall>(sl, r') \<in> set us. \<not> in_range n r')"
proof (induction n xs rule: scan_slots.induct)
  case (2 n sl r rest)
  show ?case
  proof (cases "in_range n r")
    case True
    with "2.prems" show ?thesis by (intro exI [of _ "[]"]) auto
  next
    case False
    with 2 obtain us r' vs where "rest = us @ (slot, r') # vs" "in_range n r'"
      "\<forall>(sl, r') \<in> set us. \<not> in_range n r'" by auto
    with False show ?thesis by (intro exI [of _ "(sl, r) # us"]) auto
  qed
qed simp

lemma scan_slots_None: "scan_slots n xs = None \<longleftrightarrow> (\<forall>(sl, r) \<in> set xs. \<not> in_range n r)"
  by (induction n xs rule: scan_slots.induct) auto

lemma agent_slots_mem:
  assumes "slots_inv s"
  shows "(slot, cr) \<in> set (agent_slots a s) \<longleftrightarrow> map_of (im_range_slots s) (a, cr) = Some slot"
proof -
  have "(slot, cr) \<in> set (agent_slots a s) \<longleftrightarrow> ((a, slot), cr) \<in> set (im_slot_ranges s)"
    by (force simp: agent_slots_def)
  also have "\<dots> \<longleftrightarrow> map_of (im_slot_ranges s) (a, slot) = Some cr"
    using assms by (simp add: slots_inv_def dict_wf_map_of)
  also have "\<dots> \<longleftrightarrow> map_of (im_range_slots s) (a, cr) = Some slot"
    using assms unfolding slots_inv_def by blast
  finally show ?thesis .
qed

text \<open>The scan over the instances can only find a range that already has a slot.\<close>

lemma scan_ids_none:
  assumes "\<forall>i \<in> set ids. \<exists>info cr. map_of (im_instances s) i = Some info
             \<and> ii_context_range info = Some cr \<and> \<not> in_range n cr"
  shows "scan_ids s n ids = Inr False"
  using assms by (induction ids) auto

lemma scan_context_none:
  assumes "\<forall>((b, slot), ids) \<in> set d. b = a \<longrightarrow> scan_ids s n ids = Inr False"
  shows "scan_context s a n d = Inr None"
  using assms by (induction s a n d rule: scan_context.induct) auto

lemma find_context_slot_eq:
  assumes inv: "im_inv s"
  shows "find_context_slot a n s = Inr (scan_slots n (agent_slots a s))"
proof (cases "scan_slots n (agent_slots a s)")
  case None
  have sl: "slots_inv s" and wf: "dict_wf (im_context_instances s)"
    and mem: "\<And>a slot. set (ids_of (im_context_instances s) (a, slot)) =
        {i. \<exists>info cr. map_of (im_instances s) i = Some info \<and> ii_agent_id info = a
              \<and> ii_context_range info = Some cr \<and> map_of (im_range_slots s) (a, cr) = Some slot}"
    using inv unfolding im_inv_def context_inv_def by blast+
  have "scan_ids s n ids = Inr False" if "((a, slot), ids) \<in> set (im_context_instances s)" for slot ids
  proof (rule scan_ids_none, rule ballI)
    fix i assume "i \<in> set ids"
    moreover have "ids = ids_of (im_context_instances s) (a, slot)"
      using that dict_wf_map_of [OF wf] by (simp add: ids_of_def)
    ultimately obtain info cr where "map_of (im_instances s) i = Some info"
      "ii_context_range info = Some cr" "map_of (im_range_slots s) (a, cr) = Some slot"
      using mem by blast
    then show "\<exists>info cr. map_of (im_instances s) i = Some info
             \<and> ii_context_range info = Some cr \<and> \<not> in_range n cr"
      using None agent_slots_mem [OF sl, of slot cr a] unfolding scan_slots_None by blast
  qed
  then have "scan_context s a n (im_context_instances s) = Inr None"
    by (intro scan_context_none) auto
  with None show ?thesis by (simp add: find_context_slot_def)
qed (simp add: find_context_slot_def)

lemma first_other_Some: "first_other x is = Some i \<Longrightarrow> i \<in> set is \<and> ii_instance_id i \<noteq> x"
  by (auto simp: first_other_def find_Some_iff)

lemma first_other_None: "first_other x is = None \<longleftrightarrow> (\<forall>i \<in> set is. ii_instance_id i = x)"
  by (auto simp: first_other_def find_None_iff)

section \<open>Reachable registries\<close>

inductive im_reach :: "im \<Rightarrow> bool" where
  reach_new: "im_reach im_new"
| reach_register: "im_reach s \<Longrightarrow> reg_compatible s iid a cr \<Longrightarrow>
    im_reach (snd (register iid a host port cr gpus s))"
| reach_ready: "im_reach s \<Longrightarrow> im_reach (set_ready iid s)"
| reach_unavailable: "im_reach s \<Longrightarrow> im_reach (snd (mark_unavailable iid s))"
| reach_remove: "im_reach s \<Longrightarrow> im_reach (remove_instance iid s)"

lemma im_reach_inv: "im_reach s \<Longrightarrow> im_inv s"
proof (induction rule: im_reach.induct)
  case (reach_register s iid a cr host port gpus)
  then show ?case
    by (cases "register iid a host port cr gpus s") (auto intro: register_inv)
qed (simp_all add: im_new_inv set_ready_def mark_unavailable_def Let_def set_status_inv remove_instance_inv)

text \<open>
  What the iteration over a Python set is known to do: it visits every element once, in some
  order.
\<close>

definition set_order :: "(string list \<Rightarrow> string list) \<Rightarrow> bool" where
  "set_order ord \<longleftrightarrow> (\<forall>xs. mset (ord xs) = mset xs)"

lemma set_order_id [simp]: "set_order (\<lambda>xs. xs)"
  by (simp add: set_order_def)

lemma set_order_rev: "set_order rev"
  by (simp add: set_order_def)

section \<open>The interface the schedulers use\<close>

locale registry =
  fixes good :: "'r \<Rightarrow> bool"
    and lookup :: "'r \<Rightarrow> string \<Rightarrow> instance_info option"
    and for_agent :: "(string list \<Rightarrow> string list) \<Rightarrow> string \<Rightarrow> 'r \<Rightarrow> instance_info list res"
    and for_context :: "string \<Rightarrow> int \<Rightarrow> 'r \<Rightarrow> instance_info list res"
    and slot_for :: "string \<Rightarrow> int \<Rightarrow> 'r \<Rightarrow> int option res"
    and serving :: "'r \<Rightarrow> string \<Rightarrow> int \<Rightarrow> instance_info \<Rightarrow> bool"
  assumes for_agent_law: "good s \<Longrightarrow> set_order ord \<Longrightarrow>
      \<exists>is. for_agent ord a s = Inr is
        \<and> set is = {i. lookup s (ii_instance_id i) = Some i \<and> ii_agent_id i = a \<and> is_ready i}"
    and for_context_law: "good s \<Longrightarrow>
      \<exists>is. for_context a slot s = Inr is
        \<and> set is = {i. lookup s (ii_instance_id i) = Some i \<and> serving s a slot i \<and> is_ready i}"
    and slot_for_total: "good s \<Longrightarrow> \<exists>r. slot_for a n s = Inr r"
    and serving_agent: "serving s a slot i \<Longrightarrow> ii_agent_id i = a"
begin

lemma agent_total: "good s \<Longrightarrow> set_order ord \<Longrightarrow> \<exists>is. for_agent ord a s = Inr is"
  using for_agent_law by blast

lemma context_total: "good s \<Longrightarrow> \<exists>is. for_context a slot s = Inr is"
  using for_context_law by blast

lemma agent_member:
  assumes "good s" "set_order ord" "for_agent ord a s = Inr is" "i \<in> set is"
  shows "lookup s (ii_instance_id i) = Some i \<and> ii_agent_id i = a \<and> is_ready i"
  using for_agent_law [OF assms(1,2), of a] assms(3,4) by auto

lemma context_member:
  assumes "good s" "for_context a slot s = Inr is" "i \<in> set is"
  shows "lookup s (ii_instance_id i) = Some i \<and> serving s a slot i \<and> is_ready i"
  using for_context_law [OF assms(1), of a slot] assms(2,3) by auto

lemma context_subset_agent:
  assumes "good s" "set_order ord" "for_context a slot s = Inr cs" "for_agent ord a s = Inr as"
  shows "set cs \<subseteq> set as"
  using for_context_law [OF assms(1), of a slot] for_agent_law [OF assms(1,2), of a] assms(3,4)
    serving_agent by fastforce

text \<open>Ids identify the instances of a lookup.\<close>

lemma member_id_inject:
  assumes "good s" "set_order ord" "for_agent ord a s = Inr is" "i \<in> set is" "j \<in> set is"
    and "ii_instance_id i = ii_instance_id j"
  shows "i = j"
  using agent_member [OF assms(1-3)] assms(4-6) by (metis option.inject)

end

interpretation reg: registry im_inv im_get get_instances_for_agent get_instances_for_context
  find_context_slot serves
proof
  show "\<exists>is. get_instances_for_agent ord a s = Inr is
        \<and> set is = {i. im_get s (ii_instance_id i) = Some i \<and> ii_agent_id i = a \<and> is_ready i}"
    if "im_inv s" "set_order ord" for s ord a
    using that get_instances_for_agent_ok by (simp add: set_order_def)
  show "\<exists>is. get_instances_for_context a slot s = Inr is
        \<and> set is = {i. im_get s (ii_instance_id i) = Some i \<and> serves s a slot i \<and> is_ready i}"
    if "im_inv s" for s a slot
    using that by (rule get_instances_for_context_ok)
  show "\<exists>r. find_context_slot a n s = Inr r" if "im_inv s" for s a n
    using find_context_slot_eq [OF that] by simp
  show "ii_agent_id i = a" if "serves s a slot i" for s a slot i
    using that by (simp add: serves_def)
qed

section \<open>Properties\<close>

text \<open>An example registry: two ready instances of one agent, in two ranges.\<close>

definition example_im :: im where
  "example_im =
     set_ready ''b'' (set_ready ''a''
       (snd (register ''b'' ''coder'' ''h'' (Some 9001) (Some (1000, 4000)) (JInt 1)
         (snd (register ''a'' ''coder'' ''h'' None (Some (0, 1000)) (JInt 1) im_new)))))"

lemma example_im_reach: "im_reach example_im"
proof -
  have 1: "im_reach (snd (register ''a'' ''coder'' ''h'' None (Some (0, 1000)) (JInt 1) im_new))"
    by (rule reach_register [OF reach_new]) code_simp
  have 2: "im_reach (snd (register ''b'' ''coder'' ''h'' (Some 9001) (Some (1000, 4000)) (JInt 1)
         (snd (register ''a'' ''coder'' ''h'' None (Some (0, 1000)) (JInt 1) im_new))))"
    by (rule reach_register [OF 1]) code_simp
  show ?thesis unfolding example_im_def by (rule reach_ready [OF reach_ready [OF 2]])
qed

text \<open>
  C39. After any sequence of registrations (an id is only registered again for its own agent
  and range), status changes and removals, the lookups by agent and by context slot never
  raise and return exactly the ready instances registered for that agent, and for that
  agent's range with that slot, whatever order the set of ids is visited in.
\<close>

theorem lookups_exact:
  assumes "im_reach s" and "set_order ord"
  shows "(\<exists>is. get_instances_for_agent ord a s = Inr is
        \<and> set is = {i. im_get s (ii_instance_id i) = Some i \<and> ii_agent_id i = a \<and> is_ready i})
    \<and> (\<exists>is. get_instances_for_context a slot s = Inr is
        \<and> set is = {i. im_get s (ii_instance_id i) = Some i \<and> serves s a slot i \<and> is_ready i})"
  using reg.for_agent_law [OF im_reach_inv [OF assms(1)] assms(2)]
    reg.for_context_law [OF im_reach_inv [OF assms(1)]] by blast

theorem lookups_exact_witness:
  "(\<exists>is. get_instances_for_agent rev ''coder'' example_im = Inr is
        \<and> set is = {i. im_get example_im (ii_instance_id i) = Some i \<and> ii_agent_id i = ''coder'' \<and> is_ready i})
    \<and> (\<exists>is. get_instances_for_context ''coder'' 1 example_im = Inr is
        \<and> set is = {i. im_get example_im (ii_instance_id i) = Some i \<and> serves example_im ''coder'' 1 i \<and> is_ready i})"
  by (rule lookups_exact [OF example_im_reach set_order_rev])

text \<open>
  The context slot found for a length is the smallest slot of the agent whose half-open
  range contains the length; none is found exactly when no registered range of the agent
  contains it. The search never raises.
\<close>

theorem find_context_slot_correct:
  assumes "im_reach s"
  shows "\<exists>r. find_context_slot a n s = Inr r
    \<and> (r = None \<longleftrightarrow> \<not> (\<exists>slot cr. map_of (im_slot_ranges s) (a, slot) = Some cr \<and> in_range n cr))
    \<and> (\<forall>slot. r = Some slot \<longrightarrow>
         (\<exists>cr. map_of (im_slot_ranges s) (a, slot) = Some cr \<and> in_range n cr)
         \<and> (\<forall>slot' cr. map_of (im_slot_ranges s) (a, slot') = Some cr \<and> in_range n cr \<longrightarrow> slot \<le> slot'))"
proof -
  have inv: "im_inv s" using assms by (rule im_reach_inv)
  then have sl: "slots_inv s" by (simp add: im_inv_def)
  have mem: "(slot, cr) \<in> set (agent_slots a s) \<longleftrightarrow> map_of (im_slot_ranges s) (a, slot) = Some cr" for slot cr
    using agent_slots_mem [OF sl] sl unfolding slots_inv_def by blast
  have none: "scan_slots n (agent_slots a s) = None
      \<longleftrightarrow> \<not> (\<exists>slot cr. map_of (im_slot_ranges s) (a, slot) = Some cr \<and> in_range n cr)"
    unfolding scan_slots_None using mem by blast
  have "(\<exists>cr. map_of (im_slot_ranges s) (a, slot) = Some cr \<and> in_range n cr)
         \<and> (\<forall>slot' cr. map_of (im_slot_ranges s) (a, slot') = Some cr \<and> in_range n cr \<longrightarrow> slot \<le> slot')"
    if r: "scan_slots n (agent_slots a s) = Some slot" for slot
  proof -
    from scan_slots_Some [OF r] obtain us r vs where
      split: "agent_slots a s = us @ (slot, r) # vs" and hit: "in_range n r"
      and no: "\<forall>(sl, r') \<in> set us. \<not> in_range n r'" by blast
    have "sorted (agent_slots a s)" by (simp add: agent_slots_def)
    then have later: "slot \<le> sl" if "(sl, r') \<in> set vs" for sl r'
      using that unfolding split by (auto simp: sorted_append less_eq_prod_def)
    have "slot \<le> slot'" if "map_of (im_slot_ranges s) (a, slot') = Some cr" "in_range n cr" for slot' cr
    proof -
      from that(1) have "(slot', cr) \<in> set us \<or> (slot', cr) = (slot, r) \<or> (slot', cr) \<in> set vs"
        unfolding mem [symmetric] split by auto
      with no that(2) later show ?thesis by blast
    qed
    moreover have "map_of (im_slot_ranges s) (a, slot) = Some r"
      unfolding mem [symmetric] split by simp
    ultimately show ?thesis using hit by blast
  qed
  with none show ?thesis unfolding find_context_slot_eq [OF inv] by blast
qed

theorem find_context_slot_correct_witness:
  "find_context_slot ''coder'' 2500 example_im = Inr (Some 1) \<and> in_range 2500 (1000, 4000)
    \<and> map_of (im_slot_ranges example_im) (''coder'', 1) = Some (1000, 4000)"
proof -
  have v: "find_context_slot ''coder'' 2500 example_im = Inr (Some 1)" by code_simp
  have r: "map_of (im_slot_ranges example_im) (''coder'', 1) = Some (1000, 4000)" by code_simp
  from find_context_slot_correct [OF example_im_reach, of "''coder''" 2500] v r show ?thesis by auto
qed

text \<open>
  Failover: the alternative found for a failed instance is a ready instance of the same
  agent and not the excluded one; it serves the same slot whenever some other ready instance
  does; and none is found only when the agent has no other ready instance.
\<close>

theorem find_alternative_correct:
  assumes "im_reach s" and "set_order ord"
  shows "\<exists>r. find_alternative ord a slot x s = Inr r
    \<and> (\<forall>i. r = Some i \<longrightarrow> im_get s (ii_instance_id i) = Some i \<and> ii_agent_id i = a \<and> is_ready i
         \<and> ii_instance_id i \<noteq> x)
    \<and> (\<forall>j. im_get s (ii_instance_id j) = Some j \<and> is_ready j \<and> ii_instance_id j \<noteq> x \<and> serves s a slot j
         \<longrightarrow> (\<exists>i. r = Some i \<and> serves s a slot i))
    \<and> (r = None \<longrightarrow> (\<forall>j. im_get s (ii_instance_id j) = Some j \<and> ii_agent_id j = a \<and> is_ready j
         \<longrightarrow> ii_instance_id j = x))"
proof -
  have inv: "im_inv s" using assms(1) by (rule im_reach_inv)
  obtain cs where cs: "get_instances_for_context a slot s = Inr cs"
    and csm: "set cs = {i. im_get s (ii_instance_id i) = Some i \<and> serves s a slot i \<and> is_ready i}"
    using reg.for_context_law [OF inv] by blast
  obtain as where as: "get_instances_for_agent ord a s = Inr as"
    and asm: "set as = {i. im_get s (ii_instance_id i) = Some i \<and> ii_agent_id i = a \<and> is_ready i}"
    using reg.for_agent_law [OF inv assms(2)] by blast
  show ?thesis
  proof (cases "first_other x cs")
    case (Some i)
    then have "find_alternative ord a slot x s = Inr (Some i)" by (simp add: find_alternative_def cs)
    moreover have "im_get s (ii_instance_id i) = Some i" "serves s a slot i" "is_ready i" "ii_instance_id i \<noteq> x"
      using first_other_Some [OF Some] csm by auto
    ultimately show ?thesis using reg.serving_agent by fastforce
  next
    case None
    then have "find_alternative ord a slot x s = Inr (first_other x as)"
      by (simp add: find_alternative_def cs as)
    moreover have "\<not> (im_get s (ii_instance_id j) = Some j \<and> is_ready j \<and> ii_instance_id j \<noteq> x \<and> serves s a slot j)" for j
      using None csm unfolding first_other_None by blast
    moreover have "im_get s (ii_instance_id i) = Some i \<and> ii_agent_id i = a \<and> is_ready i \<and> ii_instance_id i \<noteq> x"
      if "first_other x as = Some i" for i
      using first_other_Some [OF that] asm by blast
    moreover have "ii_instance_id j = x"
      if "first_other x as = None" "im_get s (ii_instance_id j) = Some j \<and> ii_agent_id j = a \<and> is_ready j" for j
      using that asm unfolding first_other_None by blast
    ultimately show ?thesis by blast
  qed
qed

theorem find_alternative_correct_witness:
  "\<exists>i. find_alternative rev ''coder'' 0 ''a'' example_im = Inr (Some i)
     \<and> im_get example_im (ii_instance_id i) = Some i \<and> ii_agent_id i = ''coder'' \<and> is_ready i
     \<and> ii_instance_id i \<noteq> ''a''"
proof -
  have "find_alternative rev ''coder'' 0 ''a'' example_im = Inr (Some (the (im_get example_im ''b'')))"
    by code_simp
  with find_alternative_correct [OF example_im_reach set_order_rev, of "''coder''" 0 "''a''"] show ?thesis by auto
qed

text \<open>
  An id that is registered again for a different range stays in the list of its old
  slot. Once it is removed, looking the old slot up raises KeyError, and the lookup by
  agent fails the same way when the id was registered again for a different agent.
\<close>

theorem stale_id_breaks_lookup:
  assumes "c \<noteq> c'" and "a \<noteq> b"
  shows "get_instances_for_context a 0 (remove_instance i (snd (register i a h p (Some c') g
       (snd (register i a h p (Some c) g im_new))))) = Inl KeyError
    \<and> get_instances_for_agent (\<lambda>xs. xs) a (remove_instance i (snd (register i b h p (Some c) g
       (snd (register i a h p (Some c) g im_new))))) = Inl KeyError"
  using assms
  by (cases p) (simp_all add: register_def im_new_def get_or_create_slot_def existing_slots_def index_add_def
      remove_instance_def get_instances_for_context_def get_instances_for_agent_def ready_infos_def
      dict_item_def Let_def)

theorem stale_id_breaks_lookup_witness:
  "get_instances_for_context ''a'' 0 (remove_instance ''i'' (snd (register ''i'' ''a'' ''h'' None (Some (0, 8)) (JInt 1)
        (snd (register ''i'' ''a'' ''h'' None (Some (0, 4)) (JInt 1) im_new))))) = Inl KeyError
    \<and> get_instances_for_agent (\<lambda>xs. xs) ''a'' (remove_instance ''i'' (snd (register ''i'' ''b'' ''h'' None (Some (0, 4)) (JInt 1)
        (snd (register ''i'' ''a'' ''h'' None (Some (0, 4)) (JInt 1) im_new))))) = Inl KeyError"
  by (rule stale_id_breaks_lookup) simp_all

end
