(* ===== verification/BlockHash.thy ===== *)
theory BlockHash
  imports PyValue
begin

text \<open>
  The content hashes of KV-cache blocks, computed in three places that have to agree: the
  router (\<open>AsyncAgentScheduler._compute_request_block_hashes\<close>), the blocks of a sequence
  (\<open>PrefixCachingBlock.content_hash\<close> and \<open>hash_block_tokens\<close>) and the incremental
  \<open>ComputedBlocksTracker\<close>. The signed integer made of the first eight bytes of the SHA-256
  of a string is the parameter \<open>H\<close>: every theorem holds for every such function. The hashed
  string is the exact \<open>repr\<close> of the tuple.
\<close>

section \<open>The hash of one block\<close>

definition NONE_HASH :: int where
  "NONE_HASH = - (2 ^ 63)"

definition hash_block_tokens ::
  "(string \<Rightarrow> int) \<Rightarrow> bool \<Rightarrow> int option \<Rightarrow> int list \<Rightarrow> int option \<Rightarrow> int" where
  "hash_block_tokens H is_first_block prev_block_hash cur extra_hash =
     (let prev = (if is_first_block \<and> prev_block_hash = None then Some NONE_HASH else prev_block_hash)
      in H (repr_block_key is_first_block prev cur extra_hash))"

text \<open>
  The hash of the last block of a chain of blocks, given as the token lists from the last
  block back to the first. A block that is not full has no hash.
\<close>

fun content_hash :: "(string \<Rightarrow> int) \<Rightarrow> nat \<Rightarrow> int option \<Rightarrow> int list list \<Rightarrow> int option" where
  "content_hash H bs extra [] = None"
| "content_hash H bs extra (toks # prevs) =
     (if length toks \<noteq> bs then None
      else (let is_first_block = (prevs = []);
                prev_block_hash = (if is_first_block then Some NONE_HASH else content_hash H bs extra prevs)
            in if prev_block_hash = Some NONE_HASH \<and> \<not> is_first_block then None
               else Some (hash_block_tokens H is_first_block prev_block_hash toks extra)))"

section \<open>The router's hashes\<close>

fun request_hash_loop :: "(string \<Rightarrow> int) \<Rightarrow> nat \<Rightarrow> int \<Rightarrow> int \<Rightarrow> int list list \<Rightarrow> int list" where
  "request_hash_loop H bs none_hash prev [] = []"
| "request_hash_loop H bs none_hash prev (c # cs) =
     (if length c < bs then []
      else (let h = H (repr_block_key (prev = none_hash) (Some prev) c None)
            in h # request_hash_loop H bs none_hash h cs))"

text \<open>
  A step of 0 makes \<open>range\<close> raise; a negative step makes it empty.
\<close>

definition compute_request_block_hashes ::
  "(string \<Rightarrow> int) \<Rightarrow> int list \<Rightarrow> int \<Rightarrow> int \<Rightarrow> int list res" where
  "compute_request_block_hashes H token_ids block_size none_hash =
     (if block_size = 0 then Inl ValueError
      else if block_size < 0 then Inr []
      else Inr (request_hash_loop H (nat block_size) none_hash none_hash
                  (chunks (nat block_size) token_ids)))"

section \<open>The tracker of computed blocks\<close>

datatype device = GPU | CPU

record tracker =
  tr_block_size :: nat
  tr_enable_caching :: bool
  tr_blocks_hashes :: "(int, int list) dict"
  tr_num_tokens_computed :: "(int \<times> device, int) dict"

definition tracker_new :: "nat \<Rightarrow> bool \<Rightarrow> tracker" where
  "tracker_new bs caching = \<lparr>tr_block_size = bs, tr_enable_caching = caching,
     tr_blocks_hashes = [], tr_num_tokens_computed = []\<rparr>"

text \<open>What the tracker reads of a \<open>Sequence\<close>.\<close>

record seq_view =
  sv_seq_id :: int
  sv_token_ids :: "int list"
  sv_extra_hash :: "int option"
  sv_is_prefill :: bool

text \<open>\<open>token_ids[i * bs:(i + 1) * bs]\<close>\<close>

definition block_slice :: "nat \<Rightarrow> int list \<Rightarrow> nat \<Rightarrow> int list" where
  "block_slice bs toks i = take bs (drop (i * bs) toks)"

fun tracker_loop ::
  "(string \<Rightarrow> int) \<Rightarrow> nat \<Rightarrow> int option \<Rightarrow> int list \<Rightarrow> nat list \<Rightarrow> int \<Rightarrow> int list \<Rightarrow> int list" where
  "tracker_loop H bs extra toks [] prev acc = acc"
| "tracker_loop H bs extra toks (i # is) prev acc =
     (let h = hash_block_tokens H (prev = NONE_HASH) (Some prev) (block_slice bs toks i) extra
      in tracker_loop H bs extra toks is h (acc @ [h]))"

text \<open>
  The assertion of the source on the length is the first test; a block size of 0 divides by
  zero. The assertion inside the loop holds by the bounds of the loop.
\<close>

definition update_seq_hashes :: "(string \<Rightarrow> int) \<Rightarrow> seq_view \<Rightarrow> (tracker, unit) act" where
  "update_seq_hashes H sq t =
     (if \<not> tr_enable_caching t then (Inl AssertionError, t)
      else
        (let recorded = (case map_of (tr_blocks_hashes t) (sv_seq_id sq) of None \<Rightarrow> [] | Some hs \<Rightarrow> hs);
             n = length recorded;
             toks = sv_token_ids sq;
             bs = tr_block_size t
         in if length toks < n * bs then (Inl AssertionError, t)
            else if bs = 0 then (Inl ZeroDivisionError, t)
            else (Inr (),
                  t\<lparr>tr_blocks_hashes :=
                      AList.update (sv_seq_id sq)
                        (tracker_loop H bs (sv_extra_hash sq) toks [n..<length toks div bs]
                           (if n = 0 then NONE_HASH else last recorded) recorded)
                        (tr_blocks_hashes t)\<rparr>)))"

text \<open>The allocator's \<open>find_cached_blocks_prefix\<close> is the argument \<open>find_prefix\<close>.\<close>

definition get_num_cached_tokens ::
  "(string \<Rightarrow> int) \<Rightarrow> (int list \<Rightarrow> device \<Rightarrow> int list res) \<Rightarrow> seq_view \<Rightarrow> device \<Rightarrow> (tracker, int) act" where
  "get_num_cached_tokens H find_prefix sq dev t =
     (if \<not> tr_enable_caching t then (Inr 0, t)
      else (case update_seq_hashes H sq t of
              (Inl e, t1) \<Rightarrow> (Inl e, t1)
            | (Inr _, t1) \<Rightarrow>
                (case (map_of (tr_num_tokens_computed t1) (sv_seq_id sq, dev), sv_is_prefill sq) of
                   (Some n, True) \<Rightarrow> (Inr n, t1)
                 | _ \<Rightarrow>
                     (case map_of (tr_blocks_hashes t1) (sv_seq_id sq) of
                        None \<Rightarrow> (Inl KeyError, t1)
                      | Some hs \<Rightarrow>
                          (case find_prefix hs dev of
                             Inl e \<Rightarrow> (Inl e, t1)
                           | Inr found \<Rightarrow>
                               (let n = int (length found) * int (tr_block_size t1)
                                in (Inr n, t1\<lparr>tr_num_tokens_computed :=
                                      AList.update (sv_seq_id sq, dev) n (tr_num_tokens_computed t1)\<rparr>)))))))"

definition update_num_cached_tokens ::
  "(string \<Rightarrow> int) \<Rightarrow> seq_view \<Rightarrow> int \<Rightarrow> device \<Rightarrow> (tracker, unit) act" where
  "update_num_cached_tokens H sq n dev t =
     (if \<not> tr_enable_caching t then (Inr (), t)
      else (case update_seq_hashes H sq t of
              (Inl e, t1) \<Rightarrow> (Inl e, t1)
            | (Inr _, t1) \<Rightarrow>
                (Inr (), t1\<lparr>tr_num_tokens_computed :=
                   AList.update (sv_seq_id sq, dev) n (tr_num_tokens_computed t1)\<rparr>)))"

definition tracker_remove_seq :: "int \<Rightarrow> tracker \<Rightarrow> tracker" where
  "tracker_remove_seq sid t =
     (if \<not> tr_enable_caching t then t
      else if map_of (tr_blocks_hashes t) sid = None then t
      else t\<lparr>tr_blocks_hashes := AList.delete sid (tr_blocks_hashes t),
             tr_num_tokens_computed :=
               filter (\<lambda>((i, dev), n). i \<noteq> sid) (tr_num_tokens_computed t)\<rparr>)"

section \<open>The tracker of access times\<close>

type_synonym last_access = "(int, pyfloat option) dict"

definition la_add_seq :: "int \<Rightarrow> (last_access, unit) act" where
  "la_add_seq sid m =
     (if map_of m sid \<noteq> None then (Inl AssertionError, m) else (Inr (), AList.update sid None m))"

definition la_remove_seq :: "int \<Rightarrow> (last_access, unit) act" where
  "la_remove_seq sid m =
     (if map_of m sid = None then (Inl AssertionError, m) else (Inr (), AList.delete sid m))"

definition la_update_last_access :: "int \<Rightarrow> pyfloat \<Rightarrow> (last_access, unit) act" where
  "la_update_last_access sid t m =
     (if map_of m sid = None then (Inl AssertionError, m) else (Inr (), AList.update sid (Some t) m))"

text \<open>The call made on the allocator, if any: the blocks and the time they get.\<close>

definition la_update_seq_blocks ::
  "int \<Rightarrow> int list \<Rightarrow> last_access \<Rightarrow> (int list \<times> pyfloat) option res" where
  "la_update_seq_blocks sid ids m =
     (case map_of m sid of
        None \<Rightarrow> Inl AssertionError
      | Some None \<Rightarrow> Inr None
      | Some (Some t) \<Rightarrow> Inr (Some (ids, t)))"

section \<open>The common chain\<close>

fun hash_chain :: "(string \<Rightarrow> int) \<Rightarrow> int option \<Rightarrow> int \<Rightarrow> int list list \<Rightarrow> int list" where
  "hash_chain H extra prev [] = []"
| "hash_chain H extra prev (c # cs) =
     (let h = hash_block_tokens H (prev = NONE_HASH) (Some prev) c extra
      in h # hash_chain H extra h cs)"

definition full_blocks :: "nat \<Rightarrow> int list \<Rightarrow> int list list" where
  "full_blocks bs toks = map (block_slice bs toks) [0..<length toks div bs]"

lemma length_full_blocks [simp]: "length (full_blocks bs toks) = length toks div bs"
  by (simp add: full_blocks_def)

lemma full_blocks_short: "length toks < bs \<Longrightarrow> full_blocks bs toks = []"
  by (simp add: full_blocks_def)

lemma block_slice_drop: "block_slice bs (drop bs toks) i = block_slice bs toks (Suc i)"
  by (simp add: block_slice_def add.commute)

lemma full_blocks_step:
  assumes "0 < bs" "bs \<le> length toks"
  shows "full_blocks bs toks = take bs toks # full_blocks bs (drop bs toks)"
proof -
  have "length toks div bs = Suc ((length toks - bs) div bs)"
    using assms by (simp add: le_div_geq)
  then have "full_blocks bs toks = map (block_slice bs toks) (0 # map Suc [0..<(length toks - bs) div bs])"
    by (simp add: full_blocks_def map_Suc_upt upt_conv_Cons del: upt_Suc)
  also have "\<dots> = take bs toks # full_blocks bs (drop bs toks)"
    by (simp add: full_blocks_def block_slice_drop block_slice_def [of _ _ 0] comp_def)
  finally show ?thesis .
qed

lemma block_slice_bound: "0 < bs \<Longrightarrow> i < length toks div bs \<Longrightarrow> i * bs + bs \<le> length toks"
  using less_eq_div_iff_mult_less_eq [of bs "Suc i" "length toks"] by (simp add: Suc_leI add.commute)

lemma full_blocks_length: "0 < bs \<Longrightarrow> c \<in> set (full_blocks bs toks) \<Longrightarrow> length c = bs"
proof -
  assume bs: "0 < bs" and "c \<in> set (full_blocks bs toks)"
  then obtain i where i: "i < length toks div bs" "c = block_slice bs toks i"
    by (auto simp: full_blocks_def)
  with block_slice_bound [OF bs i(1)] show ?thesis by (simp add: block_slice_def)
qed

text \<open>The loop that breaks at a short slice sees exactly the full blocks.\<close>

lemma takeWhile_chunks_full:
  "0 < bs \<Longrightarrow> takeWhile (\<lambda>c. \<not> length c < bs) (chunks bs toks) = full_blocks bs toks"
proof (induction bs toks rule: chunks.induct)
  case (1 bs toks)
  show ?case
  proof (cases "bs \<le> length toks")
    case True
    moreover from True "1.prems" have "toks \<noteq> []" by auto
    ultimately show ?thesis using 1 by (simp add: chunks_full full_blocks_step)
  next
    case False
    with "1.prems" show ?thesis
      by (cases "toks = []") (simp_all add: chunks_step full_blocks_short)
  qed
qed

lemma request_hash_loop_chain:
  "request_hash_loop H bs NONE_HASH prev cs = hash_chain H None prev (takeWhile (\<lambda>c. \<not> length c < bs) cs)"
  by (induction cs arbitrary: prev) (simp_all add: hash_block_tokens_def Let_def)

lemma request_hashes_chain:
  "0 < bs \<Longrightarrow> compute_request_block_hashes H toks (int bs) NONE_HASH
     = Inr (hash_chain H None NONE_HASH (full_blocks bs toks))"
  by (simp add: compute_request_block_hashes_def request_hash_loop_chain takeWhile_chunks_full)

lemma tracker_loop_chain:
  "tracker_loop H bs extra toks is prev acc = acc @ hash_chain H extra prev (map (block_slice bs toks) is)"
  by (induction "is" arbitrary: prev acc) (simp_all add: Let_def)

lemma length_hash_chain [simp]: "length (hash_chain H extra prev cs) = length cs"
  by (induction cs arbitrary: prev) (simp_all add: Let_def)

lemma hash_chain_append:
  "hash_chain H extra prev (xs @ ys) =
     hash_chain H extra prev xs @ hash_chain H extra (last (prev # hash_chain H extra prev xs)) ys"
  by (induction xs arbitrary: prev) (simp_all add: Let_def)

lemma hash_chain_nth:
  "i < length cs \<Longrightarrow> hash_chain H extra prev cs ! i =
     hash_block_tokens H ((prev # hash_chain H extra prev cs) ! i = NONE_HASH)
       (Some ((prev # hash_chain H extra prev cs) ! i)) (cs ! i) extra"
proof (induction cs arbitrary: prev i)
  case (Cons c cs)
  show ?case
  proof (cases i)
    case (Suc j)
    with Cons.prems Cons.IH [of j "hash_block_tokens H (prev = NONE_HASH) (Some prev) c extra"]
    show ?thesis by (simp add: Let_def)
  qed (simp add: Let_def)
qed simp

text \<open>The hash of a block of the sequence is the entry of the chain at its position.\<close>

lemma content_hash_chain:
  assumes "\<forall>c \<in> set cs. length c = bs" and "NONE_HASH \<notin> set (hash_chain H extra NONE_HASH cs)"
    and "i < length cs"
  shows "content_hash H bs extra (rev (take (Suc i) cs)) = Some (hash_chain H extra NONE_HASH cs ! i)"
  using assms(3)
proof (induction i)
  case 0
  then obtain c ds where "cs = c # ds" by (cases cs) auto
  with assms(1) show ?case by (simp add: Let_def hash_block_tokens_def)
next
  case (Suc i)
  let ?hs = "hash_chain H extra NONE_HASH cs"
  have rev: "rev (take (Suc (Suc i)) cs) = cs ! Suc i # rev (take (Suc i) cs)"
    using Suc.prems by (simp add: take_Suc_conv_app_nth)
  have ih: "content_hash H bs extra (rev (take (Suc i) cs)) = Some (?hs ! i)" using Suc by simp
  have "?hs ! i \<in> set ?hs" using Suc.prems by simp
  then have nn: "?hs ! i \<noteq> NONE_HASH" using assms(2) by metis
  have ne: "rev (take (Suc i) cs) \<noteq> []" using Suc.prems by auto
  have "length (cs ! Suc i) = bs" using assms(1) Suc.prems by simp
  then have "content_hash H bs extra (rev (take (Suc (Suc i)) cs))
      = Some (hash_block_tokens H False (Some (?hs ! i)) (cs ! Suc i) extra)"
    using ne nn by (simp add: rev ih Let_def del: rev_is_Nil_conv)
  also have "\<dots> = Some (?hs ! Suc i)"
    using hash_chain_nth [OF Suc.prems, of H extra NONE_HASH] nn by simp
  finally show ?case .
qed

section \<open>Collisions\<close>

text \<open>The strings that are hashed for a chain.\<close>

fun chain_keys :: "(string \<Rightarrow> int) \<Rightarrow> int \<Rightarrow> int list list \<Rightarrow> string list" where
  "chain_keys H prev [] = []"
| "chain_keys H prev (c # cs) =
     repr_block_key (prev = NONE_HASH) (Some prev) c None
       # chain_keys H (hash_block_tokens H (prev = NONE_HASH) (Some prev) c None) cs"

lemma hash_chain_keys: "hash_chain H None prev cs = map H (chain_keys H prev cs)"
  by (induction cs arbitrary: prev) (simp_all add: Let_def hash_block_tokens_def)

lemma length_chain_keys [simp]: "length (chain_keys H prev cs) = length cs"
  by (induction cs arbitrary: prev) simp_all

lemma chain_keys_nth:
  "i < length cs \<Longrightarrow> chain_keys H prev cs ! i =
     repr_block_key ((prev # hash_chain H None prev cs) ! i = NONE_HASH)
       (Some ((prev # hash_chain H None prev cs) ! i)) (cs ! i) None"
proof (induction cs arbitrary: prev i)
  case (Cons c cs)
  then show ?case
    by (cases i) (simp_all add: Let_def)
qed simp

lemma equal_hash_equal_prefix:
  assumes inj: "inj_on H (set (chain_keys H NONE_HASH cs) \<union> set (chain_keys H NONE_HASH ds))"
    and none: "NONE_HASH \<notin> set (hash_chain H None NONE_HASH cs)" "NONE_HASH \<notin> set (hash_chain H None NONE_HASH ds)"
    and "i < length cs" "j < length ds"
    and "hash_chain H None NONE_HASH cs ! i = hash_chain H None NONE_HASH ds ! j"
  shows "i = j \<and> take (Suc i) cs = take (Suc j) ds"
  using assms(4-6)
proof (induction i arbitrary: j)
  case 0
  let ?C = "hash_chain H None NONE_HASH cs" and ?D = "hash_chain H None NONE_HASH ds"
  have "chain_keys H NONE_HASH cs ! 0 = chain_keys H NONE_HASH ds ! j"
    using 0 by (intro inj_onD [OF inj]) (auto simp: hash_chain_keys)
  then have eq: "repr_block_key True (Some NONE_HASH) (cs ! 0) None =
      repr_block_key ((NONE_HASH # ?D) ! j = NONE_HASH) (Some ((NONE_HASH # ?D) ! j)) (ds ! j) None"
    using 0 by (simp add: chain_keys_nth)
  then have k: "(NONE_HASH # ?D) ! j = NONE_HASH" "cs ! 0 = ds ! j"
    by (auto dest: repr_block_key_inject)
  have "j = 0"
  proof (cases j)
    case (Suc l)
    with k(1) 0 have "NONE_HASH \<in> set ?D" by (metis Suc_lessD length_hash_chain nth_Cons_Suc nth_mem)
    with none(2) show ?thesis by simp
  qed simp
  with k(2) 0 show ?case by (simp add: take_Suc_conv_app_nth)
next
  case (Suc i)
  let ?C = "hash_chain H None NONE_HASH cs" and ?D = "hash_chain H None NONE_HASH ds"
  have ci: "?C ! i \<noteq> NONE_HASH" using none(1) Suc.prems by (metis Suc_lessD length_hash_chain nth_mem)
  have "chain_keys H NONE_HASH cs ! Suc i = chain_keys H NONE_HASH ds ! j"
    using Suc.prems by (intro inj_onD [OF inj]) (auto simp: hash_chain_keys)
  then have eq: "repr_block_key (?C ! i = NONE_HASH) (Some (?C ! i)) (cs ! Suc i) None =
      repr_block_key ((NONE_HASH # ?D) ! j = NONE_HASH) (Some ((NONE_HASH # ?D) ! j)) (ds ! j) None"
    using Suc.prems by (simp add: chain_keys_nth)
  then have k: "?C ! i = (NONE_HASH # ?D) ! j" "cs ! Suc i = ds ! j"
    by (auto dest: repr_block_key_inject)
  then obtain l where l: "j = Suc l" using ci by (cases j) auto
  with k(1) Suc.prems Suc.IH [of l] have "i = l" "take (Suc i) cs = take (Suc l) ds" by auto
  with l k(2) take_Suc_conv_app_nth [OF Suc.prems(1)] take_Suc_conv_app_nth [OF Suc.prems(2)]
  show ?case by metis
qed

lemma take_prefix_blocks:
  assumes "0 < bs" and "i < length xs div bs"
  shows "concat (take (Suc i) (full_blocks bs xs)) = take (Suc i * bs) xs"
  using assms(2)
proof (induction i)
  case 0
  then show ?case by (simp add: full_blocks_def block_slice_def take_Suc_conv_app_nth)
next
  case (Suc i)
  have "concat (take (Suc (Suc i)) (full_blocks bs xs))
      = concat (take (Suc i) (full_blocks bs xs)) @ block_slice bs xs (Suc i)"
    using Suc.prems by (simp add: take_Suc_conv_app_nth [of "Suc i"] full_blocks_def)
  also have "\<dots> = take (Suc i * bs) xs @ take bs (drop (Suc i * bs) xs)"
    using Suc by (simp add: block_slice_def)
  also have "\<dots> = take (Suc i * bs + bs) xs" by (simp only: take_add)
  finally show ?case by (simp add: add.commute)
qed

section \<open>Properties\<close>

text \<open>
  C1. The router predicts exactly the hashes the instances use: for every token list the
  hash it computes for block \<open>i\<close> is the content hash vLLM gives to the \<open>i\<close>-th full block of
  a sequence with these tokens, and the list is the one the tracker of computed blocks
  records, provided no block hash of the list is the reserved start value.
\<close>

theorem router_hashes_match_blocks:
  assumes "0 < bs" and "compute_request_block_hashes H toks (int bs) NONE_HASH = Inr hs"
    and "NONE_HASH \<notin> set hs"
  shows "length hs = length toks div bs
    \<and> (\<forall>i < length hs. content_hash H bs None (rev (take (Suc i) (full_blocks bs toks))) = Some (hs ! i))
    \<and> (\<exists>t. update_seq_hashes H \<lparr>sv_seq_id = q, sv_token_ids = toks, sv_extra_hash = None, sv_is_prefill = p\<rparr>
              (tracker_new bs True) = (Inr (), t) \<and> map_of (tr_blocks_hashes t) q = Some hs)"
proof -
  have hs: "hs = hash_chain H None NONE_HASH (full_blocks bs toks)"
    using assms(2) request_hashes_chain [OF assms(1)] by simp
  have "content_hash H bs None (rev (take (Suc i) (full_blocks bs toks))) = Some (hs ! i)" if "i < length hs" for i
    using that assms(1,3) full_blocks_length unfolding hs by (intro content_hash_chain) auto
  then show ?thesis
    using assms(1) by (simp add: hs update_seq_hashes_def tracker_new_def tracker_loop_chain full_blocks_def)
qed

text \<open>A digest for the examples: the position-weighted sum of the characters, never negative.\<close>

definition example_digest :: "string \<Rightarrow> int" where
  "example_digest s = foldl (\<lambda>h c. h * 257 + int (of_char c)) 0 s"

lemma example_hashes:
  "compute_request_block_hashes example_digest [1, 2, 3, 4, 5] (int 2) NONE_HASH =
     Inr (hash_chain example_digest None NONE_HASH [[1, 2], [3, 4]])"
proof -
  have "full_blocks 2 [1, 2, 3, 4, 5] = [[1, 2], [3, 4]]" by code_simp
  then show ?thesis using request_hashes_chain [of 2] by simp
qed

lemma example_digest_pos: "0 \<le> example_digest s"
proof -
  have "0 \<le> foldl (\<lambda>h c. h * 257 + int (of_char c)) a s" if "0 \<le> a" for a
    using that by (induction s arbitrary: a) auto
  then show ?thesis by (simp add: example_digest_def)
qed

lemma example_digest_no_none: "NONE_HASH \<notin> set (hash_chain example_digest e prev cs)"
proof (induction cs arbitrary: prev)
  case (Cons c cs)
  have "hash_block_tokens example_digest f q c e \<noteq> NONE_HASH" for f q
    using example_digest_pos [of "repr_block_key f (if f \<and> q = None then Some NONE_HASH else q) c e"]
    by (simp add: hash_block_tokens_def NONE_HASH_def)
  with Cons.IH show ?case by (simp add: Let_def) metis
qed simp

theorem router_hashes_match_blocks_witness:
  "length (hash_chain example_digest None NONE_HASH [[1, 2], [3, 4]]) = length [1, 2, 3, 4, 5 :: int] div 2
    \<and> content_hash example_digest 2 None [[3, 4], [1, 2]]
        = Some (hash_chain example_digest None NONE_HASH [[1, 2], [3, 4]] ! 1)"
proof -
  note T = router_hashes_match_blocks [OF _ example_hashes example_digest_no_none, of 0 True]
  have "rev (take (Suc 1) (full_blocks 2 [1, 2, 3, 4, 5])) = [[3, 4], [1, 2]]" by code_simp
  with T show ?thesis by (metis One_nat_def T length_hash_chain length_Cons lessI list.size(3) pos2)
qed

text \<open>
  C2. A cache hit is a shared prefix: if block \<open>i\<close> of one request and block \<open>j\<close> of another
  have the same hash, and the digest has no collision among the strings hashed for the two
  requests, then \<open>i = j\<close> and the requests agree on all tokens up to the end of that block.
\<close>

theorem hash_hit_is_shared_prefix:
  assumes "0 < bs"
    and "compute_request_block_hashes H xs (int bs) NONE_HASH = Inr hs" and "NONE_HASH \<notin> set hs"
    and "compute_request_block_hashes H ys (int bs) NONE_HASH = Inr ks" and "NONE_HASH \<notin> set ks"
    and "inj_on H (set (chain_keys H NONE_HASH (full_blocks bs xs)) \<union> set (chain_keys H NONE_HASH (full_blocks bs ys)))"
    and "i < length hs" and "j < length ks" and "hs ! i = ks ! j"
  shows "i = j \<and> take (Suc i * bs) xs = take (Suc i * bs) ys"
proof -
  have hs: "hs = hash_chain H None NONE_HASH (full_blocks bs xs)"
    and ks: "ks = hash_chain H None NONE_HASH (full_blocks bs ys)"
    using assms(2,4) request_hashes_chain [OF assms(1)] by auto
  have "i = j \<and> take (Suc i) (full_blocks bs xs) = take (Suc j) (full_blocks bs ys)"
    using assms(3,5-9) unfolding hs ks by (intro equal_hash_equal_prefix) auto
  moreover have "i < length xs div bs" "j < length ys div bs"
    using assms(7,8) by (simp_all add: hs ks)
  ultimately show ?thesis using take_prefix_blocks [OF assms(1)] by metis
qed

theorem hash_hit_is_shared_prefix_witness:
  "0 = (0 :: nat) \<and> take (Suc 0 * 2) [1, 2, 9 :: int] = take (Suc 0 * 2) [1, 2, 8]"
proof (rule hash_hit_is_shared_prefix)
  show "compute_request_block_hashes example_digest [1, 2, 9] (int 2) NONE_HASH
      = Inr (hash_chain example_digest None NONE_HASH [[1, 2]])"
    "compute_request_block_hashes example_digest [1, 2, 8] (int 2) NONE_HASH
      = Inr (hash_chain example_digest None NONE_HASH [[1, 2]])"
    using request_hashes_chain [of 2] by (simp_all add: full_blocks_def block_slice_def)
  show "inj_on example_digest (set (chain_keys example_digest NONE_HASH (full_blocks 2 [1, 2, 9]))
      \<union> set (chain_keys example_digest NONE_HASH (full_blocks 2 [1, 2, 8])))"
    by (simp add: full_blocks_def block_slice_def)
qed (simp_all add: example_digest_no_none del: hash_chain.simps)

text \<open>
  The tracker's incremental update computes the same hashes as starting over: if what
  is recorded for a sequence are the hashes of a prefix of its tokens, then afterwards the
  hashes of all its full blocks are recorded, and nothing else changes.
\<close>

theorem tracker_update_incremental:
  assumes "0 < bs" and "tr_block_size t = bs" and "tr_enable_caching t"
    and "map_of (tr_blocks_hashes t) (sv_seq_id sq)
           = Some (hash_chain H (sv_extra_hash sq) NONE_HASH (full_blocks bs old))"
    and "sv_token_ids sq = old @ new"
  shows "\<exists>t'. update_seq_hashes H sq t = (Inr (), t')
    \<and> map_of (tr_blocks_hashes t') = (map_of (tr_blocks_hashes t))(sv_seq_id sq \<mapsto>
         hash_chain H (sv_extra_hash sq) NONE_HASH (full_blocks bs (old @ new)))
    \<and> tr_num_tokens_computed t' = tr_num_tokens_computed t"
proof -
  let ?n = "length old div bs" and ?m = "length (old @ new) div bs"
  let ?rec = "hash_chain H (sv_extra_hash sq) NONE_HASH (full_blocks bs old)"
  have nm: "?n \<le> ?m" by (simp add: div_le_mono)
  have "block_slice bs old i = block_slice bs (old @ new) i" if "i < ?n" for i
    using block_slice_bound [OF assms(1) that] by (simp add: block_slice_def)
  then have old: "full_blocks bs old = map (block_slice bs (old @ new)) [0..<?n]"
    by (simp add: full_blocks_def)
  have "full_blocks bs (old @ new)
      = full_blocks bs old @ map (block_slice bs (old @ new)) [?n..<?m]"
    unfolding old unfolding full_blocks_def map_append [symmetric] using nm upt_add_eq_append [of 0 ?n "?m - ?n"] by simp
  then have all: "hash_chain H (sv_extra_hash sq) NONE_HASH (full_blocks bs (old @ new))
      = ?rec @ hash_chain H (sv_extra_hash sq) (last (NONE_HASH # ?rec))
          (map (block_slice bs (old @ new)) [?n..<?m])"
    by (simp add: hash_chain_append)
  have lst: "(if ?n = 0 then NONE_HASH else last ?rec) = last (NONE_HASH # ?rec)"
    by (metis last.simps length_0_conv length_full_blocks length_hash_chain)
  have "\<not> length (sv_token_ids sq) < ?n * bs"
    using div_times_less_eq_dividend [of "length old" bs] by (simp add: assms(5) not_less trans_le_add1)
  then have "update_seq_hashes H sq t = (Inr (), t\<lparr>tr_blocks_hashes := AList.update (sv_seq_id sq)
       (hash_chain H (sv_extra_hash sq) NONE_HASH (full_blocks bs (old @ new))) (tr_blocks_hashes t)\<rparr>)"
    using assms(1-5) all lst by (simp add: update_seq_hashes_def Let_def tracker_loop_chain)
  then show ?thesis by simp
qed

definition example_tracker :: tracker where
  "example_tracker = (tracker_new 2 True)\<lparr>tr_blocks_hashes :=
     [(7, hash_chain example_digest None NONE_HASH (full_blocks 2 [1, 2, 3]))]\<rparr>"

definition example_seq :: seq_view where
  "example_seq = \<lparr>sv_seq_id = 7, sv_token_ids = [1, 2, 3] @ [4, 5], sv_extra_hash = None, sv_is_prefill = False\<rparr>"

theorem tracker_update_incremental_witness:
  "\<exists>t'. update_seq_hashes example_digest example_seq example_tracker = (Inr (), t')
    \<and> map_of (tr_blocks_hashes t') = (map_of (tr_blocks_hashes example_tracker))(sv_seq_id example_seq \<mapsto>
         hash_chain example_digest (sv_extra_hash example_seq) NONE_HASH (full_blocks 2 ([1, 2, 3] @ [4, 5])))
    \<and> tr_num_tokens_computed t' = tr_num_tokens_computed example_tracker"
  by (rule tracker_update_incremental) (simp_all add: example_tracker_def example_seq_def tracker_new_def)

end
