(* ===== verification/RouteScheduler.thy ===== *)
theory RouteScheduler
  imports InstanceManager BlockHash
begin

text \<open>
  The per-agent scheduler of \<open>src/coreflow/scheduler.py\<close>: routing of a node to an
  instance, migration of a finished request to the range it has outgrown, and dispatch.
  HTTP exchanges are arguments: \<open>fetch info\<close> is the parsed \<open>/cache_state\<close> answer of an
  instance (\<open>None\<close> when the request failed) and \<open>post url payload\<close> the parsed answer of a
  POST. \<open>H\<close> is the digest of \<^theory_text>\<open>BlockHash\<close>. An \<open>await\<close> lets other tasks run, so the
  parts before and after one take the registry of their own moment.
\<close>

section \<open>State\<close>

record sched =
  sc_agent_id :: string
  sc_cache_states :: "(string, json) dict"

definition sched_new :: "string \<Rightarrow> sched" where
  "sched_new agent = \<lparr>sc_agent_id = agent, sc_cache_states = []\<rparr>"

section \<open>Scoring\<close>

fun normalize_token_ids :: "json \<Rightarrow> int list res" where
  "normalize_token_ids (JList xs) = map_res int_of_json xs"
| "normalize_token_ids (JInt i) = Inr [i]"
| "normalize_token_ids (JBool b) = Inr [if b then 1 else 0]"
| "normalize_token_ids _ = Inr []"

definition json_ints :: "json \<Rightarrow> int list res" where
  "json_ints j = bind_res (list_of_json j) (map_res int_of_json)"

definition count_hash_hits :: "int list \<Rightarrow> json \<Rightarrow> nat res" where
  "count_hash_hits request_hashes state =
     bind_res (json_get state ''hash_blocks'') (\<lambda>hb0.
     let hb = json_or hb0 (JObj []) in
     bind_res (bind_res (json_get_or hb ''gpu'' (JList [])) json_ints) (\<lambda>gpu.
     bind_res (bind_res (json_get_or hb ''cpu'' (JList [])) json_ints) (\<lambda>cpu.
     Inr (length (takeWhile (\<lambda>h. h \<in> set gpu \<union> set cpu) request_hashes)))))"

definition instance_score :: "json \<Rightarrow> int res" where
  "instance_score state =
     bind_res (json_get state ''active_requests'') (\<lambda>a.
     bind_res (int_of_json (json_or a (JInt 0))) (\<lambda>active.
     bind_res (json_get state ''gpu_entries'') (\<lambda>g.
     bind_res (json_len (json_or g (JList []))) (\<lambda>n. Inr (active + int n)))))"

section \<open>Routing\<close>

fun has_entry :: "int \<Rightarrow> int \<Rightarrow> json list \<Rightarrow> bool res" where
  "has_entry qid iid [] = Inr False"
| "has_entry qid iid (e # es) =
     bind_res (json_get e ''query_id'') (\<lambda>q.
     bind_res (int_of_json q) (\<lambda>qn.
     if qn \<noteq> qid then has_entry qid iid es
     else
       bind_res (json_get e ''invocation_id'') (\<lambda>i.
       bind_res (int_of_json i) (\<lambda>n. if n = iid then Inr True else has_entry qid iid es))))"

definition exact_match :: "int \<Rightarrow> int \<Rightarrow> json \<Rightarrow> bool res" where
  "exact_match qid iid state =
     bind_res (json_get state ''gpu_entries'') (\<lambda>g.
     bind_res (list_of_json (json_or g (JList []))) (has_entry qid iid))"

type_synonym cache_info = "instance_info \<times> json"

fun filter_res :: "('a \<Rightarrow> bool res) \<Rightarrow> 'a list \<Rightarrow> 'a list res" where
  "filter_res f [] = Inr []"
| "filter_res f (x # xs) =
     bind_res (f x) (\<lambda>b. bind_res (filter_res f xs) (\<lambda>ys. Inr (if b then x # ys else ys)))"

definition state_hits :: "(string \<Rightarrow> int) \<Rightarrow> int list \<Rightarrow> json \<Rightarrow> nat option res" where
  "state_hits H token_ids state =
     bind_res (json_get state ''block_size'') (\<lambda>b.
     bind_res (int_of_json (json_or b (JInt 16))) (\<lambda>block_size.
     bind_res (json_get state ''none_hash'') (\<lambda>nh.
     if nh = JNull then Inr None
     else
       bind_res (int_of_json nh) (\<lambda>none_hash.
       bind_res (compute_request_block_hashes H token_ids block_size none_hash) (\<lambda>hs.
       map_sum id Some (count_hash_hits hs state))))))"

fun score_all :: "(string \<Rightarrow> int) \<Rightarrow> int list \<Rightarrow> cache_info list \<Rightarrow> (nat \<times> cache_info) list res" where
  "score_all H toks [] = Inr []"
| "score_all H toks (ci # xs) =
     bind_res (state_hits H toks (snd ci)) (\<lambda>h.
     bind_res (score_all H toks xs) (\<lambda>rest.
       Inr (case h of None \<Rightarrow> rest | Some n \<Rightarrow> (n, ci) # rest)))"

definition store_states :: "(instance_info \<times> json option) list \<Rightarrow> sched \<Rightarrow> sched" where
  "store_states results s =
     s\<lparr>sc_cache_states := foldl (\<lambda>d (info, st). case st of None \<Rightarrow> d
          | Some j \<Rightarrow> AList.update (ii_instance_id info) j d) (sc_cache_states s) results\<rparr>"

definition fetched :: "(instance_info \<times> json option) list \<Rightarrow> cache_info list" where
  "fetched results = concat (map (\<lambda>(info, st). case st of None \<Rightarrow> [] | Some j \<Rightarrow> [(info, j)]) results)"

definition best_of :: "cache_info list \<Rightarrow> string option res" where
  "best_of xs = bind_res (min_by_res (\<lambda>ci. instance_score (snd ci)) xs)
     (\<lambda>best. Inr (Some (ii_instance_id (fst best))))"

text \<open>Step 3 of the source, reached when several instances have the largest hit count.\<close>

definition break_tie ::
  "string \<Rightarrow> int \<Rightarrow> im \<Rightarrow> cache_info list \<Rightarrow> cache_info list \<Rightarrow> string option res" where
  "break_tie agent n_in m cache_infos tied =
     bind_res (find_context_slot agent n_in m) (\<lambda>slot.
       case slot of
         None \<Rightarrow> best_of tied
       | Some sl \<Rightarrow>
           bind_res (get_instances_for_context agent sl m) (\<lambda>ctx.
             let candidates = filter (\<lambda>ci. ii_instance_id (fst ci) \<in> set (map ii_instance_id ctx)) cache_infos
             in if candidates \<noteq> [] then best_of candidates else best_of tied))"

definition route_by_hits ::
  "(string \<Rightarrow> int) \<Rightarrow> string \<Rightarrow> json \<Rightarrow> int \<Rightarrow> im \<Rightarrow> cache_info list \<Rightarrow> string option res" where
  "route_by_hits H agent input_tokens n_in m cache_infos =
     bind_res (normalize_token_ids input_tokens) (\<lambda>toks.
     bind_res (score_all H toks cache_infos) (\<lambda>scored.
       if scored = [] then Inr None
       else
         (let max_hits = foldr max (map fst scored) 0;
              tied = map snd (filter (\<lambda>sc. fst sc = max_hits) scored)
          in case tied of
               [ci] \<Rightarrow> Inr (Some (ii_instance_id (fst ci)))
             | _ \<Rightarrow> break_tie agent n_in m cache_infos tied)))"

text \<open>Everything after the cache states have arrived.\<close>

definition route_decide ::
  "(string \<Rightarrow> int) \<Rightarrow> string \<Rightarrow> int \<Rightarrow> int \<Rightarrow> json \<Rightarrow> int \<Rightarrow> im \<Rightarrow> cache_info list \<Rightarrow> string option res" where
  "route_decide H agent qid iid input_tokens n_in m cache_infos =
     (if cache_infos = [] then Inr None
      else
        bind_res (filter_res (\<lambda>ci. exact_match qid iid (snd ci)) cache_infos) (\<lambda>exact.
          if exact \<noteq> [] then best_of exact
          else route_by_hits H agent input_tokens n_in m cache_infos))"

definition route ::
  "(string \<Rightarrow> int) \<Rightarrow> (string list \<Rightarrow> string list) \<Rightarrow> (instance_info \<Rightarrow> json option) \<Rightarrow> im \<Rightarrow> im
    \<Rightarrow> int \<Rightarrow> int \<Rightarrow> json \<Rightarrow> int \<Rightarrow> (sched, string option) act" where
  "route H ord fetch m0 m1 qid iid input_tokens n_in s =
     (case get_instances_for_agent ord (sc_agent_id s) m0 of
        Inl e \<Rightarrow> (Inl e, s)
      | Inr infos \<Rightarrow>
          if infos = [] then (Inr None, s)
          else
            (let results = map (\<lambda>i. (i, fetch i)) infos;
                 s' = store_states results s
             in (route_decide H (sc_agent_id s) qid iid input_tokens n_in m1 (fetched results), s')))"

section \<open>Migration\<close>

definition total_length :: "int option \<Rightarrow> int option \<Rightarrow> int list \<Rightarrow> int list \<Rightarrow> int" where
  "total_length n_in n_out input_ids output_ids =
     (case (n_in, n_out) of
        (Some a, Some b) \<Rightarrow> a + b
      | _ \<Rightarrow> int (length input_ids) + int (length output_ids))"

text \<open>
  The instances a finished request may move to; the empty list stands for every early
  return before the cache states are needed.
\<close>

definition migrate_candidates :: "string \<Rightarrow> im \<Rightarrow> string option \<Rightarrow> int \<Rightarrow> instance_info list res" where
  "migrate_candidates agent m source len =
     (case source of
        None \<Rightarrow> Inr []
      | Some src \<Rightarrow>
          if src = [] then Inr []
          else (case im_get m src of
                  None \<Rightarrow> Inr []
                | Some info \<Rightarrow>
                    (case ii_context_range info of
                       None \<Rightarrow> Inr []
                     | Some (_, upper) \<Rightarrow>
                         if len < upper then Inr []
                         else
                           bind_res (find_context_slot agent len m) (\<lambda>slot.
                             case slot of
                               None \<Rightarrow> Inr []
                             | Some sl \<Rightarrow>
                                 bind_res (get_instances_for_context agent sl m) (\<lambda>infos.
                                   Inr (filter (\<lambda>i. ii_instance_id i \<noteq> src) infos))))))"

definition fetch_missing :: "(instance_info \<Rightarrow> json option) \<Rightarrow> instance_info list \<Rightarrow> sched \<Rightarrow> sched" where
  "fetch_missing fetch candidates s =
     store_states (map (\<lambda>i. (i, fetch i))
       (filter (\<lambda>i. map_of (sc_cache_states s) (ii_instance_id i) = None) candidates)) s"

text \<open>\<open>None\<close> when no candidate has a known cache state.\<close>

definition migrate_target :: "sched \<Rightarrow> instance_info list \<Rightarrow> instance_info option res" where
  "migrate_target s candidates =
     (let available = filter (\<lambda>i. map_of (sc_cache_states s) (ii_instance_id i) \<noteq> None) candidates
      in if available = [] then Inr None
         else map_sum id Some
           (min_by_res (\<lambda>i. bind_res (dict_item (sc_cache_states s) (ii_instance_id i)) instance_score) available))"

definition migrate_payload :: "int \<Rightarrow> int \<Rightarrow> int list \<Rightarrow> int list \<Rightarrow> bool \<Rightarrow> json" where
  "migrate_payload qid iid input_ids output_ids keep =
     JObj [(''query_id'', JInt qid), (''invocation_id'', JInt iid),
       (''request_id'', JStr (''q'' @ show_int qid @ ''_i'' @ show_int iid @ ''_r0_migrated'')),
       (''input_tokens'', JList (map JInt input_ids)), (''output_tokens'', JList (map JInt output_ids)),
       (''keep_cache_in_gpu'', JBool keep)]"

record migration =
  mg_source_instance_id :: string
  mg_target_instance_id :: string
  mg_device :: json

definition maybe_migrate_request ::
  "(instance_info \<Rightarrow> json option) \<Rightarrow> (string \<Rightarrow> json \<Rightarrow> json option) \<Rightarrow> im
    \<Rightarrow> string option \<Rightarrow> int \<Rightarrow> int \<Rightarrow> int list \<Rightarrow> int list \<Rightarrow> bool \<Rightarrow> int option \<Rightarrow> int option
    \<Rightarrow> (sched, migration option) act" where
  "maybe_migrate_request fetch post m source qid iid input_ids output_ids keep n_in n_out s =
     (case migrate_candidates (sc_agent_id s) m source (total_length n_in n_out input_ids output_ids) of
        Inl e \<Rightarrow> (Inl e, s)
      | Inr candidates \<Rightarrow>
          if candidates = [] then (Inr None, s)
          else
            (let s1 = fetch_missing fetch candidates s
             in case migrate_target s1 candidates of
                  Inl e \<Rightarrow> (Inl e, s1)
                | Inr None \<Rightarrow> (Inr None, s1)
                | Inr (Some target) \<Rightarrow>
                    (case post (endpoint target @ ''/migrate_cache'')
                            (migrate_payload qid iid input_ids output_ids keep) of
                       None \<Rightarrow> (Inr None, s1)
                     | Some result \<Rightarrow>
                         (case json_get result ''success'' of
                            Inl e \<Rightarrow> (Inl e, s1)
                          | Inr ok \<Rightarrow>
                              if \<not> truthy ok then (Inr None, s1)
                              else
                                (let s2 = s1\<lparr>sc_cache_states :=
                                       AList.delete (ii_instance_id target) (sc_cache_states s1)\<rparr>
                                 in (map_sum id (\<lambda>dev. Some \<lparr>mg_source_instance_id = the source,
                                        mg_target_instance_id = ii_instance_id target, mg_device = dev\<rparr>)
                                      (json_get result ''device''), s2))))))"

section \<open>Dispatch\<close>

definition dispatch ::
  "(string \<Rightarrow> json \<Rightarrow> json option) \<Rightarrow> im \<Rightarrow> string \<Rightarrow> json \<Rightarrow> json option" where
  "dispatch post m instance_id node_dict =
     (case im_get m instance_id of
        None \<Rightarrow> None
      | Some info \<Rightarrow>
          if \<not> is_ready info then None else post (endpoint info @ ''/generate'') node_dict)"

section \<open>Lemmas\<close>

lemma filter_res_ok:
  "filter_res f xs = Inr ys \<Longrightarrow> (\<forall>x \<in> set xs. \<exists>b. f x = Inr b) \<and> ys = filter (\<lambda>x. f x = Inr True) xs"
  by (induction xs arbitrary: ys) (auto simp: bind_res_Inr_iff)

lemma fetched_mem: "(i, st) \<in> set (fetched results) \<longleftrightarrow> (i, Some st) \<in> set results"
  by (force simp: fetched_def split: option.splits)

lemma score_all_mem:
  "score_all H toks xs = Inr sc \<Longrightarrow>
     (n, ci) \<in> set sc \<longleftrightarrow> ci \<in> set xs \<and> state_hits H toks (snd ci) = Inr (Some n)"
proof (induction xs arbitrary: sc)
  case (Cons x xs)
  then obtain h rest where h: "state_hits H toks (snd x) = Inr h" "score_all H toks xs = Inr rest"
    and sc: "sc = (case h of None \<Rightarrow> rest | Some n \<Rightarrow> (n, x) # rest)"
    by (auto simp: bind_res_Inr_iff)
  from Cons.IH [OF h(2)] show ?case using h(1) by (cases h) (auto simp: sc)
qed simp

lemma best_of_ok:
  assumes "best_of xs = Inr r"
  shows "\<exists>ci \<in> set xs. r = Some (ii_instance_id (fst ci)) \<and>
     (\<exists>k. instance_score (snd ci) = Inr k \<and> (\<forall>cj \<in> set xs. \<exists>l. instance_score (snd cj) = Inr l \<and> k \<le> l))"
proof -
  from assms obtain ci where "min_by_res (\<lambda>ci. instance_score (snd ci)) xs = Inr ci"
    and "r = Some (ii_instance_id (fst ci))" by (auto simp: best_of_def bind_res_Inr_iff)
  with min_by_res_ok [of "\<lambda>ci. instance_score (snd ci)" xs ci] show ?thesis by blast
qed

lemma break_tie_cases:
  assumes "break_tie agent n m xs tied = Inr r"
  obtains (tied) "best_of tied = Inr r"
  | (ctx) sl ctx where "find_context_slot agent n m = Inr (Some sl)"
      "get_instances_for_context agent sl m = Inr ctx"
      "best_of (filter (\<lambda>ci. ii_instance_id (fst ci) \<in> set (map ii_instance_id ctx)) xs) = Inr r"
proof -
  from assms obtain slot where slot: "find_context_slot agent n m = Inr slot"
    by (auto simp: break_tie_def bind_res_Inr_iff)
  show thesis
  proof (cases slot)
    case None
    with assms slot tied show ?thesis by (simp add: break_tie_def)
  next
    case (Some sl)
    with assms slot obtain infos where "get_instances_for_context agent sl m = Inr infos"
      by (auto simp: break_tie_def bind_res_Inr_iff)
    with assms slot Some tied ctx show ?thesis
      by (auto simp: break_tie_def Let_def split: if_splits)
  qed
qed

lemma break_tie_mem:
  assumes "break_tie agent n m xs tied = Inr r" and "set tied \<subseteq> set xs"
  shows "\<exists>ci \<in> set xs. r = Some (ii_instance_id (fst ci))"
  using assms(1)
proof (cases rule: break_tie_cases)
  case tied
  from best_of_ok [OF this] assms(2) show ?thesis by blast
next
  case (ctx sl infos)
  from best_of_ok [OF ctx(3)] obtain ci where
    "ci \<in> set (filter (\<lambda>ci. ii_instance_id (fst ci) \<in> set (map ii_instance_id infos)) xs)"
    "r = Some (ii_instance_id (fst ci))" by blast
  then show ?thesis by (intro bexI [of _ ci]) simp_all
qed

lemma foldr_max_nat_ge: "x \<in> set xs \<Longrightarrow> (x::nat) \<le> foldr max xs b"
  by (induction xs) auto

text \<open>A successful decision names one of the instances whose cache state is known.\<close>

lemma route_by_hits_mem:
  assumes "route_by_hits H agent toks n m xs = Inr (Some i)"
  shows "\<exists>ci \<in> set xs. i = ii_instance_id (fst ci)"
proof -
  from assms obtain ts sc where ts: "normalize_token_ids toks = Inr ts" and sc: "score_all H ts xs = Inr sc"
    and ne: "sc \<noteq> []"
    and d: "(case map snd (filter (\<lambda>s. fst s = foldr max (map fst sc) 0) sc) of
        [ci] \<Rightarrow> Inr (Some (ii_instance_id (fst ci)))
      | _ \<Rightarrow> break_tie agent n m xs (map snd (filter (\<lambda>s. fst s = foldr max (map fst sc) 0) sc))) = Inr (Some i)"
    by (auto simp: route_by_hits_def bind_res_Inr_iff Let_def split: if_splits)
  let ?tied = "map snd (filter (\<lambda>s. fst s = foldr max (map fst sc) 0) sc)"
  have sub: "set ?tied \<subseteq> set xs" using score_all_mem [OF sc] by auto
  consider ci where "?tied = [ci]" | "break_tie agent n m xs ?tied = Inr (Some i)"
    using d by (auto split: list.splits)
  then show ?thesis
  proof cases
    case (1 ci)
    with d sub show ?thesis by auto
  next
    case 2
    from break_tie_mem [OF this sub] show ?thesis by auto
  qed
qed

lemma route_decide_mem:
  assumes "route_decide H agent qid iid toks n m xs = Inr (Some i)"
  shows "\<exists>ci \<in> set xs. i = ii_instance_id (fst ci)"
proof -
  from assms obtain ex where ex: "filter_res (\<lambda>ci. exact_match qid iid (snd ci)) xs = Inr ex"
    and d: "(if ex \<noteq> [] then best_of ex else route_by_hits H agent toks n m xs) = Inr (Some i)"
    by (auto simp: route_decide_def bind_res_Inr_iff split: if_splits)
  have sub: "set ex \<subseteq> set xs" using filter_res_ok [OF ex] by auto
  show ?thesis
  proof (cases "ex = []")
    case True
    with d route_by_hits_mem show ?thesis by simp
  next
    case False
    with d have "best_of ex = Inr (Some i)" by simp
    from best_of_ok [OF this] sub show ?thesis by blast
  qed
qed

text \<open>What \<open>route\<close> does once it has a nonempty list of ready instances.\<close>

lemma route_unfold:
  assumes "route H ord fetch m0 m1 qid iid toks n s = (Inr r, s')" and "r \<noteq> None"
  obtains infos where "get_instances_for_agent ord (sc_agent_id s) m0 = Inr infos"
    and "route_decide H (sc_agent_id s) qid iid toks n m1 (fetched (map (\<lambda>i. (i, fetch i)) infos)) = Inr r"
    and "s' = store_states (map (\<lambda>i. (i, fetch i)) infos) s"
  using assms by (auto simp: route_def Let_def split: sum.splits if_splits)

lemma fetched_map_mem: "(i, st) \<in> set (fetched (map (\<lambda>i. (i, fetch i)) infos)) \<longleftrightarrow> i \<in> set infos \<and> fetch i = Some st"
  by (auto simp: fetched_mem)

lemma in_range_slot:
  assumes "im_inv m" and "find_context_slot a n m = Inr (Some sl)" and "serves m a sl i"
  shows "\<exists>cr. ii_context_range i = Some cr \<and> in_range n cr"
proof -
  have sl: "slots_inv m" using assms(1) by (simp add: im_inv_def)
  have "scan_slots n (agent_slots a m) = Some sl"
    using assms(2) unfolding find_context_slot_eq [OF assms(1)] by simp
  from scan_slots_Some [OF this] obtain us r vs where
    "agent_slots a m = us @ (sl, r) # vs" and hit: "in_range n r" by blast
  then have r: "(sl, r) \<in> set (agent_slots a m)" "in_range n r" by simp_all
  from assms(3) obtain cr where cr: "ii_context_range i = Some cr" "map_of (im_range_slots m) (a, cr) = Some sl"
    by (auto simp: serves_def)
  have "map_of (im_range_slots m) (a, r) = Some sl" using r(1) agent_slots_mem [OF sl] by blast
  with cr(2) sl have "cr = r" unfolding slots_inv_def by (metis option.inject)
  with cr(1) r(2) show ?thesis by blast
qed

section \<open>Examples\<close>

definition example_state :: "json list \<Rightarrow> json list \<Rightarrow> json" where
  "example_state entries hashes = JObj [(''active_requests'', JInt 1), (''gpu_entries'', JList entries),
     (''block_size'', JInt 2), (''none_hash'', JInt NONE_HASH),
     (''hash_blocks'', JObj [(''gpu'', JList hashes), (''cpu'', JList [])])]"

definition example_entry :: "int \<Rightarrow> int \<Rightarrow> json" where
  "example_entry q i = JObj [(''query_id'', JInt q), (''invocation_id'', JInt i)]"

text \<open>Three ready instances; a short request belongs to the range of the first one only.\<close>

definition example_im3 :: im where
  "example_im3 = set_ready ''c'' (snd (register ''c'' ''coder'' ''h'' (Some 9002) (Some (1000, 4000)) (JInt 1) example_im))"

lemma example_im3_reach: "im_reach example_im3"
  unfolding example_im3_def by (intro reach_ready reach_register example_im_reach) code_simp

text \<open>The third instance holds the exact entry, or the second and third hold the prefix.\<close>

definition example_fetch_exact :: "instance_info \<Rightarrow> json option" where
  "example_fetch_exact i =
     Some (example_state (if ii_instance_id i = ''c'' then [example_entry 7 1] else []) [])"

definition example_fetch_tie :: "instance_info \<Rightarrow> json option" where
  "example_fetch_tie i = Some (example_state [] (if ii_instance_id i = ''a'' then [] else [JInt 5]))"

definition example_fetch_hit :: "instance_info \<Rightarrow> json option" where
  "example_fetch_hit i = Some (example_state [] (if ii_instance_id i = ''b'' then [JInt 5] else []))"

section \<open>Properties\<close>

text \<open>
  Routing only ever names a ready instance of the scheduler's own agent, one that was
  registered when the routing began and whose cache state could be fetched.
\<close>

theorem route_names_ready_instance:
  assumes "im_reach m0" and "set_order ord"
    and "route H ord fetch m0 m1 qid iid toks n s = (Inr (Some i), s')"
  shows "\<exists>info. im_get m0 i = Some info \<and> ii_agent_id info = sc_agent_id s \<and> is_ready info \<and> fetch info \<noteq> None"
proof -
  from assms(3) obtain infos where infos: "get_instances_for_agent ord (sc_agent_id s) m0 = Inr infos"
    and d: "route_decide H (sc_agent_id s) qid iid toks n m1 (fetched (map (\<lambda>i. (i, fetch i)) infos)) = Inr (Some i)"
    by (rule route_unfold) auto
  from route_decide_mem [OF d] obtain info st where "info \<in> set infos" "fetch info = Some st" "i = ii_instance_id info"
    by (auto simp: fetched_map_mem)
  with reg.agent_member [OF im_reach_inv [OF assms(1)] assms(2) infos] show ?thesis by auto
qed

theorem route_names_ready_instance_witness:
  "\<exists>info. im_get example_im3 ''c'' = Some info \<and> ii_agent_id info = sc_agent_id (sched_new ''coder'')
     \<and> is_ready info \<and> example_fetch_exact info \<noteq> None"
proof (rule route_names_ready_instance [OF example_im3_reach set_order_rev])
  show "route (\<lambda>_. 5) rev example_fetch_exact example_im3 example_im3 7 1 (JList [JInt 1, JInt 2]) 2 (sched_new ''coder'')
    = (Inr (Some ''c''), snd (route (\<lambda>_. 5) rev example_fetch_exact example_im3 example_im3 7 1
         (JList [JInt 1, JInt 2]) 2 (sched_new ''coder'')))"
    by code_simp
qed

text \<open>
  C36. An instance that still holds the exact entry of the request on its GPU wins over any
  prefix hit: if some ready instance of the agent has one, the instance routed to has one
  too, and among those its load score is the smallest.
\<close>

theorem route_prefers_exact_entry:
  assumes "im_reach m0" and "set_order ord"
    and "route H ord fetch m0 m1 qid iid toks n s = (Inr r, s')"
    and "im_get m0 (ii_instance_id j) = Some j" and "ii_agent_id j = sc_agent_id s" and "is_ready j"
    and "fetch j = Some sj" and "exact_match qid iid sj = Inr True"
  shows "\<exists>i si k. r = Some (ii_instance_id i) \<and> fetch i = Some si \<and> exact_match qid iid si = Inr True
    \<and> im_get m0 (ii_instance_id i) = Some i \<and> instance_score si = Inr k
    \<and> (\<exists>l. instance_score sj = Inr l \<and> k \<le> l)"
proof -
  obtain infos where infos: "get_instances_for_agent ord (sc_agent_id s) m0 = Inr infos"
    and mem: "set infos = {i. im_get m0 (ii_instance_id i) = Some i \<and> ii_agent_id i = sc_agent_id s \<and> is_ready i}"
    using reg.for_agent_law [OF im_reach_inv [OF assms(1)] assms(2)] by blast
  let ?xs = "fetched (map (\<lambda>i. (i, fetch i)) infos)"
  have j: "j \<in> set infos" using assms(4-6) mem by simp
  then have jx: "(j, sj) \<in> set ?xs" using assms(7) by (simp add: fetched_map_mem)
  then have ne: "?xs \<noteq> []" by auto
  from j have "infos \<noteq> []" by auto
  with assms(3) infos have d: "route_decide H (sc_agent_id s) qid iid toks n m1 ?xs = Inr r"
    by (simp add: route_def Let_def)
  then obtain ex where ex: "filter_res (\<lambda>ci. exact_match qid iid (snd ci)) ?xs = Inr ex"
    and b: "(if ex \<noteq> [] then best_of ex else route_by_hits H (sc_agent_id s) toks n m1 ?xs) = Inr r"
    using ne by (auto simp: route_decide_def bind_res_Inr_iff)
  have exf: "ex = filter (\<lambda>ci. exact_match qid iid (snd ci) = Inr True) ?xs" using filter_res_ok [OF ex] by blast
  with jx assms(8) have jex: "(j, sj) \<in> set ex" by simp
  then have "ex \<noteq> []" by auto
  with b have "best_of ex = Inr r" by simp
  from best_of_ok [OF this] obtain i si k where
    i: "(i, si) \<in> set ex" "r = Some (ii_instance_id i)" "instance_score si = Inr k"
    and le: "\<forall>cj \<in> set ex. \<exists>l. instance_score (snd cj) = Inr l \<and> k \<le> l" by auto
  from i(1) exf have "(i, si) \<in> set ?xs" "exact_match qid iid si = Inr True" by auto
  with i(2,3) mem le jex show ?thesis by (fastforce simp: fetched_map_mem)
qed

theorem route_prefers_exact_entry_witness:
  "\<exists>i si k. Some ''c'' = Some (ii_instance_id i) \<and> example_fetch_exact i = Some si
    \<and> exact_match 7 1 si = Inr True
    \<and> im_get example_im3 (ii_instance_id i) = Some i \<and> instance_score si = Inr k
    \<and> (\<exists>l. instance_score (example_state [example_entry 7 1] []) = Inr l \<and> k \<le> l)"
proof (rule route_prefers_exact_entry [OF example_im3_reach set_order_rev])
  show "route (\<lambda>_. 5) rev example_fetch_exact example_im3 example_im3 7 1 (JList [JInt 1, JInt 2]) 2 (sched_new ''coder'')
    = (Inr (Some ''c''), snd (route (\<lambda>_. 5) rev example_fetch_exact example_im3 example_im3 7 1
         (JList [JInt 1, JInt 2]) 2 (sched_new ''coder'')))" by code_simp
  show "im_get example_im3 (ii_instance_id (the (im_get example_im3 ''c''))) = Some (the (im_get example_im3 ''c''))"
    "ii_agent_id (the (im_get example_im3 ''c'')) = sc_agent_id (sched_new ''coder'')"
    "is_ready (the (im_get example_im3 ''c''))"
    "example_fetch_exact (the (im_get example_im3 ''c'')) = Some (example_state [example_entry 7 1] [])"
    "exact_match 7 1 (example_state [example_entry 7 1] []) = Inr True"
    by code_simp+
qed

text \<open>
  Without an exact entry, an instance with strictly more prefix hits than every other
  one is chosen, whatever its context range and load.
\<close>

theorem route_unique_best_hits:
  assumes "distinct xs" and "filter_res (\<lambda>ci. exact_match qid iid (snd ci)) xs = Inr []"
    and "normalize_token_ids toks = Inr ts" and "score_all H ts xs = Inr sc"
    and "ci \<in> set xs" and "state_hits H ts (snd ci) = Inr (Some h)"
    and "\<And>cj k. cj \<in> set xs \<Longrightarrow> cj \<noteq> ci \<Longrightarrow> state_hits H ts (snd cj) = Inr (Some k) \<Longrightarrow> k < h"
  shows "route_decide H agent qid iid toks n m xs = Inr (Some (ii_instance_id (fst ci)))"
proof -
  have mem: "(k, cj) \<in> set sc \<longleftrightarrow> cj \<in> set xs \<and> state_hits H ts (snd cj) = Inr (Some k)" for k cj
    using score_all_mem [OF assms(4)] .
  have in_sc: "(h, ci) \<in> set sc" using assms(5,6) mem by blast
  have le: "k \<le> h" if "(k, cj) \<in> set sc" for k cj
    using that assms(6) assms(7) [of cj k] unfolding mem by (cases "cj = ci") auto
  have "foldr max (map fst sc) 0 \<le> h"
    using le by (induction sc) fastforce+
  moreover have "h \<le> foldr max (map fst sc) 0" using in_sc by (intro foldr_max_nat_ge) force
  ultimately have mx: "foldr max (map fst sc) 0 = h" by simp
  have dist: "distinct sc"
    using assms(1,4)
  proof (induction xs arbitrary: sc)
    case (Cons x xs)
    then obtain v rest where v: "state_hits H ts (snd x) = Inr v" "score_all H ts xs = Inr rest"
      and sc: "sc = (case v of None \<Rightarrow> rest | Some n \<Rightarrow> (n, x) # rest)" by (auto simp: bind_res_Inr_iff)
    with Cons score_all_mem [OF v(2)] show ?case by (cases v) auto
  qed simp
  have "filter (\<lambda>s. fst s = h) sc = [(h, ci)]"
  proof (rule filter_singleton [OF dist in_sc])
    show "y = (h, ci)" if "y \<in> set sc" "fst y = h" for y
    proof -
      from that have y: "y = (h, snd y)" by (simp add: prod_eq_iff)
      with that(1) mem have "snd y \<in> set xs" "state_hits H ts (snd (snd y)) = Inr (Some h)" by metis+
      with assms(7) [of "snd y" h] have "snd y = ci" by blast
      with y show ?thesis by simp
    qed
  qed simp
  then have "map snd (filter (\<lambda>s. fst s = foldr max (map fst sc) 0) sc) = [ci]" by (simp add: mx)
  moreover have "xs \<noteq> []" "sc \<noteq> []" using assms(5) in_sc by auto
  ultimately show ?thesis
    by (simp add: route_decide_def assms(2-4) route_by_hits_def Let_def)
qed

definition example_infos :: "(instance_info \<Rightarrow> json option) \<Rightarrow> cache_info list" where
  "example_infos fetch = fetched (map (\<lambda>i. (the (im_get example_im3 i), fetch (the (im_get example_im3 i))))
     [''a'', ''b'', ''c''])"

theorem route_unique_best_hits_witness:
  "route_decide (\<lambda>_. 5) ''coder'' 7 1 (JList [JInt 1, JInt 2]) 2 example_im3 (example_infos example_fetch_hit)
     = Inr (Some (ii_instance_id (fst (example_infos example_fetch_hit ! 1))))"
proof (rule route_unique_best_hits)
  have len: "length (example_infos example_fetch_hit) = 3" by code_simp
  show "distinct (example_infos example_fetch_hit)" by code_simp
  show "filter_res (\<lambda>ci. exact_match 7 1 (snd ci)) (example_infos example_fetch_hit) = Inr []" by code_simp
  show "normalize_token_ids (JList [JInt 1, JInt 2]) = Inr [1, 2]" by code_simp
  show "score_all (\<lambda>_. 5) [1, 2] (example_infos example_fetch_hit)
      = Inr [(0, example_infos example_fetch_hit ! 0), (1, example_infos example_fetch_hit ! 1),
             (0, example_infos example_fetch_hit ! 2)]" by code_simp
  show "example_infos example_fetch_hit ! 1 \<in> set (example_infos example_fetch_hit)" by (simp add: len)
  show "state_hits (\<lambda>_. 5) [1, 2] (snd (example_infos example_fetch_hit ! 1)) = Inr (Some 1)" by code_simp
  have 0: "state_hits (\<lambda>_. 5) [1, 2] (snd (example_infos example_fetch_hit ! 0)) = Inr (Some 0)" by code_simp
  have 2: "state_hits (\<lambda>_. 5) [1, 2] (snd (example_infos example_fetch_hit ! 2)) = Inr (Some 0)" by code_simp
  show "k < 1" if "cj \<in> set (example_infos example_fetch_hit)" "cj \<noteq> example_infos example_fetch_hit ! 1"
    "state_hits (\<lambda>_. 5) [1, 2] (snd cj) = Inr (Some k)" for cj k
  proof -
    from that(1) obtain j where "j < 3" "cj = example_infos example_fetch_hit ! j" by (metis in_set_conv_nth len)
    moreover from this that(2) have "j = 0 \<or> j = 2" by (metis One_nat_def less_2_cases_iff less_antisym numeral_2_eq_2 numeral_3_eq_3)
    ultimately show ?thesis using that(3) 0 2 by auto
  qed
qed

text \<open>
  When two instances tie for the most prefix hits, the tie-break considers every
  instance of the matching context range, not only the tied ones: here both \<open>b\<close> and \<open>c\<close>
  hold the request's block and \<open>a\<close> holds none, and the request is routed to \<open>a\<close>.
\<close>

theorem route_tie_ignores_hits:
  "route_decide (\<lambda>_. 5) ''coder'' 7 1 (JList [JInt 1, JInt 2]) 2 example_im3 (example_infos example_fetch_tie)
     = Inr (Some ''a'')
   \<and> map_res (\<lambda>ci. state_hits (\<lambda>_. 5) [1, 2] (snd ci)) (example_infos example_fetch_tie)
       = Inr [Some 0, Some 1, Some 1]
   \<and> map (\<lambda>ci. ii_instance_id (fst ci)) (example_infos example_fetch_tie) = [''a'', ''b'', ''c'']"
proof (intro conjI)
  show "route_decide (\<lambda>_. 5) ''coder'' 7 1 (JList [JInt 1, JInt 2]) 2 example_im3 (example_infos example_fetch_tie)
     = Inr (Some ''a'')" by code_simp
  show "map_res (\<lambda>ci. state_hits (\<lambda>_. 5) [1, 2] (snd ci)) (example_infos example_fetch_tie)
       = Inr [Some 0, Some 1, Some 1]" by code_simp
  show "map (\<lambda>ci. ii_instance_id (fst ci)) (example_infos example_fetch_tie) = [''a'', ''b'', ''c'']" by code_simp
qed

lemma migrate_candidates_cases:
  assumes "migrate_candidates agent m source len = Inr cs" and "cs \<noteq> []"
  obtains src info lo hi sl infos where "source = Some src" "im_get m src = Some info"
    "ii_context_range info = Some (lo, hi)" "hi \<le> len"
    "find_context_slot agent len m = Inr (Some sl)" "get_instances_for_context agent sl m = Inr infos"
    "cs = filter (\<lambda>i. ii_instance_id i \<noteq> src) infos"
  using assms unfolding migrate_candidates_def
  by (auto simp: bind_res_Inr_iff split: option.splits if_splits)

lemma migrate_target_ok:
  assumes "migrate_target s cs = Inr (Some t)"
  shows "t \<in> set cs \<and> (\<exists>st k. map_of (sc_cache_states s) (ii_instance_id t) = Some st \<and> instance_score st = Inr k
     \<and> (\<forall>c \<in> set cs. \<forall>sc. map_of (sc_cache_states s) (ii_instance_id c) = Some sc \<longrightarrow>
          (\<exists>l. instance_score sc = Inr l \<and> k \<le> l)))"
proof -
  let ?av = "filter (\<lambda>i. map_of (sc_cache_states s) (ii_instance_id i) \<noteq> None) cs"
  let ?f = "\<lambda>i. bind_res (dict_item (sc_cache_states s) (ii_instance_id i)) instance_score"
  from assms have "min_by_res ?f ?av = Inr t"
    by (cases "min_by_res ?f ?av") (auto simp: migrate_target_def Let_def split: if_splits)
  from min_by_res_ok [OF this] obtain k where t: "t \<in> set ?av" "?f t = Inr k"
    and le: "\<forall>y \<in> set ?av. \<exists>l. ?f y = Inr l \<and> k \<le> l" by blast
  from t obtain st where st: "map_of (sc_cache_states s) (ii_instance_id t) = Some st" "instance_score st = Inr k"
    by (auto simp: bind_res_Inr_iff)
  have "\<exists>l. instance_score sc = Inr l \<and> k \<le> l"
    if "c \<in> set cs" "map_of (sc_cache_states s) (ii_instance_id c) = Some sc" for c sc
    using le that by (force simp: bind_res_Inr_iff)
  with t st show ?thesis by auto
qed

lemma maybe_migrate_cases:
  assumes "maybe_migrate_request fetch post m source qid iid ins outs keep n_in n_out s = (Inr (Some g), s')"
  obtains cs t where
    "migrate_candidates (sc_agent_id s) m source (total_length n_in n_out ins outs) = Inr cs" "cs \<noteq> []"
    "migrate_target (fetch_missing fetch cs s) cs = Inr (Some t)"
    "mg_source_instance_id g = the source" "mg_target_instance_id g = ii_instance_id t"
    "sc_cache_states s' = AList.delete (ii_instance_id t) (sc_cache_states (fetch_missing fetch cs s))"
proof -
  from assms obtain cs where cs: "migrate_candidates (sc_agent_id s) m source (total_length n_in n_out ins outs) = Inr cs"
    and ne: "cs \<noteq> []"
    by (auto simp: maybe_migrate_request_def split: sum.splits if_splits)
  with assms obtain t where t: "migrate_target (fetch_missing fetch cs s) cs = Inr (Some t)"
    by (auto simp: maybe_migrate_request_def Let_def split: sum.splits option.splits)
  with assms cs ne obtain res ok where "post (endpoint t @ ''/migrate_cache'') (migrate_payload qid iid ins outs keep) = Some res"
    and "json_get res ''success'' = Inr ok" and "truthy ok"
    by (auto simp: maybe_migrate_request_def Let_def split: sum.splits option.splits if_splits)
  with assms cs ne t have "mg_source_instance_id g = the source" "mg_target_instance_id g = ii_instance_id t"
    "sc_cache_states s' = AList.delete (ii_instance_id t) (sc_cache_states (fetch_missing fetch cs s))"
    by (auto simp: maybe_migrate_request_def Let_def map_sum_def split: sum.splits)
  with cs ne t that show ?thesis by blast
qed

text \<open>
  C37. A request is migrated only after it has outgrown the range of its source, and then to
  a different, ready instance of the same agent whose range contains the request's length
  and whose load score is the smallest among the candidates with a known cache state; the
  target's remembered cache state is dropped, so the next routing fetches it again.
\<close>

theorem migration_target_fits:
  assumes "im_reach m"
    and "maybe_migrate_request fetch post m source qid iid ins outs keep n_in n_out s = (Inr (Some g), s')"
  shows "\<exists>src lo hi t cr. source = Some src
     \<and> map_option ii_context_range (im_get m src) = Some (Some (lo, hi)) \<and> hi \<le> total_length n_in n_out ins outs
     \<and> mg_source_instance_id g = src \<and> mg_target_instance_id g = ii_instance_id t \<and> ii_instance_id t \<noteq> src
     \<and> im_get m (ii_instance_id t) = Some t \<and> ii_agent_id t = sc_agent_id s \<and> is_ready t
     \<and> ii_context_range t = Some cr \<and> in_range (total_length n_in n_out ins outs) cr
     \<and> map_of (sc_cache_states s') (ii_instance_id t) = None"
proof -
  have inv: "im_inv m" using assms(1) by (rule im_reach_inv)
  from assms(2) obtain cs t where cs: "migrate_candidates (sc_agent_id s) m source (total_length n_in n_out ins outs) = Inr cs"
    and ne: "cs \<noteq> []" and t: "migrate_target (fetch_missing fetch cs s) cs = Inr (Some t)"
    and g: "mg_source_instance_id g = the source" "mg_target_instance_id g = ii_instance_id t"
    and s': "sc_cache_states s' = AList.delete (ii_instance_id t) (sc_cache_states (fetch_missing fetch cs s))"
    by (rule maybe_migrate_cases)
  from cs ne obtain src info lo hi sl infos where src: "source = Some src" "im_get m src = Some info"
    "ii_context_range info = Some (lo, hi)" "hi \<le> total_length n_in n_out ins outs"
    and sl: "find_context_slot (sc_agent_id s) (total_length n_in n_out ins outs) m = Inr (Some sl)"
    and infos: "get_instances_for_context (sc_agent_id s) sl m = Inr infos"
    and csf: "cs = filter (\<lambda>i. ii_instance_id i \<noteq> src) infos"
    by (rule migrate_candidates_cases)
  have tm: "t \<in> set infos" "ii_instance_id t \<noteq> src" using migrate_target_ok [OF t] csf by auto
  from reg.context_member [OF inv infos tm(1)] have tt: "im_get m (ii_instance_id t) = Some t"
    "serves m (sc_agent_id s) sl t" "is_ready t" by auto
  from in_range_slot [OF inv sl tt(2)] obtain cr where "ii_context_range t = Some cr"
    "in_range (total_length n_in n_out ins outs) cr" by blast
  moreover have "map_of (sc_cache_states s') (ii_instance_id t) = None" by (simp add: s')
  moreover have "map_option ii_context_range (im_get m src) = Some (Some (lo, hi))" by (simp add: src)
  ultimately show ?thesis
    using src(1,4) g tm(2) tt reg.serving_agent [OF tt(2)] by (metis option.sel)
qed

theorem migration_target_fits_witness:
  "\<exists>src lo hi t cr. Some ''a'' = Some src
     \<and> map_option ii_context_range (im_get example_im3 src) = Some (Some (lo, hi)) \<and> hi \<le> total_length (Some 900) (Some 200) [] []
     \<and> ''a'' = src \<and> ''b'' = ii_instance_id t \<and> ii_instance_id t \<noteq> src
     \<and> im_get example_im3 (ii_instance_id t) = Some t \<and> ii_agent_id t = ''coder'' \<and> is_ready t
     \<and> ii_context_range t = Some cr \<and> in_range (total_length (Some 900) (Some 200) [] []) cr
     \<and> map_of (sc_cache_states (snd (maybe_migrate_request example_fetch_hit (\<lambda>u p. Some (JObj [(''success'', JBool True)]))
          example_im3 (Some ''a'') 7 1 [] [] False (Some 900) (Some 200) (sched_new ''coder'')))) (ii_instance_id t) = None"
proof -
  have "maybe_migrate_request example_fetch_hit (\<lambda>u p. Some (JObj [(''success'', JBool True)]))
          example_im3 (Some ''a'') 7 1 [] [] False (Some 900) (Some 200) (sched_new ''coder'')
      = (Inr (Some \<lparr>mg_source_instance_id = ''a'', mg_target_instance_id = ''b'', mg_device = JNull\<rparr>),
         snd (maybe_migrate_request example_fetch_hit (\<lambda>u p. Some (JObj [(''success'', JBool True)]))
          example_im3 (Some ''a'') 7 1 [] [] False (Some 900) (Some 200) (sched_new ''coder'')))"
    by code_simp
  from migration_target_fits [OF example_im3_reach this] show ?thesis by (simp add: sched_new_def)
qed

end
