(* ===== verification/Controller.thy ===== *)
theory Controller
  imports Dag RouteScheduler
begin

text \<open>
  The controller of \<open>src/coreflow/controller.py\<close>: the tables of schedulers and queries, the
  HTTP handlers \<open>/register\<close>, \<open>/query\<close> and \<open>/node_complete\<close>, dispatching of nodes and the
  loading of an allocation file. A query's state object is referred to by its query id, a
  scheduler by its agent id (a JSON value, as it comes from the payload); the scheduler
  object is its table of cache states. \<open>py_str\<close> is Python's \<open>str\<close> on JSON values, of which
  nothing is assumed. The exchanges of one dispatch with the instances, and the registries
  it sees after each \<open>await\<close>, are gathered in a \<open>dispatch_env\<close>.
\<close>

section \<open>State\<close>

record query_state =
  qs_query_id :: int
  qs_query :: query
  qs_submit_time :: pyfloat
  qs_completed :: bool
  qs_error :: json

definition query_state_new :: "int \<Rightarrow> query \<Rightarrow> pyfloat \<Rightarrow> query_state" where
  "query_state_new qid q now =
     \<lparr>qs_query_id = qid, qs_query = q, qs_submit_time = now, qs_completed = False, qs_error = JNull\<rparr>"

record ctl =
  ct_instance_manager :: im
  ct_schedulers :: "(json, (string, json) dict) dict"
  ct_queries :: "(int, query_state) dict"

definition ctl_new :: ctl where
  "ctl_new = \<lparr>ct_instance_manager = im_new, ct_schedulers = [], ct_queries = []\<rparr>"

text \<open>Lists and objects are not hashable, so they cannot be dictionary keys.\<close>

fun hashable :: "json \<Rightarrow> bool" where
  "hashable (JList _) = False"
| "hashable (JObj _) = False"
| "hashable _ = True"

definition get_scheduler :: "json \<Rightarrow> (ctl, (string, json) dict) act" where
  "get_scheduler agent c =
     (if \<not> hashable agent then (Inl TypeError, c)
      else (case map_of (ct_schedulers c) agent of
              Some s \<Rightarrow> (Inr s, c)
            | None \<Rightarrow> (Inr [], c\<lparr>ct_schedulers := AList.update agent [] (ct_schedulers c)\<rparr>)))"

definition add_query :: "query_state \<Rightarrow> ctl \<Rightarrow> ctl" where
  "add_query st c = c\<lparr>ct_queries := AList.update (qs_query_id st) st (ct_queries c)\<rparr>"

definition get_query :: "int \<Rightarrow> ctl \<Rightarrow> query_state option" where
  "get_query qid c = map_of (ct_queries c) qid"

text \<open>Mutation of the state object of a query.\<close>

definition upd_query :: "int \<Rightarrow> (query_state \<Rightarrow> query_state) \<Rightarrow> ctl \<Rightarrow> ctl" where
  "upd_query qid f c =
     (case map_of (ct_queries c) qid of
        None \<Rightarrow> c
      | Some st \<Rightarrow> c\<lparr>ct_queries := AList.update qid (f st) (ct_queries c)\<rparr>)"

section \<open>Loading an allocation\<close>

text \<open>
  \<open>register\<close> as called from the file: the port is taken before the bounds are converted, so
  a bound that is no integer still consumes a port.
\<close>

definition register_stub ::
  "(json \<Rightarrow> string) \<Rightarrow> string \<Rightarrow> json \<Rightarrow> json \<Rightarrow> json \<Rightarrow> int \<Rightarrow> (im, unit) act" where
  "register_stub py_str agent lo hi gpus index s =
     (case bind_res (int_of_json lo) (\<lambda>l. bind_res (int_of_json hi) (\<lambda>h. Inr (l, h))) of
        Inl e \<Rightarrow> (Inl e, s\<lparr>im_next_port := im_next_port s + 1\<rparr>)
      | Inr cr \<Rightarrow>
          (Inr (), snd (register (agent @ ''-'' @ py_str lo @ ''-'' @ py_str hi @ ''-'' @ show_int index)
                          agent ''127.0.0.1'' None (Some cr) gpus s)))"

fun register_stubs ::
  "(json \<Rightarrow> string) \<Rightarrow> string \<Rightarrow> json \<Rightarrow> json \<Rightarrow> json \<Rightarrow> nat list \<Rightarrow> (im, unit) act" where
  "register_stubs py_str agent lo hi gpus [] s = (Inr (), s)"
| "register_stubs py_str agent lo hi gpus (i # is) s =
     (case register_stub py_str agent lo hi gpus (int i) s of
        (Inl e, s') \<Rightarrow> (Inl e, s')
      | (Inr _, s') \<Rightarrow> register_stubs py_str agent lo hi gpus is s')"

text \<open>\<open>range(n)\<close> of a JSON value.\<close>

fun json_range :: "json \<Rightarrow> nat list res" where
  "json_range (JInt n) = Inr [0..<nat n]"
| "json_range (JBool b) = Inr (if b then [0] else [])"
| "json_range _ = Inl TypeError"

definition load_group :: "(json \<Rightarrow> string) \<Rightarrow> string \<Rightarrow> json \<Rightarrow> json \<Rightarrow> (im, unit) act" where
  "load_group py_str agent gpus grp s =
     (case bind_res (json_item grp ''context_lower'') (\<lambda>lo.
           bind_res (json_item grp ''context_upper'') (\<lambda>hi.
           bind_res (json_get_or grp ''num_instances'' (JInt 1)) (\<lambda>n.
           bind_res (json_get_or grp ''gpus_per_instance'' gpus) (\<lambda>g.
           bind_res (json_range n) (\<lambda>is. Inr (lo, hi, g, is)))))) of
        Inl e \<Rightarrow> (Inl e, s)
      | Inr (lo, hi, g, is) \<Rightarrow> register_stubs py_str agent lo hi g is s)"

fun load_groups :: "(json \<Rightarrow> string) \<Rightarrow> string \<Rightarrow> json \<Rightarrow> json list \<Rightarrow> (im, unit) act" where
  "load_groups py_str agent gpus [] s = (Inr (), s)"
| "load_groups py_str agent gpus (g # gs) s =
     (case load_group py_str agent gpus g s of
        (Inl e, s') \<Rightarrow> (Inl e, s')
      | (Inr _, s') \<Rightarrow> load_groups py_str agent gpus gs s')"

fun load_agents :: "(json \<Rightarrow> string) \<Rightarrow> json \<Rightarrow> (string \<times> json) list \<Rightarrow> (im, unit) act" where
  "load_agents py_str gpus [] s = (Inr (), s)"
| "load_agents py_str gpus ((agent, alloc) # rest) s =
     (case bind_res (json_get_or alloc ''instances'' (JList [])) list_of_json of
        Inl e \<Rightarrow> (Inl e, s)
      | Inr groups \<Rightarrow>
          (case load_groups py_str agent gpus groups s of
             (Inl e, s') \<Rightarrow> (Inl e, s')
           | (Inr _, s') \<Rightarrow> load_agents py_str gpus rest s'))"

fun json_items :: "json \<Rightarrow> (string \<times> json) list res" where
  "json_items (JObj d) = Inr d"
| "json_items _ = Inl AttributeError"

text \<open>\<open>data\<close> is the parsed file, \<open>None\<close> when it does not exist.\<close>

definition load_allocation :: "(json \<Rightarrow> string) \<Rightarrow> json option \<Rightarrow> (ctl, unit) act" where
  "load_allocation py_str data c =
     (case data of
        None \<Rightarrow> (Inr (), c)
      | Some j \<Rightarrow>
          (case bind_res (json_get_or j ''allocation'' (JObj [])) (\<lambda>al.
                bind_res (json_get_or j ''config'' (JObj [])) (\<lambda>cf.
                bind_res (json_get_or cf ''gpus_per_instance'' (JInt 1)) (\<lambda>g.
                bind_res (json_items al) (\<lambda>d. Inr (d, g))))) of
             Inl e \<Rightarrow> (Inl e, c)
           | Inr (d, g) \<Rightarrow>
               (case load_agents py_str g d (ct_instance_manager c) of
                  (r, s) \<Rightarrow> (r, c\<lparr>ct_instance_manager := s\<rparr>))))"

section \<open>Dispatching nodes\<close>

record dispatch_env =
  de_ord :: "string list \<Rightarrow> string list"
  de_fetch :: "instance_info \<Rightarrow> json option"
  de_post :: "string \<Rightarrow> json \<Rightarrow> json option"
  de_im_fetched :: im
  de_im_dispatch :: im

definition node_dict :: "node \<Rightarrow> json" where
  "node_dict n = JObj [(''query_id'', JInt (n_query_id n)), (''invocation_id'', JInt (n_invocation_id n)),
     (''agent_id'', n_agent_id n), (''input_tokens'', JList (n_input_tokens n)),
     (''output_tokens'', JList (n_output_tokens n)), (''num_input_tokens'', JInt (n_num_input_tokens n)),
     (''num_output_tokens'', JInt (n_num_output_tokens n)), (''keep_cache_in_gpu'', JBool (n_keep_cache_in_gpu n)),
     (''free_cache'', JBool (n_free_cache n)), (''repeat'', JInt (n_repeat n))]"

text \<open>
  Routing for an agent id that is not a string finds no instance: the registry only has
  string agents.
\<close>

definition route_agent ::
  "(string \<Rightarrow> int) \<Rightarrow> dispatch_env \<Rightarrow> im \<Rightarrow> json \<Rightarrow> (string, json) dict \<Rightarrow> node
    \<Rightarrow> string option res \<times> (string, json) dict" where
  "route_agent H env m agent states n =
     (case agent of
        JStr a \<Rightarrow>
          (case route H (de_ord env) (de_fetch env) m (de_im_fetched env) (n_query_id n) (n_invocation_id n)
                  (JList (n_input_tokens n)) (n_num_input_tokens n) \<lparr>sc_agent_id = a, sc_cache_states = states\<rparr> of
             (r, s) \<Rightarrow> (r, sc_cache_states s))
      | _ \<Rightarrow> (Inr None, states))"

definition set_node_query_id :: "int \<Rightarrow> node_key \<Rightarrow> query_state \<Rightarrow> query_state" where
  "set_node_query_id qid k st =
     st\<lparr>qs_query := (qs_query st)\<lparr>q_dag := (q_dag (qs_query st))\<lparr>d_nodes :=
        (case map_of (d_nodes (q_dag (qs_query st))) k of
           None \<Rightarrow> d_nodes (q_dag (qs_query st))
         | Some n \<Rightarrow> AList.update k (n\<lparr>n_query_id := qid\<rparr>) (d_nodes (q_dag (qs_query st))))\<rparr>\<rparr>\<rparr>"

text \<open>\<open>state.error = result.get("error") if result else "instance failed"\<close>\<close>

definition dispatch_error :: "json option \<Rightarrow> json option res" where
  "dispatch_error result =
     (case result of
        None \<Rightarrow> Inr (Some (JStr ''instance failed''))
      | Some r \<Rightarrow>
          bind_res (json_get r ''success'') (\<lambda>ok.
            if truthy ok then Inr None
            else if truthy r then map_sum id Some (json_get r ''error'')
            else Inr (Some (JStr ''instance failed''))))"

definition dispatch_node ::
  "(string \<Rightarrow> int) \<Rightarrow> (json \<Rightarrow> string) \<Rightarrow> dispatch_env \<Rightarrow> int \<Rightarrow> node_key \<Rightarrow> (ctl, unit) act" where
  "dispatch_node H py_str env qid k c0 =
     (let c = upd_query qid (set_node_query_id qid k) c0
      in case get_query qid c of
           None \<Rightarrow> (Inl KeyError, c)
         | Some st \<Rightarrow>
             (case map_of (d_nodes (q_dag (qs_query st))) k of
                None \<Rightarrow> (Inl KeyError, c)
              | Some n \<Rightarrow>
                  (case get_scheduler (n_agent_id n) c of
                     (Inl e, c1) \<Rightarrow> (Inl e, c1)
                   | (Inr states, c1) \<Rightarrow>
                       (case route_agent H env (ct_instance_manager c1) (n_agent_id n) states n of
                          (r, states') \<Rightarrow>
                            (let c2 = c1\<lparr>ct_schedulers := AList.update (n_agent_id n) states' (ct_schedulers c1)\<rparr>
                             in case r of
                                  Inl e \<Rightarrow> (Inl e, c2)
                                | Inr None \<Rightarrow>
                                    (Inr (), upd_query qid (qs_error_update (\<lambda>_.
                                       JStr (''Routing failed for agent '' @ py_str (n_agent_id n)))) c2)
                                | Inr (Some i) \<Rightarrow>
                                    (case dispatch_error (dispatch (de_post env) (de_im_dispatch env) i (node_dict n)) of
                                       Inl e \<Rightarrow> (Inl e, c2)
                                     | Inr None \<Rightarrow> (Inr (), c2)
                                     | Inr (Some e) \<Rightarrow> (Inr (), upd_query qid (qs_error_update (\<lambda>_. e)) c2)))))))"

text \<open>
  The tasks of one batch, each with its own environment; \<open>return_exceptions=True\<close> drops
  what a task raises.
\<close>

fun schedule_nodes ::
  "(string \<Rightarrow> int) \<Rightarrow> (json \<Rightarrow> string) \<Rightarrow> (node_key \<Rightarrow> dispatch_env) \<Rightarrow> int \<Rightarrow> node_key list \<Rightarrow> ctl \<Rightarrow> ctl" where
  "schedule_nodes H py_str env qid [] c = c"
| "schedule_nodes H py_str env qid (k # ks) c =
     schedule_nodes H py_str env qid ks (snd (dispatch_node H py_str (env k) qid k c))"

section \<open>Query execution\<close>

text \<open>
  \<open>str(exc)\<close> of the KeyError that \<open>get_entry_nodes\<close> raises is the printed node key, which the
  model leaves to the argument \<open>exc_str\<close>.
\<close>

definition set_query :: "query \<Rightarrow> query_state \<Rightarrow> query_state" where
  "set_query q st = st\<lparr>qs_query := q\<rparr>"

definition execute_query ::
  "(string \<Rightarrow> int) \<Rightarrow> (json \<Rightarrow> string) \<Rightarrow> (py_error \<Rightarrow> string) \<Rightarrow> (node_key \<Rightarrow> dispatch_env) \<Rightarrow> (nat \<Rightarrow> pyfloat)
    \<Rightarrow> int \<Rightarrow> ctl \<Rightarrow> ctl" where
  "execute_query H py_str exc_str env clk qid c =
     (case get_query qid c of
        None \<Rightarrow> c
      | Some st \<Rightarrow>
          (case query_get_entry_nodes clk (qs_query st) of
             (Inl e, q) \<Rightarrow> upd_query qid (\<lambda>st. (set_query q st)\<lparr>qs_error := JStr (exc_str e)\<rparr>) c
           | (Inr ks, q) \<Rightarrow> schedule_nodes H py_str env qid ks (upd_query qid (set_query q) c)))"

record completion =
  cp_instance_id :: "string option"
  cp_query_id :: int
  cp_invocation_id :: int
  cp_repeat :: int
  cp_agent_id :: string
  cp_keep_cache_in_gpu :: bool
  cp_free_cache :: bool
  cp_success :: bool
  cp_error :: json
  cp_num_input_tokens :: "int option"
  cp_num_output_tokens :: "int option"
  cp_input_token_ids :: "int list option"
  cp_output_token_ids :: "int list option"

definition ids_or_empty :: "int list option \<Rightarrow> int list" where
  "ids_or_empty xs = (case xs of None \<Rightarrow> [] | Some ys \<Rightarrow> ys)"

text \<open>The migration part of a completion, for a node whose cache is kept.\<close>

definition migrate_completed ::
  "dispatch_env \<Rightarrow> completion \<Rightarrow> (ctl, unit) act" where
  "migrate_completed env r c =
     (case get_scheduler (JStr (cp_agent_id r)) c of
        (Inl e, c1) \<Rightarrow> (Inl e, c1)
      | (Inr states, c1) \<Rightarrow>
          (case maybe_migrate_request (de_fetch env) (de_post env) (ct_instance_manager c1)
                  (cp_instance_id r) (cp_query_id r) (cp_invocation_id r)
                  (ids_or_empty (cp_input_token_ids r)) (ids_or_empty (cp_output_token_ids r))
                  (cp_keep_cache_in_gpu r) (cp_num_input_tokens r) (cp_num_output_tokens r)
                  \<lparr>sc_agent_id = cp_agent_id r, sc_cache_states = states\<rparr> of
             (res, s) \<Rightarrow>
               (map_sum id (\<lambda>_. ()) res,
                c1\<lparr>ct_schedulers := AList.update (JStr (cp_agent_id r)) (sc_cache_states s) (ct_schedulers c1)\<rparr>)))"

definition handle_node_complete ::
  "(string \<Rightarrow> int) \<Rightarrow> (json \<Rightarrow> string) \<Rightarrow> dispatch_env \<Rightarrow> (node_key \<Rightarrow> dispatch_env) \<Rightarrow> pyfloat \<Rightarrow> (nat \<Rightarrow> pyfloat)
    \<Rightarrow> completion \<Rightarrow> (ctl, unit) act" where
  "handle_node_complete H py_str menv env now clk r c =
     (case get_query (cp_query_id r) c of
        None \<Rightarrow> (Inl (HTTPException 404), c)
      | Some st0 \<Rightarrow>
          if \<not> cp_success r then (Inr (), upd_query (cp_query_id r) (qs_error_update (\<lambda>_. cp_error r)) c)
          else
            (case (if cp_free_cache r then (Inr (), c) else migrate_completed menv r c) of
               (Inl e, c1) \<Rightarrow> (Inl e, c1)
             | (Inr _, c1) \<Rightarrow>
                 (case get_query (cp_query_id r) c1 of
                    None \<Rightarrow> (Inl (HTTPException 404), c1)
                  | Some st \<Rightarrow>
                      (case get_next_execute_agents now clk (cp_invocation_id r) (cp_repeat r) (qs_query st) of
                         (Inl e, q) \<Rightarrow> (Inl e, upd_query (cp_query_id r) (set_query q) c1)
                       | (Inr ks, q) \<Rightarrow>
                           (let c2 = schedule_nodes H py_str env (cp_query_id r) ks
                                       (upd_query (cp_query_id r) (set_query q) c1)
                            in (Inr (), upd_query (cp_query_id r)
                                  (\<lambda>s. if query_is_completed (qs_query s) then s\<lparr>qs_completed := True\<rparr> else s) c2))))))"

section \<open>Endpoints\<close>

record register_request =
  rq_instance_id :: string
  rq_agent_id :: string
  rq_host :: string
  rq_port :: "int option"
  rq_context_range :: "(int \<times> int) option"
  rq_num_gpus :: int

definition register_endpoint :: "register_request \<Rightarrow> ctl \<Rightarrow> ctl" where
  "register_endpoint r c =
     (let m1 = snd (register (rq_instance_id r) (rq_agent_id r) (rq_host r) (rq_port r)
                      (rq_context_range r) (JInt (rq_num_gpus r)) (ct_instance_manager c));
          m2 = set_ready (rq_instance_id r) m1
      in snd (get_scheduler (JStr (rq_agent_id r)) (c\<lparr>ct_instance_manager := m2\<rparr>)))"

text \<open>
  \<open>req.query_id or int(time.time() * 1000)\<close>. Clock reads: the id, the submit time of the
  query, the creation time of the graph and the submit time of the state. The task that
  executes the query is the separate step \<^const>\<open>execute_query\<close>.
\<close>

definition create_query ::
  "(nat \<Rightarrow> pyfloat) \<Rightarrow> int option \<Rightarrow> (string \<times> json) list \<Rightarrow> json list \<Rightarrow> string \<Rightarrow> (ctl, int) act" where
  "create_query clk req_id deps nodes work_dir c =
     (let qid = (case req_id of None \<Rightarrow> trunc_rat (clk 0 * 1000)
                 | Some i \<Rightarrow> if i = 0 then trunc_rat (clk 0 * 1000) else i)
      in case query_new qid work_dir deps nodes (clk 1) (clk 2) of
           Inl e \<Rightarrow> (Inl e, c)
         | Inr q \<Rightarrow> (Inr qid, add_query (query_state_new qid q (clk 3)) c))"

section \<open>The graph invariant of a stored query\<close>

definition dag_ok :: "dag \<Rightarrow> bool" where
  "dag_ok d \<longleftrightarrow> dict_wf (d_workflow d) \<and> dict_wf (d_nodes d) \<and> d_node_count d = length (d_nodes d)
     \<and> d_excuted d = {k. node_state d k = Some FINISHED}"

lemma dag_ok_fresh: "dag_fresh d \<Longrightarrow> dag_ok d"
proof -
  assume f: "dag_fresh d"
  have "node_state d k \<noteq> Some FINISHED" for k using fresh_state [OF f, of k] by auto
  with f show ?thesis by (simp add: dag_ok_def dag_fresh_def)
qed

text \<open>The starting loop, whether it raises or not, never changes which nodes are finished.\<close>

lemma start_where_finished:
  "start_where ready clk i w d = (r, j, d') \<Longrightarrow> node_state d' k = Some FINISHED \<longleftrightarrow> node_state d k = Some FINISHED"
proof (induction w arbitrary: i d r j d')
  case (Cons kd w)
  obtain l deps where kd: "kd = (l, deps)" by (cases kd)
  show ?case
  proof (cases rule: start_where_cases [of ready deps d l])
    case skip
    then have "start_where ready clk i w d = (r, j, d')"
      using Cons.prems kd start_where_skip by metis
    then show ?thesis by (rule Cons.IH)
  next
    case missing
    then have "d' = d" using Cons.prems kd start_where_missing by (metis prod.inject)
    then show ?thesis by simp
  next
    case hit
    obtain r1 j1 d1 where eq: "start_where ready clk (Suc i) w (mark_started (clk i) l d) = (r1, j1, d1)"
      by (cases "start_where ready clk (Suc i) w (mark_started (clk i) l d)")
    with Cons.prems kd start_where_hit [of ready deps d l clk i w] hit have "d' = d1"
      by (auto split: sum.splits)
    with Cons.IH [OF eq] node_state_mark_started [OF hit(2), of "clk i"] hit(2) show ?thesis by auto
  qed
qed simp

lemma dag_ok_frame:
  assumes "dag_ok d" and "same_frame d d'" and "d_excuted d' = {k. node_state d' k = Some FINISHED}"
  shows "dag_ok d'"
  using assms unfolding dag_ok_def same_frame_def dict_wf_def by (metis length_map)

lemma dag_ok_entry: "dag_ok d \<Longrightarrow> get_entry_nodes clk d = (r, d') \<Longrightarrow> dag_ok d'"
proof -
  assume ok: "dag_ok d" and g: "get_entry_nodes clk d = (r, d')"
  then obtain j where sw: "start_where (\<lambda>deps. deps = []) clk 0 (d_workflow d) d = (r, j, d')"
    by (auto simp: get_entry_nodes_def split: prod.splits)
  show "dag_ok d'"
    using ok start_where_frame [OF sw] start_where_finished [OF sw]
    by (intro dag_ok_frame [OF ok]) (auto simp: dag_ok_def)
qed

lemma dag_ok_update:
  assumes ok: "dag_ok d" and u: "update_result clk i r d = (res, d')"
  shows "dag_ok d'" and "d_excuted d \<subseteq> d_excuted d'" and "same_frame d d'"
proof -
  have "dag_ok d' \<and> d_excuted d \<subseteq> d_excuted d' \<and> same_frame d d'"
  proof (cases "node_state d (i, r)")
    case None
    then have "d' = d" using u by (auto simp: update_result_def node_state_def split: option.splits)
    with ok show ?thesis by simp
  next
    case (Some st)
    obtain r2 j d2 where sw: "start_where (list_all (dep_done (insert (i, r) (d_excuted d)))) clk 2 (d_workflow d)
        (mark_finished (clk 1) (i, r) d) = (r2, j, d2)" by (metis prod_cases3)
    have d': "d' = d2 \<or> d' = d2\<lparr>d_end_time := Some (clk j), d_latency := Some (clk j - d_start_time d2)\<rparr>"
      using u sw unfolding update_result_eq [OF Some] by (auto split: sum.splits if_splits)
    note mf = mark_finished_facts [OF Some, of "clk 1"]
    have sf: "same_frame d d2" using start_where_frame [OF sw] mf(3) same_frame_trans by blast
    have ex: "d_excuted d2 = insert (i, r) (d_excuted d)" using start_where_frame [OF sw] mf(2) by simp
    have "d_excuted d2 = {k. node_state d2 k = Some FINISHED}"
    proof (rule set_eqI)
      fix k
      have "node_state d2 k = Some FINISHED \<longleftrightarrow> k = (i, r) \<or> node_state d k = Some FINISHED"
        unfolding start_where_finished [OF sw] mf(1) by simp
      then show "k \<in> d_excuted d2 \<longleftrightarrow> k \<in> {k. node_state d2 k = Some FINISHED}"
        using ok by (simp add: ex dag_ok_def)
    qed
    from dag_ok_frame [OF ok sf this] have ok2: "dag_ok d2" .
    have "dag_ok d'" using d' ok2 by (auto simp: dag_ok_def node_state_def)
    moreover have "same_frame d d'" using d' sf by (auto simp: same_frame_def)
    moreover have "d_excuted d \<subseteq> d_excuted d'" using d' ex by auto
    ultimately show ?thesis by blast
  qed
  then show "dag_ok d'" and "d_excuted d \<subseteq> d_excuted d'" and "same_frame d d'" by auto
qed

lemma dag_ok_completed:
  assumes "dag_ok d"
  shows "is_completed d \<longleftrightarrow> (\<forall>k \<in> fst ` set (d_nodes d). node_state d k = Some FINISHED)"
proof -
  have sub: "d_excuted d \<subseteq> fst ` set (d_nodes d)"
  proof
    fix k assume "k \<in> d_excuted d"
    then have "node_state d k = Some FINISHED" using assms by (simp add: dag_ok_def)
    then have "\<not> node_state d k = None" by simp
    then show "k \<in> fst ` set (d_nodes d)" unfolding node_state_None by simp
  qed
  have "d_node_count d = card (fst ` set (d_nodes d))"
    using assms distinct_card [of "map fst (d_nodes d)"] by (simp add: dag_ok_def dict_wf_def)
  then have "is_completed d \<longleftrightarrow> d_excuted d = fst ` set (d_nodes d)"
    unfolding is_completed_def using sub by (metis card_subset_eq finite_imageI finite_set)
  also have "\<dots> \<longleftrightarrow> (\<forall>k \<in> fst ` set (d_nodes d). node_state d k = Some FINISHED)"
    using sub assms unfolding dag_ok_def by blast
  finally show ?thesis .
qed

lemma dag_completed_mono:
  assumes "dag_ok d" "update_result clk i r d = (res, d')" "is_completed d"
  shows "is_completed d'"
proof -
  note U = dag_ok_update [OF assms(1,2)]
  have "k \<in> d_excuted d'" if "k \<in> fst ` set (d_nodes d')" for k
    using that assms(1,3) U(2) same_frame_keys [OF U(3)] unfolding dag_ok_completed [OF assms(1)]
    by (auto simp: dag_ok_def)
  then show ?thesis unfolding dag_ok_completed [OF U(1)] using U(1) by (auto simp: dag_ok_def)
qed

section \<open>The controller invariant\<close>

definition qs_ok :: "int \<Rightarrow> query_state \<Rightarrow> bool" where
  "qs_ok qid st \<longleftrightarrow> qs_query_id st = qid \<and> q_query_id (qs_query st) = qid \<and> dag_ok (q_dag (qs_query st))
     \<and> (qs_completed st \<longrightarrow> is_completed (q_dag (qs_query st)))"

definition ctl_ok :: "ctl \<Rightarrow> bool" where
  "ctl_ok c \<longleftrightarrow> (\<forall>qid st. map_of (ct_queries c) qid = Some st \<longrightarrow> qs_ok qid st)"

lemma ctl_ok_upd:
  assumes "ctl_ok c" and "\<And>st. map_of (ct_queries c) qid = Some st \<Longrightarrow> qs_ok qid st \<Longrightarrow> qs_ok qid (f st)"
  shows "ctl_ok (upd_query qid f c)"
  using assms by (auto simp: ctl_ok_def upd_query_def split: option.splits)

lemma ctl_ok_queries: "ct_queries c' = ct_queries c \<Longrightarrow> ctl_ok c' \<longleftrightarrow> ctl_ok c"
  by (simp add: ctl_ok_def)

lemma get_scheduler_queries: "get_scheduler a c = (r, c') \<Longrightarrow>
   ct_queries c' = ct_queries c \<and> ct_instance_manager c' = ct_instance_manager c"
  by (auto simp: get_scheduler_def split: if_splits option.splits)

lemma qs_ok_error: "qs_ok qid st \<Longrightarrow> qs_ok qid (st\<lparr>qs_error := e\<rparr>)"
  by (simp add: qs_ok_def)

lemma qs_ok_node_query_id: "qs_ok qid st \<Longrightarrow> qs_ok qid (set_node_query_id x k st)"
proof -
  assume ok: "qs_ok qid st"
  let ?d = "q_dag (qs_query st)"
  show ?thesis
  proof (cases "map_of (d_nodes ?d) k")
    case None
    with ok show ?thesis by (simp add: set_node_query_id_def qs_ok_def)
  next
    case (Some n)
    let ?d' = "?d\<lparr>d_nodes := AList.update k (n\<lparr>n_query_id := x\<rparr>) (d_nodes ?d)\<rparr>"
    have st: "node_state ?d' = node_state ?d"
      using Some by (simp add: node_state_update) (auto simp: node_state_def)
    have "dag_ok ?d'"
      by (rule dag_ok_frame [OF _ same_frame_upd [OF Some]]) (use ok st in \<open>simp_all add: qs_ok_def dag_ok_def\<close>)
    with ok Some show ?thesis by (simp add: set_node_query_id_def qs_ok_def is_completed_def)
  qed
qed

lemma ctl_ok_dispatch:
  assumes "ctl_ok c"
  shows "ctl_ok (snd (dispatch_node H py_str env qid k c))"
proof -
  let ?c = "upd_query qid (set_node_query_id qid k) c"
  have ok: "ctl_ok ?c" using assms by (rule ctl_ok_upd) (rule qs_ok_node_query_id)
  have up: "ctl_ok (upd_query qid (qs_error_update (\<lambda>_. e)) x)" if "ctl_ok x" for x e
    using that by (rule ctl_ok_upd) (rule qs_ok_error)
  have sch: "ctl_ok (x\<lparr>ct_schedulers := s\<rparr>) = ctl_ok x" for x s by (simp add: ctl_ok_def)
  show ?thesis
    unfolding dispatch_node_def Let_def
    by (auto split: option.splits sum.splits prod.splits simp: ok sch intro!: up
        dest!: get_scheduler_queries ctl_ok_queries)
qed

lemma ctl_ok_schedule: "ctl_ok c \<Longrightarrow> ctl_ok (schedule_nodes H py_str env qid ks c)"
  by (induction ks arbitrary: c) (simp_all add: ctl_ok_dispatch)

lemma qs_ok_set_query:
  assumes "qs_ok qid st" and "q_query_id q = qid" and "dag_ok (q_dag q)"
    and "is_completed (q_dag (qs_query st)) \<Longrightarrow> is_completed (q_dag q)"
  shows "qs_ok qid (set_query q st)"
  using assms by (auto simp: qs_ok_def set_query_def)

lemma ctl_ok_execute: "ctl_ok c \<Longrightarrow> ctl_ok (execute_query H py_str exc_str env clk qid c)"
proof -
  assume ok: "ctl_ok c"
  show ?thesis
  proof (cases "get_query qid c")
    case None
    with ok show ?thesis by (simp add: execute_query_def)
  next
    case (Some st)
    then have st: "qs_ok qid st" using ok by (simp add: ctl_ok_def get_query_def)
    obtain r q where e: "query_get_entry_nodes clk (qs_query st) = (r, q)" by fastforce
    then obtain d where g: "get_entry_nodes clk (q_dag (qs_query st)) = (r, d)"
      and q: "q = (qs_query st)\<lparr>q_dag := d\<rparr>" by (auto simp: query_get_entry_nodes_def split: prod.splits)
    have d: "dag_ok d" using dag_ok_entry [OF _ g] st by (simp add: qs_ok_def)
    have comp: "is_completed d \<longleftrightarrow> is_completed (q_dag (qs_query st))"
      using start_where_frame g by (auto simp: get_entry_nodes_def is_completed_def same_frame_def split: prod.splits)
    have new: "qs_ok qid (set_query q st')" if "map_of (ct_queries c) qid = Some st'" for st'
      using that Some st d comp by (auto simp: get_query_def q intro!: qs_ok_set_query) (simp_all add: qs_ok_def)
    have "ctl_ok (upd_query qid (set_query q) c)" using ok new by (intro ctl_ok_upd) auto
    moreover have "ctl_ok (upd_query qid (\<lambda>st. (set_query q st)\<lparr>qs_error := JStr (exc_str x)\<rparr>) c)" for x
      using ok new by (intro ctl_ok_upd qs_ok_error) auto
    ultimately show ?thesis
      using Some e by (auto simp: execute_query_def intro: ctl_ok_schedule split: sum.splits)
  qed
qed

lemma migrate_completed_queries: "migrate_completed env r c = (res, c') \<Longrightarrow> ct_queries c' = ct_queries c"
  by (auto simp: migrate_completed_def split: prod.splits sum.splits dest: get_scheduler_queries)

lemma ctl_ok_complete:
  assumes ok: "ctl_ok c"
  shows "ctl_ok (snd (handle_node_complete H py_str menv env now clk r c))"
proof (cases "get_query (cp_query_id r) c")
  case None
  with ok show ?thesis by (simp add: handle_node_complete_def)
next
  case (Some st)
  let ?qid = "cp_query_id r"
  show ?thesis
  proof (cases "cp_success r")
    case False
    have "ctl_ok (upd_query ?qid (qs_error_update (\<lambda>_. cp_error r)) c)"
      using ok by (rule ctl_ok_upd) (rule qs_ok_error)
    with False Some show ?thesis by (simp add: handle_node_complete_def)
  next
    case True
    obtain res c1 where m: "(if cp_free_cache r then (Inr (), c) else migrate_completed menv r c) = (res, c1)"
      by fastforce
    have c1: "ct_queries c1 = ct_queries c"
      using m migrate_completed_queries by (auto split: if_splits)
    then have ok1: "ctl_ok c1" and some1: "get_query ?qid c1 = Some st"
      using ok Some by (simp_all add: ctl_ok_def get_query_def)
    then have st: "qs_ok ?qid st" by (simp add: ctl_ok_def get_query_def)
    obtain ks q where n: "get_next_execute_agents now clk (cp_invocation_id r) (cp_repeat r) (qs_query st) = (ks, q)"
      by fastforce
    then obtain d where u: "update_result clk (cp_invocation_id r) (cp_repeat r) (q_dag (qs_query st)) = (ks, d)"
      and q: "q_dag q = d" "q_query_id q = q_query_id (qs_query st)"
      by (auto simp: get_next_execute_agents_def Let_def split: prod.splits option.splits)
    have dok: "dag_ok (q_dag (qs_query st))" using st by (simp add: qs_ok_def)
    have "qs_ok ?qid (set_query q st)"
      using st q dag_ok_update(1) [OF dok u] dag_completed_mono [OF dok u]
      by (intro qs_ok_set_query) (auto simp: qs_ok_def)
    then have c2: "ctl_ok (upd_query ?qid (set_query q) c1)"
      using ok1 some1 by (intro ctl_ok_upd) (auto simp: get_query_def)
    have "ctl_ok (upd_query ?qid (\<lambda>s. if query_is_completed (qs_query s) then s\<lparr>qs_completed := True\<rparr> else s)
        (schedule_nodes H py_str env ?qid xs (upd_query ?qid (set_query q) c1)))" for xs
      by (rule ctl_ok_upd [OF ctl_ok_schedule [OF c2]]) (auto simp: qs_ok_def query_is_completed_def)
    with c2 ok1 True Some m some1 n show ?thesis
      by (auto simp: handle_node_complete_def Let_def split: sum.splits)
  qed
qed

lemma query_new_fresh: "query_new qid wd deps nodes sub now = Inr q \<Longrightarrow> q_query_id q = qid \<and> dag_fresh (q_dag q)"
  by (auto simp: query_new_def bind_res_Inr_iff dest: create_dag_fresh)

section \<open>Reachable controllers\<close>

text \<open>
  Any interleaving of the handlers and of the tasks that execute queries, with arbitrary
  answers of the instances.
\<close>

inductive ctl_reach :: "ctl \<Rightarrow> bool" where
  ctl_start: "ctl_reach ctl_new"
| ctl_load: "ctl_reach c \<Longrightarrow> ctl_reach (snd (load_allocation py_str data c))"
| ctl_register: "ctl_reach c \<Longrightarrow> ctl_reach (register_endpoint req c)"
| ctl_query: "ctl_reach c \<Longrightarrow> ctl_reach (snd (create_query clk req_id deps nodes wd c))"
| ctl_execute: "ctl_reach c \<Longrightarrow> ctl_reach (execute_query H py_str exc_str env clk qid c)"
| ctl_complete: "ctl_reach c \<Longrightarrow> ctl_reach (snd (handle_node_complete H py_str menv env now clk r c))"

lemma ctl_reach_ok: "ctl_reach c \<Longrightarrow> ctl_ok c"
proof (induction rule: ctl_reach.induct)
  case ctl_start
  show ?case by (simp add: ctl_ok_def ctl_new_def)
next
  case (ctl_load c py_str data)
  have "ct_queries (snd (load_allocation py_str data c)) = ct_queries c"
    by (auto simp: load_allocation_def split: option.splits sum.splits prod.splits)
  with ctl_load.IH show ?case by (simp add: ctl_ok_def)
next
  case (ctl_register c req)
  have "ct_queries (register_endpoint req c) = ct_queries c"
    by (simp add: register_endpoint_def Let_def get_scheduler_def split: option.splits)
  with ctl_register.IH show ?case by (simp add: ctl_ok_def)
next
  case (ctl_query c clk req_id deps nodes wd)
  then show ?case
    by (auto simp: create_query_def Let_def ctl_ok_def add_query_def query_state_new_def qs_ok_def
        dest!: query_new_fresh dag_ok_fresh split: sum.splits)
qed (simp_all add: ctl_ok_execute ctl_ok_complete)

section \<open>Stubs of an allocation are never routed to\<close>

definition stub_inv :: "im \<Rightarrow> bool" where
  "stub_inv s \<longleftrightarrow> (\<forall>i info. map_of (im_instances s) i = Some info \<longrightarrow> \<not> is_ready info)
     \<and> (\<forall>a. set (ids_of (im_agent_instances s) a) \<subseteq> dom (map_of (im_instances s)))"

lemma stub_inv_register:
  assumes "stub_inv s"
  shows "stub_inv (snd (register iid a host port cr gpus s))"
proof -
  let ?s = "snd (register iid a host port cr gpus s)"
  have I: "\<exists>info. map_of (im_instances ?s) = (map_of (im_instances s))(iid \<mapsto> info) \<and> \<not> is_ready info"
    by (auto simp: register_def Let_def get_or_create_slot_def is_ready_def split: option.splits prod.splits)
  have A: "im_agent_instances ?s = index_add a iid (im_agent_instances s)"
    by (auto simp: register_def Let_def get_or_create_slot_def split: option.splits prod.splits)
  from I obtain info where i: "map_of (im_instances ?s) = (map_of (im_instances s))(iid \<mapsto> info)" "\<not> is_ready info"
    by blast
  have "\<not> is_ready w" if "map_of (im_instances ?s) j = Some w" for j w
    using that assms i by (auto simp: stub_inv_def split: if_splits)
  moreover have "set (ids_of (im_agent_instances ?s) b) \<subseteq> dom (map_of (im_instances ?s))" for b
    using assms unfolding i(1) A stub_inv_def by (auto simp: ids_of_index_add)
  ultimately show ?thesis unfolding stub_inv_def by blast
qed

lemma stub_inv_stubs: "stub_inv s \<Longrightarrow> stub_inv (snd (register_stubs py_str a lo hi g is s))"
proof (induction "is" arbitrary: s)
  case (Cons i "is")
  have "stub_inv (s\<lparr>im_next_port := n\<rparr>)" for n using Cons.prems by (simp add: stub_inv_def)
  then have "stub_inv (snd (register_stub py_str a lo hi g (int i) s))"
    using Cons.prems by (auto simp: register_stub_def stub_inv_register split: sum.splits)
  with Cons.IH show ?case by (auto split: prod.splits sum.splits)
qed simp

lemma stub_inv_groups: "stub_inv s \<Longrightarrow> stub_inv (snd (load_groups py_str a g gs s))"
proof (induction gs arbitrary: s)
  case (Cons x gs)
  have "stub_inv (snd (load_group py_str a g x s))"
    using Cons.prems stub_inv_stubs by (auto simp: load_group_def split: sum.splits)
  with Cons.IH show ?case by (auto split: prod.splits sum.splits)
qed simp

lemma stub_inv_agents: "stub_inv s \<Longrightarrow> stub_inv (snd (load_agents py_str g d s))"
proof (induction d arbitrary: s)
  case (Cons x d)
  obtain a al where x: "x = (a, al)" by (cases x)
  show ?case
  proof (cases "bind_res (json_get_or al ''instances'' (JList [])) list_of_json")
    case (Inl e)
    with Cons.prems show ?thesis by (simp add: x)
  next
    case (Inr groups)
    obtain r s' where lg: "load_groups py_str a g groups s = (r, s')" by fastforce
    with stub_inv_groups [OF Cons.prems, of py_str a g groups] have "stub_inv s'" by simp
    with Cons.IH Inr lg show ?thesis by (cases r) (simp_all add: x)
  qed
qed simp

lemma stub_inv_lookup:
  assumes "stub_inv s" and "set_order ord"
  shows "get_instances_for_agent ord a s = Inr []"
proof -
  let ?ids = "ids_of (im_agent_instances s) a"
  have o0: "ord [] = []" using assms(2) by (metis mset_zero_iff set_order_def)
  have so: "set (ord ?ids) = set ?ids" using assms(2) by (metis set_mset_mset set_order_def)
  have dom: "\<forall>i \<in> set (ord ?ids). map_of (im_instances s) i \<noteq> None"
    unfolding so using assms(1) by (auto simp: stub_inv_def)
  have "\<forall>i \<in> set (ord ?ids). \<not> is_ready (the (map_of (im_instances s) i))"
    using dom assms(1) unfolding stub_inv_def by (metis option.collapse)
  then show ?thesis
    unfolding get_instances_for_agent_ids [of ord, OF o0] ready_infos_ok [OF dom]
    by (auto simp: filter_empty_conv)
qed

section \<open>Properties\<close>

text \<open>
  C5. In every reachable controller, whatever the instances answer and in whatever order
  registrations, queries, executions and completions are interleaved, a stored query has
  the id it is stored under, its executed set is exactly its finished nodes, and it is
  marked completed only when every node of its graph is finished.
\<close>

theorem completed_queries_are_finished:
  assumes "ctl_reach c" and "get_query qid c = Some st"
  shows "qs_query_id st = qid
    \<and> d_excuted (q_dag (qs_query st)) = {k. node_state (q_dag (qs_query st)) k = Some FINISHED}
    \<and> (if qs_completed st
       then fst ` set (d_nodes (q_dag (qs_query st)))
              \<subseteq> {k. node_state (q_dag (qs_query st)) k = Some FINISHED} else True)"
proof -
  have "qs_ok qid st" using ctl_reach_ok [OF assms(1)] assms(2) by (simp add: ctl_ok_def get_query_def)
  then show ?thesis using dag_ok_completed [of "q_dag (qs_query st)"] by (auto simp: qs_ok_def dag_ok_def)
qed

definition example_ctl :: ctl where
  "example_ctl = snd (create_query (\<lambda>i. 5) (Some 7) example_deps example_nodes ''wd'' ctl_new)"

lemma example_ctl_reach: "ctl_reach example_ctl"
  unfolding example_ctl_def by (intro ctl_query ctl_start)

theorem completed_queries_are_finished_witness:
  "qs_query_id (the (get_query 7 example_ctl)) = 7
    \<and> d_excuted (q_dag (qs_query (the (get_query 7 example_ctl))))
        = {k. node_state (q_dag (qs_query (the (get_query 7 example_ctl)))) k = Some FINISHED}
    \<and> (if qs_completed (the (get_query 7 example_ctl))
       then fst ` set (d_nodes (q_dag (qs_query (the (get_query 7 example_ctl)))))
         \<subseteq> {k. node_state (q_dag (qs_query (the (get_query 7 example_ctl)))) k = Some FINISHED} else True)"
proof -
  have "get_query 7 example_ctl = Some (the (get_query 7 example_ctl))" by code_simp
  from completed_queries_are_finished [OF example_ctl_reach this] show ?thesis .
qed

text \<open>
  A completion for a query the controller does not know is answered with 404 and
  changes nothing; a completion that reports a failure only records the error: no graph is
  advanced, no scheduler, instance or other query is touched.
\<close>

theorem node_complete_error_paths:
  "(get_query (cp_query_id r) c = None \<longrightarrow>
      handle_node_complete H py_str menv env now clk r c = (Inl (HTTPException 404), c))
    \<and> (\<forall>st. get_query (cp_query_id r) c = Some st \<and> \<not> cp_success r \<longrightarrow>
      handle_node_complete H py_str menv env now clk r c =
        (Inr (), c\<lparr>ct_queries := AList.update (cp_query_id r) (st\<lparr>qs_error := cp_error r\<rparr>) (ct_queries c)\<rparr>))"
  by (auto simp: handle_node_complete_def get_query_def upd_query_def)

definition example_completion :: "int \<Rightarrow> bool \<Rightarrow> completion" where
  "example_completion qid ok = \<lparr>cp_instance_id = None, cp_query_id = qid, cp_invocation_id = 0, cp_repeat = 0,
     cp_agent_id = ''coder'', cp_keep_cache_in_gpu = False, cp_free_cache = True, cp_success = ok,
     cp_error = JStr ''oom'', cp_num_input_tokens = None, cp_num_output_tokens = None,
     cp_input_token_ids = None, cp_output_token_ids = None\<rparr>"

definition example_env :: dispatch_env where
  "example_env = \<lparr>de_ord = rev, de_fetch = example_fetch_exact, de_post = (\<lambda>u p. None),
     de_im_fetched = example_im3, de_im_dispatch = example_im3\<rparr>"

theorem node_complete_error_paths_witness:
  "handle_node_complete (\<lambda>_. 5) (\<lambda>_. []) example_env (\<lambda>_. example_env) 0 (\<lambda>_. 0) (example_completion 3 True) example_ctl
     = (Inl (HTTPException 404), example_ctl)
   \<and> handle_node_complete (\<lambda>_. 5) (\<lambda>_. []) example_env (\<lambda>_. example_env) 0 (\<lambda>_. 0) (example_completion 7 False) example_ctl
     = (Inr (), example_ctl\<lparr>ct_queries := AList.update 7
          ((the (get_query 7 example_ctl))\<lparr>qs_error := JStr ''oom''\<rparr>) (ct_queries example_ctl)\<rparr>)"
proof -
  note T = node_complete_error_paths [where H = "\<lambda>_. 5" and py_str = "\<lambda>_. []" and menv = example_env
      and env = "\<lambda>_. example_env" and now = 0 and clk = "\<lambda>_. 0" and c = example_ctl]
  have q: "cp_query_id (example_completion x b) = x" "cp_success (example_completion x b) = b"
    "cp_error (example_completion x b) = JStr ''oom''" for x b
    by (simp_all add: example_completion_def)
  have "get_query 3 example_ctl = None" by code_simp
  moreover have "get_query 7 example_ctl = Some (the (get_query 7 example_ctl))" by code_simp
  ultimately show ?thesis
    using T [of "example_completion 3 True"] T [of "example_completion 7 False"] unfolding q by blast
qed

text \<open>
  The instances pre-registered from an allocation file are placeholders: whatever the
  file holds, right after loading it no agent has a ready instance, so nothing is routed to
  a stub before the real instance has registered.
\<close>

theorem allocation_stubs_not_routable:
  assumes "set_order ord"
  shows "get_instances_for_agent ord a (ct_instance_manager (snd (load_allocation py_str data ctl_new))) = Inr []"
proof (rule stub_inv_lookup [OF _ assms])
  have "stub_inv im_new" by (simp add: stub_inv_def im_new_def ids_of_def)
  then show "stub_inv (ct_instance_manager (snd (load_allocation py_str data ctl_new)))"
    using stub_inv_agents
    by (auto simp: load_allocation_def ctl_new_def split: option.splits sum.splits prod.splits) (metis snd_conv)+
qed

definition example_allocation :: json where
  "example_allocation = JObj [(''allocation'', JObj [(''coder'', JObj [(''instances'', JList [JObj [
     (''context_lower'', JInt 0), (''context_upper'', JInt 4000), (''num_instances'', JInt 2)]])])])]"

theorem allocation_stubs_not_routable_witness:
  "get_instances_for_agent rev ''coder''
     (ct_instance_manager (snd (load_allocation (\<lambda>_. ''0'') (Some example_allocation) ctl_new))) = Inr []"
  by (rule allocation_stubs_not_routable [OF set_order_rev])

text \<open>
  A query submitted with the explicit id 0 is not stored under 0: the id is replaced by
  the clock in milliseconds, so a completion that names query 0 is answered with 404.
\<close>

theorem query_id_zero_is_replaced:
  assumes "create_query clk (Some 0) deps nodes wd ctl_new = (Inr qid, c)" and "1 \<le> clk 0"
  shows "qid = trunc_rat (clk 0 * 1000) \<and> qid \<noteq> 0
    \<and> handle_node_complete H py_str menv env now clk' (example_completion 0 True) c = (Inl (HTTPException 404), c)"
proof -
  obtain q where qid: "qid = trunc_rat (clk 0 * 1000)" and c: "c = add_query (query_state_new qid q (clk 3)) ctl_new"
    using assms(1) by (auto simp: create_query_def Let_def split: sum.splits)
  have "1 \<le> trunc_rat (clk 0 * 1000)" using assms(2) by (simp add: trunc_rat_def le_floor_iff)
  then have nz: "qid \<noteq> 0" using qid by simp
  have "get_query 0 c = None" using nz by (simp add: c get_query_def add_query_def ctl_new_def query_state_new_def)
  then show ?thesis using qid nz by (simp add: handle_node_complete_def example_completion_def)
qed

theorem query_id_zero_is_replaced_witness:
  "5000 = trunc_rat (5 * 1000) \<and> (5000 :: int) \<noteq> 0
    \<and> handle_node_complete (\<lambda>_. 5) (\<lambda>_. []) example_env (\<lambda>_. example_env) 0 (\<lambda>_. 0) (example_completion 0 True)
        (snd (create_query (\<lambda>i. 5) (Some 0) example_deps example_nodes ''wd'' ctl_new))
      = (Inl (HTTPException 404), snd (create_query (\<lambda>i. 5) (Some 0) example_deps example_nodes ''wd'' ctl_new))"
proof -
  have "create_query (\<lambda>i. 5) (Some 0) example_deps example_nodes ''wd'' ctl_new
      = (Inr 5000, snd (create_query (\<lambda>i. 5) (Some 0) example_deps example_nodes ''wd'' ctl_new))"
    by code_simp
  from query_id_zero_is_replaced [OF this] show ?thesis by simp
qed

end
