(* ===== verification/Orchestrator.thy ===== *)
theory Orchestrator
  imports Prelude
begin

text \<open>
  Assignment of GPUs to context ranges, \<open>src/coreflow/allocator/instance_orchestrator.py\<close>: a
  dynamic program that picks, for every number of groups, the partition of the context axis
  with the least total inverse throughput, and a greedy assignment of instances to the
  groups driven by a heap. Infinity in the cost table is \<open>None\<close>.
\<close>

section \<open>Data\<close>

type_synonym tp_cache = "(int \<times> int, pyfloat) dict"

text \<open>A group of a partition: lower index, upper index, throughput of one instance.\<close>

type_synonym segment = "int \<times> int \<times> pyfloat"

record assignment =
  as_throughput :: pyfloat
  as_instances :: "(int \<times> int \<times> int \<times> pyfloat) list"

definition assignment_empty :: assignment where
  "assignment_empty = \<lparr>as_throughput = 0, as_instances = []\<rparr>"

record orchestrator =
  or_context_step :: int
  or_max_context_length :: int
  or_dp_gpu_step :: int

definition or_max_context_idx :: "orchestrator \<Rightarrow> int res" where
  "or_max_context_idx o1 =
     (if or_context_step o1 = 0 then Inl ZeroDivisionError
      else Inr (or_max_context_length o1 div or_context_step o1))"

section \<open>The dynamic program\<close>

text \<open>The transitions that end at an index, in the order of the cache.\<close>

definition valid_transitions :: "tp_cache \<Rightarrow> int \<Rightarrow> (int \<times> pyfloat \<times> pyfloat) list" where
  "valid_transitions cache c =
     concat (map (\<lambda>((lo, hi), tp). if tp \<le> 0 then [] else if hi = c then [(lo, 1 / tp, tp)] else []) cache)"

text \<open>\<open>xs[i]\<close> with Python's negative indices.\<close>

definition py_nth :: "'a list \<Rightarrow> int \<Rightarrow> 'a res" where
  "py_nth xs i =
     (if 0 \<le> i \<and> i < int (length xs) then Inr (xs ! nat i)
      else if - int (length xs) \<le> i \<and> i < 0 then Inr (xs ! nat (int (length xs) + i))
      else Inl IndexError)"

text \<open>The innermost loop: cost and parent of one cell.\<close>

type_synonym cell = "(pyfloat \<times> int \<times> pyfloat) option"

fun relax :: "pyfloat option list \<Rightarrow> (int \<times> pyfloat \<times> pyfloat) list \<Rightarrow> cell \<Rightarrow> cell res" where
  "relax prev [] best = Inr best"
| "relax prev ((lo, cost, tp) # ts) best =
     bind_res (py_nth prev lo) (\<lambda>pc.
       case pc of
         None \<Rightarrow> relax prev ts best
       | Some p \<Rightarrow>
           relax prev ts
             (case best of
                None \<Rightarrow> Some (p + cost, lo, tp)
              | Some (b, _) \<Rightarrow> if p + cost < b then Some (p + cost, lo, tp) else best))"

text \<open>One row of the table; index 0 keeps its infinity.\<close>

definition dp_row :: "tp_cache \<Rightarrow> nat \<Rightarrow> pyfloat option list \<Rightarrow> cell list res" where
  "dp_row cache m prev =
     bind_res (map_res (\<lambda>c. relax prev (valid_transitions cache (int c)) None) [1..<Suc m])
       (\<lambda>cells. Inr (None # cells))"

fun dp_rows :: "tp_cache \<Rightarrow> nat \<Rightarrow> nat \<Rightarrow> pyfloat option list \<Rightarrow> cell list list res" where
  "dp_rows cache m 0 prev = Inr []"
| "dp_rows cache m (Suc k) prev =
     bind_res (dp_row cache m prev) (\<lambda>row.
     bind_res (dp_rows cache m k (map (map_option fst) row)) (\<lambda>rows. Inr (row # rows)))"

definition dp_start :: "nat \<Rightarrow> pyfloat option list" where
  "dp_start m = Some 0 # replicate m None"

text \<open>\<open>parent.get((groups, context))\<close>: only cells reached by the loops have one.\<close>

definition parent_of :: "cell list list \<Rightarrow> nat \<Rightarrow> int \<Rightarrow> (int \<times> pyfloat) option" where
  "parent_of rows k c =
     (if 1 \<le> k \<and> k \<le> length rows \<and> 0 \<le> c \<and> c < int (length (rows ! (k - 1)))
      then map_option snd (rows ! (k - 1) ! nat c) else None)"

text \<open>The backward walk, collecting the segments; the result is in increasing order.\<close>

fun walk_back :: "cell list list \<Rightarrow> nat \<Rightarrow> int \<Rightarrow> segment list \<Rightarrow> segment list" where
  "walk_back rows 0 c acc = (if c \<noteq> 0 then [] else acc)"
| "walk_back rows (Suc k) c acc =
     (case parent_of rows (Suc k) c of
        None \<Rightarrow> []
      | Some (p, tp) \<Rightarrow> walk_back rows k p ((p, c, tp) # acc))"

definition reconstruct_scheme :: "cell list list \<Rightarrow> nat \<Rightarrow> int \<Rightarrow> segment list" where
  "reconstruct_scheme rows k c = walk_back rows k c []"

fun collect_plans :: "cell list list \<Rightarrow> nat \<Rightarrow> nat list \<Rightarrow> (nat, segment list) dict" where
  "collect_plans rows m [] = []"
| "collect_plans rows m (k # ks) =
     (if rows ! (k - 1) ! m = None then collect_plans rows m ks
      else (let scheme = reconstruct_scheme rows k (int m)
            in if scheme = [] then collect_plans rows m ks else (k, scheme) # collect_plans rows m ks))"

text \<open>
  A negative maximal index makes the first row empty, and writing \<open>dp[0][0]\<close> raises; so does
  an empty table, when the number of groups is negative.
\<close>

definition build_partition_plans ::
  "orchestrator \<Rightarrow> tp_cache \<Rightarrow> int \<Rightarrow> (nat, segment list) dict res" where
  "build_partition_plans o1 cache max_groups =
     bind_res (or_max_context_idx o1) (\<lambda>mi.
       if max_groups < 0 \<or> mi < 0 then Inl IndexError
       else
         bind_res (dp_rows cache (nat mi) (nat max_groups) (dp_start (nat mi))) (\<lambda>rows.
           Inr (collect_plans rows (nat mi) [1..<Suc (nat max_groups)])))"

section \<open>The greedy assignment\<close>

fun greedy_loop ::
  "segment list \<Rightarrow> nat \<Rightarrow> nat list \<Rightarrow> (pyfloat \<times> nat) list \<Rightarrow> nat list" where
  "greedy_loop scheme 0 counts heap = counts"
| "greedy_loop scheme (Suc n) counts heap =
     (case heap_pop heap of
        None \<Rightarrow> counts
      | Some ((v, i), h) \<Rightarrow>
          (let counts' = counts[i := counts ! i + 1]
           in greedy_loop scheme n counts' (heap_push (of_nat (counts' ! i) * snd (snd (scheme ! i)), i) h)))"

definition greedy_counts :: "segment list \<Rightarrow> nat \<Rightarrow> nat list" where
  "greedy_counts scheme extra =
     greedy_loop scheme extra (replicate (length scheme) 1)
       (map (\<lambda>i. (snd (snd (scheme ! i)), i)) [0..<length scheme])"

text \<open>\<open>heappop\<close> of an empty heap raises, as does \<open>min\<close> of an empty sequence: both need an empty
  scheme, which the caller never passes.\<close>

definition allocate_greedily :: "orchestrator \<Rightarrow> segment list \<Rightarrow> int \<Rightarrow> int \<Rightarrow> assignment res" where
  "allocate_greedily o1 scheme total_gpus gpu_step =
     (if gpu_step = 0 then Inl ZeroDivisionError
      else
        (let n = length scheme; total = total_gpus div gpu_step
         in if total < int n then Inr assignment_empty
            else if n = 0 then (if total = 0 then Inl ValueError else Inl IndexError)
            else
              (let counts = greedy_counts scheme (nat (total - int n))
               in Inr \<lparr>as_throughput = Min (set (map (\<lambda>i. of_nat (counts ! i) * snd (snd (scheme ! i))) [0..<n])),
                       as_instances = map (\<lambda>i. (int (counts ! i) * gpu_step,
                            fst (scheme ! i) * or_context_step o1,
                            fst (snd (scheme ! i)) * or_context_step o1,
                            snd (snd (scheme ! i)))) [0..<n]\<rparr>)))"

section \<open>All budgets\<close>

fun best_groups ::
  "orchestrator \<Rightarrow> (nat, segment list) dict \<Rightarrow> int \<Rightarrow> int list \<Rightarrow> assignment \<Rightarrow> assignment res" where
  "best_groups o1 plans gpus [] best = Inr best"
| "best_groups o1 plans gpus (k # ks) best =
     (if or_dp_gpu_step o1 = 0 then Inl ZeroDivisionError
      else if gpus div or_dp_gpu_step o1 < k then best_groups o1 plans gpus ks best
      else (case (if k < 0 then None else map_of plans (nat k)) of
              None \<Rightarrow> best_groups o1 plans gpus ks best
            | Some scheme \<Rightarrow>
                if scheme = [] then best_groups o1 plans gpus ks best
                else
                  bind_res (allocate_greedily o1 scheme gpus (or_dp_gpu_step o1)) (\<lambda>a.
                    best_groups o1 plans gpus ks (if as_throughput best < as_throughput a then a else best))))"

definition solve :: "orchestrator \<Rightarrow> int \<Rightarrow> tp_cache \<Rightarrow> int \<Rightarrow> int \<Rightarrow> (int, assignment) dict res" where
  "solve o1 total_gpus cache max_groups min_groups =
     bind_res (build_partition_plans o1 cache max_groups) (\<lambda>plans.
       map_res (\<lambda>g.
         if or_dp_gpu_step o1 = 0 then Inl ZeroDivisionError
         else map_sum id (Pair g) (best_groups o1 plans g [min_groups..max_groups] assignment_empty))
         [0..total_gpus])"

section \<open>Partitions and their cost\<close>

text \<open>A chain of segments of the cache, each ending at a positive index.\<close>

fun is_chain :: "tp_cache \<Rightarrow> nat \<Rightarrow> int \<Rightarrow> segment list \<Rightarrow> int \<Rightarrow> bool" where
  "is_chain cache m a [] b = (a = b)"
| "is_chain cache m a ((lo, hi, tp) # ss) b =
     (lo = a \<and> 1 \<le> hi \<and> hi \<le> int m \<and> 0 < tp \<and> ((lo, hi), tp) \<in> set cache \<and> is_chain cache m hi ss b)"

definition inverse_cost :: "segment list \<Rightarrow> pyfloat" where
  "inverse_cost ss = sum_list (map (\<lambda>(lo, hi, tp). 1 / tp) ss)"

lemma is_chain_snoc:
  "is_chain cache m a (ss @ [(lo, hi, tp)]) b \<longleftrightarrow>
     is_chain cache m a ss lo \<and> b = hi \<and> 1 \<le> hi \<and> hi \<le> int m \<and> 0 < tp \<and> ((lo, hi), tp) \<in> set cache"
  by (induction ss arbitrary: a) auto

lemma inverse_cost_snoc [simp]: "inverse_cost (ss @ [(lo, hi, tp)]) = inverse_cost ss + 1 / tp"
  by (simp add: inverse_cost_def)

lemma inverse_cost_Nil [simp]: "inverse_cost [] = 0"
  by (simp add: inverse_cost_def)

text \<open>The chains with a given number of segments from 0 to an index.\<close>

definition seg_chains :: "tp_cache \<Rightarrow> nat \<Rightarrow> nat \<Rightarrow> int \<Rightarrow> segment list set" where
  "seg_chains cache m k c = {ss. is_chain cache m 0 ss c \<and> length ss = k}"

lemma seg_chains_0: "seg_chains cache m 0 c = (if c = 0 then {[]} else {})"
  by (auto simp: seg_chains_def)

lemma seg_chains_Suc:
  "ss \<in> seg_chains cache m (Suc k) c \<longleftrightarrow>
     (\<exists>s lo tp. ss = s @ [(lo, c, tp)] \<and> s \<in> seg_chains cache m k lo \<and> 1 \<le> c \<and> c \<le> int m \<and> 0 < tp
        \<and> ((lo, c), tp) \<in> set cache)"
proof
  assume a: "ss \<in> seg_chains cache m (Suc k) c"
  then obtain s lo hi tp where ss: "ss = s @ [(lo, hi, tp)]"
    unfolding seg_chains_def by (cases ss rule: rev_cases) auto
  with a show "\<exists>s lo tp. ss = s @ [(lo, c, tp)] \<and> s \<in> seg_chains cache m k lo \<and> 1 \<le> c \<and> c \<le> int m \<and> 0 < tp
        \<and> ((lo, c), tp) \<in> set cache"
    by (auto simp: seg_chains_def is_chain_snoc)
qed (auto simp: seg_chains_def is_chain_snoc)

text \<open>The indices of the usable cache entries are in the table.\<close>

definition cache_ok :: "tp_cache \<Rightarrow> nat \<Rightarrow> bool" where
  "cache_ok cache m \<longleftrightarrow> (\<forall>((lo, hi), tp) \<in> set cache. 0 < tp \<longrightarrow> 0 \<le> lo \<and> lo \<le> int m)"

text \<open>A row of costs holds, for every index, the least cost of the chains that end there.\<close>

definition row_spec :: "tp_cache \<Rightarrow> nat \<Rightarrow> nat \<Rightarrow> pyfloat option list \<Rightarrow> bool" where
  "row_spec cache m k r \<longleftrightarrow> length r = Suc m \<and> (\<forall>c \<le> m.
     (case r ! c of
        None \<Rightarrow> seg_chains cache m k (int c) = {}
      | Some v \<Rightarrow> (\<exists>s \<in> seg_chains cache m k (int c). inverse_cost s = v)
           \<and> (\<forall>s \<in> seg_chains cache m k (int c). v \<le> inverse_cost s)))"

lemma row_spec_start: "row_spec cache m 0 (dp_start m)"
  by (auto simp: row_spec_def dp_start_def seg_chains_0 nth_Cons split: nat.splits option.splits)

lemma set_valid_transitions:
  "(lo, cost, tp) \<in> set (valid_transitions cache c) \<longleftrightarrow> ((lo, c), tp) \<in> set cache \<and> 0 < tp \<and> cost = 1 / tp"
  by (force simp: valid_transitions_def split: if_splits)

section \<open>One cell\<close>

text \<open>The candidates of a cell: reachable predecessors with their total cost.\<close>

definition candidates :: "pyfloat option list \<Rightarrow> (int \<times> pyfloat \<times> pyfloat) list \<Rightarrow> (pyfloat \<times> int \<times> pyfloat) set" where
  "candidates prev ts = {(p + cost, lo, tp) | p cost lo tp. (lo, cost, tp) \<in> set ts \<and> py_nth prev lo = Inr (Some p)}"

lemma candidates_Nil [simp]: "candidates prev [] = {}"
  by (simp add: candidates_def)

lemma candidates_Cons:
  "candidates prev ((lo, cost, tp) # ts) =
     (case py_nth prev lo of Inr (Some p) \<Rightarrow> {(p + cost, lo, tp)} | _ \<Rightarrow> {}) \<union> candidates prev ts"
  by (auto simp: candidates_def split: sum.splits option.splits)

definition best_cell :: "(pyfloat \<times> int \<times> pyfloat) set \<Rightarrow> cell \<Rightarrow> bool" where
  "best_cell X b = (case b of None \<Rightarrow> X = {} | Some x \<Rightarrow> x \<in> X \<and> (\<forall>y \<in> X. fst x \<le> fst y))"

lemma relax_best:
  "relax prev ts best = Inr b \<Longrightarrow> best_cell X best \<Longrightarrow> best_cell (X \<union> candidates prev ts) b"
proof (induction prev ts best arbitrary: X rule: relax.induct)
  case (2 prev lo cost tp ts best)
  from "2.prems"(1) obtain pc where pc: "py_nth prev lo = Inr pc" by (auto simp: bind_res_Inr_iff)
  show ?case
  proof (cases pc)
    case None
    with 2 pc show ?thesis by (simp add: candidates_Cons)
  next
    case (Some p)
    let ?new = "case best of None \<Rightarrow> Some (p + cost, lo, tp)
              | Some (b, _) \<Rightarrow> if p + cost < b then Some (p + cost, lo, tp) else best"
    have "best_cell (X \<union> {(p + cost, lo, tp)}) ?new"
      using "2.prems"(2) by (force simp: best_cell_def split: option.splits)
    moreover have "relax prev ts ?new = Inr b" using "2.prems"(1) pc Some by simp
    ultimately have "best_cell (X \<union> {(p + cost, lo, tp)} \<union> candidates prev ts) b"
      using "2.IH"(2) pc Some by blast
    then show ?thesis using pc Some by (simp add: candidates_Cons Un_assoc)
  qed
qed simp

lemma py_nth_in: "0 \<le> i \<Longrightarrow> i < int (length xs) \<Longrightarrow> py_nth xs i = Inr (xs ! nat i)"
  by (simp add: py_nth_def)

lemma relax_total:
  "\<forall>(lo, cost, tp) \<in> set ts. 0 \<le> lo \<and> lo < int (length prev) \<Longrightarrow> \<exists>b. relax prev ts best = Inr b"
  by (induction prev ts best rule: relax.induct) (auto simp: py_nth_in split: option.splits)

text \<open>The cell of an index: its cost and a last segment that attains it.\<close>

definition cell_spec :: "tp_cache \<Rightarrow> nat \<Rightarrow> nat \<Rightarrow> pyfloat option list \<Rightarrow> nat \<Rightarrow> cell \<Rightarrow> bool" where
  "cell_spec cache m k prev c b =
     (case b of
        None \<Rightarrow> seg_chains cache m (Suc k) (int c) = {}
      | Some (v, lo, tp) \<Rightarrow>
          (\<forall>s \<in> seg_chains cache m (Suc k) (int c). v \<le> inverse_cost s)
          \<and> 1 \<le> c \<and> c \<le> m \<and> 0 < tp \<and> ((lo, int c), tp) \<in> set cache
          \<and> 0 \<le> lo \<and> lo \<le> int m \<and> prev ! nat lo = Some (v - 1 / tp))"

lemma relax_cell:
  assumes ok: "cache_ok cache m" and row: "row_spec cache m k prev" and c: "1 \<le> c" "c \<le> m"
    and r: "relax prev (valid_transitions cache (int c)) None = Inr b"
  shows "cell_spec cache m k prev c b"
proof -
  have len: "length prev = Suc m" using row by (simp add: row_spec_def)
  have lo: "0 \<le> lo \<and> lo \<le> int m" if "((lo, hi), tp) \<in> set cache" "0 < tp" for lo hi tp
    using ok that by (fastforce simp: cache_ok_def)
  have cand: "(v, lo, tp) \<in> candidates prev (valid_transitions cache (int c)) \<longleftrightarrow>
      ((lo, int c), tp) \<in> set cache \<and> 0 < tp \<and> prev ! nat lo = Some (v - 1 / tp)" for v lo tp
    using lo [of lo "int c" tp] len by (auto simp: candidates_def set_valid_transitions py_nth_def)
  have best: "best_cell (candidates prev (valid_transitions cache (int c))) b"
    using relax_best [OF r, of "{}"] by (simp add: best_cell_def)
  have chain_cand: "\<exists>v lo tp. (v, lo, tp) \<in> candidates prev (valid_transitions cache (int c)) \<and> v \<le> inverse_cost s"
    if "s \<in> seg_chains cache m (Suc k) (int c)" for s
  proof -
    from that obtain s' lo tp where s: "s = s' @ [(lo, int c, tp)]" "s' \<in> seg_chains cache m k lo" "0 < tp"
      "((lo, int c), tp) \<in> set cache" unfolding seg_chains_Suc by blast
    have "nat lo \<le> m" "int (nat lo) = lo" using lo [OF s(4,3)] by auto
    with row s(2) obtain p where "prev ! nat lo = Some p" "p \<le> inverse_cost s'"
      unfolding row_spec_def by (force split: option.splits)
    with s have "(p + 1 / tp, lo, tp) \<in> candidates prev (valid_transitions cache (int c))"
      "p + 1 / tp \<le> inverse_cost s" by (simp_all add: cand)
    then show ?thesis by blast
  qed
  show ?thesis
  proof (cases b)
    case None
    with best chain_cand show ?thesis by (auto simp: cell_spec_def best_cell_def)
  next
    case (Some x)
    obtain v l tp where x: "x = (v, l, tp)" by (cases x)
    have "v \<le> inverse_cost s" if "s \<in> seg_chains cache m (Suc k) (int c)" for s
      using chain_cand [OF that] best Some x by (force simp: best_cell_def)
    moreover have "(v, l, tp) \<in> candidates prev (valid_transitions cache (int c))"
      using best Some x by (simp add: best_cell_def)
    ultimately show ?thesis using c Some x lo by (auto simp: cell_spec_def cand)
  qed
qed

section \<open>The rows and the backward walk\<close>

lemma dp_row_nth:
  assumes "dp_row cache m prev = Inr row"
  shows "length row = Suc m" and "row ! 0 = None"
    and "1 \<le> c \<Longrightarrow> c \<le> m \<Longrightarrow> relax prev (valid_transitions cache (int c)) None = Inr (row ! c)"
proof -
  from assms obtain cells where cells: "map_res (\<lambda>c. relax prev (valid_transitions cache (int c)) None) [1..<Suc m] = Inr cells"
    and row: "row = None # cells" by (auto simp: dp_row_def bind_res_Inr_iff)
  show "length row = Suc m" using map_res_length [OF cells] by (simp add: row)
  show "row ! 0 = None" by (simp add: row)
  show "relax prev (valid_transitions cache (int c)) None = Inr (row ! c)" if "1 \<le> c" "c \<le> m"
    using map_res_nth [OF cells, of "c - 1"] that by (simp add: row nth_Cons' del: upt_Suc)
qed

lemma dp_row_spec:
  assumes ok: "cache_ok cache m" and row: "row_spec cache m k prev" and r: "dp_row cache m prev = Inr cells"
    and "c \<le> m"
  shows "cell_spec cache m k prev c (cells ! c)"
proof (cases c)
  case 0
  then show ?thesis using dp_row_nth(2) [OF r] by (auto simp: cell_spec_def seg_chains_Suc)
next
  case (Suc c')
  then show ?thesis using relax_cell [OF ok row _ assms(4)] dp_row_nth(3) [OF r _ assms(4)] by simp
qed

lemma cell_spec_row:
  assumes row: "row_spec cache m k prev" and len: "length cells = Suc m"
    and cells: "\<And>c. c \<le> m \<Longrightarrow> cell_spec cache m k prev c (cells ! c)"
  shows "row_spec cache m (Suc k) (map (map_option fst) cells)"
  unfolding row_spec_def
proof (intro conjI allI impI)
  show "length (map (map_option fst) cells) = Suc m" using len by simp
  fix c assume c: "c \<le> m"
  show "case map (map_option fst) cells ! c of
        None \<Rightarrow> seg_chains cache m (Suc k) (int c) = {}
      | Some v \<Rightarrow> (\<exists>s \<in> seg_chains cache m (Suc k) (int c). inverse_cost s = v)
           \<and> (\<forall>s \<in> seg_chains cache m (Suc k) (int c). v \<le> inverse_cost s)"
  proof (cases "cells ! c")
    case None
    with cells [OF c] c len show ?thesis by (simp add: cell_spec_def)
  next
    case (Some x)
    obtain v lo tp where x: "x = (v, lo, tp)" by (cases x)
    from cells [OF c] Some x have le: "\<forall>s \<in> seg_chains cache m (Suc k) (int c). v \<le> inverse_cost s"
      and e: "1 \<le> c" "0 < tp" "((lo, int c), tp) \<in> set cache" "0 \<le> lo" "lo \<le> int m"
      and p: "prev ! nat lo = Some (v - 1 / tp)" by (auto simp: cell_spec_def)
    have "nat lo \<le> m" "int (nat lo) = lo" using e by auto
    with row [unfolded row_spec_def, THEN conjunct2, rule_format, of "nat lo"] p obtain s where
      "s \<in> seg_chains cache m k lo" "inverse_cost s = v - 1 / tp" by auto
    with e c have "s @ [(lo, int c, tp)] \<in> seg_chains cache m (Suc k) (int c)" "inverse_cost (s @ [(lo, int c, tp)]) = v"
      by (auto simp: seg_chains_Suc)
    then have "\<exists>s \<in> seg_chains cache m (Suc k) (int c). inverse_cost s = v" by blast
    with le Some x c len show ?thesis by simp
  qed
qed

text \<open>Every row of the table is correct.\<close>

definition row_costs :: "nat \<Rightarrow> cell list list \<Rightarrow> nat \<Rightarrow> pyfloat option list" where
  "row_costs m rows k = (if k = 0 then dp_start m else map (map_option fst) (rows ! (k - 1)))"

lemma dp_rows_nth:
  "dp_rows cache m K prev = Inr rows \<Longrightarrow> length rows = K \<and> (\<forall>j < K.
     dp_row cache m (if j = 0 then prev else map (map_option fst) (rows ! (j - 1))) = Inr (rows ! j))"
proof (induction K arbitrary: prev rows)
  case (Suc K)
  then obtain row rows' where r: "dp_row cache m prev = Inr row"
    and rs: "dp_rows cache m K (map (map_option fst) row) = Inr rows'" and rows: "rows = row # rows'"
    by (auto simp: bind_res_Inr_iff)
  note ih = Suc.IH [OF rs]
  have "dp_row cache m (if j = 0 then prev else map (map_option fst) (rows ! (j - 1))) = Inr (rows ! j)"
    if "j < Suc K" for j
  proof (cases j)
    case 0
    with r rows show ?thesis by simp
  next
    case (Suc i)
    with ih that rows show ?thesis by (cases i) auto
  qed
  with ih rows show ?case by simp
qed simp

lemma table_correct:
  assumes ok: "cache_ok cache m" and rows: "dp_rows cache m K (dp_start m) = Inr rows"
  shows "k \<le> K \<Longrightarrow> row_spec cache m k (row_costs m rows k)"
    and "k < K \<Longrightarrow> c \<le> m \<Longrightarrow> length (rows ! k) = Suc m \<and> cell_spec cache m k (row_costs m rows k) c (rows ! k ! c)"
proof -
  have nth: "dp_row cache m (row_costs m rows j) = Inr (rows ! j)" if "j < K" for j
    using dp_rows_nth [OF rows] that by (simp add: row_costs_def)
  have spec: "row_spec cache m k (row_costs m rows k)" if "k \<le> K" for k
    using that
  proof (induction k)
    case 0
    then show ?case by (simp add: row_costs_def row_spec_start)
  next
    case (Suc k)
    then have row: "row_spec cache m k (row_costs m rows k)" and r: "dp_row cache m (row_costs m rows k) = Inr (rows ! k)"
      using nth by simp_all
    from cell_spec_row [OF row dp_row_nth(1) [OF r]] dp_row_spec [OF ok row r]
    show ?case by (simp add: row_costs_def)
  qed
  then show "k \<le> K \<Longrightarrow> row_spec cache m k (row_costs m rows k)" .
  show "k < K \<Longrightarrow> c \<le> m \<Longrightarrow> length (rows ! k) = Suc m \<and> cell_spec cache m k (row_costs m rows k) c (rows ! k ! c)"
    using dp_row_spec [OF ok spec nth] dp_row_nth(1) [OF nth] by simp
qed

lemma dp_rows_total:
  assumes ok: "cache_ok cache m"
  shows "length prev = Suc m \<Longrightarrow> \<exists>rows. dp_rows cache m K prev = Inr rows"
proof (induction K arbitrary: prev)
  case (Suc K)
  have "\<exists>b. relax prev (valid_transitions cache (int c)) None = Inr b" for c
    using ok Suc.prems by (intro relax_total) (force simp: set_valid_transitions cache_ok_def)
  then have "\<exists>cells. map_res (\<lambda>c. relax prev (valid_transitions cache (int c)) None) xs = Inr cells" for xs
    by (intro map_res_total)
  then obtain cells where "map_res (\<lambda>c. relax prev (valid_transitions cache (int c)) None) [1..<Suc m] = Inr cells"
    by blast
  then have row: "dp_row cache m prev = Inr (None # cells)" by (simp add: dp_row_def)
  then have "length (map (map_option fst) (None # cells)) = Suc m" using dp_row_nth(1) by (metis length_map)
  from Suc.IH [OF this] row show ?case by auto
qed simp

lemma walk_back_chain:
  assumes ok: "cache_ok cache m" and rows: "dp_rows cache m K (dp_start m) = Inr rows"
  shows "k \<le> K \<Longrightarrow> c \<le> m \<Longrightarrow> row_costs m rows k ! c = Some v \<Longrightarrow>
    \<exists>ss. walk_back rows k (int c) acc = ss @ acc \<and> ss \<in> seg_chains cache m k (int c) \<and> inverse_cost ss = v"
proof (induction k arbitrary: c v acc)
  case 0
  then have "c = 0" "v = 0" by (auto simp: row_costs_def dp_start_def nth_Cons split: nat.splits)
  then show ?case by (simp add: seg_chains_0)
next
  case (Suc k)
  have kK: "k < K" using Suc.prems by simp
  from table_correct(2) [OF ok rows kK Suc.prems(2)]
  have len: "length (rows ! k) = Suc m" and cell: "cell_spec cache m k (row_costs m rows k) c (rows ! k ! c)" by auto
  from Suc.prems(2,3) len obtain lo tp where e: "rows ! k ! c = Some (v, lo, tp)"
    by (auto simp: row_costs_def)
  from cell e have lo: "0 \<le> lo" "lo \<le> int m" and p: "row_costs m rows k ! nat lo = Some (v - 1 / tp)"
    and seg: "1 \<le> c" "0 < tp" "((lo, int c), tp) \<in> set cache" by (auto simp: cell_spec_def)
  have "nat lo \<le> m" "int (nat lo) = lo" using lo by auto
  from Suc.IH [OF _ this(1) p, of "(lo, int c, tp) # acc"] this(2) kK obtain ss where
    ss: "walk_back rows k lo ((lo, int c, tp) # acc) = ss @ (lo, int c, tp) # acc"
    "ss \<in> seg_chains cache m k lo" "inverse_cost ss = v - 1 / tp" by auto
  have "parent_of rows (Suc k) (int c) = Some (lo, tp)"
    using e len kK Suc.prems(2) dp_rows_nth [OF rows] by (simp add: parent_of_def)
  then have "walk_back rows (Suc k) (int c) acc = (ss @ [(lo, int c, tp)]) @ acc" using ss(1) by simp
  moreover have "ss @ [(lo, int c, tp)] \<in> seg_chains cache m (Suc k) (int c)"
    using ss(2) seg Suc.prems(2) by (auto simp: seg_chains_Suc)
  moreover have "inverse_cost (ss @ [(lo, int c, tp)]) = v" using ss(3) by simp
  ultimately show ?case by blast
qed

lemma collect_plans_map_of:
  "distinct ks \<Longrightarrow> map_of (collect_plans rows m ks) k =
     (if k \<in> set ks \<and> rows ! (k - 1) ! m \<noteq> None \<and> reconstruct_scheme rows k (int m) \<noteq> []
      then Some (reconstruct_scheme rows k (int m)) else None)"
  by (induction ks) (auto simp: Let_def)

text \<open>
  The plan for a number of groups exists exactly when the cache has a partition with that
  many groups, and it is one of the least total inverse throughput.
\<close>

lemma plans_no_zero: "build_partition_plans o1 cache G = Inr plans \<Longrightarrow> map_of plans 0 = None"
  by (auto simp: build_partition_plans_def bind_res_Inr_iff collect_plans_map_of split: if_splits simp del: upt_Suc)

lemma plans_optimal:
  assumes ok: "cache_ok cache m" and rows: "dp_rows cache m K (dp_start m) = Inr rows" and k: "1 \<le> k" "k \<le> K"
  shows "case map_of (collect_plans rows m [1..<Suc K]) k of
      None \<Rightarrow> seg_chains cache m k (int m) = {}
    | Some ss \<Rightarrow> ss \<in> seg_chains cache m k (int m) \<and> (\<forall>s \<in> seg_chains cache m k (int m). inverse_cost ss \<le> inverse_cost s)"
proof -
  obtain k' where k': "k = Suc k'" using k(1) by (cases k) auto
  have len: "length (rows ! k') = Suc m" using table_correct(2) [OF ok rows, of k' m] k k' by simp
  have cost: "row_costs m rows k ! m = map_option fst (rows ! (k - 1) ! m)" using len k' by (simp add: row_costs_def)
  note spec = table_correct(1) [OF ok rows k(2), unfolded row_spec_def, THEN conjunct2, rule_format, of m]
  show ?thesis
  proof (cases "rows ! (k - 1) ! m")
    case None
    with spec cost show ?thesis by (auto simp: collect_plans_map_of)
  next
    case (Some x)
    then have v: "row_costs m rows k ! m = Some (fst x)" using cost by simp
    from walk_back_chain [OF ok rows k(2) _ v, of "[]"] obtain ss where
      ss: "reconstruct_scheme rows k (int m) = ss" "ss \<in> seg_chains cache m k (int m)" "inverse_cost ss = fst x"
      by (auto simp: reconstruct_scheme_def)
    have "ss \<noteq> []" using ss(2) k(1) by (auto simp: seg_chains_def)
    with ss Some k spec v show ?thesis by (simp add: collect_plans_map_of)
  qed
qed

section \<open>The greedy assignment is optimal\<close>

definition seg_tp :: "segment list \<Rightarrow> nat \<Rightarrow> pyfloat" where
  "seg_tp scheme i = snd (snd (scheme ! i))"

definition load_of :: "segment list \<Rightarrow> nat list \<Rightarrow> nat \<Rightarrow> pyfloat" where
  "load_of scheme counts i = of_nat (counts ! i) * seg_tp scheme i"

text \<open>
  No group with more than one instance could give one up without falling to or below the
  slowest group.
\<close>

definition greedy_inv :: "segment list \<Rightarrow> nat list \<Rightarrow> bool" where
  "greedy_inv scheme counts \<longleftrightarrow> length counts = length scheme \<and> (\<forall>i < length scheme. 1 \<le> counts ! i)
     \<and> (\<forall>i < length scheme. \<forall>j < length scheme. 2 \<le> counts ! i \<longrightarrow>
          of_nat (counts ! i - 1) * seg_tp scheme i \<le> load_of scheme counts j)"

definition heap_inv :: "segment list \<Rightarrow> nat list \<Rightarrow> (pyfloat \<times> nat) list \<Rightarrow> bool" where
  "heap_inv scheme counts heap \<longleftrightarrow>
     mset heap = image_mset (\<lambda>i. (load_of scheme counts i, i)) (mset_set {0..<length scheme})"

lemma heap_inv_pop:
  assumes inv: "heap_inv scheme counts heap" and pop: "heap_pop heap = Some ((v, i), h)"
    and len: "length counts = length scheme"
  shows "i < length scheme" and "v = load_of scheme counts i"
    and "j < length scheme \<Longrightarrow> load_of scheme counts i \<le> load_of scheme counts j"
    and "heap_inv scheme (counts[i := c]) (heap_push (of_nat c * seg_tp scheme i, i) h)"
proof -
  let ?n = "length scheme"
  have "(v, i) \<in># mset heap" by (rule lheap.pop_mem [OF pop])
  then have "(v, i) \<in># image_mset (\<lambda>i. (load_of scheme counts i, i)) (mset_set {0..<?n})"
    using inv by (simp only: heap_inv_def)
  then show i: "i < ?n" and v: "v = load_of scheme counts i" by auto
  show "load_of scheme counts i \<le> load_of scheme counts j" if "j < ?n"
  proof -
    have "(load_of scheme counts j, j) \<in># mset heap"
      using that inv unfolding heap_inv_def by (simp only: heap_inv_def) simp
    from lheap.pop_least [OF pop this] v show ?thesis by (auto simp: less_eq_prod_def)
  qed
  let ?f = "\<lambda>j. (load_of scheme counts j, j)" and ?f' = "\<lambda>j. (load_of scheme (counts[i := c]) j, j)"
  have U: "mset_set {0..<?n} = add_mset i (mset_set ({0..<?n} - {i}))"
    using i by (metis atLeastLessThan_iff finite_atLeastLessThan le0 mset_set.remove)
  have "mset h = image_mset ?f (mset_set ({0..<?n} - {i}))"
    using lheap.pop_elems [OF pop] inv v by (simp add: heap_inv_def U)
  also have "\<dots> = image_mset ?f' (mset_set ({0..<?n} - {i}))"
    by (rule image_mset_cong) (auto simp: load_of_def)
  finally have "mset (heap_push (of_nat c * seg_tp scheme i, i) h) = image_mset ?f' (mset_set {0..<?n})"
    using i len by (simp add: lheap.elems_push U load_of_def)
  then show "heap_inv scheme (counts[i := c]) (heap_push (of_nat c * seg_tp scheme i, i) h)"
    by (simp add: heap_inv_def)
qed

lemma greedy_inv_step:
  assumes inv: "greedy_inv scheme counts" and pos: "\<forall>i < length scheme. 0 < seg_tp scheme i"
    and i: "i < length scheme" and least: "\<And>j. j < length scheme \<Longrightarrow> load_of scheme counts i \<le> load_of scheme counts j"
  shows "greedy_inv scheme (counts[i := counts ! i + 1])"
proof -
  let ?c = "counts[i := counts ! i + 1]"
  have len: "length counts = length scheme" using inv by (simp add: greedy_inv_def)
  have mono: "load_of scheme counts j \<le> load_of scheme ?c j" if "j < length scheme" for j
  proof -
    have "of_nat (counts ! j) \<le> (of_nat (?c ! j) :: rat)"
      unfolding of_nat_le_iff using that len by (cases "j = i") simp_all
    moreover have "0 \<le> seg_tp scheme j" using pos that by (simp add: less_imp_le)
    ultimately show ?thesis unfolding load_of_def by (rule mult_right_mono)
  qed
  have "of_nat (?c ! a - 1) * seg_tp scheme a \<le> load_of scheme ?c b"
    if "a < length scheme" "b < length scheme" "2 \<le> ?c ! a" for a b
  proof (cases "a = i")
    case True
    then have "of_nat (?c ! a - 1) * seg_tp scheme a = load_of scheme counts i"
      using len i by (simp add: load_of_def)
    with least [OF that(2)] mono [OF that(2)] show ?thesis by simp
  next
    case False
    then have "of_nat (?c ! a - 1) * seg_tp scheme a \<le> load_of scheme counts b"
      using inv that by (simp add: greedy_inv_def)
    with mono [OF that(2)] show ?thesis by simp
  qed
  moreover have "1 \<le> ?c ! j" if "j < length scheme" for j
    using inv that len by (cases "j = i") (simp_all add: greedy_inv_def)
  ultimately show ?thesis using len by (simp add: greedy_inv_def)
qed

lemma greedy_loop_inv:
  assumes "greedy_inv scheme counts" and "heap_inv scheme counts heap" and "scheme \<noteq> []"
    and pos: "\<forall>i < length scheme. 0 < seg_tp scheme i"
  shows "greedy_inv scheme (greedy_loop scheme n counts heap)
    \<and> sum_list (greedy_loop scheme n counts heap) = sum_list counts + n"
  using assms(1,2)
proof (induction n arbitrary: counts heap)
  case (Suc n)
  have len: "length counts = length scheme" using Suc.prems(1) by (simp add: greedy_inv_def)
  have "mset heap \<noteq> {#}" using Suc.prems(2) assms(3) by (auto simp: heap_inv_def mset_set_empty_iff)
  from lheap.pop_progress [OF this] obtain v i h where pop: "heap_pop heap = Some ((v, i), h)" by auto
  note P = heap_inv_pop [OF Suc.prems(2) pop len]
  let ?c = "counts[i := counts ! i + 1]"
  have c: "?c ! i = counts ! i + 1" using P(1) len by simp
  have "greedy_inv scheme ?c" using greedy_inv_step [OF Suc.prems(1) pos P(1) P(3)] .
  moreover have "heap_inv scheme ?c (heap_push (of_nat (?c ! i) * snd (snd (scheme ! i)), i) h)"
    using P(4) [of "counts ! i + 1"] unfolding c seg_tp_def .
  ultimately have "greedy_inv scheme (greedy_loop scheme (Suc n) counts heap)
      \<and> sum_list (greedy_loop scheme (Suc n) counts heap) = sum_list ?c + n"
    using Suc.IH pop by (simp add: Let_def)
  then show ?case using sum_list_update_add [of i counts 1] P(1) len by simp
qed simp

lemma greedy_counts_inv:
  assumes "scheme \<noteq> []" and pos: "\<forall>i < length scheme. 0 < seg_tp scheme i"
  shows "greedy_inv scheme (greedy_counts scheme n)" and "sum_list (greedy_counts scheme n) = length scheme + n"
proof -
  let ?ones = "replicate (length scheme) 1"
  have g: "greedy_inv scheme ?ones" by (simp add: greedy_inv_def)
  have "heap_inv scheme ?ones (map (\<lambda>i. (snd (snd (scheme ! i)), i)) [0..<length scheme])"
    unfolding heap_inv_def mset_map mset_upt
    by (rule image_mset_cong) (simp add: load_of_def seg_tp_def)
  from greedy_loop_inv [OF g this assms, of n]
  show "greedy_inv scheme (greedy_counts scheme n)" and "sum_list (greedy_counts scheme n) = length scheme + n"
    by (simp_all add: greedy_counts_def)
qed

lemma sum_list_eq_smaller:
  fixes xs ys :: "nat list"
  assumes "length xs = length ys" "sum_list xs = sum_list ys" "j < length xs" "xs ! j < ys ! j"
  shows "\<exists>i < length xs. ys ! i < xs ! i"
proof (rule ccontr)
  assume "\<not> (\<exists>i < length xs. ys ! i < xs ! i)"
  then have le: "\<And>i. i < length xs \<Longrightarrow> xs ! i \<le> ys ! i" by (meson not_less)
  have "sum_list xs = (\<Sum>i < length xs. xs ! i)" "sum_list ys = (\<Sum>i < length xs. ys ! i)"
    using assms(1) by (simp_all add: sum_list_sum_nth atLeast0LessThan)
  moreover have "(\<Sum>i < length xs. xs ! i) < (\<Sum>i < length xs. ys ! i)"
    using le assms(3,4) by (intro sum_strict_mono_ex1) auto
  ultimately show False using assms(2) by simp
qed

text \<open>
  Any other distribution of the same number of instances has a group that is at most as
  fast as the slowest group of the greedy one.
\<close>

lemma greedy_inv_optimal:
  assumes inv: "greedy_inv scheme counts" and pos: "\<forall>i < length scheme. 0 < seg_tp scheme i"
    and other: "length ms = length scheme" "sum_list ms = sum_list counts" and j: "j < length scheme"
  shows "\<exists>i < length scheme. load_of scheme ms i \<le> load_of scheme counts j"
proof -
  have len: "length counts = length scheme" using inv by (simp add: greedy_inv_def)
  have scale: "of_nat a * seg_tp scheme i \<le> of_nat b * seg_tp scheme i" if "a \<le> b" "i < length scheme" for a b i
    using that pos by (intro mult_right_mono) (simp_all add: less_imp_le)
  show ?thesis
  proof (cases "ms ! j \<le> counts ! j")
    case True
    with scale [OF True j] j show ?thesis unfolding load_of_def by blast
  next
    case False
    then have "counts ! j < ms ! j" by simp
    from sum_list_eq_smaller [OF _ _ _ this] other len j obtain i where
      i: "i < length scheme" "ms ! i < counts ! i" by auto
    show ?thesis
    proof (cases "2 \<le> counts ! i")
      case True
      then have "of_nat (counts ! i - 1) * seg_tp scheme i \<le> load_of scheme counts j"
        using inv i(1) j by (simp add: greedy_inv_def)
      moreover have "of_nat (ms ! i) * seg_tp scheme i \<le> of_nat (counts ! i - 1) * seg_tp scheme i"
        using i by (intro scale) auto
      ultimately show ?thesis using i(1) unfolding load_of_def by (meson order_trans)
    next
      case False
      then have "ms ! i = 0" using i by simp
      moreover have "0 \<le> load_of scheme counts j" using pos j by (simp add: load_of_def less_imp_le)
      ultimately show ?thesis using i(1) by (auto simp: load_of_def)
    qed
  qed
qed

lemma partition_plans_total:
  assumes "or_max_context_idx o1 = Inr (int m)" and "cache_ok cache m" and "0 \<le> G"
  shows "\<exists>plans. build_partition_plans o1 cache G = Inr plans \<and> (\<forall>k \<in> {1..nat G}. case map_of plans k of
          None \<Rightarrow> seg_chains cache m k (int m) = {}
        | Some ss \<Rightarrow> ss \<in> seg_chains cache m k (int m)
            \<and> (\<forall>s \<in> seg_chains cache m k (int m). inverse_cost ss \<le> inverse_cost s))"
proof -
  have "length (dp_start m) = Suc m" by (simp add: dp_start_def)
  from dp_rows_total [OF assms(2) this] obtain rows where rows: "dp_rows cache m (nat G) (dp_start m) = Inr rows"
    by blast
  then have "build_partition_plans o1 cache G = Inr (collect_plans rows m [1..<Suc (nat G)])"
    using assms(1,3) by (simp add: build_partition_plans_def del: upt_Suc)
  moreover have "case map_of (collect_plans rows m [1..<Suc (nat G)]) k of
          None \<Rightarrow> seg_chains cache m k (int m) = {}
        | Some ss \<Rightarrow> ss \<in> seg_chains cache m k (int m)
            \<and> (\<forall>s \<in> seg_chains cache m k (int m). inverse_cost ss \<le> inverse_cost s)" if "k \<in> {1..nat G}" for k
    using that by (intro plans_optimal [OF assms(2) rows]) auto
  ultimately show ?thesis by blast
qed

lemma greedy_assignment_facts:
  assumes "scheme \<noteq> []" and "\<forall>i < length scheme. 0 < seg_tp scheme i" and "0 < gpu_step"
    and "int (length scheme) \<le> gpus div gpu_step"
  shows "\<exists>counts a. allocate_greedily o1 scheme gpus gpu_step = Inr a
    \<and> length counts = length scheme \<and> int (sum_list counts) = gpus div gpu_step
    \<and> (\<forall>i < length scheme. 1 \<le> counts ! i
         \<and> as_instances a ! i = (int (counts ! i) * gpu_step, fst (scheme ! i) * or_context_step o1,
              fst (snd (scheme ! i)) * or_context_step o1, seg_tp scheme i)
         \<and> as_throughput a \<le> load_of scheme counts i)
    \<and> (\<forall>ms. length ms = length scheme \<and> int (sum_list ms) = gpus div gpu_step \<longrightarrow>
         (\<exists>i < length scheme. load_of scheme ms i \<le> as_throughput a))"
proof -
  let ?n = "length scheme"
  let ?counts = "greedy_counts scheme (nat (gpus div gpu_step - int ?n))"
  let ?tp = "Min (set (map (\<lambda>i. of_nat (?counts ! i) * snd (snd (scheme ! i))) [0..<?n]))"
  define a where "a = \<lparr>as_throughput = ?tp,
        as_instances = map (\<lambda>i. (int (?counts ! i) * gpu_step, fst (scheme ! i) * or_context_step o1,
             fst (snd (scheme ! i)) * or_context_step o1, snd (snd (scheme ! i)))) [0..<?n]\<rparr>"
  have alloc: "allocate_greedily o1 scheme gpus gpu_step = Inr a"
    using assms by (simp add: allocate_greedily_def a_def Let_def)
  note G = greedy_counts_inv [OF assms(1,2), of "nat (gpus div gpu_step - int ?n)"]
  have len: "length ?counts = ?n" using G(1) by (simp add: greedy_inv_def)
  have sum: "int (sum_list ?counts) = gpus div gpu_step" using G(2) assms(4) by simp
  let ?L = "(\<lambda>i. load_of scheme ?counts i) ` {0..<?n}"
  have tp: "as_throughput a = Min ?L" by (simp add: a_def load_of_def seg_tp_def)
  have ne: "finite ?L" "?L \<noteq> {}" using assms(1) by auto
  have le: "as_throughput a \<le> load_of scheme ?counts i" if "i < ?n" for i
    unfolding tp using that by (intro Min_le) auto
  from Min_in [OF ne] obtain j where j: "j < ?n" "as_throughput a = load_of scheme ?counts j" unfolding tp by auto
  have opt: "\<exists>i < ?n. load_of scheme ms i \<le> as_throughput a"
    if "length ms = ?n" "int (sum_list ms) = gpus div gpu_step" for ms
    unfolding j(2) using that sum j(1) by (intro greedy_inv_optimal [OF G(1) assms(2)]) auto
  have inst: "1 \<le> ?counts ! i \<and> as_instances a ! i = (int (?counts ! i) * gpu_step, fst (scheme ! i) * or_context_step o1,
              fst (snd (scheme ! i)) * or_context_step o1, seg_tp scheme i)" if "i < ?n" for i
    using G(1) that by (simp add: greedy_inv_def a_def seg_tp_def)
  from alloc len sum le opt inst show ?thesis by blast
qed

text \<open>The assignment a permitted number of groups leads to.\<close>

definition grouping :: "orchestrator \<Rightarrow> (nat, segment list) dict \<Rightarrow> int \<Rightarrow> int \<Rightarrow> assignment \<Rightarrow> bool" where
  "grouping o1 plans g k a \<longleftrightarrow> 0 \<le> k \<and> k \<le> g div or_dp_gpu_step o1
     \<and> (\<exists>scheme. map_of plans (nat k) = Some scheme \<and> scheme \<noteq> []
          \<and> allocate_greedily o1 scheme g (or_dp_gpu_step o1) = Inr a)"

lemma allocate_total: "0 < step \<Longrightarrow> scheme \<noteq> [] \<Longrightarrow> \<exists>a. allocate_greedily o1 scheme g step = Inr a"
  by (simp add: allocate_greedily_def Let_def)

lemma best_groups_skip:
  assumes "0 < or_dp_gpu_step o1" and "\<nexists>a. grouping o1 plans g k a"
  shows "best_groups o1 plans g (k # ks) best = best_groups o1 plans g ks best"
proof -
  have "\<not> (0 \<le> k \<and> k \<le> g div or_dp_gpu_step o1 \<and> map_of plans (nat k) = Some scheme \<and> scheme \<noteq> [])" for scheme
    using assms(2) allocate_total [OF assms(1), of scheme o1 g] unfolding grouping_def by blast
  with assms(1) show ?thesis by (auto split: option.splits)
qed

lemma best_groups_take:
  assumes "0 < or_dp_gpu_step o1" and "grouping o1 plans g k a"
  shows "best_groups o1 plans g (k # ks) best =
    best_groups o1 plans g ks (if as_throughput best < as_throughput a then a else best)"
  using assms by (auto simp: grouping_def)

lemma grouping_unique: "grouping o1 plans g k a \<Longrightarrow> grouping o1 plans g k b \<Longrightarrow> a = b"
  by (auto simp: grouping_def)

lemma best_groups_spec:
  assumes "0 < or_dp_gpu_step o1"
  shows "\<exists>r. best_groups o1 plans g ks best = Inr r \<and> as_throughput best \<le> as_throughput r
    \<and> (r = best \<or> (\<exists>k \<in> set ks. grouping o1 plans g k r))
    \<and> (\<forall>k \<in> set ks. \<forall>a. grouping o1 plans g k a \<longrightarrow> as_throughput a \<le> as_throughput r)"
proof (induction ks arbitrary: best)
  case (Cons k ks)
  show ?case
  proof (cases "\<exists>a. grouping o1 plans g k a")
    case False
    then show ?thesis using Cons.IH [of best] unfolding best_groups_skip [OF assms False] by auto
  next
    case True
    then obtain a where a: "grouping o1 plans g k a" by blast
    let ?b = "if as_throughput best < as_throughput a then a else best"
    from Cons.IH [of ?b] obtain r where r: "best_groups o1 plans g ks ?b = Inr r" "as_throughput ?b \<le> as_throughput r"
      "r = ?b \<or> (\<exists>k \<in> set ks. grouping o1 plans g k r)"
      "\<forall>k \<in> set ks. \<forall>a. grouping o1 plans g k a \<longrightarrow> as_throughput a \<le> as_throughput r" by blast
    have "as_throughput best \<le> as_throughput r" and ar: "as_throughput a \<le> as_throughput r"
      using r(2) by (auto split: if_splits)
    moreover have "r = best \<or> (\<exists>l \<in> set (k # ks). grouping o1 plans g l r)" using r(3) a by auto
    moreover have "\<forall>l \<in> set (k # ks). \<forall>b. grouping o1 plans g l b \<longrightarrow> as_throughput b \<le> as_throughput r"
      using r(4) ar grouping_unique [OF a] by auto
    ultimately show ?thesis unfolding best_groups_take [OF assms a] using r(1) by blast
  qed
qed simp

lemma map_res_keys:
  assumes "map_res (\<lambda>g. map_sum id (Pair g) (f g)) gs = Inr res"
  shows "g \<in> set gs \<Longrightarrow> \<exists>a. map_of res g = Some a \<and> f g = Inr a"
  using assms
proof (induction gs arbitrary: res)
  case (Cons x gs)
  from Cons.prems(2) obtain b res' where b: "f x = Inr b" "res = (x, b) # res'"
    and r: "map_res (\<lambda>g. map_sum id (Pair g) (f g)) gs = Inr res'"
    by (cases "f x") (auto simp: id_def split: sum.splits)
  show ?case
  proof (cases "g = x")
    case True
    with b show ?thesis by simp
  next
    case False
    with Cons.IH [OF _ r] Cons.prems(1) b(2) show ?thesis by auto
  qed
qed simp

lemma solve_facts:
  assumes "or_max_context_idx o1 = Inr (int m)" and "cache_ok cache m" and "0 \<le> G" and "0 < or_dp_gpu_step o1"
    and "0 \<le> g" and "g \<le> T"
  shows "\<exists>plans res a. build_partition_plans o1 cache G = Inr plans \<and> solve o1 T cache G mn = Inr res
    \<and> map_of res g = Some a \<and> 0 \<le> as_throughput a
    \<and> (a = assignment_empty \<or> (\<exists>k \<in> {mn..G}. grouping o1 plans g k a))
    \<and> (\<forall>k \<in> {mn..G}. \<forall>b. grouping o1 plans g k b \<longrightarrow> as_throughput b \<le> as_throughput a)"
proof -
  from partition_plans_total [OF assms(1-3)] obtain plans where p: "build_partition_plans o1 cache G = Inr plans"
    by blast
  let ?f = "\<lambda>g. best_groups o1 plans g [mn..G] assignment_empty"
  note B = best_groups_spec [OF assms(4), of plans _ "[mn..G]" assignment_empty]
  have "\<exists>res. map_res (\<lambda>g. map_sum id (Pair g) (?f g)) [0..T] = Inr res"
    using B by (intro map_res_total) (metis map_sum.simps(2))
  then obtain res where r: "map_res (\<lambda>g. map_sum id (Pair g) (?f g)) [0..T] = Inr res" by blast
  then have s: "solve o1 T cache G mn = Inr res" using assms(4) p by (simp add: solve_def)
  from map_res_keys [OF r, of g] assms(5,6) obtain a where a: "map_of res g = Some a" "?f g = Inr a" by auto
  from B [of g] a(2) have "as_throughput assignment_empty \<le> as_throughput a"
    and "a = assignment_empty \<or> (\<exists>k \<in> set [mn..G]. grouping o1 plans g k a)"
    and "\<forall>k \<in> set [mn..G]. \<forall>b. grouping o1 plans g k b \<longrightarrow> as_throughput b \<le> as_throughput a"
    by auto
  with p s a(1) show ?thesis unfolding set_upto by (simp add: assignment_empty_def)
qed

text \<open>More GPUs never lower the throughput that is found.\<close>

lemma greedy_monotone:
  assumes "scheme \<noteq> []" and pos: "\<forall>i < length scheme. 0 < seg_tp scheme i" and step: "0 < gpu_step"
    and le: "g \<le> g'" and fits: "int (length scheme) \<le> g div gpu_step"
    and a: "allocate_greedily o1 scheme g gpu_step = Inr a" and b: "allocate_greedily o1 scheme g' gpu_step = Inr b"
  shows "as_throughput a \<le> as_throughput b"
proof -
  have dv: "g div gpu_step \<le> g' div gpu_step" using le step by (rule zdiv_mono1)
  obtain counts where c: "length counts = length scheme" "int (sum_list counts) = g div gpu_step"
    and low: "\<And>i. i < length scheme \<Longrightarrow> as_throughput a \<le> load_of scheme counts i"
    using greedy_assignment_facts [OF assms(1,2) step fits, of o1] a by auto
  let ?ms = "counts[0 := counts ! 0 + nat (g' div gpu_step - g div gpu_step)]"
  have "int (sum_list ?ms) = g' div gpu_step"
    using sum_list_update_add [of 0 counts "nat (g' div gpu_step - g div gpu_step)"] c dv assms(1) by simp
  moreover have "length ?ms = length scheme" using c by simp
  moreover have "\<forall>ms. length ms = length scheme \<and> int (sum_list ms) = g' div gpu_step \<longrightarrow>
      (\<exists>i < length scheme. load_of scheme ms i \<le> as_throughput b)"
    using greedy_assignment_facts [OF assms(1,2) step, of g' o1] b fits dv by auto
  ultimately obtain i where i: "i < length scheme" "load_of scheme ?ms i \<le> as_throughput b" by blast
  have "counts ! i \<le> ?ms ! i" using i(1) c by (cases "i = 0") auto
  then have "(of_nat (counts ! i) :: rat) \<le> of_nat (?ms ! i)" by (simp only: of_nat_le_iff)
  then have "load_of scheme counts i \<le> load_of scheme ?ms i"
    unfolding load_of_def using pos i(1) by (intro mult_right_mono) (simp_all add: less_imp_le)
  with low [OF i(1)] i(2) show ?thesis by linarith
qed

lemma chain_positive: "is_chain cache m a ss b \<Longrightarrow> i < length ss \<Longrightarrow> 0 < seg_tp ss i"
proof (induction ss arbitrary: a i)
  case (Cons s ss)
  obtain lo hi tp where "s = (lo, hi, tp)" by (cases s)
  with Cons show ?case by (cases i) (auto simp: seg_tp_def)
qed simp

lemma solve_monotone:
  assumes "or_max_context_idx o1 = Inr (int m)" and "cache_ok cache m" and "0 \<le> G" and "0 < or_dp_gpu_step o1"
    and "solve o1 T cache G mn = Inr res" and "0 \<le> g" and "g \<le> g'" and "g' \<le> T"
  shows "\<exists>a b. map_of res g = Some a \<and> map_of res g' = Some b \<and> 0 \<le> as_throughput a \<and> as_throughput a \<le> as_throughput b"
proof -
  obtain plans where p: "build_partition_plans o1 cache G = Inr plans"
    and opt: "\<forall>k \<in> {1..nat G}. case map_of plans k of
          None \<Rightarrow> seg_chains cache m k (int m) = {}
        | Some ss \<Rightarrow> ss \<in> seg_chains cache m k (int m)
            \<and> (\<forall>s \<in> seg_chains cache m k (int m). inverse_cost ss \<le> inverse_cost s)"
    using partition_plans_total [OF assms(1-3)] by blast
  obtain a where a: "map_of res g = Some a" "0 \<le> as_throughput a"
    "a = assignment_empty \<or> (\<exists>k \<in> {mn..G}. grouping o1 plans g k a)"
    using solve_facts [OF assms(1-4,6), of T mn] p assms(5,7,8) by auto
  obtain b where b: "map_of res g' = Some b" "0 \<le> as_throughput b"
    "\<forall>k \<in> {mn..G}. \<forall>c. grouping o1 plans g' k c \<longrightarrow> as_throughput c \<le> as_throughput b"
    using solve_facts [OF assms(1-4), of g' T mn] p assms(5-8) by auto
  have "as_throughput a \<le> as_throughput b"
  proof (cases "a = assignment_empty")
    case True
    with b(2) show ?thesis by (simp add: assignment_empty_def)
  next
    case False
    with a(3) obtain k where k: "k \<in> {mn..G}" "grouping o1 plans g k a" by blast
    then obtain scheme where s: "0 \<le> k" "k \<le> g div or_dp_gpu_step o1" "map_of plans (nat k) = Some scheme" "scheme \<noteq> []"
      "allocate_greedily o1 scheme g (or_dp_gpu_step o1) = Inr a" by (auto simp: grouping_def)
    have k0: "nat k \<noteq> 0" using plans_no_zero [OF p] s(3) by (cases "nat k") auto
    have "nat k \<in> {1..nat G}" using k0 k(1) by auto
    from opt [THEN bspec, OF this] s(3) have "scheme \<in> seg_chains cache m (nat k) (int m)" by simp
    then have ch: "is_chain cache m 0 scheme (int m)" "length scheme = nat k" by (auto simp: seg_chains_def)
    have dv: "g div or_dp_gpu_step o1 \<le> g' div or_dp_gpu_step o1" using assms(7,4) by (rule zdiv_mono1)
    obtain c where c: "allocate_greedily o1 scheme g' (or_dp_gpu_step o1) = Inr c"
      using allocate_total [OF assms(4) s(4)] by blast
    have "grouping o1 plans g' k c" using s c dv unfolding grouping_def by (metis order_trans)
    with b(3) k(1) have "as_throughput c \<le> as_throughput b" by blast
    moreover have "as_throughput a \<le> as_throughput c"
      using greedy_monotone [OF s(4) _ assms(4,7) _ s(5) c] chain_positive [OF ch(1)] ch(2) s(1,2) by simp
    ultimately show ?thesis by simp
  qed
  with a b show ?thesis by blast
qed

section \<open>Properties\<close>

text \<open>An example: three context indices, cached throughputs of five segments.\<close>

definition example_orch :: orchestrator where
  "example_orch = \<lparr>or_context_step = 10, or_max_context_length = 30, or_dp_gpu_step = 2\<rparr>"

definition example_cache :: tp_cache where
  "example_cache = [((0, 1), 4), ((0, 2), 2), ((0, 3), 1), ((1, 3), 2), ((2, 3), 3), ((1, 2), 0)]"

text \<open>
  C17. The dynamic program is exact: for a cache whose usable entries start inside the table
  it returns, for every number of groups up to the maximum, a partition of the whole context
  axis into that many cached segments with the least total inverse throughput, and no plan
  for a number of groups only when the cache has no such partition.
\<close>

theorem partition_plans_optimal:
  assumes "or_max_context_idx o1 = Inr (int m)" and "cache_ok cache m" and "0 \<le> G"
  shows "\<exists>plans. build_partition_plans o1 cache G = Inr plans
    \<and> (\<forall>k \<in> {1..nat G}. case map_of plans k of
          None \<Rightarrow> seg_chains cache m k (int m) = {}
        | Some ss \<Rightarrow> ss \<in> seg_chains cache m k (int m)
            \<and> (\<forall>s \<in> seg_chains cache m k (int m). inverse_cost ss \<le> inverse_cost s))"
  using assms by (rule partition_plans_total)

theorem partition_plans_optimal_witness:
  "\<exists>plans. build_partition_plans example_orch example_cache 2 = Inr plans
    \<and> map_of plans 2 = Some [(0, 1, 4), (1, 3, 2)]
    \<and> [(0, 1, 4), (1, 3, 2)] \<in> seg_chains example_cache 3 2 3
    \<and> inverse_cost [(0, 1, 4), (1, 3, 2)] \<le> inverse_cost [(0, 2, 2), (2, 3, 3)]"
proof -
  have 1: "or_max_context_idx example_orch = Inr (int 3)" by code_simp
  have 2: "cache_ok example_cache 3" by (simp add: cache_ok_def example_cache_def)
  from partition_plans_optimal [OF 1 2, of 2] obtain plans where
    p: "build_partition_plans example_orch example_cache 2 = Inr plans"
    and opt: "\<forall>k \<in> {1..nat 2}. case map_of plans k of
          None \<Rightarrow> seg_chains example_cache 3 k (int 3) = {}
        | Some ss \<Rightarrow> ss \<in> seg_chains example_cache 3 k (int 3)
            \<and> (\<forall>s \<in> seg_chains example_cache 3 k (int 3). inverse_cost ss \<le> inverse_cost s)" by auto
  have v: "build_partition_plans example_orch example_cache 2
      = Inr [(1, [(0, 3, 1)]), (2, [(0, 1, 4), (1, 3, 2)])]" by code_simp
  with p have "map_of plans 2 = Some [(0, 1, 4), (1, 3, 2)]" by auto
  moreover have "[(0, 2, 2), (2, 3, 3)] \<in> seg_chains example_cache 3 2 3"
    by (simp add: seg_chains_def example_cache_def)
  ultimately show ?thesis using p opt [THEN bspec, of 2] by auto
qed

text \<open>
  C24. The greedy assignment maximises the throughput of the slowest group: it hands out
  exactly the whole instances of the budget, gives every group at least one, reports the
  minimum over the groups, and no other way of distributing the same number of instances
  has a larger minimum.
\<close>

theorem greedy_assignment_optimal:
  assumes "scheme \<noteq> []" and "\<forall>i < length scheme. 0 < seg_tp scheme i" and "0 < gpu_step"
    and "int (length scheme) \<le> gpus div gpu_step"
  shows "\<exists>counts a. allocate_greedily o1 scheme gpus gpu_step = Inr a
    \<and> length counts = length scheme \<and> int (sum_list counts) = gpus div gpu_step
    \<and> (\<forall>i < length scheme. 1 \<le> counts ! i
         \<and> as_instances a ! i = (int (counts ! i) * gpu_step, fst (scheme ! i) * or_context_step o1,
              fst (snd (scheme ! i)) * or_context_step o1, seg_tp scheme i)
         \<and> as_throughput a \<le> load_of scheme counts i)
    \<and> (\<forall>ms. length ms = length scheme \<and> int (sum_list ms) = gpus div gpu_step \<longrightarrow>
         (\<exists>i < length scheme. load_of scheme ms i \<le> as_throughput a))"
  using assms by (rule greedy_assignment_facts)

theorem greedy_assignment_optimal_witness:
  "\<exists>counts a. allocate_greedily example_orch [(0, 1, 4), (1, 3, 2)] 10 2 = Inr a
    \<and> int (sum_list counts) = 10 div 2
    \<and> as_throughput a \<le> load_of [(0, 1, 4), (1, 3, 2)] counts 0
    \<and> (\<exists>i < 2. load_of [(0, 1, 4), (1, 3, 2)] [3, 2] i \<le> as_throughput a)"
proof -
  have pos: "\<forall>i < length [(0 :: int, 1 :: int, 4 :: rat), (1, 3, 2)]. 0 < seg_tp [(0, 1, 4), (1, 3, 2)] i"
    by (auto simp: seg_tp_def less_Suc_eq)
  obtain counts a where T: "allocate_greedily example_orch [(0, 1, 4), (1, 3, 2)] 10 2 = Inr a"
    "int (sum_list counts) = 10 div 2"
    "\<forall>i < length [(0 :: int, 1 :: int, 4 :: rat), (1, 3, 2)]. as_throughput a \<le> load_of [(0, 1, 4), (1, 3, 2)] counts i"
    "\<forall>ms. length ms = length [(0 :: int, 1 :: int, 4 :: rat), (1, 3, 2)] \<and> int (sum_list ms) = 10 div 2 \<longrightarrow>
         (\<exists>i < length [(0 :: int, 1 :: int, 4 :: rat), (1, 3, 2)]. load_of [(0, 1, 4), (1, 3, 2)] ms i \<le> as_throughput a)"
    using greedy_assignment_optimal [OF _ pos, of 2 10 example_orch] by force
  from T(4) [rule_format, of "[3, 2]"] have "\<exists>i < 2. load_of [(0, 1, 4), (1, 3, 2)] [3, 2] i \<le> as_throughput a"
    by (simp add: numeral_2_eq_2)
  with T(1,2) T(3) [rule_format, of 0] show ?thesis by auto
qed

text \<open>
  \<open>solve\<close> answers every budget from 0 to the total: the assignment it returns is the
  empty one or the greedy assignment of an optimal partition with a permitted number of
  groups, and none of the permitted numbers of groups that fit into the budget would have
  given a larger throughput.
\<close>

theorem solve_takes_best_grouping:
  assumes "or_max_context_idx o1 = Inr (int m)" and "cache_ok cache m" and "0 \<le> G" and "0 < or_dp_gpu_step o1"
    and "0 \<le> g" and "g \<le> T"
  shows "\<exists>plans res a. build_partition_plans o1 cache G = Inr plans \<and> solve o1 T cache G mn = Inr res
    \<and> map_of res g = Some a \<and> 0 \<le> as_throughput a
    \<and> (a = assignment_empty \<or> (\<exists>k \<in> {mn..G}. grouping o1 plans g k a))
    \<and> (\<forall>k \<in> {mn..G}. \<forall>b. grouping o1 plans g k b \<longrightarrow> as_throughput b \<le> as_throughput a)"
  using assms by (rule solve_facts)

theorem solve_takes_best_grouping_witness:
  "\<exists>plans res a. build_partition_plans example_orch example_cache 2 = Inr plans
    \<and> solve example_orch 10 example_cache 2 1 = Inr res
    \<and> map_of res 10 = Some a \<and> 0 \<le> as_throughput a
    \<and> (a = assignment_empty \<or> grouping example_orch plans 10 1 a \<or> grouping example_orch plans 10 2 a)"
proof -
  have 1: "or_max_context_idx example_orch = Inr (int 3)" by code_simp
  have 2: "cache_ok example_cache 3" by (simp add: cache_ok_def example_cache_def)
  have 3: "0 < or_dp_gpu_step example_orch" by (simp add: example_orch_def)
  have "{1..2 :: int} = {1, 2}" by auto
  with solve_takes_best_grouping [OF 1 2 _ 3, of 2 10 10 1] show ?thesis by auto
qed

end
