(* ===== verification/RequestAnalyzer.thy ===== *)
theory RequestAnalyzer
  imports PyValue
begin

text \<open>
  Statistics of recorded workflow traces, \<open>src/coreflow/allocator/request_analyzer.py\<close>. The
  parsed node list is a JSON object from trace names to lists of node records; token counts
  are numbers or lists of numbers. \<open>np.mean\<close> of no values is nan, which stands as the
  argument \<open>nan\<close>.
\<close>

section \<open>Records\<close>

fun number_of_json :: "json \<Rightarrow> rat res" where
  "number_of_json (JInt i) = Inr (of_int i)"
| "number_of_json (JFloat r) = Inr r"
| "number_of_json (JBool b) = Inr (if b then 1 else 0)"
| "number_of_json _ = Inl TypeError"

text \<open>\<open>sum(x) if isinstance(x, list) else x\<close>, then used as a number.\<close>

fun token_count :: "json \<Rightarrow> rat res" where
  "token_count (JList xs) = map_sum id sum_list (map_res number_of_json xs)"
| "token_count j = number_of_json j"

definition node_counts :: "json \<Rightarrow> (rat \<times> rat \<times> rat) res" where
  "node_counts n =
     bind_res (bind_res (json_item n ''input_tokens'') token_count) (\<lambda>i.
     bind_res (bind_res (json_item n ''output_tokens'') token_count) (\<lambda>o1.
     bind_res (bind_res (json_item n ''cached_tokens'') token_count) (\<lambda>c. Inr (i, o1, c))))"

definition next_context :: "json \<Rightarrow> rat res" where
  "next_context n =
     bind_res (bind_res (json_item n ''input_tokens'') token_count) (\<lambda>i.
     bind_res (bind_res (json_item n ''cached_tokens'') token_count) (\<lambda>c. Inr (i + c)))"

section \<open>Grouping by invocation\<close>

definition split_node_id :: "json \<Rightarrow> (string \<times> int) res" where
  "split_node_id j =
     (case j of
        JStr s \<Rightarrow>
          (case split_on (CHR '':'') s of
             [a, b] \<Rightarrow> bind_res (int_of_str b) (\<lambda>r. Inr (a, r))
           | _ \<Rightarrow> Inl ValueError)
      | _ \<Rightarrow> Inl AttributeError)"

fun group_nodes ::
  "string \<Rightarrow> json list \<Rightarrow> (string, (int, json) dict) dict \<Rightarrow> (string, (int, json) dict) dict res" where
  "group_nodes agent [] acc = Inr acc"
| "group_nodes agent (n # ns) acc =
     bind_res (json_item n ''agent_name'') (\<lambda>a.
       if a \<noteq> JStr agent then group_nodes agent ns acc
       else
         bind_res (bind_res (json_item n ''node_id'') split_node_id) (\<lambda>(nid, r).
           group_nodes agent ns
             (AList.update nid
                (AList.update r n (case map_of acc nid of None \<Rightarrow> [] | Some d \<Rightarrow> d)) acc)))"

section \<open>Calls in a range\<close>

record llm_call =
  lc_decode :: rat
  lc_prefill :: rat
  lc_cached :: rat
  lc_end_length :: rat
  lc_out :: bool

definition in_bounds :: "int \<Rightarrow> int \<Rightarrow> rat \<Rightarrow> bool" where
  "in_bounds lo hi x \<longleftrightarrow> of_int lo \<le> x \<and> x \<le> of_int hi"

text \<open>The repeats of one invocation, in increasing order.\<close>

fun scan_repeats :: "int \<Rightarrow> int \<Rightarrow> json list \<Rightarrow> llm_call list res" where
  "scan_repeats lo hi [] = Inr []"
| "scan_repeats lo hi (n # ns) =
     bind_res (node_counts n) (\<lambda>(i, o1, c).
       if \<not> in_bounds lo hi (i + c) then scan_repeats lo hi ns
       else
         bind_res (case ns of [] \<Rightarrow> Inr True | n2 # _ \<Rightarrow> map_sum id (\<lambda>x. \<not> in_bounds lo hi x) (next_context n2)) (\<lambda>out.
         bind_res (scan_repeats lo hi ns) (\<lambda>rest.
           Inr (\<lparr>lc_decode = o1, lc_prefill = i, lc_cached = c, lc_end_length = i + c + o1, lc_out = out\<rparr> # rest))))"

definition sorted_repeats :: "(int, json) dict \<Rightarrow> json list" where
  "sorted_repeats d = map snd (sort_key fst d)"

text \<open>One trace: for every invocation its unique name and its calls in the range.\<close>

definition scan_trace :: "string \<Rightarrow> int \<Rightarrow> int \<Rightarrow> string \<times> json \<Rightarrow> (string \<times> llm_call list) list res" where
  "scan_trace agent lo hi t =
     bind_res (list_of_json (snd t)) (\<lambda>ns.
     bind_res (group_nodes agent ns []) (\<lambda>gs.
     map_res (\<lambda>(nid, reps). map_sum id (Pair (fst t @ ''_'' @ nid)) (scan_repeats lo hi (sorted_repeats reps))) gs))"

record range_stats =
  rs_avg_decode_length :: int
  rs_avg_prefill_length :: int
  rs_avg_cached_tokens :: int
  rs_max_length :: rat
  rs_out_proportion :: rat
  rs_query_proportion :: rat

definition floor_div :: "rat \<Rightarrow> nat \<Rightarrow> int" where
  "floor_div x n = \<lfloor>x / of_nat n\<rfloor>"

definition stats_of :: "bool \<Rightarrow> (string \<times> llm_call list) list \<Rightarrow> range_stats" where
  "stats_of reuse gs =
     (let calls = concat (map snd gs); n = length calls;
          p = floor_div (sum_list (map lc_prefill calls)) n;
          c = floor_div (sum_list (map lc_cached calls)) n;
          ids_in = remdups (map fst (filter (\<lambda>g. snd g \<noteq> []) gs));
          ids_all = remdups (map fst gs)
      in if n = 0 then
           \<lparr>rs_avg_decode_length = 0, rs_avg_prefill_length = 0, rs_avg_cached_tokens = 0,
            rs_max_length = 0, rs_out_proportion = 0, rs_query_proportion = 0\<rparr>
         else
           \<lparr>rs_avg_decode_length = floor_div (sum_list (map lc_decode calls)) n,
            rs_avg_prefill_length = (if reuse then p else p + c),
            rs_avg_cached_tokens = (if reuse then c else 0),
            rs_max_length = foldl max 0 (map lc_end_length calls),
            rs_out_proportion = of_nat (length (filter lc_out calls)) / of_nat n,
            rs_query_proportion = of_nat (length ids_in) / of_nat (max (length ids_all) 1)\<rparr>)"

definition compute_range_stats ::
  "(string \<times> json) list \<Rightarrow> int \<Rightarrow> int \<Rightarrow> string \<Rightarrow> bool \<Rightarrow> range_stats res" where
  "compute_range_stats node_list lo hi agent reuse =
     map_sum id (\<lambda>gss. stats_of reuse (concat gss)) (map_res (scan_trace agent lo hi) node_list)"

section \<open>The analyzer and its cache\<close>

type_synonym range_key = "int \<times> int \<times> string \<times> bool"

record analyzer =
  an_node_list :: "(string \<times> json) list"
  an_range_cache :: "(range_key, range_stats) dict"

definition get_requests_in_range ::
  "int \<Rightarrow> int \<Rightarrow> string \<Rightarrow> bool \<Rightarrow> bool \<Rightarrow> (analyzer, range_stats) act" where
  "get_requests_in_range lo hi agent reuse use_cache a =
     (case (if use_cache then map_of (an_range_cache a) (lo, hi, agent, reuse) else None) of
        Some st \<Rightarrow> (Inr st, a)
      | None \<Rightarrow>
          (case compute_range_stats (an_node_list a) lo hi agent reuse of
             Inl e \<Rightarrow> (Inl e, a)
           | Inr st \<Rightarrow>
               (Inr st, if use_cache
                  then a\<lparr>an_range_cache := AList.update (lo, hi, agent, reuse) st (an_range_cache a)\<rparr>
                  else a)))"

definition clear_cache :: "analyzer \<Rightarrow> analyzer" where
  "clear_cache a = a\<lparr>an_range_cache := []\<rparr>"

definition cache_size :: "analyzer \<Rightarrow> nat" where
  "cache_size a = length (an_range_cache a)"

section \<open>Agents and invocation counts\<close>

definition str_of_json :: "json \<Rightarrow> string res" where
  "str_of_json j = (case j of JStr s \<Rightarrow> Inr s | _ \<Rightarrow> Inl TypeError)"

text \<open>\<open>sorted(agents_set)\<close>; names are strings.\<close>

definition agents_of :: "(string \<times> json) list \<Rightarrow> string list res" where
  "agents_of node_list =
     bind_res (map_res (\<lambda>t. bind_res (list_of_json (snd t))
                 (map_res (\<lambda>n. bind_res (json_item n ''agent_name'') str_of_json))) node_list)
       (\<lambda>names. Inr (sort (remdups (concat names))))"

definition first_part :: "json \<Rightarrow> string res" where
  "first_part j = (case j of JStr s \<Rightarrow> Inr (hd (split_on (CHR '':'') s)) | _ \<Rightarrow> Inl AttributeError)"

fun invocation_ids :: "string \<Rightarrow> json list \<Rightarrow> string list res" where
  "invocation_ids agent [] = Inr []"
| "invocation_ids agent (n # ns) =
     bind_res (json_item n ''agent_name'') (\<lambda>a.
       if a \<noteq> JStr agent then invocation_ids agent ns
       else
         bind_res (bind_res (json_item n ''node_id'') first_part) (\<lambda>nid.
         bind_res (invocation_ids agent ns) (\<lambda>rest. Inr (nid # rest))))"

definition np_mean :: "rat \<Rightarrow> nat list \<Rightarrow> rat" where
  "np_mean nan xs = (if xs = [] then nan else of_nat (sum_list xs) / of_nat (length xs))"

definition invocation_count :: "(string \<times> json) list \<Rightarrow> string \<Rightarrow> nat list res" where
  "invocation_count node_list agent =
     map_res (\<lambda>t. bind_res (list_of_json (snd t)) (\<lambda>ns.
        map_sum id (\<lambda>ids. length (remdups ids)) (invocation_ids agent ns))) node_list"

definition avg_num_invocations ::
  "rat \<Rightarrow> (string \<times> json) list \<Rightarrow> string list \<Rightarrow> (string, rat) dict res" where
  "avg_num_invocations nan node_list agents =
     map_sum id (\<lambda>kvs. foldl (\<lambda>d (k, v). AList.update k v d) [] kvs)
       (map_res (\<lambda>a. map_sum id (\<lambda>cs. (a, np_mean nan cs)) (invocation_count node_list a)) agents)"

section \<open>Lemmas\<close>

lemma remdups_filter_le: "length (remdups (map f (filter P xs))) \<le> length (remdups (map f xs))"
proof -
  have "card (set (map f (filter P xs))) \<le> card (set (map f xs))" by (intro card_mono) auto
  then show ?thesis by (simp only: length_remdups_card_conv)
qed

lemma stats_of_bounds:
  "0 \<le> rs_out_proportion (stats_of reuse gs) \<and> rs_out_proportion (stats_of reuse gs) \<le> 1
   \<and> 0 \<le> rs_query_proportion (stats_of reuse gs) \<and> rs_query_proportion (stats_of reuse gs) \<le> 1"
proof -
  have 1: "length (filter lc_out xs) \<le> length xs" for xs by simp
  have "length (remdups (map fst (filter (\<lambda>g. snd g \<noteq> []) gs))) \<le> max (length (remdups (map fst gs))) 1"
    using remdups_filter_le [of fst "\<lambda>g. snd g \<noteq> []" gs] by (rule le_trans) simp
  then have 2: "of_nat (length (remdups (map fst (filter (\<lambda>g. snd g \<noteq> []) gs))))
      \<le> (of_nat (max (length (remdups (map fst gs))) 1) :: rat)"
    by (simp only: of_nat_le_iff)
  show ?thesis
    using 1 [of "concat (map snd gs)"] 2 by (simp add: stats_of_def Let_def divide_le_eq_1 less_max_iff_disj)
qed

lemma stats_of_empty:
  "rs_avg_decode_length (stats_of reuse gs) \<noteq> 0 \<Longrightarrow> 0 < rs_query_proportion (stats_of reuse gs)"
proof -
  assume "rs_avg_decode_length (stats_of reuse gs) \<noteq> 0"
  then have "concat (map snd gs) \<noteq> []" by (auto simp: stats_of_def Let_def split: if_splits)
  moreover then obtain g where "g \<in> set gs" "snd g \<noteq> []" by auto
  then have "filter (\<lambda>g. snd g \<noteq> []) gs \<noteq> []" by (auto simp: filter_empty_conv)
  ultimately show ?thesis by (simp add: stats_of_def Let_def)
qed

text \<open>A cached answer is the answer that would be computed.\<close>

definition analyzer_ok :: "analyzer \<Rightarrow> bool" where
  "analyzer_ok a \<longleftrightarrow> (\<forall>lo hi ag reuse st. map_of (an_range_cache a) (lo, hi, ag, reuse) = Some st \<longrightarrow>
     compute_range_stats (an_node_list a) lo hi ag reuse = Inr st)"

lemma get_requests_ok:
  assumes "analyzer_ok a"
  shows "fst (get_requests_in_range lo hi ag reuse uc a) = compute_range_stats (an_node_list a) lo hi ag reuse"
    and "analyzer_ok (snd (get_requests_in_range lo hi ag reuse uc a))"
    and "an_node_list (snd (get_requests_in_range lo hi ag reuse uc a)) = an_node_list a"
  using assms by (auto simp: get_requests_in_range_def analyzer_ok_def split: option.splits sum.splits if_splits)

section \<open>Properties\<close>

text \<open>A trace with one invocation of two repeats; the first one ends exactly at 2000 tokens of context.\<close>

definition example_call :: "string \<Rightarrow> int \<Rightarrow> int \<Rightarrow> json" where
  "example_call nid inp cached = JObj [(''agent_name'', JStr ''coder''), (''node_id'', JStr nid),
     (''input_tokens'', JInt inp), (''output_tokens'', JList [JInt 10, JInt 20]), (''cached_tokens'', JInt cached)]"

definition example_traces :: "(string \<times> json) list" where
  "example_traces = [(''t'', JList [example_call ''1:0'' 2000 0, example_call ''1:1'' 500 2030])]"

text \<open>
  Whatever the traces and the range, the statistics are well formed: the proportion of
  calls that leave the range and the proportion of invocations that enter it lie between 0
  and 1, and the second is positive whenever the average decode length is not 0, so the
  division by it in the throughput estimate is by a positive number. Answers from the cache
  equal the computed ones, before and after any query.
\<close>

theorem range_stats_wellformed:
  assumes "analyzer_ok a" and "get_requests_in_range lo hi ag reuse uc a = (Inr st, a')"
  shows "0 \<le> rs_out_proportion st \<and> rs_out_proportion st \<le> 1
    \<and> 0 \<le> rs_query_proportion st \<and> rs_query_proportion st \<le> 1
    \<and> (rs_avg_decode_length st = 0 \<or> 0 < rs_query_proportion st)
    \<and> compute_range_stats (an_node_list a) lo hi ag reuse = Inr st
    \<and> analyzer_ok a' \<and> an_node_list a' = an_node_list a"
proof -
  note G = get_requests_ok [OF assms(1), of lo hi ag reuse uc, unfolded assms(2)]
  then have c: "compute_range_stats (an_node_list a) lo hi ag reuse = Inr st" by simp
  then obtain gs where st: "st = stats_of reuse gs"
    by (cases "map_res (scan_trace ag lo hi) (an_node_list a)") (auto simp: compute_range_stats_def)
  have "rs_avg_decode_length st = 0 \<or> 0 < rs_query_proportion st" using stats_of_empty st by blast
  with c G stats_of_bounds [of reuse gs] show ?thesis by (simp add: st)
qed

theorem range_stats_wellformed_witness:
  "\<exists>st a'. get_requests_in_range 0 2000 ''coder'' True True \<lparr>an_node_list = example_traces, an_range_cache = []\<rparr> = (Inr st, a')
    \<and> 0 \<le> rs_out_proportion st \<and> rs_out_proportion st \<le> 1
    \<and> 0 \<le> rs_query_proportion st \<and> rs_query_proportion st \<le> 1
    \<and> (rs_avg_decode_length st = 0 \<or> 0 < rs_query_proportion st)"
proof -
  let ?a = "\<lparr>an_node_list = example_traces, an_range_cache = []\<rparr>"
  let ?st = "\<lparr>rs_avg_decode_length = 30, rs_avg_prefill_length = 2000, rs_avg_cached_tokens = 0, rs_max_length = 2030,
      rs_out_proportion = 1, rs_query_proportion = 1\<rparr>"
  have ok: "analyzer_ok ?a" by (simp add: analyzer_ok_def)
  have g: "get_requests_in_range 0 2000 ''coder'' True True ?a
      = (Inr ?st, snd (get_requests_in_range 0 2000 ''coder'' True True ?a))" by code_simp
  from range_stats_wellformed [OF ok g] g show ?thesis by blast
qed

text \<open>
  Both ends of a range are inclusive: a call whose context length is exactly the bound
  shared by two adjacent ranges is counted in both of them, although the instances serving
  these ranges are chosen with half-open ranges, one of which contains the length.
\<close>

theorem boundary_call_counted_twice:
  "map_sum id (\<lambda>st. rs_max_length st) (compute_range_stats [(''t'', JList [example_call ''1:0'' 2000 0])] 0 2000 ''coder'' True)
     = Inr 2030
   \<and> map_sum id (\<lambda>st. rs_max_length st) (compute_range_stats [(''t'', JList [example_call ''1:0'' 2000 0])] 2000 4000 ''coder'' True)
     = Inr 2030"
proof
  show "map_sum id (\<lambda>st. rs_max_length st)
      (compute_range_stats [(''t'', JList [example_call ''1:0'' 2000 0])] 0 2000 ''coder'' True) = Inr 2030" by code_simp
  show "map_sum id (\<lambda>st. rs_max_length st)
      (compute_range_stats [(''t'', JList [example_call ''1:0'' 2000 0])] 2000 4000 ''coder'' True) = Inr 2030" by code_simp
qed

end
