(* ===== verification/Predictor.thy ===== *)
theory Predictor
  imports RequestAnalyzer
begin

text \<open>
  The latency model, \<open>src/coreflow/predictor\<close>: attention and interference regressions and the
  per-layer table. Fitting a regression is scikit-learn's: \<open>fit\<close> maps the sample points and
  their values to the fitted prediction function and is an argument. \<open>fstr\<close> is Python's
  \<open>float\<close> on strings.
\<close>

section \<open>Lazy loading\<close>

text \<open>The state of a \<open>BasePredictor\<close>; \<open>load\<close> is the subclass's \<open>_load_model\<close>.\<close>

record 'm base_predictor =
  bp_model :: "'m option"
  bp_loaded :: bool

definition base_init :: "'m base_predictor" where
  "base_init = \<lparr>bp_model = None, bp_loaded = False\<rparr>"

definition ensure_loaded :: "'m res \<Rightarrow> ('m base_predictor, unit) act" where
  "ensure_loaded load st =
     (if bp_loaded st then (Inr (), st)
      else (case load of
              Inl e \<Rightarrow> (Inl e, st)
            | Inr mdl \<Rightarrow> (Inr (), st\<lparr>bp_model := Some mdl, bp_loaded := True\<rparr>)))"

text \<open>Whatever the profile holds later, a loaded predictor keeps its first model.\<close>

lemma ensure_loaded_once:
  assumes "ensure_loaded load base_init = (Inr (), st)"
  shows "\<exists>mdl. load = Inr mdl \<and> bp_model st = Some mdl \<and> ensure_loaded load' st = (Inr (), st)"
  using assms by (auto simp: ensure_loaded_def base_init_def split: sum.splits)

section \<open>Loading profiles\<close>

fun float_of_json :: "(string \<Rightarrow> rat res) \<Rightarrow> json \<Rightarrow> rat res" where
  "float_of_json fstr (JStr s) = fstr s"
| "float_of_json fstr j = number_of_json j"

type_synonym fitter = "(int \<times> int) list \<Rightarrow> rat list \<Rightarrow> rat \<times> rat \<Rightarrow> rat"

fun json_pairs :: "json \<Rightarrow> (string \<times> json) list res" where
  "json_pairs (JObj d) = Inr d"
| "json_pairs _ = Inl AttributeError"

text \<open>The samples of \<open>{outer: {inner: latency}}\<close>, in the order of the file.\<close>

definition samples :: "(string \<Rightarrow> rat res) \<Rightarrow> (string \<times> json) list \<Rightarrow> ((int \<times> int) \<times> rat) list res" where
  "samples fstr raw =
     map_sum id concat
       (map_res (\<lambda>(a, inner).
          bind_res (json_pairs inner) (map_res (\<lambda>(b, lat).
            bind_res (int_of_str a) (\<lambda>x.
            bind_res (int_of_str b) (\<lambda>y.
            bind_res (float_of_json fstr lat) (\<lambda>v. Inr ((x, y), v))))))) raw)"

definition fit_model :: "(string \<Rightarrow> rat res) \<Rightarrow> fitter \<Rightarrow> json \<Rightarrow> (rat \<times> rat \<Rightarrow> rat) res" where
  "fit_model fstr fit raw =
     bind_res (json_pairs raw) (\<lambda>d.
     bind_res (samples fstr d) (\<lambda>xs. Inr (fit (map fst xs) (map snd xs))))"

record attn_model =
  am_decode :: "rat \<times> rat \<Rightarrow> rat"
  am_prefill :: "rat \<times> rat \<Rightarrow> rat"

definition load_attention :: "(string \<Rightarrow> rat res) \<Rightarrow> fitter \<Rightarrow> json \<Rightarrow> attn_model res" where
  "load_attention fstr fit data =
     bind_res (bind_res (json_item data ''decode'') (fit_model fstr fit)) (\<lambda>d.
     bind_res (bind_res (json_item data ''prefill'') (fit_model fstr fit)) (\<lambda>p.
       Inr \<lparr>am_decode = d, am_prefill = p\<rparr>))"

definition attn_predict :: "attn_model \<Rightarrow> int \<Rightarrow> int \<Rightarrow> bool \<Rightarrow> rat" where
  "attn_predict am batch_size total_tokens decode =
     (if decode then am_decode am else am_prefill am) (of_int batch_size, of_int total_tokens)"

type_synonym interference_model = "(int, rat \<times> rat \<Rightarrow> rat) dict"

fun load_interference ::
  "(string \<Rightarrow> rat res) \<Rightarrow> fitter \<Rightarrow> (string \<times> json) list \<Rightarrow> interference_model \<Rightarrow> interference_model res" where
  "load_interference fstr fit [] acc = Inr acc"
| "load_interference fstr fit ((b, data) # rest) acc =
     bind_res (int_of_str b) (\<lambda>bs.
     bind_res (fit_model fstr fit data) (\<lambda>mdl.
       load_interference fstr fit rest (AList.update bs mdl acc)))"

definition interference_key :: "int \<Rightarrow> int" where
  "interference_key batch_size = (if 50 < batch_size then 50 else batch_size)"

definition interference_predict :: "interference_model \<Rightarrow> int \<Rightarrow> rat \<Rightarrow> int \<Rightarrow> rat" where
  "interference_predict models batch_size large small =
     (case map_of models (interference_key batch_size) of
        None \<Rightarrow> 0
      | Some mdl \<Rightarrow> max 0 (mdl (large, of_int small)))"

definition get_model :: "interference_model \<Rightarrow> int \<Rightarrow> (rat \<times> rat \<Rightarrow> rat) option" where
  "get_model models batch_size = map_of models (interference_key batch_size)"

type_synonym mlp_table = "(int, rat) dict"

fun load_mlp :: "(string \<Rightarrow> rat res) \<Rightarrow> (string \<times> json) list \<Rightarrow> mlp_table \<Rightarrow> mlp_table res" where
  "load_mlp fstr [] acc = Inr acc"
| "load_mlp fstr ((b, lat) # rest) acc =
     bind_res (int_of_str b) (\<lambda>bs.
     bind_res (float_of_json fstr lat) (\<lambda>v. load_mlp fstr rest (AList.update bs v acc)))"

definition predict_mlp :: "mlp_table \<Rightarrow> int \<Rightarrow> rat res" where
  "predict_mlp t batch_size =
     (case map_of t batch_size of
        Some v \<Rightarrow> Inr v
      | None \<Rightarrow>
          (let keys = sort (map fst t)
           in case List.find (\<lambda>k. batch_size \<le> k) keys of
                Some k \<Rightarrow> dict_item t k
              | None \<Rightarrow> if keys = [] then Inl IndexError else dict_item t (last keys)))"

section \<open>The unified predictor\<close>

record latency_model =
  lm_attn :: attn_model
  lm_interference :: interference_model
  lm_mlp :: mlp_table

definition predict_latency ::
  "latency_model \<Rightarrow> int \<Rightarrow> int \<Rightarrow> int \<Rightarrow> rat \<Rightarrow> int \<Rightarrow> int \<Rightarrow> bool \<Rightarrow> rat res" where
  "predict_latency lm num_layers batch avg_len longest q_len s_len interference =
     bind_res (predict_mlp (lm_mlp lm) (batch + q_len)) (\<lambda>mlp.
       let decode_attn = of_int num_layers * attn_predict (lm_attn lm) batch (batch * avg_len) True;
           prefill_attn = (if q_len \<noteq> 0 then of_int num_layers * attn_predict (lm_attn lm) q_len s_len False else 0);
           interf = (if batch = 1 \<or> \<not> interference then 0
                     else of_int num_layers * interference_predict (lm_interference lm) batch longest
                            (trunc_rat ((of_int (avg_len * batch) - longest) / of_int (batch - 1))))
       in Inr (of_int num_layers * mlp + interf + decode_attn + prefill_attn))"

section \<open>Lemmas\<close>

lemma find_sorted_least:
  assumes "sorted ks" and "List.find (\<lambda>k. b \<le> k) ks = Some k"
  shows "k \<in> set ks \<and> b \<le> k \<and> (\<forall>l \<in> set ks. b \<le> l \<longrightarrow> k \<le> l)"
proof -
  from assms(2) obtain i where i: "i < length ks" "b \<le> ks ! i" "k = ks ! i" "\<forall>j < i. \<not> b \<le> ks ! j"
    by (auto simp: find_Some_iff)
  have "k \<le> l" if "l \<in> set ks" "b \<le> l" for l
  proof -
    from that(1) obtain j where j: "j < length ks" "l = ks ! j" by (auto simp: in_set_conv_nth)
    with i(4) that(2) have "i \<le> j" by (metis not_less)
    with assms(1) j i(3) show ?thesis by (simp add: sorted_nth_mono)
  qed
  with i show ?thesis by auto
qed

lemma sorted_last: "sorted ks \<Longrightarrow> k \<in> set ks \<Longrightarrow> (k::int) \<le> last ks"
  by (induction ks) auto

section \<open>Properties\<close>

text \<open>
  The per-layer table is read at the right entry: the entry of the batch size itself,
  else the entry of the smallest larger size, else the entry of the largest size; and the
  lookup fails only on an empty table.
\<close>

theorem predict_mlp_nearest:
  assumes "t \<noteq> []"
  shows "\<exists>k v. predict_mlp t b = Inr v \<and> map_of t k = Some v
    \<and> (if \<exists>l \<in> fst ` set t. b \<le> l then b \<le> k \<and> (\<forall>l \<in> fst ` set t. b \<le> l \<longrightarrow> k \<le> l)
       else \<forall>l \<in> fst ` set t. l \<le> k)"
proof (cases "map_of t b")
  case (Some v)
  then have "b \<in> fst ` set t" using map_of_None_iff by (metis option.distinct(1))
  with Some have "predict_mlp t b = Inr v \<and> map_of t b = Some v
    \<and> (if \<exists>l \<in> fst ` set t. b \<le> l then b \<le> b \<and> (\<forall>l \<in> fst ` set t. b \<le> l \<longrightarrow> b \<le> l)
       else \<forall>l \<in> fst ` set t. l \<le> b)" by (auto simp: predict_mlp_def)
  then show ?thesis by blast
next
  case None
  let ?ks = "sort (map fst t)"
  have set: "set ?ks = fst ` set t" by simp
  have ne: "?ks \<noteq> []" using assms by (metis length_0_conv length_map length_sort)
  have item: "\<exists>v. dict_item t k = Inr v \<and> map_of t k = Some v" if "k \<in> set ?ks" for k
    using that map_of_None_iff unfolding set by (metis dict_item_Inr option.exhaust)
  show ?thesis
  proof (cases "List.find (\<lambda>k. b \<le> k) ?ks")
    case f: None
    then have no: "\<not> (\<exists>l \<in> fst ` set t. b \<le> l)" unfolding find_None_iff set by blast
    obtain v where "dict_item t (last ?ks) = Inr v" "map_of t (last ?ks) = Some v"
      using item [of "last ?ks"] ne last_in_set by blast
    moreover have "\<forall>l \<in> fst ` set t. l \<le> last ?ks" using sorted_last [of ?ks] set by simp
    ultimately show ?thesis using None f ne no by (auto simp: predict_mlp_def Let_def)
  next
    case (Some k)
    from find_sorted_least [OF _ Some] set have k: "k \<in> fst ` set t" "b \<le> k" "\<forall>l \<in> fst ` set t. b \<le> l \<longrightarrow> k \<le> l" by auto
    obtain v where "dict_item t k = Inr v" "map_of t k = Some v" using item k(1) set by blast
    with None Some k show ?thesis by (auto simp: predict_mlp_def Let_def)
  qed
qed

theorem predict_mlp_nearest_witness:
  "\<exists>k v. predict_mlp [(8, 2), (1, 1), (32, 5)] 9 = Inr v \<and> map_of [(8, 2), (1, 1), (32, 5)] k = Some v \<and> 9 \<le> (k :: int)"
proof -
  have ex: "\<exists>l \<in> fst ` set [(8, 2), (1, 1), (32, 5 :: rat)]. (9 :: int) \<le> l" by simp
  from predict_mlp_nearest [of "[(8, 2), (1, 1), (32, 5)]" 9, unfolded if_P [OF ex]] show ?thesis by blast
qed

end
