(* ===== verification/Estimator.thy ===== *)
theory Estimator
  imports Predictor Orchestrator
begin

text \<open>
  The throughput estimator, \<open>src/coreflow/allocator/throughput_estimator.py\<close>: a bisection for
  the largest request rate whose prefill, decode and swap work fits into one second, and the
  table of throughputs for all context ranges. The predictor is the argument \<open>predict\<close> (with
  the meaning of \<^const>\<open>predict_latency\<close> for a fixed model), so that it may raise.
\<close>

section \<open>One rate\<close>

record request_stats =
  st_E_decode :: int
  st_E_prompt :: int
  st_E_cached :: int
  st_E_max :: rat

record estimator =
  es_chunk_size :: int
  es_swap_latency :: rat
  es_context_step :: int
  es_max_context_length :: int

type_synonym latency_fn = "int \<Rightarrow> int \<Rightarrow> int \<Rightarrow> rat \<Rightarrow> int \<Rightarrow> int \<Rightarrow> bool \<Rightarrow> rat res"

definition es_max_context_idx :: "estimator \<Rightarrow> int res" where
  "es_max_context_idx e =
     (if es_context_step e = 0 then Inl ZeroDivisionError
      else Inr (es_max_context_length e div es_context_step e))"

definition tiny :: rat where
  "tiny = 1 / 1000000000"

text \<open>The memory-limited batch size.\<close>

definition batch_max :: "int \<Rightarrow> request_stats \<Rightarrow> int res" where
  "batch_max mem r =
     (let d = st_E_cached r + st_E_prompt r + st_E_decode r div 2
      in if d = 0 then Inl ZeroDivisionError else Inr (max 1 (mem div d)))"

text \<open>
  The body of the loop for a rate \<open>mid\<close>: \<open>True\<close> when the rate is sustained and becomes the
  left end, \<open>False\<close> when it becomes the right end.
\<close>

definition sustains ::
  "latency_fn \<Rightarrow> estimator \<Rightarrow> int \<Rightarrow> request_stats \<Rightarrow> bool \<Rightarrow> int \<Rightarrow> rat \<Rightarrow> bool res" where
  "sustains predict e num_layers r interference b_max mid =
     (let E_D = st_E_decode r; E_P = st_E_prompt r; E_C = st_E_cached r;
          time_swap = min (mid * es_swap_latency e) 1
      in if 1 \<le> time_swap then Inr False
         else if es_chunk_size e = 0 then Inl ZeroDivisionError
         else
           (let E_K = (of_int E_P * mid) / of_int (es_chunk_size e);
                B = min b_max \<lceil>(of_int E_D * mid) / max E_K tiny\<rceil>
            in if B < 1 then Inr False
               else
                 bind_res (predict num_layers B (E_C + E_P + E_D div 2) (st_E_max r)
                             (min E_P (es_chunk_size e - B)) (E_C + E_P div 2) interference) (\<lambda>L_chunk.
                   let time_prefill = min (E_K * L_chunk) (1 - time_swap)
                   in if 1 - time_swap \<le> time_prefill then Inr False
                      else
                        bind_res (predict num_layers B (E_C + E_P + E_D div 2) (st_E_max r) 0 0 interference) (\<lambda>L_decode.
                          let iters = max 0 \<lfloor>(1 - time_prefill - time_swap) / max L_decode tiny\<rfloor>;
                              swap_tokens = trunc_rat (of_int B - mid) * \<lfloor>time_swap / max L_decode tiny\<rfloor>;
                              prefill_tokens = trunc_rat (of_int B - mid) * \<lfloor>time_prefill / max L_chunk tiny\<rfloor>
                          in Inr (of_int E_D * mid < of_int (swap_tokens + prefill_tokens + iters * B))))))"

section \<open>The bisection\<close>

fun bisect :: "(rat \<Rightarrow> bool res) \<Rightarrow> nat \<Rightarrow> rat \<times> rat \<Rightarrow> (rat \<times> rat) res" where
  "bisect ok 0 lr = Inr lr"
| "bisect ok (Suc n) lr =
     (let mid = (snd lr + fst lr) / 2
      in bind_res (ok mid) (\<lambda>b. bisect ok n (if b then (mid, snd lr) else (fst lr, mid))))"

definition analyze_throughput ::
  "latency_fn \<Rightarrow> estimator \<Rightarrow> int \<Rightarrow> int \<Rightarrow> request_stats \<Rightarrow> bool \<Rightarrow> rat res" where
  "analyze_throughput predict e num_layers mem r interference =
     bind_res (batch_max mem r) (\<lambda>b_max.
     bind_res (bisect (sustains predict e num_layers r interference b_max) 20 (0, 20)) (\<lambda>lr. Inr (fst lr)))"

section \<open>All ranges\<close>

definition range_throughput ::
  "latency_fn \<Rightarrow> estimator \<Rightarrow> int \<Rightarrow> int \<Rightarrow> bool \<Rightarrow> range_stats \<Rightarrow> rat option res" where
  "range_throughput predict e num_layers mem interference st =
     (if rs_avg_decode_length st = 0 then Inr None
      else
        map_sum id (\<lambda>tp. Some (tp * rs_out_proportion st / max (rs_query_proportion st) tiny))
          (analyze_throughput predict e num_layers mem
             \<lparr>st_E_decode = rs_avg_decode_length st, st_E_prompt = rs_avg_prefill_length st,
              st_E_cached = rs_avg_cached_tokens st, st_E_max = rs_max_length st\<rparr> interference))"

fun range_loop ::
  "latency_fn \<Rightarrow> estimator \<Rightarrow> int \<Rightarrow> int \<Rightarrow> string \<Rightarrow> bool \<Rightarrow> bool \<Rightarrow> (int \<times> int) list
    \<Rightarrow> analyzer \<Rightarrow> tp_cache \<Rightarrow> tp_cache res \<times> analyzer" where
  "range_loop predict e num_layers mem agent interference reuse [] a cache = (Inr cache, a)"
| "range_loop predict e num_layers mem agent interference reuse ((p, c) # ks) a cache =
     (case get_requests_in_range (p * es_context_step e) (c * es_context_step e) agent reuse True a of
        (Inl err, a') \<Rightarrow> (Inl err, a')
      | (Inr st, a') \<Rightarrow>
          (case range_throughput predict e num_layers mem interference st of
             Inl err \<Rightarrow> (Inl err, a')
           | Inr None \<Rightarrow> range_loop predict e num_layers mem agent interference reuse ks a' cache
           | Inr (Some tp) \<Rightarrow>
               range_loop predict e num_layers mem agent interference reuse ks a' (AList.update (p, c) tp cache)))"

definition range_pairs :: "int \<Rightarrow> (int \<times> int) list" where
  "range_pairs max_idx = concat (map (\<lambda>p. map (Pair p) [p + 1..max_idx]) [0..max_idx - 1])"

definition attain_instance_throughput ::
  "latency_fn \<Rightarrow> estimator \<Rightarrow> int \<Rightarrow> int \<Rightarrow> string \<Rightarrow> bool \<Rightarrow> bool \<Rightarrow> (analyzer, tp_cache) act" where
  "attain_instance_throughput predict e num_layers mem agent interference reuse a =
     (case es_max_context_idx e of
        Inl err \<Rightarrow> (Inl err, a)
      | Inr mi \<Rightarrow> range_loop predict e num_layers mem agent interference reuse (range_pairs mi) a [])"

section \<open>Lemmas\<close>

text \<open>The bisection halves the interval, keeps a sustained left end and an unsustained right end.\<close>

lemma bisect_inv:
  "bisect ok n (l, r) = Inr (l', r') \<Longrightarrow> l \<le> r \<Longrightarrow>
     l \<le> l' \<and> l' \<le> r' \<and> r' \<le> r \<and> r' - l' = (r - l) / 2 ^ n
     \<and> (l' = l \<or> ok l' = Inr True) \<and> (r' = r \<or> ok r' = Inr False)"
proof (induction n arbitrary: l r)
  case (Suc n)
  define m where "m = (r + l) / 2"
  from Suc.prems(1) obtain b where b: "ok m = Inr b"
    by (auto simp: Let_def bind_res_Inr_iff m_def)
  have rec: "bisect ok n (if b then (m, r) else (l, m)) = Inr (l', r')"
    using Suc.prems(1) b by (cases b) (simp_all add: Let_def m_def)
  have m: "l \<le> m" "m \<le> r" using Suc.prems(2) by (simp_all add: m_def)
  show ?case
  proof (cases b)
    case True
    with rec Suc.IH [of m r] m have "m \<le> l' \<and> l' \<le> r' \<and> r' \<le> r \<and> r' - l' = (r - m) / 2 ^ n
       \<and> (l' = m \<or> ok l' = Inr True) \<and> (r' = r \<or> ok r' = Inr False)" by simp
    moreover have "(r - m) / 2 ^ n = (r - l) / 2 ^ Suc n" by (simp add: m_def field_simps)
    ultimately show ?thesis using b True m by auto
  next
    case False
    with rec Suc.IH [of l m] m have "l \<le> l' \<and> l' \<le> r' \<and> r' \<le> m \<and> r' - l' = (m - l) / 2 ^ n
       \<and> (l' = l \<or> ok l' = Inr True) \<and> (r' = m \<or> ok r' = Inr False)" by simp
    moreover have "(m - l) / 2 ^ n = (r - l) / 2 ^ Suc n" by (simp add: m_def field_simps)
    ultimately show ?thesis using b False m by auto
  qed
qed simp

lemma bisect_total: "(\<And>x. \<exists>b. ok x = Inr b) \<Longrightarrow> \<exists>q. bisect ok n lr = Inr q"
proof (induction n arbitrary: lr)
  case (Suc n)
  obtain b where "ok ((snd lr + fst lr) / 2) = Inr b" using Suc.prems by blast
  moreover obtain q where "bisect ok n (if b then ((snd lr + fst lr) / 2, snd lr) else (fst lr, (snd lr + fst lr) / 2)) = Inr q"
    using Suc.IH [OF Suc.prems] by blast
  ultimately show ?case by (simp add: Let_def)
qed simp

lemma sustains_total:
  assumes "\<And>nl b al lg q s i. \<exists>v. predict nl b al lg q s i = Inr v" and "es_chunk_size e \<noteq> 0"
  shows "\<exists>b. sustains predict e nl r i bm mid = Inr b"
  unfolding sustains_def Let_def
  using assms by (intro res_total_if res_total_bind res_total_Inr) auto

lemma set_range_pairs: "(p, c) \<in> set (range_pairs n) \<longleftrightarrow> 0 \<le> p \<and> p < c \<and> c \<le> n"
proof -
  have "(p, c) \<in> set (range_pairs n) \<longleftrightarrow> (\<exists>x. 0 \<le> x \<and> x \<le> n - 1 \<and> p = x \<and> x + 1 \<le> c \<and> c \<le> n)"
    unfolding range_pairs_def by (auto simp: image_iff)
  then show ?thesis by auto
qed

lemma range_loop_keys:
  "range_loop predict e nl mem ag i reuse ks a cache = (Inr cache', a') \<Longrightarrow>
     ((p, c), tp) \<in> set cache' \<Longrightarrow> ((p, c), tp) \<in> set cache \<or> (p, c) \<in> set ks"
proof (induction predict e nl mem ag i reuse ks a cache arbitrary: cache' rule: range_loop.induct)
  case (2 predict e nl mem ag i reuse p' c' ks a cache)
  have upd: "x \<in> set cache \<or> fst x = (p', c')" if "x \<in> set (AList.update (p', c') v cache)" for x v
    using that update_keys [of "(p', c')" v cache]
    by (induction cache) (auto split: if_splits)
  from 2 upd show ?case
    by (auto split: prod.splits sum.splits option.splits) (metis fst_conv upd)+
qed simp

lemma range_loop_analyzer:
  "range_loop predict e nl mem ag i reuse ks a cache = (res, a') \<Longrightarrow> analyzer_ok a \<Longrightarrow>
     analyzer_ok a' \<and> an_node_list a' = an_node_list a"
proof (induction predict e nl mem ag i reuse ks a cache rule: range_loop.induct)
  case (2 predict e nl mem ag i reuse p c ks a cache)
  obtain r a1 where g: "get_requests_in_range (p * es_context_step e) (c * es_context_step e) ag reuse True a = (r, a1)"
    by fastforce
  note G = get_requests_ok [OF "2.prems"(2), of "p * es_context_step e" "c * es_context_step e" ag reuse True, unfolded g]
  then have a1: "analyzer_ok a1" "an_node_list a1 = an_node_list a" by simp_all
  show ?case
  proof (cases r)
    case (Inl err)
    with g "2.prems"(1) a1 show ?thesis by simp
  next
    case (Inr st)
    show ?thesis
    proof (cases "range_throughput predict e nl mem i st")
      case (Inl err)
      with g "2.prems"(1) a1 Inr show ?thesis by simp
    next
      case t: (Inr ot)
      with g "2.prems"(1) a1 Inr "2.IH" [OF g [symmetric] Inr t] show ?thesis
        by (cases ot) auto
    qed
  qed
qed simp

lemma throughput_table_cache_ok:
  assumes "attain_instance_throughput predict e nl mem ag i reuse a = (Inr cache, a')"
    and "es_max_context_idx e = Inr mi"
  shows "cache_ok cache (nat mi)"
proof -
  from assms have r: "range_loop predict e nl mem ag i reuse (range_pairs mi) a [] = (Inr cache, a')"
    by (simp add: attain_instance_throughput_def)
  have "0 \<le> p \<and> p \<le> int (nat mi)" if "((p, c), tp) \<in> set cache" for p c tp
    using range_loop_keys [OF r that] by (auto simp: set_range_pairs)
  then show ?thesis by (auto simp: cache_ok_def)
qed

section \<open>Properties\<close>

text \<open>A latency of one millisecond per iteration.\<close>

definition example_predict :: latency_fn where
  "example_predict nl b al lg q s i = Inr (1 / 1000)"

definition example_estimator :: estimator where
  "example_estimator = \<lparr>es_chunk_size = 512, es_swap_latency = 1 / 10, es_context_step = 2000,
     es_max_context_length = 4000\<rparr>"

definition example_stats :: request_stats where
  "example_stats = \<lparr>st_E_decode = 100, st_E_prompt = 1000, st_E_cached = 0, st_E_max = 2000\<rparr>"



text \<open>
  The table of throughputs only has keys \<open>(p, c)\<close> with \<open>0 <= p < c <= max\<close>, and
  computing it leaves the traces and the correctness of the analyzer's cache untouched.
\<close>

theorem throughput_table_keys:
  assumes "analyzer_ok a" and "es_max_context_idx e = Inr mi"
    and "attain_instance_throughput predict e nl mem ag i reuse a = (Inr cache, a')"
  shows "fst ` set cache \<subseteq> {(p, c). 0 \<le> p \<and> p < c \<and> c \<le> mi} \<and> cache_ok cache (nat mi)
    \<and> analyzer_ok a' \<and> an_node_list a' = an_node_list a"
proof -
  from assms(2,3) have r: "range_loop predict e nl mem ag i reuse (range_pairs mi) a [] = (Inr cache, a')"
    by (simp add: attain_instance_throughput_def)
  have "analyzer_ok a' \<and> an_node_list a' = an_node_list a"
    using r assms(1) by (rule range_loop_analyzer)
  moreover have "fst ` set cache \<subseteq> {(p, c). 0 \<le> p \<and> p < c \<and> c \<le> mi}"
    using range_loop_keys [OF r] by (auto simp: set_range_pairs)
  ultimately show ?thesis using throughput_table_cache_ok [OF assms(3,2)] by blast
qed

definition one_range_estimator :: estimator where
  "one_range_estimator = example_estimator\<lparr>es_max_context_length := 2000\<rparr>"

definition example_analyzer :: analyzer where
  "example_analyzer = \<lparr>an_node_list = example_traces, an_range_cache = []\<rparr>"

theorem throughput_table_keys_witness:
  "\<exists>cache a'. attain_instance_throughput example_predict one_range_estimator 32 200000 ''coder'' False True example_analyzer
      = (Inr cache, a') \<and> length cache = 1
    \<and> fst ` set cache \<subseteq> {(p, c). 0 \<le> p \<and> p < c \<and> c \<le> 1} \<and> cache_ok cache (nat 1)"
proof -
  let ?st = "\<lparr>rs_avg_decode_length = 30, rs_avg_prefill_length = 2000, rs_avg_cached_tokens = 0, rs_max_length = 2030,
      rs_out_proportion = 1, rs_query_proportion = 1\<rparr>"
  let ?r = "\<lparr>st_E_decode = 30, st_E_prompt = 2000, st_E_cached = 0, st_E_max = 2030\<rparr>"
  have "get_requests_in_range 0 2000 ''coder'' True True example_analyzer
      = (Inr ?st, snd (get_requests_in_range 0 2000 ''coder'' True True example_analyzer))" by code_simp
  then obtain a1 where g: "get_requests_in_range 0 2000 ''coder'' True True example_analyzer = (Inr ?st, a1)" by blast
  have bm: "batch_max 200000 ?r = Inr 99" by code_simp
  have "\<exists>q. bisect (sustains example_predict one_range_estimator 32 ?r False 99) 20 (0, 20) = Inr q"
  proof (intro bisect_total sustains_total)
    show "\<exists>v. example_predict nl b al lg q s i = Inr v" for nl b al lg q s i
      unfolding example_predict_def by blast
    show "es_chunk_size one_range_estimator \<noteq> 0" by code_simp
  qed
  then obtain q where q: "bisect (sustains example_predict one_range_estimator 32 ?r False 99) 20 (0, 20) = Inr q" by blast
  define tp where "tp = fst q * 1 / max 1 tiny"
  have tp: "range_throughput example_predict one_range_estimator 32 200000 False ?st = Inr (Some tp)"
    by (simp add: range_throughput_def analyze_throughput_def bm q tp_def)
  have mi: "es_max_context_idx one_range_estimator = Inr 1" by code_simp
  have rp: "range_pairs 1 = [(0, 1)]" by code_simp
  have step: "es_context_step one_range_estimator = 2000" by code_simp
  have "attain_instance_throughput example_predict one_range_estimator 32 200000 ''coder'' False True example_analyzer
      = (Inr [((0, 1), tp)], a1)"
    by (simp add: attain_instance_throughput_def mi rp step g tp)
  moreover have "analyzer_ok example_analyzer" by (simp add: analyzer_ok_def example_analyzer_def)
  ultimately show ?thesis
    using throughput_table_keys [OF _ mi, of example_analyzer example_predict 32 200000 "''coder''" False True
        "[((0, 1), tp)]" a1] by (intro exI [of _ "[((0, 1), tp)]"] exI [of _ a1]) simp
qed

end
