(* ===== verification/Allocator.thy ===== *)
theory Allocator
  imports Estimator
begin

text \<open>
  GPU budgets: \<open>src/coreflow/allocator/agent_allocator.py\<close> computes the curve of one agent
  (throughput table, then \<^const>\<open>solve\<close>), and \<open>src/coreflow/allocator/workflow_allocator.py\<close>
  starts every agent with one instance and keeps giving one more to the agent with the
  lowest throughput per invocation.
\<close>

section \<open>One agent\<close>

definition agent_allocate ::
  "latency_fn \<Rightarrow> estimator \<Rightarrow> orchestrator \<Rightarrow> int \<Rightarrow> int \<Rightarrow> int \<Rightarrow> string \<Rightarrow> int \<Rightarrow> int \<Rightarrow> bool \<Rightarrow> bool
    \<Rightarrow> (analyzer, (int, assignment) dict) act" where
  "agent_allocate predict e o1 num_layers budget mem agent max_groups min_groups interference reuse a =
     (case attain_instance_throughput predict e num_layers mem agent interference reuse a of
        (Inl err, a') \<Rightarrow> (Inl err, a')
      | (Inr cache, a') \<Rightarrow> (solve o1 budget cache max_groups min_groups, a'))"

section \<open>The workflow\<close>

type_synonym curves = "(string, (int, assignment) dict) dict"

record workflow_allocation =
  wa_gpu_allocation :: "(string, int) dict"
  wa_agent_throughput :: "(string, rat) dict"
  wa_dp_results :: curves
  wa_min_throughput :: rat
  wa_agent_invocations :: "(string, rat) dict"
  wa_iterations :: nat

definition workflow_allocation_empty :: workflow_allocation where
  "workflow_allocation_empty = \<lparr>wa_gpu_allocation = [], wa_agent_throughput = [], wa_dp_results = [],
     wa_min_throughput = 0, wa_agent_invocations = [], wa_iterations = 0\<rparr>"

definition normalized_throughput :: "curves \<Rightarrow> (string, rat) dict \<Rightarrow> string \<Rightarrow> int \<Rightarrow> rat res" where
  "normalized_throughput dp invs agent g =
     (let invocations = (case map_of invs agent of None \<Rightarrow> 0 | Some x \<Rightarrow> x)
      in if invocations \<le> 0 then Inr 0
         else
           bind_res (dict_item dp agent) (\<lambda>curve.
           bind_res (dict_item curve g) (\<lambda>a. Inr (as_throughput a / invocations))))"

definition normalized_throughputs ::
  "string list \<Rightarrow> int list \<Rightarrow> curves \<Rightarrow> (string, rat) dict \<Rightarrow> rat list res" where
  "normalized_throughputs agents gpus dp invs =
     map_res (\<lambda>i. normalized_throughput dp invs (agents ! i) (gpus ! i)) [0..<length agents]"

text \<open>\<open>min(range(n), key=lambda i: (throughputs[i], agents[i]))\<close>\<close>

definition bottleneck_idx :: "string list \<Rightarrow> rat list \<Rightarrow> nat" where
  "bottleneck_idx agents tps = the (min_by (\<lambda>i. (tps ! i, agents ! i)) [0..<length agents])"

function alloc_loop ::
  "string list \<Rightarrow> curves \<Rightarrow> (string, rat) dict \<Rightarrow> int \<Rightarrow> int \<Rightarrow> int \<Rightarrow> int list \<Rightarrow> nat \<Rightarrow> (int list \<times> nat) res" where
  "alloc_loop agents dp invs G budget allocated gpus iters =
     (if allocated < budget \<and> 0 < G then
        (case normalized_throughputs agents gpus dp invs of
           Inl e \<Rightarrow> Inl e
         | Inr tps \<Rightarrow>
             (let b = bottleneck_idx agents tps
              in alloc_loop agents dp invs G budget (allocated + G) (gpus[b := gpus ! b + G]) (Suc iters)))
      else Inr (gpus, iters))"
  by pat_completeness auto
termination
  by (relation "measure (\<lambda>(agents, dp, invs, G, budget, allocated, gpus, iters). nat (budget - allocated))") auto

declare alloc_loop.simps [simp del]

definition dict_of_zip :: "'k list \<Rightarrow> 'v list \<Rightarrow> ('k, 'v) dict" where
  "dict_of_zip ks vs = foldl (\<lambda>d (k, v). AList.update k v d) [] (zip ks vs)"

text \<open>Everything after the checks, for given curves and invocation counts.\<close>

definition distribute ::
  "string list \<Rightarrow> int \<Rightarrow> int \<Rightarrow> curves \<Rightarrow> (string, rat) dict \<Rightarrow> workflow_allocation res" where
  "distribute agents budget G dp invs =
     bind_res (alloc_loop agents dp invs G budget (int (length agents) * G) (replicate (length agents) G) 0) (\<lambda>(gpus, iters).
     bind_res (normalized_throughputs agents gpus dp invs) (\<lambda>tps.
       Inr \<lparr>wa_gpu_allocation = dict_of_zip agents gpus, wa_agent_throughput = dict_of_zip agents tps,
            wa_dp_results = dp, wa_min_throughput = Min (set (map snd (dict_of_zip agents tps))),
            wa_agent_invocations = invs, wa_iterations = iters\<rparr>))"

definition check_budget :: "string list \<Rightarrow> int \<Rightarrow> int \<Rightarrow> unit res" where
  "check_budget agents budget G =
     (if G \<le> 0 then Inl ValueError
      else if budget mod G \<noteq> 0 then Inl ValueError
      else if budget < int (length agents) * G then Inl ValueError
      else Inr ())"

fun agent_curves ::
  "(string \<Rightarrow> (analyzer, (int, assignment) dict) act) \<Rightarrow> string list \<Rightarrow> analyzer \<Rightarrow> curves \<Rightarrow> curves res \<times> analyzer" where
  "agent_curves alloc [] a dp = (Inr dp, a)"
| "agent_curves alloc (ag # ags) a dp =
     (case alloc ag a of
        (Inl e, a') \<Rightarrow> (Inl e, a')
      | (Inr curve, a') \<Rightarrow> agent_curves alloc ags a' (AList.update ag curve dp))"

definition workflow_allocate ::
  "rat \<Rightarrow> latency_fn \<Rightarrow> estimator \<Rightarrow> orchestrator \<Rightarrow> string list \<Rightarrow> int \<Rightarrow> int \<Rightarrow> int \<Rightarrow> int \<Rightarrow> int \<Rightarrow> int
    \<Rightarrow> bool \<Rightarrow> bool \<Rightarrow> (analyzer, workflow_allocation) act" where
  "workflow_allocate nan predict e o1 agents budget num_layers mem G max_groups min_groups interference reuse a =
     (if agents = [] then (Inr workflow_allocation_empty, a)
      else (case check_budget agents budget G of
              Inl err \<Rightarrow> (Inl err, a)
            | Inr _ \<Rightarrow>
                (case avg_num_invocations nan (an_node_list a) agents of
                   Inl err \<Rightarrow> (Inl err, a)
                 | Inr invs \<Rightarrow>
                     (case agent_curves (\<lambda>ag. agent_allocate predict e o1 num_layers budget mem ag max_groups min_groups
                                               interference reuse) agents a [] of
                        (Inl err, a') \<Rightarrow> (Inl err, a')
                      | (Inr dp, a') \<Rightarrow> (distribute agents budget G dp invs, a')))))"

section \<open>Curves\<close>

definition norm_tp :: "curves \<Rightarrow> (string, rat) dict \<Rightarrow> string \<Rightarrow> int \<Rightarrow> rat" where
  "norm_tp dp invs agent g = projr (normalized_throughput dp invs agent g)"

text \<open>Every agent has a value for every budget up to the total, and more GPUs never lower it.\<close>

definition curves_ok :: "curves \<Rightarrow> (string, rat) dict \<Rightarrow> string list \<Rightarrow> int \<Rightarrow> bool" where
  "curves_ok dp invs agents budget \<longleftrightarrow> (\<forall>a \<in> set agents.
     (\<forall>g. 0 \<le> g \<and> g \<le> budget \<longrightarrow> normalized_throughput dp invs a g = Inr (norm_tp dp invs a g))
     \<and> (\<forall>g g'. 0 \<le> g \<and> g \<le> g' \<and> g' \<le> budget \<longrightarrow> norm_tp dp invs a g \<le> norm_tp dp invs a g'))"

lemma sum_list_ge_nth_int:
  fixes xs :: "int list"
  assumes "\<forall>x \<in> set xs. 0 \<le> x" "i < length xs"
  shows "xs ! i \<le> sum_list xs"
  using assms
proof (induction xs arbitrary: i)
  case (Cons x xs)
  have "0 \<le> sum_list xs" using Cons.prems(1) by (intro sum_list_nonneg) auto
  moreover have "xs ! k \<le> sum_list xs" if "k < length xs" for k using Cons that by simp
  moreover have "0 \<le> x" using Cons.prems(1) by simp
  ultimately show ?case using Cons.prems(2) by (cases i) (simp, force)
qed simp

lemma sum_list_update_int:
  fixes xs :: "int list"
  shows "i < length xs \<Longrightarrow> sum_list (xs[i := xs ! i + d]) = sum_list xs + d"
  by (induction xs arbitrary: i) (auto split: nat.splits)

lemma sum_list_smaller_int:
  fixes xs ys :: "int list"
  assumes "length xs = length ys" "sum_list xs = sum_list ys" "j < length xs" "xs ! j < ys ! j"
  shows "\<exists>i < length xs. ys ! i < xs ! i"
proof (rule ccontr)
  assume "\<not> (\<exists>i < length xs. ys ! i < xs ! i)"
  then have le: "\<And>i. i < length xs \<Longrightarrow> xs ! i \<le> ys ! i" by (meson not_less)
  have "sum_list xs = (\<Sum>i < length xs. xs ! i)" "sum_list ys = (\<Sum>i < length xs. ys ! i)"
    using assms(1) by (simp_all add: sum_list_sum_nth atLeast0LessThan)
  moreover have "(\<Sum>i < length xs. xs ! i) < (\<Sum>i < length xs. ys ! i)"
    using le assms(3,4) by (intro sum_strict_mono_ex1) auto
  ultimately show False using assms(2) by simp
qed

section \<open>The distribution loop\<close>

definition shares_ok :: "nat \<Rightarrow> int \<Rightarrow> int \<Rightarrow> int list \<Rightarrow> bool" where
  "shares_ok n G s gpus \<longleftrightarrow> length gpus = n \<and> (\<forall>g \<in> set gpus. G \<le> g \<and> G dvd g) \<and> sum_list gpus = s"

text \<open>No agent with more than one instance could give one up without falling to or below the minimum.\<close>

definition fair :: "string list \<Rightarrow> curves \<Rightarrow> (string, rat) dict \<Rightarrow> int \<Rightarrow> int list \<Rightarrow> bool" where
  "fair agents dp invs G gpus \<longleftrightarrow> (\<forall>i < length agents. \<forall>j < length agents. G < gpus ! i \<longrightarrow>
     norm_tp dp invs (agents ! i) (gpus ! i - G) \<le> norm_tp dp invs (agents ! j) (gpus ! j))"

lemma shares_bound:
  assumes "shares_ok n G s gpus" "0 < G" "i < n" "s \<le> budget"
  shows "0 \<le> gpus ! i" "gpus ! i \<le> budget" "G \<le> gpus ! i" "G dvd gpus ! i"
proof -
  have mem: "gpus ! i \<in> set gpus" using assms(1,3) by (simp add: shares_ok_def)
  then show "G \<le> gpus ! i" "G dvd gpus ! i" using assms(1) by (auto simp: shares_ok_def)
  then show "0 \<le> gpus ! i" using assms(2) by simp
  have "\<forall>x \<in> set gpus. 0 \<le> x" using assms(1,2) by (fastforce simp: shares_ok_def)
  from sum_list_ge_nth_int [OF this, of i] show "gpus ! i \<le> budget" using assms(1,3,4) by (simp add: shares_ok_def)
qed

lemma normalized_throughputs_ok:
  assumes "curves_ok dp invs agents budget" "shares_ok (length agents) G s gpus" "0 < G" "s \<le> budget"
  shows "normalized_throughputs agents gpus dp invs
    = Inr (map (\<lambda>i. norm_tp dp invs (agents ! i) (gpus ! i)) [0..<length agents])"
  unfolding normalized_throughputs_def
  using assms shares_bound [OF assms(2,3) _ assms(4)]
  by (intro map_res_all_Inr) (auto simp: curves_ok_def)

lemma bottleneck_least:
  assumes "agents \<noteq> []" and "length tps = length agents"
  defines "b \<equiv> bottleneck_idx agents tps"
  shows "b < length agents" and "j < length agents \<Longrightarrow> tps ! b \<le> tps ! j"
proof -
  let ?f = "\<lambda>i. (tps ! i, agents ! i)"
  obtain m where m: "min_by ?f [0..<length agents] = Some m" using min_by_ex [of "[0..<length agents]" ?f] assms(1) by auto
  then have b: "b = m" by (simp add: b_def bottleneck_idx_def)
  show "b < length agents" using min_by_mem [OF m] b by simp
  show "tps ! b \<le> tps ! j" if "j < length agents"
    using min_by_le [OF m, of j] that b by (auto simp: less_eq_prod_def)
qed

lemma shares_step:
  assumes "shares_ok n G s gpus" "0 < G" "b < n"
  shows "shares_ok n G (s + G) (gpus[b := gpus ! b + G])"
proof -
  have "G \<le> gpus ! b + G \<and> G dvd gpus ! b + G"
    using shares_bound(3,4) [OF assms order_refl] assms(2) by simp
  then have "\<forall>g \<in> set (gpus[b := gpus ! b + G]). G \<le> g \<and> G dvd g"
    using assms(1) set_update_subset_insert [of gpus b "gpus ! b + G"] unfolding shares_ok_def by blast
  then show ?thesis using assms sum_list_update_int [of b gpus G] by (simp add: shares_ok_def)
qed

lemma fair_step:
  assumes ok: "curves_ok dp invs agents budget" and sh: "shares_ok (length agents) G s gpus" and G: "0 < G"
    and s: "s + G \<le> budget" and fair: "fair agents dp invs G gpus" and b: "b < length agents"
    and least: "\<And>j. j < length agents \<Longrightarrow> norm_tp dp invs (agents ! b) (gpus ! b) \<le> norm_tp dp invs (agents ! j) (gpus ! j)"
  shows "fair agents dp invs G (gpus[b := gpus ! b + G])"
proof -
  let ?g = "gpus[b := gpus ! b + G]"
  have len: "length gpus = length agents" using sh by (simp add: shares_ok_def)
  note sh' = shares_step [OF sh G b]
  have mono: "norm_tp dp invs (agents ! j) (gpus ! j) \<le> norm_tp dp invs (agents ! j) (?g ! j)" if "j < length agents" for j
  proof -
    have "gpus ! j \<le> ?g ! j" using that len G by (cases "j = b") auto
    moreover have "0 \<le> gpus ! j" "?g ! j \<le> budget"
      using shares_bound(1) [OF sh G that] shares_bound(2) [OF sh' G that s] s G by auto
    ultimately show ?thesis using ok that unfolding curves_ok_def by (meson nth_mem)
  qed
  have "norm_tp dp invs (agents ! i) (?g ! i - G) \<le> norm_tp dp invs (agents ! j) (?g ! j)"
    if "i < length agents" "j < length agents" "G < ?g ! i" for i j
  proof (cases "i = b")
    case True
    then have "norm_tp dp invs (agents ! i) (?g ! i - G) = norm_tp dp invs (agents ! b) (gpus ! b)" using b len by simp
    with least [OF that(2)] mono [OF that(2)] show ?thesis by simp
  next
    case False
    with that fair have "norm_tp dp invs (agents ! i) (?g ! i - G) \<le> norm_tp dp invs (agents ! j) (gpus ! j)"
      by (simp add: fair_def)
    with mono [OF that(2)] show ?thesis by simp
  qed
  then show ?thesis by (simp add: fair_def)
qed

lemma alloc_loop_ok:
  assumes ok: "curves_ok dp invs agents budget" and ne: "agents \<noteq> []" and G: "0 < G" "G dvd budget"
  shows "shares_ok (length agents) G allocated gpus \<Longrightarrow> fair agents dp invs G gpus \<Longrightarrow> G dvd allocated \<Longrightarrow>
    allocated \<le> budget \<Longrightarrow>
    \<exists>gpus'. alloc_loop agents dp invs G budget allocated gpus iters = Inr (gpus', iters + nat ((budget - allocated) div G))
      \<and> shares_ok (length agents) G budget gpus' \<and> fair agents dp invs G gpus'"
proof (induction "nat (budget - allocated)" arbitrary: allocated gpus iters rule: less_induct)
  case less
  show ?case
  proof (cases "allocated < budget")
    case False
    with less.prems show ?thesis by (auto simp: alloc_loop.simps)
  next
    case True
    have "G dvd budget - allocated" using G(2) less.prems(3) by simp
    then have step: "allocated + G \<le> budget" using True by (metis diff_add_cancel diff_gt_0_iff_gt le_diff_eq zdvd_imp_le add.commute)
    let ?tps = "map (\<lambda>i. norm_tp dp invs (agents ! i) (gpus ! i)) [0..<length agents]"
    have tps: "normalized_throughputs agents gpus dp invs = Inr ?tps"
      using normalized_throughputs_ok [OF ok less.prems(1) G(1)] less.prems(4) by simp
    define b where "b = bottleneck_idx agents ?tps"
    have b: "b < length agents" using bottleneck_least(1) [OF ne, of ?tps] by (simp add: b_def)
    have "?tps ! b \<le> ?tps ! j" if "j < length agents" for j
      using bottleneck_least(2) [OF ne, of ?tps j] that by (simp add: b_def)
    then have least: "norm_tp dp invs (agents ! b) (gpus ! b) \<le> norm_tp dp invs (agents ! j) (gpus ! j)"
      if "j < length agents" for j using that b by force
    have m: "nat (budget - (allocated + G)) < nat (budget - allocated)" using True G by simp
    obtain gpus' where rec: "alloc_loop agents dp invs G budget (allocated + G) (gpus[b := gpus ! b + G]) (Suc iters)
        = Inr (gpus', Suc iters + nat ((budget - (allocated + G)) div G))"
      and sh: "shares_ok (length agents) G budget gpus'" "fair agents dp invs G gpus'"
      using less.hyps [OF m shares_step [OF less.prems(1) G(1) b]
          fair_step [OF ok less.prems(1) G(1) step less.prems(2) b least] _ step, of "Suc iters"] less.prems(3) by auto
    have dv: "(budget - allocated) div G = (budget - (allocated + G)) div G + 1"
      using G(1) by (metis add.commute diff_add_cancel diff_diff_eq div_add_self2 less_irrefl)
    have "0 \<le> (budget - (allocated + G)) div G" using step G(1) by (simp add: pos_imp_zdiv_nonneg_iff)
    then have "Suc iters + nat ((budget - (allocated + G)) div G) = iters + nat ((budget - allocated) div G)"
      unfolding dv by (simp add: nat_add_distrib)
    then have "alloc_loop agents dp invs G budget allocated gpus iters
        = Inr (gpus', iters + nat ((budget - allocated) div G))"
      using True G(1) tps rec by (subst alloc_loop.simps) (simp add: Let_def b_def [symmetric])
    with sh show ?thesis by blast
  qed
qed

lemma fair_optimal:
  assumes ok: "curves_ok dp invs agents budget" and G: "0 < G"
    and sh: "shares_ok (length agents) G budget gpus" and fair: "fair agents dp invs G gpus"
    and other: "shares_ok (length agents) G budget ms" and j: "j < length agents"
  shows "\<exists>i < length agents. norm_tp dp invs (agents ! i) (ms ! i) \<le> norm_tp dp invs (agents ! j) (gpus ! j)"
proof -
  note B = shares_bound [OF sh G _ order_refl] and M = shares_bound [OF other G _ order_refl]
  have mono: "norm_tp dp invs (agents ! i) g \<le> norm_tp dp invs (agents ! i) g'"
    if "i < length agents" "0 \<le> g" "g \<le> g'" "g' \<le> budget" for i g g'
    using ok that unfolding curves_ok_def by (meson nth_mem)
  show ?thesis
  proof (cases "ms ! j \<le> gpus ! j")
    case True
    with mono [OF j _ True] M(1) [OF j] B(2) [OF j] j show ?thesis by blast
  next
    case False
    then have "gpus ! j < ms ! j" by simp
    from sum_list_smaller_int [OF _ _ _ this] sh other j obtain i where i: "i < length agents" "ms ! i < gpus ! i"
      by (auto simp: shares_ok_def)
    have "G dvd gpus ! i - ms ! i" using B(4) M(4) i(1) by simp
    then have "ms ! i \<le> gpus ! i - G" using i(2) zdvd_imp_le [of G "gpus ! i - ms ! i"] by simp
    then have "norm_tp dp invs (agents ! i) (ms ! i) \<le> norm_tp dp invs (agents ! i) (gpus ! i - G)"
      using mono [OF i(1), of "ms ! i" "gpus ! i - G"] M(1) [OF i(1)] B(2) [OF i(1)] G by simp
    moreover have "G < gpus ! i" using M(3) [OF i(1)] i(2) by simp
    then have "norm_tp dp invs (agents ! i) (gpus ! i - G) \<le> norm_tp dp invs (agents ! j) (gpus ! j)"
      using fair i(1) j by (simp add: fair_def)
    ultimately show ?thesis using i(1) by force
  qed
qed

section \<open>Curves of the agents\<close>

lemma agent_curves_mem:
  "agent_curves alloc ags a dp = (Inr dp', a') \<Longrightarrow> ag \<in> set ags \<or> (\<exists>c. map_of dp ag = Some c \<and> P c) \<Longrightarrow>
   (\<And>g a1 c a2. alloc g a1 = (Inr c, a2) \<Longrightarrow> P c) \<Longrightarrow> \<exists>c. map_of dp' ag = Some c \<and> P c"
proof (induction ags arbitrary: a dp)
  case (Cons g ags)
  from Cons.prems(1) obtain c a1 where c: "alloc g a = (Inr c, a1)"
    and rec: "agent_curves alloc ags a1 (AList.update g c dp) = (Inr dp', a')"
    by (auto split: prod.splits sum.splits)
  have "ag \<in> set ags \<or> (\<exists>c'. map_of (AList.update g c dp) ag = Some c' \<and> P c')"
    using Cons.prems(2) Cons.prems(3) [OF c] by (auto simp: update_conv')
  from Cons.IH [OF rec this] Cons.prems(3) show ?case by blast
qed auto

text \<open>A curve: a throughput for every budget, nonnegative and nondecreasing.\<close>

definition curve_ok :: "int \<Rightarrow> (int, assignment) dict \<Rightarrow> bool" where
  "curve_ok budget c \<longleftrightarrow> (\<forall>g g'. 0 \<le> g \<and> g \<le> g' \<and> g' \<le> budget \<longrightarrow>
     (\<exists>a b. map_of c g = Some a \<and> map_of c g' = Some b \<and> as_throughput a \<le> as_throughput b))"

lemma agent_allocate_curve:
  assumes "agent_allocate predict e o1 nl budget mem ag mx mn i reuse a = (Inr c, a')"
    and "or_max_context_idx o1 = Inr (int m)" "es_max_context_idx e = Inr (int m)" "0 \<le> mx" "0 < or_dp_gpu_step o1"
  shows "curve_ok budget c"
proof -
  from assms(1) obtain cache where t: "attain_instance_throughput predict e nl mem ag i reuse a = (Inr cache, a')"
    and s: "solve o1 budget cache mx mn = Inr c"
    by (auto simp: agent_allocate_def split: prod.splits sum.splits)
  have ok: "cache_ok cache m" using throughput_table_cache_ok [OF t assms(3)] by simp
  show ?thesis using solve_monotone [OF assms(2) ok assms(4,5) s] unfolding curve_ok_def by blast
qed

lemma curves_okI:
  assumes "\<And>a. a \<in> set agents \<Longrightarrow> \<exists>c. map_of dp a = Some c \<and> curve_ok budget c"
  shows "curves_ok dp invs agents budget"
  unfolding curves_ok_def
proof (intro ballI conjI allI impI)
  fix a assume "a \<in> set agents"
  then obtain c where c: "map_of dp a = Some c" "curve_ok budget c" using assms by blast
  let ?n = "case map_of invs a of None \<Rightarrow> 0 | Some x \<Rightarrow> x"
  have val: "normalized_throughput dp invs a g = Inr (if ?n \<le> 0 then 0 else as_throughput (the (map_of c g)) / ?n)"
    if g: "0 \<le> g" "g \<le> budget" for g
  proof -
    obtain x where "map_of c g = Some x" using c(2) [unfolded curve_ok_def, rule_format, of g g] g by auto
    then show ?thesis using c(1) by (simp add: normalized_throughput_def dict_item_def Let_def)
  qed
  show "normalized_throughput dp invs a g = Inr (norm_tp dp invs a g)" if "0 \<le> g \<and> g \<le> budget" for g
    using val that by (simp add: norm_tp_def)
  fix g g' assume g: "0 \<le> g \<and> g \<le> g' \<and> g' \<le> budget"
  then obtain x y where xy: "map_of c g = Some x" "map_of c g' = Some y" "as_throughput x \<le> as_throughput y"
    using c(2) unfolding curve_ok_def by blast
  have "as_throughput x / ?n \<le> as_throughput y / ?n" if "0 < ?n"
    using xy(3) that by (simp add: divide_right_mono)
  then show "norm_tp dp invs a g \<le> norm_tp dp invs a g'"
    using val [of g] val [of g'] g xy by (auto simp: norm_tp_def)
qed

lemma update_fresh: "k \<notin> set (map fst d) \<Longrightarrow> AList.update k v d = d @ [(k, v)]"
  by (induction d) auto

lemma dict_of_zip_distinct:
  assumes "distinct ks" "length vs = length ks"
  shows "dict_of_zip ks vs = zip ks vs"
proof -
  have "foldl (\<lambda>d (k, v). AList.update k v d) acc kvs = acc @ kvs"
    if "distinct (map fst kvs)" "set (map fst kvs) \<inter> set (map fst acc) = {}" for acc kvs :: "('a \<times> 'b) list"
    using that
  proof (induction kvs arbitrary: acc)
    case (Cons kv kvs)
    have "AList.update (fst kv) (snd kv) acc = acc @ [kv]"
      using Cons.prems(2) by (cases kv) (auto intro: update_fresh)
    with Cons show ?case by (cases kv) auto
  qed simp
  from this [of "zip ks vs" "[]"] assms show ?thesis by (simp add: dict_of_zip_def)
qed

section \<open>The distribution as a whole\<close>

lemma check_budgetD:
  "check_budget agents budget G = Inr u \<Longrightarrow> 0 < G \<and> G dvd budget \<and> int (length agents) * G \<le> budget"
  by (auto simp: check_budget_def split: if_splits)

lemma distribute_facts:
  assumes ok: "curves_ok dp invs agents budget" and ne: "agents \<noteq> []" and d: "distinct agents"
    and check: "check_budget agents budget G = Inr u"
  shows "\<exists>wa gpus. distribute agents budget G dp invs = Inr wa \<and> wa_gpu_allocation wa = zip agents gpus
    \<and> shares_ok (length agents) G budget gpus \<and> fair agents dp invs G gpus
    \<and> wa_iterations wa = nat (budget div G) - length agents
    \<and> (\<exists>j < length agents. wa_min_throughput wa = norm_tp dp invs (agents ! j) (gpus ! j))
    \<and> (\<forall>j < length agents. wa_min_throughput wa \<le> norm_tp dp invs (agents ! j) (gpus ! j))"
proof -
  let ?n = "length agents" and ?s = "int (length agents) * G"
  have G: "0 < G" "G dvd budget" and fits: "?s \<le> budget" using check_budgetD [OF check] by auto
  have start: "shares_ok ?n G ?s (replicate ?n G)" by (auto simp: shares_ok_def sum_list_replicate)
  have "fair agents dp invs G (replicate ?n G)" by (simp add: fair_def)
  from alloc_loop_ok [OF ok ne G start this _ fits, of 0] obtain gpus where
    run: "alloc_loop agents dp invs G budget ?s (replicate ?n G) 0 = Inr (gpus, nat ((budget - ?s) div G))"
    and sh: "shares_ok ?n G budget gpus" and fair: "fair agents dp invs G gpus" by auto
  let ?f = "\<lambda>i. norm_tp dp invs (agents ! i) (gpus ! i)"
  let ?tps = "map ?f [0..<?n]"
  have tps: "normalized_throughputs agents gpus dp invs = Inr ?tps"
    by (rule normalized_throughputs_ok [OF ok sh G(1) order_refl])
  have z: "dict_of_zip agents ?tps = zip agents ?tps" "dict_of_zip agents gpus = zip agents gpus"
    by (rule dict_of_zip_distinct [OF d], use sh in \<open>simp add: shares_ok_def\<close>)+
  let ?M = "Min (set ?tps)"
  have "map snd (zip agents ?tps) = ?tps" by simp
  then have dist: "distribute agents budget G dp invs = Inr \<lparr>wa_gpu_allocation = zip agents gpus,
      wa_agent_throughput = zip agents ?tps, wa_dp_results = dp, wa_min_throughput = ?M, wa_agent_invocations = invs,
      wa_iterations = nat ((budget - ?s) div G)\<rparr>"
    by (simp only: distribute_def run tps z bind_res_simps prod.case)
  have it: "nat ((budget - ?s) div G) = nat (budget div G) - ?n"
    using div_mult_self1 [of G budget "- int ?n"] G(1) by (simp add: nat_diff_distrib')
  have ne': "set ?tps \<noteq> {}" using ne by simp
  have "?M \<in> set ?tps" by (rule Min_in) (use ne' in simp_all)
  then have "\<exists>j < ?n. ?M = ?f j" by auto
  moreover have "\<forall>j < ?n. ?M \<le> ?f j" by simp
  ultimately show ?thesis using dist sh fair it
    by (intro exI [of _ "\<lparr>wa_gpu_allocation = zip agents gpus,
      wa_agent_throughput = zip agents ?tps, wa_dp_results = dp, wa_min_throughput = ?M, wa_agent_invocations = invs,
      wa_iterations = nat ((budget - ?s) div G)\<rparr>"] exI [of _ gpus]) (simp del: set_map)
qed

section \<open>An agent without invocations\<close>

lemma bottleneck_unique:
  assumes "length tps = length agents" "z < length agents" "\<And>j. j < length agents \<Longrightarrow> j \<noteq> z \<Longrightarrow> tps ! z < tps ! j"
  shows "bottleneck_idx agents tps = z"
  using bottleneck_least [OF _ assms(1)] assms(2,3) by (metis length_0_conv less_nat_zero_code not_less)

lemma unused_agent_loop:
  assumes z: "z < length agents" and zero: "\<And>g. normalized_throughput dp invs (agents ! z) g = Inr 0"
    and pos: "\<And>j. j < length agents \<Longrightarrow> j \<noteq> z \<Longrightarrow> \<exists>v > 0. normalized_throughput dp invs (agents ! j) G = Inr v"
    and G: "0 < G"
  defines "shares g \<equiv> (replicate (length agents) G)[z := g]"
  shows "\<exists>tps. normalized_throughputs agents (shares g) dp invs = Inr tps \<and> length tps = length agents
      \<and> tps ! z = 0 \<and> (\<forall>j < length agents. j \<noteq> z \<longrightarrow> 0 < tps ! j)"
    and "G dvd budget - allocated \<Longrightarrow> allocated \<le> budget \<Longrightarrow>
      \<exists>it. alloc_loop agents dp invs G budget allocated (shares g) iters = Inr (shares (g + (budget - allocated)), it)"
proof -
  show tps: "\<exists>tps. normalized_throughputs agents (shares g) dp invs = Inr tps \<and> length tps = length agents
      \<and> tps ! z = 0 \<and> (\<forall>j < length agents. j \<noteq> z \<longrightarrow> 0 < tps ! j)" for g
  proof -
    let ?v = "\<lambda>j. if j = z then 0 else projr (normalized_throughput dp invs (agents ! j) G)"
    have "normalized_throughput dp invs (agents ! j) (shares g ! j) = Inr (?v j)" if "j < length agents" for j
      using that zero pos [OF that] by (auto simp: shares_def)
    then have "normalized_throughputs agents (shares g) dp invs = Inr (map ?v [0..<length agents])"
      unfolding normalized_throughputs_def by (intro map_res_all_Inr) simp
    moreover have "0 < ?v j" if "j < length agents" "j \<noteq> z" for j using pos [OF that] that by auto
    ultimately show ?thesis using z by (intro exI [of _ "map ?v [0..<length agents]"]) simp
  qed
  show "\<exists>it. alloc_loop agents dp invs G budget allocated (shares g) iters = Inr (shares (g + (budget - allocated)), it)"
    if "G dvd budget - allocated" "allocated \<le> budget"
    using that
  proof (induction "nat (budget - allocated)" arbitrary: allocated g iters rule: less_induct)
    case less
    show ?case
    proof (cases "allocated < budget")
      case False
      with less.prems show ?thesis by (auto simp: alloc_loop.simps)
    next
      case True
      obtain tps where t: "normalized_throughputs agents (shares g) dp invs = Inr tps" "length tps = length agents"
        "tps ! z = 0" "\<And>j. j < length agents \<Longrightarrow> j \<noteq> z \<Longrightarrow> 0 < tps ! j" using tps [of g] by blast
      have b: "bottleneck_idx agents tps = z" using bottleneck_unique [OF t(2) z] t(3,4) by simp
      have s: "(shares g)[z := shares g ! z + G] = shares (g + G)" using z by (simp add: shares_def)
      have "G \<le> budget - allocated" using less.prems(1) True by (intro zdvd_imp_le) auto
      moreover have "G dvd budget - (allocated + G)" using less.prems(1) by (metis diff_diff_eq dvd_diff dvd_refl)
      ultimately obtain it where "alloc_loop agents dp invs G budget (allocated + G) (shares (g + G)) (Suc iters)
          = Inr (shares (g + G + (budget - (allocated + G))), it)"
        using less.hyps [of "allocated + G" "g + G" "Suc iters"] True G by auto
      then show ?thesis using True G t(1) b s by (subst alloc_loop.simps) simp
    qed
  qed
qed

lemma unused_agent_facts:
  assumes z: "z < length agents" and n: "(case map_of invs (agents ! z) of None \<Rightarrow> 0 | Some x \<Rightarrow> x) \<le> 0"
    and pos: "\<And>j. j < length agents \<Longrightarrow> j \<noteq> z \<Longrightarrow> \<exists>v > 0. normalized_throughput dp invs (agents ! j) G = Inr v"
    and d: "distinct agents" and check: "check_budget agents budget G = Inr ()"
  shows "\<exists>wa. distribute agents budget G dp invs = Inr wa
    \<and> wa_gpu_allocation wa = zip agents ((replicate (length agents) G)[z := budget - (int (length agents) - 1) * G])
    \<and> wa_min_throughput wa = 0"
proof -
  let ?n = "length agents"
  let ?fin = "(replicate ?n G)[z := budget - (int ?n - 1) * G]"
  have G: "0 < G" "G dvd budget" and fits: "int ?n * G \<le> budget" using check_budgetD [OF check] by auto
  have zero: "normalized_throughput dp invs (agents ! z) g = Inr 0" for g using n by (simp add: normalized_throughput_def)
  note L = unused_agent_loop [OF z zero pos G(1)]
  have "(replicate ?n G)[z := G] = replicate ?n G" using z by (simp add: list_update_same_conv)
  then obtain it where run: "alloc_loop agents dp invs G budget (int ?n * G) (replicate ?n G) 0 = Inr (?fin, it)"
    using L(2) [of budget "int ?n * G" G 0] G(2) fits by (auto simp: algebra_simps)
  obtain tps where t: "normalized_throughputs agents ?fin dp invs = Inr tps" "length tps = ?n"
    "tps ! z = 0" "\<forall>j < ?n. j \<noteq> z \<longrightarrow> 0 < tps ! j" using L(1) by blast
  have dz: "dict_of_zip agents ?fin = zip agents ?fin" "dict_of_zip agents tps = zip agents tps"
    using t(2) by (simp_all add: dict_of_zip_distinct [OF d])
  have le: "0 \<le> x" if "x \<in> set tps" for x
    using that t(2-4) by (metis in_set_conv_nth order_less_imp_le order_refl)
  have "0 \<in> set tps" using z t(2,3) by (metis nth_mem)
  then have m: "Min (set tps) = 0" using le by (intro Min_eqI) auto
  have "map snd (zip agents tps) = tps" using t(2) by simp
  then have "distribute agents budget G dp invs = Inr \<lparr>wa_gpu_allocation = zip agents ?fin,
      wa_agent_throughput = zip agents tps, wa_dp_results = dp, wa_min_throughput = Min (set tps),
      wa_agent_invocations = invs, wa_iterations = it\<rparr>"
    by (simp only: distribute_def run t(1) dz bind_res_simps prod.case)
  with m show ?thesis by simp
qed

section \<open>Properties\<close>

definition example_orchestrator :: orchestrator where
  "example_orchestrator = \<lparr>or_context_step = 2000, or_max_context_length = 2000, or_dp_gpu_step = 1\<rparr>"

text \<open>
  C25. Once the budget check passes and the invocation counts and the curves of the agents are
  computed, the allocation succeeds: it hands out exactly the budget in multiples of the
  instance size with at least one instance per agent, takes one iteration per instance beyond
  the first of every agent, and its minimum throughput per invocation is the largest that any
  distribution of the same budget over the agents can have.
\<close>

theorem workflow_allocation_max_min:
  assumes "agents \<noteq> []" and "distinct agents" and "check_budget agents budget G = Inr ()"
    and "or_max_context_idx o1 = Inr (int m)" and "es_max_context_idx e = Inr (int m)"
    and "0 \<le> mx" and "0 < or_dp_gpu_step o1"
    and "avg_num_invocations nan (an_node_list a) agents = Inr invs"
    and "agent_curves (\<lambda>ag. agent_allocate predict e o1 nl budget mem ag mx mn i reuse) agents a [] = (Inr dp, a')"
  shows "\<exists>wa gpus. workflow_allocate nan predict e o1 agents budget nl mem G mx mn i reuse a = (Inr wa, a')
    \<and> wa_gpu_allocation wa = zip agents gpus \<and> shares_ok (length agents) G budget gpus
    \<and> wa_iterations wa = nat (budget div G) - length agents
    \<and> (\<exists>j < length agents. wa_min_throughput wa = norm_tp dp invs (agents ! j) (gpus ! j))
    \<and> (\<forall>ms. shares_ok (length agents) G budget ms \<longrightarrow>
         (\<exists>k < length agents. norm_tp dp invs (agents ! k) (ms ! k) \<le> wa_min_throughput wa))"
proof -
  have "\<exists>c. map_of dp ag = Some c \<and> curve_ok budget c" if "ag \<in> set agents" for ag
    using agent_curves_mem [OF assms(9), of ag "curve_ok budget"] that agent_allocate_curve [OF _ assms(4-7)] by blast
  then have ok: "curves_ok dp invs agents budget" by (rule curves_okI)
  have G: "0 < G" using check_budgetD [OF assms(3)] by simp
  from distribute_facts [OF ok assms(1-3)] obtain wa gpus j where
    wa: "distribute agents budget G dp invs = Inr wa" "wa_gpu_allocation wa = zip agents gpus"
      "wa_iterations wa = nat (budget div G) - length agents"
    and sh: "shares_ok (length agents) G budget gpus" and fair: "fair agents dp invs G gpus"
    and j: "j < length agents" "wa_min_throughput wa = norm_tp dp invs (agents ! j) (gpus ! j)" by blast
  have "workflow_allocate nan predict e o1 agents budget nl mem G mx mn i reuse a = (Inr wa, a')"
    using assms(1,3,8,9) wa(1) by (simp add: workflow_allocate_def)
  moreover have "\<forall>ms. shares_ok (length agents) G budget ms \<longrightarrow>
      (\<exists>k < length agents. norm_tp dp invs (agents ! k) (ms ! k) \<le> wa_min_throughput wa)"
    using fair_optimal [OF ok G sh fair _ j(1)] j(2) by auto
  ultimately show ?thesis using wa(2,3) sh j by blast
qed

theorem workflow_allocation_max_min_witness:
  "\<exists>wa gpus a'. workflow_allocate 0 example_predict one_range_estimator example_orchestrator [''coder''] 4 32 200000 2 1 1
      False True example_analyzer = (Inr wa, a')
    \<and> wa_gpu_allocation wa = zip [''coder''] gpus \<and> shares_ok 1 2 4 gpus \<and> wa_iterations wa = 1"
proof -
  let ?st = "\<lparr>rs_avg_decode_length = 30, rs_avg_prefill_length = 2000, rs_avg_cached_tokens = 0, rs_max_length = 2030,
      rs_out_proportion = 1, rs_query_proportion = 1\<rparr>"
  let ?r = "\<lparr>st_E_decode = 30, st_E_prompt = 2000, st_E_cached = 0, st_E_max = 2030\<rparr>"
  have "get_requests_in_range 0 2000 ''coder'' True True example_analyzer
      = (Inr ?st, snd (get_requests_in_range 0 2000 ''coder'' True True example_analyzer))" by code_simp
  then obtain a1 where g: "get_requests_in_range 0 2000 ''coder'' True True example_analyzer = (Inr ?st, a1)" by blast
  have bm: "batch_max 200000 ?r = Inr 99" by code_simp
  have "\<exists>q. bisect (sustains example_predict one_range_estimator 32 ?r False 99) 20 (0, 20) = Inr q"
  proof (intro bisect_total sustains_total)
    show "\<exists>v. example_predict nl b al lg q s i = Inr v" for nl b al lg q s i
      unfolding example_predict_def by blast
    show "es_chunk_size one_range_estimator \<noteq> 0" by code_simp
  qed
  then obtain q where q: "bisect (sustains example_predict one_range_estimator 32 ?r False 99) 20 (0, 20) = Inr q" by blast
  define tp where "tp = fst q * 1 / max 1 tiny"
  have tp: "range_throughput example_predict one_range_estimator 32 200000 False ?st = Inr (Some tp)"
    by (simp add: range_throughput_def analyze_throughput_def bm q tp_def)
  have mi: "es_max_context_idx one_range_estimator = Inr (int 1)" by code_simp
  have rp: "range_pairs 1 = [(0, 1)]" by code_simp
  have step: "es_context_step one_range_estimator = 2000" by code_simp
  have t: "attain_instance_throughput example_predict one_range_estimator 32 200000 ''coder'' False True example_analyzer
      = (Inr [((0, 1), tp)], a1)"
    using mi by (simp add: attain_instance_throughput_def rp step g tp)
  have om: "or_max_context_idx example_orchestrator = Inr (int 1)" by code_simp
  have os: "0 < or_dp_gpu_step example_orchestrator" by code_simp
  have "cache_ok [((0, 1), tp)] 1" using throughput_table_cache_ok [OF t mi] by simp
  from solve_facts [OF om this _ os, of 1 0 4 1] obtain c where
    c: "solve example_orchestrator 4 [((0, 1), tp)] 1 1 = Inr c" by auto
  let ?alloc = "\<lambda>ag. agent_allocate example_predict one_range_estimator example_orchestrator 32 4 200000 ag 1 1 False True"
  have cv: "agent_curves ?alloc [''coder''] example_analyzer [] = (Inr [(''coder'', c)], a1)"
    by (simp add: agent_allocate_def t c)
  have iv: "avg_num_invocations 0 (an_node_list example_analyzer) [''coder''] = Inr [(''coder'', 1)]" by code_simp
  have ck: "check_budget [''coder''] 4 2 = Inr ()" by code_simp
  show ?thesis
    using workflow_allocation_max_min [OF _ _ ck om mi _ os iv cv] by auto
qed

text \<open>
  An agent without invocations counts as an agent with throughput 0. When every other agent
  has a positive throughput with a single instance, that agent is the bottleneck in every
  iteration: it receives all GPUs beyond the first instance of the others, although no GPU
  can raise its value.
\<close>

theorem unused_agent_absorbs_budget:
  assumes "z < length agents" and "(case map_of invs (agents ! z) of None \<Rightarrow> 0 | Some x \<Rightarrow> x) \<le> 0"
    and "\<And>j. j < length agents \<Longrightarrow> j \<noteq> z \<Longrightarrow> \<exists>v > 0. normalized_throughput dp invs (agents ! j) G = Inr v"
    and "distinct agents" and "check_budget agents budget G = Inr ()"
  shows "\<exists>wa. distribute agents budget G dp invs = Inr wa
    \<and> wa_gpu_allocation wa = zip agents ((replicate (length agents) G)[z := budget - (int (length agents) - 1) * G])
    \<and> wa_min_throughput wa = 0"
  using assms by (rule unused_agent_facts)

theorem unused_agent_absorbs_budget_witness:
  "\<exists>wa. distribute [''b'', ''a''] 5 1
     [(''b'', map (\<lambda>g. (g, assignment_empty\<lparr>as_throughput := of_int g\<rparr>)) [0..5])] [(''a'', 0), (''b'', 1)] = Inr wa
    \<and> wa_gpu_allocation wa = [(''b'', 1), (''a'', 4)] \<and> wa_min_throughput wa = 0"
proof -
  have "\<exists>v > 0. normalized_throughput [(''b'', map (\<lambda>g. (g, assignment_empty\<lparr>as_throughput := of_int g\<rparr>)) [0..5])]
      [(''a'', 0), (''b'', 1)] ([''b'', ''a''] ! j) 1 = Inr v" if "j < length [''b'', ''a'']" "j \<noteq> 1" for j
  proof -
    have "normalized_throughput [(''b'', map (\<lambda>g. (g, assignment_empty\<lparr>as_throughput := of_int g\<rparr>)) [0..5])]
      [(''a'', 0), (''b'', 1)] ''b'' 1 = Inr 1" by code_simp
    moreover have "j = 0" using that by simp
    ultimately show ?thesis by simp
  qed
  moreover have "check_budget [''b'', ''a''] 5 1 = Inr ()" by code_simp
  ultimately show ?thesis
    using unused_agent_absorbs_budget [of 1 "[''b'', ''a'']" "[(''a'', 0), (''b'', 1)]"
      "[(''b'', map (\<lambda>g. (g, assignment_empty\<lparr>as_throughput := of_int g\<rparr>)) [0..5])]" 1 5] by simp
qed

end
