(* ===== verification/Evictor.thy ===== *)
theory Evictor
  imports BlockHash
begin

text \<open>
  The least-recently-used evictor of the block cache, \<open>src/vllm/vllm/core/evictor.py\<close>: a table of
  the evictable blocks and a heap that may hold outdated entries. An entry is outdated when its
  block left the table or has another access time; nothing else is compared.
\<close>

section \<open>State and operations\<close>

type_synonym block_id = nat

record block_meta =
  md_content_hash :: int
  md_num_hashed_tokens :: int
  md_last_accessed :: pyfloat

type_synonym ev_entry = "pyfloat \<times> int \<times> block_id \<times> int"

record evictor =
  ev_free_table :: "(block_id, block_meta) dict"
  ev_queue :: "ev_entry list"

definition CLEANUP_THRESHOLD :: nat where
  "CLEANUP_THRESHOLD = 50"

definition evictor_new :: evictor where
  "evictor_new = \<lparr>ev_free_table = [], ev_queue = []\<rparr>"

definition ev_contains :: "evictor \<Rightarrow> block_id \<Rightarrow> bool" where
  "ev_contains ev bid \<longleftrightarrow> map_of (ev_free_table ev) bid \<noteq> None"

lemma heap_pop_length: "heap_pop h = Some (x, h') \<Longrightarrow> length h = Suc (length h')"
  using lheap.pop_size [of h x h'] by simp

function evict_loop :: "evictor \<Rightarrow> (block_id \<times> int) res \<times> evictor" where
  "evict_loop ev =
     (case heap_pop (ev_queue ev) of
        None \<Rightarrow> (Inl ValueError, ev)
      | Some ((la, _, bid, ch), q) \<Rightarrow>
          (case map_of (ev_free_table ev) bid of
             Some md \<Rightarrow>
               if md_last_accessed md = la
               then (Inr (bid, ch), ev\<lparr>ev_queue := q, ev_free_table := AList.delete bid (ev_free_table ev)\<rparr>)
               else evict_loop (ev\<lparr>ev_queue := q\<rparr>)
           | None \<Rightarrow> evict_loop (ev\<lparr>ev_queue := q\<rparr>)))"
  by pat_completeness auto

termination
  by (relation "measure (\<lambda>ev. length (ev_queue ev))") (auto dest: heap_pop_length)

declare evict_loop.simps [simp del]

definition evict :: "(evictor, block_id \<times> int) act" where
  "evict ev = (if ev_free_table ev = [] then (Inl ValueError, ev) else evict_loop ev)"

definition meta_entry :: "block_id \<Rightarrow> block_meta \<Rightarrow> ev_entry" where
  "meta_entry bid md = (md_last_accessed md, - md_num_hashed_tokens md, bid, md_content_hash md)"

definition cleanup :: "evictor \<Rightarrow> evictor" where
  "cleanup ev = ev\<lparr>ev_queue := map (\<lambda>(bid, md). meta_entry bid md) (ev_free_table ev)\<rparr>"

definition cleanup_if_necessary :: "evictor \<Rightarrow> evictor" where
  "cleanup_if_necessary ev =
     (if CLEANUP_THRESHOLD * length (ev_free_table ev) < length (ev_queue ev) then cleanup ev else ev)"

definition ev_add :: "block_id \<Rightarrow> int \<Rightarrow> int \<Rightarrow> pyfloat \<Rightarrow> evictor \<Rightarrow> evictor" where
  "ev_add bid ch n la ev =
     cleanup_if_necessary
       (ev\<lparr>ev_free_table := AList.update bid
              \<lparr>md_content_hash = ch, md_num_hashed_tokens = n, md_last_accessed = la\<rparr> (ev_free_table ev),
           ev_queue := heap_push (la, - n, bid, ch) (ev_queue ev)\<rparr>)"

definition ev_update :: "block_id \<Rightarrow> pyfloat \<Rightarrow> (evictor, unit) act" where
  "ev_update bid la ev =
     (case map_of (ev_free_table ev) bid of
        None \<Rightarrow> (Inl KeyError, ev)
      | Some md \<Rightarrow>
          (Inr (), ev\<lparr>ev_free_table := AList.update bid (md\<lparr>md_last_accessed := la\<rparr>) (ev_free_table ev)\<rparr>))"

definition ev_remove :: "block_id \<Rightarrow> (evictor, unit) act" where
  "ev_remove bid ev =
     (case map_of (ev_free_table ev) bid of
        None \<Rightarrow> (Inl ValueError, ev)
      | Some _ \<Rightarrow> (Inr (), ev\<lparr>ev_free_table := AList.delete bid (ev_free_table ev)\<rparr>))"

definition ev_num_blocks :: "evictor \<Rightarrow> nat" where
  "ev_num_blocks ev = length (ev_free_table ev)"

section \<open>Invariant\<close>

text \<open>Every evictable block has its entry in the heap, and every entry that passes the test of
  \<^const>\<open>evict_loop\<close> is the block's own.\<close>

definition ev_ok :: "evictor \<Rightarrow> bool" where
  "ev_ok ev \<longleftrightarrow> dict_wf (ev_free_table ev)
     \<and> (\<forall>bid md. map_of (ev_free_table ev) bid = Some md \<longrightarrow> meta_entry bid md \<in> set (ev_queue ev))
     \<and> (\<forall>la k bid ch md. (la, k, bid, ch) \<in> set (ev_queue ev) \<and> map_of (ev_free_table ev) bid = Some md
          \<and> md_last_accessed md = la \<longrightarrow> (la, k, bid, ch) = meta_entry bid md)"

lemma ev_ok_new: "ev_ok evictor_new"
  by (simp add: ev_ok_def evictor_new_def)

lemma ev_ok_entry: "ev_ok ev \<Longrightarrow> map_of (ev_free_table ev) bid = Some md \<Longrightarrow> meta_entry bid md \<in> set (ev_queue ev)"
  unfolding ev_ok_def by blast

lemma ev_ok_own:
  "ev_ok ev \<Longrightarrow> (la, k, bid, ch) \<in> set (ev_queue ev) \<Longrightarrow> map_of (ev_free_table ev) bid = Some md \<Longrightarrow>
   md_last_accessed md = la \<Longrightarrow> (la, k, bid, ch) = meta_entry bid md"
  unfolding ev_ok_def by blast

lemma ev_ok_cleanup:
  assumes "dict_wf (ev_free_table ev)"
  shows "ev_ok (cleanup ev)"
proof -
  have q: "e \<in> set (ev_queue (cleanup ev)) \<longleftrightarrow> (\<exists>b m. map_of (ev_free_table ev) b = Some m \<and> e = meta_entry b m)" for e
    by (force simp: cleanup_def dict_wf_map_of [OF assms, symmetric])
  have "ev_free_table (cleanup ev) = ev_free_table ev" by (simp add: cleanup_def)
  with assms q show ?thesis unfolding ev_ok_def by (auto simp: meta_entry_def)
qed

lemma ev_ok_cleanup_if: "ev_ok ev \<Longrightarrow> ev_ok (cleanup_if_necessary ev)"
  using ev_ok_cleanup [of ev] by (auto simp: cleanup_if_necessary_def ev_ok_def [of ev])

text \<open>No older entry of the block has the new access time with other contents.\<close>

definition add_fresh :: "block_id \<Rightarrow> int \<Rightarrow> int \<Rightarrow> pyfloat \<Rightarrow> evictor \<Rightarrow> bool" where
  "add_fresh bid ch n la ev \<longleftrightarrow> (\<forall>k h. (la, k, bid, h) \<in> set (ev_queue ev) \<longrightarrow> k = - n \<and> h = ch)"

lemma ev_ok_add:
  assumes "ev_ok ev" and "add_fresh bid ch n la ev"
  shows "ev_ok (ev_add bid ch n la ev)"
  unfolding ev_add_def
proof (rule ev_ok_cleanup_if)
  let ?md = "\<lparr>md_content_hash = ch, md_num_hashed_tokens = n, md_last_accessed = la\<rparr>"
  let ?ev = "ev\<lparr>ev_free_table := AList.update bid ?md (ev_free_table ev), ev_queue := heap_push (la, - n, bid, ch) (ev_queue ev)\<rparr>"
  have e: "meta_entry bid ?md = (la, - n, bid, ch)" by (simp add: meta_entry_def)
  have "meta_entry b md \<in> set (ev_queue ?ev)" if "map_of (ev_free_table ?ev) b = Some md" for b md
    using that e ev_ok_entry [OF assms(1), of b md] by (auto simp: heap_push_def split: if_splits)
  moreover have "(t, k, b, h) = meta_entry b md"
    if "(t, k, b, h) \<in> set (ev_queue ?ev)" "map_of (ev_free_table ?ev) b = Some md" "md_last_accessed md = t" for t k b h md
  proof (cases "b = bid")
    case True
    with that(2,3) have t: "md = ?md" "t = la" by auto
    from that(1) True t(2) assms(2) have "k = - n \<and> h = ch"
      by (auto simp: heap_push_def add_fresh_def)
    with e t True show ?thesis by simp
  next
    case False
    with that show ?thesis using ev_ok_own [OF assms(1), of t k b h md] by (auto simp: heap_push_def)
  qed
  moreover have "dict_wf (ev_free_table ?ev)" using assms(1) by (simp add: ev_ok_def)
  ultimately show "ev_ok ?ev" unfolding ev_ok_def by blast
qed

lemma ev_ok_delete: "ev_ok ev \<Longrightarrow> ev_ok (ev\<lparr>ev_free_table := AList.delete bid (ev_free_table ev)\<rparr>)"
  unfolding ev_ok_def by (auto split: if_splits)

lemma ev_ok_remove: "ev_ok ev \<Longrightarrow> ev_remove bid ev = (r, ev') \<Longrightarrow> ev_ok ev'"
  by (auto simp: ev_remove_def split: option.splits intro: ev_ok_delete)


section \<open>Eviction\<close>

lemma heap_pop_set: "heap_pop h = Some (x, h') \<Longrightarrow> set h = insert x (set h')"
  using lheap.pop_elems [of h x h'] by (metis set_mset_add_mset_insert set_mset_mset)

lemma evict_loop_facts:
  "ev_ok ev \<Longrightarrow> ev_free_table ev \<noteq> [] \<Longrightarrow>
   \<exists>bid md ev'. evict_loop ev = (Inr (bid, md_content_hash md), ev') \<and> map_of (ev_free_table ev) bid = Some md
     \<and> ev_free_table ev' = AList.delete bid (ev_free_table ev) \<and> ev_ok ev'
     \<and> set (ev_queue ev') \<subseteq> set (ev_queue ev)
     \<and> (\<forall>b m. map_of (ev_free_table ev) b = Some m \<longrightarrow> meta_entry bid md \<le> meta_entry b m)"
proof (induction "length (ev_queue ev)" arbitrary: ev rule: less_induct)
  case less
  obtain b0 m0 where b0: "map_of (ev_free_table ev) b0 = Some m0"
    using less.prems(2) by (cases "ev_free_table ev") (simp, metis map_of.simps(2) fun_upd_same)
  have "mset (ev_queue ev) \<noteq> {#}" using ev_ok_entry [OF less.prems(1) b0] by auto
  then obtain x q where pop: "heap_pop (ev_queue ev) = Some (x, q)" using lheap.pop_progress by blast
  obtain la k bid ch where x: "x = (la, k, bid, ch)" by (cases x)
  have sub: "set q \<subseteq> set (ev_queue ev)" and mem: "(la, k, bid, ch) \<in> set (ev_queue ev)"
    using heap_pop_set [OF pop] x by auto
  have least: "(la, k, bid, ch) \<le> meta_entry b m" if "map_of (ev_free_table ev) b = Some m" for b m
    using lheap.pop_least [OF pop, of "meta_entry b m"] ev_ok_entry [OF less.prems(1) that] x by simp
  show ?case
  proof (cases "\<exists>md. map_of (ev_free_table ev) bid = Some md \<and> md_last_accessed md = la")
    case True
    then obtain md where md: "map_of (ev_free_table ev) bid = Some md" "md_last_accessed md = la" by blast
    let ?ev = "ev\<lparr>ev_queue := q, ev_free_table := AList.delete bid (ev_free_table ev)\<rparr>"
    have own: "(la, k, bid, ch) = meta_entry bid md" by (rule ev_ok_own [OF less.prems(1) mem md])
    have "evict_loop ev = (Inr (bid, ch), ?ev)" using pop x md by (subst evict_loop.simps) simp
    moreover have "ch = md_content_hash md" using own by (simp add: meta_entry_def)
    moreover have "ev_ok ?ev"
    proof -
      have "meta_entry b m \<in> set q" if "map_of (ev_free_table ev) b = Some m" "b \<noteq> bid" for b m
        using ev_ok_entry [OF less.prems(1) that(1)] heap_pop_set [OF pop] x that(2) by (auto simp: meta_entry_def)
      then show ?thesis using less.prems(1) sub unfolding ev_ok_def by (auto split: if_splits)
    qed
    ultimately show ?thesis using md(1) sub least own by auto
  next
    case False
    let ?ev = "ev\<lparr>ev_queue := q\<rparr>"
    have step: "evict_loop ev = evict_loop ?ev"
      using pop x False by (subst evict_loop.simps) (auto split: option.splits)
    have "meta_entry b m \<in> set q" if "map_of (ev_free_table ev) b = Some m" for b m
      using ev_ok_entry [OF less.prems(1) that] heap_pop_set [OF pop] x that False by (auto simp: meta_entry_def)
    then have ok: "ev_ok ?ev" using less.prems(1) sub unfolding ev_ok_def by auto
    have "length (ev_queue ?ev) < length (ev_queue ev)" using heap_pop_length [OF pop] by simp
    from less.hyps [OF this ok] less.prems(2) sub show ?thesis unfolding step by fastforce
  qed
qed

text \<open>A table that is not empty always yields a block.\<close>

lemma evict_facts:
  assumes "ev_ok ev" and "ev_free_table ev \<noteq> []"
  shows "\<exists>bid md ev'. evict ev = (Inr (bid, md_content_hash md), ev') \<and> map_of (ev_free_table ev) bid = Some md
     \<and> ev_free_table ev' = AList.delete bid (ev_free_table ev) \<and> ev_ok ev'
     \<and> set (ev_queue ev') \<subseteq> set (ev_queue ev)
     \<and> (\<forall>b m. map_of (ev_free_table ev) b = Some m \<longrightarrow> meta_entry bid md \<le> meta_entry b m)"
  using evict_loop_facts [OF assms] assms(2) by (simp add: evict_def)


section \<open>Histories\<close>

text \<open>The states reachable when no block is added twice under one access time with different contents.\<close>

inductive ev_reach :: "evictor \<Rightarrow> bool" where
  new: "ev_reach evictor_new"
| add: "ev_reach ev \<Longrightarrow> add_fresh bid ch n la ev \<Longrightarrow> ev_reach (ev_add bid ch n la ev)"
| remove: "ev_reach ev \<Longrightarrow> ev_remove bid ev = (r, ev') \<Longrightarrow> ev_reach ev'"
| evict: "ev_reach ev \<Longrightarrow> evict ev = (r, ev') \<Longrightarrow> ev_reach ev'"

lemma evict_ok: "ev_ok ev \<Longrightarrow> evict ev = (r, ev') \<Longrightarrow> ev_ok ev'"
  by (cases "ev_free_table ev = []") (use evict_facts [of ev] in \<open>auto simp: evict_def\<close>)

lemma ev_reach_ok: "ev_reach ev \<Longrightarrow> ev_ok ev"
  by (induction rule: ev_reach.induct) (auto intro: ev_ok_new ev_ok_add ev_ok_remove evict_ok)

section \<open>Properties\<close>


definition example_evictor :: evictor where
  "example_evictor = ev_add 2 22 32 5 (ev_add 1 11 16 5 (ev_add 0 10 16 7 evictor_new))"


text \<open>
  The access time of an evictable block can be refreshed, but its entry in the heap keeps
  the old one: for every evictor that holds a single block with a single entry, refreshing the
  block with another time makes the next eviction fail although the block is still in the
  table, and the heap is empty afterwards, so it fails until the block is removed.
\<close>

theorem update_strands_block:
  assumes "la \<noteq> la'"
  shows "\<exists>ev'. ev_update bid la' (ev_add bid ch n la evictor_new) = (Inr (), ev') \<and> ev_num_blocks ev' = 1
    \<and> (\<exists>ev''. evict ev' = (Inl ValueError, ev'') \<and> ev_num_blocks ev'' = 1 \<and> ev_queue ev'' = [])"
proof -
  let ?md = "\<lparr>md_content_hash = ch, md_num_hashed_tokens = n, md_last_accessed = la'\<rparr>"
  let ?ev = "\<lparr>ev_free_table = [(bid, ?md)], ev_queue = [(la, - n, bid, ch)]\<rparr>"
  have u: "ev_update bid la' (ev_add bid ch n la evictor_new) = (Inr (), ?ev)"
    by (simp add: ev_update_def ev_add_def evictor_new_def cleanup_if_necessary_def CLEANUP_THRESHOLD_def heap_push_def)
  have "evict ?ev = (Inl ValueError, ?ev\<lparr>ev_queue := []\<rparr>)"
    using assms by (simp add: evict_def evict_loop.simps heap_pop_def)
  with u show ?thesis by (simp add: ev_num_blocks_def)
qed

theorem update_strands_block_witness:
  "\<exists>ev'. ev_update 3 2 (ev_add 3 99 16 1 evictor_new) = (Inr (), ev') \<and> ev_num_blocks ev' = 1
    \<and> (\<exists>ev''. evict ev' = (Inl ValueError, ev'') \<and> ev_num_blocks ev'' = 1 \<and> ev_queue ev'' = [])"
  by (rule update_strands_block) simp

text \<open>
  Entries of the heap are recognised by block and access time only. A block that was cached,
  used again, cached a second time, evicted, and then cached with other contents under the same
  access time is evicted with the content hash of its old contents when these were longer; the
  table held the new one.
\<close>

theorem stale_entry_evicted:
  assumes "n2 < n1"
  shows "\<exists>ev1 ev2. ev_remove b (ev_add b h1 n1 t evictor_new) = (Inr (), ev1)
    \<and> evict (ev_add b h1 n1 t ev1) = (Inr (b, h1), ev2)
    \<and> map_of (ev_free_table (ev_add b h2 n2 t ev2)) b = Some \<lparr>md_content_hash = h2, md_num_hashed_tokens = n2, md_last_accessed = t\<rparr>
    \<and> fst (evict (ev_add b h2 n2 t ev2)) = Inr (b, h1)"
  using assms
  by (simp add: ev_remove_def ev_add_def evictor_new_def cleanup_if_necessary_def CLEANUP_THRESHOLD_def heap_push_def
      evict_def evict_loop.simps heap_pop_def)

theorem stale_entry_evicted_witness:
  "\<exists>ev1 ev2. ev_remove 4 (ev_add 4 100 32 (- 1) evictor_new) = (Inr (), ev1) \<and> evict (ev_add 4 100 32 (- 1) ev1) = (Inr (4, 100), ev2)
    \<and> fst (evict (ev_add 4 200 16 (- 1) ev2)) = Inr (4, 100)"
  using stale_entry_evicted [of 16 32 4 100 "- 1" 200] by auto

end
