(* ===== verification/BlockCommon.thy ===== *)
theory BlockCommon
  imports Evictor
begin

text \<open>
  The building blocks of the KV-cache allocators, \<open>src/vllm/vllm/core/block/common.py\<close>: reference
  counts, the record of copy-on-write pairs, the pool of block objects, the list of blocks with
  its cached identifiers, and the hit-rate statistics. Block objects are mutable and shared, so
  they live in an explicit heap: a list of \<open>blk\<close> records, and a reference is an index into it.
\<close>

section \<open>Reference counts\<close>

type_synonym refcounts = "(block_id, int) dict"

definition refcounter_new :: "block_id list \<Rightarrow> refcounts" where
  "refcounter_new ids = map (\<lambda>i. (i, 0)) (remdups ids)"

definition rc_incr :: "block_id \<Rightarrow> (refcounts, int) act" where
  "rc_incr bid rc =
     (case map_of rc bid of
        None \<Rightarrow> (Inl AssertionError, rc)
      | Some n \<Rightarrow> if n < 0 then (Inl AssertionError, rc) else (Inr (n + 1), AList.update bid (n + 1) rc))"

definition rc_decr :: "block_id \<Rightarrow> (refcounts, int) act" where
  "rc_decr bid rc =
     (case map_of rc bid of
        None \<Rightarrow> (Inl AssertionError, rc)
      | Some n \<Rightarrow> if n \<le> 0 then (Inl AssertionError, rc) else (Inr (n - 1), AList.update bid (n - 1) rc))"

definition rc_get :: "block_id \<Rightarrow> refcounts \<Rightarrow> int res" where
  "rc_get bid rc = (case map_of rc bid of None \<Rightarrow> Inl AssertionError | Some n \<Rightarrow> Inr n)"

section \<open>Copy on write\<close>

type_synonym cows = "(block_id \<times> block_id) list"

definition is_appendable :: "refcounts \<Rightarrow> block_id option \<Rightarrow> bool res" where
  "is_appendable rc bid =
     (case bid of None \<Rightarrow> Inr True | Some i \<Rightarrow> bind_res (rc_get i rc) (\<lambda>n. Inr (n \<le> 1)))"

definition record_cow :: "block_id option \<Rightarrow> block_id option \<Rightarrow> (cows, unit) act" where
  "record_cow src trg cs =
     (case (src, trg) of
        (Some s, Some t) \<Rightarrow> (Inr (), cs @ [(s, t)])
      | _ \<Rightarrow> (Inl AssertionError, cs))"

definition clear_cows :: "(cows, cows) act" where
  "clear_cows cs = (Inr cs, [])"

section \<open>Block objects\<close>

text \<open>
  A prefix caching block together with the naive block it wraps. \<open>b_cached_hash\<close> is
  \<open>_cached_content_hash\<close>, \<open>b_pool_id\<close> the attribute set by the pool.
\<close>

type_synonym ref = nat

record blk =
  b_prev :: "ref option"
  b_token_ids :: "int list"
  b_block_size :: nat
  b_block_id :: "block_id option"
  b_cached_hash :: "int option"
  b_num_tokens_total :: nat
  b_computed :: bool
  b_extra_hash :: "int option"
  b_pool_id :: "nat option"

type_synonym heap = "blk list"

definition b_is_full :: "blk \<Rightarrow> bool" where
  "b_is_full b \<longleftrightarrow> b_block_size b = length (b_token_ids b)"

definition b_num_empty_slots :: "blk \<Rightarrow> nat" where
  "b_num_empty_slots b = b_block_size b - length (b_token_ids b)"

definition prev_total :: "heap \<Rightarrow> ref option \<Rightarrow> nat" where
  "prev_total hp p = (case p of None \<Rightarrow> 0 | Some r \<Rightarrow> b_num_tokens_total (hp ! r))"

definition upd_obj :: "ref \<Rightarrow> (blk \<Rightarrow> blk) \<Rightarrow> heap \<Rightarrow> heap" where
  "upd_obj r f hp = hp[r := f (hp ! r)]"

text \<open>The object as the constructor leaves it; \<open>pool_id\<close> is not one of its attributes.\<close>

definition init_blk ::
  "ref option \<Rightarrow> int list \<Rightarrow> nat \<Rightarrow> block_id option \<Rightarrow> int option \<Rightarrow> nat \<Rightarrow> nat option \<Rightarrow> blk" where
  "init_blk prev toks bs bid extra tot pid =
     \<lparr>b_prev = prev, b_token_ids = toks, b_block_size = bs, b_block_id = bid, b_cached_hash = None,
      b_num_tokens_total = tot, b_computed = False, b_extra_hash = extra, b_pool_id = pid\<rparr>"

section \<open>The pool\<close>

record block_pool =
  bp_block_size :: nat
  bp_pool_size :: nat
  bp_free_ids :: "nat list"
  bp_pool :: "ref list"

text \<open>\<open>n\<close> fresh objects are appended to the heap and to the pool.\<close>

definition add_objects :: "nat \<Rightarrow> block_pool \<Rightarrow> heap \<Rightarrow> block_pool \<times> heap" where
  "add_objects n p hp =
     (p\<lparr>bp_pool := bp_pool p @ [length hp..<length hp + n]\<rparr>,
      hp @ replicate n (init_blk None [] (bp_block_size p) None None 0 None))"

definition block_pool_new :: "nat \<Rightarrow> nat \<Rightarrow> heap \<Rightarrow> block_pool \<times> heap" where
  "block_pool_new bs n hp =
     add_objects n \<lparr>bp_block_size = bs, bp_pool_size = n, bp_free_ids = [0..<n], bp_pool = []\<rparr> hp"

definition increase_pool :: "block_pool \<times> heap \<Rightarrow> block_pool \<times> heap" where
  "increase_pool ph =
     (let p = fst ph; cur = bp_pool_size p
      in add_objects cur (p\<lparr>bp_pool_size := cur * 2, bp_free_ids := bp_free_ids p @ [cur..<cur * 2]\<rparr>) (snd ph))"

text \<open>
  The constructor runs again on a free object of the pool. A token list that is too long for
  the block fails the assertion of the inner block after the other attributes were set.
\<close>

definition init_block ::
  "ref option \<Rightarrow> int list \<Rightarrow> nat \<Rightarrow> block_id option \<Rightarrow> int option \<Rightarrow> (block_pool \<times> heap, ref) act" where
  "init_block prev toks bs bid extra ph =
     (let (p, hp) = (if bp_free_ids (fst ph) = [] then increase_pool ph else ph)
      in case bp_free_ids p of
           [] \<Rightarrow> (Inl AssertionError, (p, hp))
         | pid # rest \<Rightarrow>
             (let r = bp_pool p ! pid; p' = p\<lparr>bp_free_ids := rest\<rparr>
              in if bs < length toks
                 then (Inl AssertionError, (p', upd_obj r (\<lambda>b. init_blk prev [] bs bid extra 0 (b_pool_id b)) hp))
                 else (Inr r, (p', upd_obj r (\<lambda>_. init_blk prev toks bs bid extra (prev_total hp prev + length toks) (Some pid)) hp))))"

text \<open>An object that never came out of a pool has no \<open>pool_id\<close>.\<close>

definition free_block :: "ref \<Rightarrow> (block_pool \<times> heap, unit) act" where
  "free_block r ph =
     (case b_pool_id (snd ph ! r) of
        None \<Rightarrow> (Inl AttributeError, ph)
      | Some pid \<Rightarrow> (Inr (), ((fst ph)\<lparr>bp_free_ids := pid # bp_free_ids (fst ph)\<rparr>, snd ph)))"

text \<open>The chain of previous blocks, first block first. A cyclic chain exhausts the stack.\<close>

fun all_blocks_recursively :: "nat \<Rightarrow> heap \<Rightarrow> ref \<Rightarrow> ref list res" where
  "all_blocks_recursively 0 hp r = Inl RecursionError"
| "all_blocks_recursively (Suc n) hp r =
     (case b_prev (hp ! r) of
        None \<Rightarrow> Inr [r]
      | Some q \<Rightarrow> bind_res (all_blocks_recursively n hp q) (\<lambda>rs. Inr (rs @ [r])))"

definition get_all_blocks_recursively :: "heap \<Rightarrow> ref \<Rightarrow> ref list res" where
  "get_all_blocks_recursively hp r = all_blocks_recursively (Suc (length hp)) hp r"

section \<open>Lists of blocks\<close>

record block_list =
  bl_blocks :: "ref list"
  bl_block_ids :: "block_id list"

text \<open>The list is read with the identifiers the objects have at that moment.\<close>

definition bl_update :: "heap \<Rightarrow> ref list \<Rightarrow> (block_list, unit) act" where
  "bl_update hp rs bl =
     (let good = takeWhile (\<lambda>r. b_block_id (hp ! r) \<noteq> None) rs;
          bl' = \<lparr>bl_blocks = rs, bl_block_ids = map (\<lambda>r. the (b_block_id (hp ! r))) good\<rparr>
      in if good = rs then (Inr (), bl') else (Inl AssertionError, bl'))"

definition bl_new :: "heap \<Rightarrow> ref list \<Rightarrow> block_list res" where
  "bl_new hp rs = (case bl_update hp rs \<lparr>bl_blocks = [], bl_block_ids = []\<rparr> of
     (Inl e, _) \<Rightarrow> Inl e | (Inr _, bl) \<Rightarrow> Inr bl)"

definition bl_append :: "heap \<Rightarrow> ref \<Rightarrow> (block_list, unit) act" where
  "bl_append hp r bl =
     (let bl' = bl\<lparr>bl_blocks := bl_blocks bl @ [r]\<rparr>
      in case b_block_id (hp ! r) of
           None \<Rightarrow> (Inl AssertionError, bl')
         | Some i \<Rightarrow> (Inr (), bl'\<lparr>bl_block_ids := bl_block_ids bl @ [i]\<rparr>))"

definition bl_set :: "heap \<Rightarrow> nat \<Rightarrow> ref \<Rightarrow> (block_list, unit) act" where
  "bl_set hp k r bl =
     (if length (bl_blocks bl) \<le> k then (Inl IndexError, bl)
      else (let bl' = bl\<lparr>bl_blocks := (bl_blocks bl)[k := r]\<rparr>
            in case b_block_id (hp ! r) of
                 None \<Rightarrow> (Inl AssertionError, bl')
               | Some i \<Rightarrow>
                   if length (bl_block_ids bl) \<le> k then (Inl IndexError, bl')
                   else (Inr (), bl'\<lparr>bl_block_ids := (bl_block_ids bl)[k := i]\<rparr>)))"

text \<open>
  After the object at index \<open>k\<close> was appended to (\<open>append_token_ids\<close> of the block): its new
  identifier replaces the remembered one when it differs from the one before.
\<close>

definition bl_refresh :: "heap \<Rightarrow> nat \<Rightarrow> block_id option \<Rightarrow> (block_list, unit) act" where
  "bl_refresh hp k old_id bl =
     (let now = b_block_id (hp ! (bl_blocks bl ! k))
      in if old_id = now then (Inr (), bl)
         else (case now of
                 None \<Rightarrow> (Inl AssertionError, bl)
               | Some i \<Rightarrow>
                   if length (bl_block_ids bl) \<le> k then (Inl IndexError, bl)
                   else (Inr (), bl\<lparr>bl_block_ids := (bl_block_ids bl)[k := i]\<rparr>)))"

definition bl_reset :: "block_list \<Rightarrow> block_list" where
  "bl_reset bl = \<lparr>bl_blocks = [], bl_block_ids = []\<rparr>"

section \<open>Hit rate\<close>

record cache_metric =
  cm_num_completed_blocks :: nat
  cm_completed_hit_rate :: pyfloat
  cm_queries :: nat
  cm_hits :: nat
  cm_block_size :: nat

definition cache_metric_new :: cache_metric where
  "cache_metric_new = \<lparr>cm_num_completed_blocks = 0, cm_completed_hit_rate = 0, cm_queries = 0,
     cm_hits = 0, cm_block_size = 1000\<rparr>"

definition cm_query :: "bool \<Rightarrow> cache_metric \<Rightarrow> cache_metric" where
  "cm_query hit c =
     (let q = cm_queries c + 1; h = cm_hits c + (if hit then 1 else 0); n = cm_num_completed_blocks c
      in if q = cm_block_size c
         then c\<lparr>cm_completed_hit_rate := (cm_completed_hit_rate c * of_nat n + of_nat h / of_nat q) / of_nat (n + 1),
                cm_queries := 0, cm_hits := 0, cm_num_completed_blocks := n + 1\<rparr>
         else c\<lparr>cm_queries := q, cm_hits := h\<rparr>)"

definition cm_get_hit_rate :: "cache_metric \<Rightarrow> pyfloat res" where
  "cm_get_hit_rate c =
     (if cm_block_size c = 0 then Inl ZeroDivisionError
      else
        (let ratio = of_nat (cm_queries c) / of_nat (cm_block_size c);
             nblocks = of_nat (cm_num_completed_blocks c) + ratio
         in if nblocks = 0 then Inr 0
            else Inr (((if 0 < cm_num_completed_blocks c
                        then cm_completed_hit_rate c * of_nat (cm_num_completed_blocks c) else 0)
                     + (if 0 < cm_queries c then of_nat (cm_hits c) / of_nat (cm_queries c) * ratio else 0)) / nblocks)))"

section \<open>Lemmas\<close>

lemma rc_incr_Inr [simp]:
  "rc_incr i rc = (Inr m, rc') \<longleftrightarrow> (\<exists>n \<ge> 0. map_of rc i = Some n \<and> m = n + 1 \<and> rc' = AList.update i (n + 1) rc)"
  by (auto simp: rc_incr_def split: option.splits if_splits)

lemma rc_decr_Inr [simp]:
  "rc_decr i rc = (Inr m, rc') \<longleftrightarrow> (\<exists>n > 0. map_of rc i = Some n \<and> m = n - 1 \<and> rc' = AList.update i (n - 1) rc)"
  by (auto simp: rc_decr_def split: option.splits if_splits)

lemma rc_get_Inr [simp]: "rc_get i rc = Inr n \<longleftrightarrow> map_of rc i = Some n"
  by (auto simp: rc_get_def split: option.splits)

lemma refcounter_new_map_of: "map_of (refcounter_new ids) i = (if i \<in> set ids then Some 0 else None)"
  by (auto simp: refcounter_new_def map_of_map_restrict restrict_map_def)

text \<open>The statistics after some queries: whole blocks of queries and a rest.\<close>

definition cm_inv :: "nat \<Rightarrow> nat \<Rightarrow> cache_metric \<Rightarrow> bool" where
  "cm_inv queries hits c \<longleftrightarrow> 0 < cm_block_size c \<and> cm_queries c < cm_block_size c
     \<and> queries = cm_num_completed_blocks c * cm_block_size c + cm_queries c
     \<and> (of_nat hits :: rat) = cm_completed_hit_rate c * of_nat (cm_num_completed_blocks c * cm_block_size c) + of_nat (cm_hits c)
     \<and> (cm_queries c = 0 \<longrightarrow> cm_hits c = 0)"

lemma cm_inv_query:
  assumes "cm_inv q h c"
  shows "cm_inv (q + 1) (h + (if hit then 1 else 0)) (cm_query hit c)"
proof (cases "cm_queries c + 1 = cm_block_size c")
  case False
  with assms show ?thesis by (auto simp: cm_inv_def cm_query_def Let_def)
next
  case True
  let ?n = "cm_num_completed_blocks c" and ?B = "cm_block_size c" and ?h = "cm_hits c + (if hit then 1 else 0)"
  have B: "(of_nat ?B :: rat) \<noteq> 0" using assms by (simp add: cm_inv_def)
  have c: "cm_query hit c = c\<lparr>cm_completed_hit_rate := (cm_completed_hit_rate c * of_nat ?n + of_nat ?h / of_nat ?B) / of_nat (?n + 1),
      cm_queries := 0, cm_hits := 0, cm_num_completed_blocks := ?n + 1\<rparr>"
    using True by (simp add: cm_query_def Let_def)
  have n1: "(of_nat (?n + 1) :: rat) \<noteq> 0" using of_nat_eq_0_iff [of "?n + 1"] by simp
  have "(cm_completed_hit_rate c * of_nat ?n + of_nat ?h / of_nat ?B) / of_nat (?n + 1) * of_nat ((?n + 1) * ?B)
      = (cm_completed_hit_rate c * of_nat ?n + of_nat ?h / of_nat ?B) * of_nat ?B"
    using n1 by (simp only: of_nat_mult) (simp add: field_simps)
  also have "\<dots> = cm_completed_hit_rate c * of_nat (?n * ?B) + of_nat ?h"
    using B by (simp add: field_simps)
  finally have "(of_nat (h + (if hit then 1 else 0)) :: rat)
      = (cm_completed_hit_rate c * of_nat ?n + of_nat ?h / of_nat ?B) / of_nat (?n + 1) * of_nat ((?n + 1) * ?B)"
    using assms by (auto simp: cm_inv_def)
  moreover have "q + 1 = (?n + 1) * ?B" using assms True by (simp add: cm_inv_def)
  ultimately show ?thesis using assms unfolding c cm_inv_def by simp
qed

lemma cm_inv_run:
  "cm_inv q h c \<Longrightarrow> cm_inv (q + length qs) (h + length (filter id qs)) (foldl (\<lambda>c hit. cm_query hit c) c qs)"
proof (induction qs arbitrary: q h c)
  case (Cons x qs)
  from Cons.IH [OF cm_inv_query [OF Cons.prems, of x]] show ?case by (cases x) (simp_all add: add.assoc)
qed simp

lemma cm_inv_rate:
  assumes "cm_inv q h c"
  shows "cm_get_hit_rate c = Inr (of_nat h / of_nat q)"
proof -
  let ?n = "cm_num_completed_blocks c" and ?B = "cm_block_size c" and ?q = "cm_queries c"
  have B: "0 < ?B" "(of_nat ?B :: rat) \<noteq> 0" using assms by (auto simp: cm_inv_def)
  have tot: "(of_nat ?n + of_nat ?q / of_nat ?B :: rat) = of_nat q / of_nat ?B"
    using assms B by (simp add: cm_inv_def field_simps)
  have hits: "cm_completed_hit_rate c * of_nat ?n + of_nat (cm_hits c) / of_nat ?B = of_nat h / of_nat ?B"
    using assms B by (simp add: cm_inv_def field_simps)
  have comp: "(if 0 < ?n then cm_completed_hit_rate c * of_nat ?n else 0) = cm_completed_hit_rate c * of_nat ?n" by simp
  have inc: "(if 0 < ?q then of_nat (cm_hits c) / of_nat ?q * (of_nat ?q / of_nat ?B) else 0)
      = (of_nat (cm_hits c) / of_nat ?B :: rat)"
    using assms by (auto simp: cm_inv_def)
  have "cm_get_hit_rate c = (if (of_nat q / of_nat ?B :: rat) = 0 then Inr 0
      else Inr (of_nat h / of_nat ?B / (of_nat q / of_nat ?B)))"
    using B(1) unfolding cm_get_hit_rate_def Let_def tot comp inc hits by simp
  also have "\<dots> = Inr (of_nat h / of_nat q)" using B by simp
  finally show ?thesis .
qed

section \<open>Properties\<close>

text \<open>
  The hit rate kept in blocks of a thousand queries is exact: after any sequence of queries
  the reported rate is the number of hits divided by the number of queries (0 without queries).
\<close>

theorem hit_rate_exact:
  "cm_get_hit_rate (foldl (\<lambda>c hit. cm_query hit c) cache_metric_new qs)
     = Inr (of_nat (length (filter id qs)) / of_nat (length qs))"
proof -
  have "cm_inv 0 0 cache_metric_new" by (simp add: cm_inv_def cache_metric_new_def)
  from cm_inv_rate [OF cm_inv_run [OF this, of qs]] show ?thesis by simp
qed

end
