(* ===== verification/NaiveBlock.thy ===== *)
theory NaiveBlock
  imports BlockCommon
begin

text \<open>
  \<open>src/vllm/vllm/core/block/naive_block.py\<close>: the allocator without prefix caching. It owns the
  free list of physical blocks, the reference counts and the pool of block objects; the prefix
  caching allocator uses it for blocks without a hash and shares its pool and counts.
\<close>

section \<open>State\<close>

record naive_alloc =
  na_block_size :: nat
  na_free :: "block_id list"
  na_all :: "block_id list"
  na_refcounts :: refcounts
  na_cows :: cows
  na_pool :: block_pool
  na_heap :: heap

definition with_heap :: "(heap, 'a) act \<Rightarrow> (naive_alloc, 'a) act" where
  "with_heap = zoom na_heap (\<lambda>h s. s\<lparr>na_heap := h\<rparr>)"

definition with_pool :: "(block_pool \<times> heap, 'a) act \<Rightarrow> (naive_alloc, 'a) act" where
  "with_pool = zoom (\<lambda>s. (na_pool s, na_heap s)) (\<lambda>(p, h) s. s\<lparr>na_pool := p, na_heap := h\<rparr>)"

definition with_refcounts :: "(refcounts, 'a) act \<Rightarrow> (naive_alloc, 'a) act" where
  "with_refcounts = zoom na_refcounts (\<lambda>rc s. s\<lparr>na_refcounts := rc\<rparr>)"

definition set_block_id :: "ref \<Rightarrow> block_id option \<Rightarrow> naive_alloc \<Rightarrow> naive_alloc" where
  "set_block_id r i s = s\<lparr>na_heap := upd_obj r (\<lambda>b. b\<lparr>b_block_id := i\<rparr>) (na_heap s)\<rparr>"

text \<open>The set of all identifiers is kept as the list they came in; a duplicate fails the assertion.\<close>

definition naive_new :: "nat \<Rightarrow> nat \<Rightarrow> block_id list option \<Rightarrow> (block_pool \<times> heap) option \<Rightarrow> heap \<Rightarrow> naive_alloc res" where
  "naive_new num_blocks bs ids shared hp =
     (let ids' = (case ids of None \<Rightarrow> [0..<num_blocks] | Some l \<Rightarrow> l);
          (p, h) = (case shared of Some ph \<Rightarrow> ph | None \<Rightarrow> block_pool_new bs (num_blocks * 4) hp)
      in if length (remdups ids') \<noteq> num_blocks then Inl AssertionError
         else Inr \<lparr>na_block_size = bs, na_free = ids', na_all = remdups ids', na_refcounts = refcounter_new ids',
                   na_cows = [], na_pool = p, na_heap = h\<rparr>)"

section \<open>Identifiers\<close>

definition na_allocate_block_id :: "(naive_alloc, block_id) act" where
  "na_allocate_block_id s =
     (case na_free s of
        [] \<Rightarrow> (Inl NoFreeBlocksError, s)
      | i # rest \<Rightarrow>
          bind_act (with_refcounts (rc_incr i)) (\<lambda>_. ret i) (s\<lparr>na_free := rest\<rparr>))"

definition na_release_id :: "block_id \<Rightarrow> (naive_alloc, unit) act" where
  "na_release_id i =
     bind_act (with_refcounts (rc_decr i)) (\<lambda>n.
       if n = 0 then modify (\<lambda>s. s\<lparr>na_free := i # na_free s\<rparr>) else ret ())"

text \<open>\<open>_free_block_id\<close> on a block object: its identifier is taken away first.\<close>

definition na_free_block_obj :: "ref \<Rightarrow> (naive_alloc, unit) act" where
  "na_free_block_obj r s =
     (case b_block_id (na_heap s ! r) of
        None \<Rightarrow> (Inl AssertionError, set_block_id r None s)
      | Some i \<Rightarrow> na_release_id i (set_block_id r None s))"

definition na_free_block_id :: "block_id \<Rightarrow> (naive_alloc, unit) act" where
  "na_free_block_id i = na_release_id i"

definition na_free_obj :: "ref \<Rightarrow> bool \<Rightarrow> (naive_alloc, unit) act" where
  "na_free_obj r keep =
     bind_act (na_free_block_obj r) (\<lambda>_. if keep then ret () else with_pool (free_block r))"

section \<open>Tokens of a block\<close>

definition append_no_cow :: "int list \<Rightarrow> ref \<Rightarrow> (heap, unit) act" where
  "append_no_cow toks r hp =
     (if toks = [] then (Inr (), hp)
      else if b_block_size (hp ! r) < length (b_token_ids (hp ! r)) + length toks then (Inl AssertionError, hp)
      else (Inr (), upd_obj r (\<lambda>b. b\<lparr>b_token_ids := b_token_ids b @ toks\<rparr>) hp))"

text \<open>A block that is shared is replaced by a private one before it is written.\<close>

definition na_cow_block :: "ref \<Rightarrow> (naive_alloc, block_id) act" where
  "na_cow_block r s =
     (case b_block_id (na_heap s ! r) of
        None \<Rightarrow> (Inl AssertionError, s)
      | Some src \<Rightarrow>
          bind_act (lift_res (is_appendable (na_refcounts s) (Some src))) (\<lambda>ok.
            if ok then ret src
            else
              bind_act (na_free_block_obj r) (\<lambda>_.
              bind_act na_allocate_block_id (\<lambda>trg.
              bind_act (zoom na_cows (\<lambda>c s. s\<lparr>na_cows := c\<rparr>) (record_cow (Some src) (Some trg))) (\<lambda>_. ret trg)))) s)"

definition na_append_token_ids :: "int list \<Rightarrow> ref \<Rightarrow> (naive_alloc, unit) act" where
  "na_append_token_ids toks r =
     bind_act (with_heap (append_no_cow toks r)) (\<lambda>_.
     bind_act (gets (\<lambda>s. b_block_id (na_heap s ! r))) (\<lambda>bid.
       if bid = None then ret ()
       else bind_act (na_cow_block r) (\<lambda>i. modify (set_block_id r (Some i)))))"

section \<open>Allocation\<close>

definition na_init_block :: "ref option \<Rightarrow> int list \<Rightarrow> block_id option \<Rightarrow> int option \<Rightarrow> (naive_alloc, ref) act" where
  "na_init_block prev toks bid extra s = with_pool (init_block prev toks (na_block_size s) bid extra) s"

definition na_allocate_mutable_block :: "ref option \<Rightarrow> (naive_alloc, ref) act" where
  "na_allocate_mutable_block prev =
     bind_act na_allocate_block_id (\<lambda>i. na_init_block prev [] (Some i) None)"

definition na_allocate_immutable_block :: "ref option \<Rightarrow> int list \<Rightarrow> (naive_alloc, ref) act" where
  "na_allocate_immutable_block prev toks =
     bind_act (na_allocate_mutable_block prev) (\<lambda>r.
     bind_act (na_append_token_ids toks r) (\<lambda>_. ret r))"

text \<open>All identifiers are taken before the first object is made.\<close>

fun na_allocate_ids :: "nat \<Rightarrow> (naive_alloc, block_id list) act" where
  "na_allocate_ids 0 = ret []"
| "na_allocate_ids (Suc n) =
     bind_act na_allocate_block_id (\<lambda>i. bind_act (na_allocate_ids n) (\<lambda>is. ret (i # is)))"

fun na_init_blocks :: "ref option \<Rightarrow> (int list \<times> block_id) list \<Rightarrow> (naive_alloc, ref list) act" where
  "na_init_blocks prev [] = ret []"
| "na_init_blocks prev ((toks, i) # rest) =
     bind_act (na_init_block prev toks (Some i) None) (\<lambda>r.
     bind_act (na_init_blocks (Some r) rest) (\<lambda>rs. ret (r # rs)))"

definition na_allocate_immutable_blocks :: "ref option \<Rightarrow> int list list \<Rightarrow> (naive_alloc, ref list) act" where
  "na_allocate_immutable_blocks prev tokss =
     bind_act (na_allocate_ids (length tokss)) (\<lambda>is. na_init_blocks prev (zip tokss is))"

section \<open>Sharing\<close>

fun na_fork_loop :: "ref option \<Rightarrow> ref list \<Rightarrow> (naive_alloc, ref list) act" where
  "na_fork_loop prev [] = ret []"
| "na_fork_loop prev (r # rs) =
     bind_act (gets (\<lambda>s. na_heap s ! r)) (\<lambda>b.
       (case b_block_id b of
          None \<Rightarrow> raise AssertionError
        | Some i \<Rightarrow>
            bind_act (with_refcounts (rc_incr i)) (\<lambda>n.
            bind_act (check (n \<noteq> 1)) (\<lambda>_.
            bind_act (na_init_block prev (b_token_ids b) (Some i) None) (\<lambda>f.
            bind_act (na_fork_loop (Some f) rs) (\<lambda>fs. ret (f # fs)))))))"

definition na_fork :: "ref \<Rightarrow> (naive_alloc, ref list) act" where
  "na_fork r = bind_act (\<lambda>s. (get_all_blocks_recursively (na_heap s) r, s)) (na_fork_loop None)"

section \<open>Queries\<close>

definition na_num_free_blocks :: "naive_alloc \<Rightarrow> nat" where
  "na_num_free_blocks s = length (na_free s)"

definition na_num_total_blocks :: "naive_alloc \<Rightarrow> nat" where
  "na_num_total_blocks s = length (na_all s)"

fun index_of :: "'a \<Rightarrow> 'a list \<Rightarrow> nat res" where
  "index_of x [] = Inl ValueError"
| "index_of x (y # ys) = (if x = y then Inr 0 else bind_res (index_of x ys) (\<lambda>n. Inr (Suc n)))"

definition na_physical_block_id :: "block_id \<Rightarrow> naive_alloc \<Rightarrow> nat res" where
  "na_physical_block_id i s = index_of i (sort (na_all s))"

definition na_clear_copy_on_writes :: "(naive_alloc, cows) act" where
  "na_clear_copy_on_writes = zoom na_cows (\<lambda>c s. s\<lparr>na_cows := c\<rparr>) clear_cows"

definition na_full_blocks_touched :: "ref list \<Rightarrow> naive_alloc \<Rightarrow> nat" where
  "na_full_blocks_touched rs s = length (remdups (filter (\<lambda>r. b_is_full (na_heap s ! r)) rs))"

section \<open>Swapping\<close>

definition na_swap_out :: "ref list \<Rightarrow> (naive_alloc, unit) act" where
  "na_swap_out = for_each na_free_block_obj"

definition na_swap_in_one :: "ref \<Rightarrow> (naive_alloc, unit) act" where
  "na_swap_in_one r =
     bind_act (gets (\<lambda>s. na_heap s ! r)) (\<lambda>b.
     bind_act (if b_is_full b then na_allocate_immutable_block (b_prev b) (b_token_ids b)
               else bind_act (na_allocate_mutable_block (b_prev b)) (\<lambda>t.
                    bind_act (na_append_token_ids (b_token_ids b) t) (\<lambda>_. ret t))) (\<lambda>t.
     bind_act (gets (\<lambda>s. b_block_id (na_heap s ! t))) (\<lambda>i.
     bind_act (modify (set_block_id t None)) (\<lambda>_.
     bind_act (with_pool (free_block t)) (\<lambda>_.
       modify (set_block_id r i))))))"

definition na_swap_in :: "ref list \<Rightarrow> (naive_alloc, unit) act" where
  "na_swap_in = for_each na_swap_in_one"

end
