(* ===== verification/PrefixCaching.thy ===== *)
theory PrefixCaching
  imports NaiveBlock
begin

text \<open>
  \<open>src/vllm/vllm/core/block/prefix_caching_block.py\<close>: the allocator with prefix caching. Full blocks
  are registered under their content hash and shared; a cached block without holders moves to
  the evictor and is reused for new content when the free list is empty.
\<close>

section \<open>State\<close>

record block_tracker =
  bt_active :: bool
  bt_last_accessed :: pyfloat
  bt_computed :: bool

definition tracker_reset :: "block_tracker \<Rightarrow> block_tracker" where
  "tracker_reset t = t\<lparr>bt_last_accessed := -1, bt_computed := False\<rparr>"

definition tracker_init :: block_tracker where
  "tracker_init = \<lparr>bt_active = False, bt_last_accessed = -1, bt_computed = False\<rparr>"

definition tracker_enable :: "block_tracker \<Rightarrow> block_tracker res" where
  "tracker_enable t = (if bt_active t then Inl AssertionError else Inr (tracker_reset (t\<lparr>bt_active := True\<rparr>)))"

definition tracker_disable :: "block_tracker \<Rightarrow> block_tracker res" where
  "tracker_disable t = (if bt_active t then Inr (tracker_reset (t\<lparr>bt_active := False\<rparr>)) else Inl AssertionError)"

record pc_alloc =
  pc_hashless :: naive_alloc
  pc_cached :: "(int, block_id) dict"
  pc_touched :: "block_id list"
  pc_tracker :: "(block_id, block_tracker) dict"
  pc_evictor :: evictor
  pc_cows :: cows
  pc_metric :: cache_metric

abbreviation pc_obj :: "pc_alloc \<Rightarrow> ref \<Rightarrow> blk" where
  "pc_obj s r \<equiv> na_heap (pc_hashless s) ! r"

abbreviation pc_rc :: "pc_alloc \<Rightarrow> refcounts" where
  "pc_rc s \<equiv> na_refcounts (pc_hashless s)"

definition hashless :: "(naive_alloc, 'a) act \<Rightarrow> (pc_alloc, 'a) act" where
  "hashless = zoom pc_hashless (\<lambda>n s. s\<lparr>pc_hashless := n\<rparr>)"

definition evicting :: "(evictor, 'a) act \<Rightarrow> (pc_alloc, 'a) act" where
  "evicting = zoom pc_evictor (\<lambda>e s. s\<lparr>pc_evictor := e\<rparr>)"

definition pc_new :: "nat \<Rightarrow> nat \<Rightarrow> block_id list option \<Rightarrow> heap \<Rightarrow> pc_alloc res" where
  "pc_new num_blocks bs ids hp =
     (let ids' = (case ids of None \<Rightarrow> [0..<num_blocks] | Some l \<Rightarrow> l)
      in bind_res (naive_new num_blocks bs (Some ids') (Some (block_pool_new bs (num_blocks * 4) hp)) hp) (\<lambda>n.
           Inr \<lparr>pc_hashless = n, pc_cached = [], pc_touched = [], pc_tracker = map (\<lambda>i. (i, tracker_init)) (remdups ids'),
                pc_evictor = evictor_new, pc_cows = [], pc_metric = cache_metric_new\<rparr>))"

section \<open>Content hashes\<close>

text \<open>The property \<open>content_hash\<close> computes the hash of a full block once and remembers it.\<close>

fun block_content_hash :: "(string \<Rightarrow> int) \<Rightarrow> nat \<Rightarrow> ref \<Rightarrow> (heap, int option) act" where
  "block_content_hash H 0 r hp = (Inl RecursionError, hp)"
| "block_content_hash H (Suc n) r hp =
     (case b_cached_hash (hp ! r) of
        Some h \<Rightarrow> (Inr (Some h), hp)
      | None \<Rightarrow>
          if \<not> b_is_full (hp ! r) then (Inr None, hp)
          else
            bind_act (case b_prev (hp ! r) of
                        None \<Rightarrow> ret (Some NONE_HASH)
                      | Some p \<Rightarrow> block_content_hash H n p) (\<lambda>prev_block_hash.
            let is_first_block = (b_prev (hp ! r) = None)
            in if prev_block_hash = Some NONE_HASH \<and> \<not> is_first_block then ret None
               else
                 (let h = hash_block_tokens H is_first_block prev_block_hash (b_token_ids (hp ! r)) (b_extra_hash (hp ! r))
                  in bind_act (modify (upd_obj r (\<lambda>b. b\<lparr>b_cached_hash := Some h\<rparr>))) (\<lambda>_. ret (Some h)))) hp)"

definition content_hash_of :: "(string \<Rightarrow> int) \<Rightarrow> ref \<Rightarrow> (pc_alloc, int option) act" where
  "content_hash_of H r =
     hashless (with_heap (\<lambda>hp. block_content_hash H (Suc (length hp)) r hp))"

section \<open>Tracking\<close>

definition set_tracker :: "block_id \<Rightarrow> block_tracker \<Rightarrow> pc_alloc \<Rightarrow> pc_alloc" where
  "set_tracker i t s = s\<lparr>pc_tracker := AList.update i t (pc_tracker s)\<rparr>"

definition get_tracker :: "block_id \<Rightarrow> (pc_alloc, block_tracker) act" where
  "get_tracker i s = (dict_item (pc_tracker s) i, s)"

definition track_block_id :: "block_id \<Rightarrow> bool \<Rightarrow> (pc_alloc, unit) act" where
  "track_block_id i computed =
     bind_act (get_tracker i) (\<lambda>t.
     bind_act (lift_res (tracker_enable t)) (\<lambda>t'.
       modify (set_tracker i (t'\<lparr>bt_computed := computed\<rparr>))))"

definition untrack_block_id :: "block_id \<Rightarrow> (pc_alloc, unit) act" where
  "untrack_block_id i =
     bind_act (get_tracker i) (\<lambda>t.
     bind_act (lift_res (tracker_disable t)) (\<lambda>t'. modify (set_tracker i t')))"

definition block_is_computed :: "block_id \<Rightarrow> pc_alloc \<Rightarrow> bool res" where
  "block_is_computed i s =
     bind_res (dict_item (pc_tracker s) i) (\<lambda>t.
       Inr (if bt_active t then bt_computed t else ev_contains (pc_evictor s) i))"

definition is_block_active :: "block_id \<Rightarrow> pc_alloc \<Rightarrow> bool res" where
  "is_block_active i s = bind_res (dict_item (pc_tracker s) i) (\<lambda>t. Inr (bt_active t))"

section \<open>Reference counts of cached and hashless blocks\<close>

definition set_id :: "ref \<Rightarrow> block_id option \<Rightarrow> (pc_alloc, unit) act" where
  "set_id r i = hashless (modify (set_block_id r i))"

definition the_block_id :: "ref \<Rightarrow> (pc_alloc, block_id) act" where
  "the_block_id r s =
     (case b_block_id (pc_obj s r) of None \<Rightarrow> (Inl AssertionError, s) | Some i \<Rightarrow> (Inr i, s))"

definition incr_refcount_cached_block :: "ref \<Rightarrow> (pc_alloc, unit) act" where
  "incr_refcount_cached_block r =
     bind_act (hashless (with_heap (modify (upd_obj r (\<lambda>b. b\<lparr>b_computed := True\<rparr>))))) (\<lambda>_.
     bind_act (the_block_id r) (\<lambda>i.
     bind_act (hashless (with_refcounts (rc_incr i))) (\<lambda>n.
       if n = 1 then
         bind_act (gets (\<lambda>s. ev_contains (pc_evictor s) i)) (\<lambda>c.
         bind_act (if c then evicting (ev_remove i) else ret ()) (\<lambda>_.
           track_block_id i True))
       else ret ())))"

definition decr_refcount_cached_block :: "(string \<Rightarrow> int) \<Rightarrow> ref \<Rightarrow> (pc_alloc, unit) act" where
  "decr_refcount_cached_block H r =
     bind_act (content_hash_of H r) (\<lambda>ch.
       (case ch of
          None \<Rightarrow> raise AssertionError
        | Some h \<Rightarrow>
            bind_act (the_block_id r) (\<lambda>i.
            bind_act (hashless (with_refcounts (rc_decr i))) (\<lambda>n.
              if 0 < n then set_id r None
              else
                bind_act (gets (\<lambda>s. map_of (pc_cached s) h \<noteq> None)) (\<lambda>known.
                bind_act (check known) (\<lambda>_.
                bind_act (get_tracker i) (\<lambda>t.
                bind_act (gets (\<lambda>s. b_num_tokens_total (pc_obj s r))) (\<lambda>tot.
                bind_act (modify (\<lambda>s. s\<lparr>pc_evictor := ev_add i h (int tot) (bt_last_accessed t) (pc_evictor s)\<rparr>)) (\<lambda>_.
                bind_act (untrack_block_id i) (\<lambda>_.
                  set_id r None))))))))))"

definition decr_refcount_hashless_block :: "ref \<Rightarrow> (pc_alloc, unit) act" where
  "decr_refcount_hashless_block r =
     bind_act (the_block_id r) (\<lambda>i.
     bind_act (\<lambda>s. (rc_get i (pc_rc s), s)) (\<lambda>n.
     bind_act (if n = 1 then untrack_block_id i else ret ()) (\<lambda>_.
       hashless (na_free_obj r True))))"

section \<open>Identifiers\<close>

definition maybe_allocate_hashless_block_id :: "(pc_alloc, block_id option) act" where
  "maybe_allocate_hashless_block_id s =
     (case bind_act (hashless (na_allocate_mutable_block None)) (\<lambda>r.
           bind_act (gets (\<lambda>s. b_block_id (pc_obj s r))) (\<lambda>i.
           bind_act (hashless (with_pool (free_block r))) (\<lambda>_.
             (case i of
                None \<Rightarrow> raise AssertionError
              | Some i \<Rightarrow> bind_act (track_block_id i False) (\<lambda>_. ret (Some i)))))) s of
        (Inl NoFreeBlocksError, s') \<Rightarrow> (Inr None, s')
      | rs \<Rightarrow> rs)"

definition maybe_allocate_evicted_block_id :: "(pc_alloc, block_id option) act" where
  "maybe_allocate_evicted_block_id s =
     (if ev_num_blocks (pc_evictor s) = 0 then (Inr None, s)
      else
        bind_act (evicting evict) (\<lambda>(i, h).
        bind_act (gets (\<lambda>s. map_of (pc_cached s) h)) (\<lambda>c.
          (case c of
             None \<Rightarrow> raise AssertionError
           | Some j \<Rightarrow>
               bind_act (\<lambda>s. (rc_get j (pc_rc s), s)) (\<lambda>n.
               bind_act (check (n = 0)) (\<lambda>_.
               bind_act (check (j = i)) (\<lambda>_.
               bind_act (modify (\<lambda>s. s\<lparr>pc_cached := AList.delete h (pc_cached s)\<rparr>)) (\<lambda>_.
               bind_act (hashless (with_refcounts (rc_incr i))) (\<lambda>_.
               bind_act (track_block_id i False) (\<lambda>_. ret (Some i)))))))))) s)"

definition pc_allocate_block_id :: "(pc_alloc, block_id) act" where
  "pc_allocate_block_id =
     bind_act maybe_allocate_hashless_block_id (\<lambda>i.
       (case i of
          Some i \<Rightarrow> ret i
        | None \<Rightarrow>
            bind_act maybe_allocate_evicted_block_id (\<lambda>j.
              (case j of Some j \<Rightarrow> ret j | None \<Rightarrow> raise NoFreeBlocksError))))"

definition pc_free_block_id :: "(string \<Rightarrow> int) \<Rightarrow> ref \<Rightarrow> (pc_alloc, unit) act" where
  "pc_free_block_id H r =
     bind_act (the_block_id r) (\<lambda>_.
     bind_act (content_hash_of H r) (\<lambda>ch.
     bind_act (if ch \<noteq> None then decr_refcount_cached_block H r else decr_refcount_hashless_block r) (\<lambda>_.
     bind_act (gets (\<lambda>s. b_block_id (pc_obj s r))) (\<lambda>i. check (i = None)))))"

definition pc_free :: "(string \<Rightarrow> int) \<Rightarrow> ref \<Rightarrow> bool \<Rightarrow> (pc_alloc, unit) act" where
  "pc_free H r keep =
     bind_act (pc_free_block_id H r) (\<lambda>_. if keep then ret () else hashless (with_pool (free_block r)))"

section \<open>Blocks\<close>

definition pc_init_block :: "ref option \<Rightarrow> int list \<Rightarrow> block_id option \<Rightarrow> int option \<Rightarrow> (pc_alloc, ref) act" where
  "pc_init_block prev toks bid extra = hashless (na_init_block prev toks bid extra)"

definition pc_allocate_mutable_block :: "(string \<Rightarrow> int) \<Rightarrow> ref option \<Rightarrow> int option \<Rightarrow> (pc_alloc, ref) act" where
  "pc_allocate_mutable_block H prev extra =
     bind_act pc_allocate_block_id (\<lambda>i.
     bind_act (pc_init_block prev [] (Some i) extra) (\<lambda>r.
     bind_act (gets (\<lambda>s. b_computed (pc_obj s r))) (\<lambda>c.
     bind_act (check (\<not> c)) (\<lambda>_.
     bind_act (content_hash_of H r) (\<lambda>ch.
     bind_act (check (ch = None)) (\<lambda>_. ret r))))))"

text \<open>Promotion of a block that became full.\<close>

definition promote_to_immutable_block :: "(string \<Rightarrow> int) \<Rightarrow> ref \<Rightarrow> (pc_alloc, block_id) act" where
  "promote_to_immutable_block H r =
     bind_act (content_hash_of H r) (\<lambda>ch.
       (case ch of
          None \<Rightarrow> raise AssertionError
        | Some h \<Rightarrow>
            bind_act (the_block_id r) (\<lambda>i.
            bind_act (\<lambda>s. (rc_get i (pc_rc s), s)) (\<lambda>n.
            bind_act (check (0 < n)) (\<lambda>_.
            bind_act (gets (\<lambda>s. map_of (pc_cached s) h)) (\<lambda>c.
              (case c of
                 None \<Rightarrow>
                   bind_act (modify (\<lambda>s. s\<lparr>pc_cached := AList.update h i (pc_cached s),
                                            pc_touched := List.insert i (pc_touched s)\<rparr>)) (\<lambda>_. ret i)
               | Some _ \<Rightarrow>
                   bind_act (decr_refcount_hashless_block r) (\<lambda>_.
                   bind_act (\<lambda>s. (dict_item (pc_cached s) h, s)) (\<lambda>j.
                   bind_act (set_id r (Some j)) (\<lambda>_.
                   bind_act (incr_refcount_cached_block r) (\<lambda>_. the_block_id r)))))))))))"

text \<open>
  Copy on write of the inner naive block, which never has a content hash: the release is the
  one of a hashless block.
\<close>

definition pc_cow_block :: "ref \<Rightarrow> (pc_alloc, block_id) act" where
  "pc_cow_block r =
     bind_act (the_block_id r) (\<lambda>src.
     bind_act (\<lambda>s. (is_appendable (pc_rc s) (Some src), s)) (\<lambda>ok.
       if ok then ret src
       else
         bind_act (decr_refcount_hashless_block r) (\<lambda>_.
         bind_act (gets (\<lambda>s. b_block_id (pc_obj s r))) (\<lambda>i.
         bind_act (check (i = None)) (\<lambda>_.
         bind_act pc_allocate_block_id (\<lambda>trg.
         bind_act (zoom pc_cows (\<lambda>c s. s\<lparr>pc_cows := c\<rparr>) (record_cow (Some src) (Some trg))) (\<lambda>_. ret trg)))))))"

definition update_num_tokens_total :: "ref \<Rightarrow> heap \<Rightarrow> heap" where
  "update_num_tokens_total r hp =
     upd_obj r (\<lambda>b. b\<lparr>b_num_tokens_total := prev_total hp (b_prev b) + length (b_token_ids b)\<rparr>) hp"

definition pc_append_token_ids :: "(string \<Rightarrow> int) \<Rightarrow> int list \<Rightarrow> ref \<Rightarrow> (pc_alloc, unit) act" where
  "pc_append_token_ids H toks r =
     bind_act (content_hash_of H r) (\<lambda>ch.
     bind_act (check (ch = None)) (\<lambda>_.
     bind_act (gets (\<lambda>s. b_computed (pc_obj s r))) (\<lambda>c.
     bind_act (check (\<not> c)) (\<lambda>_.
       if toks = [] then ret ()
       else
         bind_act (hashless (with_heap (append_no_cow toks r))) (\<lambda>_.
         bind_act (gets (\<lambda>s. b_block_id (pc_obj s r))) (\<lambda>bid.
         bind_act (if bid = None then ret () else bind_act (pc_cow_block r) (\<lambda>i. set_id r (Some i))) (\<lambda>_.
         bind_act (hashless (with_heap (modify (update_num_tokens_total r)))) (\<lambda>_.
         bind_act (content_hash_of H r) (\<lambda>ch'.
           if ch' = None then ret ()
           else bind_act (promote_to_immutable_block H r) (\<lambda>i. set_id r (Some i)))))))))))"

definition query_metric :: "bool \<Rightarrow> (pc_alloc, unit) act" where
  "query_metric hit = modify (\<lambda>s. s\<lparr>pc_metric := cm_query hit (pc_metric s)\<rparr>)"

definition pc_allocate_immutable_block ::
  "(string \<Rightarrow> int) \<Rightarrow> ref option \<Rightarrow> int list \<Rightarrow> int option \<Rightarrow> (pc_alloc, ref) act" where
  "pc_allocate_immutable_block H prev toks extra =
     bind_act (pc_init_block prev toks None extra) (\<lambda>r.
     bind_act (content_hash_of H r) (\<lambda>ch.
       (case ch of
          None \<Rightarrow> raise AssertionError
        | Some h \<Rightarrow>
            bind_act (gets (\<lambda>s. map_of (pc_cached s) h)) (\<lambda>c.
              (case c of
                 Some i \<Rightarrow>
                   bind_act (query_metric True) (\<lambda>_.
                   bind_act (set_id r (Some i)) (\<lambda>_.
                   bind_act (incr_refcount_cached_block r) (\<lambda>_. ret r)))
               | None \<Rightarrow>
                   bind_act (query_metric False) (\<lambda>_.
                   bind_act (hashless (with_pool (free_block r))) (\<lambda>_.
                   bind_act (pc_allocate_mutable_block H prev extra) (\<lambda>r2.
                   bind_act (pc_append_token_ids H toks r2) (\<lambda>_. ret r2)))))))))"

fun pc_allocate_immutable_blocks ::
  "(string \<Rightarrow> int) \<Rightarrow> ref option \<Rightarrow> int list list \<Rightarrow> int option \<Rightarrow> (pc_alloc, ref list) act" where
  "pc_allocate_immutable_blocks H prev [] extra = ret []"
| "pc_allocate_immutable_blocks H prev (toks # rest) extra =
     bind_act (pc_allocate_immutable_block H prev toks extra) (\<lambda>r.
     bind_act (pc_allocate_immutable_blocks H (Some r) rest extra) (\<lambda>rs. ret (r # rs)))"

fun pc_fork_loop :: "ref option \<Rightarrow> ref list \<Rightarrow> (pc_alloc, ref list) act" where
  "pc_fork_loop prev [] = ret []"
| "pc_fork_loop prev (r # rs) =
     bind_act (the_block_id r) (\<lambda>i.
     bind_act (hashless (with_refcounts (rc_incr i))) (\<lambda>n.
     bind_act (check (n \<noteq> 1)) (\<lambda>_.
     bind_act (gets (\<lambda>s. pc_obj s r)) (\<lambda>b.
     bind_act (pc_init_block prev (b_token_ids b) (Some i) (b_extra_hash b)) (\<lambda>f.
     bind_act (pc_fork_loop (Some f) rs) (\<lambda>fs. ret (f # fs)))))))"

definition pc_fork :: "ref \<Rightarrow> (pc_alloc, ref list) act" where
  "pc_fork r = bind_act (\<lambda>s. (get_all_blocks_recursively (na_heap (pc_hashless s)) r, s)) (pc_fork_loop None)"

section \<open>Queries\<close>

definition pc_num_free_blocks :: "pc_alloc \<Rightarrow> nat" where
  "pc_num_free_blocks s = na_num_free_blocks (pc_hashless s) + ev_num_blocks (pc_evictor s)"

definition pc_num_total_blocks :: "pc_alloc \<Rightarrow> nat" where
  "pc_num_total_blocks s = na_num_total_blocks (pc_hashless s)"

definition pc_physical_block_id :: "block_id \<Rightarrow> pc_alloc \<Rightarrow> nat res" where
  "pc_physical_block_id i s = index_of i (sort (na_all (pc_hashless s)))"

definition is_block_cached :: "(string \<Rightarrow> int) \<Rightarrow> ref \<Rightarrow> (pc_alloc, bool) act" where
  "is_block_cached H r =
     bind_act (content_hash_of H r) (\<lambda>ch.
       (case ch of None \<Rightarrow> raise AssertionError | Some h \<Rightarrow> gets (\<lambda>s. map_of (pc_cached s) h \<noteq> None)))"

definition pc_clear_copy_on_writes :: "(pc_alloc, cows) act" where
  "pc_clear_copy_on_writes = zoom pc_cows (\<lambda>c s. s\<lparr>pc_cows := c\<rparr>) clear_cows"

definition pc_hit_rate :: "pc_alloc \<Rightarrow> pyfloat res" where
  "pc_hit_rate s = cm_get_hit_rate (pc_metric s)"

definition get_common_computed_block_ids :: "block_id list list \<Rightarrow> block_id list" where
  "get_common_computed_block_ids idss =
     (case idss of
        [ids] \<Rightarrow> ids
      | _ \<Rightarrow>
          (case filter (\<lambda>ids. ids \<noteq> []) idss of
             [] \<Rightarrow> []
           | xs # xss \<Rightarrow>
               map (\<lambda>k. xs ! k) (takeWhile (\<lambda>k. \<forall>ys \<in> set xss. k < length ys \<and> ys ! k = xs ! k) [0..<length xs])))"

definition mark_accessed_one :: "pyfloat \<Rightarrow> block_id \<Rightarrow> (pc_alloc, unit) act" where
  "mark_accessed_one now i =
     bind_act (get_tracker i) (\<lambda>t.
       if bt_active t then modify (set_tracker i (t\<lparr>bt_last_accessed := now\<rparr>))
       else
         bind_act (gets (\<lambda>s. ev_contains (pc_evictor s) i)) (\<lambda>c.
           if c then evicting (ev_update i now) else raise ValueError))"

definition pc_mark_blocks_as_accessed :: "block_id list \<Rightarrow> pyfloat \<Rightarrow> (pc_alloc, unit) act" where
  "pc_mark_blocks_as_accessed ids now = for_each (mark_accessed_one now) ids"

definition mark_computed_one :: "block_id \<Rightarrow> (pc_alloc, unit) act" where
  "mark_computed_one i = bind_act (get_tracker i) (\<lambda>t. modify (set_tracker i (t\<lparr>bt_computed := True\<rparr>)))"

definition pc_mark_blocks_as_computed :: "block_id list \<Rightarrow> (pc_alloc, unit) act" where
  "pc_mark_blocks_as_computed ids s =
     bind_act (for_each mark_computed_one (if ids \<noteq> [] then ids else pc_touched s)) (\<lambda>_.
       modify (\<lambda>s. s\<lparr>pc_touched := (if ids \<noteq> [] then filter (\<lambda>i. i \<notin> set ids) (pc_touched s) else [])\<rparr>)) s"

fun pc_full_blocks_touched :: "(string \<Rightarrow> int) \<Rightarrow> ref list \<Rightarrow> (pc_alloc, nat) act" where
  "pc_full_blocks_touched H [] = ret 0"
| "pc_full_blocks_touched H (r # rs) =
     bind_act (gets (\<lambda>s. b_is_full (pc_obj s r))) (\<lambda>full.
     bind_act (if \<not> full then ret 0
               else bind_act (is_block_cached H r) (\<lambda>c.
                    if \<not> c then ret 1
                    else bind_act (content_hash_of H r) (\<lambda>ch.
                         (case ch of
                            None \<Rightarrow> ret 0
                          | Some h \<Rightarrow>
                              bind_act (\<lambda>s. (dict_item (pc_cached s) h, s)) (\<lambda>i.
                              bind_act (gets (\<lambda>s. ev_contains (pc_evictor s) i)) (\<lambda>e. ret (if e then 1 else 0))))))) (\<lambda>k.
     bind_act (pc_full_blocks_touched H rs) (\<lambda>n. ret (k + n))))"

section \<open>Swapping\<close>

definition pc_swap_out :: "(string \<Rightarrow> int) \<Rightarrow> ref list \<Rightarrow> (pc_alloc, unit) act" where
  "pc_swap_out H = for_each (pc_free_block_id H)"

definition pc_swap_in_one :: "(string \<Rightarrow> int) \<Rightarrow> ref \<Rightarrow> (pc_alloc, unit) act" where
  "pc_swap_in_one H r =
     bind_act (gets (\<lambda>s. pc_obj s r)) (\<lambda>b.
     bind_act (if b_is_full b then pc_allocate_immutable_block H (b_prev b) (b_token_ids b) (b_extra_hash b)
               else bind_act (pc_allocate_mutable_block H (b_prev b) (b_extra_hash b)) (\<lambda>t.
                    bind_act (pc_append_token_ids H (b_token_ids b) t) (\<lambda>_. ret t))) (\<lambda>t.
     bind_act (gets (\<lambda>s. b_block_id (pc_obj s t))) (\<lambda>i.
     bind_act (hashless (with_pool (free_block t))) (\<lambda>_.
       set_id r i))))"

definition pc_swap_in :: "(string \<Rightarrow> int) \<Rightarrow> ref list \<Rightarrow> (pc_alloc, unit) act" where
  "pc_swap_in H = for_each (pc_swap_in_one H)"

section \<open>Cached prefixes\<close>

definition hash_is_cached :: "pc_alloc \<Rightarrow> int \<Rightarrow> bool res" where
  "hash_is_cached s h =
     (case map_of (pc_cached s) h of None \<Rightarrow> Inr False | Some i \<Rightarrow> block_is_computed i s)"

text \<open>\<open>bisect_left(a, True, key=\<dots>)\<close> with the key \<open>not cached\<close>.\<close>

function bisect_left :: "('a \<Rightarrow> bool res) \<Rightarrow> 'a list \<Rightarrow> nat \<Rightarrow> nat \<Rightarrow> nat res" where
  "bisect_left cached xs lo hi =
     (if lo < hi then
        (let mid = (lo + hi) div 2
         in bind_res (cached (xs ! mid)) (\<lambda>c.
              if c then bisect_left cached xs (mid + 1) hi else bisect_left cached xs lo mid))
      else Inr lo)"
  by pat_completeness auto
termination
  by (relation "measure (\<lambda>(cached, xs, lo, hi). hi - lo)") auto

declare bisect_left.simps [simp del]

definition find_cached_blocks_prefix :: "pc_alloc \<Rightarrow> int list \<Rightarrow> int list res" where
  "find_cached_blocks_prefix s hs =
     bind_res (bisect_left (hash_is_cached s) hs 0 (length hs)) (\<lambda>idx. Inr (take idx hs))"

definition get_computed_cached_block_hashes :: "pc_alloc \<Rightarrow> int list res" where
  "get_computed_cached_block_hashes s =
     map_sum id (\<lambda>fs. map (fst \<circ> fst) (filter snd (zip (pc_cached s) fs)))
       (map_res (\<lambda>(h, i). block_is_computed i s) (pc_cached s))"

fun count_new_loop ::
  "(string \<Rightarrow> int) \<Rightarrow> pc_alloc \<Rightarrow> nat \<Rightarrow> int option \<Rightarrow> int option \<Rightarrow> int list list \<Rightarrow> nat" where
  "count_new_loop H s bs extra prev [] = 0"
| "count_new_loop H s bs extra prev (c # cs) =
     (if length c < bs then 1
      else
        (let h = hash_block_tokens H (prev = None) prev c extra
         in (case map_of (pc_cached s) h of
               None \<Rightarrow> 1
             | Some i \<Rightarrow>
                 (case map_of (pc_tracker s) i of
                    None \<Rightarrow> 1
                  | Some t \<Rightarrow> if bt_active t then 0 else 1))
            + count_new_loop H s bs extra (Some h) cs))"

definition count_new_blocks_for_token_ids :: "(string \<Rightarrow> int) \<Rightarrow> int list \<Rightarrow> int option \<Rightarrow> pc_alloc \<Rightarrow> nat res" where
  "count_new_blocks_for_token_ids H toks extra s =
     (let bs = na_block_size (pc_hashless s)
      in if bs = 0 then Inl ValueError else Inr (count_new_loop H s bs extra None (chunks bs toks)))"

section \<open>Reset\<close>

text \<open>Every round evicts one block, so the number of evictable blocks bounds the rounds.\<close>

fun reset_loop :: "nat \<Rightarrow> (pc_alloc, unit) act" where
  "reset_loop 0 = ret ()"
| "reset_loop (Suc n) =
     bind_act maybe_allocate_evicted_block_id (\<lambda>i.
       (case i of
          None \<Rightarrow> ret ()
        | Some i \<Rightarrow> bind_act (hashless (na_free_block_id i)) (\<lambda>_. reset_loop n)))"

definition reset_prefix_cache :: "(pc_alloc, bool) act" where
  "reset_prefix_cache s =
     (if 0 < int (pc_num_total_blocks s) - int (pc_num_free_blocks s) then (Inr False, s)
      else
        bind_act (reset_loop (Suc (ev_num_blocks (pc_evictor s)))) (\<lambda>_.
        bind_act (gets (\<lambda>s. pc_cached s = [])) (\<lambda>e.
        bind_act (check e) (\<lambda>_.
        bind_act (modify (\<lambda>s. s\<lparr>pc_evictor := evictor_new,
                                 pc_tracker := map (\<lambda>(i, _). (i, tracker_init)) (pc_tracker s),
                                 pc_metric := cache_metric_new\<rparr>)) (\<lambda>_. ret True)))) s)"

end
