(* ===== verification/PhysBlocks.thy ===== *)
theory PhysBlocks
  imports Evictor
begin

text \<open>
  What an allocator with prefix caching promises about its physical blocks, without objects,
  pools or heaps: every block is free, cached without holders (evictable), or held by a number
  of block objects; a content hash names at most one block. The allocator of
  \<open>prefix_caching_block.py\<close> is shown to implement these steps.
\<close>

section \<open>State and steps\<close>

record phys =
  ph_free :: "block_id set"
  ph_evict :: "block_id \<rightharpoonup> int"
  ph_refs :: "block_id \<rightharpoonup> int"
  ph_cached :: "int \<rightharpoonup> block_id"

definition ph_take_free :: "block_id \<Rightarrow> phys \<Rightarrow> phys" where
  "ph_take_free i p = p\<lparr>ph_free := ph_free p - {i}, ph_refs := (ph_refs p)(i \<mapsto> 1)\<rparr>"

definition ph_take_evicted :: "block_id \<Rightarrow> int \<Rightarrow> phys \<Rightarrow> phys" where
  "ph_take_evicted i h p =
     p\<lparr>ph_evict := (ph_evict p)(i := None), ph_refs := (ph_refs p)(i \<mapsto> 1), ph_cached := (ph_cached p)(h := None)\<rparr>"

definition ph_share :: "block_id \<Rightarrow> phys \<Rightarrow> phys" where
  "ph_share i p = p\<lparr>ph_evict := (ph_evict p)(i := None), ph_refs := (ph_refs p)(i \<mapsto> the (ph_refs p i) + 1)\<rparr>"

definition ph_release_cached :: "block_id \<Rightarrow> int \<Rightarrow> phys \<Rightarrow> phys" where
  "ph_release_cached i h p =
     p\<lparr>ph_evict := (if the (ph_refs p i) = 1 then (ph_evict p)(i \<mapsto> h) else ph_evict p),
       ph_refs := (ph_refs p)(i \<mapsto> the (ph_refs p i) - 1)\<rparr>"

definition ph_release :: "block_id \<Rightarrow> phys \<Rightarrow> phys" where
  "ph_release i p =
     p\<lparr>ph_free := (if the (ph_refs p i) = 1 then insert i (ph_free p) else ph_free p),
       ph_refs := (ph_refs p)(i \<mapsto> the (ph_refs p i) - 1)\<rparr>"

definition ph_register :: "int \<Rightarrow> block_id \<Rightarrow> phys \<Rightarrow> phys" where
  "ph_register h i p = p\<lparr>ph_cached := (ph_cached p)(h \<mapsto> i)\<rparr>"

definition ph_init :: "block_id list \<Rightarrow> phys" where
  "ph_init ids = \<lparr>ph_free = set ids, ph_evict = Map.empty, ph_refs = (\<lambda>i. if i \<in> set ids then Some 0 else None), ph_cached = Map.empty\<rparr>"

inductive phys_step :: "phys \<Rightarrow> phys \<Rightarrow> bool" where
  take_free: "i \<in> ph_free p \<Longrightarrow> phys_step p (ph_take_free i p)"
| take_evicted: "ph_evict p i = Some h \<Longrightarrow> phys_step p (ph_take_evicted i h p)"
| share: "ph_cached p h = Some i \<Longrightarrow> phys_step p (ph_share i p)"
| release_cached: "ph_cached p h = Some i \<Longrightarrow> ph_refs p i = Some n \<Longrightarrow> 0 < n \<Longrightarrow> phys_step p (ph_release_cached i h p)"
| release: "i \<notin> ran (ph_cached p) \<Longrightarrow> ph_refs p i = Some n \<Longrightarrow> 0 < n \<Longrightarrow> phys_step p (ph_release i p)"
| register: "ph_cached p h = None \<Longrightarrow> i \<notin> ran (ph_cached p) \<Longrightarrow> ph_refs p i = Some n \<Longrightarrow> 0 < n \<Longrightarrow>
    phys_step p (ph_register h i p)"

section \<open>Invariant\<close>

definition phys_ok :: "phys \<Rightarrow> bool" where
  "phys_ok p \<longleftrightarrow>
     ph_free p \<subseteq> dom (ph_refs p) \<and> dom (ph_evict p) \<subseteq> dom (ph_refs p) \<and> ph_free p \<inter> dom (ph_evict p) = {}
     \<and> (\<forall>i n. ph_refs p i = Some n \<longrightarrow> 0 \<le> n \<and> (n = 0 \<longleftrightarrow> i \<in> ph_free p \<or> i \<in> dom (ph_evict p)))
     \<and> (\<forall>h i. ph_cached p h = Some i \<longrightarrow> i \<in> dom (ph_refs p) \<and> i \<notin> ph_free p)
     \<and> (\<forall>h h' i. ph_cached p h = Some i \<and> ph_cached p h' = Some i \<longrightarrow> h = h')
     \<and> (\<forall>i h. ph_evict p i = Some h \<longrightarrow> ph_cached p h = Some i)"

lemma phys_okD:
  assumes "phys_ok p"
  shows "i \<in> ph_free p \<Longrightarrow> ph_refs p i = Some 0"
    and "ph_evict p i = Some h \<Longrightarrow> ph_refs p i = Some 0"
    and "ph_evict p i = Some h \<Longrightarrow> ph_cached p h = Some i"
    and "ph_refs p i = Some n \<Longrightarrow> 0 \<le> n"
    and "ph_refs p i = Some 0 \<Longrightarrow> i \<in> ph_free p \<or> ph_evict p i \<noteq> None"
    and "ph_cached p h = Some i \<Longrightarrow> i \<notin> ph_free p"
    and "ph_cached p h = Some i \<Longrightarrow> \<exists>n. ph_refs p i = Some n"
    and "ph_cached p h = Some i \<Longrightarrow> ph_cached p h' = Some i \<Longrightarrow> h = h'"
    and "i \<in> ph_free p \<Longrightarrow> ph_evict p i = None"
    and "i \<in> ph_free p \<Longrightarrow> i \<notin> ran (ph_cached p)"
  using assms unfolding phys_ok_def by (blast | force simp: ran_def)+

lemma phys_ok_take_free:
  assumes ok: "phys_ok p" and i: "i \<in> ph_free p"
  shows "phys_ok (ph_take_free i p)"
  using ok i unfolding phys_ok_def ph_take_free_def by (auto split: if_splits)

lemma phys_ok_take_evicted:
  assumes ok: "phys_ok p" and i: "ph_evict p i = Some h"
  shows "phys_ok (ph_take_evicted i h p)"
proof -
  let ?q = "ph_take_evicted i h p"
  have q: "ph_free ?q = ph_free p" "ph_evict ?q = (ph_evict p)(i := None)" "ph_refs ?q = (ph_refs p)(i \<mapsto> 1)"
    "ph_cached ?q = (ph_cached p)(h := None)" by (simp_all add: ph_take_evicted_def)
  have i': "ph_cached p h = Some i" "i \<notin> ph_free p" using phys_okD(3,9) [OF ok, of i] i by auto
  have "0 \<le> n \<and> (n = 0 \<longleftrightarrow> j \<in> ph_free ?q \<or> j \<in> dom (ph_evict ?q))" if "ph_refs ?q j = Some n" for j n
    using that ok i'(2) unfolding q phys_ok_def by (cases "j = i") auto
  moreover have "j \<in> dom (ph_refs ?q) \<and> j \<notin> ph_free ?q" if "ph_cached ?q k = Some j" for k j
    using that ok unfolding q phys_ok_def by (auto split: if_splits)
  moreover have "k = k'" if "ph_cached ?q k = Some j" "ph_cached ?q k' = Some j" for k k' j
    using that phys_okD(8) [OF ok] unfolding q by (metis fun_upd_apply option.distinct(1))
  moreover have "ph_cached ?q k = Some j" if "ph_evict ?q j = Some k" for j k
    using that phys_okD(3) [OF ok, of j k] i'(1) unfolding q by (auto split: if_splits)
  moreover have "ph_free ?q \<subseteq> dom (ph_refs ?q) \<and> dom (ph_evict ?q) \<subseteq> dom (ph_refs ?q) \<and> ph_free ?q \<inter> dom (ph_evict ?q) = {}"
    using ok unfolding q phys_ok_def by auto
  ultimately show ?thesis unfolding phys_ok_def [of ?q] by blast
qed

lemma phys_ok_share:
  assumes ok: "phys_ok p" and h: "ph_cached p h = Some i"
  shows "phys_ok (ph_share i p)"
proof -
  obtain n where n: "ph_refs p i = Some n" "0 \<le> n" using phys_okD(4,7) [OF ok] h by blast
  then have "n + 1 \<noteq> 0" "0 \<le> n + 1" by auto
  with n ok phys_okD(6) [OF ok h] show ?thesis unfolding phys_ok_def ph_share_def by (auto split: if_splits)
qed

lemma phys_ok_release_cached:
  assumes ok: "phys_ok p" and h: "ph_cached p h = Some i" and n: "ph_refs p i = Some n" "0 < n"
  shows "phys_ok (ph_release_cached i h p)"
proof -
  have "ph_evict p i = None" using phys_okD(2) [OF ok, of i] n by (cases "ph_evict p i") auto
  with ok h n phys_okD(6) [OF ok h] show ?thesis unfolding phys_ok_def ph_release_cached_def by (auto split: if_splits)
qed

lemma phys_ok_release:
  assumes ok: "phys_ok p" and i: "i \<notin> ran (ph_cached p)" and n: "ph_refs p i = Some n" "0 < n"
  shows "phys_ok (ph_release i p)"
proof -
  have "ph_evict p i = None" "i \<notin> ph_free p" using phys_okD(1,2) [OF ok, of i] n by (cases "ph_evict p i", auto)
  with ok i n show ?thesis unfolding phys_ok_def ph_release_def by (auto simp: ran_def split: if_splits)
qed

lemma phys_ok_register:
  assumes ok: "phys_ok p" and i: "i \<notin> ran (ph_cached p)" "ph_cached p h = None" and n: "ph_refs p i = Some n" "0 < n"
  shows "phys_ok (ph_register h i p)"
proof -
  have "i \<notin> ph_free p" using phys_okD(1) [OF ok, of i] n by auto
  moreover have "ph_evict p j \<noteq> Some h" for j using phys_okD(3) [OF ok, of j h] i(2) by auto
  ultimately show ?thesis using ok i n unfolding phys_ok_def ph_register_def by (auto simp: ran_def split: if_splits)
qed

lemma phys_step_ok: "phys_step p q \<Longrightarrow> phys_ok p \<Longrightarrow> phys_ok q"
  by (induction rule: phys_step.induct)
    (auto intro: phys_ok_take_free phys_ok_take_evicted phys_ok_share phys_ok_release_cached phys_ok_release phys_ok_register)

lemma phys_steps_ok: "phys_step\<^sup>*\<^sup>* p q \<Longrightarrow> phys_ok p \<Longrightarrow> phys_ok q"
  by (induction rule: rtranclp_induct) (auto intro: phys_step_ok)

text \<open>A cached block with holders; the steps other than the release of a cached block keep it.\<close>

definition ph_active :: "phys \<Rightarrow> int \<Rightarrow> block_id \<Rightarrow> bool" where
  "ph_active p h i \<longleftrightarrow> ph_cached p h = Some i \<and> (\<exists>n. ph_refs p i = Some n \<and> 0 < n)"

lemma ph_active_kept:
  assumes ok: "phys_ok p" and a: "ph_active p g j"
  shows "i \<in> ph_free p \<Longrightarrow> ph_active (ph_take_free i p) g j"
    and "ph_evict p i = Some h \<Longrightarrow> ph_active (ph_take_evicted i h p) g j"
    and "ph_cached p h = Some i \<Longrightarrow> ph_active (ph_share i p) g j"
    and "i \<notin> ran (ph_cached p) \<Longrightarrow> ph_active (ph_release i p) g j"
    and "ph_cached p h = None \<Longrightarrow> ph_active (ph_register h i p) g j"
proof -
  from a obtain n where n: "ph_cached p g = Some j" "ph_refs p j = Some n" "0 < n" by (auto simp: ph_active_def)
  show "ph_active (ph_take_free i p) g j" if "i \<in> ph_free p"
    using n by (simp add: ph_active_def ph_take_free_def)
  show "ph_active (ph_take_evicted i h p) g j" if "ph_evict p i = Some h"
  proof -
    have "g \<noteq> h" using n phys_okD(2,3) [OF ok that] by auto
    with n show ?thesis by (simp add: ph_active_def ph_take_evicted_def)
  qed
  show "ph_active (ph_share i p) g j" using n by (auto simp: ph_active_def ph_share_def)
  show "ph_active (ph_release i p) g j" if "i \<notin> ran (ph_cached p)"
  proof -
    have "j \<noteq> i" using that n(1) by (auto simp: ran_def)
    with n show ?thesis by (simp add: ph_active_def ph_release_def)
  qed
  show "ph_active (ph_register h i p) g j" if "ph_cached p h = None"
    using n that by (auto simp: ph_active_def ph_register_def)
qed

text \<open>A block that is taken had no holder, and no cached hash points to it afterwards.\<close>

lemma taken_was_unused:
  assumes "phys_ok p"
  shows "i \<in> ph_free p \<Longrightarrow> ph_refs p i = Some 0 \<and> i \<notin> ran (ph_cached (ph_take_free i p))"
    and "ph_evict p i = Some h \<Longrightarrow> ph_refs p i = Some 0 \<and> i \<notin> ran (ph_cached (ph_take_evicted i h p))"
proof -
  show "ph_refs p i = Some 0 \<and> i \<notin> ran (ph_cached (ph_take_free i p))" if "i \<in> ph_free p"
    using phys_okD(1,10) [OF assms that] by (simp add: ph_take_free_def)
  show "ph_refs p i = Some 0 \<and> i \<notin> ran (ph_cached (ph_take_evicted i h p))" if "ph_evict p i = Some h"
    using phys_okD(2,3,8) [OF assms] that by (force simp: ph_take_evicted_def ran_def)
qed

end
