(* ===== verification/BlockPoolInv.thy ===== *)
theory BlockPoolInv
  imports PrefixCaching
begin

text \<open>
  Facts about the pool of block objects and about content hashes in the heap: handing out an
  object never touches one that is in use, and the hash of a block whose predecessor is settled
  needs no recursion.
\<close>

section \<open>The pool\<close>

definition pool_ok :: "block_pool \<Rightarrow> heap \<Rightarrow> bool" where
  "pool_ok p hp \<longleftrightarrow> distinct (bp_pool p) \<and> (\<forall>r \<in> set (bp_pool p). r < length hp)
     \<and> length (bp_pool p) = bp_pool_size p \<and> 0 < bp_pool_size p
     \<and> distinct (bp_free_ids p) \<and> (\<forall>k \<in> set (bp_free_ids p). k < bp_pool_size p)"

text \<open>An object of the pool that is in use.\<close>

definition owns :: "block_pool \<Rightarrow> heap \<Rightarrow> ref \<Rightarrow> bool" where
  "owns p hp r \<longleftrightarrow> (\<exists>k < bp_pool_size p. b_pool_id (hp ! r) = Some k \<and> bp_pool p ! k = r \<and> k \<notin> set (bp_free_ids p))"

lemma owns_bound: "pool_ok p hp \<Longrightarrow> owns p hp r \<Longrightarrow> r < length hp"
  unfolding pool_ok_def owns_def by (metis nth_mem)

lemma pool_ok_nonempty: "pool_ok p hp \<Longrightarrow> 0 < length hp"
  unfolding pool_ok_def by (metis gr_implies_not_zero length_greater_0_conv not_gr_zero nth_mem)

lemma pool_ok_upd: "pool_ok p (upd_obj r f hp) \<longleftrightarrow> pool_ok p hp"
  by (simp add: pool_ok_def upd_obj_def)

lemma length_upd_obj [simp]: "length (upd_obj r f hp) = length hp"
  by (simp add: upd_obj_def)

lemma upd_obj_other [simp]: "q \<noteq> r \<Longrightarrow> upd_obj r f hp ! q = hp ! q"
  by (simp add: upd_obj_def)

lemma upd_obj_same [simp]: "r < length hp \<Longrightarrow> upd_obj r f hp ! r = f (hp ! r)"
  by (simp add: upd_obj_def)

lemma owns_upd: "(\<And>b. b_pool_id (f b) = b_pool_id b) \<Longrightarrow> owns p (upd_obj r f hp) q \<longleftrightarrow> owns p hp q"
  by (cases "q = r"; cases "r < length hp") (auto simp: owns_def upd_obj_def list_update_beyond)

lemma pool_ok_new:
  assumes "0 < n"
  shows "pool_ok (fst (block_pool_new bs n hp)) (snd (block_pool_new bs n hp))"
  using assms by (auto simp: pool_ok_def block_pool_new_def add_objects_def)

lemma increase_pool_facts:
  assumes "pool_ok p hp" and "increase_pool (p, hp) = (p', hp')"
  shows "pool_ok p' hp'" "bp_free_ids p' = bp_free_ids p @ [bp_pool_size p..<bp_pool_size p * 2]"
    "owns p hp r \<Longrightarrow> owns p' hp' r" "r < length hp \<Longrightarrow> hp' ! r = hp ! r" "bp_block_size p' = bp_block_size p"
proof -
  let ?n = "bp_pool_size p" and ?b = "init_blk None [] (bp_block_size p) None None 0 None"
  have p': "bp_pool_size p' = ?n * 2" "bp_free_ids p' = bp_free_ids p @ [?n..<?n * 2]"
    "bp_pool p' = bp_pool p @ [length hp..<length hp + ?n]" "bp_block_size p' = bp_block_size p"
    and hp': "hp' = hp @ replicate ?n ?b"
    using assms(2) by (auto simp: increase_pool_def add_objects_def Let_def)
  show "bp_free_ids p' = bp_free_ids p @ [?n..<?n * 2]" "bp_block_size p' = bp_block_size p" by (simp_all add: p')
  show same: "hp' ! r = hp ! r" if "r < length hp" for r using that by (simp add: hp' nth_append)
  have "k < length hp" if "k \<in> set (bp_pool p)" for k using that assms(1) by (simp add: pool_ok_def)
  moreover have "k < ?n" if "k \<in> set (bp_free_ids p)" for k using that assms(1) by (simp add: pool_ok_def)
  ultimately show "pool_ok p' hp'" using assms(1) unfolding pool_ok_def p' hp' by (fastforce dest: leD)
  show "owns p' hp' r" if o1: "owns p hp r"
  proof -
    have r: "r < length hp" by (rule owns_bound [OF assms(1) o1])
    from o1 obtain k where k: "k < ?n" "b_pool_id (hp ! r) = Some k" "bp_pool p ! k = r" "k \<notin> set (bp_free_ids p)"
      by (auto simp: owns_def)
    moreover have "length (bp_pool p) = ?n" using assms(1) by (simp add: pool_ok_def)
    ultimately show ?thesis using same [OF r] by (auto simp: owns_def p' nth_append)
  qed
qed

lemma init_block_facts:
  assumes ok: "pool_ok p hp" and fits: "length toks \<le> bs" and prev: "\<And>q. prev = Some q \<Longrightarrow> q < length hp"
  obtains r p' hp' k where "init_block prev toks bs bid extra (p, hp) = (Inr r, (p', hp'))" "pool_ok p' hp'" "owns p' hp' r"
    "hp' ! r = init_blk prev toks bs bid extra (prev_total hp prev + length toks) (Some k)" "\<not> owns p hp r"
    "\<And>q. owns p hp q \<Longrightarrow> owns p' hp' q \<and> hp' ! q = hp ! q" "bp_block_size p' = bp_block_size p"
proof -
  obtain p1 hp1 where 1: "(if bp_free_ids p = [] then increase_pool (p, hp) else (p, hp)) = (p1, hp1)"
    by (metis surj_pair)
  have ok1: "pool_ok p1 hp1" and o1: "\<And>q. owns p hp q \<Longrightarrow> owns p1 hp1 q" and same: "\<And>q. q < length hp \<Longrightarrow> hp1 ! q = hp ! q"
    and ne: "bp_free_ids p1 \<noteq> []" and bsz: "bp_block_size p1 = bp_block_size p"
    and old: "\<And>k. k < bp_pool_size p \<Longrightarrow> k \<in> set (bp_free_ids p1) \<Longrightarrow> k \<in> set (bp_free_ids p)"
    and pre: "\<And>k. k < bp_pool_size p \<Longrightarrow> bp_pool p1 ! k = bp_pool p ! k"
  proof -
    show "pool_ok p1 hp1" "\<And>q. owns p hp q \<Longrightarrow> owns p1 hp1 q" "\<And>q. q < length hp \<Longrightarrow> hp1 ! q = hp ! q"
      "bp_block_size p1 = bp_block_size p"
      using 1 ok increase_pool_facts(1,3,4,5) [OF ok, of p1 hp1] by (auto split: if_splits)
    have "0 < bp_pool_size p" "length (bp_pool p) = bp_pool_size p" using ok by (auto simp: pool_ok_def)
    then show "bp_free_ids p1 \<noteq> []" "\<And>k. k < bp_pool_size p \<Longrightarrow> k \<in> set (bp_free_ids p1) \<Longrightarrow> k \<in> set (bp_free_ids p)"
      "\<And>k. k < bp_pool_size p \<Longrightarrow> bp_pool p1 ! k = bp_pool p ! k"
      using 1 increase_pool_facts(2) [OF ok, of p1 hp1]
      by (auto simp: increase_pool_def add_objects_def Let_def nth_append split: if_splits)
  qed
  obtain k rest where k: "bp_free_ids p1 = k # rest" using ne by (cases "bp_free_ids p1") auto
  let ?r = "bp_pool p1 ! k" and ?b = "init_blk prev toks bs bid extra (prev_total hp1 prev + length toks) (Some k)"
  let ?p = "p1\<lparr>bp_free_ids := rest\<rparr>" and ?hp = "upd_obj ?r (\<lambda>_. ?b) hp1"
  have kb: "k < bp_pool_size p1" "distinct (k # rest)" "?r < length hp1"
    using ok1 k by (auto simp: pool_ok_def)
  have tot: "prev_total hp1 prev = prev_total hp prev" using prev same by (cases prev) (auto simp: prev_total_def)
  have run: "init_block prev toks bs bid extra (p, hp) = (Inr ?r, (?p, ?hp))"
    using fits k 1 by (auto simp: init_block_def Let_def split: prod.splits)
  have own: "owns ?p ?hp q \<and> ?hp ! q = hp1 ! q" if "owns p1 hp1 q" for q
  proof -
    from that obtain l where l: "l < bp_pool_size p1" "b_pool_id (hp1 ! q) = Some l" "bp_pool p1 ! l = q" "l \<notin> set (k # rest)"
      by (auto simp: owns_def k)
    have "q \<noteq> ?r" using l kb ok1 by (auto simp: pool_ok_def nth_eq_iff_index_eq)
    with l show ?thesis by (auto simp: owns_def)
  qed
  have "\<not> owns p1 hp1 ?r"
  proof
    assume "owns p1 hp1 ?r"
    then obtain l where "l < bp_pool_size p1" "bp_pool p1 ! l = ?r" "l \<notin> set (k # rest)" by (auto simp: owns_def k)
    then show False using kb ok1 by (auto simp: pool_ok_def nth_eq_iff_index_eq)
  qed
  then have no: "\<not> owns p hp ?r" using o1 by blast
  have "owns ?p ?hp ?r" using kb by (auto simp: owns_def init_blk_def)
  moreover have "pool_ok ?p ?hp" using ok1 k by (auto simp: pool_ok_def)
  moreover have "?hp ! q = hp ! q" if "owns p hp q" for q
    using own [OF o1 [OF that]] same [OF owns_bound [OF ok that]] by simp
  ultimately show thesis
    using that [OF run, of k] kb(3) own o1 no tot bsz by auto
qed

lemma free_block_facts:
  assumes "pool_ok p hp" and "owns p hp r"
  obtains p' where "free_block r (p, hp) = (Inr (), (p', hp))" "pool_ok p' hp"
    "\<And>q. owns p hp q \<Longrightarrow> q \<noteq> r \<Longrightarrow> owns p' hp q" "bp_block_size p' = bp_block_size p" "\<not> owns p' hp r"
proof -
  from assms(2) obtain k where k: "k < bp_pool_size p" "b_pool_id (hp ! r) = Some k" "bp_pool p ! k = r"
    "k \<notin> set (bp_free_ids p)" by (auto simp: owns_def)
  let ?p = "p\<lparr>bp_free_ids := k # bp_free_ids p\<rparr>"
  have "free_block r (p, hp) = (Inr (), (?p, hp))" using k by (simp add: free_block_def)
  moreover have "pool_ok ?p hp" using assms(1) k by (simp add: pool_ok_def)
  moreover have "owns ?p hp q" if "owns p hp q" "q \<noteq> r" for q
    using that k by (auto simp: owns_def)
  moreover have "\<not> owns ?p hp r" using k by (auto simp: owns_def)
  ultimately show thesis using that by simp
qed

section \<open>Content hashes\<close>

text \<open>A block whose hash is known, or that is not full.\<close>

definition settled :: "blk \<Rightarrow> bool" where
  "settled b \<longleftrightarrow> b_cached_hash b \<noteq> None \<or> \<not> b_is_full b"

lemma content_hash_settled:
  "settled (hp ! r) \<Longrightarrow> block_content_hash H (Suc n) r hp = (Inr (b_cached_hash (hp ! r)), hp)"
  by (cases "b_cached_hash (hp ! r)") (auto simp: settled_def)

text \<open>The digest never yields the value reserved for the missing predecessor.\<close>

definition no_none :: "(string \<Rightarrow> int) \<Rightarrow> bool" where
  "no_none H \<longleftrightarrow> (\<forall>s. H s \<noteq> NONE_HASH)"

definition fresh_hash :: "(string \<Rightarrow> int) \<Rightarrow> heap \<Rightarrow> ref \<Rightarrow> int" where
  "fresh_hash H hp r =
     hash_block_tokens H (b_prev (hp ! r) = None)
       (case b_prev (hp ! r) of None \<Rightarrow> Some NONE_HASH | Some p \<Rightarrow> b_cached_hash (hp ! p))
       (b_token_ids (hp ! r)) (b_extra_hash (hp ! r))"

lemma content_hash_fresh:
  assumes "b_cached_hash (hp ! r) = None" "b_is_full (hp ! r)"
    and "\<And>p. b_prev (hp ! r) = Some p \<Longrightarrow> settled (hp ! p) \<and> b_cached_hash (hp ! p) \<noteq> Some NONE_HASH"
  shows "block_content_hash H (Suc (Suc n)) r hp
    = (Inr (Some (fresh_hash H hp r)), upd_obj r (\<lambda>b. b\<lparr>b_cached_hash := Some (fresh_hash H hp r)\<rparr>) hp)"
proof (cases "b_prev (hp ! r)")
  case None
  with assms show ?thesis by (simp add: Let_def fresh_hash_def ret_def modify_def)
next
  case (Some p)
  with assms(3) have p: "settled (hp ! p)" "b_cached_hash (hp ! p) \<noteq> Some NONE_HASH" by auto
  note b = bind_act_Inr [of "block_content_hash H (Suc n) p" hp, OF content_hash_settled [OF p(1), of H n]]
  have "block_content_hash H (Suc (Suc n)) r hp
      = bind_act (block_content_hash H (Suc n) p) (\<lambda>prev_block_hash.
            if prev_block_hash = Some NONE_HASH then ret None
            else (let h = hash_block_tokens H False prev_block_hash (b_token_ids (hp ! r)) (b_extra_hash (hp ! r))
                  in bind_act (modify (upd_obj r (\<lambda>b. b\<lparr>b_cached_hash := Some h\<rparr>))) (\<lambda>_. ret (Some h)))) hp"
    using assms(1,2) Some by (subst block_content_hash.simps(2)) (simp add: Let_def del: block_content_hash.simps)
  then show ?thesis using p(2) Some by (simp add: b fresh_hash_def ret_def Let_def)
qed

end
