(* ===== verification/PrefixInv.thy ===== *)
theory PrefixInv
  imports BlockPoolInv PhysBlocks
begin

text \<open>
  The prefix caching allocator implements the steps of \<open>PhysBlocks\<close>: an abstraction function
  from the allocator's dictionaries, the consistency of its representation, and one lemma per
  primitive operation.
\<close>

section \<open>Abstraction and representation\<close>

definition abs_phys :: "pc_alloc \<Rightarrow> phys" where
  "abs_phys s = \<lparr>ph_free = set (na_free (pc_hashless s)),
     ph_evict = (\<lambda>i. map_option md_content_hash (map_of (ev_free_table (pc_evictor s)) i)),
     ph_refs = map_of (pc_rc s), ph_cached = map_of (pc_cached s)\<rparr>"

definition owned :: "pc_alloc \<Rightarrow> ref \<Rightarrow> bool" where
  "owned s r \<longleftrightarrow> owns (na_pool (pc_hashless s)) (na_heap (pc_hashless s)) r"

definition pc_wf :: "pc_alloc \<Rightarrow> bool" where
  "pc_wf s \<longleftrightarrow> distinct (na_free (pc_hashless s)) \<and> distinct (na_all (pc_hashless s)) \<and> dict_wf (ev_free_table (pc_evictor s))
     \<and> dom (map_of (pc_rc s)) = set (na_all (pc_hashless s)) \<and> dom (map_of (pc_tracker s)) = set (na_all (pc_hashless s))
     \<and> (\<forall>i t n. map_of (pc_tracker s) i = Some t \<and> map_of (pc_rc s) i = Some n \<longrightarrow> (bt_active t \<longleftrightarrow> 0 < n))
     \<and> pool_ok (na_pool (pc_hashless s)) (na_heap (pc_hashless s)) \<and> dict_wf (pc_cached s)"

definition pc_good :: "pc_alloc \<Rightarrow> bool" where
  "pc_good s \<longleftrightarrow> pc_wf s \<and> phys_ok (abs_phys s)"

text \<open>Objects in use are left alone.\<close>

definition frame :: "pc_alloc \<Rightarrow> pc_alloc \<Rightarrow> bool" where
  "frame s s' \<longleftrightarrow> na_block_size (pc_hashless s') = na_block_size (pc_hashless s)
     \<and> na_all (pc_hashless s') = na_all (pc_hashless s)
     \<and> (\<forall>r. owned s r \<longrightarrow> owned s' r \<and> pc_obj s' r = pc_obj s r)"

lemma frame_refl [simp]: "frame s s"
  by (simp add: frame_def)

lemma frame_trans: "frame s s' \<Longrightarrow> frame s' s'' \<Longrightarrow> frame s s''"
  by (simp add: frame_def)

lemmas lens_defs = hashless_def with_heap_def with_pool_def with_refcounts_def evicting_def zoom_def

lemma pc_good_pool: "pc_good s \<Longrightarrow> pool_ok (na_pool (pc_hashless s)) (na_heap (pc_hashless s))"
  by (simp add: pc_good_def pc_wf_def)

lemma owned_bound: "pc_good s \<Longrightarrow> owned s r \<Longrightarrow> r < length (na_heap (pc_hashless s))"
  using owns_bound [OF pc_good_pool] by (simp add: owned_def)

lemma pc_good_tracker:
  assumes "pc_good s" and "map_of (pc_rc s) i = Some n"
  obtains t where "map_of (pc_tracker s) i = Some t" "bt_active t \<longleftrightarrow> 0 < n"
proof -
  have "i \<in> dom (map_of (pc_tracker s))" using assms unfolding pc_good_def pc_wf_def by (metis domI)
  then obtain t where "map_of (pc_tracker s) i = Some t" by blast
  with assms that show thesis unfolding pc_good_def pc_wf_def by blast
qed

text \<open>
  What allocation does to the physical blocks: steps of the specification that leave cached
  blocks with holders in place and keep the evictor consistent.
\<close>

definition grow :: "pc_alloc \<Rightarrow> pc_alloc \<Rightarrow> bool" where
  "grow s s' \<longleftrightarrow> phys_step\<^sup>*\<^sup>* (abs_phys s) (abs_phys s') \<and> (\<forall>g i. ph_active (abs_phys s) g i \<longrightarrow> ph_active (abs_phys s') g i)
     \<and> (ev_ok (pc_evictor s) \<longrightarrow> ev_ok (pc_evictor s'))"

lemma grow_same: "abs_phys s' = abs_phys s \<Longrightarrow> pc_evictor s' = pc_evictor s \<Longrightarrow> grow s s'"
  by (simp add: grow_def)

lemma grow_trans: "grow s s' \<Longrightarrow> grow s' s'' \<Longrightarrow> grow s s''"
  unfolding grow_def by (meson rtranclp_trans)

lemma grow_step:
  assumes "phys_step (abs_phys s) (abs_phys s')" "\<And>g i. ph_active (abs_phys s) g i \<Longrightarrow> ph_active (abs_phys s') g i"
    "ev_ok (pc_evictor s) \<Longrightarrow> ev_ok (pc_evictor s')"
  shows "grow s s'"
  using assms by (auto simp: grow_def)

section \<open>Tracking\<close>

definition tracking :: "bool \<Rightarrow> block_tracker" where
  "tracking c = \<lparr>bt_active = True, bt_last_accessed = -1, bt_computed = c\<rparr>"

lemma tracker_fields:
  "t\<lparr>bt_active := a, bt_last_accessed := l, bt_computed := c\<rparr> = \<lparr>bt_active = a, bt_last_accessed = l, bt_computed = c\<rparr>"
  by (cases t) simp

lemma track_ok:
  "map_of (pc_tracker s) i = Some t \<Longrightarrow> \<not> bt_active t \<Longrightarrow> track_block_id i c s = (Inr (), set_tracker i (tracking c) s)"
  by (simp add: track_block_id_def get_tracker_def dict_item_def tracker_enable_def tracker_reset_def tracking_def act_defs
      set_tracker_def tracker_fields)

lemma track_Inr:
  "track_block_id i c s = (Inr u, s') \<Longrightarrow> \<exists>t. map_of (pc_tracker s) i = Some t \<and> \<not> bt_active t \<and> s' = set_tracker i (tracking c) s"
  by (auto simp: track_block_id_def get_tracker_def dict_item_def tracker_enable_def tracker_reset_def tracking_def act_defs
      set_tracker_def tracker_fields split: option.splits if_splits)

lemma untrack_ok:
  "map_of (pc_tracker s) i = Some t \<Longrightarrow> bt_active t \<Longrightarrow> untrack_block_id i s = (Inr (), set_tracker i tracker_init s)"
  by (simp add: untrack_block_id_def get_tracker_def dict_item_def tracker_disable_def tracker_reset_def tracker_init_def
      act_defs set_tracker_def tracker_fields)

lemma set_tracker_simps [simp]:
  "pc_hashless (set_tracker i t s) = pc_hashless s" "pc_evictor (set_tracker i t s) = pc_evictor s"
  "pc_cached (set_tracker i t s) = pc_cached s" "pc_tracker (set_tracker i t s) = AList.update i t (pc_tracker s)"
  "abs_phys (set_tracker i t s) = abs_phys s" "owned (set_tracker i t s) = owned s"
  "pc_touched (set_tracker i t s) = pc_touched s" "pc_metric (set_tracker i t s) = pc_metric s"
  by (auto simp: set_tracker_def abs_phys_def owned_def)

section \<open>Taking a free block\<close>

lemma take_free_none: "na_free (pc_hashless s) = [] \<Longrightarrow> maybe_allocate_hashless_block_id s = (Inr None, s)"
  by (simp add: maybe_allocate_hashless_block_id_def lens_defs na_allocate_mutable_block_def na_allocate_block_id_def bind_act_def)

lemma take_free_run:
  assumes good: "pc_good s" and free: "na_free (pc_hashless s) = i # rest"
  obtains p hp where "maybe_allocate_hashless_block_id s = (Inr (Some i), set_tracker i (tracking False)
      (s\<lparr>pc_hashless := (pc_hashless s)\<lparr>na_free := rest, na_refcounts := AList.update i 1 (pc_rc s),
         na_pool := p, na_heap := hp\<rparr>\<rparr>))"
    "pool_ok p hp" "\<And>q. owned s q \<Longrightarrow> owns p hp q \<and> hp ! q = pc_obj s q"
proof -
  have zero: "map_of (pc_rc s) i = Some 0"
    using phys_okD(1) [of "abs_phys s" i] good free by (simp add: pc_good_def abs_phys_def)
  obtain t where t: "map_of (pc_tracker s) i = Some t" "\<not> bt_active t" using pc_good_tracker [OF good zero] by auto
  obtain r p hp k where
    r: "init_block None [] (na_block_size (pc_hashless s)) (Some i) None (na_pool (pc_hashless s), na_heap (pc_hashless s))
        = (Inr r, (p, hp))" "pool_ok p hp" "owns p hp r"
      "hp ! r = init_blk None [] (na_block_size (pc_hashless s)) (Some i) None 0 (Some k)" "\<not> owned s r"
      "\<And>q. owned s q \<Longrightarrow> owns p hp q \<and> hp ! q = pc_obj s q"
    by (rule init_block_facts [OF pc_good_pool [OF good], of "[]" "na_block_size (pc_hashless s)" None "Some i" None])
      (auto simp: owned_def prev_total_def)
  obtain p' where p': "free_block r (p, hp) = (Inr (), (p', hp))" "pool_ok p' hp"
    "\<And>q. owns p hp q \<Longrightarrow> q \<noteq> r \<Longrightarrow> owns p' hp q" by (rule free_block_facts [OF r(2,3)]) blast
  let ?s1 = "s\<lparr>pc_hashless := (pc_hashless s)\<lparr>na_free := rest, na_refcounts := AList.update i 1 (pc_rc s), na_pool := p, na_heap := hp\<rparr>\<rparr>"
  let ?s2 = "s\<lparr>pc_hashless := (pc_hashless s)\<lparr>na_free := rest, na_refcounts := AList.update i 1 (pc_rc s), na_pool := p', na_heap := hp\<rparr>\<rparr>"
  have alloc: "hashless (na_allocate_mutable_block None) s = (Inr r, ?s1)"
    using zero free r(1) by (simp add: lens_defs na_allocate_mutable_block_def na_allocate_block_id_def na_init_block_def
        rc_incr_def bind_act_def ret_def)
  have fr: "hashless (with_pool (free_block r)) ?s1 = (Inr (), ?s2)" using p'(1) by (simp add: lens_defs)
  have tr: "track_block_id i False ?s2 = (Inr (), set_tracker i (tracking False) ?s2)"
    by (rule track_ok [where t = t]) (use t in simp_all)
  have "maybe_allocate_hashless_block_id s = (Inr (Some i), set_tracker i (tracking False) ?s2)"
    unfolding maybe_allocate_hashless_block_id_def bind_act_Inr [of "hashless (na_allocate_mutable_block None)" s, OF alloc]
    using r(4) by (simp add: bind_act_Inr [of "hashless (with_pool (free_block r))" ?s1, OF fr] init_blk_def
        bind_act_Inr [of "track_block_id i False" ?s2, OF tr] ret_def)
  moreover have "owns p' hp q \<and> hp ! q = pc_obj s q" if "owned s q" for q
    using r(5,6) p'(3) that by blast
  ultimately show thesis using that p'(2) by blast
qed

lemma pc_wf_step:
  assumes "pc_wf s" and "na_all (pc_hashless s') = na_all (pc_hashless s)" and "distinct (na_free (pc_hashless s'))"
    and "dict_wf (ev_free_table (pc_evictor s'))" and "map_of (pc_rc s') = (map_of (pc_rc s))(i \<mapsto> n)"
    and "map_of (pc_tracker s') = (map_of (pc_tracker s))(i \<mapsto> t)" and "map_of (pc_rc s) i \<noteq> None"
    and "bt_active t \<longleftrightarrow> 0 < n" and "pool_ok (na_pool (pc_hashless s')) (na_heap (pc_hashless s'))" and "dict_wf (pc_cached s')"
  shows "pc_wf s'"
proof -
  have "i \<in> set (na_all (pc_hashless s))" using assms(1,7) unfolding pc_wf_def by (metis domIff)
  with assms show ?thesis unfolding pc_wf_def by (auto simp: insert_absorb)
qed

lemma take_free_step:
  assumes good: "pc_good s" and free: "na_free (pc_hashless s) = i # rest"
  obtains s' where "maybe_allocate_hashless_block_id s = (Inr (Some i), s')" "i \<in> ph_free (abs_phys s)"
    "abs_phys s' = ph_take_free i (abs_phys s)" "pc_good s'" "frame s s'" "pc_evictor s' = pc_evictor s" "grow s s'"
proof -
  obtain p hp where run: "maybe_allocate_hashless_block_id s = (Inr (Some i), set_tracker i (tracking False)
      (s\<lparr>pc_hashless := (pc_hashless s)\<lparr>na_free := rest, na_refcounts := AList.update i 1 (pc_rc s),
         na_pool := p, na_heap := hp\<rparr>\<rparr>))"
    and p: "pool_ok p hp" "\<And>q. owned s q \<Longrightarrow> owns p hp q \<and> hp ! q = pc_obj s q"
    by (rule take_free_run [OF good free]) blast
  let ?s = "set_tracker i (tracking False)
      (s\<lparr>pc_hashless := (pc_hashless s)\<lparr>na_free := rest, na_refcounts := AList.update i 1 (pc_rc s), na_pool := p, na_heap := hp\<rparr>\<rparr>)"
  have i: "i \<in> ph_free (abs_phys s)" by (simp add: abs_phys_def free)
  have dist: "distinct (i # rest)" using good free by (simp add: pc_good_def pc_wf_def)
  have abs: "abs_phys ?s = ph_take_free i (abs_phys s)"
    using dist by (simp add: abs_phys_def ph_take_free_def free)
  have "pc_wf ?s"
    by (rule pc_wf_step [of s _ i 1 "tracking False"])
      (use good dist p(1) phys_okD(1) [of "abs_phys s" i] i in \<open>simp_all add: pc_good_def pc_wf_def abs_phys_def tracking_def\<close>)
  moreover have "phys_ok (abs_phys ?s)" unfolding abs using good i by (simp add: pc_good_def phys_ok_take_free)
  moreover have "frame s ?s" using p(2) by (auto simp: frame_def owned_def)
  moreover have "grow s ?s"
  proof (rule grow_step)
    show "phys_step (abs_phys s) (abs_phys ?s)" unfolding abs using i by (rule phys_step.take_free)
    show "ph_active (abs_phys ?s) g j" if "ph_active (abs_phys s) g j" for g j
      unfolding abs by (rule ph_active_kept(1) [OF _ that i]) (use good in \<open>simp add: pc_good_def\<close>)
  qed simp
  ultimately show thesis using that [OF run i abs] by (simp add: pc_good_def)
qed

section \<open>Taking an evictable block\<close>

lemma evict_loop_Inr:
  "evict_loop ev = (Inr (i, h), ev') \<Longrightarrow>
   map_of (ev_free_table ev) i \<noteq> None \<and> ev_free_table ev' = AList.delete i (ev_free_table ev)"
proof (induction "length (ev_queue ev)" arbitrary: ev rule: less_induct)
  case less
  show ?case
  proof (cases "heap_pop (ev_queue ev)")
    case None
    with less.prems show ?thesis by (simp add: evict_loop.simps)
  next
    case (Some x)
    obtain la k b ch q where x: "x = ((la, k, b, ch), q)" by (metis surj_pair)
    show ?thesis
    proof (cases "\<exists>md. map_of (ev_free_table ev) b = Some md \<and> md_last_accessed md = la")
      case True
      with less.prems Some x show ?thesis by (subst (asm) evict_loop.simps) auto
    next
      case False
      with Some x have step: "evict_loop ev = evict_loop (ev\<lparr>ev_queue := q\<rparr>)"
        by (subst evict_loop.simps) (auto split: option.splits)
      have "length q < length (ev_queue ev)" using heap_pop_length [OF Some [unfolded x]] by simp
      then show ?thesis using less.hyps [of "ev\<lparr>ev_queue := q\<rparr>"] less.prems unfolding step by simp
    qed
  qed
qed

lemma evict_Inr:
  "evict ev = (Inr (i, h), ev') \<Longrightarrow>
   map_of (ev_free_table ev) i \<noteq> None \<and> ev_free_table ev' = AList.delete i (ev_free_table ev)"
  by (auto simp: evict_def dest: evict_loop_Inr split: if_splits)

lemma evict_phys:
  "ev_free_table (pc_evictor s') = AList.delete i (ev_free_table (pc_evictor s)) \<Longrightarrow>
   ph_evict (abs_phys s') = (ph_evict (abs_phys s))(i := None)"
  by (auto simp: abs_phys_def)

text \<open>The sanity checks of the source make a successful eviction a correct one, whatever hash the evictor returned.\<close>

lemma take_evicted_step:
  assumes good: "pc_good s" and run: "maybe_allocate_evicted_block_id s = (Inr (Some i), s')"
  obtains h where "ph_evict (abs_phys s) i = Some h" "abs_phys s' = ph_take_evicted i h (abs_phys s)" "pc_good s'" "frame s s'"
    "grow s s'"
proof -
  obtain h ev where ev: "evict (pc_evictor s) = (Inr (i, h), ev)" and c: "map_of (pc_cached s) h = Some i"
    and rc: "map_of (pc_rc s) i = Some 0"
    and s': "s' = set_tracker i (tracking False)
      (s\<lparr>pc_evictor := ev, pc_cached := AList.delete h (pc_cached s),
         pc_hashless := (pc_hashless s)\<lparr>na_refcounts := AList.update i 1 (pc_rc s)\<rparr>\<rparr>)"
    using run by (auto simp: maybe_allocate_evicted_block_id_def bind_act_def lens_defs act_defs rc_incr_def rc_get_def
        split: if_splits prod.splits option.splits sum.splits dest!: track_Inr)
  from evict_Inr [OF ev] obtain md where md: "map_of (ev_free_table (pc_evictor s)) i = Some md"
    and tab: "ev_free_table ev = AList.delete i (ev_free_table (pc_evictor s))" by auto
  have ok: "phys_ok (abs_phys s)" using good by (simp add: pc_good_def)
  have e: "ph_evict (abs_phys s) i = Some (md_content_hash md)" using md by (simp add: abs_phys_def)
  have "ph_cached (abs_phys s) h = Some i" using c by (simp add: abs_phys_def)
  then have h: "md_content_hash md = h" using phys_okD(3,8) [OF ok] e by blast
  have abs: "abs_phys s' = ph_take_evicted i h (abs_phys s)"
    by (auto simp: s' ph_take_evicted_def abs_phys_def tab)
  have "pc_wf s'"
    by (rule pc_wf_step [of s _ i 1 "tracking False"])
      (use good rc tab in \<open>simp_all add: s' pc_good_def pc_wf_def tracking_def\<close>)
  moreover have "phys_ok (abs_phys s')" unfolding abs using ok e h by (simp add: phys_ok_take_evicted)
  moreover have "frame s s'" by (simp add: frame_def s' owned_def)
  moreover have "grow s s'"
  proof (rule grow_step)
    show "phys_step (abs_phys s) (abs_phys s')" unfolding abs using e h by (auto intro: phys_step.take_evicted)
    show "ph_active (abs_phys s') g j" if "ph_active (abs_phys s) g j" for g j
      unfolding abs by (rule ph_active_kept(2) [OF ok that]) (use e h in simp)
    show "ev_ok (pc_evictor s')" if "ev_ok (pc_evictor s)" using evict_ok [OF that ev] by (simp add: s')
  qed
  ultimately show thesis using that e h abs by (simp add: pc_good_def)
qed

section \<open>Sharing and releasing\<close>

text \<open>Only the object \<open>r\<close> of the heap changes, by \<open>f\<close>; the pool stays.\<close>

definition only_obj :: "ref \<Rightarrow> (blk \<Rightarrow> blk) \<Rightarrow> pc_alloc \<Rightarrow> pc_alloc \<Rightarrow> bool" where
  "only_obj r f s s' \<longleftrightarrow> na_heap (pc_hashless s') = upd_obj r f (na_heap (pc_hashless s))
     \<and> na_pool (pc_hashless s') = na_pool (pc_hashless s) \<and> na_all (pc_hashless s') = na_all (pc_hashless s)
     \<and> na_block_size (pc_hashless s') = na_block_size (pc_hashless s)"

lemma only_obj_owned: "only_obj r f s s' \<Longrightarrow> (\<And>b. b_pool_id (f b) = b_pool_id b) \<Longrightarrow> owned s' = owned s"
  by (auto simp: only_obj_def owned_def owns_upd)

lemma pc_wf_id_upd: "only_obj r f s s' \<Longrightarrow> pc_wf s \<Longrightarrow> pool_ok (na_pool (pc_hashless s')) (na_heap (pc_hashless s'))"
  by (simp add: only_obj_def pc_wf_def pool_ok_upd)

lemma phys_rc: "ph_refs (abs_phys s) = map_of (pc_rc s)" and phys_cached: "ph_cached (abs_phys s) = map_of (pc_cached s)"
  by (simp_all add: abs_phys_def)

lemma ev_contains_phys: "ev_contains (pc_evictor s) i \<longleftrightarrow> ph_evict (abs_phys s) i \<noteq> None"
  by (simp add: ev_contains_def abs_phys_def)

lemma share_step:
  assumes good: "pc_good s" and id: "b_block_id (pc_obj s r) = Some i" and r: "r < length (na_heap (pc_hashless s))"
    and c: "map_of (pc_cached s) h = Some i"
  obtains s' where "incr_refcount_cached_block r s = (Inr (), s')" "abs_phys s' = ph_share i (abs_phys s)" "pc_good s'"
    "only_obj r (\<lambda>b. b\<lparr>b_computed := True\<rparr>) s s'" "pc_cached s' = pc_cached s" "grow s s'"
proof -
  have ok: "phys_ok (abs_phys s)" using good by (simp add: pc_good_def)
  obtain n where n: "map_of (pc_rc s) i = Some n" "0 \<le> n"
    using phys_okD(4,7) [OF ok] c by (fastforce simp: phys_rc phys_cached)
  obtain t where t: "map_of (pc_tracker s) i = Some t" "bt_active t \<longleftrightarrow> 0 < n" by (rule pc_good_tracker [OF good n(1)])
  let ?u = "upd_obj r (\<lambda>b. b\<lparr>b_computed := True\<rparr>)"
  let ?s1 = "s\<lparr>pc_hashless := (pc_hashless s)\<lparr>na_heap := ?u (na_heap (pc_hashless s)),
      na_refcounts := AList.update i (n + 1) (pc_rc s)\<rparr>\<rparr>"
  have obj: "b_block_id (?u (na_heap (pc_hashless s)) ! r) = Some i" using id r by simp
  have okS: "phys_ok (ph_share i (abs_phys s))" using ok c by (simp add: phys_ok_share phys_cached)
  have gr: "grow s s'" if "abs_phys s' = ph_share i (abs_phys s)" "ev_ok (pc_evictor s) \<longrightarrow> ev_ok (pc_evictor s')" for s'
    by (rule grow_step)
      (use that c ph_active_kept(3) [OF ok] in \<open>auto simp: phys_cached intro: phys_step.share\<close>)
  show thesis
  proof (cases "n = 0")
    case False
    then have run: "incr_refcount_cached_block r s = (Inr (), ?s1)"
      using n obj by (simp add: incr_refcount_cached_block_def lens_defs act_defs the_block_id_def rc_incr_def)
    have "ph_evict (abs_phys s) i = None" using phys_okD(2) [OF ok, of i] n False by (cases "ph_evict (abs_phys s) i") (auto simp: phys_rc)
    then have abs: "abs_phys ?s1 = ph_share i (abs_phys s)"
      using n by (auto simp: abs_phys_def ph_share_def)
    have "pc_wf ?s1"
      by (rule pc_wf_step [of s _ i "n + 1" t])
        (use good n t False in \<open>simp_all add: pc_good_def pc_wf_def pool_ok_upd fun_upd_idem\<close>)
    then show thesis using that [OF run abs] okS abs gr [OF abs] by (simp add: pc_good_def only_obj_def)
  next
    case True
    have "i \<notin> ph_free (abs_phys s)" using phys_okD(6) [OF ok] c by (simp add: phys_cached)
    then have inev: "ph_evict (abs_phys s) i \<noteq> None" using phys_okD(5) [OF ok, of i] n True by (simp add: phys_rc)
    then obtain md where md: "map_of (ev_free_table (pc_evictor s)) i = Some md" by (auto simp: abs_phys_def)
    let ?s2 = "set_tracker i (tracking True) (?s1\<lparr>pc_evictor :=
        (pc_evictor s)\<lparr>ev_free_table := AList.delete i (ev_free_table (pc_evictor s))\<rparr>\<rparr>)"
    have "track_block_id i True (?s1\<lparr>pc_evictor := (pc_evictor s)\<lparr>ev_free_table := AList.delete i (ev_free_table (pc_evictor s))\<rparr>\<rparr>) = (Inr (), ?s2)"
      by (rule track_ok [where t = t]) (use t True in simp_all)
    then have run: "incr_refcount_cached_block r s = (Inr (), ?s2)"
      using n obj True md by (simp add: incr_refcount_cached_block_def lens_defs act_defs the_block_id_def rc_incr_def
          ev_contains_def ev_remove_def)
    have abs: "abs_phys ?s2 = ph_share i (abs_phys s)" using n by (auto simp: abs_phys_def ph_share_def)
    have "pc_wf ?s2"
      by (rule pc_wf_step [of s _ i "n + 1" "tracking True"])
        (use good n True in \<open>simp_all add: pc_good_def pc_wf_def pool_ok_upd tracking_def\<close>)
    then show thesis using that [OF run abs] okS abs gr [OF abs] ev_ok_delete [of "pc_evictor s" i] by (simp add: pc_good_def only_obj_def)
  qed
qed

lemma release_step:
  assumes good: "pc_good s" and id: "b_block_id (pc_obj s r) = Some i" and n: "map_of (pc_rc s) i = Some n" "0 < n"
    and c: "i \<notin> ran (map_of (pc_cached s))" and r: "r < length (na_heap (pc_hashless s))"
  obtains s' where "decr_refcount_hashless_block r s = (Inr (), s')" "abs_phys s' = ph_release i (abs_phys s)" "pc_good s'"
    "only_obj r (\<lambda>b. b\<lparr>b_block_id := None\<rparr>) s s'" "pc_cached s' = pc_cached s" "grow s s'"
proof -
  have ok: "phys_ok (abs_phys s)" using good by (simp add: pc_good_def)
  obtain t where t: "map_of (pc_tracker s) i = Some t" "bt_active t \<longleftrightarrow> 0 < n" by (rule pc_good_tracker [OF good n(1)])
  let ?u = "upd_obj r (\<lambda>b. b\<lparr>b_block_id := None\<rparr>)"
  let ?hl = "(pc_hashless s)\<lparr>na_heap := ?u (na_heap (pc_hashless s)), na_refcounts := AList.update i (n - 1) (pc_rc s),
      na_free := (if n = 1 then i # na_free (pc_hashless s) else na_free (pc_hashless s))\<rparr>"
  let ?s1 = "if n = 1 then set_tracker i tracker_init s else s"
  let ?s2 = "?s1\<lparr>pc_hashless := ?hl\<rparr>"
  have unt: "(if n = 1 then untrack_block_id i else ret ()) s = (Inr (), ?s1)"
    using untrack_ok [OF t(1)] t(2) n(2) by (simp add: ret_def)
  have run: "decr_refcount_hashless_block r s = (Inr (), ?s2)"
    using n id by (simp add: decr_refcount_hashless_block_def the_block_id_def bind_act_def unt rc_get_def lens_defs
        na_free_obj_def na_free_block_obj_def na_release_id_def set_block_id_def rc_decr_def act_defs)
  have notin: "i \<notin> set (na_free (pc_hashless s))" using phys_okD(1) [OF ok, of i] n by (auto simp: phys_rc abs_phys_def)
  have abs: "abs_phys ?s2 = ph_release i (abs_phys s)"
    using n by (auto simp: abs_phys_def ph_release_def)
  have "pc_wf ?s2"
    by (rule pc_wf_step [of s _ i "n - 1" "if n = 1 then tracker_init else t"])
      (use good n t notin in \<open>simp_all add: pc_good_def pc_wf_def pool_ok_upd tracker_init_def fun_upd_idem\<close>)
  moreover have "phys_ok (abs_phys ?s2)" unfolding abs using ok c n by (simp add: phys_ok_release phys_rc phys_cached)
  moreover have "grow s ?s2"
  proof (rule grow_step)
    show "phys_step (abs_phys s) (abs_phys ?s2)"
      unfolding abs by (rule phys_step.release) (use c n in \<open>simp_all add: phys_rc phys_cached\<close>)
    show "ph_active (abs_phys ?s2) g j" if "ph_active (abs_phys s) g j" for g j
      unfolding abs by (rule ph_active_kept(4) [OF ok that]) (use c in \<open>simp add: phys_cached\<close>)
  qed simp
  ultimately show thesis using that [OF run abs] by (simp add: pc_good_def only_obj_def)
qed

lemma ev_add_table:
  "ev_free_table (ev_add i h n la ev)
     = AList.update i \<lparr>md_content_hash = h, md_num_hashed_tokens = n, md_last_accessed = la\<rparr> (ev_free_table ev)"
  by (simp add: ev_add_def cleanup_if_necessary_def cleanup_def)

lemma content_hash_known:
  "b_cached_hash (pc_obj s r) = Some h \<Longrightarrow> content_hash_of H r s = (Inr (Some h), s)"
  by (simp add: content_hash_of_def lens_defs)

lemma content_hash_not_full:
  "b_cached_hash (pc_obj s r) = None \<Longrightarrow> \<not> b_is_full (pc_obj s r) \<Longrightarrow> content_hash_of H r s = (Inr None, s)"
  by (simp add: content_hash_of_def lens_defs)

lemma release_cached_step:
  assumes good: "pc_good s" and id: "b_block_id (pc_obj s r) = Some i" and n: "map_of (pc_rc s) i = Some n" "0 < n"
    and ch: "b_cached_hash (pc_obj s r) = Some h" and c: "map_of (pc_cached s) h = Some i"
    and r: "r < length (na_heap (pc_hashless s))"
  obtains s' where "decr_refcount_cached_block H r s = (Inr (), s')" "abs_phys s' = ph_release_cached i h (abs_phys s)" "pc_good s'"
    "only_obj r (\<lambda>b. b\<lparr>b_block_id := None\<rparr>) s s'" "pc_cached s' = pc_cached s"
proof -
  have ok: "phys_ok (abs_phys s)" using good by (simp add: pc_good_def)
  obtain t where t: "map_of (pc_tracker s) i = Some t" "bt_active t \<longleftrightarrow> 0 < n" by (rule pc_good_tracker [OF good n(1)])
  let ?hl = "(pc_hashless s)\<lparr>na_refcounts := AList.update i (n - 1) (pc_rc s),
      na_heap := upd_obj r (\<lambda>b. b\<lparr>b_block_id := None\<rparr>) (na_heap (pc_hashless s))\<rparr>"
  let ?ev = "ev_add i h (int (b_num_tokens_total (pc_obj s r))) (bt_last_accessed t) (pc_evictor s)"
  let ?s1 = "if n = 1 then set_tracker i tracker_init (s\<lparr>pc_evictor := ?ev\<rparr>) else s"
  let ?s2 = "?s1\<lparr>pc_hashless := ?hl\<rparr>"
  have run: "decr_refcount_cached_block H r s = (Inr (), ?s2)"
  proof (cases "n = 1")
    case False
    with n id show ?thesis
      by (simp add: decr_refcount_cached_block_def bind_act_def [of "content_hash_of H r"] content_hash_known [OF ch]
          the_block_id_def lens_defs rc_decr_def act_defs set_id_def set_block_id_def)
  next
    case True
    let ?s0 = "s\<lparr>pc_hashless := (pc_hashless s)\<lparr>na_refcounts := AList.update i 0 (pc_rc s)\<rparr>\<rparr>"
    have "untrack_block_id i (?s0\<lparr>pc_evictor := ?ev\<rparr>) = (Inr (), set_tracker i tracker_init (?s0\<lparr>pc_evictor := ?ev\<rparr>))"
      by (rule untrack_ok [where t = t]) (use t True in simp_all)
    with True n id t c show ?thesis
      by (simp add: decr_refcount_cached_block_def bind_act_def [of "content_hash_of H r"] content_hash_known [OF ch]
          the_block_id_def lens_defs rc_decr_def act_defs set_id_def set_block_id_def get_tracker_def dict_item_def
          set_tracker_def)
  qed
  have abs: "abs_phys ?s2 = ph_release_cached i h (abs_phys s)"
    using n by (auto simp: abs_phys_def ph_release_cached_def ev_add_table)
  have "pc_wf ?s2"
    by (rule pc_wf_step [of s _ i "n - 1" "if n = 1 then tracker_init else t"])
      (use good n t in \<open>simp_all add: pc_good_def pc_wf_def pool_ok_upd tracker_init_def fun_upd_idem ev_add_table\<close>)
  moreover have "phys_ok (abs_phys ?s2)" unfolding abs using ok c n by (simp add: phys_ok_release_cached phys_rc phys_cached)
  ultimately show thesis using that [OF run abs] by (simp add: pc_good_def only_obj_def)
qed

end
