(* ===== verification/PrefixHeld.thy ===== *)
theory PrefixHeld
  imports PrefixInv
begin

text \<open>
  The block objects in the hands of the allocator's clients: every holder of a physical block is
  counted, a block that is still written has one holder, and a full block is the cached block of
  its hash. One lemma per operation of the allocator.
\<close>

section \<open>Holders\<close>

definition holders :: "pc_alloc \<Rightarrow> ref list \<Rightarrow> block_id \<Rightarrow> nat" where
  "holders s hs i = length (filter (\<lambda>r. b_block_id (pc_obj s r) = Some i) hs)"

text \<open>A block being filled, and a full block registered under its hash.\<close>

definition filling :: "pc_alloc \<Rightarrow> blk \<Rightarrow> block_id \<Rightarrow> bool" where
  "filling s b i \<longleftrightarrow> b_cached_hash b = None \<and> length (b_token_ids b) < na_block_size (pc_hashless s) \<and> \<not> b_computed b
     \<and> map_of (pc_rc s) i = Some 1 \<and> i \<notin> ran (map_of (pc_cached s))"

definition sealed :: "(string \<Rightarrow> int) \<Rightarrow> pc_alloc \<Rightarrow> blk \<Rightarrow> block_id \<Rightarrow> bool" where
  "sealed H s b i \<longleftrightarrow> (\<exists>h. b_cached_hash b = Some h \<and> h \<noteq> NONE_HASH \<and> map_of (pc_cached s) h = Some i
     \<and> length (b_token_ids b) = na_block_size (pc_hashless s)
     \<and> (\<exists>f ph. h = hash_block_tokens H f ph (b_token_ids b) (b_extra_hash b)))"

definition blk_ok :: "(string \<Rightarrow> int) \<Rightarrow> pc_alloc \<Rightarrow> blk \<Rightarrow> bool" where
  "blk_ok H s b \<longleftrightarrow> b_block_size b = na_block_size (pc_hashless s)
     \<and> (\<exists>i. b_block_id b = Some i \<and> (filling s b i \<or> sealed H s b i))"

text \<open>\<open>pend\<close> counts references that are taken but not yet stored in an object.\<close>

definition held_inv :: "(string \<Rightarrow> int) \<Rightarrow> pc_alloc \<Rightarrow> ref list \<Rightarrow> (block_id \<Rightarrow> nat) \<Rightarrow> bool" where
  "held_inv H s hs pend \<longleftrightarrow> distinct hs \<and> (\<forall>r \<in> set hs. owned s r \<and> blk_ok H s (pc_obj s r))
     \<and> (\<forall>i n. map_of (pc_rc s) i = Some n \<longrightarrow> n = int (holders s hs i) + int (pend i))"

lemma held_inv_blk: "held_inv H s hs pend \<Longrightarrow> r \<in> set hs \<Longrightarrow> blk_ok H s (pc_obj s r)"
  and held_inv_owned: "held_inv H s hs pend \<Longrightarrow> r \<in> set hs \<Longrightarrow> owned s r"
  and held_inv_count: "held_inv H s hs pend \<Longrightarrow> map_of (pc_rc s) i = Some n \<Longrightarrow> n = int (holders s hs i) + int (pend i)"
  by (auto simp: held_inv_def)

lemma holders_pos: "r \<in> set hs \<Longrightarrow> b_block_id (pc_obj s r) = Some i \<Longrightarrow> 0 < holders s hs i"
  unfolding holders_def by (auto simp: filter_empty_conv)

lemma blk_ok_settled: "blk_ok H s b \<Longrightarrow> settled b"
  by (auto simp: blk_ok_def filling_def sealed_def settled_def b_is_full_def)

lemma blk_ok_hash_not_none: "blk_ok H s b \<Longrightarrow> b_cached_hash b \<noteq> Some NONE_HASH"
  by (auto simp: blk_ok_def filling_def sealed_def)

lemma held_id:
  assumes "held_inv H s hs pend" "pc_good s" "r \<in> set hs"
  obtains i n where "b_block_id (pc_obj s r) = Some i" "map_of (pc_rc s) i = Some n" "0 < n"
    "filling s (pc_obj s r) i \<or> sealed H s (pc_obj s r) i"
proof -
  from held_inv_blk [OF assms(1,3)] obtain i where i: "b_block_id (pc_obj s r) = Some i"
    "filling s (pc_obj s r) i \<or> sealed H s (pc_obj s r) i" by (auto simp: blk_ok_def)
  have "\<exists>n. map_of (pc_rc s) i = Some n"
    using i(2) phys_okD(7) [of "abs_phys s" _ i] assms(2)
    by (auto simp: filling_def sealed_def pc_good_def phys_cached phys_rc)
  then obtain n where n: "map_of (pc_rc s) i = Some n" by blast
  have "0 < n" using held_inv_count [OF assms(1) n] holders_pos [OF assms(3) i(1)] by simp
  with that i n show thesis by blast
qed

text \<open>The invariant survives a step that leaves the held objects alone.\<close>

lemma held_transfer:
  assumes inv: "held_inv H s hs pend"
    and obj: "\<And>r. r \<in> set hs \<Longrightarrow> owned s' r \<and> pc_obj s' r = pc_obj s r"
    and bs: "na_block_size (pc_hashless s') = na_block_size (pc_hashless s)"
    and rc: "\<And>i n. map_of (pc_rc s') i = Some n \<Longrightarrow> \<exists>m. map_of (pc_rc s) i = Some m \<and> n - int (pend' i) = m - int (pend i)"
    and fil: "\<And>r i. r \<in> set hs \<Longrightarrow> b_block_id (pc_obj s r) = Some i \<Longrightarrow> map_of (pc_rc s) i = Some 1 \<Longrightarrow>
      i \<notin> ran (map_of (pc_cached s)) \<Longrightarrow> map_of (pc_rc s') i = Some 1 \<and> i \<notin> ran (map_of (pc_cached s'))"
    and seal: "\<And>r i h. r \<in> set hs \<Longrightarrow> b_block_id (pc_obj s r) = Some i \<Longrightarrow> map_of (pc_cached s) h = Some i \<Longrightarrow>
      map_of (pc_cached s') h = Some i"
  shows "held_inv H s' hs pend'"
proof -
  have "blk_ok H s' (pc_obj s' r)" if r: "r \<in> set hs" for r
  proof -
    obtain i where i: "b_block_id (pc_obj s r) = Some i" "filling s (pc_obj s r) i \<or> sealed H s (pc_obj s r) i"
      "b_block_size (pc_obj s r) = na_block_size (pc_hashless s)" using held_inv_blk [OF inv r] by (auto simp: blk_ok_def)
    have "filling s' (pc_obj s r) i \<or> sealed H s' (pc_obj s r) i"
      using i(2) fil [OF r i(1)] seal [OF r i(1)] bs by (auto simp: filling_def sealed_def)
    with i obj [OF r] bs show ?thesis by (simp add: blk_ok_def)
  qed
  moreover have "holders s' hs i = holders s hs i" for i
    unfolding holders_def using obj by (metis (mono_tags, lifting) filter_cong)
  moreover have "n = int (holders s hs i) + int (pend' i)" if "map_of (pc_rc s') i = Some n" for i n
    using rc [OF that] held_inv_count [OF inv, of i] by force
  ultimately show ?thesis using inv obj unfolding held_inv_def by auto
qed

lemma held_add:
  assumes inv: "held_inv H s hs pend" and r: "owned s r" "r \<notin> set hs" "blk_ok H s (pc_obj s r)"
    and i: "b_block_id (pc_obj s r) = Some i" and p: "pend i = Suc (pend' i)" "\<And>j. j \<noteq> i \<Longrightarrow> pend' j = pend j"
  shows "held_inv H s (r # hs) pend'"
proof -
  have "n = int (holders s (r # hs) j) + int (pend' j)" if "map_of (pc_rc s) j = Some n" for j n
    using held_inv_count [OF inv that] i p by (cases "j = i") (auto simp: holders_def)
  with inv r show ?thesis unfolding held_inv_def by auto
qed

lemma length_filter_remove1:
  "x \<in> set xs \<Longrightarrow> length (filter P xs) = length (filter P (remove1 x xs)) + (if P x then 1 else 0)"
  by (induction xs) auto

lemma held_remove:
  assumes inv: "held_inv H s hs pend" and r: "r \<in> set hs" and i: "b_block_id (pc_obj s r) = Some i"
  shows "held_inv H s (remove1 r hs) (pend(i := Suc (pend i)))"
proof -
  have d: "distinct hs" using inv by (simp add: held_inv_def)
  have "holders s hs j = holders s (remove1 r hs) j + (if j = i then 1 else 0)" for j
    using length_filter_remove1 [OF r, of "\<lambda>q. b_block_id (pc_obj s q) = Some j"] i by (simp add: holders_def)
  then have "n = int (holders s (remove1 r hs) j) + int ((pend(i := Suc (pend i))) j)" if "map_of (pc_rc s) j = Some n" for j n
    using held_inv_count [OF inv that] by auto
  with inv d show ?thesis unfolding held_inv_def using set_remove1_subset [of r hs] by auto
qed

section \<open>Taking a block\<close>

definition taken :: "pc_alloc \<Rightarrow> block_id \<Rightarrow> pc_alloc \<Rightarrow> bool" where
  "taken s i s' \<longleftrightarrow> pc_good s' \<and> frame s s' \<and> map_of (pc_rc s) i = Some 0 \<and> map_of (pc_rc s') = (map_of (pc_rc s))(i \<mapsto> 1)
     \<and> i \<notin> ran (map_of (pc_cached s')) \<and> (\<forall>h j. map_of (pc_cached s') h = Some j \<longrightarrow> map_of (pc_cached s) h = Some j)
     \<and> (\<forall>h j. map_of (pc_cached s) h = Some j \<and> j \<noteq> i \<longrightarrow> map_of (pc_cached s') h = Some j)"

lemma taken_free:
  assumes "pc_good s" "pc_good s'" "frame s s'" "i \<in> ph_free (abs_phys s)" "abs_phys s' = ph_take_free i (abs_phys s)"
  shows "taken s i s'"
proof -
  have ok: "phys_ok (abs_phys s)" using assms(1) by (simp add: pc_good_def)
  have "map_of (pc_rc s') = ph_refs (abs_phys s')" "map_of (pc_cached s') = ph_cached (abs_phys s')"
    by (simp_all add: phys_rc phys_cached)
  with taken_was_unused(1) [OF ok assms(4)] assms show ?thesis
    by (simp add: taken_def ph_take_free_def phys_rc phys_cached)
qed

lemma taken_evicted:
  assumes "pc_good s" "pc_good s'" "frame s s'" "ph_evict (abs_phys s) i = Some h" "abs_phys s' = ph_take_evicted i h (abs_phys s)"
  shows "taken s i s'"
proof -
  have ok: "phys_ok (abs_phys s)" using assms(1) by (simp add: pc_good_def)
  have "map_of (pc_rc s') = ph_refs (abs_phys s')" "map_of (pc_cached s') = ph_cached (abs_phys s')"
    by (simp_all add: phys_rc phys_cached)
  with taken_was_unused(2) [OF ok assms(4)] phys_okD(3) [OF ok assms(4)] assms show ?thesis
    by (auto simp: taken_def ph_take_evicted_def phys_rc phys_cached)
qed

lemma alloc_id_taken:
  assumes good: "pc_good s" and run: "pc_allocate_block_id s = (Inr i, s')"
  shows "taken s i s'"
proof (cases "na_free (pc_hashless s)")
  case Nil
  then have "maybe_allocate_evicted_block_id s = (Inr (Some i), s')"
    using run by (auto simp: pc_allocate_block_id_def bind_act_def take_free_none act_defs
        split: prod.splits sum.splits option.splits)
  then show ?thesis using take_evicted_step [OF good] taken_evicted [OF good] by metis
next
  case (Cons j rest)
  obtain s1 where "maybe_allocate_hashless_block_id s = (Inr (Some j), s1)" and 1: "j \<in> ph_free (abs_phys s)"
    "abs_phys s1 = ph_take_free j (abs_phys s)" "pc_good s1" "frame s s1" by (rule take_free_step [OF good Cons])
  with run have "j = i" "s1 = s'" by (simp_all add: pc_allocate_block_id_def bind_act_def ret_def)
  with 1 taken_free [OF good] show ?thesis by blast
qed

lemma alloc_id_grow:
  assumes good: "pc_good s" and run: "pc_allocate_block_id s = (Inr i, s')"
  shows "grow s s'"
proof (cases "na_free (pc_hashless s)")
  case Nil
  then have "maybe_allocate_evicted_block_id s = (Inr (Some i), s')"
    using run by (auto simp: pc_allocate_block_id_def bind_act_def take_free_none act_defs
        split: prod.splits sum.splits option.splits)
  then show ?thesis by (rule take_evicted_step [OF good])
next
  case (Cons j rest)
  obtain s1 where "maybe_allocate_hashless_block_id s = (Inr (Some j), s1)" and 1: "grow s s1" by (rule take_free_step [OF good Cons])
  with run show ?thesis by (simp add: pc_allocate_block_id_def bind_act_def ret_def)
qed

lemma evict_loop_error: "evict_loop ev = (Inl e, ev') \<Longrightarrow> e = ValueError"
proof (induction "length (ev_queue ev)" arbitrary: ev rule: less_induct)
  case less
  show ?case
  proof (cases "heap_pop (ev_queue ev)")
    case None
    with less.prems show ?thesis by (simp add: evict_loop.simps)
  next
    case (Some x)
    obtain la k b ch q where x: "x = ((la, k, b, ch), q)" by (metis surj_pair)
    have "evict_loop (ev\<lparr>ev_queue := q\<rparr>) = (Inl e, ev')"
      using less.prems Some x by (subst (asm) evict_loop.simps) (auto split: option.splits if_splits)
    moreover have "length q < length (ev_queue ev)" using heap_pop_length [OF Some [unfolded x]] by simp
    ultimately show ?thesis using less.hyps [of "ev\<lparr>ev_queue := q\<rparr>"] by simp
  qed
qed

lemma evicted_not_no_free: "maybe_allocate_evicted_block_id s \<noteq> (Inl NoFreeBlocksError, s')"
  by (auto simp: maybe_allocate_evicted_block_id_def bind_act_def lens_defs act_defs evict_def rc_incr_def rc_get_def
      track_block_id_def get_tracker_def dict_item_def tracker_enable_def
      split: prod.splits sum.splits option.splits if_splits dest!: evict_loop_error)

lemma evicted_None: "maybe_allocate_evicted_block_id s = (Inr None, s') \<Longrightarrow> s' = s \<and> ev_num_blocks (pc_evictor s) = 0"
  by (auto simp: maybe_allocate_evicted_block_id_def bind_act_def lens_defs act_defs
      split: prod.splits sum.splits option.splits if_splits)

text \<open>The allocator reports exhaustion only when no block is free or evictable, and then nothing changed.\<close>

lemma alloc_id_exhausted:
  assumes good: "pc_good s" and run: "pc_allocate_block_id s = (Inl NoFreeBlocksError, s')"
  shows "s' = s \<and> pc_num_free_blocks s = 0"
proof (cases "na_free (pc_hashless s)")
  case Nil
  then have "maybe_allocate_evicted_block_id s = (Inr None, s')"
    using run evicted_not_no_free [of s s'] by (auto simp: pc_allocate_block_id_def bind_act_def take_free_none act_defs
        split: prod.splits sum.splits option.splits)
  from evicted_None [OF this] Nil show ?thesis by (simp add: pc_num_free_blocks_def na_num_free_blocks_def)
next
  case (Cons j rest)
  obtain s1 where "maybe_allocate_hashless_block_id s = (Inr (Some j), s1)" by (rule take_free_step [OF good Cons])
  with run show ?thesis by (simp add: pc_allocate_block_id_def bind_act_def ret_def)
qed

lemma take_evicted_complete:
  assumes good: "pc_good s" and ev: "ev_ok (pc_evictor s)" and ne: "ev_num_blocks (pc_evictor s) \<noteq> 0"
  obtains i s' where "maybe_allocate_evicted_block_id s = (Inr (Some i), s')"
proof -
  have ok: "phys_ok (abs_phys s)" using good by (simp add: pc_good_def)
  obtain i md ev' where e: "evict (pc_evictor s) = (Inr (i, md_content_hash md), ev')"
    "map_of (ev_free_table (pc_evictor s)) i = Some md"
    using evict_facts [OF ev] ne unfolding ev_num_blocks_def by force
  then have p: "ph_evict (abs_phys s) i = Some (md_content_hash md)" by (simp add: abs_phys_def)
  have c: "map_of (pc_cached s) (md_content_hash md) = Some i" and n: "map_of (pc_rc s) i = Some 0"
    using phys_okD(2,3) [OF ok p] by (simp_all add: phys_rc phys_cached)
  obtain t where t: "map_of (pc_tracker s) i = Some t" "\<not> bt_active t" using pc_good_tracker [OF good n] by auto
  let ?s = "s\<lparr>pc_evictor := ev', pc_cached := AList.delete (md_content_hash md) (pc_cached s),
     pc_hashless := (pc_hashless s)\<lparr>na_refcounts := AList.update i 1 (pc_rc s)\<rparr>\<rparr>"
  have "track_block_id i False ?s = (Inr (), set_tracker i (tracking False) ?s)"
    by (rule track_ok [where t = t]) (use t in simp_all)
  then have "maybe_allocate_evicted_block_id s = (Inr (Some i), set_tracker i (tracking False) ?s)"
    using ne e(1) c n by (simp add: maybe_allocate_evicted_block_id_def bind_act_def lens_defs act_defs rc_incr_def rc_get_def)
  then show thesis by (rule that)
qed

lemma alloc_id_complete:
  assumes good: "pc_good s" and ev: "ev_ok (pc_evictor s)" and ne: "0 < pc_num_free_blocks s"
  obtains i s' where "pc_allocate_block_id s = (Inr i, s')"
proof (cases "na_free (pc_hashless s)")
  case Nil
  then have "ev_num_blocks (pc_evictor s) \<noteq> 0" using ne by (simp add: pc_num_free_blocks_def na_num_free_blocks_def)
  then obtain i s' where "maybe_allocate_evicted_block_id s = (Inr (Some i), s')" by (rule take_evicted_complete [OF good ev])
  then show thesis using that Nil by (simp add: pc_allocate_block_id_def bind_act_def take_free_none ret_def)
next
  case (Cons j rest)
  obtain s1 where "maybe_allocate_hashless_block_id s = (Inr (Some j), s1)" by (rule take_free_step [OF good Cons])
  with that show thesis by (simp add: pc_allocate_block_id_def bind_act_def ret_def)
qed

lemma held_taken:
  assumes inv: "held_inv H s hs pend" and good: "pc_good s" and t: "taken s i s'"
  shows "held_inv H s' hs (pend(i := 1))" "pend i = 0" "\<forall>r \<in> set hs. b_block_id (pc_obj s r) \<noteq> Some i"
proof -
  have z: "map_of (pc_rc s) i = Some 0" using t by (simp add: taken_def)
  from held_inv_count [OF inv z] have h0: "holders s hs i = 0" "pend i = 0" by auto
  then show "pend i = 0" by simp
  show no: "\<forall>r \<in> set hs. b_block_id (pc_obj s r) \<noteq> Some i" using holders_pos [of _ hs s i] h0 by fastforce
  show "held_inv H s' hs (pend(i := 1))"
  proof (rule held_transfer [OF inv])
    show "owned s' r \<and> pc_obj s' r = pc_obj s r" if "r \<in> set hs" for r
      using t held_inv_owned [OF inv that] by (simp add: taken_def frame_def)
    show "na_block_size (pc_hashless s') = na_block_size (pc_hashless s)" using t by (simp add: taken_def frame_def)
    show "\<exists>m. map_of (pc_rc s) j = Some m \<and> n - int ((pend(i := 1)) j) = m - int (pend j)"
      if "map_of (pc_rc s') j = Some n" for j n
      using that t z h0(2) by (auto simp: taken_def split: if_splits)
    show "map_of (pc_rc s') j = Some 1 \<and> j \<notin> ran (map_of (pc_cached s'))"
      if "map_of (pc_rc s) j = Some 1" "j \<notin> ran (map_of (pc_cached s))" for j
    proof -
      have "j \<noteq> i" using that(1) z by auto
      then have "map_of (pc_rc s') j = Some 1" using that(1) t by (simp add: taken_def)
      moreover have "map_of (pc_cached s') h \<noteq> Some j" for h using that(2) t unfolding taken_def by (metis ranI)
      ultimately show ?thesis by (simp add: ran_def)
    qed
    show "map_of (pc_cached s') h = Some j"
      if "r \<in> set hs" "b_block_id (pc_obj s r) = Some j" "map_of (pc_cached s) h = Some j" for r j h
    proof -
      have "j \<noteq> i" using that(1,2) no by blast
      with that(3) t show ?thesis unfolding taken_def by blast
    qed
  qed
qed

section \<open>New objects\<close>

definition same_ids :: "pc_alloc \<Rightarrow> pc_alloc \<Rightarrow> bool" where
  "same_ids s s' \<longleftrightarrow> pc_rc s' = pc_rc s \<and> pc_cached s' = pc_cached s \<and> pc_evictor s' = pc_evictor s
     \<and> pc_tracker s' = pc_tracker s \<and> na_free (pc_hashless s') = na_free (pc_hashless s)"

lemma same_ids_good:
  "same_ids s s' \<Longrightarrow> pc_good s \<Longrightarrow> na_all (pc_hashless s') = na_all (pc_hashless s) \<Longrightarrow>
   pool_ok (na_pool (pc_hashless s')) (na_heap (pc_hashless s')) \<Longrightarrow> pc_good s'"
  by (simp add: same_ids_def pc_good_def pc_wf_def abs_phys_def)

lemma same_ids_phys: "same_ids s s' \<Longrightarrow> abs_phys s' = abs_phys s"
  by (simp add: same_ids_def abs_phys_def)

lemma same_ids_trans: "same_ids s s' \<Longrightarrow> same_ids s' s'' \<Longrightarrow> same_ids s s''"
  by (simp add: same_ids_def)

lemma same_ids_grow: "same_ids s s' \<Longrightarrow> grow s s'"
  by (rule grow_same [OF same_ids_phys]) (simp_all add: same_ids_def)

lemma held_same_ids:
  assumes "held_inv H s hs pend" "same_ids s s'" "frame s s'"
  shows "held_inv H s' hs pend"
  by (rule held_transfer [OF assms(1)]) (use assms held_inv_owned [OF assms(1)] in \<open>auto simp: same_ids_def frame_def\<close>)

lemma taken_same_ids:
  assumes t: "taken s i s1" and "same_ids s1 s2" "pc_good s2" "frame s1 s2"
  shows "taken s i s2"
proof -
  have "pc_rc s2 = pc_rc s1" "pc_cached s2 = pc_cached s1" using assms(2) by (simp_all add: same_ids_def)
  with t assms(3,4) frame_trans [of s s1 s2] show ?thesis unfolding taken_def by metis
qed

lemma init_ok:
  assumes good: "pc_good s" and fits: "length toks \<le> na_block_size (pc_hashless s)" and prev: "\<And>p. prev = Some p \<Longrightarrow> owned s p"
  obtains r s' k where "pc_init_block prev toks bid extra s = (Inr r, s')" "pc_good s'" "frame s s'" "same_ids s s'"
    "owned s' r" "\<not> owned s r"
    "pc_obj s' r = init_blk prev toks (na_block_size (pc_hashless s)) bid extra
       (prev_total (na_heap (pc_hashless s)) prev + length toks) (Some k)"
proof -
  let ?hl = "pc_hashless s"
  obtain r p hp k where run: "init_block prev toks (na_block_size ?hl) bid extra (na_pool ?hl, na_heap ?hl) = (Inr r, (p, hp))"
    and p: "pool_ok p hp" "owns p hp r"
    and obj: "hp ! r = init_blk prev toks (na_block_size ?hl) bid extra (prev_total (na_heap ?hl) prev + length toks) (Some k)"
    and old: "\<not> owns (na_pool ?hl) (na_heap ?hl) r" "\<And>q. owns (na_pool ?hl) (na_heap ?hl) q \<Longrightarrow> owns p hp q \<and> hp ! q = na_heap ?hl ! q"
    by (rule init_block_facts [OF pc_good_pool [OF good] fits, of prev bid extra])
      (use prev owned_bound [OF good] in \<open>auto\<close>)
  let ?s = "s\<lparr>pc_hashless := ?hl\<lparr>na_pool := p, na_heap := hp\<rparr>\<rparr>"
  have "pc_init_block prev toks bid extra s = (Inr r, ?s)"
    using run by (simp add: pc_init_block_def na_init_block_def lens_defs)
  moreover have same: "same_ids s ?s" by (simp add: same_ids_def)
  moreover have "pc_good ?s" by (rule same_ids_good [OF same good]) (simp_all add: p(1))
  moreover have "frame s ?s" using old(2) by (auto simp: frame_def owned_def)
  ultimately show thesis using that [of r ?s k] p(2) obj old(1) by (simp add: owned_def)
qed

lemma free_obj_ok:
  assumes good: "pc_good s" and r: "owned s r"
  obtains s' where "hashless (with_pool (free_block r)) s = (Inr (), s')" "pc_good s'" "same_ids s s'" "\<not> owned s' r"
    "\<And>q. owned s q \<Longrightarrow> q \<noteq> r \<Longrightarrow> owned s' q" "na_heap (pc_hashless s') = na_heap (pc_hashless s)"
    "na_all (pc_hashless s') = na_all (pc_hashless s)" "na_block_size (pc_hashless s') = na_block_size (pc_hashless s)"
proof -
  let ?hl = "pc_hashless s"
  obtain p where p: "free_block r (na_pool ?hl, na_heap ?hl) = (Inr (), (p, na_heap ?hl))" "pool_ok p (na_heap ?hl)"
    "\<And>q. owns (na_pool ?hl) (na_heap ?hl) q \<Longrightarrow> q \<noteq> r \<Longrightarrow> owns p (na_heap ?hl) q" "\<not> owns p (na_heap ?hl) r"
    by (rule free_block_facts [OF pc_good_pool [OF good]]) (use r in \<open>auto simp: owned_def\<close>)
  let ?s = "s\<lparr>pc_hashless := ?hl\<lparr>na_pool := p\<rparr>\<rparr>"
  have "hashless (with_pool (free_block r)) s = (Inr (), ?s)" using p(1) by (simp add: lens_defs)
  moreover have same: "same_ids s ?s" by (simp add: same_ids_def)
  moreover have "pc_good ?s" by (rule same_ids_good [OF same good]) (simp_all add: p(2))
  ultimately show thesis using that [of ?s] p(3,4) by (simp add: owned_def)
qed

lemma alloc_mutable_ok:
  assumes good: "pc_good s" and inv: "held_inv H s hs pend" and bs: "0 < na_block_size (pc_hashless s)"
    and prev: "\<And>p. prev = Some p \<Longrightarrow> owned s p" and run: "pc_allocate_mutable_block H prev extra s = (Inr r, s')"
  obtains i where "pc_good s'" "held_inv H s' (r # hs) pend" "frame s s'" "taken s i s'"
    "b_block_id (pc_obj s' r) = Some i" "b_token_ids (pc_obj s' r) = []" "b_prev (pc_obj s' r) = prev" "b_extra_hash (pc_obj s' r) = extra"
    "filling s' (pc_obj s' r) i" "\<not> owned s r" "grow s s'"
proof -
  obtain i s1 where al: "pc_allocate_block_id s = (Inr i, s1)" using run
    by (auto simp: pc_allocate_mutable_block_def bind_act_Inr_iff)
  have t: "taken s i s1" by (rule alloc_id_taken [OF good al])
  then have good1: "pc_good s1" and fr1: "frame s s1" by (simp_all add: taken_def)
  note held1 = held_taken [OF inv good t]
  have bs1: "na_block_size (pc_hashless s1) = na_block_size (pc_hashless s)" using fr1 by (simp add: frame_def)
  obtain r1 s2 k where ini: "pc_init_block prev [] (Some i) extra s1 = (Inr r1, s2)" and good2: "pc_good s2" and fr2: "frame s1 s2"
    and same: "same_ids s1 s2" and own: "owned s2 r1" "\<not> owned s1 r1"
    and obj: "pc_obj s2 r1 = init_blk prev [] (na_block_size (pc_hashless s1)) (Some i) extra
      (prev_total (na_heap (pc_hashless s1)) prev + length []) (Some k)"
    by (rule init_ok [OF good1, of "[]" prev "Some i" extra]) (use prev fr1 in \<open>auto simp: frame_def\<close>)
  have ch: "content_hash_of H r1 s2 = (Inr None, s2)"
    by (rule content_hash_not_full) (use obj bs bs1 in \<open>simp_all add: init_blk_def b_is_full_def\<close>)
  have s': "r1 = r" "s2 = s'" using run obj
    by (auto simp: pc_allocate_mutable_block_def bind_act_def al ini ch init_blk_def act_defs)
  have rc: "map_of (pc_rc s2) i = Some 1" "i \<notin> ran (map_of (pc_cached s2))"
    using t same by (simp_all add: taken_def same_ids_def)
  have bs2: "na_block_size (pc_hashless s2) = na_block_size (pc_hashless s1)" using fr2 by (simp add: frame_def)
  have fil: "filling s2 (pc_obj s2 r1) i" using rc obj bs bs1 bs2 by (simp add: filling_def init_blk_def)
  have "held_inv H s2 hs (pend(i := 1))" by (rule held_same_ids [OF held1(1) same fr2])
  then have "held_inv H s2 (r1 # hs) pend"
  proof (rule held_add)
    show "r1 \<notin> set hs" using own(2) held_inv_owned [OF held1(1)] by blast
    show "blk_ok H s2 (pc_obj s2 r1)" using fil obj bs2 by (simp add: blk_ok_def init_blk_def)
  qed (use own(1) obj held1(2) in \<open>simp_all add: init_blk_def\<close>)
  moreover have "taken s i s2" by (rule taken_same_ids [OF t same good2 fr2])
  moreover have "\<not> owned s r1" using own(2) fr1 by (auto simp: frame_def)
  ultimately show thesis using that [of i] good2 frame_trans [OF fr1 fr2] obj fil s' grow_trans [OF alloc_id_grow [OF good al] same_ids_grow [OF same]]
    by (simp add: init_blk_def)
qed

lemma alloc_mutable_of_id:
  assumes good: "pc_good s" and bs: "0 < na_block_size (pc_hashless s)" and prev: "\<And>p. prev = Some p \<Longrightarrow> owned s p"
    and al: "pc_allocate_block_id s = (Inr i, s1)"
  obtains r s' where "pc_allocate_mutable_block H prev extra s = (Inr r, s')"
proof -
  have t: "taken s i s1" by (rule alloc_id_taken [OF good al])
  then have good1: "pc_good s1" and fr1: "frame s s1" by (simp_all add: taken_def)
  obtain r1 s2 k where ini: "pc_init_block prev [] (Some i) extra s1 = (Inr r1, s2)"
    and obj: "pc_obj s2 r1 = init_blk prev [] (na_block_size (pc_hashless s1)) (Some i) extra
      (prev_total (na_heap (pc_hashless s1)) prev + length []) (Some k)"
    by (rule init_ok [OF good1, of "[]" prev "Some i" extra]) (use prev fr1 in \<open>auto simp: frame_def\<close>)
  have "content_hash_of H r1 s2 = (Inr None, s2)"
    by (rule content_hash_not_full) (use obj bs fr1 in \<open>simp_all add: init_blk_def b_is_full_def frame_def\<close>)
  with obj that [of r1 s2] show thesis
    by (simp add: pc_allocate_mutable_block_def bind_act_def al ini init_blk_def act_defs)
qed

lemma alloc_mutable_exhausted:
  assumes good: "pc_good s" and bs: "0 < na_block_size (pc_hashless s)" and prev: "\<And>p. prev = Some p \<Longrightarrow> owned s p"
    and run: "pc_allocate_mutable_block H prev extra s = (Inl NoFreeBlocksError, s')"
  shows "s' = s \<and> pc_num_free_blocks s = 0"
proof (cases "fst (pc_allocate_block_id s)")
  case (Inl e)
  with run have "pc_allocate_block_id s = (Inl NoFreeBlocksError, s')"
    by (simp add: pc_allocate_mutable_block_def bind_act_def split: prod.splits)
  then show ?thesis by (rule alloc_id_exhausted [OF good])
next
  case (Inr i)
  then have "pc_allocate_block_id s = (Inr i, snd (pc_allocate_block_id s))" by (metis prod.collapse)
  then obtain r s1 where "pc_allocate_mutable_block H prev extra s = (Inr r, s1)"
    using alloc_mutable_of_id [OF good bs prev] by blast
  with run show ?thesis by simp
qed

lemma alloc_mutable_empty:
  assumes "pc_num_free_blocks s = 0"
  shows "pc_allocate_mutable_block H prev extra s = (Inl NoFreeBlocksError, s)"
proof -
  have "na_free (pc_hashless s) = []" "ev_num_blocks (pc_evictor s) = 0"
    using assms by (simp_all add: pc_num_free_blocks_def na_num_free_blocks_def)
  then show ?thesis
    by (simp add: pc_allocate_mutable_block_def pc_allocate_block_id_def bind_act_def take_free_none
        maybe_allocate_evicted_block_id_def raise_def)
qed

section \<open>Releasing\<close>

lemma held_drop:
  assumes inv: "held_inv H s hs (pend(i := Suc (pend i)))" and r: "r \<notin> set hs"
    and n: "map_of (pc_rc s) i = Some n" and rc: "map_of (pc_rc s') = (map_of (pc_rc s))(i \<mapsto> n - 1)"
    and c: "pc_cached s' = pc_cached s" and obj: "only_obj r f s s'" and f: "\<And>b. b_pool_id (f b) = b_pool_id b"
  shows "held_inv H s' hs pend"
proof (rule held_transfer [OF inv])
  have own: "owned s' = owned s" by (rule only_obj_owned [OF obj f])
  show "owned s' q \<and> pc_obj s' q = pc_obj s q" if "q \<in> set hs" for q
  proof -
    have "q \<noteq> r" using that r by blast
    then show ?thesis using held_inv_owned [OF inv that] own obj by (simp add: only_obj_def)
  qed
  show "na_block_size (pc_hashless s') = na_block_size (pc_hashless s)" using obj by (simp add: only_obj_def)
  show "\<exists>m'. map_of (pc_rc s) j = Some m' \<and> m - int (pend j) = m' - int ((pend(i := Suc (pend i))) j)"
    if "map_of (pc_rc s') j = Some m" for j m
    using that n by (auto simp: rc split: if_splits)
  show "map_of (pc_rc s') j = Some 1 \<and> j \<notin> ran (map_of (pc_cached s'))"
    if q: "q \<in> set hs" "b_block_id (pc_obj s q) = Some j" "map_of (pc_rc s) j = Some 1" "j \<notin> ran (map_of (pc_cached s))" for q j
  proof -
    have "0 < holders s hs j" by (rule holders_pos [OF q(1,2)])
    then have "j \<noteq> i" using held_inv_count [OF inv q(3)] by auto
    with q c show ?thesis by (simp add: rc)
  qed
  show "map_of (pc_cached s') h = Some j" if "map_of (pc_cached s) h = Some j" for h j using that c by simp
qed

lemma held_released:
  assumes inv: "held_inv H s hs pend" and r: "r \<in> set hs" and i: "b_block_id (pc_obj s r) = Some i"
    and n: "map_of (pc_rc s) i = Some n" and rc: "map_of (pc_rc s') = (map_of (pc_rc s))(i \<mapsto> n - 1)"
    and c: "pc_cached s' = pc_cached s" and obj: "only_obj r f s s'" and f: "\<And>b. b_pool_id (f b) = b_pool_id b"
  shows "held_inv H s' (remove1 r hs) pend"
  by (rule held_drop [OF held_remove [OF inv r i] _ n rc c obj f]) (use inv in \<open>simp add: held_inv_def\<close>)

lemma free_id_ok:
  assumes good: "pc_good s" and inv: "held_inv H s hs pend" and r: "r \<in> set hs"
  obtains s' where "pc_free_block_id H r s = (Inr (), s')" "pc_good s'" "held_inv H s' (remove1 r hs) pend"
    "only_obj r (\<lambda>b. b\<lparr>b_block_id := None\<rparr>) s s'" "phys_step (abs_phys s) (abs_phys s')"
proof -
  let ?f = "\<lambda>b. b\<lparr>b_block_id := None\<rparr>"
  have rb: "r < length (na_heap (pc_hashless s))" using owned_bound [OF good held_inv_owned [OF inv r]] .
  obtain i n where i: "b_block_id (pc_obj s r) = Some i" and n: "map_of (pc_rc s) i = Some n" "0 < n"
    and st: "filling s (pc_obj s r) i \<or> sealed H s (pc_obj s r) i" by (rule held_id [OF inv good r])
  have id: "the_block_id r s = (Inr i, s)" using i by (simp add: the_block_id_def)
  obtain s' where run: "(if b_cached_hash (pc_obj s r) \<noteq> None then decr_refcount_cached_block H r else decr_refcount_hashless_block r) s = (Inr (), s')"
    and g: "pc_good s'" and o1: "only_obj r ?f s s'" and c: "pc_cached s' = pc_cached s" and ps: "phys_step (abs_phys s) (abs_phys s')"
    and rc: "map_of (pc_rc s') = (map_of (pc_rc s))(i \<mapsto> n - 1)"
  proof (cases "b_cached_hash (pc_obj s r)")
    case None
    then have c: "i \<notin> ran (map_of (pc_cached s))" using st by (auto simp: filling_def sealed_def)
    obtain s' where s': "decr_refcount_hashless_block r s = (Inr (), s')" "abs_phys s' = ph_release i (abs_phys s)" "pc_good s'"
      "only_obj r ?f s s'" "pc_cached s' = pc_cached s" by (rule release_step [OF good i n c rb])
    have "map_of (pc_rc s') = (map_of (pc_rc s))(i \<mapsto> n - 1)"
      unfolding phys_rc [symmetric] s'(2) using n by (simp add: ph_release_def phys_rc)
    moreover have "phys_step (abs_phys s) (abs_phys s')"
      unfolding s'(2) by (rule phys_step.release) (use c n in \<open>simp_all add: phys_rc phys_cached\<close>)
    ultimately show thesis using that [of s'] s' None by simp
  next
    case (Some h)
    then have c: "map_of (pc_cached s) h = Some i" using st by (auto simp: filling_def sealed_def)
    obtain s' where s': "decr_refcount_cached_block H r s = (Inr (), s')" "abs_phys s' = ph_release_cached i h (abs_phys s)"
      "pc_good s'" "only_obj r ?f s s'" "pc_cached s' = pc_cached s" by (rule release_cached_step [OF good i n Some c rb])
    have "map_of (pc_rc s') = (map_of (pc_rc s))(i \<mapsto> n - 1)"
      unfolding phys_rc [symmetric] s'(2) using n by (simp add: ph_release_cached_def phys_rc)
    moreover have "phys_step (abs_phys s) (abs_phys s')"
      unfolding s'(2) by (rule phys_step.release_cached) (use c n in \<open>simp_all add: phys_rc phys_cached\<close>)
    ultimately show thesis using that [of s'] s' Some by simp
  qed
  have ch: "content_hash_of H r s = (Inr (b_cached_hash (pc_obj s r)), s)"
    using content_hash_settled [OF blk_ok_settled [OF held_inv_blk [OF inv r]]] by (simp add: content_hash_of_def lens_defs del: block_content_hash.simps)
  have "b_block_id (pc_obj s' r) = None" using o1 rb by (simp add: only_obj_def)
  then have "pc_free_block_id H r s = (Inr (), s')"
    using run by (simp add: pc_free_block_id_def bind_act_def id ch act_defs)
  moreover have "held_inv H s' (remove1 r hs) pend" by (rule held_released [OF inv r i n(1) rc c o1]) simp
  ultimately show thesis using that g o1 ps by blast
qed

lemma free_ok:
  assumes good: "pc_good s" and inv: "held_inv H s hs pend" and r: "r \<in> set hs"
  obtains s' where "pc_free H r False s = (Inr (), s')" "pc_good s'" "held_inv H s' (remove1 r hs) pend"
    "na_all (pc_hashless s') = na_all (pc_hashless s)" "na_block_size (pc_hashless s') = na_block_size (pc_hashless s)"
    "\<And>q. owned s q \<Longrightarrow> q \<noteq> r \<Longrightarrow> owned s' q \<and> pc_obj s' q = pc_obj s q" "phys_step (abs_phys s) (abs_phys s')"
proof -
  obtain s1 where 1: "pc_free_block_id H r s = (Inr (), s1)" "pc_good s1" "held_inv H s1 (remove1 r hs) pend"
    "only_obj r (\<lambda>b. b\<lparr>b_block_id := None\<rparr>) s s1" and ps: "phys_step (abs_phys s) (abs_phys s1)" by (rule free_id_ok [OF good inv r])
  have own: "owned s1 = owned s" by (rule only_obj_owned [OF 1(4)]) simp
  then have "owned s1 r" using held_inv_owned [OF inv r] by simp
  then obtain s2 where 2: "hashless (with_pool (free_block r)) s1 = (Inr (), s2)" "pc_good s2" "same_ids s1 s2"
    "\<And>q. owned s1 q \<Longrightarrow> q \<noteq> r \<Longrightarrow> owned s2 q" "na_heap (pc_hashless s2) = na_heap (pc_hashless s1)"
    "na_all (pc_hashless s2) = na_all (pc_hashless s1)" "na_block_size (pc_hashless s2) = na_block_size (pc_hashless s1)"
    by (rule free_obj_ok [OF 1(2)]) blast
  have "distinct hs" using inv by (simp add: held_inv_def)
  then have "held_inv H s2 (remove1 r hs) pend"
    using held_inv_owned [OF 1(3)] 2(3-7) by (intro held_transfer [OF 1(3)]) (auto simp: same_ids_def)
  moreover have "pc_free H r False s = (Inr (), s2)" using 1(1) 2(1) by (simp add: pc_free_def bind_act_def)
  ultimately show thesis using that [of s2] 2 1(4) own ps same_ids_phys [OF 2(3)] by (simp add: only_obj_def)
qed

section \<open>Appending and promotion\<close>

lemma only_obj_other: "only_obj r f s s' \<Longrightarrow> q \<noteq> r \<Longrightarrow> pc_obj s' q = pc_obj s q"
  by (simp add: only_obj_def)

lemma only_obj_same: "only_obj r f s s' \<Longrightarrow> r < length (na_heap (pc_hashless s)) \<Longrightarrow> pc_obj s' r = f (pc_obj s r)"
  by (simp add: only_obj_def)

lemma held_only_obj:
  assumes inv: "held_inv H s hs pend" and r: "r \<notin> set hs" and o1: "only_obj r f s s'" and f: "\<And>b. b_pool_id (f b) = b_pool_id b"
    and ids: "pc_rc s' = pc_rc s" "pc_cached s' = pc_cached s"
  shows "held_inv H s' hs pend"
proof (rule held_transfer [OF inv])
  show "owned s' q \<and> pc_obj s' q = pc_obj s q" if "q \<in> set hs" for q
    using that r held_inv_owned [OF inv that] only_obj_owned [OF o1 f] only_obj_other [OF o1, of q] by metis
qed (use ids o1 in \<open>auto simp: only_obj_def\<close>)

lemma held_reinsert:
  assumes "held_inv H s (r # remove1 r hs) pend" and "r \<in> set hs"
  shows "held_inv H s hs pend"
proof -
  have "holders s hs i = holders s (r # remove1 r hs) i" for i
    using length_filter_remove1 [OF assms(2), of "\<lambda>q. b_block_id (pc_obj s q) = Some i"] by (simp add: holders_def)
  moreover have "set (r # remove1 r hs) = set hs \<and> distinct hs"
  proof -
    have "mset (r # remove1 r hs) = mset hs" using assms(2) by simp
    then show ?thesis using assms(1) unfolding held_inv_def by (metis distinct_count_atmost_1 set_mset_mset)
  qed
  ultimately show ?thesis using assms(1) unfolding held_inv_def by metis
qed

lemma pc_good_upd_obj: "pc_good s \<Longrightarrow> same_ids s s' \<Longrightarrow> only_obj r f s s' \<Longrightarrow> pc_good s'"
  by (rule same_ids_good) (auto simp: only_obj_def pool_ok_upd dest: pc_good_pool)

text \<open>Registration of a full block under a hash that is not cached yet.\<close>

lemma register_ok:
  assumes good: "pc_good s" and inv: "held_inv H s hs pend" and i: "map_of (pc_rc s) i = Some 1" "0 < pend i"
    and c: "i \<notin> ran (map_of (pc_cached s))" "map_of (pc_cached s) h = None"
    and s': "s' = s\<lparr>pc_cached := AList.update h i (pc_cached s), pc_touched := tc\<rparr>"
  shows "pc_good s'" "held_inv H s' hs pend" "grow s s'"
proof -
  have abs: "abs_phys s' = ph_register h i (abs_phys s)" by (simp add: s' abs_phys_def ph_register_def)
  show "grow s s'"
  proof (rule grow_step)
    show "phys_step (abs_phys s) (abs_phys s')"
      unfolding abs by (rule phys_step.register) (use c i(1) in \<open>auto simp: phys_rc phys_cached\<close>)
    show "ph_active (abs_phys s') g j" if "ph_active (abs_phys s) g j" for g j
      unfolding abs by (rule ph_active_kept(5) [OF _ that]) (use good c in \<open>simp_all add: pc_good_def phys_cached\<close>)
  qed (simp add: s')
  have "phys_ok (ph_register h i (abs_phys s))"
    using good c i(1) by (intro phys_ok_register) (auto simp: pc_good_def phys_rc phys_cached)
  with abs show "pc_good s'" using good by (simp add: s' pc_good_def pc_wf_def)
  have none: "holders s hs i = 0" using held_inv_count [OF inv i(1)] i(2) by simp
  show "held_inv H s' hs pend"
  proof (rule held_transfer [OF inv])
    show "map_of (pc_rc s') j = Some 1 \<and> j \<notin> ran (map_of (pc_cached s'))"
      if "r \<in> set hs" "b_block_id (pc_obj s r) = Some j" "map_of (pc_rc s) j = Some 1" "j \<notin> ran (map_of (pc_cached s))" for r j
      using that none holders_pos [of r hs s j] c(2) by (auto simp: s' ran_def)
    show "map_of (pc_cached s') g = Some j" if "map_of (pc_cached s) g = Some j" for g j using that c(2) by (auto simp: s')
  qed (use held_inv_owned [OF inv] in \<open>auto simp: s' owned_def\<close>)
qed

text \<open>Taking another reference to the cached block of a hash.\<close>

lemma share_ok:
  assumes good: "pc_good s" and inv: "held_inv H s hs pend" and r: "r \<notin> set hs" "r < length (na_heap (pc_hashless s))"
    and id: "b_block_id (pc_obj s r) = Some i" and c: "map_of (pc_cached s) h = Some i"
  obtains s' where "incr_refcount_cached_block r s = (Inr (), s')" "pc_good s'" "held_inv H s' hs (pend(i := Suc (pend i)))"
    "only_obj r (\<lambda>b. b\<lparr>b_computed := True\<rparr>) s s'" "pc_cached s' = pc_cached s" "grow s s'"
proof -
  obtain s' where s': "incr_refcount_cached_block r s = (Inr (), s')" "abs_phys s' = ph_share i (abs_phys s)" "pc_good s'"
    "only_obj r (\<lambda>b. b\<lparr>b_computed := True\<rparr>) s s'" "pc_cached s' = pc_cached s" "grow s s'" by (rule share_step [OF good id r(2) c])
  obtain n where n: "map_of (pc_rc s) i = Some n"
    using phys_okD(7) [of "abs_phys s" h i] good c by (auto simp: pc_good_def phys_rc phys_cached)
  have rc: "map_of (pc_rc s') = (map_of (pc_rc s))(i \<mapsto> n + 1)"
    unfolding phys_rc [symmetric] s'(2) using n by (simp add: ph_share_def phys_rc)
  have own: "owned s' = owned s" by (rule only_obj_owned [OF s'(4)]) simp
  have "held_inv H s' hs (pend(i := Suc (pend i)))"
  proof (rule held_transfer [OF inv])
    show "owned s' q \<and> pc_obj s' q = pc_obj s q" if "q \<in> set hs" for q
      using that r(1) held_inv_owned [OF inv that] own only_obj_other [OF s'(4), of q] by metis
    show "na_block_size (pc_hashless s') = na_block_size (pc_hashless s)" using s'(4) by (simp add: only_obj_def)
    show "\<exists>m'. map_of (pc_rc s) j = Some m' \<and> m - int ((pend(i := Suc (pend i))) j) = m' - int (pend j)"
      if "map_of (pc_rc s') j = Some m" for j m using that n by (auto simp: rc split: if_splits)
    show "map_of (pc_rc s') j = Some 1 \<and> j \<notin> ran (map_of (pc_cached s'))"
      if "map_of (pc_rc s) j = Some 1" "j \<notin> ran (map_of (pc_cached s))" for j
    proof -
      have "j \<noteq> i" using that(2) c by (auto simp: ran_def)
      with that show ?thesis by (simp add: rc s'(5))
    qed
  qed (use s'(5) in simp)
  then show thesis using that s' by blast
qed

lemma set_id_run: "set_id r i s = (Inr (), s\<lparr>pc_hashless := set_block_id r i (pc_hashless s)\<rparr>)"
  by (simp add: set_id_def lens_defs modify_def)

lemma only_obj_set_id: "only_obj r (\<lambda>b. b\<lparr>b_block_id := i\<rparr>) s (s\<lparr>pc_hashless := set_block_id r i (pc_hashless s)\<rparr>)"
  by (simp add: only_obj_def set_block_id_def)

lemma same_ids_set_id: "same_ids s (s\<lparr>pc_hashless := set_block_id r i (pc_hashless s)\<rparr>)"
  by (simp add: same_ids_def set_block_id_def)

lemma promote_ok:
  assumes good: "pc_good s" and inv: "held_inv H s hs (pend(i := Suc (pend i)))" and r: "r \<notin> set hs" "owned s r"
    and id: "b_block_id (pc_obj s r) = Some i" and rc: "map_of (pc_rc s) i = Some 1" and ic: "i \<notin> ran (map_of (pc_cached s))"
    and h: "b_cached_hash (pc_obj s r) = Some h"
  obtains j s' c where "promote_to_immutable_block H r s = (Inr j, s')" "pc_good s'" "held_inv H s' hs (pend(j := Suc (pend j)))"
    "map_of (pc_cached s') h = Some j" "only_obj r (\<lambda>b. b\<lparr>b_block_id := Some j, b_computed := c b\<rparr>) s s'"
    "grow s s'"
proof -
  have rb: "r < length (na_heap (pc_hashless s))" by (rule owned_bound [OF good r(2)])
  have ch: "content_hash_of H r s = (Inr (Some h), s)" by (rule content_hash_known [OF h])
  have tb: "the_block_id r s = (Inr i, s)" using id by (simp add: the_block_id_def)
  have same: "upd_obj r (\<lambda>b. b\<lparr>b_block_id := Some i\<rparr>) (na_heap (pc_hashless s)) = na_heap (pc_hashless s)"
    using id by (cases "pc_obj s r") (simp add: upd_obj_def list_update_same_conv rb)
  show thesis
  proof (cases "map_of (pc_cached s) h")
    case None
    let ?s = "s\<lparr>pc_cached := AList.update h i (pc_cached s), pc_touched := List.insert i (pc_touched s)\<rparr>"
    have run: "promote_to_immutable_block H r s = (Inr i, ?s)"
      using None rc by (simp add: promote_to_immutable_block_def bind_act_def ch tb rc_get_def act_defs)
    note reg = register_ok [OF good inv rc _ ic None, of ?s "List.insert i (pc_touched s)"]
    have "only_obj r (\<lambda>b. b\<lparr>b_block_id := Some i, b_computed := b_computed b\<rparr>) s ?s"
      unfolding only_obj_def by (simp add: same)
    with that [OF run, of b_computed] reg show thesis by simp
  next
    case (Some j)
    obtain s1 where s1: "decr_refcount_hashless_block r s = (Inr (), s1)" "abs_phys s1 = ph_release i (abs_phys s)" "pc_good s1"
      "only_obj r (\<lambda>b. b\<lparr>b_block_id := None\<rparr>) s s1" "pc_cached s1 = pc_cached s" "grow s s1"
      by (rule release_step [OF good id rc _ ic rb]) auto
    have "map_of (pc_rc s1) = (map_of (pc_rc s))(i \<mapsto> 1 - 1)"
      unfolding phys_rc [symmetric] s1(2) using rc by (simp add: ph_release_def phys_rc)
    then have inv1: "held_inv H s1 hs pend" by (rule held_drop [OF inv r(1) rc _ s1(5,4)]) simp
    let ?s2 = "s1\<lparr>pc_hashless := set_block_id r (Some j) (pc_hashless s1)\<rparr>"
    have good2: "pc_good ?s2" by (rule pc_good_upd_obj [OF s1(3) same_ids_set_id only_obj_set_id])
    have inv2: "held_inv H ?s2 hs pend"
      by (rule held_only_obj [OF inv1 r(1) only_obj_set_id]) (simp_all add: set_block_id_def)
    have rb2: "r < length (na_heap (pc_hashless ?s2))" using rb s1(4) by (simp add: set_block_id_def only_obj_def)
    have id2: "b_block_id (pc_obj ?s2 r) = Some j" using rb2 by (simp add: set_block_id_def)
    have c2: "map_of (pc_cached ?s2) h = Some j" using Some s1(5) by simp
    obtain s3 where s3: "incr_refcount_cached_block r ?s2 = (Inr (), s3)" "pc_good s3" "held_inv H s3 hs (pend(j := Suc (pend j)))"
      "only_obj r (\<lambda>b. b\<lparr>b_computed := True\<rparr>) ?s2 s3" "pc_cached s3 = pc_cached ?s2" "grow ?s2 s3"
      by (rule share_ok [OF good2 inv2 r(1) rb2 id2 c2])
    have id3: "the_block_id r s3 = (Inr j, s3)" using s3(4) rb2 id2 by (simp add: only_obj_def the_block_id_def)
    have run: "promote_to_immutable_block H r s = (Inr j, s3)"
      using Some rc s1(1,5) s3(1) id3
      by (simp add: promote_to_immutable_block_def bind_act_def ch tb rc_get_def act_defs dict_item_def set_id_run)
    have "only_obj r (\<lambda>b. b\<lparr>b_block_id := Some j, b_computed := True\<rparr>) s s3"
      using s3(4) s1(4) rb by (simp add: only_obj_def set_block_id_def upd_obj_def)
    moreover have "grow s s3"
      by (rule grow_trans [OF s1(6) grow_trans [OF same_ids_grow [OF same_ids_set_id] s3(6)]])
    ultimately show thesis using that [OF run s3(2,3), of "\<lambda>_. True"] c2 s3(5) by simp
  qed
qed

lemma seal_back:
  assumes inv: "held_inv H s (remove1 r hs) (pend(j := Suc (pend j)))" and r: "r \<in> set hs" "r \<notin> set (remove1 r hs)" "owned s r"
    and ok: "blk_ok H s (pc_obj s r)" and id: "b_block_id (pc_obj s r) = Some j"
  shows "held_inv H s hs pend"
  by (rule held_reinsert [OF held_add [OF inv r(3,2) ok id] r(1)]) auto

definition frame_but :: "ref \<Rightarrow> pc_alloc \<Rightarrow> pc_alloc \<Rightarrow> bool" where
  "frame_but r s s' \<longleftrightarrow> na_all (pc_hashless s') = na_all (pc_hashless s) \<and> na_block_size (pc_hashless s') = na_block_size (pc_hashless s)
     \<and> (\<forall>q. owned s q \<longrightarrow> owned s' q \<and> (q \<noteq> r \<longrightarrow> pc_obj s' q = pc_obj s q))"

lemma only_obj_frame_but:
  "only_obj r f s s' \<Longrightarrow> (\<And>b. b_pool_id (f b) = b_pool_id b) \<Longrightarrow> frame_but r s s'"
  using only_obj_owned [of r f s s'] by (simp add: frame_but_def only_obj_def)

lemma only_obj_trans:
  "only_obj r f s s' \<Longrightarrow> only_obj r g s' s'' \<Longrightarrow> only_obj r (\<lambda>b. g (f b)) s s''"
  by (cases "r < length (na_heap (pc_hashless s))") (simp_all add: only_obj_def upd_obj_def list_update_beyond)

text \<open>The part of \<open>append_token_ids\<close> before the hash is looked at: tokens and totals of the one object.\<close>

lemma append_tokens_run:
  assumes good: "pc_good s" and own: "owned s r" and fil: "filling s (pc_obj s r) i" and id: "b_block_id (pc_obj s r) = Some i"
    and bs: "b_block_size (pc_obj s r) = na_block_size (pc_hashless s)"
    and fits: "length (b_token_ids (pc_obj s r)) + length toks \<le> na_block_size (pc_hashless s)" and ne: "toks \<noteq> []"
  obtains s1 n where "pc_append_token_ids H toks r s = bind_act (content_hash_of H r) (\<lambda>ch.
      if ch = None then ret () else bind_act (promote_to_immutable_block H r) (\<lambda>i. set_id r (Some i))) s1"
    "only_obj r (\<lambda>b. b\<lparr>b_token_ids := b_token_ids b @ toks, b_num_tokens_total := n\<rparr>) s s1" "same_ids s s1"
proof -
  let ?hl = "pc_hashless s"
  have rb: "r < length (na_heap ?hl)" by (rule owned_bound [OF good own])
  let ?hp1 = "upd_obj r (\<lambda>b. b\<lparr>b_token_ids := b_token_ids b @ toks\<rparr>) (na_heap ?hl)"
  let ?s1 = "s\<lparr>pc_hashless := ?hl\<lparr>na_heap := ?hp1\<rparr>\<rparr>"
  let ?n = "prev_total ?hp1 (b_prev (pc_obj s r)) + length (b_token_ids (pc_obj s r) @ toks)"
  let ?hp2 = "upd_obj r (\<lambda>b. b\<lparr>b_token_ids := b_token_ids b @ toks, b_num_tokens_total := ?n\<rparr>) (na_heap ?hl)"
  let ?s2 = "s\<lparr>pc_hashless := ?hl\<lparr>na_heap := ?hp2\<rparr>\<rparr>"
  have ch: "content_hash_of H r s = (Inr None, s)"
    by (rule content_hash_not_full) (use fil bs in \<open>simp_all add: filling_def b_is_full_def\<close>)
  have app: "hashless (with_heap (append_no_cow toks r)) s = (Inr (), ?s1)"
    using fits ne bs by (simp add: lens_defs append_no_cow_def)
  have obj1: "pc_obj ?s1 r = (pc_obj s r)\<lparr>b_token_ids := b_token_ids (pc_obj s r) @ toks\<rparr>" using rb by simp
  have cow: "pc_cow_block r ?s1 = (Inr i, ?s1)"
    using fil id rb by (simp add: pc_cow_block_def the_block_id_def bind_act_def is_appendable_def rc_get_def filling_def ret_def)
  have same: "set_block_id r (Some i) (?hl\<lparr>na_heap := ?hp1\<rparr>) = ?hl\<lparr>na_heap := ?hp1\<rparr>"
  proof -
    have "b\<lparr>b_token_ids := x, b_block_id := Some i\<rparr> = b\<lparr>b_token_ids := x\<rparr>" if "b_block_id b = Some i" for b x
      using that by (cases b) simp
    from this [OF id] show ?thesis using rb by (simp add: set_block_id_def upd_obj_def)
  qed
  have tot: "hashless (with_heap (modify (update_num_tokens_total r))) ?s1 = (Inr (), ?s2)"
    using rb by (simp add: lens_defs modify_def update_num_tokens_total_def upd_obj_def)
  have "pc_append_token_ids H toks r s = bind_act (content_hash_of H r) (\<lambda>ch.
      if ch = None then ret () else bind_act (promote_to_immutable_block H r) (\<lambda>i. set_id r (Some i))) ?s2"
    using fil ne id rb unfolding pc_append_token_ids_def
    by (simp add: bind_act_def [of "content_hash_of H r" _ s] ch bind_act_def [of "hashless (with_heap (append_no_cow toks r))"] app
        filling_def bind_act_def [of "bind_act (pc_cow_block r) _"] bind_act_def [of "pc_cow_block r"] cow set_id_run same
        bind_act_def [of "hashless (with_heap (modify (update_num_tokens_total r)))"] tot)
  moreover have "only_obj r (\<lambda>b. b\<lparr>b_token_ids := b_token_ids b @ toks, b_num_tokens_total := ?n\<rparr>) s ?s2"
    by (simp add: only_obj_def)
  moreover have "same_ids s ?s2" by (simp add: same_ids_def)
  ultimately show thesis by (rule that)
qed

text \<open>The hash of a full block whose predecessor is held.\<close>

definition prev_held :: "pc_alloc \<Rightarrow> ref list \<Rightarrow> ref \<Rightarrow> bool" where
  "prev_held s hs r \<longleftrightarrow> (\<forall>p. b_prev (pc_obj s r) = Some p \<longrightarrow> p \<in> set hs)"

definition block_hash_in :: "(string \<Rightarrow> int) \<Rightarrow> pc_alloc \<Rightarrow> ref option \<Rightarrow> int list \<Rightarrow> int option \<Rightarrow> int" where
  "block_hash_in H s prev toks extra =
     hash_block_tokens H (prev = None) (case prev of None \<Rightarrow> Some NONE_HASH | Some p \<Rightarrow> b_cached_hash (pc_obj s p)) toks extra"

lemma block_hash_in_cong:
  "(\<And>p. prev = Some p \<Longrightarrow> pc_obj s' p = pc_obj s p) \<Longrightarrow> block_hash_in H s' prev toks extra = block_hash_in H s prev toks extra"
  by (cases prev) (simp_all add: block_hash_in_def)

lemma hash_run:
  assumes good: "pc_good s" and inv: "held_inv H s hs pend" and nn: "no_none H" and own: "owned s r"
    and h: "b_cached_hash (pc_obj s r) = None" "b_is_full (pc_obj s r)" and prev: "prev_held s hs r"
  obtains h s' where "content_hash_of H r s = (Inr (Some h), s')" "only_obj r (\<lambda>b. b\<lparr>b_cached_hash := Some h\<rparr>) s s'"
    "same_ids s s'" "pc_good s'" "h \<noteq> NONE_HASH" "\<exists>f ph. h = hash_block_tokens H f ph (b_token_ids (pc_obj s r)) (b_extra_hash (pc_obj s r))"
    "h = block_hash_in H s (b_prev (pc_obj s r)) (b_token_ids (pc_obj s r)) (b_extra_hash (pc_obj s r))"
proof -
  define h where "h = fresh_hash H (na_heap (pc_hashless s)) r"
  let ?s = "s\<lparr>pc_hashless := (pc_hashless s)\<lparr>na_heap := upd_obj r (\<lambda>b. b\<lparr>b_cached_hash := Some h\<rparr>) (na_heap (pc_hashless s))\<rparr>\<rparr>"
  have pv: "settled (pc_obj s p) \<and> b_cached_hash (pc_obj s p) \<noteq> Some NONE_HASH" if "b_prev (pc_obj s r) = Some p" for p
    using prev that held_inv_blk [OF inv, of p] blk_ok_settled blk_ok_hash_not_none unfolding prev_held_def by metis
  have "\<exists>m. Suc (length (na_heap (pc_hashless s))) = Suc (Suc m)"
    using pool_ok_nonempty [OF pc_good_pool [OF good]] by (metis Suc_pred)
  then have "content_hash_of H r s = (Inr (Some h), ?s)"
    using content_hash_fresh [of "na_heap (pc_hashless s)" r H] h pv
    by (auto simp: content_hash_of_def lens_defs h_def simp del: block_content_hash.simps)
  moreover have o1: "only_obj r (\<lambda>b. b\<lparr>b_cached_hash := Some h\<rparr>) s ?s" by (simp add: only_obj_def)
  moreover have same: "same_ids s ?s" by (simp add: same_ids_def)
  moreover have "h \<noteq> NONE_HASH" using nn by (simp add: h_def fresh_hash_def hash_block_tokens_def Let_def no_none_def)
  moreover have "\<exists>f ph. h = hash_block_tokens H f ph (b_token_ids (pc_obj s r)) (b_extra_hash (pc_obj s r))"
    unfolding h_def fresh_hash_def by blast
  moreover have "h = block_hash_in H s (b_prev (pc_obj s r)) (b_token_ids (pc_obj s r)) (b_extra_hash (pc_obj s r))"
    by (simp add: h_def fresh_hash_def block_hash_in_def)
  ultimately show thesis using that pc_good_upd_obj [OF good same o1] by blast
qed

text \<open>A full block is hashed and promoted.\<close>

lemma seal_ok:
  assumes good: "pc_good s" and inv: "held_inv H s hs (pend(i := Suc (pend i)))" and nn: "no_none H"
    and r: "r \<notin> set hs" "owned s r" and id: "b_block_id (pc_obj s r) = Some i" and rc: "map_of (pc_rc s) i = Some 1"
    and ic: "i \<notin> ran (map_of (pc_cached s))" and h: "b_cached_hash (pc_obj s r) = None" "b_is_full (pc_obj s r)"
    and bs: "b_block_size (pc_obj s r) = na_block_size (pc_hashless s)" and prev: "prev_held s hs r"
  obtains j s' f where "bind_act (content_hash_of H r) (\<lambda>ch. if ch = None then ret ()
      else bind_act (promote_to_immutable_block H r) (\<lambda>i. set_id r (Some i))) s = (Inr (), s')"
    "pc_good s'" "held_inv H s' hs (pend(j := Suc (pend j)))" "blk_ok H s' (pc_obj s' r)" "b_block_id (pc_obj s' r) = Some j"
    "only_obj r f s s'" "\<And>b. b_pool_id (f b) = b_pool_id b" "\<And>b. b_token_ids (f b) = b_token_ids b" "\<And>b. b_prev (f b) = b_prev b"
    "grow s s'" "\<And>b. b_cached_hash (f b) = Some (block_hash_in H s (b_prev (pc_obj s r)) (b_token_ids (pc_obj s r)) (b_extra_hash (pc_obj s r)))"
proof -
  obtain h s1 where ch: "content_hash_of H r s = (Inr (Some h), s1)" and o1: "only_obj r (\<lambda>b. b\<lparr>b_cached_hash := Some h\<rparr>) s s1"
    and same: "same_ids s s1" and good1: "pc_good s1" and hn: "h \<noteq> NONE_HASH"
    and hk: "\<exists>f ph. h = hash_block_tokens H f ph (b_token_ids (pc_obj s r)) (b_extra_hash (pc_obj s r))"
    and hx: "h = block_hash_in H s (b_prev (pc_obj s r)) (b_token_ids (pc_obj s r)) (b_extra_hash (pc_obj s r))"
    by (rule hash_run [OF good inv nn r(2) h prev])
  have inv1: "held_inv H s1 hs (pend(i := Suc (pend i)))"
    by (rule held_only_obj [OF inv r(1) o1]) (use same in \<open>simp_all add: same_ids_def\<close>)
  have own1: "owned s1 r" using only_obj_owned [OF o1] r(2) by simp
  have obj1: "pc_obj s1 r = (pc_obj s r)\<lparr>b_cached_hash := Some h\<rparr>" by (rule only_obj_same [OF o1 owned_bound [OF good r(2)]])
  obtain j s2 c where pr: "promote_to_immutable_block H r s1 = (Inr j, s2)" and good2: "pc_good s2"
    and inv2: "held_inv H s2 hs (pend(j := Suc (pend j)))" and c2: "map_of (pc_cached s2) h = Some j"
    and o2: "only_obj r (\<lambda>b. b\<lparr>b_block_id := Some j, b_computed := c b\<rparr>) s1 s2" and ps: "grow s1 s2"
    by (rule promote_ok [OF good1 inv1 r(1) own1, of h]) (use obj1 id rc ic same in \<open>simp_all add: same_ids_def\<close>)
  have obj2: "pc_obj s2 r = (pc_obj s1 r)\<lparr>b_block_id := Some j, b_computed := c (pc_obj s1 r)\<rparr>"
    by (rule only_obj_same [OF o2 owned_bound [OF good1 own1]])
  have id2: "b_block_id (pc_obj s2 r) = Some j" unfolding obj2 by simp
  then have "(pc_obj s2 r)\<lparr>b_block_id := Some j\<rparr> = pc_obj s2 r" by (cases "pc_obj s2 r") simp
  then have "set_block_id r (Some j) (pc_hashless s2) = pc_hashless s2" by (simp add: set_block_id_def upd_obj_def)
  then have run: "bind_act (content_hash_of H r) (\<lambda>ch. if ch = None then ret ()
      else bind_act (promote_to_immutable_block H r) (\<lambda>i. set_id r (Some i))) s = (Inr (), s2)"
    by (simp add: bind_act_def ch pr set_id_run)
  have bs2: "na_block_size (pc_hashless s2) = na_block_size (pc_hashless s)" using o1 o2 by (simp add: only_obj_def)
  have "sealed H s2 (pc_obj s2 r) j"
    using c2 hn hk bs2 h(2) bs unfolding sealed_def obj2 obj1 by (simp add: b_is_full_def)
  moreover have "b_block_size (pc_obj s2 r) = na_block_size (pc_hashless s2)" unfolding obj2 obj1 bs2 using bs by simp
  ultimately have "blk_ok H s2 (pc_obj s2 r)" using id2 by (simp add: blk_ok_def)
  from that [OF run good2 inv2 this id2 only_obj_trans [OF o1 o2]] grow_trans [OF same_ids_grow [OF same] ps] hx show thesis by simp
qed

lemma append_ok:
  assumes good: "pc_good s" and inv: "held_inv H s hs pend" and r: "r \<in> set hs" and nn: "no_none H"
    and fil: "b_cached_hash (pc_obj s r) = None"
    and fits: "length (b_token_ids (pc_obj s r)) + length toks \<le> na_block_size (pc_hashless s)" and ne: "toks \<noteq> []"
    and prev: "prev_held s (remove1 r hs) r"
  obtains s' where "pc_append_token_ids H toks r s = (Inr (), s')" "pc_good s'" "held_inv H s' hs pend" "frame_but r s s'"
    "b_token_ids (pc_obj s' r) = b_token_ids (pc_obj s r) @ toks" "b_prev (pc_obj s' r) = b_prev (pc_obj s r)"
    "grow s s'" "length (b_token_ids (pc_obj s r)) + length toks = na_block_size (pc_hashless s) \<Longrightarrow> b_cached_hash (pc_obj s' r)
       = Some (block_hash_in H s (b_prev (pc_obj s r)) (b_token_ids (pc_obj s r) @ toks) (b_extra_hash (pc_obj s r)))"
proof -
  obtain i where id: "b_block_id (pc_obj s r) = Some i" and fl: "filling s (pc_obj s r) i"
    using held_inv_blk [OF inv r] fil by (auto simp: blk_ok_def sealed_def)
  have own: "owned s r" by (rule held_inv_owned [OF inv r])
  have bsz: "b_block_size (pc_obj s r) = na_block_size (pc_hashless s)" using held_inv_blk [OF inv r] by (simp add: blk_ok_def)
  have rb: "r < length (na_heap (pc_hashless s))" by (rule owned_bound [OF good own])
  have nin: "r \<notin> set (remove1 r hs)" using inv by (simp add: held_inv_def)
  obtain s1 n where run: "pc_append_token_ids H toks r s = bind_act (content_hash_of H r) (\<lambda>ch.
      if ch = None then ret () else bind_act (promote_to_immutable_block H r) (\<lambda>i. set_id r (Some i))) s1"
    and o1: "only_obj r (\<lambda>b. b\<lparr>b_token_ids := b_token_ids b @ toks, b_num_tokens_total := n\<rparr>) s s1" and same1: "same_ids s s1"
    by (rule append_tokens_run [OF good own fl id bsz fits ne])
  have good1: "pc_good s1" by (rule pc_good_upd_obj [OF good same1 o1])
  have inv1: "held_inv H s1 (remove1 r hs) (pend(i := Suc (pend i)))"
    by (rule held_only_obj [OF held_remove [OF inv r id] nin o1]) (use same1 in \<open>simp_all add: same_ids_def\<close>)
  have own1: "owned s1 r" using only_obj_owned [OF o1] own by simp
  have obj1: "pc_obj s1 r = (pc_obj s r)\<lparr>b_token_ids := b_token_ids (pc_obj s r) @ toks, b_num_tokens_total := n\<rparr>"
    by (rule only_obj_same [OF o1 rb])
  have bs1: "na_block_size (pc_hashless s1) = na_block_size (pc_hashless s)" using o1 by (simp add: only_obj_def)
  have rc1: "map_of (pc_rc s1) i = Some 1" "i \<notin> ran (map_of (pc_cached s1))"
    using fl same1 by (simp_all add: filling_def same_ids_def)
  show thesis
  proof (cases "b_is_full (pc_obj s1 r)")
    case False
    have ch: "content_hash_of H r s1 = (Inr None, s1)" by (rule content_hash_not_full) (use False fil obj1 in simp_all)
    then have "pc_append_token_ids H toks r s = (Inr (), s1)" unfolding run by (simp add: bind_act_def ret_def)
    moreover have "blk_ok H s1 (pc_obj s1 r)"
      using False rc1 fl id bsz bs1 fits unfolding blk_ok_def filling_def b_is_full_def obj1 by auto
    from seal_back [OF inv1 r nin own1 this] have "held_inv H s1 hs pend" using obj1 id by simp
    moreover have "length (b_token_ids (pc_obj s r)) + length toks \<noteq> na_block_size (pc_hashless s)"
      using False obj1 bsz by (simp add: b_is_full_def)
    ultimately show thesis using that [of s1] good1 only_obj_frame_but [OF o1] obj1 same_ids_grow [OF same1] by simp
  next
    case True
    have pv: "prev_held s1 (remove1 r hs) r" using prev obj1 by (simp add: prev_held_def)
    obtain j s2 f where seal: "bind_act (content_hash_of H r) (\<lambda>ch. if ch = None then ret ()
        else bind_act (promote_to_immutable_block H r) (\<lambda>i. set_id r (Some i))) s1 = (Inr (), s2)"
      and good2: "pc_good s2" and inv2: "held_inv H s2 (remove1 r hs) (pend(j := Suc (pend j)))" and ok2: "blk_ok H s2 (pc_obj s2 r)"
      and id2: "b_block_id (pc_obj s2 r) = Some j" and o2: "only_obj r f s1 s2"
      and f: "\<And>b. b_pool_id (f b) = b_pool_id b" "\<And>b. b_token_ids (f b) = b_token_ids b" "\<And>b. b_prev (f b) = b_prev b"
      and ps: "grow s1 s2"
      and hx: "\<And>b. b_cached_hash (f b) = Some (block_hash_in H s1 (b_prev (pc_obj s1 r)) (b_token_ids (pc_obj s1 r)) (b_extra_hash (pc_obj s1 r)))"
      by (rule seal_ok [OF good1 inv1 nn nin own1 _ rc1 _ True _ pv]) (use obj1 id fil bsz bs1 in auto)
    have own2: "owned s2 r" using only_obj_owned [OF o2 f(1)] own1 by simp
    have "held_inv H s2 hs pend" by (rule seal_back [OF inv2 r nin own2 ok2 id2])
    moreover have "frame_but r s s2" by (rule only_obj_frame_but [OF only_obj_trans [OF o1 o2]]) (simp add: f)
    moreover have "pc_obj s2 r = f (pc_obj s1 r)" by (rule only_obj_same [OF o2 owned_bound [OF good1 own1]])
    moreover have "block_hash_in H s1 (b_prev (pc_obj s r)) ts ex = block_hash_in H s (b_prev (pc_obj s r)) ts ex" for ts ex
    proof (rule block_hash_in_cong)
      fix p assume "b_prev (pc_obj s r) = Some p"
      then have "p \<noteq> r" using prev nin by (auto simp: prev_held_def)
      then show "pc_obj s1 p = pc_obj s p" by (rule only_obj_other [OF o1])
    qed
    ultimately show thesis using hx that [of s2] run seal good2 obj1 f grow_trans [OF same_ids_grow [OF same1] ps] by simp
  qed
qed

lemma metric_irrelevant [simp]:
  "pc_good (s\<lparr>pc_metric := m\<rparr>) = pc_good s" "owned (s\<lparr>pc_metric := m\<rparr>) = owned s"
  "held_inv H (s\<lparr>pc_metric := m\<rparr>) hs pend = held_inv H s hs pend" "frame s0 (s\<lparr>pc_metric := m\<rparr>) = frame s0 s"
  "frame (s\<lparr>pc_metric := m\<rparr>) s0 = frame s s0"
proof -
  show o1: "owned (s\<lparr>pc_metric := m\<rparr>) = owned s" by (simp add: owned_def fun_eq_iff)
  show "pc_good (s\<lparr>pc_metric := m\<rparr>) = pc_good s" by (simp add: pc_good_def pc_wf_def abs_phys_def)
  show "held_inv H (s\<lparr>pc_metric := m\<rparr>) hs pend = held_inv H s hs pend"
    unfolding held_inv_def blk_ok_def filling_def sealed_def holders_def o1 by simp
  show "frame s0 (s\<lparr>pc_metric := m\<rparr>) = frame s0 s" "frame (s\<lparr>pc_metric := m\<rparr>) s0 = frame s s0"
    by (simp_all add: frame_def o1)
qed

lemma metric_phys [simp]: "abs_phys (s\<lparr>pc_metric := m\<rparr>) = abs_phys s"
  by (simp add: abs_phys_def)

lemma query_metric_run: "query_metric hit s = (Inr (), s\<lparr>pc_metric := cm_query hit (pc_metric s)\<rparr>)"
  by (simp add: query_metric_def modify_def)

text \<open>A cached block is found: the new object gets its identifier and one more reference.\<close>

lemma cache_hit_ok:
  assumes good: "pc_good s" and inv: "held_inv H s hs pend" and r: "r \<notin> set hs" "owned s r" and c: "map_of (pc_cached s) h = Some i"
    and h: "b_cached_hash (pc_obj s r) = Some h" "h \<noteq> NONE_HASH" "length (b_token_ids (pc_obj s r)) = na_block_size (pc_hashless s)"
      "\<exists>f ph. h = hash_block_tokens H f ph (b_token_ids (pc_obj s r)) (b_extra_hash (pc_obj s r))"
      "b_block_size (pc_obj s r) = na_block_size (pc_hashless s)"
  obtains s' f where "bind_act (set_id r (Some i)) (\<lambda>_. bind_act (incr_refcount_cached_block r) (\<lambda>_. ret r)) s = (Inr r, s')"
    "pc_good s'" "held_inv H s' (r # hs) pend" "only_obj r f s s'" "\<And>b. b_pool_id (f b) = b_pool_id b"
    "\<And>b. b_token_ids (f b) = b_token_ids b" "\<And>b. b_prev (f b) = b_prev b" "grow s s'"
    "\<And>b. b_cached_hash (f b) = b_cached_hash b"
proof -
  let ?s1 = "s\<lparr>pc_hashless := set_block_id r (Some i) (pc_hashless s)\<rparr>"
  have good1: "pc_good ?s1" by (rule pc_good_upd_obj [OF good same_ids_set_id only_obj_set_id])
  have inv1: "held_inv H ?s1 hs pend" by (rule held_only_obj [OF inv r(1) only_obj_set_id]) (simp_all add: set_block_id_def)
  have own1: "owned ?s1 r" using only_obj_owned [OF only_obj_set_id [of r "Some i" s]] r(2) by simp
  have obj1: "pc_obj ?s1 r = (pc_obj s r)\<lparr>b_block_id := Some i\<rparr>" by (rule only_obj_same [OF only_obj_set_id owned_bound [OF good r(2)]])
  have id1: "b_block_id (pc_obj ?s1 r) = Some i" unfolding obj1 by simp
  have c1: "map_of (pc_cached ?s1) h = Some i" using c by simp
  obtain s2 where s2: "incr_refcount_cached_block r ?s1 = (Inr (), s2)" "pc_good s2" "held_inv H s2 hs (pend(i := Suc (pend i)))"
    "only_obj r (\<lambda>b. b\<lparr>b_computed := True\<rparr>) ?s1 s2" "pc_cached s2 = pc_cached ?s1" "grow ?s1 s2"
    by (rule share_ok [OF good1 inv1 r(1) owned_bound [OF good1 own1] id1 c1])
  have obj2: "pc_obj s2 r = (pc_obj s r)\<lparr>b_block_id := Some i, b_computed := True\<rparr>"
    unfolding only_obj_same [OF s2(4) owned_bound [OF good1 own1]] obj1 by simp
  have bs2: "na_block_size (pc_hashless s2) = na_block_size (pc_hashless s)"
    using s2(4) by (simp add: only_obj_def set_block_id_def)
  have "sealed H s2 (pc_obj s2 r) i" unfolding sealed_def obj2 bs2 using h c s2(5) by simp
  then have ok: "blk_ok H s2 (pc_obj s2 r)" unfolding blk_ok_def using h(5) bs2 obj2 by simp
  have own2: "owned s2 r" using only_obj_owned [OF s2(4)] own1 by simp
  have "held_inv H s2 (r # hs) pend" by (rule held_add [OF s2(3) own2 r(1) ok, of i]) (simp_all add: obj2)
  moreover have "bind_act (set_id r (Some i)) (\<lambda>_. bind_act (incr_refcount_cached_block r) (\<lambda>_. ret r)) s = (Inr r, s2)"
    by (simp add: bind_act_def set_id_run s2(1) ret_def)
  ultimately show thesis using that [of s2 "\<lambda>b. b\<lparr>b_block_id := Some i, b_computed := True\<rparr>"] s2(2) only_obj_trans [OF only_obj_set_id s2(4)]
    grow_trans [OF same_ids_grow [OF same_ids_set_id] s2(6)] by simp
qed

text \<open>No cached block: a new block is taken, filled and promoted.\<close>

lemma cache_miss_ok:
  assumes good: "pc_good s" and inv: "held_inv H s hs pend" and nn: "no_none H" and bs: "0 < na_block_size (pc_hashless s)"
    and toks: "length toks = na_block_size (pc_hashless s)" and prev: "\<And>p. prev = Some p \<Longrightarrow> p \<in> set hs"
    and run: "bind_act (pc_allocate_mutable_block H prev extra) (\<lambda>r2. bind_act (pc_append_token_ids H toks r2) (\<lambda>_. ret r2)) s = (Inr r, s')"
  shows "pc_good s' \<and> held_inv H s' (r # hs) pend \<and> frame s s' \<and> b_token_ids (pc_obj s' r) = toks \<and> b_prev (pc_obj s' r) = prev
    \<and> grow s s' \<and> b_cached_hash (pc_obj s' r) = Some (block_hash_in H s prev toks extra)"
proof -
  have po: "owned s p" if "prev = Some p" for p using prev [OF that] held_inv_owned [OF inv] by blast
  obtain s1 where al: "pc_allocate_mutable_block H prev extra s = (Inr r, s1)" and ap: "pc_append_token_ids H toks r s1 = (Inr (), s')"
    using run by (auto simp: bind_act_Inr_iff ret_def)
  obtain i where good1: "pc_good s1" and inv1: "held_inv H s1 (r # hs) pend" and fr1: "frame s s1"
    and obj1: "b_token_ids (pc_obj s1 r) = []" "b_prev (pc_obj s1 r) = prev" "b_extra_hash (pc_obj s1 r) = extra" and fil: "filling s1 (pc_obj s1 r) i"
    and new: "\<not> owned s r" and ps: "grow s s1"
    by (rule alloc_mutable_ok [OF good inv bs po al])
  have nin: "r \<notin> set hs" using inv1 by (simp add: held_inv_def)
  obtain s2 where ap': "pc_append_token_ids H toks r s1 = (Inr (), s2)" "pc_good s2" "held_inv H s2 (r # hs) pend" "frame_but r s1 s2"
    "b_token_ids (pc_obj s2 r) = b_token_ids (pc_obj s1 r) @ toks" "b_prev (pc_obj s2 r) = b_prev (pc_obj s1 r)"
    "grow s1 s2" "length (b_token_ids (pc_obj s1 r)) + length toks = na_block_size (pc_hashless s1) \<Longrightarrow> b_cached_hash (pc_obj s2 r)
       = Some (block_hash_in H s1 (b_prev (pc_obj s1 r)) (b_token_ids (pc_obj s1 r) @ toks) (b_extra_hash (pc_obj s1 r)))"
  proof (rule append_ok [OF good1 inv1 _ nn, of r toks])
    show "prev_held s1 (remove1 r (r # hs)) r" using obj1 prev by (simp add: prev_held_def)
    show "b_cached_hash (pc_obj s1 r) = None" using fil by (simp add: filling_def)
    show "length (b_token_ids (pc_obj s1 r)) + length toks \<le> na_block_size (pc_hashless s1)"
      using obj1 toks fr1 by (simp add: frame_def)
  qed (use toks bs in auto)
  have "frame s s2" using fr1 ap'(4) new unfolding frame_def frame_but_def by metis
  moreover have "block_hash_in H s1 prev toks extra = block_hash_in H s prev toks extra"
    using fr1 po by (intro block_hash_in_cong) (auto simp: frame_def)
  moreover have "na_block_size (pc_hashless s1) = length toks" using fr1 toks by (simp add: frame_def)
  ultimately show ?thesis using ap ap' obj1 grow_trans [OF ps] by simp
qed


lemma cache_miss_exhausted:
  assumes good: "pc_good s" and inv: "held_inv H s hs pend" and nn: "no_none H" and bs: "0 < na_block_size (pc_hashless s)"
    and toks: "length toks = na_block_size (pc_hashless s)" and prev: "\<And>p. prev = Some p \<Longrightarrow> p \<in> set hs"
    and run: "bind_act (pc_allocate_mutable_block H prev extra) (\<lambda>r2. bind_act (pc_append_token_ids H toks r2) (\<lambda>_. ret r2)) s
      = (Inl NoFreeBlocksError, s')"
  shows "s' = s \<and> pc_num_free_blocks s = 0"
proof (cases "pc_allocate_mutable_block H prev extra s")
  case (Pair x s1)
  have po: "owned s p" if "prev = Some p" for p using prev [OF that] held_inv_owned [OF inv] by blast
  show ?thesis
  proof (cases x)
    case (Inl e)
    with Pair run have "pc_allocate_mutable_block H prev extra s = (Inl NoFreeBlocksError, s')" by (simp add: bind_act_def)
    then show ?thesis using alloc_mutable_exhausted [OF good bs, of prev] po by blast
  next
    case (Inr r)
    with Pair have al: "pc_allocate_mutable_block H prev extra s = (Inr r, s1)" by simp
    obtain i where good1: "pc_good s1" and inv1: "held_inv H s1 (r # hs) pend" and fr1: "frame s s1"
      and obj1: "b_token_ids (pc_obj s1 r) = []" "b_prev (pc_obj s1 r) = prev" and fil: "filling s1 (pc_obj s1 r) i"
      by (rule alloc_mutable_ok [OF good inv bs po al])
    obtain s2 where "pc_append_token_ids H toks r s1 = (Inr (), s2)"
      by (rule append_ok [OF good1 inv1 _ nn, of r toks])
        (use obj1 prev fil toks bs fr1 in \<open>auto simp: prev_held_def filling_def frame_def\<close>)
    with run al show ?thesis by (simp add: bind_act_def ret_def)
  qed
qed

lemma cache_miss_error:
  assumes good: "pc_good s" and inv: "held_inv H s hs pend" and nn: "no_none H" and bs: "0 < na_block_size (pc_hashless s)"
    and toks: "length toks = na_block_size (pc_hashless s)" and prev: "\<And>p. prev = Some p \<Longrightarrow> p \<in> set hs" and ev: "ev_ok (pc_evictor s)"
    and run: "bind_act (pc_allocate_mutable_block H prev extra) (\<lambda>r2. bind_act (pc_append_token_ids H toks r2) (\<lambda>_. ret r2)) s = (Inl e, s')"
  shows "e = NoFreeBlocksError"
proof (cases "pc_num_free_blocks s = 0")
  case True
  with run show ?thesis by (simp add: bind_act_def alloc_mutable_empty)
next
  case False
  have po: "owned s p" if "prev = Some p" for p using prev [OF that] held_inv_owned [OF inv] by blast
  obtain j s0 where "pc_allocate_block_id s = (Inr j, s0)" by (rule alloc_id_complete [OF good ev]) (use False in simp)
  from alloc_mutable_of_id [OF good bs po this] obtain r s1 where al: "pc_allocate_mutable_block H prev extra s = (Inr r, s1)" by blast
  obtain i where good1: "pc_good s1" and inv1: "held_inv H s1 (r # hs) pend" and fr1: "frame s s1"
    and obj1: "b_token_ids (pc_obj s1 r) = []" "b_prev (pc_obj s1 r) = prev" and fil: "filling s1 (pc_obj s1 r) i"
    by (rule alloc_mutable_ok [OF good inv bs po al])
  obtain s2 where "pc_append_token_ids H toks r s1 = (Inr (), s2)"
    by (rule append_ok [OF good1 inv1 _ nn, of r toks])
      (use obj1 prev fil toks bs fr1 in \<open>auto simp: prev_held_def filling_def frame_def\<close>)
  with run al show ?thesis by (simp add: bind_act_def ret_def)
qed

lemma frame_but_new: "frame s s1 \<Longrightarrow> frame_but r s1 s2 \<Longrightarrow> \<not> owned s r \<Longrightarrow> frame s s2"
  unfolding frame_def frame_but_def by metis

text \<open>The object made to look up the hash.\<close>

lemma probe_ok:
  assumes good: "pc_good s" and inv: "held_inv H s hs pend" and nn: "no_none H"
    and toks: "length toks = na_block_size (pc_hashless s)" and prev: "\<And>p. prev = Some p \<Longrightarrow> p \<in> set hs"
  obtains r s1 s2 h where "pc_init_block prev toks None extra s = (Inr r, s1)" "content_hash_of H r s1 = (Inr (Some h), s2)"
    "pc_good s2" "held_inv H s2 hs pend" "frame s s2" "owned s2 r" "\<not> owned s r" "r \<notin> set hs" "h \<noteq> NONE_HASH"
    "b_cached_hash (pc_obj s2 r) = Some h" "b_token_ids (pc_obj s2 r) = toks" "b_prev (pc_obj s2 r) = prev"
    "b_block_size (pc_obj s2 r) = na_block_size (pc_hashless s2)" "\<exists>f ph. h = hash_block_tokens H f ph toks (b_extra_hash (pc_obj s2 r))"
    "same_ids s s2" "h = block_hash_in H s prev toks extra"
proof -
  have po: "owned s p" if "prev = Some p" for p using prev [OF that] held_inv_owned [OF inv] by blast
  obtain r s1 k where ini: "pc_init_block prev toks None extra s = (Inr r, s1)" and good1: "pc_good s1" and fr1: "frame s s1"
    and same1: "same_ids s s1" and own1: "owned s1 r" "\<not> owned s r"
    and obj1: "pc_obj s1 r = init_blk prev toks (na_block_size (pc_hashless s)) None extra
       (prev_total (na_heap (pc_hashless s)) prev + length toks) (Some k)"
    by (rule init_ok [OF good _ po, of toks prev None extra]) (use toks in auto)
  have nin: "r \<notin> set hs" using own1(2) held_inv_owned [OF inv] by blast
  have inv1: "held_inv H s1 hs pend" by (rule held_same_ids [OF inv same1 fr1])
  obtain h s2 where ch: "content_hash_of H r s1 = (Inr (Some h), s2)" and o2: "only_obj r (\<lambda>b. b\<lparr>b_cached_hash := Some h\<rparr>) s1 s2"
    and same2: "same_ids s1 s2" and good2: "pc_good s2" and hn: "h \<noteq> NONE_HASH"
    and hk: "\<exists>f ph. h = hash_block_tokens H f ph (b_token_ids (pc_obj s1 r)) (b_extra_hash (pc_obj s1 r))"
    and hx: "h = block_hash_in H s1 (b_prev (pc_obj s1 r)) (b_token_ids (pc_obj s1 r)) (b_extra_hash (pc_obj s1 r))"
    by (rule hash_run [OF good1 inv1 nn own1(1)]) (use obj1 toks prev in \<open>auto simp: init_blk_def b_is_full_def prev_held_def\<close>)
  have inv2: "held_inv H s2 hs pend"
    by (rule held_only_obj [OF inv1 nin o2]) (use same2 in \<open>simp_all add: same_ids_def\<close>)
  have own2: "owned s2 r" using only_obj_owned [OF o2] own1(1) by simp
  have obj2: "pc_obj s2 r = (pc_obj s1 r)\<lparr>b_cached_hash := Some h\<rparr>" by (rule only_obj_same [OF o2 owned_bound [OF good1 own1(1)]])
  have bs2: "na_block_size (pc_hashless s2) = na_block_size (pc_hashless s)" using o2 fr1 by (simp add: only_obj_def frame_def)
  have fb: "frame_but r s1 s2" by (rule only_obj_frame_but [OF o2]) simp
  have "block_hash_in H s1 prev toks extra = block_hash_in H s prev toks extra"
    using fr1 po by (intro block_hash_in_cong) (auto simp: frame_def)
  with hx obj1 have hx': "h = block_hash_in H s prev toks extra" by (simp add: init_blk_def)
  from frame_but_new [OF fr1 fb own1(2)] show thesis
    using that [OF ini ch good2 inv2 _ own2 own1(2) nin hn] obj2 obj1 bs2 hk same_ids_trans [OF same1 same2] hx' by (simp add: init_blk_def)
qed

lemma alloc_immutable_ok:
  assumes good: "pc_good s" and inv: "held_inv H s hs pend" and nn: "no_none H" and bs: "0 < na_block_size (pc_hashless s)"
    and toks: "length toks = na_block_size (pc_hashless s)" and prev: "\<And>p. prev = Some p \<Longrightarrow> p \<in> set hs"
    and run: "pc_allocate_immutable_block H prev toks extra s = (x, s')"
  shows "case x of
      Inr r \<Rightarrow> pc_good s' \<and> held_inv H s' (r # hs) pend \<and> frame s s' \<and> b_token_ids (pc_obj s' r) = toks \<and> b_prev (pc_obj s' r) = prev
        \<and> grow s s' \<and> b_cached_hash (pc_obj s' r) = Some (block_hash_in H s prev toks extra)
    | Inl e \<Rightarrow> map_of (pc_cached s) (block_hash_in H s prev toks extra) = None
        \<and> (ev_ok (pc_evictor s) \<longrightarrow> e = NoFreeBlocksError) \<and> (e = NoFreeBlocksError \<longrightarrow> pc_good s' \<and> held_inv H s' hs pend \<and> frame s s' \<and> pc_num_free_blocks s' = 0
        \<and> grow s s' \<and> abs_phys s' = abs_phys s)"
proof -
  obtain r s1 s2 h where ini: "pc_init_block prev toks None extra s = (Inr r, s1)" and ch: "content_hash_of H r s1 = (Inr (Some h), s2)"
    and good2: "pc_good s2" and inv2: "held_inv H s2 hs pend" and fr2: "frame s s2" and own: "owned s2 r" "\<not> owned s r" "r \<notin> set hs"
    and h: "h \<noteq> NONE_HASH" "b_cached_hash (pc_obj s2 r) = Some h" "b_token_ids (pc_obj s2 r) = toks" "b_prev (pc_obj s2 r) = prev"
    "b_block_size (pc_obj s2 r) = na_block_size (pc_hashless s2)" "\<exists>f ph. h = hash_block_tokens H f ph toks (b_extra_hash (pc_obj s2 r))"
    and ab: "same_ids s s2" and hx: "h = block_hash_in H s prev toks extra"
    by (rule probe_ok [OF good inv nn toks prev])
  have bs2: "na_block_size (pc_hashless s2) = na_block_size (pc_hashless s)" using fr2 by (simp add: frame_def)
  let ?s3 = "\<lambda>hit. s2\<lparr>pc_metric := cm_query hit (pc_metric s2)\<rparr>"
  show ?thesis
  proof (cases "map_of (pc_cached s2) h")
    case (Some i)
    obtain s4 f where s4: "bind_act (set_id r (Some i)) (\<lambda>_. bind_act (incr_refcount_cached_block r) (\<lambda>_. ret r)) (?s3 True) = (Inr r, s4)"
      "pc_good s4" "held_inv H s4 (r # hs) pend" "only_obj r f (?s3 True) s4" "\<And>b. b_pool_id (f b) = b_pool_id b"
      "\<And>b. b_token_ids (f b) = b_token_ids b" "\<And>b. b_prev (f b) = b_prev b" "grow (?s3 True) s4" "\<And>b. b_cached_hash (f b) = b_cached_hash b"
      by (rule cache_hit_ok [of "?s3 True" H hs pend r h i]) (use good2 inv2 own Some h toks bs2 in simp_all)
    have x: "x = Inr r" "s' = s4"
      using run s4(1) Some by (simp_all add: pc_allocate_immutable_block_def bind_act_def ini ch act_defs query_metric_run)
    have "frame s (?s3 True)" using fr2 by simp
    then have "frame s s4" by (rule frame_but_new [OF _ only_obj_frame_but [OF s4(4,5)] own(2)])
    moreover have "pc_obj s4 r = f (pc_obj s2 r)"
      using only_obj_same [OF s4(4)] owned_bound [OF good2 own(1)] by simp
    moreover have "grow s s4"
      by (rule grow_trans [OF same_ids_grow s4(8)]) (use ab in \<open>simp add: same_ids_def\<close>)
    ultimately show ?thesis using s4 h x hx by simp
  next
    case None
    have g3: "pc_good (?s3 False)" "owned (?s3 False) r" using own(1) good2 by simp_all
    obtain s4 where s4: "hashless (with_pool (free_block r)) (?s3 False) = (Inr (), s4)" "pc_good s4" "same_ids (?s3 False) s4"
      "\<And>q. owned (?s3 False) q \<Longrightarrow> q \<noteq> r \<Longrightarrow> owned s4 q" "na_heap (pc_hashless s4) = na_heap (pc_hashless (?s3 False))"
      "na_all (pc_hashless s4) = na_all (pc_hashless (?s3 False))" "na_block_size (pc_hashless s4) = na_block_size (pc_hashless (?s3 False))"
      by (rule free_obj_ok [OF g3]) blast
    have inv4: "held_inv H s4 hs pend"
    proof (rule held_transfer [OF inv2])
      show "owned s4 q \<and> pc_obj s4 q = pc_obj s2 q" if "q \<in> set hs" for q
        using s4(4) [of q] s4(5) held_inv_owned [OF inv2 that] that own(3) by auto
    qed (use s4(3,7) in \<open>auto simp: same_ids_def\<close>)
    have fr4: "frame s s4" using fr2 s4(4) [simplified] s4(5-7) own(2) unfolding frame_def by (metis pc_alloc.select_convs(1) pc_alloc.update_convs(7) pc_alloc.surjective)
    have go: "bind_act (pc_allocate_mutable_block H prev extra) (\<lambda>r2. bind_act (pc_append_token_ids H toks r2) (\<lambda>_. ret r2)) s4 = (x, s')"
      using run None s4(1) by (simp add: pc_allocate_immutable_block_def bind_act_def ini ch act_defs query_metric_run)
    have ab4: "grow s s4" by (rule same_ids_grow) (use s4(3) ab in \<open>simp add: same_ids_def\<close>)
    have sa4: "same_ids s s4" using s4(3) ab by (simp add: same_ids_def)
    have hx4: "block_hash_in H s4 prev toks extra = block_hash_in H s prev toks extra"
      using fr4 prev held_inv_owned [OF inv] by (intro block_hash_in_cong) (auto simp: frame_def)
    have bs4: "na_block_size (pc_hashless s4) = na_block_size (pc_hashless s)" using s4(7) bs2 by simp
    show ?thesis
    proof (cases x)
      case (Inr r2)
      have "pc_good s' \<and> held_inv H s' (r2 # hs) pend \<and> frame s4 s' \<and> b_token_ids (pc_obj s' r2) = toks \<and> b_prev (pc_obj s' r2) = prev
          \<and> grow s4 s' \<and> b_cached_hash (pc_obj s' r2) = Some (block_hash_in H s4 prev toks extra)"
        by (rule cache_miss_ok [OF s4(2) inv4 nn _ _ prev go [unfolded Inr]]) (use bs bs4 toks in auto)
      with Inr frame_trans [OF fr4] grow_trans [OF ab4] hx4 show ?thesis by auto
    next
      case (Inl e)
      have "s' = s4 \<and> pc_num_free_blocks s4 = 0" if "e = NoFreeBlocksError"
        by (rule cache_miss_exhausted [OF s4(2) inv4 nn _ _ prev go [unfolded Inl that]]) (use bs bs4 toks in auto)
      moreover have "e = NoFreeBlocksError" if "ev_ok (pc_evictor s)"
        by (rule cache_miss_error [OF s4(2) inv4 nn _ _ prev _ go [unfolded Inl]]) (use that bs bs4 toks sa4 in \<open>auto simp: same_ids_def\<close>)
      moreover have "map_of (pc_cached s) h = None" using None ab by (simp add: same_ids_def)
      ultimately show ?thesis using Inl s4(2) inv4 fr4 ab4 hx same_ids_phys [OF sa4] by auto
    qed
  qed
qed

end
