(* ===== verification/PrefixReach.thy ===== *)
theory PrefixReach
  imports PrefixHeld
begin

text \<open>
  Histories of the prefix caching allocator and what holds after each of them. A client passes
  as predecessor only a block it holds, appends only to blocks it holds and whose predecessor it
  holds, and frees only what it holds.
\<close>

section \<open>Marking\<close>

definition ids_kept :: "pc_alloc \<Rightarrow> pc_alloc \<Rightarrow> bool" where
  "ids_kept s s' \<longleftrightarrow> pc_good s' \<and> pc_hashless s' = pc_hashless s \<and> pc_cached s' = pc_cached s \<and> abs_phys s' = abs_phys s"

lemma ids_kept_refl: "pc_good s \<Longrightarrow> ids_kept s s"
  by (simp add: ids_kept_def)

lemma ids_kept_trans: "ids_kept s s' \<Longrightarrow> ids_kept s' s'' \<Longrightarrow> ids_kept s s''"
  by (simp add: ids_kept_def)

lemma ids_kept_held:
  assumes "ids_kept s s'" "held_inv H s hs pend"
  shows "held_inv H s' hs pend"
  by (rule held_transfer [OF assms(2)])
    (use assms(1) held_inv_owned [OF assms(2)] in \<open>auto simp: ids_kept_def owned_def\<close>)

lemma set_tracker_kept:
  assumes "pc_good s" "map_of (pc_tracker s) i = Some t" "bt_active t' = bt_active t"
  shows "ids_kept s (set_tracker i t' s)"
proof -
  have "i \<in> set (na_all (pc_hashless s))" using assms(1,2) unfolding pc_good_def pc_wf_def by (metis domI)
  then have "pc_wf (set_tracker i t' s)"
    using assms unfolding pc_good_def pc_wf_def by (auto simp: insert_absorb)
  with assms(1) show ?thesis by (simp add: ids_kept_def pc_good_def)
qed

lemma ev_update_kept:
  assumes good: "pc_good s" and run: "evicting (ev_update i now) s = (Inr (), s')"
  shows "ids_kept s s'"
proof -
  obtain md where md: "map_of (ev_free_table (pc_evictor s)) i = Some md"
    and s': "s' = s\<lparr>pc_evictor := (pc_evictor s)\<lparr>ev_free_table :=
      AList.update i (md\<lparr>md_last_accessed := now\<rparr>) (ev_free_table (pc_evictor s))\<rparr>\<rparr>"
    using run by (auto simp: lens_defs ev_update_def split: option.splits prod.splits)
  have "abs_phys s' = abs_phys s" using md by (auto simp: s' abs_phys_def)
  moreover have "pc_wf s'" using good by (simp add: s' pc_good_def pc_wf_def)
  ultimately show ?thesis using good by (simp add: ids_kept_def pc_good_def s')
qed

lemma mark_accessed_kept:
  assumes "pc_good s" "mark_accessed_one now i s = (Inr (), s')"
  shows "ids_kept s s'"
proof -
  from assms(2) obtain t where t: "map_of (pc_tracker s) i = Some t"
    by (auto simp: mark_accessed_one_def bind_act_Inr_iff get_tracker_def)
  then have g: "get_tracker i s = (Inr t, s)" by (simp add: get_tracker_def dict_item_def)
  show ?thesis
  proof (cases "bt_active t")
    case True
    with assms(2) g have "s' = set_tracker i (t\<lparr>bt_last_accessed := now\<rparr>) s"
      by (simp add: mark_accessed_one_def bind_act_def modify_def)
    then show ?thesis using set_tracker_kept [OF assms(1) t] by simp
  next
    case False
    with assms(2) g have "evicting (ev_update i now) s = (Inr (), s')"
      by (auto simp: mark_accessed_one_def bind_act_def gets_def raise_def split: if_splits)
    then show ?thesis by (rule ev_update_kept [OF assms(1)])
  qed
qed

lemma mark_computed_kept:
  assumes "pc_good s" "mark_computed_one i s = (Inr (), s')"
  shows "ids_kept s s'"
proof -
  from assms(2) obtain t where "map_of (pc_tracker s) i = Some t" "s' = set_tracker i (t\<lparr>bt_computed := True\<rparr>) s"
    by (auto simp: mark_computed_one_def bind_act_Inr_iff get_tracker_def modify_def)
  then show ?thesis using set_tracker_kept [OF assms(1)] by simp
qed

lemma for_each_kept:
  assumes "\<And>x s s'. pc_good s \<Longrightarrow> f x s = (Inr (), s') \<Longrightarrow> ids_kept s s'"
  shows "pc_good s \<Longrightarrow> for_each f xs s = (Inr (), s') \<Longrightarrow> ids_kept s s'"
proof (induction xs arbitrary: s)
  case Nil
  then show ?case by (simp add: ret_def ids_kept_refl)
next
  case (Cons x xs)
  then obtain s1 where 1: "f x s = (Inr (), s1)" "for_each f xs s1 = (Inr (), s')" by (auto simp: bind_act_Inr_iff)
  have k: "ids_kept s s1" by (rule assms [OF Cons.prems(1) 1(1)])
  then have "ids_kept s1 s'" using Cons.IH [OF _ 1(2)] by (simp add: ids_kept_def)
  with k show ?case by (rule ids_kept_trans)
qed

lemma touched_irrelevant [simp]:
  "pc_wf (s\<lparr>pc_touched := u\<rparr>) \<longleftrightarrow> pc_wf s" "abs_phys (s\<lparr>pc_touched := u\<rparr>) = abs_phys s"
  by (simp_all add: pc_wf_def abs_phys_def)

lemma mark_blocks_as_computed_kept:
  assumes "pc_good s" "pc_mark_blocks_as_computed ids s = (Inr (), s')"
  shows "ids_kept s s'"
proof -
  from assms(2) obtain s1 u where run: "for_each mark_computed_one (if ids \<noteq> [] then ids else pc_touched s) s = (Inr (), s1)"
    and s': "s' = s1\<lparr>pc_touched := u\<rparr>"
    unfolding pc_mark_blocks_as_computed_def bind_act_Inr_iff modify_def by auto
  have "ids_kept s s1" by (rule for_each_kept [OF mark_computed_kept assms(1) run])
  then show ?thesis by (auto simp: s' ids_kept_def pc_good_def)
qed

section \<open>Histories\<close>

definition prev_in :: "ref option \<Rightarrow> ref list \<Rightarrow> bool" where
  "prev_in prev hs \<longleftrightarrow> (case prev of None \<Rightarrow> True | Some p \<Rightarrow> p \<in> set hs)"

inductive pc_reach :: "(string \<Rightarrow> int) \<Rightarrow> pc_alloc \<Rightarrow> ref list \<Rightarrow> bool" for H where
  new: "pc_new n bs ids [] = Inr s \<Longrightarrow> 0 < n \<Longrightarrow> 0 < bs \<Longrightarrow> (case ids of None \<Rightarrow> True | Some l \<Rightarrow> distinct l) \<Longrightarrow> pc_reach H s []"
| mutable: "pc_reach H s hs \<Longrightarrow> prev_in prev hs \<Longrightarrow> pc_allocate_mutable_block H prev extra s = (Inr r, s') \<Longrightarrow>
    pc_reach H s' (r # hs)"
| immutable: "pc_reach H s hs \<Longrightarrow> prev_in prev hs \<Longrightarrow> length toks = na_block_size (pc_hashless s) \<Longrightarrow>
    pc_allocate_immutable_block H prev toks extra s = (Inr r, s') \<Longrightarrow> pc_reach H s' (r # hs)"
| exhausted: "pc_reach H s hs \<Longrightarrow> prev_in prev hs \<Longrightarrow> length toks = na_block_size (pc_hashless s) \<Longrightarrow>
    pc_allocate_immutable_block H prev toks extra s = (Inl NoFreeBlocksError, s') \<Longrightarrow> pc_reach H s' hs"
| append: "pc_reach H s hs \<Longrightarrow> r \<in> set hs \<Longrightarrow> prev_in (b_prev (pc_obj s r)) (remove1 r hs) \<Longrightarrow>
    pc_append_token_ids H toks r s = (Inr (), s') \<Longrightarrow> pc_reach H s' hs"
| free: "pc_reach H s hs \<Longrightarrow> r \<in> set hs \<Longrightarrow> pc_free H r False s = (Inr (), s') \<Longrightarrow> pc_reach H s' (remove1 r hs)"
| accessed: "pc_reach H s hs \<Longrightarrow> pc_mark_blocks_as_accessed ids now s = (Inr (), s') \<Longrightarrow> pc_reach H s' hs"
| computed: "pc_reach H s hs \<Longrightarrow> pc_mark_blocks_as_computed ids s = (Inr (), s') \<Longrightarrow> pc_reach H s' hs"

definition pc_inv :: "(string \<Rightarrow> int) \<Rightarrow> pc_alloc \<Rightarrow> ref list \<Rightarrow> bool" where
  "pc_inv H s hs \<longleftrightarrow> pc_good s \<and> held_inv H s hs (\<lambda>_. 0) \<and> 0 < na_block_size (pc_hashless s)
     \<and> phys_step\<^sup>*\<^sup>* (ph_init (na_all (pc_hashless s))) (abs_phys s)"

lemma pc_inv_step:
  assumes "pc_inv H s hs" "pc_good s'" "held_inv H s' hs' (\<lambda>_. 0)" "phys_step\<^sup>*\<^sup>* (abs_phys s) (abs_phys s')"
    "na_block_size (pc_hashless s') = na_block_size (pc_hashless s)" "na_all (pc_hashless s') = na_all (pc_hashless s)"
  shows "pc_inv H s' hs'"
  using assms by (auto simp: pc_inv_def)

section \<open>The invariant\<close>

lemma pc_inv_prev: "pc_inv H s hs \<Longrightarrow> prev_in prev hs \<Longrightarrow> prev = Some p \<Longrightarrow> p \<in> set hs \<and> owned s p"
  by (auto simp: pc_inv_def prev_in_def held_inv_def)

lemma pc_new_inv:
  assumes "pc_new n bs ids [] = Inr s" "0 < n" "0 < bs" "case ids of None \<Rightarrow> True | Some l \<Rightarrow> distinct l"
  shows "pc_inv H s []"
proof -
  define l where "l = (case ids of None \<Rightarrow> [0..<n] | Some l \<Rightarrow> l)"
  define ph where "ph = block_pool_new bs (n * 4) []"
  have l: "distinct l" using assms(4) by (auto simp: l_def split: option.splits)
  have pool: "pool_ok (fst ph) (snd ph)" unfolding ph_def by (rule pool_ok_new) (use assms(2) in simp)
  have s: "s = \<lparr>pc_hashless = \<lparr>na_block_size = bs, na_free = l, na_all = l, na_refcounts = refcounter_new l, na_cows = [],
      na_pool = fst ph, na_heap = snd ph\<rparr>, pc_cached = [], pc_touched = [], pc_tracker = map (\<lambda>i. (i, tracker_init)) l,
      pc_evictor = evictor_new, pc_cows = [], pc_metric = cache_metric_new\<rparr>"
    using assms(1) l unfolding pc_new_def l_def [symmetric] ph_def [symmetric]
    by (auto simp: naive_new_def Let_def bind_res_Inr_iff distinct_remdups_id split: if_splits prod.splits)
  have tr: "map_of (map (\<lambda>i. (i, tracker_init)) l) i = (if i \<in> set l then Some tracker_init else None)" for i
    by (auto simp: map_of_map_restrict restrict_map_def)
  have "\<not> bt_active tracker_init" by (simp add: tracker_init_def)
  then have "pc_wf s"
    unfolding pc_wf_def s using pool l
    by (auto simp: refcounter_new_map_of tr evictor_new_def dom_def split: if_splits)
  moreover have "phys_ok (abs_phys s)"
    by (auto simp: phys_ok_def abs_phys_def s refcounter_new_map_of evictor_new_def dom_def split: if_splits)
  moreover have "held_inv H s [] (\<lambda>_. 0)"
    by (auto simp: held_inv_def s refcounter_new_map_of holders_def split: if_splits)
  moreover have "abs_phys s = ph_init (na_all (pc_hashless s))"
    by (auto simp: abs_phys_def ph_init_def s refcounter_new_map_of evictor_new_def)
  ultimately show ?thesis using assms(3) by (simp add: pc_inv_def pc_good_def s)
qed

lemma append_preconditions:
  assumes set: "settled (pc_obj s r)" and run: "pc_append_token_ids H toks r s = (Inr (), s')"
  shows "b_cached_hash (pc_obj s r) = None"
    "if toks = [] then s' = s else length (b_token_ids (pc_obj s r)) + length toks \<le> b_block_size (pc_obj s r)"
proof -
  have ch: "content_hash_of H r s = (Inr (b_cached_hash (pc_obj s r)), s)"
    using content_hash_settled [OF set] by (simp add: content_hash_of_def lens_defs del: block_content_hash.simps)
  then show "b_cached_hash (pc_obj s r) = None"
    using run by (auto simp: pc_append_token_ids_def bind_act_def act_defs split: if_splits)
  show "if toks = [] then s' = s else length (b_token_ids (pc_obj s r)) + length toks \<le> b_block_size (pc_obj s r)"
    using run ch by (auto simp: pc_append_token_ids_def bind_act_def act_defs lens_defs append_no_cow_def split: if_splits)
qed

lemma append_inv:
  assumes inv: "pc_inv H s hs" and nn: "no_none H" and r: "r \<in> set hs" "prev_in (b_prev (pc_obj s r)) (remove1 r hs)"
    and run: "pc_append_token_ids H toks r s = (Inr (), s')"
  shows "pc_inv H s' hs"
proof (cases "toks = []")
  case True
  have "settled (pc_obj s r)" using inv r(1) blk_ok_settled held_inv_blk unfolding pc_inv_def by blast
  from append_preconditions(2) [OF this run] True inv show ?thesis by simp
next
  case False
  have ok: "blk_ok H s (pc_obj s r)" using inv r(1) held_inv_blk unfolding pc_inv_def by blast
  note pre = append_preconditions [OF blk_ok_settled [OF ok] run]
  have "prev_held s (remove1 r hs) r" using r(2) by (auto simp: prev_held_def prev_in_def)
  moreover have "length (b_token_ids (pc_obj s r)) + length toks \<le> na_block_size (pc_hashless s)"
    using pre(2) False ok by (simp add: blk_ok_def)
  ultimately obtain s1 where "pc_append_token_ids H toks r s = (Inr (), s1)" "pc_good s1" "held_inv H s1 hs (\<lambda>_. 0)" "frame_but r s s1"
    "grow s s1"
    using append_ok [of s H hs "\<lambda>_. 0" r toks] inv r(1) nn pre(1) False unfolding pc_inv_def by metis
  with run pc_inv_step [OF inv, of s1 hs] show ?thesis by (simp add: frame_but_def grow_def)
qed

lemma free_inv:
  assumes "pc_inv H s hs" "r \<in> set hs"
  obtains s' where "pc_free H r False s = (Inr (), s')" "pc_inv H s' (remove1 r hs)" "na_all (pc_hashless s') = na_all (pc_hashless s)"
proof -
  from assms(1) have "pc_good s" "held_inv H s hs (\<lambda>_. 0)" by (auto simp: pc_inv_def)
  then obtain s' where "pc_free H r False s = (Inr (), s')" "pc_good s'" "held_inv H s' (remove1 r hs) (\<lambda>_. 0)"
    "na_all (pc_hashless s') = na_all (pc_hashless s)" "na_block_size (pc_hashless s') = na_block_size (pc_hashless s)"
    "phys_step (abs_phys s) (abs_phys s')" by (rule free_ok [OF _ _ assms(2)])
  with that [of s'] pc_inv_step [OF assms(1), of s' "remove1 r hs", OF _ _ r_into_rtranclp] show thesis by simp
qed

lemma ids_kept_inv: "ids_kept s s' \<Longrightarrow> pc_inv H s hs \<Longrightarrow> pc_inv H s' hs"
  using ids_kept_held [of s s' H hs] pc_inv_step [of H s hs s' hs] by (simp add: pc_inv_def ids_kept_def)

lemma immutable_inv:
  assumes inv: "pc_inv H s hs" and nn: "no_none H" and prev: "prev_in prev hs" and toks: "length toks = na_block_size (pc_hashless s)"
    and run: "pc_allocate_immutable_block H prev toks extra s = (x, s')"
  shows "case x of Inr r \<Rightarrow> pc_inv H s' (r # hs) \<and> b_token_ids (pc_obj s' r) = toks
    | Inl e \<Rightarrow> e = NoFreeBlocksError \<longrightarrow> pc_inv H s' hs \<and> pc_num_free_blocks s' = 0"
proof -
  note ok = alloc_immutable_ok [of s H hs "\<lambda>_. 0" toks prev extra x s']
  have "pc_good s" "held_inv H s hs (\<lambda>_. 0)" "0 < na_block_size (pc_hashless s)" using inv by (simp_all add: pc_inv_def)
  moreover have "p \<in> set hs" if "prev = Some p" for p using pc_inv_prev [OF inv prev that] by simp
  ultimately show ?thesis using ok nn toks run pc_inv_step [OF inv, of s'] by (cases x) (auto simp: frame_def grow_def)
qed

lemma mutable_inv:
  assumes inv: "pc_inv H s hs" and prev: "prev_in prev hs" and run: "pc_allocate_mutable_block H prev extra s = (Inr r, s')"
  obtains i where "pc_inv H s' (r # hs)" "taken s i s'" "b_block_id (pc_obj s' r) = Some i" "r \<notin> set hs"
proof -
  have g: "pc_good s" "held_inv H s hs (\<lambda>_. 0)" "0 < na_block_size (pc_hashless s)" using inv by (simp_all add: pc_inv_def)
  have "owned s p" if "prev = Some p" for p using pc_inv_prev [OF inv prev that] by simp
  then obtain i where "pc_good s'" "held_inv H s' (r # hs) (\<lambda>_. 0)" "frame s s'" "taken s i s'" "b_block_id (pc_obj s' r) = Some i"
    "grow s s'"
    using alloc_mutable_ok [OF g _ run] by metis
  with that [of i] pc_inv_step [OF inv, of s' "r # hs"] show thesis by (simp add: frame_def held_inv_def grow_def)
qed

lemma pc_reach_inv:
  assumes "pc_reach H s hs" "no_none H"
  shows "pc_inv H s hs"
  using assms
proof (induction rule: pc_reach.induct)
  case (new n bs ids s)
  then show ?case using pc_new_inv by blast
next
  case (mutable s hs prev extra r s')
  then show ?case using mutable_inv by metis
next
  case (immutable s hs prev toks extra r s')
  with immutable_inv [of H s hs prev toks extra "Inr r" s'] show ?case by simp
next
  case (exhausted s hs prev toks extra s')
  with immutable_inv [of H s hs prev toks extra "Inl NoFreeBlocksError" s'] show ?case by simp
next
  case (append s hs r toks s')
  then show ?case using append_inv by blast
next
  case (free s hs r s')
  then show ?case using free_inv [of H s hs r] by (metis prod.inject)
next
  case (accessed s hs ids now s')
  then have run: "pc_good s" "for_each (mark_accessed_one now) ids s = (Inr (), s')"
    by (simp_all add: pc_inv_def pc_mark_blocks_as_accessed_def)
  have "ids_kept s s'" by (rule for_each_kept [OF _ run]) (rule mark_accessed_kept)
  with accessed show ?case using ids_kept_inv by blast
next
  case (computed s hs ids s')
  then have "ids_kept s s'" using mark_blocks_as_computed_kept [of s ids s'] by (simp add: pc_inv_def)
  with computed show ?case using ids_kept_inv by blast
qed

end
