(* ===== verification/PrefixSpec.thy ===== *)
theory PrefixSpec
  imports PrefixReach
begin

text \<open>
  What the clients of the prefix caching allocator may rely on, in every state that a history of
  allocations, appends, releases and markings leads to.
\<close>

section \<open>Counting\<close>

definition held_ids :: "pc_alloc \<Rightarrow> ref list \<Rightarrow> block_id set" where
  "held_ids s hs = {i. \<exists>r \<in> set hs. b_block_id (pc_obj s r) = Some i}"

lemma held_ids_holders: "i \<in> held_ids s hs \<longleftrightarrow> holders s hs i \<noteq> 0"
  by (auto simp: held_ids_def holders_def filter_empty_conv)

lemma inv_count: "pc_inv H s hs \<Longrightarrow> i \<in> set (na_all (pc_hashless s)) \<Longrightarrow> map_of (pc_rc s) i = Some (int (holders s hs i))"
proof -
  assume inv: "pc_inv H s hs" and i: "i \<in> set (na_all (pc_hashless s))"
  then obtain n where "map_of (pc_rc s) i = Some n" unfolding pc_inv_def pc_good_def pc_wf_def by (metis domD)
  with inv held_inv_count [of H s hs "\<lambda>_. 0" i n] show ?thesis by (simp add: pc_inv_def)
qed

lemma inv_held_ids: "pc_inv H s hs \<Longrightarrow> held_ids s hs \<subseteq> set (na_all (pc_hashless s))"
proof
  fix i assume inv: "pc_inv H s hs" and "i \<in> held_ids s hs"
  then obtain r where r: "r \<in> set hs" "b_block_id (pc_obj s r) = Some i" by (auto simp: held_ids_def)
  have "held_inv H s hs (\<lambda>_. 0)" "pc_good s" using inv by (simp_all add: pc_inv_def)
  from held_id [OF this r(1)] r(2) obtain n where "map_of (pc_rc s) i = Some n" by auto
  with inv show "i \<in> set (na_all (pc_hashless s))" unfolding pc_inv_def pc_good_def pc_wf_def by blast
qed

lemma inv_unused:
  assumes inv: "pc_inv H s hs" and i: "i \<in> set (na_all (pc_hashless s))"
  shows "holders s hs i = 0 \<longleftrightarrow> i \<in> set (na_free (pc_hashless s)) \<or> ev_contains (pc_evictor s) i"
    "\<not> (i \<in> set (na_free (pc_hashless s)) \<and> ev_contains (pc_evictor s) i)"
proof -
  have ok: "phys_ok (abs_phys s)" using inv by (simp add: pc_inv_def pc_good_def)
  have rc: "ph_refs (abs_phys s) i = Some (int (holders s hs i))" using inv_count [OF inv i] by (simp add: phys_rc)
  have f: "ph_free (abs_phys s) = set (na_free (pc_hashless s))" by (simp add: abs_phys_def)
  show "holders s hs i = 0 \<longleftrightarrow> i \<in> set (na_free (pc_hashless s)) \<or> ev_contains (pc_evictor s) i"
    using phys_okD(1,2,5) [OF ok, of i] rc unfolding ev_contains_phys f by force
  show "\<not> (i \<in> set (na_free (pc_hashless s)) \<and> ev_contains (pc_evictor s) i)"
    using phys_okD(9) [OF ok, of i] unfolding ev_contains_phys f by simp
qed

lemma num_free_card:
  assumes inv: "pc_inv H s hs"
  shows "pc_num_free_blocks s = card (set (na_all (pc_hashless s)) - held_ids s hs)"
proof -
  let ?all = "set (na_all (pc_hashless s))" and ?free = "set (na_free (pc_hashless s))" and ?ev = "dom (map_of (ev_free_table (pc_evictor s)))"
  have wf: "pc_wf s" and ok: "phys_ok (abs_phys s)" using inv by (simp_all add: pc_inv_def pc_good_def)
  have abs: "ph_free (abs_phys s) = ?free" "dom (ph_evict (abs_phys s)) = ?ev" "dom (ph_refs (abs_phys s)) = ?all"
    using wf by (auto simp: abs_phys_def dom_def pc_wf_def)
  have sub: "?free \<subseteq> ?all" "?ev \<subseteq> ?all" using ok unfolding phys_ok_def abs by blast+
  have "?all - held_ids s hs = ?free \<union> ?ev"
    using inv_unused(1) [OF inv] sub by (auto simp: held_ids_holders ev_contains_def)
  moreover have "?free \<inter> ?ev = {}" using inv_unused(2) [OF inv] sub by (auto simp: ev_contains_def)
  moreover have "card ?free = length (na_free (pc_hashless s))" using wf by (simp add: pc_wf_def distinct_card)
  moreover have "card ?ev = length (ev_free_table (pc_evictor s))"
    using wf distinct_card [of "map fst (ev_free_table (pc_evictor s))"] by (simp add: pc_wf_def dom_map_of_conv_image_fst dict_wf_def)
  ultimately show ?thesis
    by (simp add: pc_num_free_blocks_def na_num_free_blocks_def ev_num_blocks_def card_Un_disjoint finite_dom_map_of)
qed

lemma num_free_held:
  assumes inv: "pc_inv H s hs"
  shows "pc_num_free_blocks s + card (held_ids s hs) = pc_num_total_blocks s"
proof -
  have "card (set (na_all (pc_hashless s))) = pc_num_total_blocks s"
    using inv by (simp add: pc_inv_def pc_good_def pc_wf_def distinct_card pc_num_total_blocks_def na_num_total_blocks_def)
  moreover have "card (held_ids s hs) \<le> card (set (na_all (pc_hashless s)))"
    by (rule card_mono [OF _ inv_held_ids [OF inv]]) simp
  ultimately show ?thesis
    using card_Diff_subset [OF finite_subset [OF inv_held_ids [OF inv]] inv_held_ids [OF inv]] num_free_card [OF inv] by simp
qed

lemma pc_inv_perm: "pc_inv H s hs \<Longrightarrow> mset rs = mset hs \<Longrightarrow> pc_inv H s rs"
  unfolding pc_inv_def held_inv_def holders_def
  by (metis mset_eq_imp_distinct_iff mset_eq_setD mset_filter size_mset)

section \<open>Properties\<close>

text \<open>
  C18. In every reachable state the physical blocks are accounted for: the reference count of a
  block is the number of block objects its clients hold, a block without holders is either in
  the free list or in the evictor and never in both, and the free blocks together with the
  blocks in use make up the pool.
\<close>

theorem physical_blocks_accounted:
  assumes "pc_reach H s hs" "no_none H"
  shows "pc_num_free_blocks s + card {i. \<exists>r \<in> set hs. b_block_id (pc_obj s r) = Some i} = pc_num_total_blocks s
    \<and> (\<forall>i \<in> set (na_all (pc_hashless s)).
      map_of (pc_rc s) i = Some (int (length (filter (\<lambda>r. b_block_id (pc_obj s r) = Some i) hs)))
      \<and> (map_of (pc_rc s) i = Some 0 \<longleftrightarrow> i \<in> set (na_free (pc_hashless s)) \<or> ev_contains (pc_evictor s) i)
      \<and> \<not> (i \<in> set (na_free (pc_hashless s)) \<and> ev_contains (pc_evictor s) i))"
proof -
  have inv: "pc_inv H s hs" by (rule pc_reach_inv [OF assms])
  show ?thesis using num_free_held [OF inv] inv_count [OF inv] inv_unused [OF inv] by (simp add: held_ids_def holders_def)
qed

text \<open>A digest that separates all strings, and two requests with one common block.\<close>

fun digits_digest :: "string \<Rightarrow> int" where
  "digits_digest [] = 0"
| "digits_digest (c # cs) = 257 * digits_digest cs + (int (of_char c) + 1)"

lemma digits_digest_nonneg: "0 \<le> digits_digest s"
  by (induction s) auto

lemma digits_digest_inj: "inj digits_digest"
proof (rule injI)
  show "s = t" if "digits_digest s = digits_digest t" for s t
    using that
  proof (induction s arbitrary: t)
    case Nil
    then show ?case using digits_digest_nonneg [of "tl t"] by (cases t) auto
  next
    case (Cons c s)
    have b: "of_char c < (256::nat)" for c :: char by (rule nat_of_char_less_256)
    show ?case
    proof (cases t)
      case Nil
      with Cons.prems digits_digest_nonneg [of s] show ?thesis by auto
    next
      case (Cons d u)
      have "x = y \<and> m = n" if "257 * m + int x = 257 * n + int y" "x < 256" "y < 256" for x y :: nat and m n :: int
      proof -
        have "int x = (257 * m + int x) mod 257" using that(2) by simp
        also have "\<dots> = (257 * n + int y) mod 257" by (simp only: that(1))
        also have "\<dots> = int y" using that(3) by simp
        finally show ?thesis using that(1) by simp
      qed
      from this [of "digits_digest s" "of_char c" "digits_digest u" "of_char d"] b have "c = d" "digits_digest s = digits_digest u"
        using Cons Cons.prems by simp_all
      with Cons Cons.IH show ?thesis by simp
    qed
  qed
qed

lemma digits_digest_no_none: "no_none digits_digest"
  using digits_digest_nonneg unfolding no_none_def NONE_HASH_def by (metis neg_0_le_iff_le not_le zero_less_numeral zero_less_power)

definition demo_new :: pc_alloc where
  "demo_new = (case pc_new 2 2 None [] of Inr s \<Rightarrow> s | Inl _ \<Rightarrow> undefined)"

definition demo_one :: "(string \<Rightarrow> int) \<Rightarrow> pc_alloc" where
  "demo_one H = snd (pc_allocate_immutable_block H None [7, 8] None demo_new)"

definition demo_two :: "(string \<Rightarrow> int) \<Rightarrow> pc_alloc" where
  "demo_two H = snd (pc_allocate_immutable_block H None [7, 8] None (demo_one H))"

lemmas pc_defs = pc_allocate_immutable_block_def pc_allocate_mutable_block_def pc_append_token_ids_def promote_to_immutable_block_def
  incr_refcount_cached_block_def pc_init_block_def na_init_block_def init_block_def free_block_def content_hash_of_def lens_defs act_defs
  pc_allocate_block_id_def maybe_allocate_hashless_block_id_def na_allocate_mutable_block_def na_allocate_block_id_def rc_incr_def rc_get_def
  track_block_id_def get_tracker_def dict_item_def tracker_enable_def tracker_reset_def tracker_init_def set_tracker_def set_id_def set_block_id_def
  the_block_id_def append_no_cow_def pc_cow_block_def is_appendable_def update_num_tokens_total_def prev_total_def
  query_metric_def init_blk_def b_is_full_def upd_obj_def Let_def

lemma demo_new_eval: "pc_new 2 2 None [] = Inr demo_new" "na_block_size (pc_hashless demo_new) = 2"
  by (simp_all add: demo_new_def pc_new_def naive_new_def upt_rec block_pool_new_def add_objects_def Let_def)

lemmas demo_simps = demo_new_def pc_new_def naive_new_def upt_rec block_pool_new_def add_objects_def refcounter_new_def
  evictor_new_def cache_metric_new_def numeral_nat

lemma demo_two_eval:
  "\<exists>s1 s2 h. pc_allocate_immutable_block H None [7, 8] None demo_new = (Inr 0, s1) \<and> na_block_size (pc_hashless s1) = 2
     \<and> pc_allocate_immutable_block H None [7, 8] None s1 = (Inr 1, s2)
     \<and> b_block_id (pc_obj s2 0) = Some 0 \<and> b_block_id (pc_obj s2 1) = Some 0 \<and> pc_num_free_blocks s2 = 1 \<and> pc_evictor s2 = evictor_new
     \<and> na_all (pc_hashless s2) = [0, 1]"
  by (simp add: demo_simps pc_defs ev_contains_def pc_num_free_blocks_def na_num_free_blocks_def ev_num_blocks_def)

lemma demo_two_facts:
  "pc_reach H (demo_one H) [0]" "pc_reach H (demo_two H) [1, 0]" "b_block_id (pc_obj (demo_two H) 0) = Some 0"
  "b_block_id (pc_obj (demo_two H) 1) = Some 0" "pc_num_free_blocks (demo_two H) = 1" "pc_evictor (demo_two H) = evictor_new"
  "na_all (pc_hashless (demo_two H)) = [0, 1]" "pc_num_total_blocks (demo_two H) = 2"
proof -
  obtain s1 s2 where run: "pc_allocate_immutable_block H None [7, 8] None demo_new = (Inr 0, s1)" "na_block_size (pc_hashless s1) = 2"
    "pc_allocate_immutable_block H None [7, 8] None s1 = (Inr 1, s2)"
    and obj: "b_block_id (pc_obj s2 0) = Some 0" "b_block_id (pc_obj s2 1) = Some 0" "pc_num_free_blocks s2 = 1" "pc_evictor s2 = evictor_new"
    "na_all (pc_hashless s2) = [0, 1]"
    using demo_two_eval [of H] by auto
  have s: "demo_one H = s1" "demo_two H = s2" by (simp_all add: demo_one_def demo_two_def run(1,3))
  have "pc_reach H demo_new []" by (rule pc_reach.new [OF demo_new_eval(1)]) simp_all
  then show r1: "pc_reach H (demo_one H) [0]"
    unfolding s by (rule pc_reach.immutable [OF _ _ _ run(1)]) (simp_all add: prev_in_def demo_new_eval)
  then show "pc_reach H (demo_two H) [1, 0]"
    unfolding s by (rule pc_reach.immutable [OF _ _ _ run(3)]) (simp_all add: prev_in_def run(2))
  show "b_block_id (pc_obj (demo_two H) 0) = Some 0" "b_block_id (pc_obj (demo_two H) 1) = Some 0" "pc_num_free_blocks (demo_two H) = 1"
    "pc_evictor (demo_two H) = evictor_new" "na_all (pc_hashless (demo_two H)) = [0, 1]" "pc_num_total_blocks (demo_two H) = 2"
    using obj by (simp_all add: s pc_num_total_blocks_def na_num_total_blocks_def)
qed

theorem physical_blocks_accounted_witness:
  "map_of (pc_rc (demo_two digits_digest)) 0 = Some 2 \<and> map_of (pc_rc (demo_two digits_digest)) 1 = Some 0"
proof -
  have "\<forall>i \<in> set [0, 1]. map_of (pc_rc (demo_two digits_digest)) i
      = Some (int (length (filter (\<lambda>r. b_block_id (pc_obj (demo_two digits_digest) r) = Some i) [1, 0])))"
    using physical_blocks_accounted [OF demo_two_facts(2) digits_digest_no_none, unfolded demo_two_facts(7)] by blast
  then show ?thesis using demo_two_facts(3,4) [of digits_digest] by simp
qed

lemma two_holders:
  assumes "r \<in> set hs" "q \<in> set hs" "r \<noteq> q" "b_block_id (pc_obj s r) = Some i" "b_block_id (pc_obj s q) = Some i"
  shows "2 \<le> holders s hs i"
proof -
  have "card {r, q} \<le> length (filter (\<lambda>r. b_block_id (pc_obj s r) = Some i) hs)"
    by (rule order_trans [OF card_mono card_length]) (use assms in auto)
  with assms(3) show ?thesis by (simp add: holders_def)
qed

lemma shared_sealed:
  assumes inv: "pc_inv H s hs" and r: "r \<in> set hs" "q \<in> set hs" "r \<noteq> q" "b_block_id (pc_obj s r) = Some i" "b_block_id (pc_obj s q) = Some i"
  shows "sealed H s (pc_obj s r) i"
proof -
  have h: "held_inv H s hs (\<lambda>_. 0)" using inv by (simp add: pc_inv_def)
  have "\<not> filling s (pc_obj s r) i"
    using held_inv_count [OF h, of i 1] two_holders [OF r] by (auto simp: filling_def)
  with held_inv_blk [OF h r(1)] r(4) show ?thesis by (auto simp: blk_ok_def)
qed

lemma sealed_unique:
  assumes "pc_good s" "sealed H s b i" "sealed H s c i"
  obtains h f ph f' ph' where "b_cached_hash b = Some h" "b_cached_hash c = Some h" "map_of (pc_cached s) h = Some i"
    "h = hash_block_tokens H f ph (b_token_ids b) (b_extra_hash b)" "h = hash_block_tokens H f' ph' (b_token_ids c) (b_extra_hash c)"
proof -
  from assms(2) obtain h f ph where h: "b_cached_hash b = Some h" "map_of (pc_cached s) h = Some i"
    "h = hash_block_tokens H f ph (b_token_ids b) (b_extra_hash b)" by (auto simp: sealed_def)
  from assms(3) obtain k f' ph' where k: "b_cached_hash c = Some k" "map_of (pc_cached s) k = Some i"
    "k = hash_block_tokens H f' ph' (b_token_ids c) (b_extra_hash c)" by (auto simp: sealed_def)
  have "h = k" using phys_okD(8) [of "abs_phys s" h i k] assms(1) h(2) k(2) by (simp add: pc_good_def phys_cached)
  with h(1,2) k(1) that [of h f ph f' ph', OF _ _ _ h(3)] k(3) show thesis by blast
qed

lemma hash_block_tokens_inj:
  "inj H \<Longrightarrow> hash_block_tokens H f p t e = hash_block_tokens H f' p' t' e' \<Longrightarrow> t = t' \<and> e = e'"
  unfolding hash_block_tokens_def Let_def by (drule (1) injD) (drule repr_block_key_inject, simp)





section \<open>Releasing everything\<close>

lemma free_all_inv:
  "pc_inv H s hs \<Longrightarrow> \<exists>s'. for_each (\<lambda>r. pc_free H r False) hs s = (Inr (), s') \<and> pc_inv H s' []
     \<and> na_all (pc_hashless s') = na_all (pc_hashless s)"
proof (induction hs arbitrary: s)
  case Nil
  then show ?case by (simp add: ret_def)
next
  case (Cons r hs)
  from free_inv [OF Cons.prems, of r] obtain s1 where s1: "pc_free H r False s = (Inr (), s1)" "pc_inv H s1 hs"
    "na_all (pc_hashless s1) = na_all (pc_hashless s)" by auto
  from Cons.IH [OF s1(2)] s1 show ?case by (auto simp: bind_act_def)
qed

text \<open>
  No history of allocations leaks a block: from every reachable state the clients can free
  the blocks they hold, in any order, without an error, and afterwards every physical block of
  the pool is free or evictable again.
\<close>

theorem free_restores_pool:
  assumes "pc_reach H s hs" "no_none H" "mset rs = mset hs"
  shows "\<exists>s'. for_each (\<lambda>r. pc_free H r False) rs s = (Inr (), s') \<and> pc_num_free_blocks s' = pc_num_total_blocks s
    \<and> pc_num_total_blocks s' = pc_num_total_blocks s"
proof -
  have "pc_inv H s rs" by (rule pc_inv_perm [OF pc_reach_inv [OF assms(1,2)] assms(3)])
  from free_all_inv [OF this] obtain s' where s': "for_each (\<lambda>r. pc_free H r False) rs s = (Inr (), s')" "pc_inv H s' []"
    "na_all (pc_hashless s') = na_all (pc_hashless s)" by blast
  have "pc_num_total_blocks s' = pc_num_total_blocks s" using s'(3) by (simp add: pc_num_total_blocks_def na_num_total_blocks_def)
  moreover have "held_ids s' [] = {}" by (simp add: held_ids_def)
  ultimately show ?thesis using num_free_held [OF s'(2)] s'(1) by auto
qed

theorem free_restores_pool_witness:
  "\<exists>s'. for_each (\<lambda>r. pc_free digits_digest r False) [0, 1] (demo_two digits_digest) = (Inr (), s') \<and> pc_num_free_blocks s' = 2"
  using free_restores_pool [OF demo_two_facts(2) digits_digest_no_none, of "[0, 1]"] by (auto simp: demo_two_facts(8))

section \<open>Refinement\<close>



section \<open>Cached prefixes\<close>

lemma bisect_left_spec:
  assumes "\<And>x. x \<in> set xs \<Longrightarrow> cached x = Inr (P x)"
  shows "lo \<le> hi \<Longrightarrow> hi \<le> length xs \<Longrightarrow> (0 < lo \<Longrightarrow> P (xs ! (lo - 1))) \<Longrightarrow> (hi < length xs \<Longrightarrow> \<not> P (xs ! hi)) \<Longrightarrow>
    \<exists>n. bisect_left cached xs lo hi = Inr n \<and> lo \<le> n \<and> n \<le> hi \<and> (0 < n \<longrightarrow> P (xs ! (n - 1))) \<and> (n < length xs \<longrightarrow> \<not> P (xs ! n))"
proof (induction "hi - lo" arbitrary: lo hi rule: less_induct)
  case less
  show ?case
  proof (cases "lo < hi")
    case True
    let ?m = "(lo + hi) div 2"
    have m: "lo \<le> ?m" "?m < hi" using True by auto
    have c: "cached (xs ! ?m) = Inr (P (xs ! ?m))" using assms m less.prems(2) by simp
    show ?thesis
    proof (cases "P (xs ! ?m)")
      case True
      have "\<exists>n. bisect_left cached xs (?m + 1) hi = Inr n \<and> ?m + 1 \<le> n \<and> n \<le> hi \<and> (0 < n \<longrightarrow> P (xs ! (n - 1)))
          \<and> (n < length xs \<longrightarrow> \<not> P (xs ! n))"
        by (rule less.hyps) (use m less.prems True in auto)
      then show ?thesis using \<open>lo < hi\<close> c True m by (subst bisect_left.simps) (auto simp: Let_def)
    next
      case False
      have "\<exists>n. bisect_left cached xs lo ?m = Inr n \<and> lo \<le> n \<and> n \<le> ?m \<and> (0 < n \<longrightarrow> P (xs ! (n - 1)))
          \<and> (n < length xs \<longrightarrow> \<not> P (xs ! n))"
        by (rule less.hyps) (use m less.prems False in auto)
      then show ?thesis using \<open>lo < hi\<close> c False m by (subst bisect_left.simps) (auto simp: Let_def)
    qed
  next
    case False
    with less.prems show ?thesis by (subst bisect_left.simps) auto
  qed
qed

lemma takeWhile_at:
  assumes "n \<le> length xs" "0 < n \<longrightarrow> P (xs ! (n - 1))" "n < length xs \<longrightarrow> \<not> P (xs ! n)"
    and mono: "\<And>i j. i < j \<Longrightarrow> j < length xs \<Longrightarrow> P (xs ! j) \<Longrightarrow> P (xs ! i)"
  shows "take n xs = takeWhile P xs"
proof -
  have "P (xs ! i)" if "i < n" for i
    using that assms(1,2) mono [of i "n - 1"] by (cases "i = n - 1") auto
  then show ?thesis using assms(1,3) by (intro takeWhile_eq_take_P_nth [symmetric]) auto
qed

lemma hash_is_cached_total:
  assumes "pc_good s"
  shows "\<exists>b. hash_is_cached s h = Inr b"
proof (cases "map_of (pc_cached s) h")
  case (Some i)
  obtain n where "map_of (pc_rc s) i = Some n"
    using phys_okD(7) [of "abs_phys s" h i] assms Some by (auto simp: pc_good_def phys_cached phys_rc)
  with assms obtain t where "map_of (pc_tracker s) i = Some t" by (rule pc_good_tracker)
  with Some show ?thesis by (simp add: hash_is_cached_def block_is_computed_def dict_item_def)
qed (auto simp: hash_is_cached_def)

text \<open>
  C23. In a reachable state the binary search for the cached prefix of a sequence of block hashes
  ends without an error at a boundary: it returns a prefix of the sequence whose last hash is
  cached and computed and after which comes a hash that is not (or nothing). When no cached hash
  follows a missing one, the result is exactly the longest cached prefix.
\<close>

theorem cached_prefix_search:
  assumes "pc_reach H s hs" "no_none H"
  shows "\<exists>n \<le> length bhs. find_cached_blocks_prefix s bhs = Inr (take n bhs)
    \<and> (0 < n \<longrightarrow> hash_is_cached s (bhs ! (n - 1)) = Inr True) \<and> (n < length bhs \<longrightarrow> hash_is_cached s (bhs ! n) = Inr False)
    \<and> ((\<forall>i j. i < j \<and> j < length bhs \<and> hash_is_cached s (bhs ! j) = Inr True \<longrightarrow> hash_is_cached s (bhs ! i) = Inr True)
        \<longrightarrow> take n bhs = takeWhile (\<lambda>h. hash_is_cached s h = Inr True) bhs)"
proof -
  let ?P = "\<lambda>h. hash_is_cached s h = Inr True"
  have good: "pc_good s" using pc_reach_inv [OF assms] by (simp add: pc_inv_def)
  have tot: "hash_is_cached s h = Inr (?P h)" for h using hash_is_cached_total [OF good, of h] by auto
  have "\<exists>n. bisect_left (hash_is_cached s) bhs 0 (length bhs) = Inr n \<and> 0 \<le> n \<and> n \<le> length bhs
      \<and> (0 < n \<longrightarrow> ?P (bhs ! (n - 1))) \<and> (n < length bhs \<longrightarrow> \<not> ?P (bhs ! n))"
    by (rule bisect_left_spec) (use tot in auto)
  then obtain n where n: "bisect_left (hash_is_cached s) bhs 0 (length bhs) = Inr n" "n \<le> length bhs"
    "0 < n \<longrightarrow> ?P (bhs ! (n - 1))" "n < length bhs \<longrightarrow> \<not> ?P (bhs ! n)" by blast
  have "find_cached_blocks_prefix s bhs = Inr (take n bhs)" using n(1) by (simp add: find_cached_blocks_prefix_def)
  moreover have "n < length bhs \<longrightarrow> hash_is_cached s (bhs ! n) = Inr False" using n(4) tot [of "bhs ! n"] by metis
  moreover have "take n bhs = takeWhile ?P bhs"
    if "\<forall>i j. i < j \<and> j < length bhs \<and> ?P (bhs ! j) \<longrightarrow> ?P (bhs ! i)"
    by (rule takeWhile_at [OF n(2-4)]) (use that in blast)
  ultimately show ?thesis using n(2,3) by blast
qed

text \<open>The first of two hashes is cached once the blocks of the example are marked as computed.\<close>

definition demo_marked :: "(string \<Rightarrow> int) \<Rightarrow> pc_alloc" where
  "demo_marked H = snd (pc_mark_blocks_as_computed [] (demo_two H))"

definition demo_hash :: "(string \<Rightarrow> int) \<Rightarrow> int" where
  "demo_hash H = hash_block_tokens H True (Some NONE_HASH) [7, 8] None"

lemma demo_marked_eval:
  "pc_mark_blocks_as_computed [] (demo_two H) = (Inr (), demo_marked H) \<and> hash_is_cached (demo_marked H) (demo_hash H) = Inr True
    \<and> hash_is_cached (demo_marked H) (demo_hash H + 1) = Inr False"
  by (simp add: demo_marked_def demo_hash_def demo_two_def demo_one_def demo_simps pc_defs ev_contains_def
      pc_mark_blocks_as_computed_def mark_computed_one_def hash_is_cached_def block_is_computed_def List.insert_def)

theorem cached_prefix_search_witness:
  "find_cached_blocks_prefix (demo_marked digits_digest) [demo_hash digits_digest, demo_hash digits_digest + 1]
     = Inr [demo_hash digits_digest]"
proof -
  let ?s = "demo_marked digits_digest" and ?h = "demo_hash digits_digest"
  let ?bhs = "[?h, ?h + 1]"
  have reach: "pc_reach digits_digest ?s [1, 0]"
    using pc_reach.computed [OF demo_two_facts(2)] demo_marked_eval by blast
  obtain n where n: "n \<le> length ?bhs" "find_cached_blocks_prefix ?s ?bhs = Inr (take n ?bhs)"
    "0 < n \<longrightarrow> hash_is_cached ?s (?bhs ! (n - 1)) = Inr True" "n < length ?bhs \<longrightarrow> hash_is_cached ?s (?bhs ! n) = Inr False"
    using cached_prefix_search [OF reach digits_digest_no_none, of ?bhs] by blast
  have c: "hash_is_cached ?s ?h = Inr True" "hash_is_cached ?s (?h + 1) = Inr False" using demo_marked_eval by blast+
  have "n \<noteq> 0" using n(4) c(1) by (cases n) auto
  moreover have "n \<noteq> 2" using n(3) c(2) by auto
  ultimately have "n = 1" using n(1) by simp
  with n(2) show ?thesis by simp
qed

end
