(* ===== verification/PrefixAdmit.thy ===== *)
theory PrefixAdmit
  imports PrefixSpec
begin

text \<open>
  Admission: the number of blocks that \<open>count_new_blocks_for_token_ids\<close> predicts is enough for the
  allocation of the sequence. The cost of a block is 0 when its hash is cached and held and 1
  otherwise; no allocation on the way makes a later block more expensive.
\<close>

section \<open>The cost of a block\<close>

definition block_cost :: "pc_alloc \<Rightarrow> int \<Rightarrow> nat" where
  "block_cost s h =
     (case map_of (pc_cached s) h of
        None \<Rightarrow> 1
      | Some i \<Rightarrow> (case map_of (pc_tracker s) i of None \<Rightarrow> 1 | Some t \<Rightarrow> if bt_active t then 0 else 1))"

lemma count_new_loop_cost:
  "count_new_loop H s bs extra prev (c # cs) =
     (if length c < bs then 1
      else (let h = hash_block_tokens H (prev = None) prev c extra in block_cost s h + count_new_loop H s bs extra (Some h) cs))"
  by (simp add: block_cost_def Let_def)

lemma block_cost_active:
  assumes "pc_good s"
  shows "block_cost s h = (if \<exists>i. ph_active (abs_phys s) h i then 0 else 1)"
proof (cases "map_of (pc_cached s) h")
  case None
  then show ?thesis by (simp add: block_cost_def ph_active_def phys_cached)
next
  case (Some i)
  obtain n where n: "map_of (pc_rc s) i = Some n"
    using phys_okD(7) [of "abs_phys s" h i] assms Some by (auto simp: pc_good_def phys_cached phys_rc)
  with assms obtain t where "map_of (pc_tracker s) i = Some t" "bt_active t \<longleftrightarrow> 0 < n" by (rule pc_good_tracker)
  with Some n show ?thesis by (simp add: block_cost_def ph_active_def phys_cached phys_rc)
qed

lemma block_cost_grow: "pc_good s \<Longrightarrow> pc_good s' \<Longrightarrow> grow s s' \<Longrightarrow> block_cost s' h \<le> block_cost s h"
  unfolding block_cost_active grow_def by auto

lemma count_new_loop_grow:
  assumes "pc_good s" "pc_good s'" "grow s s'"
  shows "count_new_loop H s' bs extra prev cs \<le> count_new_loop H s bs extra prev cs"
proof (induction cs arbitrary: prev)
  case (Cons c cs)
  show ?case unfolding count_new_loop_cost using block_cost_grow [OF assms] Cons.IH by (auto simp: Let_def intro: add_mono)
qed simp

lemma hash_first: "hash_block_tokens H True None toks extra = hash_block_tokens H True (Some NONE_HASH) toks extra"
  by (simp add: hash_block_tokens_def)

definition hash_after :: "pc_alloc \<Rightarrow> ref option \<Rightarrow> int option" where
  "hash_after s prev = (case prev of None \<Rightarrow> None | Some p \<Rightarrow> b_cached_hash (pc_obj s p))"

lemma block_hash_count:
  assumes "\<And>p. prev = Some p \<Longrightarrow> b_cached_hash (pc_obj s p) \<noteq> None"
  shows "hash_block_tokens H (hash_after s prev = None) (hash_after s prev) toks extra = block_hash_in H s prev toks extra"
  using assms by (cases prev) (auto simp: hash_after_def block_hash_in_def hash_first)

section \<open>One full block\<close>

lemma held_frame:
  "pc_inv H s hs \<Longrightarrow> frame s s' \<Longrightarrow> r \<in> set hs \<Longrightarrow> pc_obj s' r = pc_obj s r"
  by (auto simp: pc_inv_def held_inv_def frame_def)

lemma held_ids_frame: "pc_inv H s hs \<Longrightarrow> frame s s' \<Longrightarrow> held_ids s' hs = held_ids s hs"
  unfolding held_ids_def using held_frame [of H s hs s'] by (metis (no_types, lifting))

lemma num_free_taken:
  assumes inv: "pc_inv H s hs" and inv': "pc_inv H s' (r # hs)" and fr: "frame s s'" and i: "b_block_id (pc_obj s' r) = Some i"
  shows "pc_num_free_blocks s' + (if i \<in> held_ids s hs then 0 else 1) = pc_num_free_blocks s"
proof -
  have "held_ids s' (r # hs) = insert i (held_ids s' hs)" using i by (auto simp: held_ids_def)
  also have "\<dots> = insert i (held_ids s hs)" by (simp add: held_ids_frame [OF inv fr])
  finally have "card (held_ids s' (r # hs)) = card (held_ids s hs) + (if i \<in> held_ids s hs then 0 else 1)"
    using finite_subset [OF inv_held_ids [OF inv]] by (simp add: insert_absorb card_insert_if)
  moreover have "pc_num_total_blocks s' = pc_num_total_blocks s"
    using fr by (simp add: frame_def pc_num_total_blocks_def na_num_total_blocks_def)
  ultimately show ?thesis using num_free_held [OF inv] num_free_held [OF inv'] by auto
qed

lemma active_held: "pc_inv H s hs \<Longrightarrow> ph_active (abs_phys s) h i \<Longrightarrow> i \<in> held_ids s hs"
proof -
  assume inv: "pc_inv H s hs" and "ph_active (abs_phys s) h i"
  then obtain n where n: "map_of (pc_rc s) i = Some n" "0 < n" by (auto simp: ph_active_def phys_rc)
  have "held_inv H s hs (\<lambda>_. 0)" using inv by (simp add: pc_inv_def)
  from held_inv_count [OF this n(1)] n(2) show ?thesis by (simp add: held_ids_holders)
qed

lemma full_block_admitted:
  assumes inv: "pc_inv H s hs" and nn: "no_none H" and ev: "ev_ok (pc_evictor s)" and prev: "prev_in prev hs"
    and toks: "length toks = na_block_size (pc_hashless s)"
    and room: "block_cost s (block_hash_in H s prev toks extra) \<le> pc_num_free_blocks s"
  obtains r s' where "pc_allocate_immutable_block H prev toks extra s = (Inr r, s')" "pc_inv H s' (r # hs)" "frame s s'" "grow s s'"
    "b_token_ids (pc_obj s' r) = toks" "b_prev (pc_obj s' r) = prev"
    "b_cached_hash (pc_obj s' r) = Some (block_hash_in H s prev toks extra)"
    "pc_num_free_blocks s \<le> pc_num_free_blocks s' + block_cost s (block_hash_in H s prev toks extra)"
proof -
  let ?h = "block_hash_in H s prev toks extra"
  have good: "pc_good s" and held: "held_inv H s hs (\<lambda>_. 0)" and bs: "0 < na_block_size (pc_hashless s)"
    using inv by (simp_all add: pc_inv_def)
  have pin: "p \<in> set hs" if "prev = Some p" for p using pc_inv_prev [OF inv prev that] by simp
  obtain x s' where run: "pc_allocate_immutable_block H prev toks extra s = (x, s')" by (metis surj_pair)
  note ok = alloc_immutable_ok [OF good held nn bs toks pin run]
  show thesis
  proof (cases x)
    case (Inl e)
    with ok ev have e: "map_of (pc_cached s) ?h = None" "frame s s'" "pc_num_free_blocks s' = 0" "pc_good s'" "held_inv H s' hs (\<lambda>_. 0)" "grow s s'"
      by auto
    have inv': "pc_inv H s' hs" by (rule pc_inv_step [OF inv e(4,5)]) (use e(2,6) in \<open>simp_all add: frame_def grow_def\<close>)
    have "pc_num_total_blocks s' = pc_num_total_blocks s"
      using e(2) by (simp add: frame_def pc_num_total_blocks_def na_num_total_blocks_def)
    then have "pc_num_free_blocks s = 0"
      using num_free_held [OF inv] num_free_held [OF inv'] held_ids_frame [OF inv e(2)] e(3) by simp
    with room e(1) show thesis by (simp add: block_cost_def)
  next
    case (Inr r)
    with ok have r: "pc_good s'" "held_inv H s' (r # hs) (\<lambda>_. 0)" "frame s s'" "b_token_ids (pc_obj s' r) = toks" "b_prev (pc_obj s' r) = prev"
      "grow s s'" "b_cached_hash (pc_obj s' r) = Some ?h" by simp_all
    have inv': "pc_inv H s' (r # hs)" by (rule pc_inv_step [OF inv r(1,2)]) (use r(3,6) in \<open>simp_all add: frame_def grow_def\<close>)
    obtain i where i: "b_block_id (pc_obj s' r) = Some i" "map_of (pc_cached s') ?h = Some i"
      using held_inv_blk [OF r(2), of r] r(7) by (auto simp: blk_ok_def filling_def sealed_def)
    have "i \<in> held_ids s hs" if "block_cost s ?h = 0"
    proof -
      from that obtain j where j: "ph_active (abs_phys s) ?h j" unfolding block_cost_active [OF good] by (auto split: if_splits)
      then have "ph_active (abs_phys s') ?h j" using r(6) by (simp add: grow_def)
      then have "j = i" using i(2) by (simp add: ph_active_def phys_cached)
      with active_held [OF inv j] show ?thesis by simp
    qed
    moreover have "block_cost s ?h \<le> 1" unfolding block_cost_active [OF good] by simp
    ultimately have "pc_num_free_blocks s \<le> pc_num_free_blocks s' + block_cost s ?h"
      using num_free_taken [OF inv inv' r(3) i(1)] by (cases "block_cost s ?h = 0"; cases "i \<in> held_ids s hs") auto
    then show thesis using that [OF run [unfolded Inr] inv' r(3,6,4,5,7)] by blast
  qed
qed

section \<open>A list of full blocks\<close>

text \<open>
  What an allocation of several blocks leaves behind: the new blocks are held, carry their
  tokens in order, and the last one has a hash for its successor.
\<close>

definition blocks_made :: "(string \<Rightarrow> int) \<Rightarrow> pc_alloc \<Rightarrow> ref list \<Rightarrow> pc_alloc \<Rightarrow> ref list \<Rightarrow> int list list \<Rightarrow> bool" where
  "blocks_made H s hs s' rs cs \<longleftrightarrow> pc_inv H s' (rev rs @ hs) \<and> frame s s' \<and> grow s s' \<and> map (\<lambda>r. b_token_ids (pc_obj s' r)) rs = cs"

lemma full_blocks_admitted:
  "pc_inv H s hs \<Longrightarrow> ev_ok (pc_evictor s) \<Longrightarrow> prev_in prev hs \<Longrightarrow> (\<And>p. prev = Some p \<Longrightarrow> b_cached_hash (pc_obj s p) \<noteq> None) \<Longrightarrow>
   \<forall>c \<in> set cs. length c = na_block_size (pc_hashless s) \<Longrightarrow> no_none H \<Longrightarrow>
   count_new_loop H s (na_block_size (pc_hashless s)) extra (hash_after s prev) (cs @ rest) \<le> pc_num_free_blocks s \<Longrightarrow>
   \<exists>rs s' last. pc_allocate_immutable_blocks H prev cs extra s = (Inr rs, s') \<and> blocks_made H s hs s' rs cs \<and> ev_ok (pc_evictor s')
     \<and> last = (if rs = [] then prev else Some (List.last rs)) \<and> prev_in last (rev rs @ hs) \<and> length rs = length cs
     \<and> count_new_loop H s' (na_block_size (pc_hashless s)) extra (hash_after s' last) rest \<le> pc_num_free_blocks s'"
proof (induction cs arbitrary: s hs prev)
  case Nil
  then show ?case by (auto simp: ret_def blocks_made_def intro: grow_same)
next
  case (Cons c cs)
  let ?bs = "na_block_size (pc_hashless s)" and ?h = "block_hash_in H s prev c extra"
  have good: "pc_good s" using Cons.prems(1) by (simp add: pc_inv_def)
  have c: "length c = ?bs" using Cons.prems(5) by simp
  have h: "hash_block_tokens H (hash_after s prev = None) (hash_after s prev) c extra = ?h"
    by (rule block_hash_count [OF Cons.prems(4)])
  have room: "block_cost s ?h + count_new_loop H s ?bs extra (Some ?h) (cs @ rest) \<le> pc_num_free_blocks s"
    using Cons.prems(7) c by (simp add: count_new_loop_cost h Let_def del: count_new_loop.simps)
  obtain r s1 where r: "pc_allocate_immutable_block H prev c extra s = (Inr r, s1)" "pc_inv H s1 (r # hs)" "frame s s1" "grow s s1"
    "b_token_ids (pc_obj s1 r) = c" "b_prev (pc_obj s1 r) = prev" "b_cached_hash (pc_obj s1 r) = Some ?h"
    "pc_num_free_blocks s \<le> pc_num_free_blocks s1 + block_cost s ?h"
    by (rule full_block_admitted [OF Cons.prems(1,6,2,3) c, of extra]) (use room in simp)
  have good1: "pc_good s1" and bs1: "na_block_size (pc_hashless s1) = ?bs" using r(2,3) by (simp_all add: pc_inv_def frame_def)
  have "count_new_loop H s1 ?bs extra (Some ?h) (cs @ rest) \<le> count_new_loop H s ?bs extra (Some ?h) (cs @ rest)"
    by (rule count_new_loop_grow [OF good good1 r(4)])
  with room r(8) have room1: "count_new_loop H s1 (na_block_size (pc_hashless s1)) extra (hash_after s1 (Some r)) (cs @ rest) \<le> pc_num_free_blocks s1"
    using r(7) bs1 by (simp add: hash_after_def)
  have ev1: "ev_ok (pc_evictor s1)" using r(4) Cons.prems(2) by (simp add: grow_def)
  obtain rs s2 last where rs: "pc_allocate_immutable_blocks H (Some r) cs extra s1 = (Inr rs, s2)" "blocks_made H s1 (r # hs) s2 rs cs"
    "ev_ok (pc_evictor s2)" "last = (if rs = [] then Some r else Some (List.last rs))" "prev_in last (rev rs @ r # hs)" "length rs = length cs"
    "count_new_loop H s2 ?bs extra (hash_after s2 last) rest \<le> pc_num_free_blocks s2"
    using Cons.IH [OF r(2) ev1 _ _ _ Cons.prems(6) room1] r(7) Cons.prems(5) bs1 by (auto simp: prev_in_def)
  have "pc_obj s2 r = pc_obj s1 r" by (rule held_frame [OF r(2)]) (use rs(2) in \<open>simp_all add: blocks_made_def\<close>)
  then have "blocks_made H s hs s2 (r # rs) (c # cs)"
    using rs(2) r(3-5) by (auto simp: blocks_made_def intro: frame_trans grow_trans)
  moreover have "pc_allocate_immutable_blocks H prev (c # cs) extra s = (Inr (r # rs), s2)"
    using r(1) rs(1) by (simp add: bind_act_def ret_def)
  ultimately show ?case using rs(3-7) by auto
qed

end
