(* ===== verification/PrefixReset.thy ===== *)
theory PrefixReset
  imports PrefixAdmit
begin

text \<open>
  \<open>reset_prefix_cache\<close> evicts block after block until the evictor is empty. Its loop ends because
  every round shrinks the evictor, and it leaves the allocator as it was created. On the way the
  trackers of the evicted blocks are active although nobody holds the blocks, so the invariant of
  the loop is weaker than the one of the allocator.
\<close>

section \<open>The loop\<close>

definition draining :: "pc_alloc \<Rightarrow> bool" where
  "draining s \<longleftrightarrow> ev_ok (pc_evictor s) \<and> phys_ok (abs_phys s) \<and> distinct (na_free (pc_hashless s))
     \<and> dom (map_of (pc_rc s)) = set (na_all (pc_hashless s)) \<and> dom (map_of (pc_tracker s)) = set (na_all (pc_hashless s))
     \<and> (\<forall>i n. map_of (pc_rc s) i = Some n \<longrightarrow> n = 0)
     \<and> (\<forall>i md. map_of (ev_free_table (pc_evictor s)) i = Some md \<longrightarrow> (\<exists>t. map_of (pc_tracker s) i = Some t \<and> \<not> bt_active t))"

text \<open>What the loop leaves alone.\<close>

definition same_pool :: "pc_alloc \<Rightarrow> pc_alloc \<Rightarrow> bool" where
  "same_pool s s' \<longleftrightarrow> na_all (pc_hashless s') = na_all (pc_hashless s) \<and> na_block_size (pc_hashless s') = na_block_size (pc_hashless s)
     \<and> na_pool (pc_hashless s') = na_pool (pc_hashless s) \<and> na_heap (pc_hashless s') = na_heap (pc_hashless s)"

lemma same_pool_trans: "same_pool s s' \<Longrightarrow> same_pool s' s'' \<Longrightarrow> same_pool s s''"
  by (simp add: same_pool_def)

lemma delete_shorter: "map_of d k = Some v \<Longrightarrow> dict_wf d \<Longrightarrow> length d = Suc (length (AList.delete k d))"
proof (induction d)
  case (Cons p d)
  obtain j u where p: "p = (j, u)" by (cases p)
  show ?case
  proof (cases "j = k")
    case True
    then have "\<forall>q \<in> set d. fst q \<noteq> k" using Cons.prems p by (auto simp: dict_wf_def)
    then have "filter (\<lambda>(k', _). k \<noteq> k') d = d" by (auto simp: filter_id_conv)
    then show ?thesis using True p by (simp add: AList.delete_eq)
  next
    case False
    then show ?thesis using Cons p by (simp add: AList.delete_eq dict_wf_def)
  qed
qed simp

lemma drain_step:
  assumes d: "draining s" and ne: "ev_num_blocks (pc_evictor s) = Suc n"
  obtains i s1 s2 where "maybe_allocate_evicted_block_id s = (Inr (Some i), s1)" "hashless (na_free_block_id i) s1 = (Inr (), s2)"
    "draining s2" "ev_num_blocks (pc_evictor s2) = n" "same_pool s s2"
proof -
  have ok: "phys_ok (abs_phys s)" and evok: "ev_ok (pc_evictor s)" using d by (simp_all add: draining_def)
  obtain i md ev' where e: "evict (pc_evictor s) = (Inr (i, md_content_hash md), ev')" "map_of (ev_free_table (pc_evictor s)) i = Some md"
    "ev_free_table ev' = AList.delete i (ev_free_table (pc_evictor s))" "ev_ok ev'"
    using evict_facts [OF evok] ne unfolding ev_num_blocks_def by force
  let ?h = "md_content_hash md"
  have p: "ph_evict (abs_phys s) i = Some ?h" using e(2) by (simp add: abs_phys_def)
  have c: "map_of (pc_cached s) ?h = Some i" and n0: "map_of (pc_rc s) i = Some 0"
    using phys_okD(2,3) [OF ok p] by (simp_all add: phys_rc phys_cached)
  have nf: "i \<notin> set (na_free (pc_hashless s))" using phys_okD(9) [OF ok, of i] p by (auto simp: abs_phys_def)
  obtain t where t: "map_of (pc_tracker s) i = Some t" "\<not> bt_active t" using d e(2) unfolding draining_def by blast
  let ?s = "s\<lparr>pc_evictor := ev', pc_cached := AList.delete ?h (pc_cached s),
     pc_hashless := (pc_hashless s)\<lparr>na_refcounts := AList.update i 1 (pc_rc s)\<rparr>\<rparr>"
  let ?s1 = "set_tracker i (tracking False) ?s"
  have "track_block_id i False ?s = (Inr (), ?s1)" by (rule track_ok [where t = t]) (use t in simp_all)
  then have take: "maybe_allocate_evicted_block_id s = (Inr (Some i), ?s1)"
    using ne e(1) c n0 by (simp add: maybe_allocate_evicted_block_id_def bind_act_def lens_defs act_defs rc_incr_def rc_get_def)
  let ?s2 = "?s1\<lparr>pc_hashless := (pc_hashless ?s1)\<lparr>na_refcounts := AList.update i 0 (AList.update i 1 (pc_rc s)), na_free := i # na_free (pc_hashless s)\<rparr>\<rparr>"
  have rel: "hashless (na_free_block_id i) ?s1 = (Inr (), ?s2)"
    by (simp add: na_free_block_id_def na_release_id_def bind_act_def lens_defs act_defs rc_decr_def set_tracker_def)
  have abs: "abs_phys ?s2 = ph_release i (ph_take_evicted i ?h (abs_phys s))"
    using e(3) by (auto simp: abs_phys_def ph_release_def ph_take_evicted_def set_tracker_def fun_eq_iff delete_conv')
  have ok1: "phys_ok (ph_take_evicted i ?h (abs_phys s))" by (rule phys_ok_take_evicted [OF ok p])
  have "i \<notin> ran (ph_cached (ph_take_evicted i ?h (abs_phys s)))"
    using phys_okD(8) [OF ok] phys_okD(3) [OF ok p] by (auto simp: ph_take_evicted_def ran_def split: if_splits)
  then have ok2: "phys_ok (abs_phys ?s2)" unfolding abs by (rule phys_ok_release [OF ok1, where n = 1]) (simp_all add: ph_take_evicted_def)
  have "draining ?s2"
    unfolding draining_def
  proof (intro conjI ok2)
    show "\<forall>j md. map_of (ev_free_table (pc_evictor ?s2)) j = Some md \<longrightarrow> (\<exists>t. map_of (pc_tracker ?s2) j = Some t \<and> \<not> bt_active t)"
      using d e(3) by (auto simp: draining_def set_tracker_def delete_conv' split: if_splits)
    show "\<forall>j n. map_of (pc_rc ?s2) j = Some n \<longrightarrow> n = 0" using d by (auto simp: draining_def set_tracker_def split: if_splits)
  qed (use d e(4) nf n0 t in \<open>auto simp: draining_def set_tracker_def\<close>)
  moreover have "ev_num_blocks (pc_evictor ?s2) = n"
    using delete_shorter [OF e(2)] evok ne e(3) by (simp add: ev_num_blocks_def set_tracker_def ev_ok_def)
  ultimately show thesis by (rule that [OF take rel]) (simp add: same_pool_def set_tracker_def)
qed

lemma reset_loop_drains:
  "draining s \<Longrightarrow> ev_num_blocks (pc_evictor s) = n \<Longrightarrow>
   \<exists>s'. reset_loop (Suc n) s = (Inr (), s') \<and> draining s' \<and> ev_num_blocks (pc_evictor s') = 0 \<and> same_pool s s'"
proof (induction n arbitrary: s)
  case 0
  then have "maybe_allocate_evicted_block_id s = (Inr None, s)" by (simp add: maybe_allocate_evicted_block_id_def)
  with 0 show ?case by (simp add: bind_act_def ret_def same_pool_def)
next
  case (Suc n)
  obtain i s1 s2 where s2: "maybe_allocate_evicted_block_id s = (Inr (Some i), s1)" "hashless (na_free_block_id i) s1 = (Inr (), s2)"
    "draining s2" "ev_num_blocks (pc_evictor s2) = n" "same_pool s s2" by (rule drain_step [OF Suc.prems])
  from Suc.IH [OF s2(3,4)] obtain s' where "reset_loop (Suc n) s2 = (Inr (), s')" "draining s'" "ev_num_blocks (pc_evictor s') = 0" "same_pool s2 s'"
    by blast
  with s2 show ?case using same_pool_trans by (auto simp: bind_act_def simp del: reset_loop.simps(2)) (simp add: bind_act_def)
qed

lemma drained:
  assumes d: "draining s" and e: "ev_num_blocks (pc_evictor s) = 0"
  shows "pc_cached s = []" "set (na_free (pc_hashless s)) = set (na_all (pc_hashless s))"
proof -
  have ok: "phys_ok (abs_phys s)" and rc: "\<And>i n. map_of (pc_rc s) i = Some n \<Longrightarrow> n = 0"
    and dom: "dom (map_of (pc_rc s)) = set (na_all (pc_hashless s))" using d by (simp_all add: draining_def)
  have ev: "ph_evict (abs_phys s) i = None" for i using e by (simp add: abs_phys_def ev_num_blocks_def)
  have free: "i \<in> set (na_free (pc_hashless s))" if "map_of (pc_rc s) i = Some n" for i n
    using phys_okD(5) [OF ok, of i] ev [of i] rc [OF that] that by (simp add: phys_rc abs_phys_def)
  have "map_of (pc_cached s) h = None" for h
  proof (cases "map_of (pc_cached s) h")
    case (Some i)
    then obtain n where "map_of (pc_rc s) i = Some n" using phys_okD(7) [OF ok, of h i] by (auto simp: phys_rc phys_cached)
    from free [OF this] phys_okD(6) [OF ok, of h i] Some show ?thesis by (simp add: abs_phys_def)
  qed
  then show "pc_cached s = []" by (simp add: map_of_eq_empty_iff [symmetric] fun_eq_iff del: map_of_eq_empty_iff)
  show "set (na_free (pc_hashless s)) = set (na_all (pc_hashless s))"
  proof (intro equalityI subsetI)
    show "i \<in> set (na_all (pc_hashless s))" if "i \<in> set (na_free (pc_hashless s))" for i
      using phys_okD(1) [OF ok, of i] that dom by (auto simp: abs_phys_def)
    show "i \<in> set (na_free (pc_hashless s))" if "i \<in> set (na_all (pc_hashless s))" for i
      using that free unfolding dom [symmetric] by blast
  qed
qed

section \<open>Reset\<close>

lemma good_draining:
  assumes inv: "pc_inv H s []" and ev: "ev_ok (pc_evictor s)"
  shows "draining s"
proof -
  have good: "pc_good s" and hi: "held_inv H s [] (\<lambda>_. 0)" using inv by (simp_all add: pc_inv_def)
  have rc: "n = 0" if "map_of (pc_rc s) i = Some n" for i n using held_inv_count [OF hi that] by (simp add: holders_def)
  have "\<exists>t. map_of (pc_tracker s) i = Some t \<and> \<not> bt_active t" if "map_of (ev_free_table (pc_evictor s)) i = Some md" for i md
  proof -
    have "ph_refs (abs_phys s) i = Some 0" using phys_okD(2) [of "abs_phys s" i] good that by (simp add: pc_good_def abs_phys_def)
    then show ?thesis using pc_good_tracker [OF good, of i 0] by (auto simp: phys_rc)
  qed
  with good ev rc show ?thesis by (auto simp: draining_def pc_good_def pc_wf_def)
qed

lemma map_of_const: "map_of (map (\<lambda>(i, _). (i, c)) d) i = map_option (\<lambda>_. c) (map_of d i)"
  by (induction d) auto

lemma reset_result:
  assumes inv: "pc_inv H s []" and ev: "ev_ok (pc_evictor s)"
  obtains s' where "reset_prefix_cache s = (Inr True, s')" "pc_inv H s' []" "abs_phys s' = ph_init (na_all (pc_hashless s))"
    "pc_num_total_blocks s' = pc_num_total_blocks s"
proof -
  have good: "pc_good s" using inv by (simp add: pc_inv_def)
  have "held_ids s [] = {}" by (simp add: held_ids_def)
  with num_free_held [OF inv] have free: "pc_num_free_blocks s = pc_num_total_blocks s" by simp
  obtain s1 where s1: "reset_loop (Suc (ev_num_blocks (pc_evictor s))) s = (Inr (), s1)" "draining s1" "ev_num_blocks (pc_evictor s1) = 0" "same_pool s s1"
    using reset_loop_drains [OF good_draining [OF inv ev] refl] by blast
  note dr = drained [OF s1(2,3)]
  let ?s = "s1\<lparr>pc_evictor := evictor_new, pc_tracker := map (\<lambda>(i, _). (i, tracker_init)) (pc_tracker s1), pc_metric := cache_metric_new\<rparr>"
  have run: "reset_prefix_cache s = (Inr True, ?s)"
    using s1(1) dr(1) free by (simp add: reset_prefix_cache_def bind_act_def act_defs del: reset_loop.simps)
  have rc: "map_of (pc_rc s1) = (\<lambda>i. if i \<in> set (na_all (pc_hashless s1)) then Some 0 else None)"
    using s1(2) by (auto simp: draining_def dom_def fun_eq_iff)
  have all: "na_all (pc_hashless s1) = na_all (pc_hashless s)" using s1(4) by (simp add: same_pool_def)
  have abs: "abs_phys ?s = ph_init (na_all (pc_hashless s))"
    using dr rc all by (simp add: abs_phys_def ph_init_def evictor_new_def)
  have "\<not> bt_active tracker_init" by (simp add: tracker_init_def)
  then have "pc_wf ?s"
    using s1(2,4) good rc dr(1) unfolding pc_wf_def pc_good_def draining_def same_pool_def
    by (auto simp: map_of_const evictor_new_def dom_def split: if_splits)
  moreover have "phys_ok (ph_init ids)" for ids by (auto simp: phys_ok_def ph_init_def dom_def split: if_splits)
  moreover have "held_inv H ?s [] (\<lambda>_. 0)" using rc by (simp add: held_inv_def holders_def)
  ultimately have "pc_inv H ?s []" using abs all inv s1(4) by (simp add: pc_inv_def pc_good_def same_pool_def)
  from that [OF run this abs] all show thesis by (simp add: pc_num_total_blocks_def na_num_total_blocks_def)
qed


text \<open>One block is allocated, sealed and freed again, so that it is cached and evictable.\<close>

lemma demo_freed_eval:
  "\<exists>s1 s2 h n la. pc_allocate_immutable_block H None [7, 8] None demo_new = (Inr 0, s1) \<and> pc_free H 0 False s1 = (Inr (), s2)
     \<and> pc_evictor s2 = ev_add 0 h n la evictor_new \<and> pc_num_total_blocks s2 = 2"
  by (simp add: demo_simps pc_defs ev_contains_def pc_free_def pc_free_block_id_def decr_refcount_cached_block_def rc_decr_def untrack_block_id_def
      tracker_disable_def pc_num_total_blocks_def na_num_total_blocks_def) blast


end
