(* ===== verification/CpuGpu.thy ===== *)
theory CpuGpu
  imports PrefixAdmit
begin

text \<open>
  \<open>src/vllm/vllm/core/block/cpu_gpu_block_allocator.py\<close>: two block allocators, one per device, and
  the swapping of blocks between them. The block objects of both live in one heap. A block
  object belongs to the allocator whose pool made it, whatever device its identifier is on.
\<close>

section \<open>One device\<close>

datatype allocator = Naive naive_alloc | Prefix pc_alloc

fun dispatch :: "(naive_alloc, 'a) act \<Rightarrow> (pc_alloc, 'a) act \<Rightarrow> (allocator, 'a) act" where
  "dispatch f g (Naive n) = (case f n of (x, n') \<Rightarrow> (x, Naive n'))"
| "dispatch f g (Prefix p) = (case g p of (x, p') \<Rightarrow> (x, Prefix p'))"

fun al_naive :: "allocator \<Rightarrow> naive_alloc" where
  "al_naive (Naive n) = n"
| "al_naive (Prefix p) = pc_hashless p"

fun al_set_heap :: "heap \<Rightarrow> allocator \<Rightarrow> allocator" where
  "al_set_heap hp (Naive n) = Naive (n\<lparr>na_heap := hp\<rparr>)"
| "al_set_heap hp (Prefix p) = Prefix (p\<lparr>pc_hashless := (pc_hashless p)\<lparr>na_heap := hp\<rparr>\<rparr>)"

definition al_all :: "allocator \<Rightarrow> block_id list" where
  "al_all a = na_all (al_naive a)"

definition al_num_free :: "allocator \<Rightarrow> nat" where
  "al_num_free a = (case a of Naive n \<Rightarrow> na_num_free_blocks n | Prefix p \<Rightarrow> pc_num_free_blocks p)"

definition al_num_total :: "allocator \<Rightarrow> nat" where
  "al_num_total a = na_num_total_blocks (al_naive a)"

definition al_allocate_mutable_block :: "(string \<Rightarrow> int) \<Rightarrow> ref option \<Rightarrow> int option \<Rightarrow> (allocator, ref) act" where
  "al_allocate_mutable_block H prev extra = dispatch (na_allocate_mutable_block prev) (pc_allocate_mutable_block H prev extra)"

definition al_allocate_immutable_block :: "(string \<Rightarrow> int) \<Rightarrow> ref option \<Rightarrow> int list \<Rightarrow> int option \<Rightarrow> (allocator, ref) act" where
  "al_allocate_immutable_block H prev toks extra =
     dispatch (na_allocate_immutable_block prev toks) (pc_allocate_immutable_block H prev toks extra)"

definition al_allocate_immutable_blocks ::
  "(string \<Rightarrow> int) \<Rightarrow> ref option \<Rightarrow> int list list \<Rightarrow> int option \<Rightarrow> (allocator, ref list) act" where
  "al_allocate_immutable_blocks H prev tokss extra =
     dispatch (na_allocate_immutable_blocks prev tokss) (pc_allocate_immutable_blocks H prev tokss extra)"

definition al_free :: "(string \<Rightarrow> int) \<Rightarrow> ref \<Rightarrow> (allocator, unit) act" where
  "al_free H r = dispatch (na_free_obj r False) (pc_free H r False)"

definition al_fork :: "ref \<Rightarrow> (allocator, ref list) act" where
  "al_fork r = dispatch (na_fork r) (pc_fork r)"

definition al_append :: "(string \<Rightarrow> int) \<Rightarrow> int list \<Rightarrow> ref \<Rightarrow> (allocator, unit) act" where
  "al_append H toks r = dispatch (na_append_token_ids toks r) (pc_append_token_ids H toks r)"

section \<open>Both devices\<close>

record dev_alloc =
  da_gpu :: allocator
  da_cpu :: allocator
  da_heap :: heap
  da_swap_mapping :: "(block_id, block_id) dict"
  da_null :: "ref option"

definition da_of :: "device \<Rightarrow> dev_alloc \<Rightarrow> allocator" where
  "da_of d s = al_set_heap (da_heap s) (case d of GPU \<Rightarrow> da_gpu s | CPU \<Rightarrow> da_cpu s)"

definition da_put :: "device \<Rightarrow> allocator \<Rightarrow> dev_alloc \<Rightarrow> dev_alloc" where
  "da_put d a s =
     (let s' = s\<lparr>da_heap := na_heap (al_naive a)\<rparr>
      in case d of GPU \<Rightarrow> s'\<lparr>da_gpu := a\<rparr> | CPU \<Rightarrow> s'\<lparr>da_cpu := a\<rparr>)"

definition on_dev :: "device \<Rightarrow> (allocator, 'a) act \<Rightarrow> (dev_alloc, 'a) act" where
  "on_dev d = zoom (da_of d) (da_put d)"

text \<open>\<open>_block_ids_to_allocator\<close>, filled for the CPU first.\<close>

definition da_device :: "dev_alloc \<Rightarrow> block_id \<Rightarrow> device option" where
  "da_device s i = (if i \<in> set (al_all (da_gpu s)) then Some GPU else if i \<in> set (al_all (da_cpu s)) then Some CPU else None)"

text \<open>The allocator an object refers to.\<close>

definition da_owner :: "dev_alloc \<Rightarrow> ref \<Rightarrow> device" where
  "da_owner s r = (if r \<in> set (bp_pool (na_pool (al_naive (da_gpu s)))) then GPU else CPU)"

definition da_init :: "allocator \<Rightarrow> allocator \<Rightarrow> heap \<Rightarrow> dev_alloc res" where
  "da_init cpu gpu hp =
     (if set (al_all cpu) \<inter> set (al_all gpu) \<noteq> {} then Inl AssertionError
      else Inr \<lparr>da_gpu = gpu, da_cpu = cpu, da_heap = hp, da_swap_mapping = [], da_null = None\<rparr>)"

text \<open>\<open>reserved\<close> is 1 on the platform whose block 0 is padding and 0 elsewhere.\<close>

definition da_create :: "nat \<Rightarrow> string \<Rightarrow> nat \<Rightarrow> nat \<Rightarrow> nat \<Rightarrow> dev_alloc res" where
  "da_create reserved allocator_type num_gpu num_cpu bs =
     (let ids = [reserved..<num_gpu + num_cpu]; n = num_gpu - reserved;
          gpu_ids = take n ids; cpu_ids = drop n ids
      in if allocator_type = ''naive'' then
           if num_gpu < reserved then Inl AssertionError
           else
             bind_res (naive_new n bs (Some gpu_ids) None []) (\<lambda>g.
             bind_res (naive_new num_cpu bs (Some cpu_ids) None (na_heap g)) (\<lambda>c.
               da_init (Naive c) (Naive g) (na_heap c)))
         else if allocator_type = ''prefix_caching'' then
           if num_gpu < reserved then Inl AssertionError
           else
             bind_res (pc_new n bs (Some gpu_ids) []) (\<lambda>g.
             bind_res (pc_new num_cpu bs (Some cpu_ids) (na_heap (pc_hashless g))) (\<lambda>c.
               da_init (Prefix c) (Prefix g) (na_heap (pc_hashless c))))
         else Inl ValueError)"

section \<open>Allocation and release\<close>

definition da_allocate_mutable_block :: "(string \<Rightarrow> int) \<Rightarrow> ref option \<Rightarrow> device \<Rightarrow> int option \<Rightarrow> (dev_alloc, ref) act" where
  "da_allocate_mutable_block H prev d extra = on_dev d (al_allocate_mutable_block H prev extra)"

definition da_allocate_immutable_blocks ::
  "(string \<Rightarrow> int) \<Rightarrow> ref option \<Rightarrow> int list list \<Rightarrow> device \<Rightarrow> int option \<Rightarrow> (dev_alloc, ref list) act" where
  "da_allocate_immutable_blocks H prev tokss d extra = on_dev d (al_allocate_immutable_blocks H prev tokss extra)"

definition da_allocate_immutable_block ::
  "(string \<Rightarrow> int) \<Rightarrow> ref option \<Rightarrow> int list \<Rightarrow> device \<Rightarrow> int option \<Rightarrow> (dev_alloc, ref) act" where
  "da_allocate_immutable_block H prev toks d extra = on_dev d (al_allocate_immutable_block H prev toks extra)"

text \<open>The null block wraps an ordinary block that nothing else refers to; it is known by that block.\<close>

definition da_allocate_or_get_null_block :: "(string \<Rightarrow> int) \<Rightarrow> (dev_alloc, ref) act" where
  "da_allocate_or_get_null_block H s =
     (case da_null s of
        Some r \<Rightarrow> (Inr r, s)
      | None \<Rightarrow>
          bind_act (da_allocate_mutable_block H None GPU None) (\<lambda>r.
          bind_act (modify (\<lambda>s. s\<lparr>da_null := Some r\<rparr>)) (\<lambda>_. ret r)) s)"

definition da_device_of_block :: "ref \<Rightarrow> (dev_alloc, device) act" where
  "da_device_of_block r s =
     (case b_block_id (da_heap s ! r) of
        None \<Rightarrow> (Inl AssertionError, s)
      | Some i \<Rightarrow> (case da_device s i of None \<Rightarrow> (Inl KeyError, s) | Some d \<Rightarrow> (Inr d, s)))"

definition da_free :: "(string \<Rightarrow> int) \<Rightarrow> ref \<Rightarrow> (dev_alloc, unit) act" where
  "da_free H r =
     bind_act (gets (\<lambda>s. da_null s = Some r)) (\<lambda>null.
       if null then ret () else bind_act (da_device_of_block r) (\<lambda>d. on_dev d (al_free H r)))"

definition da_fork :: "ref \<Rightarrow> (dev_alloc, ref list) act" where
  "da_fork r =
     bind_act (gets (\<lambda>s. da_null s = Some r)) (\<lambda>null.
     bind_act (check (\<not> null)) (\<lambda>_. bind_act (da_device_of_block r) (\<lambda>d. on_dev d (al_fork r))))"

text \<open>\<open>append_token_ids\<close> of a block runs in the allocator that made the object.\<close>

definition da_append :: "(string \<Rightarrow> int) \<Rightarrow> int list \<Rightarrow> ref \<Rightarrow> (dev_alloc, unit) act" where
  "da_append H toks r =
     bind_act (gets (\<lambda>s. (da_null s = Some r, da_owner s r))) (\<lambda>(null, d).
       if null then raise ValueError else on_dev d (al_append H toks r))"

section \<open>Queries\<close>

definition da_num_free :: "device \<Rightarrow> dev_alloc \<Rightarrow> nat" where
  "da_num_free d s = al_num_free (da_of d s)"

definition da_num_total :: "device \<Rightarrow> dev_alloc \<Rightarrow> nat" where
  "da_num_total d s = al_num_total (da_of d s)"

definition da_physical_block_id :: "device \<Rightarrow> block_id \<Rightarrow> dev_alloc \<Rightarrow> nat res" where
  "da_physical_block_id d i s =
     (case da_of d s of Naive n \<Rightarrow> na_physical_block_id i n | Prefix p \<Rightarrow> pc_physical_block_id i p)"

definition da_full_blocks_touched :: "(string \<Rightarrow> int) \<Rightarrow> ref list \<Rightarrow> device \<Rightarrow> (dev_alloc, nat) act" where
  "da_full_blocks_touched H rs d = on_dev d (dispatch (\<lambda>n. (Inr (na_full_blocks_touched rs n), n)) (pc_full_blocks_touched H rs))"

text \<open>Ceiling division as \<open>-(-a // b)\<close>.\<close>

definition cdiv :: "int \<Rightarrow> int \<Rightarrow> int res" where
  "cdiv a b = (if b = 0 then Inl ZeroDivisionError else Inr (- (- a div b)))"

definition da_num_new_blocks_needed :: "(string \<Rightarrow> int) \<Rightarrow> int list \<Rightarrow> int option \<Rightarrow> int \<Rightarrow> int \<Rightarrow> dev_alloc \<Rightarrow> int res" where
  "da_num_new_blocks_needed H toks extra lookahead bs s =
     bind_res (cdiv (int (length toks) + lookahead) bs) (\<lambda>total_blocks.
       (case da_of GPU s of
          Naive _ \<Rightarrow> Inr total_blocks
        | Prefix p \<Rightarrow>
            bind_res (count_new_blocks_for_token_ids H toks extra p) (\<lambda>base_blocks.
            bind_res (cdiv (int (length toks)) bs) (\<lambda>token_blocks.
              Inr (int base_blocks + max 0 (total_blocks - token_blocks))))))"

definition da_is_block_active :: "block_id \<Rightarrow> dev_alloc \<Rightarrow> bool res" where
  "da_is_block_active i s =
     (case da_device s i of
        None \<Rightarrow> Inr False
      | Some d \<Rightarrow> (case da_of d s of Prefix p \<Rightarrow> is_block_active i p | Naive _ \<Rightarrow> Inr True))"

definition da_is_block_computed :: "block_id \<Rightarrow> dev_alloc \<Rightarrow> bool res" where
  "da_is_block_computed i s =
     (case da_device s i of
        None \<Rightarrow> Inr False
      | Some d \<Rightarrow> (case da_of d s of Prefix p \<Rightarrow> block_is_computed i p | Naive _ \<Rightarrow> Inr True))"

definition da_clear_copy_on_writes :: "(dev_alloc, cows) act" where
  "da_clear_copy_on_writes = on_dev GPU (dispatch na_clear_copy_on_writes pc_clear_copy_on_writes)"

definition da_mark_accessed_one :: "pyfloat \<Rightarrow> block_id \<Rightarrow> (dev_alloc, unit) act" where
  "da_mark_accessed_one now i =
     bind_act (gets (\<lambda>s. da_device s i)) (\<lambda>d.
       (case d of None \<Rightarrow> ret () | Some d \<Rightarrow> on_dev d (dispatch (ret ()) (pc_mark_blocks_as_accessed [i] now))))"

definition da_mark_blocks_as_accessed :: "block_id list \<Rightarrow> pyfloat \<Rightarrow> (dev_alloc, unit) act" where
  "da_mark_blocks_as_accessed ids now = for_each (da_mark_accessed_one now) ids"

definition da_mark_blocks_as_computed_on_device :: "block_id list \<Rightarrow> device \<Rightarrow> (dev_alloc, unit) act" where
  "da_mark_blocks_as_computed_on_device ids d = on_dev d (dispatch (ret ()) (pc_mark_blocks_as_computed ids))"

definition da_mark_blocks_as_computed :: "block_id list \<Rightarrow> (dev_alloc, unit) act" where
  "da_mark_blocks_as_computed ids = da_mark_blocks_as_computed_on_device ids GPU"

definition da_common_computed_block_ids :: "block_id list list \<Rightarrow> dev_alloc \<Rightarrow> block_id list" where
  "da_common_computed_block_ids idss s =
     (case da_of GPU s of Naive _ \<Rightarrow> [] | Prefix _ \<Rightarrow> get_common_computed_block_ids idss)"

definition da_all_block_ids :: "dev_alloc \<Rightarrow> block_id set" where
  "da_all_block_ids s = set (al_all (da_cpu s)) \<union> set (al_all (da_gpu s))"

definition da_hit_rate :: "device \<Rightarrow> dev_alloc \<Rightarrow> pyfloat res" where
  "da_hit_rate d s = (case da_of d s of Naive _ \<Rightarrow> Inr (-1) | Prefix p \<Rightarrow> pc_hit_rate p)"

definition da_reset_device :: "device \<Rightarrow> (dev_alloc, bool) act" where
  "da_reset_device d = on_dev d (dispatch (ret True) reset_prefix_cache)"

definition da_reset_prefix_cache :: "device option \<Rightarrow> (dev_alloc, bool) act" where
  "da_reset_prefix_cache dev =
     (case dev of
        Some d \<Rightarrow> da_reset_device d
      | None \<Rightarrow> bind_act (da_reset_device CPU) (\<lambda>ok. if ok then da_reset_device GPU else ret False))"

definition da_find_cached_blocks_prefix :: "int list \<Rightarrow> device \<Rightarrow> dev_alloc \<Rightarrow> int list res" where
  "da_find_cached_blocks_prefix hs d s =
     (case da_of d s of Naive _ \<Rightarrow> Inr [] | Prefix p \<Rightarrow> find_cached_blocks_prefix p hs)"

definition da_computed_cached_block_hashes :: "device \<Rightarrow> dev_alloc \<Rightarrow> int list res" where
  "da_computed_cached_block_hashes d s =
     (case da_of d s of Naive _ \<Rightarrow> Inr [] | Prefix p \<Rightarrow> get_computed_cached_block_hashes p)"

section \<open>Swapping\<close>

definition swap_pairs :: "block_id option list \<Rightarrow> block_id option list \<Rightarrow> (block_id \<times> block_id) list" where
  "swap_pairs src dst = [(i, j). (Some i, Some j) \<leftarrow> zip src dst]"

definition dict_of_pairs :: "('k \<times> 'v) list \<Rightarrow> ('k, 'v) dict \<Rightarrow> ('k, 'v) dict" where
  "dict_of_pairs ps d = fold (\<lambda>(k, v). AList.update k v) ps d"

definition da_swap :: "(string \<Rightarrow> int) \<Rightarrow> ref list \<Rightarrow> device \<Rightarrow> device \<Rightarrow> (dev_alloc, (block_id, block_id) dict) act" where
  "da_swap H rs src dst =
     bind_act (gets (\<lambda>s. map (\<lambda>r. b_block_id (da_heap s ! r)) rs)) (\<lambda>src_ids.
     bind_act (on_dev src (dispatch (na_swap_out rs) (pc_swap_out H rs))) (\<lambda>_.
     bind_act (on_dev dst (dispatch (na_swap_in rs) (pc_swap_in H rs))) (\<lambda>_.
     bind_act (gets (\<lambda>s. map (\<lambda>r. b_block_id (da_heap s ! r)) rs)) (\<lambda>dst_ids.
       let ps = swap_pairs src_ids dst_ids
       in bind_act (modify (\<lambda>s. s\<lparr>da_swap_mapping := dict_of_pairs ps (da_swap_mapping s)\<rparr>)) (\<lambda>_.
            ret (dict_of_pairs ps []))))))"

definition da_get_and_reset_swaps :: "(dev_alloc, (block_id \<times> block_id) list) act" where
  "da_get_and_reset_swaps s = (Inr (da_swap_mapping s), s\<lparr>da_swap_mapping := []\<rparr>)"

end
