(* ===== verification/BlockTable.thy ===== *)
theory BlockTable
  imports CpuGpu
begin

text \<open>
  \<open>src/vllm/vllm/core/block/block_table.py\<close>: the blocks of one sequence. The table calls an allocator
  through the interface \<open>DeviceAwareBlockAllocator\<close>, which is a record of operations here; the
  allocator for two devices of \<open>CpuGpu\<close> is one such record.
\<close>

section \<open>The allocator interface\<close>

record 's dev_ops =
  op_heap :: "'s \<Rightarrow> heap"
  op_allocate_mutable_block :: "ref option \<Rightarrow> device \<Rightarrow> int option \<Rightarrow> ('s, ref) act"
  op_allocate_immutable_blocks :: "ref option \<Rightarrow> int list list \<Rightarrow> device \<Rightarrow> int option \<Rightarrow> ('s, ref list) act"
  op_append :: "int list \<Rightarrow> ref \<Rightarrow> ('s, unit) act"
  op_free :: "ref \<Rightarrow> ('s, unit) act"
  op_fork :: "ref \<Rightarrow> ('s, ref list) act"
  op_null_block :: "('s, ref) act"

definition cpu_gpu_ops :: "(string \<Rightarrow> int) \<Rightarrow> dev_alloc dev_ops" where
  "cpu_gpu_ops H =
     \<lparr>op_heap = da_heap, op_allocate_mutable_block = da_allocate_mutable_block H,
      op_allocate_immutable_blocks = da_allocate_immutable_blocks H, op_append = da_append H, op_free = da_free H,
      op_fork = da_fork, op_null_block = da_allocate_or_get_null_block H\<rparr>"

section \<open>State\<close>

record block_table =
  tb_block_size :: nat
  tb_blocks :: block_list
  tb_max_block_sliding_window :: "nat option"
  tb_num_full_slots :: nat

text \<open>A method of the table works on the table and the allocator.\<close>

type_synonym ('s, 'a) tb_act = "(block_table \<times> 's, 'a) act"

definition on_store :: "('s, 'a) act \<Rightarrow> ('s, 'a) tb_act" where
  "on_store = zoom snd (\<lambda>s (t, _). (t, s))"

definition on_list :: "'s dev_ops \<Rightarrow> (heap \<Rightarrow> (block_list, 'a) act) \<Rightarrow> ('s, 'a) tb_act" where
  "on_list ops f ts =
     (case f (op_heap ops (snd ts)) (tb_blocks (fst ts)) of (x, bl) \<Rightarrow> (x, ((fst ts)\<lparr>tb_blocks := bl\<rparr>, snd ts)))"

definition num_token_ids :: "heap \<Rightarrow> ref list \<Rightarrow> nat" where
  "num_token_ids hp rs = sum_list (map (\<lambda>r. length (b_token_ids (hp ! r))) rs)"

definition tb_new :: "'s dev_ops \<Rightarrow> nat \<Rightarrow> ref list \<Rightarrow> nat option \<Rightarrow> 's \<Rightarrow> block_table res" where
  "tb_new ops bs rs window s =
     bind_res (bl_new (op_heap ops s) rs) (\<lambda>bl.
       Inr \<lparr>tb_block_size = bs, tb_blocks = bl, tb_max_block_sliding_window = window,
            tb_num_full_slots = num_token_ids (op_heap ops s) (bl_blocks bl)\<rparr>)"

definition tb_is_allocated :: "block_table \<Rightarrow> bool" where
  "tb_is_allocated t \<longleftrightarrow> 0 < length (bl_blocks (tb_blocks t))"

definition tb_num_empty_slots :: "block_table \<Rightarrow> int" where
  "tb_num_empty_slots t = int (length (bl_blocks (tb_blocks t)) * tb_block_size t) - int (tb_num_full_slots t)"

definition get_num_required_blocks :: "int list \<Rightarrow> int \<Rightarrow> int \<Rightarrow> int res" where
  "get_num_required_blocks toks bs lookahead = cdiv (int (length toks) + lookahead) bs"

section \<open>Allocation\<close>

text \<open>\<open>chunk_list\<close> with a step of 0 raises.\<close>

definition chunk_list :: "nat \<Rightarrow> 'a list \<Rightarrow> 'a list list res" where
  "chunk_list n xs = (if n = 0 then Inl ValueError else Inr (chunks n xs))"

definition allocate_blocks_for_token_ids ::
  "'s dev_ops \<Rightarrow> ref option \<Rightarrow> int list \<Rightarrow> device \<Rightarrow> int option \<Rightarrow> ('s, ref list) tb_act" where
  "allocate_blocks_for_token_ids ops prev toks dev extra =
     bind_act (gets (\<lambda>(t, _). tb_block_size t)) (\<lambda>bs.
     bind_act (lift_res (chunk_list bs toks)) (\<lambda>cs.
       let full = filter (\<lambda>c. length c = bs) cs; tails = filter (\<lambda>c. length c \<noteq> bs) cs
       in bind_act (if full = [] then ret []
                    else on_store (op_allocate_immutable_blocks ops prev full dev extra)) (\<lambda>rs.
          let prev' = (if full = [] then prev else Some (last rs))
          in (case tails of
                [] \<Rightarrow> ret rs
              | [tail] \<Rightarrow>
                  bind_act (on_store (op_allocate_mutable_block ops prev' dev extra)) (\<lambda>r.
                  bind_act (on_store (op_append ops tail r)) (\<lambda>_. ret (rs @ [r])))
              | _ \<Rightarrow> raise AssertionError))))"

definition tb_update :: "'s dev_ops \<Rightarrow> ref list \<Rightarrow> ('s, unit) tb_act" where
  "tb_update ops rs = on_list ops (\<lambda>hp. bl_update hp rs)"

definition tb_allocate :: "'s dev_ops \<Rightarrow> int list \<Rightarrow> device \<Rightarrow> int option \<Rightarrow> ('s, unit) tb_act" where
  "tb_allocate ops toks dev extra =
     bind_act (gets (\<lambda>(t, _). tb_is_allocated t)) (\<lambda>alloc.
     bind_act (check (\<not> alloc)) (\<lambda>_.
     bind_act (check (toks \<noteq> [])) (\<lambda>_.
     bind_act (allocate_blocks_for_token_ids ops None toks dev extra) (\<lambda>rs.
     bind_act (tb_update ops rs) (\<lambda>_.
       modify (\<lambda>(t, s). (t\<lparr>tb_num_full_slots := length toks\<rparr>, s)))))))"

section \<open>Growing\<close>

fun append_new_blocks :: "'s dev_ops \<Rightarrow> nat \<Rightarrow> int option \<Rightarrow> ('s, unit) tb_act" where
  "append_new_blocks ops 0 extra = ret ()"
| "append_new_blocks ops (Suc n) extra =
     bind_act (gets (\<lambda>(t, _). bl_blocks (tb_blocks t))) (\<lambda>rs.
     bind_act (check (rs \<noteq> [])) (\<lambda>_.
     bind_act (on_store (op_allocate_mutable_block ops (Some (last rs)) GPU extra)) (\<lambda>r.
     bind_act (on_list ops (\<lambda>hp. bl_append hp r)) (\<lambda>_. append_new_blocks ops n extra))))"

definition ensure_num_empty_slots :: "'s dev_ops \<Rightarrow> int \<Rightarrow> int option \<Rightarrow> ('s, unit) tb_act" where
  "ensure_num_empty_slots ops num_empty_slots extra =
     bind_act (gets fst) (\<lambda>t.
     bind_act (check (tb_is_allocated t)) (\<lambda>_.
       if num_empty_slots \<le> tb_num_empty_slots t then ret ()
       else bind_act (lift_res (cdiv (num_empty_slots - tb_num_empty_slots t) (int (tb_block_size t)))) (\<lambda>n.
              append_new_blocks ops (nat n) extra)))"

definition chunk_token_blocks_for_append :: "block_table \<Rightarrow> int list \<Rightarrow> int list list res" where
  "chunk_token_blocks_for_append t toks =
     (if toks = [] then Inr []
      else if tb_block_size t = 0 then Inl ZeroDivisionError
      else (let first = tb_block_size t - tb_num_full_slots t mod tb_block_size t
            in Inr (take first toks # chunks (tb_block_size t) (drop first toks))))"

definition bl_append_token_ids :: "'s dev_ops \<Rightarrow> nat \<Rightarrow> int list \<Rightarrow> ('s, unit) tb_act" where
  "bl_append_token_ids ops k toks =
     bind_act (gets (\<lambda>(t, _). bl_blocks (tb_blocks t))) (\<lambda>rs.
       if length rs \<le> k then raise IndexError
       else
         bind_act (gets (\<lambda>(_, s). b_block_id (op_heap ops s ! (rs ! k)))) (\<lambda>old_id.
         bind_act (on_store (op_append ops toks (rs ! k))) (\<lambda>_.
           on_list ops (\<lambda>hp. bl_refresh hp k old_id))))"

fun append_token_blocks :: "'s dev_ops \<Rightarrow> nat \<Rightarrow> int list list \<Rightarrow> ('s, unit) tb_act" where
  "append_token_blocks ops k [] = ret ()"
| "append_token_blocks ops k (c # cs) =
     bind_act (bl_append_token_ids ops k c) (\<lambda>_. append_token_blocks ops (Suc k) cs)"

text \<open>Blocks that the sliding window left behind are freed and replaced by the null block.\<close>

definition drop_one :: "'s dev_ops \<Rightarrow> ref \<Rightarrow> nat \<Rightarrow> ('s, unit) tb_act" where
  "drop_one ops null k =
     bind_act (gets (\<lambda>(t, _). bl_blocks (tb_blocks t))) (\<lambda>rs.
       if length rs \<le> k then raise IndexError
       else if rs ! k = null then ret ()
       else bind_act (on_store (op_free ops (rs ! k))) (\<lambda>_. on_list ops (\<lambda>hp. bl_set hp k null)))"

definition drop_window :: "'s dev_ops \<Rightarrow> int option \<Rightarrow> ('s, unit) tb_act" where
  "drop_window ops num_computed_slots =
     bind_act (gets fst) (\<lambda>t.
       (case tb_max_block_sliding_window t of
          None \<Rightarrow> ret ()
        | Some w \<Rightarrow>
            bind_act (on_store (op_null_block ops)) (\<lambda>null.
              (case num_computed_slots of
                 None \<Rightarrow> raise AssertionError
               | Some n \<Rightarrow>
                   if tb_block_size t = 0 then raise ZeroDivisionError
                   else for_each (drop_one ops null) [0..<nat (n div int (tb_block_size t) - int w)]))))"

definition tb_append_token_ids :: "'s dev_ops \<Rightarrow> int list \<Rightarrow> int \<Rightarrow> int option \<Rightarrow> int option \<Rightarrow> ('s, unit) tb_act" where
  "tb_append_token_ids ops toks lookahead num_computed_slots extra =
     bind_act (gets (\<lambda>(t, _). tb_is_allocated t)) (\<lambda>alloc.
     bind_act (check alloc) (\<lambda>_.
     bind_act (drop_window ops num_computed_slots) (\<lambda>_.
     bind_act (ensure_num_empty_slots ops (int (length toks) + lookahead) extra) (\<lambda>_.
     bind_act (gets fst) (\<lambda>t.
       if tb_block_size t = 0 then raise ZeroDivisionError
       else
         bind_act (lift_res (chunk_token_blocks_for_append t toks)) (\<lambda>cs.
         bind_act (append_token_blocks ops (tb_num_full_slots t div tb_block_size t) cs) (\<lambda>_.
           modify (\<lambda>(t, s). (t\<lparr>tb_num_full_slots := tb_num_full_slots t + length toks\<rparr>, s)))))))))"

section \<open>Sharing, release and queries\<close>

definition tb_fork :: "'s dev_ops \<Rightarrow> ('s, block_table) tb_act" where
  "tb_fork ops =
     bind_act (gets fst) (\<lambda>t.
     bind_act (check (tb_is_allocated t)) (\<lambda>_.
     bind_act (on_store (op_fork ops (last (bl_blocks (tb_blocks t))))) (\<lambda>rs.
     bind_act (gets snd) (\<lambda>s.
       lift_res (tb_new ops (tb_block_size t) rs (tb_max_block_sliding_window t) s)))))"

definition tb_free :: "'s dev_ops \<Rightarrow> ('s, unit) tb_act" where
  "tb_free ops =
     bind_act (gets (\<lambda>(t, _). bl_blocks (tb_blocks t))) (\<lambda>rs.
     bind_act (on_store (for_each (op_free ops) rs)) (\<lambda>_.
       modify (\<lambda>(t, s). (t\<lparr>tb_blocks := bl_reset (tb_blocks t)\<rparr>, s))))"

definition tb_physical_block_ids :: "block_table \<Rightarrow> block_id list" where
  "tb_physical_block_ids t = bl_block_ids (tb_blocks t)"

definition get_unseen_token_ids :: "block_table \<Rightarrow> int list \<Rightarrow> int list" where
  "get_unseen_token_ids t toks = drop (tb_num_full_slots t) toks"

definition get_all_token_ids :: "heap \<Rightarrow> block_table \<Rightarrow> int list" where
  "get_all_token_ids hp t = concat (map (\<lambda>r. b_token_ids (hp ! r)) (bl_blocks (tb_blocks t)))"

text \<open>\<open>1 + math.ceil((n - first) / block_size)\<close>\<close>

definition num_blocks_touched_by_append_slots :: "block_table \<Rightarrow> int list \<Rightarrow> int \<Rightarrow> int res" where
  "num_blocks_touched_by_append_slots t toks lookahead =
     (if tb_block_size t = 0 then Inl ZeroDivisionError
      else (let n = int (length toks) + lookahead;
                first = tb_block_size t - tb_num_full_slots t mod tb_block_size t
            in Inr (1 + \<lceil>rat_of_int (n - int first) / rat_of_nat (tb_block_size t)\<rceil>)))"

end
