(* ===== verification/BlockTableInv.thy ===== *)
theory BlockTableInv
  imports BlockTable
begin

text \<open>
  What a block table stores. The contract of an allocator is a locale; the lemmas about the
  table are proved once from it, and the prefix caching allocator on the GPU satisfies it.
\<close>

lemma on_store_Inr: "on_store f (t, s) = (Inr x, ts) \<longleftrightarrow> (\<exists>s'. f s = (Inr x, s') \<and> ts = (t, s'))"
  by (auto simp: on_store_def zoom_def split: prod.splits)

lemma on_list_Inr:
  "on_list ops f (t, s) = (Inr x, ts) \<longleftrightarrow> (\<exists>bl. f (op_heap ops s) (tb_blocks t) = (Inr x, bl) \<and> ts = (t\<lparr>tb_blocks := bl\<rparr>, s))"
  by (auto simp: on_list_def split: prod.splits)

section \<open>Contents\<close>

definition slice :: "nat \<Rightarrow> 'a list \<Rightarrow> nat \<Rightarrow> 'a list" where
  "slice bs xs k = take bs (drop (k * bs) xs)"

text \<open>The blocks hold consecutive slices of the tokens and are linked to their predecessors.\<close>

definition holds_tokens :: "heap \<Rightarrow> nat \<Rightarrow> ref list \<Rightarrow> int list \<Rightarrow> bool" where
  "holds_tokens hp bs rs toks \<longleftrightarrow> distinct rs \<and> length toks \<le> length rs * bs
     \<and> (\<forall>k < length rs. b_token_ids (hp ! (rs ! k)) = slice bs toks k
          \<and> b_prev (hp ! (rs ! k)) = (if k = 0 then None else Some (rs ! (k - 1))))"

definition ids_current :: "heap \<Rightarrow> block_list \<Rightarrow> bool" where
  "ids_current hp bl \<longleftrightarrow> map Some (bl_block_ids bl) = map (\<lambda>r. b_block_id (hp ! r)) (bl_blocks bl)"

definition table_holds :: "heap \<Rightarrow> block_table \<Rightarrow> int list \<Rightarrow> bool" where
  "table_holds hp t toks \<longleftrightarrow> holds_tokens hp (tb_block_size t) (bl_blocks (tb_blocks t)) toks
     \<and> ids_current hp (tb_blocks t) \<and> tb_num_full_slots t = length toks"

lemma slices_take: "concat (map (slice bs xs) [0..<n]) = take (n * bs) xs"
  by (induction n) (simp_all add: slice_def take_add [symmetric] add.commute)

lemma slices_concat: "length xs \<le> n * bs \<Longrightarrow> concat (map (slice bs xs) [0..<n]) = xs"
  by (simp add: slices_take)

lemma get_all_token_ids_holds:
  assumes "table_holds hp t toks"
  shows "get_all_token_ids hp t = toks"
proof -
  let ?rs = "bl_blocks (tb_blocks t)"
  have h: "length toks \<le> length ?rs * tb_block_size t" "\<forall>k < length ?rs. b_token_ids (hp ! (?rs ! k)) = slice (tb_block_size t) toks k"
    using assms by (simp_all add: table_holds_def holds_tokens_def)
  then have "map (\<lambda>r. b_token_ids (hp ! r)) ?rs = map (slice (tb_block_size t) toks) [0..<length ?rs]"
    by (intro nth_equalityI) auto
  with slices_concat [OF h(1)] show ?thesis by (simp add: get_all_token_ids_def)
qed

text \<open>Appending to the block that is not full yet.\<close>

lemma slice_append:
  assumes bs: "0 < bs" and fits: "length xs mod bs + length ys \<le> bs"
  shows "slice bs (xs @ ys) k = (if k = length xs div bs then slice bs xs k @ ys else slice bs xs k)"
proof -
  define q where "q = length xs div bs"
  have len: "length xs = q * bs + length xs mod bs" by (simp add: q_def)
  have r: "length xs mod bs < bs" using bs by simp
  consider "k < q" | "k = q" | "q < k" by linarith
  then show ?thesis unfolding q_def [symmetric]
  proof cases
    case 1
    then have "k * bs + bs \<le> q * bs" using mult_le_mono1 [of "Suc k" q bs] by simp
    then have "k * bs + bs \<le> length xs" using len by linarith
    with 1 show "slice bs (xs @ ys) k = (if k = q then slice bs xs k @ ys else slice bs xs k)" by (simp add: slice_def)
  next
    case 2
    have "q * bs \<le> length xs" "length xs - q * bs = length xs mod bs" using len by linarith+
    with 2 fits show "slice bs (xs @ ys) k = (if k = q then slice bs xs k @ ys else slice bs xs k)" by (simp add: slice_def)
  next
    case 3
    then have "q * bs + bs \<le> k * bs" using mult_le_mono1 [of "Suc q" k bs] by simp
    then have "length xs + length ys \<le> k * bs" "length xs \<le> k * bs" using len fits by linarith+
    with 3 show "slice bs (xs @ ys) k = (if k = q then slice bs xs k @ ys else slice bs xs k)" by (simp add: slice_def)
  qed
qed

lemma fill_length:
  fixes n :: nat
  assumes "n = q * b + r"
  shows "r + m \<le> b \<Longrightarrow> n + m \<le> Suc q * b" "r + m = b \<Longrightarrow> n + m = Suc q * b"
  using assms by simp_all

lemma holds_append:
  assumes h: "holds_tokens hp bs rs xs" and bs: "0 < bs" and fits: "length xs mod bs + length c \<le> bs"
    and k: "k = length xs div bs" "k < length rs" and new: "b_token_ids (hp' ! (rs ! k)) = b_token_ids (hp ! (rs ! k)) @ c"
    "b_prev (hp' ! (rs ! k)) = b_prev (hp ! (rs ! k))" and other: "\<And>j. j < length rs \<Longrightarrow> j \<noteq> k \<Longrightarrow> hp' ! (rs ! j) = hp ! (rs ! j)"
  shows "holds_tokens hp' bs rs (xs @ c)"
proof -
  have "b_token_ids (hp' ! (rs ! j)) = slice bs (xs @ c) j \<and> b_prev (hp' ! (rs ! j)) = (if j = 0 then None else Some (rs ! (j - 1)))"
    if j: "j < length rs" for j
  proof -
    have old: "b_token_ids (hp ! (rs ! j)) = slice bs xs j" "b_prev (hp ! (rs ! j)) = (if j = 0 then None else Some (rs ! (j - 1)))"
      using h j by (simp_all add: holds_tokens_def)
    show ?thesis
    proof (cases "j = k")
      case True
      then show ?thesis using slice_append [OF bs fits, of j] old new k(1) by simp
    next
      case False
      then show ?thesis using slice_append [OF bs fits, of j] old other [OF j False] k(1) by simp
    qed
  qed
  moreover have "length (xs @ c) \<le> length rs * bs"
  proof -
    have "length (xs @ c) \<le> Suc k * bs" unfolding length_append k(1) by (rule fill_length(1) [OF div_mult_mod_eq [symmetric] fits])
    also have "\<dots> \<le> length rs * bs" using k(2) by (intro mult_le_mono1) simp
    finally show ?thesis .
  qed
  ultimately show ?thesis using h by (simp add: holds_tokens_def)
qed

lemma holds_new:
  assumes h: "holds_tokens hp bs rs xs" and r: "r \<notin> set rs" and same: "\<And>q. q \<in> set rs \<Longrightarrow> hp' ! q = hp ! q"
    and new: "b_token_ids (hp' ! r) = []" "b_prev (hp' ! r) = (if rs = [] then None else Some (last rs))"
  shows "holds_tokens hp' bs (rs @ [r]) xs"
proof -
  have "slice bs xs (length rs) = []" using h by (simp add: slice_def holds_tokens_def)
  moreover have "hp' ! (rs ! j) = hp ! (rs ! j)" if "j < length rs" for j using same that by simp
  ultimately show ?thesis using h r new unfolding holds_tokens_def by (auto simp: nth_append last_conv_nth less_Suc_eq)
qed

lemma holds_full:
  assumes "0 < bs" "distinct rs" "\<forall>c \<in> set cs. length c = bs" "length rs = length cs"
    and "\<And>k. k < length rs \<Longrightarrow> b_token_ids (hp ! (rs ! k)) = cs ! k \<and> b_prev (hp ! (rs ! k)) = (if k = 0 then None else Some (rs ! (k - 1)))"
  shows "holds_tokens hp bs rs (concat cs)"
proof -
  have "slice bs (concat cs) k = cs ! k" if "k < length cs" for k
    using that assms(3)
  proof (induction cs arbitrary: k)
    case (Cons c cs)
    then show ?case by (cases k) (simp_all add: slice_def)
  qed simp
  moreover have "length (concat cs) = length cs * bs" using assms(3) by (induction cs) auto
  ultimately show ?thesis using assms(2,4,5) by (simp add: holds_tokens_def)
qed

lemma chunks_full_tail:
  assumes "0 < n"
  shows "let full = filter (\<lambda>c. length c = n) (chunks n xs); tails = filter (\<lambda>c. length c \<noteq> n) (chunks n xs)
    in concat full @ concat tails = xs \<and> length tails \<le> 1 \<and> length (concat full) = length full * n \<and> (\<forall>c \<in> set tails. length c < n)"
  using assms
proof (induction n xs rule: chunks.induct)
  case (1 n xs)
  show ?case
  proof (cases "xs = []")
    case False
    then have step: "chunks n xs = take n xs # chunks n (drop n xs)" using "1.prems" by (simp add: chunks_step)
    show ?thesis
    proof (cases "n \<le> length xs")
      case True
      with "1.IH" "1.prems" False show ?thesis unfolding step by (simp add: Let_def)
    next
      case small: False
      then have "chunks n xs = [xs]" unfolding step by simp
      with small show ?thesis by simp
    qed
  qed simp
qed

lemma ids_new: "ids_current hp bl \<Longrightarrow> (\<And>q. q \<in> set (bl_blocks bl) \<Longrightarrow> hp' ! q = hp ! q) \<Longrightarrow> bl_append hp' r bl = (Inr (), bl') \<Longrightarrow>
   ids_current hp' bl' \<and> bl_blocks bl' = bl_blocks bl @ [r]"
  by (auto simp: ids_current_def bl_append_def Let_def split: option.splits)

text \<open>Chunks that can be appended one after the other, each to the next block.\<close>

fun chunks_fit :: "nat \<Rightarrow> nat \<Rightarrow> 'a list list \<Rightarrow> bool" where
  "chunks_fit bs n [] \<longleftrightarrow> True"
| "chunks_fit bs n (c # cs) \<longleftrightarrow> n mod bs + length c \<le> bs \<and> (cs \<noteq> [] \<longrightarrow> n mod bs + length c = bs) \<and> chunks_fit bs (n + length c) cs"

lemma chunks_fit_aligned: "0 < bs \<Longrightarrow> n mod bs = 0 \<Longrightarrow> chunks_fit bs n (chunks bs xs)"
proof (induction bs xs arbitrary: n rule: chunks.induct)
  case (1 bs xs)
  show ?case
  proof (cases "xs = []")
    case False
    have nx: "chunks_fit bs (n + length (take bs xs)) (chunks bs (drop bs xs))" if "drop bs xs \<noteq> []"
    proof -
      have "length (take bs xs) = bs" using that by simp
      then have "(n + length (take bs xs)) mod bs = 0" using "1.prems" by (simp add: mod_add_right_eq)
      then show ?thesis using "1.IH" [of "n + length (take bs xs)"] "1.prems" False by simp
    qed
    moreover have "chunks bs (drop bs xs) = [] \<longleftrightarrow> drop bs xs = []" using "1.prems"(1) by (cases "drop bs xs = []") (auto simp: chunks_step)
    ultimately show ?thesis using "1.prems" False by (cases "drop bs xs = []") (auto simp: chunks_step)
  qed simp
qed

lemma chunk_token_blocks_fit:
  assumes "0 < tb_block_size t" and "chunk_token_blocks_for_append t toks = Inr cs"
  shows "chunks_fit (tb_block_size t) (tb_num_full_slots t) cs" "concat cs = toks"
proof -
  let ?bs = "tb_block_size t" and ?n = "tb_num_full_slots t"
  define f where "f = ?bs - ?n mod ?bs"
  have f: "?n mod ?bs + f = ?bs" using assms(1) by (simp add: f_def mod_less_divisor less_imp_le)
  show "concat cs = toks" using assms by (auto simp: chunk_token_blocks_for_append_def Let_def split: if_splits)
  show "chunks_fit ?bs ?n cs"
  proof (cases "toks = []")
    case False
    then have cs: "cs = take f toks # chunks ?bs (drop f toks)"
      using assms by (simp add: chunk_token_blocks_for_append_def Let_def f_def)
    have len: "length (take f toks) = f" if "drop f toks \<noteq> []" using that by simp
    have "(?n + f) mod ?bs = 0" using f by (metis mod_add_left_eq mod_self)
    from chunks_fit_aligned [OF assms(1) this, of "drop f toks"]
    have "chunks_fit ?bs (?n + length (take f toks)) (chunks ?bs (drop f toks))"
      using len by (cases "drop f toks = []") simp_all
    moreover have "chunks ?bs (drop f toks) = [] \<longleftrightarrow> drop f toks = []"
      using assms(1) by (cases "drop f toks = []") (auto simp: chunks_step)
    ultimately show ?thesis using cs f len by (cases "drop f toks = []") (auto simp: min_def)
  qed (use assms in \<open>simp add: chunk_token_blocks_for_append_def\<close>)
qed

lemma bl_refresh_Inr:
  assumes "bl_refresh hp k before bl = (Inr (), bl')"
  shows "before = b_block_id (hp ! (bl_blocks bl ! k)) \<and> bl' = bl
    \<or> (\<exists>i. b_block_id (hp ! (bl_blocks bl ! k)) = Some i \<and> k < length (bl_block_ids bl)
         \<and> bl' = bl\<lparr>bl_block_ids := (bl_block_ids bl)[k := i]\<rparr>)"
  using assms by (auto simp: bl_refresh_def Let_def split: if_splits option.splits)

lemma bl_update_Inr:
  assumes "bl_update hp rs bl = (Inr (), bl')"
  shows "bl_blocks bl' = rs" "ids_current hp bl'"
proof -
  have good: "takeWhile (\<lambda>r. \<exists>i. b_block_id (hp ! r) = Some i) rs = rs" and bl': "bl_blocks bl' = rs"
    "bl_block_ids bl' = map (\<lambda>r. the (b_block_id (hp ! r))) (takeWhile (\<lambda>r. \<exists>i. b_block_id (hp ! r) = Some i) rs)"
    using assms by (auto simp: bl_update_def Let_def split: if_splits)
  show "bl_blocks bl' = rs" by (fact bl')
  have "\<forall>r \<in> set rs. \<exists>i. b_block_id (hp ! r) = Some i" using good by (simp add: takeWhile_eq_all_conv)
  then show "ids_current hp bl'" using bl' unfolding good by (auto simp: ids_current_def)
qed

section \<open>The contract of the allocator\<close>

definition same_objs :: "'s dev_ops \<Rightarrow> ref set \<Rightarrow> 's \<Rightarrow> 's \<Rightarrow> bool" where
  "same_objs ops R s s' \<longleftrightarrow> (\<forall>q \<in> R. op_heap ops s' ! q = op_heap ops s ! q)"

lemma same_objs_trans: "same_objs ops R s s' \<Longrightarrow> same_objs ops R s' s'' \<Longrightarrow> same_objs ops R s s''"
  by (simp add: same_objs_def)

lemma same_objs_mono: "same_objs ops R s s' \<Longrightarrow> R' \<subseteq> R \<Longrightarrow> same_objs ops R' s s'"
  by (auto simp: same_objs_def)

text \<open>Tables that differ only in the identifiers they remember.\<close>

definition same_shape :: "block_table \<Rightarrow> block_table \<Rightarrow> bool" where
  "same_shape t t' \<longleftrightarrow> tb_block_size t' = tb_block_size t \<and> bl_blocks (tb_blocks t') = bl_blocks (tb_blocks t)
     \<and> tb_max_block_sliding_window t' = tb_max_block_sliding_window t \<and> tb_num_full_slots t' = tb_num_full_slots t"

locale block_store =
  fixes ops :: "'s dev_ops" and valid :: "'s \<Rightarrow> ref list \<Rightarrow> bool" and bsize :: "'s \<Rightarrow> nat"
  assumes valid_distinct: "valid s hs \<Longrightarrow> distinct hs"
    and valid_size: "valid s hs \<Longrightarrow> 0 < bsize s"
    and mutable_law: "valid s hs \<Longrightarrow> prev_in prev hs \<Longrightarrow> op_allocate_mutable_block ops prev GPU extra s = (Inr r, s') \<Longrightarrow>
      valid s' (r # hs) \<and> bsize s' = bsize s \<and> same_objs ops (set hs) s s' \<and> b_token_ids (op_heap ops s' ! r) = []
      \<and> b_prev (op_heap ops s' ! r) = prev \<and> b_block_id (op_heap ops s' ! r) \<noteq> None"
    and immutable_law: "valid s hs \<Longrightarrow> prev_in prev hs \<Longrightarrow> \<forall>c \<in> set cs. length c = bsize s \<Longrightarrow>
      op_allocate_immutable_blocks ops prev cs GPU extra s = (Inr rs, s') \<Longrightarrow>
      valid s' (rev rs @ hs) \<and> bsize s' = bsize s \<and> same_objs ops (set hs) s s' \<and> length rs = length cs
      \<and> (\<forall>k < length rs. b_token_ids (op_heap ops s' ! (rs ! k)) = cs ! k
           \<and> b_prev (op_heap ops s' ! (rs ! k)) = (if k = 0 then prev else Some (rs ! (k - 1))))"
    and append_law: "valid s hs \<Longrightarrow> r \<in> set hs \<Longrightarrow> prev_in (b_prev (op_heap ops s ! r)) (remove1 r hs) \<Longrightarrow>
      op_append ops toks r s = (Inr (), s') \<Longrightarrow>
      valid s' hs \<and> bsize s' = bsize s \<and> same_objs ops (set hs - {r}) s s'
      \<and> b_token_ids (op_heap ops s' ! r) = b_token_ids (op_heap ops s ! r) @ toks
      \<and> b_prev (op_heap ops s' ! r) = b_prev (op_heap ops s ! r) \<and> b_block_id (op_heap ops s' ! r) \<noteq> None"
    and free_law: "valid s hs \<Longrightarrow> r \<in> set hs \<Longrightarrow>
      \<exists>s'. op_free ops r s = (Inr (), s') \<and> valid s' (remove1 r hs) \<and> bsize s' = bsize s \<and> same_objs ops (set hs - {r}) s s'"
begin

lemma append_one:
  assumes v: "valid s hs" and bs: "tb_block_size t = bsize s" and rs: "set (bl_blocks (tb_blocks t)) \<subseteq> set hs"
    and h: "holds_tokens (op_heap ops s) (bsize s) (bl_blocks (tb_blocks t)) xs" and ids: "ids_current (op_heap ops s) (tb_blocks t)"
    and fits: "length xs mod bsize s + length c \<le> bsize s"
    and run: "bl_append_token_ids ops (length xs div bsize s) c (t, s) = (Inr (), (t', s'))"
  shows "valid s' hs" "bsize s' = bsize s" "same_shape t t'"
    "holds_tokens (op_heap ops s') (bsize s) (bl_blocks (tb_blocks t)) (xs @ c)" "ids_current (op_heap ops s') (tb_blocks t')"
    "same_objs ops (set hs - set (bl_blocks (tb_blocks t))) s s'"
proof -
  let ?rs = "bl_blocks (tb_blocks t)" and ?k = "length xs div bsize s"
  have k: "?k < length ?rs" using run by (auto simp: bl_append_token_ids_def raise_def split: if_splits)
  define r where "r = ?rs ! ?k"
  have r: "r \<in> set ?rs" using k by (simp add: r_def)
  have dist: "distinct ?rs" using h by (simp add: holds_tokens_def)
  obtain before where ap: "op_append ops c r s = (Inr (), s')"
    and rf: "bl_refresh (op_heap ops s') ?k (b_block_id (op_heap ops s ! r)) (tb_blocks t) = (Inr (), tb_blocks t')"
    and t': "tb_block_size t' = tb_block_size t" "tb_max_block_sliding_window t' = tb_max_block_sliding_window t"
      "tb_num_full_slots t' = tb_num_full_slots t"
    using run k unfolding r_def
    by (auto simp: bl_append_token_ids_def bind_act_Inr_iff on_store_Inr on_list_Inr gets_def)
  have pv: "b_prev (op_heap ops s ! r) = (if ?k = 0 then None else Some (?rs ! (?k - 1)))"
    using h k unfolding holds_tokens_def r_def by blast
  have "prev_in (b_prev (op_heap ops s ! r)) (remove1 r hs)"
  proof (cases "?k = 0")
    case False
    then have "?rs ! (?k - 1) \<in> set ?rs" "?rs ! (?k - 1) \<noteq> r" using k dist by (auto simp: r_def nth_eq_iff_index_eq)
    with rs valid_distinct [OF v] pv False show ?thesis by (auto simp: prev_in_def)
  qed (use pv in \<open>simp add: prev_in_def\<close>)
  with r rs have ok: "valid s' hs" "bsize s' = bsize s" "same_objs ops (set hs - {r}) s s'"
    "b_token_ids (op_heap ops s' ! r) = b_token_ids (op_heap ops s ! r) @ c" "b_prev (op_heap ops s' ! r) = b_prev (op_heap ops s ! r)"
    "b_block_id (op_heap ops s' ! r) \<noteq> None"
    using append_law [OF v _ _ ap] by auto
  show "valid s' hs" "bsize s' = bsize s" by (fact ok)+
  have blk: "bl_blocks (tb_blocks t') = ?rs"
    using bl_refresh_Inr [OF rf] by auto
  with t' show "same_shape t t'" by (simp add: same_shape_def)
  show "same_objs ops (set hs - set ?rs) s s'" by (rule same_objs_mono [OF ok(3)]) (use r in auto)
  have other: "op_heap ops s' ! (?rs ! j) = op_heap ops s ! (?rs ! j)" if "j < length ?rs" "j \<noteq> ?k" for j
  proof -
    have "?rs ! j \<in> set hs" "?rs ! j \<noteq> r" using that rs k dist by (auto simp: r_def nth_eq_iff_index_eq)
    with ok(3) show ?thesis by (simp add: same_objs_def)
  qed
  show "holds_tokens (op_heap ops s') (bsize s) ?rs (xs @ c)"
    by (rule holds_append [OF h valid_size [OF v] fits refl k]) (use ok(4,5) other in \<open>simp_all add: r_def\<close>)
  have idr: "map Some (bl_block_ids (tb_blocks t)) = map (\<lambda>r. b_block_id (op_heap ops s ! r)) ?rs" using ids by (simp add: ids_current_def)
  then have lid: "length (bl_block_ids (tb_blocks t)) = length ?rs" by (metis length_map)
  have idk: "Some (bl_block_ids (tb_blocks t) ! j) = b_block_id (op_heap ops s ! (?rs ! j))" if "j < length ?rs" for j
    using idr that lid by (metis nth_map)
  have "map Some (bl_block_ids (tb_blocks t')) = map (\<lambda>r. b_block_id (op_heap ops s' ! r)) ?rs"
  proof (rule nth_equalityI)
    have ln: "length (bl_block_ids (tb_blocks t')) = length ?rs"
      using bl_refresh_Inr [OF rf] lid by auto
    then show "length (map Some (bl_block_ids (tb_blocks t'))) = length (map (\<lambda>r. b_block_id (op_heap ops s' ! r)) ?rs)" by simp
    show "map Some (bl_block_ids (tb_blocks t')) ! j = map (\<lambda>r. b_block_id (op_heap ops s' ! r)) ?rs ! j"
      if "j < length (map Some (bl_block_ids (tb_blocks t')))" for j
    proof -
      have j: "j < length ?rs" using that ln by simp
      show ?thesis
      proof (cases "j = ?k")
        case True
        then show ?thesis using bl_refresh_Inr [OF rf] idk [OF j] j ln lid by (auto simp: r_def)
      next
        case False
        then show ?thesis using bl_refresh_Inr [OF rf] idk [OF j] other [OF j False] j ln lid by auto
      qed
    qed
  qed
  with blk show "ids_current (op_heap ops s') (tb_blocks t')" by (simp add: ids_current_def)
qed

text \<open>All chunks of an append.\<close>

lemma append_all:
  "valid s hs \<Longrightarrow> tb_block_size t = bsize s \<Longrightarrow> set (bl_blocks (tb_blocks t)) \<subseteq> set hs \<Longrightarrow>
   holds_tokens (op_heap ops s) (bsize s) (bl_blocks (tb_blocks t)) xs \<Longrightarrow> ids_current (op_heap ops s) (tb_blocks t) \<Longrightarrow>
   chunks_fit (bsize s) (length xs) cs \<Longrightarrow>
   append_token_blocks ops (length xs div bsize s) cs (t, s) = (Inr (), (t', s')) \<Longrightarrow>
   valid s' hs \<and> bsize s' = bsize s \<and> same_shape t t'
   \<and> holds_tokens (op_heap ops s') (bsize s) (bl_blocks (tb_blocks t)) (xs @ concat cs) \<and> ids_current (op_heap ops s') (tb_blocks t')
   \<and> same_objs ops (set hs - set (bl_blocks (tb_blocks t))) s s'"
proof (induction cs arbitrary: s t xs)
  case Nil
  then show ?case by (auto simp: ret_def same_objs_def same_shape_def)
next
  case (Cons c cs)
  obtain t1 s1 where one: "bl_append_token_ids ops (length xs div bsize s) c (t, s) = (Inr (), (t1, s1))"
    and rest: "append_token_blocks ops (Suc (length xs div bsize s)) cs (t1, s1) = (Inr (), (t', s'))"
    using Cons.prems(7) by (auto simp: bind_act_Inr_iff)
  note f = append_one [OF Cons.prems(1-5) _ one]
  have fits: "length xs mod bsize s + length c \<le> bsize s" using Cons.prems(6) by simp
  note f1 = f [OF fits]
  have bs1: "tb_block_size t1 = bsize s1" using f1(2,3) Cons.prems(2) by (simp add: same_shape_def)
  show ?case
  proof (cases "cs = []")
    case True
    with rest f1 show ?thesis by (auto simp: ret_def)
  next
    case False
    then have "length xs mod bsize s + length c = bsize s" using Cons.prems(6) by simp
    from fill_length(2) [OF div_mult_mod_eq [symmetric] this]
    have "length (xs @ c) = Suc (length xs div bsize s) * bsize s" by simp
    then have k: "Suc (length xs div bsize s) = length (xs @ c) div bsize s1"
      using valid_size [OF Cons.prems(1)] f1(2) by (metis div_mult_self_is_m)
    have "valid s' hs \<and> bsize s' = bsize s1 \<and> same_shape t1 t'
      \<and> holds_tokens (op_heap ops s') (bsize s1) (bl_blocks (tb_blocks t1)) ((xs @ c) @ concat cs) \<and> ids_current (op_heap ops s') (tb_blocks t')
      \<and> same_objs ops (set hs - set (bl_blocks (tb_blocks t1))) s1 s'"
      by (rule Cons.IH [OF f1(1) bs1 _ _ f1(5) _ rest [unfolded k]]) (use f1(2-4) Cons.prems(3,6) in \<open>simp_all add: same_shape_def\<close>)
    then show ?thesis using f1(2,3,6) same_objs_trans [of ops "set hs - set (bl_blocks (tb_blocks t))" s s1 s'] by (simp add: same_shape_def)
  qed
qed

text \<open>New empty blocks at the end.\<close>

lemma append_new:
  "valid s hs \<Longrightarrow> tb_block_size t = bsize s \<Longrightarrow> set (bl_blocks (tb_blocks t)) \<subseteq> set hs \<Longrightarrow>
   holds_tokens (op_heap ops s) (bsize s) (bl_blocks (tb_blocks t)) xs \<Longrightarrow> ids_current (op_heap ops s) (tb_blocks t) \<Longrightarrow>
   append_new_blocks ops n extra (t, s) = (Inr (), (t', s')) \<Longrightarrow>
   \<exists>new. valid s' (new @ hs) \<and> bsize s' = bsize s \<and> tb_block_size t' = tb_block_size t \<and> tb_num_full_slots t' = tb_num_full_slots t
   \<and> tb_max_block_sliding_window t' = tb_max_block_sliding_window t \<and> bl_blocks (tb_blocks t') = bl_blocks (tb_blocks t) @ rev new
   \<and> holds_tokens (op_heap ops s') (bsize s) (bl_blocks (tb_blocks t')) xs \<and> ids_current (op_heap ops s') (tb_blocks t')
   \<and> same_objs ops (set hs) s s' \<and> length new = n"
proof (induction n arbitrary: s hs t)
  case 0
  then show ?case by (auto simp: ret_def same_objs_def)
next
  case (Suc n)
  let ?rs = "bl_blocks (tb_blocks t)"
  obtain r s1 bl where rs: "?rs \<noteq> []" and al: "op_allocate_mutable_block ops (Some (last ?rs)) GPU extra s = (Inr r, s1)"
    and ba: "bl_append (op_heap ops s1) r (tb_blocks t) = (Inr (), bl)"
    and rest: "append_new_blocks ops n extra (t\<lparr>tb_blocks := bl\<rparr>, s1) = (Inr (), (t', s'))"
    using Suc.prems(6) by (auto simp: bind_act_Inr_iff on_store_Inr on_list_Inr split: if_splits)
  have "prev_in (Some (last ?rs)) hs" using rs Suc.prems(3) last_in_set [OF rs] by (auto simp: prev_in_def)
  note l = mutable_law [OF Suc.prems(1) this al]
  have same: "op_heap ops s1 ! q = op_heap ops s ! q" if "q \<in> set ?rs" for q using l that Suc.prems(3) by (auto simp: same_objs_def)
  have bl: "ids_current (op_heap ops s1) bl" "bl_blocks bl = ?rs @ [r]" using ids_new [OF Suc.prems(5) same ba] by auto
  have "r \<notin> set ?rs" using valid_distinct [of s1 "r # hs"] l Suc.prems(3) by auto
  then have h1: "holds_tokens (op_heap ops s1) (bsize s) (?rs @ [r]) xs"
    by (rule holds_new [OF Suc.prems(4) _ same]) (use l rs in auto)
  obtain new where "valid s' (new @ r # hs) \<and> bsize s' = bsize s1 \<and> tb_block_size t' = tb_block_size t \<and> tb_num_full_slots t' = tb_num_full_slots t
   \<and> tb_max_block_sliding_window t' = tb_max_block_sliding_window t \<and> bl_blocks (tb_blocks t') = ?rs @ [r] @ rev new
   \<and> holds_tokens (op_heap ops s') (bsize s1) (bl_blocks (tb_blocks t')) xs \<and> ids_current (op_heap ops s') (tb_blocks t')
   \<and> same_objs ops (set (r # hs)) s1 s' \<and> length new = n"
    using Suc.IH [of s1 "r # hs" "t\<lparr>tb_blocks := bl\<rparr>", OF _ _ _ _ _ rest] l bl h1 Suc.prems(2,3) by auto
  moreover from this have "same_objs ops (set hs) s s'"
    using l same_objs_trans [of ops "set hs" s s1 s'] same_objs_mono [of ops "set (r # hs)" s1 s' "set hs"] by auto
  ultimately show ?case using l by (intro exI [of _ "new @ [r]"]) auto
qed

text \<open>A successful append extends the tokens of the table.\<close>

lemma table_append:
  assumes v: "valid s hs" and bs: "tb_block_size t = bsize s" and rs: "set (bl_blocks (tb_blocks t)) \<subseteq> set hs"
    and h: "table_holds (op_heap ops s) t xs" and win: "tb_max_block_sliding_window t = None"
    and run: "tb_append_token_ids ops toks lookahead computed extra (t, s) = (Inr (), (t', s'))"
  obtains new where "valid s' (new @ hs)" "table_holds (op_heap ops s') t' (xs @ toks)" "tb_block_size t' = bsize s'" "bsize s' = bsize s"
    "bl_blocks (tb_blocks t') = bl_blocks (tb_blocks t) @ rev new" "tb_max_block_sliding_window t' = None"
    "same_objs ops (set hs - set (bl_blocks (tb_blocks t))) s s'"
proof -
  obtain t1 s1 where en: "ensure_num_empty_slots ops (int (length toks) + lookahead) extra (t, s) = (Inr (), (t1, s1))"
    and ap: "bind_act (lift_res (chunk_token_blocks_for_append t1 toks)) (\<lambda>cs.
         bind_act (append_token_blocks ops (tb_num_full_slots t1 div tb_block_size t1) cs) (\<lambda>_.
           modify (\<lambda>(t, s). (t\<lparr>tb_num_full_slots := tb_num_full_slots t + length toks\<rparr>, s)))) (t1, s1) = (Inr (), (t', s'))"
    using run win by (auto simp: tb_append_token_ids_def drop_window_def bind_act_Inr_iff raise_def ret_def split: if_splits)
  have hx: "holds_tokens (op_heap ops s) (bsize s) (bl_blocks (tb_blocks t)) xs" "ids_current (op_heap ops s) (tb_blocks t)"
    "tb_num_full_slots t = length xs" using h bs by (simp_all add: table_holds_def)
  have "\<exists>n. append_new_blocks ops n extra (t, s) = (Inr (), (t1, s1))"
    using en by (auto simp: ensure_num_empty_slots_def bind_act_Inr_iff lift_res_def split: if_splits intro: exI [of _ 0])
  then obtain n where "append_new_blocks ops n extra (t, s) = (Inr (), (t1, s1))" by blast
  from append_new [OF v bs rs hx(1,2) this] obtain new where n: "valid s1 (new @ hs)" "bsize s1 = bsize s" "tb_block_size t1 = bsize s1"
    "tb_num_full_slots t1 = length xs" "tb_max_block_sliding_window t1 = None" "bl_blocks (tb_blocks t1) = bl_blocks (tb_blocks t) @ rev new"
    "holds_tokens (op_heap ops s1) (bsize s1) (bl_blocks (tb_blocks t1)) xs" "ids_current (op_heap ops s1) (tb_blocks t1)"
    "same_objs ops (set hs) s s1" using bs win hx(3) by auto
  obtain cs t2 where cs: "chunk_token_blocks_for_append t1 toks = Inr cs"
    and at: "append_token_blocks ops (length xs div bsize s1) cs (t1, s1) = (Inr (), (t2, s'))"
    and t': "t' = t2\<lparr>tb_num_full_slots := tb_num_full_slots t2 + length toks\<rparr>"
    using ap n(3,4) by (auto simp: bind_act_Inr_iff lift_res_def modify_def)
  have pos: "0 < tb_block_size t1" using valid_size [OF n(1)] n(3) by simp
  note fit = chunk_token_blocks_fit [OF pos cs]
  have sub: "set (bl_blocks (tb_blocks t1)) \<subseteq> set (new @ hs)" using n(6) rs by auto
  have fit1: "chunks_fit (bsize s1) (length xs) cs" using fit(1) n(3,4) by simp
  note all = append_all [OF n(1,3) sub n(7,8) fit1 at]
  have a1: "valid s' (new @ hs)" "bsize s' = bsize s1" "same_shape t1 t2" "ids_current (op_heap ops s') (tb_blocks t2)"
    and a2: "holds_tokens (op_heap ops s') (bsize s1) (bl_blocks (tb_blocks t1)) (xs @ concat cs)"
    and a3: "same_objs ops (set (new @ hs) - set (bl_blocks (tb_blocks t1))) s1 s'"
    using all by blast+
  have "set new \<inter> set hs = {}" using valid_distinct [OF n(1)] by simp
  then have "set hs - set (bl_blocks (tb_blocks t)) \<subseteq> set (new @ hs) - set (bl_blocks (tb_blocks t1))" unfolding n(6) by auto
  with a3 have "same_objs ops (set hs - set (bl_blocks (tb_blocks t))) s1 s'" by (rule same_objs_mono)
  moreover have "same_objs ops (set hs - set (bl_blocks (tb_blocks t))) s s1" by (rule same_objs_mono [OF n(9)]) auto
  ultimately have keep: "same_objs ops (set hs - set (bl_blocks (tb_blocks t))) s s'" by (meson same_objs_trans)
  have shp: "tb_block_size t' = bsize s1" "bl_blocks (tb_blocks t') = bl_blocks (tb_blocks t1)" "tb_max_block_sliding_window t' = None"
    "tb_num_full_slots t' = length xs + length toks" "tb_blocks t' = tb_blocks t2"
    using a1(3) n(3-5) by (simp_all add: t' same_shape_def)
  have "table_holds (op_heap ops s') t' (xs @ toks)" unfolding table_holds_def shp(1,2,4) using a2 a1(4) fit(2) shp(5) by simp
  then show thesis by (rule that [OF a1(1) _ _ _ _ _ keep]) (use shp a1(2) n(2,6) in simp_all)
qed

text \<open>A successful allocation stores exactly the given tokens.\<close>

lemma blocks_for_tokens:
  assumes v: "valid s hs" and bs: "tb_block_size t = bsize s" and ne: "toks \<noteq> []"
    and run: "allocate_blocks_for_token_ids ops None toks GPU extra (t, s) = (Inr rs, (t', s'))"
  shows "t' = t" "valid s' (rev rs @ hs)" "bsize s' = bsize s" "holds_tokens (op_heap ops s') (bsize s) rs toks" "same_objs ops (set hs) s s'"
    "length rs = length (chunks (bsize s) toks)"
proof -
  let ?b = "bsize s"
  have pos: "0 < ?b" by (rule valid_size [OF v])
  define full where "full = filter (\<lambda>c. length c = ?b) (chunks ?b toks)"
  define tails where "tails = filter (\<lambda>c. length c \<noteq> ?b) (chunks ?b toks)"
  note ft = chunks_full_tail [OF pos, of toks, folded full_def tails_def]
  obtain rs1 s1 where r1: "(if full = [] then ret [] else on_store (op_allocate_immutable_blocks ops None full GPU extra)) (t, s) = (Inr rs1, (t, s1))"
    and rest: "(case tails of [] \<Rightarrow> ret rs1
      | [tail] \<Rightarrow> bind_act (on_store (op_allocate_mutable_block ops (if full = [] then None else Some (last rs1)) GPU extra)) (\<lambda>r.
           bind_act (on_store (op_append ops tail r)) (\<lambda>_. ret (rs1 @ [r])))
      | _ \<Rightarrow> raise AssertionError) (t, s1) = (Inr rs, (t', s'))"
    using run pos bs unfolding allocate_blocks_for_token_ids_def full_def tails_def
    by (auto simp: bind_act_Inr_iff Let_def chunk_list_def lift_res_def on_store_Inr ret_def split: if_splits)
  have 1: "valid s1 (rev rs1 @ hs) \<and> bsize s1 = ?b \<and> same_objs ops (set hs) s s1 \<and> length rs1 = length full
      \<and> (\<forall>k < length rs1. b_token_ids (op_heap ops s1 ! (rs1 ! k)) = full ! k
           \<and> b_prev (op_heap ops s1 ! (rs1 ! k)) = (if k = 0 then None else Some (rs1 ! (k - 1))))"
  proof (cases "full = []")
    case True
    with r1 v show ?thesis by (simp add: ret_def same_objs_def)
  next
    case False
    with r1 have "op_allocate_immutable_blocks ops None full GPU extra s = (Inr rs1, s1)" by (simp add: on_store_Inr)
    from immutable_law [OF v _ _ this] show ?thesis by (simp add: prev_in_def full_def)
  qed
  then have h1: "holds_tokens (op_heap ops s1) ?b rs1 (concat full)"
    using valid_distinct [of s1 "rev rs1 @ hs"] by (intro holds_full [OF pos]) (auto simp: full_def)
  have num: "length (chunks ?b toks) = length full + length tails"
    using sum_length_filter_compl [of "\<lambda>c. length c = ?b" "chunks ?b toks"] by (simp add: full_def tails_def)
  have "t' = t \<and> valid s' (rev rs @ hs) \<and> bsize s' = ?b \<and> holds_tokens (op_heap ops s') ?b rs toks \<and> same_objs ops (set hs) s s'
    \<and> length rs = length (chunks ?b toks)"
  proof (cases tails)
    case Nil
    with rest have "rs = rs1" "s' = s1" "t' = t" by (simp_all add: ret_def)
    with 1 h1 Nil ft num show ?thesis by simp
  next
    case (Cons tail tl)
    then have tl: "tl = []" "tails = [tail]" using ft by auto
    obtain r s2 where al: "op_allocate_mutable_block ops (if full = [] then None else Some (last rs1)) GPU extra s1 = (Inr r, s2)"
      and ap: "op_append ops tail r s2 = (Inr (), s')" and eq: "rs = rs1 @ [r]" "t' = t"
      using rest tl by (auto simp: bind_act_Inr_iff on_store_Inr ret_def)
    have fr: "full = [] \<longleftrightarrow> rs1 = []" using 1 by (metis length_0_conv)
    have pin: "prev_in (if full = [] then None else Some (last rs1)) (rev rs1 @ hs)"
      using fr last_in_set [of rs1] by (auto simp: prev_in_def)
    have v1: "valid s1 (rev rs1 @ hs)" using 1 by simp
    note m = mutable_law [OF v1 pin al]
    have nin: "r \<notin> set rs1 \<union> set hs" using valid_distinct [of s2 "r # rev rs1 @ hs"] m by auto
    have h2: "holds_tokens (op_heap ops s2) ?b (rs1 @ [r]) (concat full)"
      by (rule holds_new [OF h1]) (use m nin fr in \<open>auto simp: same_objs_def\<close>)
    have v2: "valid s2 (r # rev rs1 @ hs)" using m by simp
    have pv: "prev_in (b_prev (op_heap ops s2 ! r)) (remove1 r (r # rev rs1 @ hs))" using m pin by simp
    note a = append_law [OF v2 _ pv ap, simplified]
    have dm: "length (concat full) div ?b = length rs1" "length (concat full) mod ?b = 0"
      using ft 1 pos by simp_all
    have "holds_tokens (op_heap ops s') ?b (rs1 @ [r]) (concat full @ tail)"
      by (rule holds_append [OF h2 pos, of tail "length rs1"])
        (use a nin dm ft tl in \<open>auto simp: same_objs_def nth_append\<close>)
    moreover have "same_objs ops (set hs) s s'"
      using 1 m a nin by (auto simp: same_objs_def)
    moreover have "concat full @ tail = toks" using ft tl by simp
    moreover have "length rs = length (chunks ?b toks)" using 1 eq(1) num tl(2) by simp
    ultimately show ?thesis using a eq 1 m by simp
  qed
  then show "t' = t" "valid s' (rev rs @ hs)" "bsize s' = ?b" "holds_tokens (op_heap ops s') ?b rs toks" "same_objs ops (set hs) s s'"
    "length rs = length (chunks ?b toks)" by blast+
qed

lemma table_allocate:
  assumes v: "valid s hs" and bs: "tb_block_size t = bsize s" and run: "tb_allocate ops toks GPU extra (t, s) = (Inr (), (t', s'))"
  shows "valid s' (rev (bl_blocks (tb_blocks t')) @ hs)" "table_holds (op_heap ops s') t' toks" "tb_block_size t' = bsize s'" "bsize s' = bsize s"
    "same_objs ops (set hs) s s'" "tb_max_block_sliding_window t' = tb_max_block_sliding_window t"
    "length (bl_blocks (tb_blocks t')) = length (chunks (bsize s) toks)"
proof -
  obtain rs t1 bl where ne: "toks \<noteq> []" and al: "allocate_blocks_for_token_ids ops None toks GPU extra (t, s) = (Inr rs, (t1, s'))"
    and up: "bl_update (op_heap ops s') rs (tb_blocks t1) = (Inr (), bl)"
    and t': "t' = t1\<lparr>tb_blocks := bl, tb_num_full_slots := length toks\<rparr>"
    using run by (auto simp: tb_allocate_def bind_act_Inr_iff tb_update_def on_list_Inr modify_def split: if_splits)
  note b = blocks_for_tokens [OF v bs ne al]
  note bl = bl_update_Inr [OF up]
  show "valid s' (rev (bl_blocks (tb_blocks t')) @ hs)" "bsize s' = bsize s" "same_objs ops (set hs) s s'"
    "table_holds (op_heap ops s') t' toks" "tb_block_size t' = bsize s'" "tb_max_block_sliding_window t' = tb_max_block_sliding_window t"
    "length (bl_blocks (tb_blocks t')) = length (chunks (bsize s) toks)"
    using b bl t' bs by (simp_all add: table_holds_def)
qed

text \<open>A sequence of appends.\<close>

lemma table_appends:
  "valid s (rev (bl_blocks (tb_blocks t)) @ hs) \<Longrightarrow> tb_block_size t = bsize s \<Longrightarrow> table_holds (op_heap ops s) t xs \<Longrightarrow>
   tb_max_block_sliding_window t = None \<Longrightarrow>
   for_each (\<lambda>c. tb_append_token_ids ops c lookahead computed extra) cs (t, s) = (Inr (), (t', s')) \<Longrightarrow>
   valid s' (rev (bl_blocks (tb_blocks t')) @ hs) \<and> tb_block_size t' = bsize s' \<and> bsize s' = bsize s
   \<and> table_holds (op_heap ops s') t' (xs @ concat cs) \<and> same_objs ops (set hs) s s'"
proof (induction cs arbitrary: s t xs)
  case Nil
  then show ?case by (simp add: ret_def same_objs_def)
next
  case (Cons c cs)
  let ?rs = "bl_blocks (tb_blocks t)"
  obtain t1 s1 where one: "tb_append_token_ids ops c lookahead computed extra (t, s) = (Inr (), (t1, s1))"
    and rest: "for_each (\<lambda>c. tb_append_token_ids ops c lookahead computed extra) cs (t1, s1) = (Inr (), (t', s'))"
    using Cons.prems(5) by (auto simp: bind_act_Inr_iff)
  have sub: "set ?rs \<subseteq> set (rev ?rs @ hs)" by auto
  obtain new where n: "valid s1 (new @ rev ?rs @ hs)" "table_holds (op_heap ops s1) t1 (xs @ c)" "tb_block_size t1 = bsize s1"
    "bsize s1 = bsize s" "bl_blocks (tb_blocks t1) = ?rs @ rev new" "tb_max_block_sliding_window t1 = None"
    "same_objs ops (set (rev ?rs @ hs) - set ?rs) s s1"
    by (rule table_append [OF Cons.prems(1,2) sub Cons.prems(3,4) one])
  have "set hs \<subseteq> set (rev ?rs @ hs) - set ?rs" using valid_distinct [OF Cons.prems(1)] by auto
  then have keep: "same_objs ops (set hs) s s1" by (rule same_objs_mono [OF n(7)])
  have v1: "valid s1 (rev (bl_blocks (tb_blocks t1)) @ hs)" using n(1,5) by simp
  from Cons.IH [OF v1 n(3,2,6) rest] keep n(4) show ?case using same_objs_trans [OF keep] by simp
qed

text \<open>Freeing the table gives all its blocks back.\<close>

lemma free_blocks:
  "valid s hs \<Longrightarrow> distinct rs \<Longrightarrow> set rs \<subseteq> set hs \<Longrightarrow>
   \<exists>s' hs'. for_each (op_free ops) rs s = (Inr (), s') \<and> valid s' hs' \<and> set hs' = set hs - set rs \<and> bsize s' = bsize s
     \<and> same_objs ops (set hs - set rs) s s'"
proof (induction rs arbitrary: s hs)
  case Nil
  then show ?case by (auto simp: ret_def same_objs_def)
next
  case (Cons r rs)
  from free_law [OF Cons.prems(1), of r] Cons.prems(3) obtain s1 where f: "op_free ops r s = (Inr (), s1)" "valid s1 (remove1 r hs)"
    "bsize s1 = bsize s" "same_objs ops (set hs - {r}) s s1" by auto
  have set1: "set (remove1 r hs) = set hs - {r}" using valid_distinct [OF Cons.prems(1)] by simp
  from Cons.IH [OF f(2)] Cons.prems(2,3) set1 obtain s' hs' where s': "for_each (op_free ops) rs s1 = (Inr (), s')" "valid s' hs'"
    "set hs' = set hs - {r} - set rs" "bsize s' = bsize s1" "same_objs ops (set hs - {r} - set rs) s1 s'" by auto
  have "same_objs ops (set hs - set (r # rs)) s s'" using f(4) s'(5) by (auto simp: same_objs_def)
  with s' f show ?case by (auto simp: bind_act_def)
qed

end

end
