(* ===== verification/TableRoom.thy ===== *)
theory TableRoom
  imports BlockTableInv
begin

text \<open>
  When the operations of a block table succeed. The contract of \<open>BlockTableInv\<close> is extended by
  what an allocator promises when it has room.
\<close>

section \<open>Arithmetic of slots\<close>

lemma cdiv_le:
  fixes a b m :: int
  assumes "0 < b" "a \<le> m * b"
  shows "- (- a div b) \<le> m"
proof -
  have "- m * b \<le> - a" using assms(2) by simp
  from zdiv_mono1 [OF this assms(1)] show ?thesis using nonzero_mult_div_cancel_right [of b "- m"] assms(1) by simp
qed

lemma cdiv_covers:
  fixes a b :: int
  assumes "0 < b"
  shows "a \<le> - (- a div b) * b"
proof -
  have "- a div b * b \<le> - a" using pos_mod_sign [OF assms, of "- a"] div_mult_mod_eq [of "- a" b] by linarith
  then show ?thesis by simp
qed

lemma ceiling_cdiv:
  fixes a b :: int
  assumes "0 < b"
  shows "\<lceil>rat_of_int a / rat_of_int b\<rceil> = - (- a div b)"
  by (simp add: ceiling_divide_eq_div)

lemma minus_self_div:
  fixes x b :: int
  assumes "b \<noteq> 0"
  shows "(x - b) div b = x div b - 1"
  using div_mult_self1 [OF assms, of x "-1"] by simp

lemma length_chunks_cdiv: "0 < n \<Longrightarrow> int (length (chunks n xs)) = - (- int (length xs) div int n)"
proof (induction n xs rule: chunks.induct)
  case (1 n xs)
  show ?case
  proof (cases "xs = []")
    case False
    have ih: "int (length (chunks n (drop n xs))) = - (- int (length (drop n xs)) div int n)" using 1 False by simp
    have step: "length (chunks n xs) = Suc (length (chunks n (drop n xs)))" using 1(2) False by (simp add: chunks_step)
    show ?thesis
    proof (cases "length xs \<le> n")
      case True
      moreover have "0 < int (length xs)" using False by simp
      moreover have "- int (length xs) div int n = -1" using True False 1(2) by (intro int_div_pos_eq [of _ _ _ "int n - int (length xs)"]) auto
      ultimately show ?thesis using step by simp
    next
      case big: False
      then have eq: "- int (length xs) = - int (length (drop n xs)) - int n" by simp
      have "- int (length xs) div int n = - int (length (drop n xs)) div int n - 1"
        unfolding eq by (rule minus_self_div) (use 1(2) in simp)
      then show ?thesis using step ih by simp
    qed
  qed simp
qed

lemma chunks_nonempty: "0 < n \<Longrightarrow> [] \<notin> set (chunks n xs)"
proof (induction n xs rule: chunks.induct)
  case (1 n xs)
  then show ?case by (cases "xs = []") (auto simp: chunks_step)
qed

lemma chunks_full_first:
  "0 < n \<Longrightarrow> chunks n xs = filter (\<lambda>c. length c = n) (chunks n xs) @ filter (\<lambda>c. length c \<noteq> n) (chunks n xs)"
proof (induction n xs rule: chunks.induct)
  case (1 n xs)
  show ?case
  proof (cases "xs = []")
    case False
    then have step: "chunks n xs = take n xs # chunks n (drop n xs)" using "1.prems" by (simp add: chunks_step)
    show ?thesis
    proof (cases "n \<le> length xs")
      case True
      with "1.IH" "1.prems" False show ?thesis unfolding step by simp
    next
      case small: False
      then have "chunks n xs = [xs]" unfolding step by simp
      with small show ?thesis by simp
    qed
  qed simp
qed

section \<open>The contract of an allocator with room\<close>

locale block_room = block_store ops valid bsize
  for ops :: "'s dev_ops" and valid :: "'s \<Rightarrow> ref list \<Rightarrow> bool" and bsize :: "'s \<Rightarrow> nat" +
  fixes ready :: "'s \<Rightarrow> bool" and room :: "'s \<Rightarrow> nat" and need :: "'s \<Rightarrow> int option \<Rightarrow> int list list \<Rightarrow> nat"
  assumes valid_ids: "valid s hs \<Longrightarrow> r \<in> set hs \<Longrightarrow> b_block_id (op_heap ops s ! r) \<noteq> None"
    and mutable_succeeds: "valid s hs \<Longrightarrow> prev_in prev hs \<Longrightarrow> ready s \<Longrightarrow> 0 < room s \<Longrightarrow>
      \<exists>r s'. op_allocate_mutable_block ops prev GPU extra s = (Inr r, s') \<and> ready s' \<and> room s \<le> Suc (room s')"
    and need_partial: "length c < bsize s \<Longrightarrow> 0 < need s extra [c]"
    and immutable_succeeds: "valid s hs \<Longrightarrow> \<forall>c \<in> set cs. length c = bsize s \<Longrightarrow> \<forall>c \<in> set rest. length c < bsize s \<Longrightarrow> length rest \<le> 1 \<Longrightarrow>
      ready s \<Longrightarrow> need s extra (cs @ rest) \<le> room s \<Longrightarrow>
      \<exists>rs s'. op_allocate_immutable_blocks ops None cs GPU extra s = (Inr rs, s') \<and> ready s' \<and> length rest \<le> room s'"
    and append_succeeds: "valid s hs \<Longrightarrow> r \<in> set hs \<Longrightarrow> prev_in (b_prev (op_heap ops s ! r)) (remove1 r hs) \<Longrightarrow>
      length (b_token_ids (op_heap ops s ! r)) < bsize s \<Longrightarrow> length (b_token_ids (op_heap ops s ! r)) + length toks \<le> bsize s \<Longrightarrow>
      \<exists>s'. op_append ops toks r s = (Inr (), s') \<and> (ready s \<longrightarrow> ready s')"
begin

lemma append_new_succeeds:
  "valid s hs \<Longrightarrow> set (bl_blocks (tb_blocks t)) \<subseteq> set hs \<Longrightarrow> bl_blocks (tb_blocks t) \<noteq> [] \<Longrightarrow> ready s \<Longrightarrow> n \<le> room s \<Longrightarrow>
   \<exists>t' s'. append_new_blocks ops n extra (t, s) = (Inr (), (t', s')) \<and> ready s'"
proof (induction n arbitrary: s hs t)
  case 0
  then show ?case by (simp add: ret_def)
next
  case (Suc n)
  let ?rs = "bl_blocks (tb_blocks t)"
  have pin: "prev_in (Some (last ?rs)) hs" using last_in_set [OF Suc.prems(3)] Suc.prems(2) by (auto simp: prev_in_def)
  have "0 < room s" using Suc.prems(5) by simp
  from mutable_succeeds [OF Suc.prems(1) pin Suc.prems(4) this] obtain r s1
    where al: "op_allocate_mutable_block ops (Some (last ?rs)) GPU extra s = (Inr r, s1)" and rd: "ready s1" and rm: "room s \<le> Suc (room s1)" by blast
  note l = mutable_law [OF Suc.prems(1) pin al]
  then obtain i where i: "b_block_id (op_heap ops s1 ! r) = Some i" by blast
  define bl where "bl = (tb_blocks t)\<lparr>bl_blocks := ?rs @ [r], bl_block_ids := bl_block_ids (tb_blocks t) @ [i]\<rparr>"
  have v1: "valid s1 (r # hs)" using l by blast
  have n: "n \<le> room s1" using rm Suc.prems(5) by simp
  have "\<exists>t' s'. append_new_blocks ops n extra (t\<lparr>tb_blocks := bl\<rparr>, s1) = (Inr (), (t', s')) \<and> ready s'"
    by (rule Suc.IH [OF v1 _ _ rd n]) (use Suc.prems(2) in \<open>auto simp: bl_def\<close>)
  then show ?case using Suc.prems(3) al i
    by (simp add: bind_act_def gets_def check_def ret_def on_store_def zoom_def on_list_def bl_append_def Let_def bl_def)
qed

lemma append_one_succeeds:
  assumes v: "valid s hs" and rs: "set (bl_blocks (tb_blocks t)) \<subseteq> set hs"
    and h: "holds_tokens (op_heap ops s) (bsize s) (bl_blocks (tb_blocks t)) xs" and ids: "ids_current (op_heap ops s) (tb_blocks t)"
    and fits: "length xs mod bsize s + length c \<le> bsize s" and k: "length xs div bsize s < length (bl_blocks (tb_blocks t))"
  shows "\<exists>t' s'. bl_append_token_ids ops (length xs div bsize s) c (t, s) = (Inr (), (t', s')) \<and> (ready s \<longrightarrow> ready s')"
proof -
  let ?rs = "bl_blocks (tb_blocks t)" and ?k = "length xs div bsize s"
  define r where "r = ?rs ! ?k"
  have r: "r \<in> set hs" using k rs by (auto simp: r_def)
  have dist: "distinct ?rs" using h by (simp add: holds_tokens_def)
  have b: "b_token_ids (op_heap ops s ! r) = slice (bsize s) xs ?k" "b_prev (op_heap ops s ! r) = (if ?k = 0 then None else Some (?rs ! (?k - 1)))"
    using h k unfolding holds_tokens_def r_def by blast+
  have "length (slice (bsize s) xs ?k) = length xs mod bsize s"
    using valid_size [OF v] by (simp add: slice_def minus_div_mult_eq_mod min_def)
  moreover have "length xs mod bsize s < bsize s" using valid_size [OF v] by simp
  moreover have "prev_in (b_prev (op_heap ops s ! r)) (remove1 r hs)"
  proof (cases "?k = 0")
    case False
    then have "?rs ! (?k - 1) \<in> set ?rs" "?rs ! (?k - 1) \<noteq> r" using k dist by (auto simp: r_def nth_eq_iff_index_eq)
    with rs valid_distinct [OF v] b(2) False show ?thesis by (auto simp: prev_in_def)
  qed (use b(2) in \<open>simp add: prev_in_def\<close>)
  ultimately obtain s' where ap: "op_append ops c r s = (Inr (), s')" and rd: "ready s \<longrightarrow> ready s'"
    using append_succeeds [OF v r, of c] b(1) fits by auto
  have v': "valid s' hs" using append_law [OF v r _ ap] \<open>prev_in (b_prev (op_heap ops s ! r)) (remove1 r hs)\<close> by blast
  from valid_ids [OF v' r] obtain i where i: "b_block_id (op_heap ops s' ! r) = Some i" by blast
  have "length (bl_block_ids (tb_blocks t)) = length ?rs" using ids unfolding ids_current_def by (metis length_map)
  then have "\<exists>bl. bl_refresh (op_heap ops s') ?k (b_block_id (op_heap ops s ! r)) (tb_blocks t) = (Inr (), bl)"
    using i k by (simp add: bl_refresh_def Let_def r_def [symmetric])
  then obtain bl where "bl_refresh (op_heap ops s') ?k (b_block_id (op_heap ops s ! r)) (tb_blocks t) = (Inr (), bl)" by blast
  with ap k rd show ?thesis
    by (simp add: bl_append_token_ids_def bind_act_def gets_def on_store_def zoom_def on_list_def r_def)
qed

lemma append_all_succeeds:
  "valid s hs \<Longrightarrow> tb_block_size t = bsize s \<Longrightarrow> set (bl_blocks (tb_blocks t)) \<subseteq> set hs \<Longrightarrow>
   holds_tokens (op_heap ops s) (bsize s) (bl_blocks (tb_blocks t)) xs \<Longrightarrow> ids_current (op_heap ops s) (tb_blocks t) \<Longrightarrow>
   chunks_fit (bsize s) (length xs) cs \<Longrightarrow> [] \<notin> set cs \<Longrightarrow> length xs + length (concat cs) \<le> length (bl_blocks (tb_blocks t)) * bsize s \<Longrightarrow>
   \<exists>t' s'. append_token_blocks ops (length xs div bsize s) cs (t, s) = (Inr (), (t', s')) \<and> (ready s \<longrightarrow> ready s')"
proof (induction cs arbitrary: s t xs)
  case Nil
  then show ?case by (simp add: ret_def)
next
  case (Cons c cs)
  have fits: "length xs mod bsize s + length c \<le> bsize s" using Cons.prems(6) by simp
  have "length xs < length (bl_blocks (tb_blocks t)) * bsize s" using Cons.prems(7,8) by (cases c) auto
  then have k: "length xs div bsize s < length (bl_blocks (tb_blocks t))" by (simp add: less_mult_imp_div_less)
  from append_one_succeeds [OF Cons.prems(1,3-5) fits k] obtain t1 s1
    where one: "bl_append_token_ids ops (length xs div bsize s) c (t, s) = (Inr (), (t1, s1))" and rd: "ready s \<longrightarrow> ready s1" by blast
  note f1 = append_one [OF Cons.prems(1-5) fits one]
  have sh: "tb_block_size t1 = bsize s1" "bl_blocks (tb_blocks t1) = bl_blocks (tb_blocks t)"
    using f1(2,3) Cons.prems(2) by (simp_all add: same_shape_def)
  show ?case
  proof (cases "cs = []")
    case True
    with one rd show ?thesis by (simp add: bind_act_def ret_def)
  next
    case False
    then have "length xs mod bsize s + length c = bsize s" using Cons.prems(6) by simp
    from fill_length(2) [OF div_mult_mod_eq [symmetric] this]
    have "length (xs @ c) = Suc (length xs div bsize s) * bsize s" by simp
    then have k1: "Suc (length xs div bsize s) = length (xs @ c) div bsize s1"
      using valid_size [OF Cons.prems(1)] f1(2) by (metis div_mult_self_is_m)
    have "\<exists>t' s'. append_token_blocks ops (length (xs @ c) div bsize s1) cs (t1, s1) = (Inr (), (t', s')) \<and> (ready s1 \<longrightarrow> ready s')"
      by (rule Cons.IH [OF f1(1) sh(1) _ _ f1(5)]) (use f1(2,4) sh(2) Cons.prems(3,6-8) in simp_all)
    then show ?thesis using one k1 rd by (auto simp: bind_act_def)
  qed
qed

text \<open>An append for whose touched blocks there is room.\<close>

lemma table_append_succeeds:
  assumes v: "valid s hs" and bs: "tb_block_size t = bsize s" and rs: "set (bl_blocks (tb_blocks t)) \<subseteq> set hs" "bl_blocks (tb_blocks t) \<noteq> []"
    and h: "table_holds (op_heap ops s) t xs" and win: "tb_max_block_sliding_window t = None" and la: "0 \<le> lookahead"
    and touched: "num_blocks_touched_by_append_slots t toks lookahead = Inr n" and rd: "ready s" and rm: "n \<le> int (room s)"
  shows "\<exists>t' s'. tb_append_token_ids ops toks lookahead computed extra (t, s) = (Inr (), (t', s')) \<and> ready s'"
proof -
  let ?b = "int (bsize s)" and ?rs = "bl_blocks (tb_blocks t)" and ?want = "int (length toks) + lookahead"
  have pos: "0 < bsize s" by (rule valid_size [OF v])
  have hx: "holds_tokens (op_heap ops s) (bsize s) ?rs xs" "ids_current (op_heap ops s) (tb_blocks t)"
    "tb_num_full_slots t = length xs" using h bs by (simp_all add: table_holds_def)
  define first where "first = bsize s - length xs mod bsize s"
  have n: "n = 1 + - (- (?want - int first) div ?b)"
    using touched pos ceiling_cdiv [of ?b "?want - int first"] by (simp add: num_blocks_touched_by_append_slots_def Let_def bs hx(3) first_def)
  define e where "e = int (length ?rs * bsize s) - int (length xs)"
  have al: "tb_is_allocated t" and e: "tb_num_empty_slots t = e" using rs(2) by (simp_all add: tb_is_allocated_def tb_num_empty_slots_def e_def bs hx(3))
  define m where "m = (if ?want \<le> e then 0 else nat (- (- (?want - e) div ?b)))"
  have "0 \<le> e" using hx(1) unfolding e_def holds_tokens_def by (metis diff_ge_0_iff_ge of_nat_le_iff)
  have m: "int m \<le> n"
  proof (cases "?want \<le> e")
    case True
    have "?want - int first \<ge> - ?b" using la pos first_def by simp
    then have "- (?want - int first) \<le> ?b" by simp
    from zdiv_mono1 [OF this, of ?b] have "- (?want - int first) div ?b \<le> 1" using pos by simp
    with True n show ?thesis by (simp add: m_def)
  next
    case False
    have "- (- (?want - e) div ?b) \<le> n"
    proof (rule cdiv_le)
      have "?want - int first \<le> (n - 1) * ?b" using cdiv_covers [of ?b "?want - int first"] n pos by simp
      moreover have "int first \<le> ?b" by (simp add: first_def)
      ultimately show "?want - e \<le> n * ?b" using \<open>0 \<le> e\<close> by (simp add: algebra_simps)
    qed (use pos in simp)
    moreover have "0 \<le> - (- (?want - e) div ?b)" using False pos by (simp add: div_nonpos_pos_le0)
    ultimately show ?thesis using False by (simp add: m_def)
  qed
  then have "m \<le> room s" using rm by simp
  from append_new_succeeds [OF v rs rd this] obtain t1 s1 where an: "append_new_blocks ops m extra (t, s) = (Inr (), (t1, s1))" and rd1: "ready s1" by blast
  have en: "ensure_num_empty_slots ops ?want extra (t, s) = (Inr (), (t1, s1))"
    using an al e pos by (auto simp: ensure_num_empty_slots_def bind_act_def gets_def check_def ret_def lift_res_def cdiv_def bs m_def split: if_splits)
  from append_new [OF v bs rs(1) hx(1,2) an] obtain new where nw: "valid s1 (new @ hs)" "bsize s1 = bsize s" "tb_block_size t1 = bsize s1"
    "tb_num_full_slots t1 = length xs" "bl_blocks (tb_blocks t1) = ?rs @ rev new" "length new = m"
    "holds_tokens (op_heap ops s1) (bsize s1) (bl_blocks (tb_blocks t1)) xs" "ids_current (op_heap ops s1) (tb_blocks t1)" using bs hx(3) by auto
  have "\<exists>cs. chunk_token_blocks_for_append t1 toks = Inr cs" using pos nw(2,3) by (simp add: chunk_token_blocks_for_append_def Let_def)
  then obtain cs where cs: "chunk_token_blocks_for_append t1 toks = Inr cs" by blast
  have pos1: "0 < tb_block_size t1" using pos nw(2,3) by simp
  note fit = chunk_token_blocks_fit [OF pos1 cs]
  have ne: "[] \<notin> set cs" using cs pos1 mod_less_divisor [OF pos1, of "tb_num_full_slots t1"]
    by (cases "toks = []") (auto simp: chunk_token_blocks_for_append_def Let_def chunks_nonempty simp del: mod_less_divisor)
  have "int (length xs) + int (length toks) \<le> int (length ?rs * bsize s) + int m * ?b"
  proof (cases "?want \<le> e")
    case True
    then show ?thesis using la by (simp add: e_def m_def)
  next
    case False
    then have "int m = - (- (?want - e) div ?b)" using pos by (simp add: m_def div_nonpos_pos_le0)
    then have "?want - e \<le> int m * ?b" using cdiv_covers [of ?b "?want - e"] pos by simp
    then show ?thesis using la by (simp add: e_def)
  qed
  then have fits: "length xs + length (concat cs) \<le> length (bl_blocks (tb_blocks t1)) * bsize s1"
    using nw(2,5,6) fit(2) by (simp add: algebra_simps flip: of_nat_add of_nat_mult)
  have sub: "set (bl_blocks (tb_blocks t1)) \<subseteq> set (new @ hs)" using nw(5) rs(1) by auto
  have "chunks_fit (bsize s1) (length xs) cs" using fit(1) nw(3,4) by simp
  from append_all_succeeds [OF nw(1,3) sub nw(7,8) this ne fits] show ?thesis
    using al win en cs nw(3,4) pos nw(2) rd1
    by (auto simp: tb_append_token_ids_def bind_act_def gets_def check_def ret_def drop_window_def lift_res_def modify_def)
qed

text \<open>An allocation for whose blocks there is room.\<close>

lemma table_allocate_succeeds:
  assumes v: "valid s hs" and bs: "tb_block_size t = bsize s" and fresh: "\<not> tb_is_allocated t" and ne: "toks \<noteq> []"
    and rd: "ready s" and rm: "need s extra (chunks (bsize s) toks) \<le> room s"
  shows "\<exists>t' s'. tb_allocate ops toks GPU extra (t, s) = (Inr (), (t', s')) \<and> ready s'"
proof -
  let ?b = "bsize s"
  have pos: "0 < ?b" by (rule valid_size [OF v])
  define full where "full = filter (\<lambda>c. length c = ?b) (chunks ?b toks)"
  define tails where "tails = filter (\<lambda>c. length c \<noteq> ?b) (chunks ?b toks)"
  note ft = chunks_full_tail [OF pos, of toks, folded full_def tails_def]
  have split: "chunks ?b toks = full @ tails" unfolding full_def tails_def by (rule chunks_full_first [OF pos])
  have fl: "\<forall>c \<in> set full. length c = ?b" by (simp add: full_def)
  have tl: "\<forall>c \<in> set tails. length c < ?b" "length tails \<le> 1" using ft by (simp_all add: Let_def)
  obtain rs1 s1 where r1: "op_allocate_immutable_blocks ops None full GPU extra s = (Inr rs1, s1)" and rd1: "ready s1" and rm1: "length tails \<le> room s1"
    using immutable_succeeds [OF v fl tl rd, of extra] rm split by auto
  note im = immutable_law [OF v _ fl r1]
  have im: "valid s1 (rev rs1 @ hs)" "bsize s1 = ?b" "length rs1 = length full" using im by (auto simp: prev_in_def)
  have "\<exists>rs s'. allocate_blocks_for_token_ids ops None toks GPU extra (t, s) = (Inr rs, (t, s')) \<and> ready s'"
  proof (cases tails)
    case Nil
    then have "full \<noteq> []" using ne ft by (auto simp: Let_def)
    with Nil r1 pos rd1 show ?thesis
      unfolding allocate_blocks_for_token_ids_def
      by (simp add: bind_act_def gets_def lift_res_def chunk_list_def bs Let_def full_def [symmetric] tails_def [symmetric] on_store_def zoom_def ret_def)
  next
    case (Cons tail tl')
    then have tail: "tails = [tail]" using tl(2) by simp
    define s2 where "s2 = (if full = [] then s else s1)"
    define rs2 where "rs2 = (if full = [] then [] else rs1)"
    define prev where "prev = (if full = [] then None else Some (last rs2))"
    have v2: "valid s2 (rev rs2 @ hs)" "bsize s2 = ?b" using im(1,2) v by (simp_all add: s2_def rs2_def)
    have pin: "prev_in prev (rev rs2 @ hs)" 
      using im(3) last_in_set [of rs1] by (cases "rs1 = []") (auto simp: prev_in_def prev_def rs2_def)
    have "0 < room s2"
    proof (cases "full = []")
      case True
      then have "need s extra [tail] \<le> room s" using rm split tail by simp
      then show ?thesis using need_partial [of tail s extra] tl(1) tail True by (simp add: s2_def)
    qed (use rm1 tail in \<open>simp add: s2_def\<close>)
    moreover have "ready s2" using rd rd1 by (simp add: s2_def)
    ultimately obtain r s3 where al: "op_allocate_mutable_block ops prev GPU extra s2 = (Inr r, s3)" and rd3: "ready s3" using mutable_succeeds [OF v2(1) pin] by blast
    note m = mutable_law [OF v2(1) pin al]
    have v3: "valid s3 (r # rev rs2 @ hs)" "bsize s3 = ?b" "b_token_ids (op_heap ops s3 ! r) = []" "b_prev (op_heap ops s3 ! r) = prev" using m v2(2) by auto
    have "prev_in (b_prev (op_heap ops s3 ! r)) (remove1 r (r # rev rs2 @ hs))" using v3(4) pin by simp
    then obtain s4 where ap: "op_append ops tail r s3 = (Inr (), s4)" and rd4: "ready s4"
      using append_succeeds [OF v3(1), of r tail] v3(2,3) pos tl(1) tail rd3 by auto
    have "allocate_blocks_for_token_ids ops None toks GPU extra (t, s) = (Inr (rs2 @ [r]), (t, s4))"
      unfolding allocate_blocks_for_token_ids_def using r1 al ap tail pos
      by (cases "full = []") (simp_all add: bind_act_def gets_def lift_res_def chunk_list_def bs Let_def full_def [symmetric] tails_def [symmetric]
        prev_def rs2_def s2_def on_store_def zoom_def ret_def)
    with rd4 show ?thesis by blast
  qed
  then obtain rs s' where al: "allocate_blocks_for_token_ids ops None toks GPU extra (t, s) = (Inr rs, (t, s'))" and rd': "ready s'" by blast
  have v': "valid s' (rev rs @ hs)" by (rule blocks_for_tokens(2) [OF v bs ne al])
  have "takeWhile (\<lambda>r. b_block_id (op_heap ops s' ! r) \<noteq> None) rs = rs" using valid_ids [OF v'] by (simp add: takeWhile_eq_all_conv)
  then show ?thesis using fresh ne al rd'
    by (simp add: tb_allocate_def bind_act_def gets_def check_def ret_def tb_update_def on_list_def bl_update_def Let_def modify_def)
qed

end

end
