(* ===== verification/GpuStore.thy ===== *)
theory GpuStore
  imports TableRoom
begin

text \<open>
  The prefix caching allocator of the GPU, reached through the allocator for both devices, keeps
  the contract that the block tables rely on.
\<close>

section \<open>Operations on the GPU\<close>

lemma da_of_put [simp]: "da_of GPU (da_put GPU (Prefix p) s) = Prefix p"
  by (simp add: da_of_def da_put_def Let_def)

lemma da_put_simps [simp]:
  "da_heap (da_put d a s) = na_heap (al_naive a)" "da_null (da_put d a s) = da_null s" "da_cpu (da_put GPU a s) = da_cpu s"
  "da_gpu (da_put GPU a s) = a" "da_swap_mapping (da_put d a s) = da_swap_mapping s"
  by (cases d; simp add: da_put_def Let_def)+

lemma da_gpu_facts:
  assumes "da_of GPU s = Prefix p"
  shows "da_heap s = na_heap (pc_hashless p)" "al_all (da_gpu s) = na_all (pc_hashless p)"
    "na_pool (al_naive (da_gpu s)) = na_pool (pc_hashless p)"
  using assms by (cases "da_gpu s"; auto simp: da_of_def al_all_def)+

lemma on_dev_gpu:
  "da_of GPU s = Prefix p \<Longrightarrow> on_dev GPU (dispatch f g) s = (case g p of (x, p') \<Rightarrow> (x, da_put GPU (Prefix p') s))"
  by (simp add: on_dev_def zoom_def split: prod.splits)

lemma on_dev_gpu_Inr:
  "da_of GPU s = Prefix p \<Longrightarrow> on_dev GPU (dispatch f g) s = (Inr x, s') \<longleftrightarrow> (\<exists>p'. g p = (Inr x, p') \<and> s' = da_put GPU (Prefix p') s)"
  by (auto simp: on_dev_gpu split: prod.splits)

lemma owned_in_pool:
  assumes "pc_good p" "owned p r"
  shows "r \<in> set (bp_pool (na_pool (pc_hashless p)))"
  using assms pc_good_pool [OF assms(1)] unfolding owned_def owns_def pool_ok_def by (metis nth_mem)

section \<open>The state in which a client works\<close>

definition gpu_held :: "(string \<Rightarrow> int) \<Rightarrow> dev_alloc \<Rightarrow> ref list \<Rightarrow> bool" where
  "gpu_held H s hs \<longleftrightarrow> no_none H \<and> da_null s = None \<and> (case da_of GPU s of Prefix p \<Rightarrow> pc_inv H p hs | Naive _ \<Rightarrow> False)"

definition da_block_size :: "dev_alloc \<Rightarrow> nat" where
  "da_block_size s = na_block_size (al_naive (da_of GPU s))"

lemma gpu_heldE:
  assumes "gpu_held H s hs"
  obtains p where "da_of GPU s = Prefix p" "pc_inv H p hs" "no_none H" "da_null s = None" "da_heap s = na_heap (pc_hashless p)"
    "da_block_size s = na_block_size (pc_hashless p)"
proof -
  obtain p where p: "da_of GPU s = Prefix p" "pc_inv H p hs" using assms by (auto simp: gpu_held_def split: allocator.splits)
  with that [of p] assms da_gpu_facts(1) [OF p(1)] show thesis by (simp add: gpu_held_def da_block_size_def)
qed

lemma gpu_held_put: "no_none H \<Longrightarrow> da_null s = None \<Longrightarrow> pc_inv H p hs \<Longrightarrow> gpu_held H (da_put GPU (Prefix p) s) hs"
  by (simp add: gpu_held_def)

text \<open>No operation on the GPU changes the number of its blocks or the allocator of the CPU.\<close>

definition gpu_fixed :: "dev_alloc \<Rightarrow> nat \<times> allocator" where
  "gpu_fixed s = (da_num_total GPU s, da_cpu s)"

lemma gpu_total: "da_of GPU s = Prefix p \<Longrightarrow> da_num_total GPU s = length (na_all (pc_hashless p))"
  by (simp add: da_num_total_def al_num_total_def na_num_total_blocks_def)

lemma da_block_size_put [simp]: "da_block_size (da_put GPU (Prefix p) s) = na_block_size (pc_hashless p)"
  by (simp add: da_block_size_def)

lemma cpu_gpu_ops_simps [simp]:
  "op_heap (cpu_gpu_ops H) = da_heap" "op_allocate_mutable_block (cpu_gpu_ops H) = da_allocate_mutable_block H"
  "op_allocate_immutable_blocks (cpu_gpu_ops H) = da_allocate_immutable_blocks H" "op_append (cpu_gpu_ops H) = da_append H"
  "op_free (cpu_gpu_ops H) = da_free H" "op_fork (cpu_gpu_ops H) = da_fork" "op_null_block (cpu_gpu_ops H) = da_allocate_or_get_null_block H"
  by (simp_all add: cpu_gpu_ops_def)

lemma held_ok:
  assumes "pc_inv H p hs" "r \<in> set hs"
  shows "owned p r" "blk_ok H p (pc_obj p r)" "b_block_id (pc_obj p r) \<noteq> None"
proof -
  have "held_inv H p hs (\<lambda>_. 0)" using assms(1) by (simp add: pc_inv_def)
  then show "owned p r" "blk_ok H p (pc_obj p r)" using assms(2) by (rule held_inv_owned, rule held_inv_blk)
  then show "b_block_id (pc_obj p r) \<noteq> None" by (auto simp: blk_ok_def)
qed

lemma gpu_owner:
  assumes "da_of GPU s = Prefix p" "pc_inv H p hs" "r \<in> set hs"
  shows "da_owner s r = GPU"
  using assms owned_in_pool [of p r] held_ok(1) [of H p hs r] da_gpu_facts(3) [OF assms(1)] by (simp add: da_owner_def pc_inv_def)

lemma gpu_device:
  assumes "da_of GPU s = Prefix p" "pc_inv H p hs" "r \<in> set hs"
  shows "da_device_of_block r s = (Inr GPU, s)"
proof -
  have good: "pc_good p" and held: "held_inv H p hs (\<lambda>_. 0)" using assms(2) by (simp_all add: pc_inv_def)
  obtain i n where i: "b_block_id (pc_obj p r) = Some i" "map_of (pc_rc p) i = Some n"
    by (rule held_id [OF held good assms(3)]) blast
  have "i \<in> set (na_all (pc_hashless p))" using i(2) good unfolding pc_good_def pc_wf_def by (metis domI)
  with i da_gpu_facts [OF assms(1)] show ?thesis by (simp add: da_device_of_block_def da_device_def)
qed

section \<open>The laws\<close>

lemma gpu_mutable:
  assumes held: "gpu_held H s hs" and prev: "prev_in prev hs" and run: "da_allocate_mutable_block H prev GPU extra s = (Inr r, s')"
  shows "gpu_held H s' (r # hs) \<and> gpu_fixed s' = gpu_fixed s \<and> da_block_size s' = da_block_size s \<and> same_objs (cpu_gpu_ops H) (set hs) s s'
    \<and> b_token_ids (da_heap s' ! r) = [] \<and> b_prev (da_heap s' ! r) = prev \<and> b_block_id (da_heap s' ! r) \<noteq> None"
proof -
  obtain p where p: "da_of GPU s = Prefix p" "pc_inv H p hs" "no_none H" "da_null s = None" "da_heap s = na_heap (pc_hashless p)"
    "da_block_size s = na_block_size (pc_hashless p)" by (rule gpu_heldE [OF held])
  obtain p' where al: "pc_allocate_mutable_block H prev extra p = (Inr r, p')" and s': "s' = da_put GPU (Prefix p') s"
    using run by (auto simp: da_allocate_mutable_block_def al_allocate_mutable_block_def on_dev_gpu_Inr [OF p(1)])
  have g: "pc_good p" "held_inv H p hs (\<lambda>_. 0)" "0 < na_block_size (pc_hashless p)" using p(2) by (simp_all add: pc_inv_def)
  have "owned p q" if "prev = Some q" for q using pc_inv_prev [OF p(2) prev that] by simp
  then obtain i where i: "pc_good p'" "held_inv H p' (r # hs) (\<lambda>_. 0)" "frame p p'" "b_block_id (pc_obj p' r) = Some i"
    "b_token_ids (pc_obj p' r) = []" "b_prev (pc_obj p' r) = prev" "grow p p'" using alloc_mutable_ok [OF g _ al] by metis
  have inv': "pc_inv H p' (r # hs)" by (rule pc_inv_step [OF p(2) i(1,2)]) (use i(3,7) in \<open>simp_all add: frame_def grow_def\<close>)
  then show ?thesis
    using i p gpu_held_put [OF p(3,4) inv'] held_frame [OF p(2) i(3)] gpu_total [OF p(1)] gpu_total [of s' p'] by (simp add: s' same_objs_def frame_def gpu_fixed_def)
qed

lemma immutable_blocks_inv:
  "pc_inv H p hs \<Longrightarrow> no_none H \<Longrightarrow> prev_in prev hs \<Longrightarrow> \<forall>c \<in> set cs. length c = na_block_size (pc_hashless p) \<Longrightarrow>
   pc_allocate_immutable_blocks H prev cs extra p = (Inr rs, p') \<Longrightarrow>
   pc_inv H p' (rev rs @ hs) \<and> frame p p' \<and> length rs = length cs
   \<and> (\<forall>k < length rs. b_token_ids (pc_obj p' (rs ! k)) = cs ! k
        \<and> b_prev (pc_obj p' (rs ! k)) = (if k = 0 then prev else Some (rs ! (k - 1))))"
proof (induction cs arbitrary: p hs prev rs)
  case Nil
  then show ?case by (auto simp: ret_def)
next
  case (Cons c cs)
  obtain r p1 rs1 where one: "pc_allocate_immutable_block H prev c extra p = (Inr r, p1)"
    and rest: "pc_allocate_immutable_blocks H (Some r) cs extra p1 = (Inr rs1, p')" and rs: "rs = r # rs1"
    using Cons.prems(5) by (auto simp: bind_act_Inr_iff ret_def)
  have c: "length c = na_block_size (pc_hashless p)" using Cons.prems(4) by simp
  have pin: "q \<in> set hs" if "prev = Some q" for q using pc_inv_prev [OF Cons.prems(1,3) that] by simp
  have g: "pc_good p" "held_inv H p hs (\<lambda>_. 0)" "0 < na_block_size (pc_hashless p)" using Cons.prems(1) by (simp_all add: pc_inv_def)
  have r: "pc_good p1" "held_inv H p1 (r # hs) (\<lambda>_. 0)" "frame p p1" "b_token_ids (pc_obj p1 r) = c" "b_prev (pc_obj p1 r) = prev" "grow p p1"
    using alloc_immutable_ok [OF g(1,2) Cons.prems(2) g(3) c pin one] by simp_all
  have inv1: "pc_inv H p1 (r # hs)" by (rule pc_inv_step [OF Cons.prems(1) r(1,2)]) (use r(3,6) in \<open>simp_all add: frame_def grow_def\<close>)
  have "\<forall>c \<in> set cs. length c = na_block_size (pc_hashless p1)" using Cons.prems(4) r(3) by (simp add: frame_def)
  from Cons.IH [OF inv1 Cons.prems(2) _ this rest]
  have ih: "pc_inv H p' (rev rs1 @ r # hs)" "frame p1 p'" "length rs1 = length cs"
    "\<forall>k < length rs1. b_token_ids (pc_obj p' (rs1 ! k)) = cs ! k \<and> b_prev (pc_obj p' (rs1 ! k)) = (if k = 0 then Some r else Some (rs1 ! (k - 1)))"
    by (simp_all add: prev_in_def)
  have keep: "pc_obj p' r = pc_obj p1 r" by (rule held_frame [OF inv1 ih(2)]) simp
  have "b_token_ids (pc_obj p' (rs ! k)) = (c # cs) ! k \<and> b_prev (pc_obj p' (rs ! k)) = (if k = 0 then prev else Some (rs ! (k - 1)))"
    if "k < length rs" for k
    using that ih(4) keep r(4,5) by (cases k) (auto simp: rs nth_Cons')
  with ih frame_trans [OF r(3) ih(2)] show ?case by (simp add: rs)
qed

lemma gpu_immutable:
  assumes held: "gpu_held H s hs" and prev: "prev_in prev hs" and cs: "\<forall>c \<in> set cs. length c = da_block_size s"
    and run: "da_allocate_immutable_blocks H prev cs GPU extra s = (Inr rs, s')"
  shows "gpu_held H s' (rev rs @ hs) \<and> gpu_fixed s' = gpu_fixed s \<and> da_block_size s' = da_block_size s \<and> same_objs (cpu_gpu_ops H) (set hs) s s' \<and> length rs = length cs
    \<and> (\<forall>k < length rs. b_token_ids (da_heap s' ! (rs ! k)) = cs ! k \<and> b_prev (da_heap s' ! (rs ! k)) = (if k = 0 then prev else Some (rs ! (k - 1))))"
proof -
  obtain p where p: "da_of GPU s = Prefix p" "pc_inv H p hs" "no_none H" "da_null s = None" "da_heap s = na_heap (pc_hashless p)"
    "da_block_size s = na_block_size (pc_hashless p)" by (rule gpu_heldE [OF held])
  obtain p' where al: "pc_allocate_immutable_blocks H prev cs extra p = (Inr rs, p')" and s': "s' = da_put GPU (Prefix p') s"
    using run by (auto simp: da_allocate_immutable_blocks_def al_allocate_immutable_blocks_def on_dev_gpu_Inr [OF p(1)])
  have "\<forall>c \<in> set cs. length c = na_block_size (pc_hashless p)" using cs p(6) by simp
  from immutable_blocks_inv [OF p(2,3) prev this al] have i: "pc_inv H p' (rev rs @ hs)" "frame p p'" "length rs = length cs"
    "\<forall>k < length rs. b_token_ids (pc_obj p' (rs ! k)) = cs ! k \<and> b_prev (pc_obj p' (rs ! k)) = (if k = 0 then prev else Some (rs ! (k - 1)))"
    by blast+
  have "same_objs (cpu_gpu_ops H) (set hs) s s'" using held_frame [OF p(2) i(2)] p(5) by (simp add: s' same_objs_def)
  moreover have "da_block_size s' = da_block_size s" "gpu_fixed s' = gpu_fixed s"
    using i(2) p(6) gpu_total [OF p(1)] gpu_total [of s' p'] by (simp_all add: s' frame_def gpu_fixed_def)
  ultimately show ?thesis using gpu_held_put [OF p(3,4) i(1)] i(3,4) by (simp add: s')
qed

lemma gpu_append:
  assumes held: "gpu_held H s hs" and r: "r \<in> set hs" and prev: "prev_in (b_prev (da_heap s ! r)) (remove1 r hs)"
    and run: "da_append H toks r s = (Inr (), s')"
  shows "gpu_held H s' hs \<and> gpu_fixed s' = gpu_fixed s \<and> da_block_size s' = da_block_size s \<and> same_objs (cpu_gpu_ops H) (set hs - {r}) s s'
    \<and> b_token_ids (da_heap s' ! r) = b_token_ids (da_heap s ! r) @ toks \<and> b_prev (da_heap s' ! r) = b_prev (da_heap s ! r)
    \<and> b_block_id (da_heap s' ! r) \<noteq> None"
proof -
  obtain p where p: "da_of GPU s = Prefix p" "pc_inv H p hs" "no_none H" "da_null s = None" "da_heap s = na_heap (pc_hashless p)"
    "da_block_size s = na_block_size (pc_hashless p)" by (rule gpu_heldE [OF held])
  obtain p' where ap: "pc_append_token_ids H toks r p = (Inr (), p')" and s': "s' = da_put GPU (Prefix p') s"
    using run gpu_owner [OF p(1,2) r] p(4) by (auto simp: da_append_def al_append_def bind_act_Inr_iff gets_def on_dev_gpu_Inr [OF p(1)])
  have pv: "prev_in (b_prev (pc_obj p r)) (remove1 r hs)" using prev p(5) by simp
  have inv': "pc_inv H p' hs" by (rule append_inv [OF p(2,3) r pv ap])
  have ok: "blk_ok H p (pc_obj p r)" by (rule held_ok(2) [OF p(2) r])
  note pre = append_preconditions [OF blk_ok_settled [OF ok] ap]
  have "frame_but r p p' \<and> b_token_ids (pc_obj p' r) = b_token_ids (pc_obj p r) @ toks \<and> b_prev (pc_obj p' r) = b_prev (pc_obj p r)"
  proof (cases "toks = []")
    case True
    with pre(2) show ?thesis by (simp add: frame_but_def)
  next
    case False
    have "prev_held p (remove1 r hs) r" using pv by (auto simp: prev_held_def prev_in_def)
    moreover have "length (b_token_ids (pc_obj p r)) + length toks \<le> na_block_size (pc_hashless p)"
      using pre(2) False ok by (simp add: blk_ok_def)
    ultimately obtain p1 where "pc_append_token_ids H toks r p = (Inr (), p1)" "frame_but r p p1"
      "b_token_ids (pc_obj p1 r) = b_token_ids (pc_obj p r) @ toks" "b_prev (pc_obj p1 r) = b_prev (pc_obj p r)"
      using append_ok [of p H hs "\<lambda>_. 0" r toks] p(2,3) r pre(1) False unfolding pc_inv_def by metis
    with ap show ?thesis by simp
  qed
  then show ?thesis
    using p gpu_held_put [OF p(3,4) inv'] held_ok(1) [OF p(2)] held_ok(3) [OF inv' r] gpu_total [OF p(1)] gpu_total [of s' p'] by (simp add: s' same_objs_def frame_but_def gpu_fixed_def)
qed

lemma gpu_free:
  assumes held: "gpu_held H s hs" and r: "r \<in> set hs"
  shows "\<exists>s'. da_free H r s = (Inr (), s') \<and> gpu_held H s' (remove1 r hs) \<and> gpu_fixed s' = gpu_fixed s \<and> da_block_size s' = da_block_size s
    \<and> same_objs (cpu_gpu_ops H) (set hs - {r}) s s'"
proof -
  obtain p where p: "da_of GPU s = Prefix p" "pc_inv H p hs" "no_none H" "da_null s = None" "da_heap s = na_heap (pc_hashless p)"
    "da_block_size s = na_block_size (pc_hashless p)" by (rule gpu_heldE [OF held])
  have g: "pc_good p" "held_inv H p hs (\<lambda>_. 0)" using p(2) by (simp_all add: pc_inv_def)
  obtain p' where f: "pc_free H r False p = (Inr (), p')" "pc_good p'" "held_inv H p' (remove1 r hs) (\<lambda>_. 0)"
    "na_all (pc_hashless p') = na_all (pc_hashless p)" "na_block_size (pc_hashless p') = na_block_size (pc_hashless p)"
    "\<And>q. owned p q \<Longrightarrow> q \<noteq> r \<Longrightarrow> owned p' q \<and> pc_obj p' q = pc_obj p q" "phys_step (abs_phys p) (abs_phys p')"
    using free_ok [OF g r] by blast
  have inv': "pc_inv H p' (remove1 r hs)" by (rule pc_inv_step [OF p(2) f(2,3) r_into_rtranclp [of phys_step, OF f(7)] f(5,4)])
  have "da_free H r s = (Inr (), da_put GPU (Prefix p') s)"
    using gpu_device [OF p(1,2) r] p(4) f(1) by (simp add: da_free_def al_free_def bind_act_def gets_def on_dev_gpu [OF p(1)])
  moreover have "same_objs (cpu_gpu_ops H) (set hs - {r}) s (da_put GPU (Prefix p') s)"
    using f(6) held_ok(1) [OF p(2)] p(5) by (simp add: same_objs_def)
  moreover have "da_block_size (da_put GPU (Prefix p') s) = da_block_size s" "gpu_fixed (da_put GPU (Prefix p') s) = gpu_fixed s"
    using f(4,5) p(6) gpu_total [OF p(1)] gpu_total [of "da_put GPU (Prefix p') s" p'] by (simp_all add: gpu_fixed_def)
  ultimately show ?thesis using gpu_held_put [OF p(3,4) inv'] by (intro exI conjI)
qed

lemma gpu_held_facts:
  assumes "gpu_held H s hs"
  shows "distinct hs" "0 < da_block_size s"
proof -
  obtain p where p: "pc_inv H p hs" "da_block_size s = na_block_size (pc_hashless p)" by (rule gpu_heldE [OF assms])
  then show "distinct hs" "0 < da_block_size s" by (simp_all add: pc_inv_def held_inv_def)
qed

definition gpu_state :: "(string \<Rightarrow> int) \<Rightarrow> nat \<times> allocator \<Rightarrow> dev_alloc \<Rightarrow> ref list \<Rightarrow> bool" where
  "gpu_state H fx s hs \<longleftrightarrow> gpu_held H s hs \<and> gpu_fixed s = fx"

lemma gpu_state_held: "gpu_held H s hs \<Longrightarrow> gpu_state H (gpu_fixed s) s hs"
  by (simp add: gpu_state_def)

interpretation gpu: block_store "cpu_gpu_ops H" "gpu_state H fx" da_block_size for H fx
proof unfold_locales
  show "gpu_state H fx s hs \<Longrightarrow> distinct hs" "gpu_state H fx s hs \<Longrightarrow> 0 < da_block_size s" for s hs
    using gpu_held_facts unfolding gpu_state_def by blast+
  fix s hs prev extra cs r rs toks s'
  assume st: "gpu_state H fx s hs"
  then have h: "gpu_held H s hs" by (simp add: gpu_state_def)
  show "gpu_state H fx s' (r # hs) \<and> da_block_size s' = da_block_size s \<and> same_objs (cpu_gpu_ops H) (set hs) s s'
      \<and> b_token_ids (op_heap (cpu_gpu_ops H) s' ! r) = [] \<and> b_prev (op_heap (cpu_gpu_ops H) s' ! r) = prev
      \<and> b_block_id (op_heap (cpu_gpu_ops H) s' ! r) \<noteq> None"
    if "prev_in prev hs" "op_allocate_mutable_block (cpu_gpu_ops H) prev GPU extra s = (Inr r, s')"
    using gpu_mutable [OF h that(1), of extra r s'] that(2) st by (simp add: gpu_state_def)
  show "gpu_state H fx s' (rev rs @ hs) \<and> da_block_size s' = da_block_size s \<and> same_objs (cpu_gpu_ops H) (set hs) s s' \<and> length rs = length cs
      \<and> (\<forall>k < length rs. b_token_ids (op_heap (cpu_gpu_ops H) s' ! (rs ! k)) = cs ! k
           \<and> b_prev (op_heap (cpu_gpu_ops H) s' ! (rs ! k)) = (if k = 0 then prev else Some (rs ! (k - 1))))"
    if "prev_in prev hs" "\<forall>c \<in> set cs. length c = da_block_size s" "op_allocate_immutable_blocks (cpu_gpu_ops H) prev cs GPU extra s = (Inr rs, s')"
    using gpu_immutable [OF h that(1,2), of extra rs s'] that(3) st by (simp add: gpu_state_def)
  show "gpu_state H fx s' hs \<and> da_block_size s' = da_block_size s \<and> same_objs (cpu_gpu_ops H) (set hs - {r}) s s'
      \<and> b_token_ids (op_heap (cpu_gpu_ops H) s' ! r) = b_token_ids (op_heap (cpu_gpu_ops H) s ! r) @ toks
      \<and> b_prev (op_heap (cpu_gpu_ops H) s' ! r) = b_prev (op_heap (cpu_gpu_ops H) s ! r) \<and> b_block_id (op_heap (cpu_gpu_ops H) s' ! r) \<noteq> None"
    if "r \<in> set hs" "prev_in (b_prev (op_heap (cpu_gpu_ops H) s ! r)) (remove1 r hs)" "op_append (cpu_gpu_ops H) toks r s = (Inr (), s')"
    using gpu_append [OF h that(1), of toks s'] that(2,3) st by (simp add: gpu_state_def)
  show "\<exists>s'. op_free (cpu_gpu_ops H) r s = (Inr (), s') \<and> gpu_state H fx s' (remove1 r hs) \<and> da_block_size s' = da_block_size s
      \<and> same_objs (cpu_gpu_ops H) (set hs - {r}) s s'"
    if "r \<in> set hs"
    using gpu_free [OF h that] st by (auto simp: gpu_state_def)
qed

section \<open>Room\<close>

text \<open>
  A free block can be given out while the queue of the evictor covers its table; after the
  access time of an evictable block was changed, an eviction may fail.
\<close>

definition gpu_ready :: "dev_alloc \<Rightarrow> bool" where
  "gpu_ready s \<longleftrightarrow> (case da_of GPU s of Prefix p \<Rightarrow> ev_ok (pc_evictor p) | Naive _ \<Rightarrow> True)"

definition gpu_need :: "(string \<Rightarrow> int) \<Rightarrow> dev_alloc \<Rightarrow> int option \<Rightarrow> int list list \<Rightarrow> nat" where
  "gpu_need H s extra cs =
     (case da_of GPU s of
        Prefix p \<Rightarrow> count_new_loop H p (na_block_size (pc_hashless p)) extra None cs
      | Naive _ \<Rightarrow> length cs)"

lemma gpu_ids: "gpu_held H s hs \<Longrightarrow> r \<in> set hs \<Longrightarrow> b_block_id (da_heap s ! r) \<noteq> None"
  using held_ok(3) by (auto elim!: gpu_heldE)

lemma gpu_need_partial: "length c < da_block_size s \<Longrightarrow> 0 < gpu_need H s extra [c]"
  by (cases "da_of GPU s") (simp_all add: gpu_need_def da_block_size_def)

lemma gpu_mutable_succeeds:
  assumes held: "gpu_held H s hs" and prev: "prev_in prev hs" and rd: "gpu_ready s" and rm: "0 < da_num_free GPU s"
  shows "\<exists>r s'. da_allocate_mutable_block H prev GPU extra s = (Inr r, s') \<and> gpu_ready s' \<and> da_num_free GPU s \<le> Suc (da_num_free GPU s')"
proof -
  obtain p where p: "da_of GPU s = Prefix p" "pc_inv H p hs" "no_none H" "da_null s = None" "da_heap s = na_heap (pc_hashless p)"
    "da_block_size s = na_block_size (pc_hashless p)" by (rule gpu_heldE [OF held])
  have g: "pc_good p" "held_inv H p hs (\<lambda>_. 0)" "0 < na_block_size (pc_hashless p)" using p(2) by (simp_all add: pc_inv_def)
  have ev: "ev_ok (pc_evictor p)" and ne: "0 < pc_num_free_blocks p" using rd rm p(1) by (simp_all add: gpu_ready_def da_num_free_def al_num_free_def)
  have own: "owned p q" if "prev = Some q" for q using pc_inv_prev [OF p(2) prev that] by simp
  obtain i p0 where "pc_allocate_block_id p = (Inr i, p0)" by (rule alloc_id_complete [OF g(1) ev ne])
  then obtain r p' where al: "pc_allocate_mutable_block H prev extra p = (Inr r, p')" using alloc_mutable_of_id [OF g(1,3) own] by metis
  obtain j where j: "pc_good p'" "held_inv H p' (r # hs) (\<lambda>_. 0)" "frame p p'" "b_block_id (pc_obj p' r) = Some j" "grow p p'"
    using alloc_mutable_ok [OF g own al] by metis
  have inv': "pc_inv H p' (r # hs)" by (rule pc_inv_step [OF p(2) j(1,2)]) (use j(3,5) in \<open>simp_all add: frame_def grow_def\<close>)
  have "gpu_ready (da_put GPU (Prefix p') s)" using j(5) ev by (simp add: gpu_ready_def grow_def)
  moreover have "da_num_free GPU s \<le> Suc (da_num_free GPU (da_put GPU (Prefix p') s))"
    using num_free_taken [OF p(2) inv' j(3,4)] p(1) by (simp add: da_num_free_def al_num_free_def split: if_splits)
  moreover have "da_allocate_mutable_block H prev GPU extra s = (Inr r, da_put GPU (Prefix p') s)"
    using al by (simp add: da_allocate_mutable_block_def al_allocate_mutable_block_def on_dev_gpu [OF p(1)])
  ultimately show ?thesis by blast
qed

lemma gpu_immutable_succeeds:
  assumes held: "gpu_held H s hs" and cs: "\<forall>c \<in> set cs. length c = da_block_size s" and rest: "\<forall>c \<in> set rest. length c < da_block_size s" "length rest \<le> 1"
    and rd: "gpu_ready s" and rm: "gpu_need H s extra (cs @ rest) \<le> da_num_free GPU s"
  shows "\<exists>rs s'. da_allocate_immutable_blocks H None cs GPU extra s = (Inr rs, s') \<and> gpu_ready s' \<and> length rest \<le> da_num_free GPU s'"
proof -
  obtain p where p: "da_of GPU s = Prefix p" "pc_inv H p hs" "no_none H" "da_null s = None" "da_heap s = na_heap (pc_hashless p)"
    "da_block_size s = na_block_size (pc_hashless p)" by (rule gpu_heldE [OF held])
  have ev: "ev_ok (pc_evictor p)" using rd p(1) by (simp add: gpu_ready_def)
  have full: "\<forall>c \<in> set cs. length c = na_block_size (pc_hashless p)" using cs p(6) by simp
  have need: "count_new_loop H p (na_block_size (pc_hashless p)) extra (hash_after p None) (cs @ rest) \<le> pc_num_free_blocks p"
    using rm p(1) by (simp add: gpu_need_def da_num_free_def al_num_free_def hash_after_def)
  obtain rs p' last where r: "pc_allocate_immutable_blocks H None cs extra p = (Inr rs, p')" "ev_ok (pc_evictor p')"
    "count_new_loop H p' (na_block_size (pc_hashless p)) extra (hash_after p' last) rest \<le> pc_num_free_blocks p'"
    using full_blocks_admitted [OF p(2) ev _ _ full p(3) need] by (auto simp: prev_in_def)
  have "length rest \<le> count_new_loop H p' (na_block_size (pc_hashless p)) extra (hash_after p' last) rest"
    using rest p(6) by (cases rest) auto
  then have "length rest \<le> da_num_free GPU (da_put GPU (Prefix p') s)" using r(3) by (simp add: da_num_free_def al_num_free_def)
  moreover have "gpu_ready (da_put GPU (Prefix p') s)" using r(2) by (simp add: gpu_ready_def)
  moreover have "da_allocate_immutable_blocks H None cs GPU extra s = (Inr rs, da_put GPU (Prefix p') s)"
    using r(1) by (simp add: da_allocate_immutable_blocks_def al_allocate_immutable_blocks_def on_dev_gpu [OF p(1)])
  ultimately show ?thesis by blast
qed

lemma gpu_append_succeeds:
  assumes held: "gpu_held H s hs" and r: "r \<in> set hs" and prev: "prev_in (b_prev (da_heap s ! r)) (remove1 r hs)"
    and part: "length (b_token_ids (da_heap s ! r)) < da_block_size s" and fits: "length (b_token_ids (da_heap s ! r)) + length toks \<le> da_block_size s"
  shows "\<exists>s'. da_append H toks r s = (Inr (), s') \<and> (gpu_ready s \<longrightarrow> gpu_ready s')"
proof -
  obtain p where p: "da_of GPU s = Prefix p" "pc_inv H p hs" "no_none H" "da_null s = None" "da_heap s = na_heap (pc_hashless p)"
    "da_block_size s = na_block_size (pc_hashless p)" by (rule gpu_heldE [OF held])
  have ok: "blk_ok H p (pc_obj p r)" by (rule held_ok(2) [OF p(2) r])
  have fil: "b_cached_hash (pc_obj p r) = None" "\<not> b_computed (pc_obj p r)" using ok part p(5,6) by (auto simp: blk_ok_def filling_def sealed_def)
  have "\<exists>p'. pc_append_token_ids H toks r p = (Inr (), p') \<and> grow p p'"
  proof (cases "toks = []")
    case True
    have "content_hash_of H r p = (Inr None, p)"
      using content_hash_settled [OF blk_ok_settled [OF ok]] fil(1) by (simp add: content_hash_of_def lens_defs del: block_content_hash.simps)
    with True fil show ?thesis using grow_same [of p p] by (simp add: pc_append_token_ids_def bind_act_def act_defs)
  next
    case False
    have "prev_held p (remove1 r hs) r" using prev p(5) by (auto simp: prev_held_def prev_in_def)
    then show ?thesis using append_ok [of p H hs "\<lambda>_. 0" r toks] p r fil(1) False fits unfolding pc_inv_def by metis
  qed
  then show ?thesis using gpu_owner [OF p(1,2) r] p(1,4) by (auto simp: gpu_ready_def grow_def da_append_def al_append_def bind_act_def gets_def on_dev_gpu [OF p(1)])
qed

interpretation gpu_adm: block_room "cpu_gpu_ops H" "gpu_state H fx" da_block_size gpu_ready "da_num_free GPU" "gpu_need H" for H fx
proof unfold_locales
  show "length c < da_block_size s \<Longrightarrow> 0 < gpu_need H s extra [c]" for c s extra by (rule gpu_need_partial)
qed (simp_all only: cpu_gpu_ops_simps gpu_state_def,
  ((rule gpu_ids gpu_mutable_succeeds gpu_immutable_succeeds gpu_append_succeeds; (elim conjE)?, assumption)+))

lemma gpu_num_free_lower:
  assumes "gpu_state H fx s hs"
  shows "fst fx \<le> da_num_free GPU s + length hs"
proof -
  obtain p where p: "da_of GPU s = Prefix p" "pc_inv H p hs" using assms(1) unfolding gpu_state_def by (blast elim: gpu_heldE)
  have "held_ids p hs \<subseteq> (\<lambda>r. the (b_block_id (pc_obj p r))) ` set hs" by (force simp: held_ids_def)
  then have "card (held_ids p hs) \<le> length hs"
    using card_mono [of "(\<lambda>r. the (b_block_id (pc_obj p r))) ` set hs"] card_image_le [of "set hs"] card_length [of hs] by (metis List.finite_set finite_imageI le_trans)
  then show ?thesis using num_free_held [OF p(2)] assms p(1) gpu_total [OF p(1)]
    by (auto simp: gpu_state_def gpu_fixed_def da_num_free_def al_num_free_def pc_num_total_blocks_def na_num_total_blocks_def)
qed

text \<open>The free blocks are the ones no held object refers to.\<close>

lemma gpu_num_free:
  assumes "gpu_state H fx s hs" "gpu_state H fx s' hs'" "set hs' = set hs" "same_objs (cpu_gpu_ops H) (set hs) s s'"
  shows "da_num_free GPU s' = da_num_free GPU s"
proof -
  obtain p where p: "da_of GPU s = Prefix p" "pc_inv H p hs" "da_heap s = na_heap (pc_hashless p)"
    using assms(1) unfolding gpu_state_def by (blast elim: gpu_heldE)
  obtain p' where p': "da_of GPU s' = Prefix p'" "pc_inv H p' hs'" "da_heap s' = na_heap (pc_hashless p')"
    using assms(2) unfolding gpu_state_def by (blast elim: gpu_heldE)
  have "held_ids p' hs' = held_ids p hs" using assms(3,4) p(3) p'(3) by (simp add: held_ids_def same_objs_def)
  moreover have "pc_num_total_blocks p' = pc_num_total_blocks p"
    using assms(1,2) gpu_total [OF p(1)] gpu_total [OF p'(1)] by (auto simp: gpu_state_def gpu_fixed_def pc_num_total_blocks_def na_num_total_blocks_def)
  ultimately show ?thesis using num_free_held [OF p(2)] num_free_held [OF p'(2)] p(1) p'(1) by (simp add: da_num_free_def al_num_free_def)
qed

end
