(* ===== verification/TableSpec.thy ===== *)
theory TableSpec
  imports GpuStore
begin

text \<open>
  Block tables on the prefix caching allocator of the GPU: what a table stores, when its
  operations succeed, and that a freed table leaves no block behind.
\<close>

section \<open>The initial state\<close>

lemma pc_inv_more_objects:
  assumes "pc_inv H p []"
  shows "pc_inv H (p\<lparr>pc_hashless := (pc_hashless p)\<lparr>na_heap := na_heap (pc_hashless p) @ objs\<rparr>\<rparr>) []"
proof -
  let ?p = "p\<lparr>pc_hashless := (pc_hashless p)\<lparr>na_heap := na_heap (pc_hashless p) @ objs\<rparr>\<rparr>"
  have "abs_phys ?p = abs_phys p" by (simp add: abs_phys_def)
  moreover have "pc_wf p \<Longrightarrow> pc_wf ?p" by (auto simp: pc_wf_def pool_ok_def)
  moreover have "held_inv H p [] (\<lambda>_. 0) \<Longrightarrow> held_inv H ?p [] (\<lambda>_. 0)" by (simp add: held_inv_def holders_def)
  ultimately show ?thesis using assms by (simp add: pc_inv_def pc_good_def)
qed

lemma pc_new_heap:
  assumes "pc_new n bs ids hp = Inr p"
  shows "na_heap (pc_hashless p) = hp @ replicate (n * 4) (init_blk None [] bs None None 0 None)" "ev_ok (pc_evictor p)"
    "na_block_size (pc_hashless p) = bs" "pc_num_free_blocks p = (case ids of None \<Rightarrow> n | Some l \<Rightarrow> length l)"
    "length (na_all (pc_hashless p)) = n"
  using assms
  by (auto simp: pc_new_def naive_new_def block_pool_new_def add_objects_def Let_def ev_ok_new [unfolded evictor_new_def] bind_res_Inr_iff pc_num_free_blocks_def
      na_num_free_blocks_def ev_num_blocks_def evictor_new_def split: if_splits option.splits)

lemma da_create_held:
  assumes run: "da_create reserved ''prefix_caching'' g c bs = Inr s" and pos: "reserved < g" "0 < bs" and H: "no_none H"
  shows "gpu_held H s []" "gpu_ready s" "da_block_size s = bs" "da_num_free GPU s = g - reserved" "da_num_total GPU s = g - reserved"
proof -
  define ids where "ids = take (g - reserved) [reserved..<g + c]"
  obtain p q where p: "pc_new (g - reserved) bs (Some ids) [] = Inr p" and q: "pc_new c bs (Some (drop (g - reserved) [reserved..<g + c])) (na_heap (pc_hashless p)) = Inr q"
    and s: "s = \<lparr>da_gpu = Prefix p, da_cpu = Prefix q, da_heap = na_heap (pc_hashless q), da_swap_mapping = [], da_null = None\<rparr>"
    using run pos by (auto simp: da_create_def Let_def bind_res_Inr_iff da_init_def ids_def split: if_splits)
  have dist: "distinct ids" "length ids = g - reserved" by (simp_all add: ids_def)
  have inv: "pc_inv H p []" by (rule pc_new_inv [OF p]) (use pos dist in simp_all)
  have da: "da_of GPU s = Prefix (p\<lparr>pc_hashless := (pc_hashless p)\<lparr>na_heap := na_heap (pc_hashless q)\<rparr>\<rparr>)" by (simp add: da_of_def s)
  then show "gpu_held H s []"
    using pc_inv_more_objects [OF inv] pc_new_heap(1) [OF q] H by (simp add: gpu_held_def s)
  show "gpu_ready s" "da_block_size s = bs" "da_num_free GPU s = g - reserved" "da_num_total GPU s = g - reserved"
    using da pc_new_heap(2-5) [OF p] dist(2) gpu_total [OF da]
    by (simp_all add: gpu_ready_def da_block_size_def da_num_free_def al_num_free_def pc_num_free_blocks_def na_num_free_blocks_def)
qed

definition demo_da :: dev_alloc where
  "demo_da = (case da_create 0 ''prefix_caching'' 4 2 2 of Inr s \<Rightarrow> s | Inl _ \<Rightarrow> undefined)"

definition demo_table :: block_table where
  "demo_table = \<lparr>tb_block_size = 2, tb_blocks = \<lparr>bl_blocks = [], bl_block_ids = []\<rparr>, tb_max_block_sliding_window = None, tb_num_full_slots = 0\<rparr>"

lemma demo_da_run: "da_create 0 ''prefix_caching'' 4 2 2 = Inr demo_da"
proof -
  have "\<exists>s. da_create 0 ''prefix_caching'' 4 2 2 = Inr s"
    by (simp add: da_create_def pc_new_def naive_new_def Let_def bind_res_def da_init_def al_all_def upt_rec numeral_eq_Suc split: prod.splits)
  then show ?thesis by (auto simp: demo_da_def)
qed

lemmas demo_da_held = da_create_held [OF demo_da_run _ _ digits_digest_no_none, simplified]

lemma count_new_loop_le: "count_new_loop H p bs extra prev cs \<le> length cs"
proof (induction cs arbitrary: prev)
  case (Cons c cs)
  have "block_cost p h \<le> 1" for h by (simp add: block_cost_def split: option.splits)
  then have "block_cost p h + count_new_loop H p bs extra q cs \<le> 1 + length cs" for h q using Cons.IH by (rule add_mono)
  then show ?case unfolding count_new_loop_cost by (simp add: Let_def)
qed simp

lemma demo_alloc:
  obtains t1 s1 where "tb_allocate (cpu_gpu_ops digits_digest) [1, 2, 3] GPU None (demo_table, demo_da) = (Inr (), (t1, s1))" "gpu_ready s1"
proof -
  have "length (chunks 2 [1::int, 2, 3]) = 2" by (simp add: chunks_step)
  then have need: "gpu_need digits_digest demo_da None (chunks (da_block_size demo_da) [1, 2, 3]) \<le> da_num_free GPU demo_da"
    using le_trans [OF count_new_loop_le [of digits_digest _ _ None None "chunks 2 [1, 2, 3]"], of 4] demo_da_held(3,4)
    by (cases "da_of GPU demo_da") (simp_all add: gpu_need_def)
  have "\<exists>t1 s1. tb_allocate (cpu_gpu_ops digits_digest) [1, 2, 3] GPU None (demo_table, demo_da) = (Inr (), (t1, s1)) \<and> gpu_ready s1"
    by (rule gpu_adm.table_allocate_succeeds [OF gpu_state_held [OF demo_da_held(1)] _ _ _ demo_da_held(2) need])
      (use demo_da_held(3) in \<open>simp_all add: demo_table_def tb_is_allocated_def\<close>)
  then show thesis using that by blast
qed

lemma demo_append:
  assumes alloc: "tb_allocate (cpu_gpu_ops digits_digest) [1, 2, 3] GPU None (demo_table, demo_da) = (Inr (), (t1, s1))" and rd: "gpu_ready s1"
  obtains t2 s2 where "tb_append_token_ids (cpu_gpu_ops digits_digest) [4, 5] 0 None None (t1, s1) = (Inr (), (t2, s2))" "gpu_ready s2"
proof -
  have bs: "tb_block_size demo_table = da_block_size demo_da" using demo_da_held(3) by (simp add: demo_table_def)
  note a = gpu.table_allocate [OF gpu_state_held [OF demo_da_held(1)] bs alloc]
  have len: "length (bl_blocks (tb_blocks t1)) = 2" using a(7) demo_da_held(3) by (simp add: chunks_step)
  have free: "2 \<le> da_num_free GPU s1" using gpu_num_free_lower [OF a(1)] len demo_da_held(5) by (simp add: gpu_fixed_def)
  have sz: "tb_block_size t1 = 2" "tb_num_full_slots t1 = 3" "tb_max_block_sliding_window t1 = None"
    using a(2-4,6) demo_da_held(3) by (simp_all add: table_holds_def demo_table_def)
  have n: "num_blocks_touched_by_append_slots t1 [4, 5] 0 = Inr 2"
    using ceiling_cdiv [of 2 1] sz by (simp add: num_blocks_touched_by_append_slots_def Let_def)
  have "\<exists>t2 s2. tb_append_token_ids (cpu_gpu_ops digits_digest) [4, 5] 0 None None (t1, s1) = (Inr (), (t2, s2)) \<and> gpu_ready s2"
    by (rule gpu_adm.table_append_succeeds [OF a(1,3) _ _ a(2) sz(3) _ n rd]) (use len free in auto)
  then show thesis using that by blast
qed

section \<open>Contents\<close>

text \<open>
  C16. A block table that was allocated for some tokens and extended by any sequence of appends
  reads back exactly these tokens in order. Its blocks are held beside the blocks that were
  held before, none of which changed, and the identifiers the table remembers are the ones its
  blocks have now, whatever blocks were replaced by cached ones on the way.
\<close>

theorem table_round_trip:
  assumes held: "gpu_held H s hs" and t: "tb_block_size t = da_block_size s" "tb_max_block_sliding_window t = None"
    and alloc: "tb_allocate (cpu_gpu_ops H) toks GPU extra (t, s) = (Inr (), (t1, s1))"
    and appends: "for_each (\<lambda>c. tb_append_token_ids (cpu_gpu_ops H) c lookahead computed extra) cs (t1, s1) = (Inr (), (t2, s2))"
  shows "get_all_token_ids (da_heap s2) t2 = toks @ concat cs
    \<and> gpu_held H s2 (rev (bl_blocks (tb_blocks t2)) @ hs) \<and> (\<forall>r \<in> set hs. da_heap s2 ! r = da_heap s ! r)
    \<and> map Some (tb_physical_block_ids t2) = map (\<lambda>r. b_block_id (da_heap s2 ! r)) (bl_blocks (tb_blocks t2))"
proof -
  note a = gpu.table_allocate [OF gpu_state_held [OF held] t(1) alloc]
  have w: "tb_max_block_sliding_window t1 = None" using a(6) t(2) by simp
  note b = gpu.table_appends [OF a(1,3,2) w appends]
  have "same_objs (cpu_gpu_ops H) (set hs) s s2" using a(5) b by (blast intro: same_objs_trans)
  moreover have "table_holds (da_heap s2) t2 (toks @ concat cs)" using b by simp
  ultimately show ?thesis using b gpu_state_def get_all_token_ids_holds [of "da_heap s2" t2]
    by (auto simp: same_objs_def tb_physical_block_ids_def table_holds_def ids_current_def)
qed

theorem table_round_trip_witness:
  "\<exists>t2 s2. get_all_token_ids (da_heap s2) t2 = [1, 2, 3, 4, 5] \<and> gpu_held digits_digest s2 (rev (bl_blocks (tb_blocks t2)))"
proof -
  obtain t1 s1 where 1: "tb_allocate (cpu_gpu_ops digits_digest) [1, 2, 3] GPU None (demo_table, demo_da) = (Inr (), (t1, s1))" "gpu_ready s1"
    by (rule demo_alloc)
  obtain t2 s2 where 2: "tb_append_token_ids (cpu_gpu_ops digits_digest) [4, 5] 0 None None (t1, s1) = (Inr (), (t2, s2))"
    by (rule demo_append [OF 1]) blast
  then have "for_each (\<lambda>c. tb_append_token_ids (cpu_gpu_ops digits_digest) c 0 None None) [[4, 5]] (t1, s1) = (Inr (), (t2, s2))"
    by (simp add: bind_act_def ret_def)
  from table_round_trip [OF demo_da_held(1) _ _ 1(1) this] show ?thesis using demo_da_held(3) by (auto simp: demo_table_def)
qed

section \<open>Admission\<close>

lemma needed_blocks_suffice:
  assumes held: "gpu_held H s hs" "gpu_ready s" and t: "tb_block_size t = da_block_size s" "\<not> tb_is_allocated t" and ne: "toks \<noteq> []"
    and need: "da_num_new_blocks_needed H toks extra lookahead bs s = Inr n" and room: "n \<le> int (da_num_free GPU s)"
  shows "\<exists>t' s'. tb_allocate (cpu_gpu_ops H) toks GPU extra (t, s) = (Inr (), (t', s')) \<and> gpu_ready s'"
proof -
  obtain p where p: "da_of GPU s = Prefix p" "da_block_size s = na_block_size (pc_hashless p)" by (rule gpu_heldE [OF held(1)])
  have pos: "0 < da_block_size s" by (rule gpu_held_facts(2) [OF held(1)])
  obtain tb where "n = int (count_new_loop H p (da_block_size s) extra None (chunks (da_block_size s) toks)) + max 0 tb"
    using need pos p by (auto simp: da_num_new_blocks_needed_def bind_res_Inr_iff count_new_blocks_for_token_ids_def Let_def)
  then have "gpu_need H s extra (chunks (da_block_size s) toks) \<le> da_num_free GPU s"
    using room p by (simp add: gpu_need_def)
  then show ?thesis by (rule gpu_adm.table_allocate_succeeds [OF gpu_state_held [OF held(1)] t ne held(2)])
qed

text \<open>
  The number of new blocks that \<open>get_num_blocks_needed\<close> computes from the prefix cache is
  enough: when at least that many blocks are free, the allocation of a sequence for these
  tokens succeeds, for any number of lookahead slots that was added to the request.
\<close>

theorem admitted_allocation_succeeds:
  assumes held: "gpu_held H s hs" "gpu_ready s" and t: "tb_block_size t = da_block_size s" "\<not> tb_is_allocated t" and ne: "toks \<noteq> []"
    and need: "da_num_new_blocks_needed H toks extra lookahead bs s = Inr n" and room: "n \<le> int (da_num_free GPU s)"
  shows "\<exists>t' s'. tb_allocate (cpu_gpu_ops H) toks GPU extra (t, s) = (Inr (), (t', s')) \<and> gpu_ready s'"
  by (rule needed_blocks_suffice [OF assms])

theorem admitted_allocation_succeeds_witness:
  "\<exists>t1 s1. tb_allocate (cpu_gpu_ops digits_digest) [1, 2, 3] GPU None (demo_table, demo_da) = (Inr (), (t1, s1)) \<and> gpu_ready s1"
proof -
  obtain p where p: "da_of GPU demo_da = Prefix p" "na_block_size (pc_hashless p) = 2"
    using demo_da_held(1,3) by (metis gpu_heldE)
  define k where "k = count_new_loop digits_digest p 2 None None (chunks 2 [1, 2, 3])"
  have "k \<le> 2" using count_new_loop_le [of digits_digest p 2 None None "chunks 2 [1, 2, 3]"] by (simp add: k_def chunks_step)
  moreover have "da_num_new_blocks_needed digits_digest [1, 2, 3] None 0 2 demo_da = Inr (int k)"
    using p by (simp add: da_num_new_blocks_needed_def bind_res_def cdiv_def count_new_blocks_for_token_ids_def Let_def k_def)
  ultimately show ?thesis
    using admitted_allocation_succeeds [OF demo_da_held(1,2), of demo_table "[1, 2, 3]" None 0 2 "int k"] demo_da_held(3,4)
    by (simp add: demo_table_def tb_is_allocated_def)
qed

text \<open>
  An append of tokens and lookahead slots to an allocated table succeeds when at least as
  many blocks are free as \<open>get_num_blocks_touched_by_append_slots\<close> returns.
\<close>

theorem touched_append_succeeds:
  assumes held: "gpu_held H s hs" "gpu_ready s" and t: "tb_block_size t = da_block_size s" "tb_max_block_sliding_window t = None"
    and blocks: "bl_blocks (tb_blocks t) \<noteq> []" "set (bl_blocks (tb_blocks t)) \<subseteq> set hs" "table_holds (da_heap s) t xs"
    and need: "num_blocks_touched_by_append_slots t toks lookahead = Inr n" and room: "0 \<le> lookahead" "n \<le> int (da_num_free GPU s)"
  shows "\<exists>t' s'. tb_append_token_ids (cpu_gpu_ops H) toks lookahead computed extra (t, s) = (Inr (), (t', s')) \<and> gpu_ready s'"
  using gpu_adm.table_append_succeeds [OF gpu_state_held [OF held(1)] t(1) blocks(2,1) _ t(2) room(1) need held(2) room(2)] blocks(3) by simp

theorem touched_append_succeeds_witness:
  "\<exists>t1 s1 t2 s2. num_blocks_touched_by_append_slots t1 [4, 5] 0 = Inr 2
     \<and> tb_append_token_ids (cpu_gpu_ops digits_digest) [4, 5] 0 None None (t1, s1) = (Inr (), (t2, s2)) \<and> gpu_ready s2"
proof -
  obtain t1 s1 where 1: "tb_allocate (cpu_gpu_ops digits_digest) [1, 2, 3] GPU None (demo_table, demo_da) = (Inr (), (t1, s1))" "gpu_ready s1"
    by (rule demo_alloc)
  have bs: "tb_block_size demo_table = da_block_size demo_da" using demo_da_held(3) by (simp add: demo_table_def)
  note a = gpu.table_allocate [OF gpu_state_held [OF demo_da_held(1)] bs 1(1)]
  have len: "length (bl_blocks (tb_blocks t1)) = 2" using a(7) demo_da_held(3) by (simp add: chunks_step)
  have free: "2 \<le> da_num_free GPU s1" using gpu_num_free_lower [OF a(1)] len demo_da_held(5) by (simp add: gpu_fixed_def)
  have sz: "tb_block_size t1 = 2" "tb_num_full_slots t1 = 3" "tb_max_block_sliding_window t1 = None"
    using a(2-4,6) demo_da_held(3) by (simp_all add: table_holds_def demo_table_def)
  have n: "num_blocks_touched_by_append_slots t1 [4, 5] 0 = Inr 2"
    using ceiling_cdiv [of 2 1] sz by (simp add: num_blocks_touched_by_append_slots_def Let_def)
  have h: "gpu_held digits_digest s1 (rev (bl_blocks (tb_blocks t1)))" using a(1) by (simp add: gpu_state_def)
  have "\<exists>t2 s2. tb_append_token_ids (cpu_gpu_ops digits_digest) [4, 5] 0 None None (t1, s1) = (Inr (), (t2, s2)) \<and> gpu_ready s2"
    by (rule touched_append_succeeds [OF h 1(2) a(3) sz(3) _ _ _ n]) (use len free a(2) in auto)
  with n show ?thesis by blast
qed

section \<open>The number of touched blocks\<close>

text \<open>
  For a non-empty list of tokens the arithmetic of \<open>get_num_blocks_touched_by_append_slots\<close> is
  the number of chunks that \<open>_chunk_token_blocks_for_append\<close> makes of the tokens followed by one
  placeholder per lookahead slot.
\<close>

theorem touched_blocks_are_chunks:
  assumes "0 < tb_block_size t" "toks \<noteq> []"
  shows "\<exists>cs. chunk_token_blocks_for_append t (toks @ replicate la (-1)) = Inr cs
    \<and> num_blocks_touched_by_append_slots t toks (int la) = Inr (int (length cs))"
proof -
  let ?b = "tb_block_size t" and ?all = "toks @ replicate la (-1)"
  define first where "first = ?b - tb_num_full_slots t mod ?b"
  have f: "0 < first" "first \<le> ?b" using assms(1) mod_less_divisor [OF assms(1), of "tb_num_full_slots t"] by (simp_all add: first_def)
  have n: "num_blocks_touched_by_append_slots t toks (int la) = Inr (1 + - (- (int (length ?all) - int first) div int ?b))"
    using assms(1) ceiling_cdiv [of "int ?b" "int (length toks) + int la - int first"]
    by (simp add: num_blocks_touched_by_append_slots_def Let_def first_def)
  have "int (length (chunks ?b (drop first ?all))) = - (- (int (length ?all) - int first) div int ?b)"
  proof (cases "first \<le> length ?all")
    case True
    then have "int (length (drop first ?all)) = int (length ?all) - int first" by (simp add: of_nat_diff)
    then show ?thesis by (simp only: length_chunks_cdiv [OF assms(1)])
  next
    case False
    have "0 < int (length ?all)" using assms(2) by (cases toks) simp_all
    then have "- (int (length ?all) - int first) div int ?b = 0" using False f by (intro div_pos_pos_trivial) linarith+
    with False show ?thesis by simp
  qed
  with n assms show ?thesis by (simp add: chunk_token_blocks_for_append_def Let_def first_def)
qed

theorem touched_blocks_are_chunks_witness:
  "num_blocks_touched_by_append_slots (demo_table\<lparr>tb_num_full_slots := 1\<rparr>) [4, 5, 6] 1 = Inr 3"
  using touched_blocks_are_chunks [of "demo_table\<lparr>tb_num_full_slots := 1\<rparr>" "[4, 5, 6]" 1]
  by (simp add: demo_table_def chunk_token_blocks_for_append_def Let_def chunks_step)

text \<open>
  The comment that calls the two equivalent does not hold for an empty list: a table whose last
  block is partly filled is said to touch one block.
\<close>

lemma touched_blocks_of_nothing:
  "chunk_token_blocks_for_append (demo_table\<lparr>tb_num_full_slots := 1\<rparr>) [] = Inr []
   \<and> num_blocks_touched_by_append_slots (demo_table\<lparr>tb_num_full_slots := 1\<rparr>) [] 0 = Inr 1"
  using ceiling_cdiv [of 2 "-1"] by (simp add: chunk_token_blocks_for_append_def num_blocks_touched_by_append_slots_def demo_table_def Let_def)

section \<open>Release\<close>

text \<open>
  Freeing a table that was allocated and extended by appends succeeds, empties the table and
  leaves exactly as many free blocks as there were before the allocation.
\<close>

theorem freed_table_leaves_nothing:
  assumes held: "gpu_held H s hs" and t: "tb_block_size t = da_block_size s" "tb_max_block_sliding_window t = None"
    and alloc: "tb_allocate (cpu_gpu_ops H) toks GPU extra (t, s) = (Inr (), (t1, s1))"
    and appends: "for_each (\<lambda>c. tb_append_token_ids (cpu_gpu_ops H) c lookahead computed extra) cs (t1, s1) = (Inr (), (t2, s2))"
  shows "\<exists>t3 s3. tb_free (cpu_gpu_ops H) (t2, s2) = (Inr (), (t3, s3)) \<and> \<not> tb_is_allocated t3 \<and> da_num_free GPU s3 = da_num_free GPU s"
proof -
  note a = gpu.table_allocate [OF gpu_state_held [OF held] t(1) alloc]
  have w: "tb_max_block_sliding_window t1 = None" using a(6) t(2) by simp
  note b = gpu.table_appends [OF a(1,3,2) w appends]
  let ?rs = "bl_blocks (tb_blocks t2)"
  have v: "gpu_state H (gpu_fixed s) s2 (rev ?rs @ hs)" and keep: "same_objs (cpu_gpu_ops H) (set hs) s s2"
    using a(5) b by (blast intro: same_objs_trans)+
  have dist: "distinct (rev ?rs @ hs)" by (rule gpu.valid_distinct [OF v])
  have sub: "set ?rs \<subseteq> set (rev ?rs @ hs)" "distinct ?rs" using dist by auto
  from gpu.free_blocks [OF v sub(2,1)] obtain s3 hs3 where f: "for_each (da_free H) ?rs s2 = (Inr (), s3)"
    "gpu_state H (gpu_fixed s) s3 hs3" "set hs3 = set (rev ?rs @ hs) - set ?rs"
    "same_objs (cpu_gpu_ops H) (set (rev ?rs @ hs) - set ?rs) s2 s3" by auto
  have set3: "set hs3 = set hs" "set (rev ?rs @ hs) - set ?rs = set hs" using f(3) dist by auto
  have "same_objs (cpu_gpu_ops H) (set hs) s s3" using keep f(4) unfolding set3(2) by (rule same_objs_trans)
  then have "da_num_free GPU s3 = da_num_free GPU s" by (rule gpu_num_free [OF gpu_state_held [OF held] f(2) set3(1)])
  moreover have "tb_free (cpu_gpu_ops H) (t2, s2) = (Inr (), (t2\<lparr>tb_blocks := bl_reset (tb_blocks t2)\<rparr>, s3))"
    using f(1) by (simp add: tb_free_def bind_act_def gets_def on_store_def zoom_def modify_def)
  ultimately show ?thesis by (auto simp: tb_is_allocated_def bl_reset_def)
qed

theorem freed_table_leaves_nothing_witness:
  "\<exists>t2 s2 t3 s3. tb_free (cpu_gpu_ops digits_digest) (t2, s2) = (Inr (), (t3, s3)) \<and> tb_is_allocated t2 \<and> da_num_free GPU s3 = 4"
proof -
  obtain t1 s1 where 1: "tb_allocate (cpu_gpu_ops digits_digest) [1, 2, 3] GPU None (demo_table, demo_da) = (Inr (), (t1, s1))" "gpu_ready s1"
    by (rule demo_alloc)
  have bs: "tb_block_size demo_table = da_block_size demo_da" using demo_da_held(3) by (simp add: demo_table_def)
  have "length (bl_blocks (tb_blocks t1)) = 2"
    using gpu.table_allocate(7) [OF gpu_state_held [OF demo_da_held(1)] bs 1(1)] demo_da_held(3) by (simp add: chunks_step)
  then have "tb_is_allocated t1" by (simp add: tb_is_allocated_def)
  moreover have "\<exists>t3 s3. tb_free (cpu_gpu_ops digits_digest) (t1, s1) = (Inr (), (t3, s3)) \<and> \<not> tb_is_allocated t3 \<and> da_num_free GPU s3 = da_num_free GPU demo_da"
    by (rule freed_table_leaves_nothing [OF demo_da_held(1) bs _ 1(1), of 0 None "[]"]) (simp_all add: demo_table_def ret_def)
  ultimately show ?thesis using demo_da_held(4) by auto
qed

end
