(* ===== verification/Sequence.thy ===== *)
theory Sequence
  imports PyValue
begin

text \<open>
  \<open>src/vllm/vllm/sequence.py\<close>: the tokens of a sequence and how many of them are computed, a
  sequence with its status and what was already returned to the user, and the group of
  sequences of one request. Prompt embeddings and multi-modal inputs are tensors of a library
  and are left out: a sequence is given by token identifiers.
\<close>

section \<open>Status and stage\<close>

datatype seq_status =
  WAITING | RUNNING | SWAPPED | FINISHED_STOPPED | FINISHED_LENGTH_CAPPED | FINISHED_ABORTED | FINISHED_IGNORED

fun status_value :: "seq_status \<Rightarrow> nat" where
  "status_value WAITING = 0"
| "status_value RUNNING = 1"
| "status_value SWAPPED = 2"
| "status_value FINISHED_STOPPED = 3"
| "status_value FINISHED_LENGTH_CAPPED = 4"
| "status_value FINISHED_ABORTED = 5"
| "status_value FINISHED_IGNORED = 6"

definition status_is_finished :: "seq_status \<Rightarrow> bool" where
  "status_is_finished st \<longleftrightarrow> status_value st > status_value SWAPPED"

definition get_finished_reason :: "seq_status \<Rightarrow> string option" where
  "get_finished_reason st =
     (if st = FINISHED_STOPPED then Some ''stop''
      else if st = FINISHED_LENGTH_CAPPED then Some ''length''
      else if st = FINISHED_ABORTED then Some ''abort''
      else if st = FINISHED_IGNORED then Some ''length''
      else None)"

datatype seq_stage = PREFILL | DECODE

section \<open>The data of a sequence\<close>

record seq_data =
  sd_prompt_token_ids :: "int list"
  sd_output_token_ids :: "int list"
  sd_cumulative_logprob :: pyfloat
  sd_num_computed_tokens :: int
  sd_num_cached_tokens :: int
  sd_stage :: seq_stage
  sd_cached_all_token_ids :: "int list"
  sd_new_appended_tokens :: "int list"

definition update_cached_all_tokens :: "seq_data \<Rightarrow> seq_data" where
  "update_cached_all_tokens d = d\<lparr>sd_cached_all_token_ids := sd_prompt_token_ids d @ sd_output_token_ids d\<rparr>"

definition sd_from_seqs :: "int list \<Rightarrow> int list option \<Rightarrow> seq_data" where
  "sd_from_seqs prompt output =
     update_cached_all_tokens
       \<lparr>sd_prompt_token_ids = prompt, sd_output_token_ids = (case output of None \<Rightarrow> [] | Some l \<Rightarrow> l), sd_cumulative_logprob = 0,
        sd_num_computed_tokens = 0, sd_num_cached_tokens = 0, sd_stage = PREFILL, sd_cached_all_token_ids = [],
        sd_new_appended_tokens = []\<rparr>"

definition sd_from_prompt_token_counts :: "(int \<times> nat) list \<Rightarrow> seq_data" where
  "sd_from_prompt_token_counts counts = sd_from_seqs (concat (map (\<lambda>(t, n). replicate n t) counts)) None"

definition sd_set_output_token_ids :: "int list \<Rightarrow> seq_data \<Rightarrow> seq_data" where
  "sd_set_output_token_ids l d = update_cached_all_tokens (d\<lparr>sd_output_token_ids := l\<rparr>)"

definition sd_append_token_id :: "int \<Rightarrow> pyfloat \<Rightarrow> seq_data \<Rightarrow> seq_data" where
  "sd_append_token_id t logprob d =
     d\<lparr>sd_output_token_ids := sd_output_token_ids d @ [t], sd_new_appended_tokens := sd_new_appended_tokens d @ [t],
       sd_cached_all_token_ids := sd_cached_all_token_ids d @ [t], sd_cumulative_logprob := sd_cumulative_logprob d + logprob\<rparr>"

definition sd_get_len :: "seq_data \<Rightarrow> nat" where
  "sd_get_len d = length (sd_output_token_ids d) + length (sd_prompt_token_ids d)"

definition sd_get_prompt_len :: "seq_data \<Rightarrow> nat" where
  "sd_get_prompt_len d = length (sd_prompt_token_ids d)"

definition sd_get_output_len :: "seq_data \<Rightarrow> nat" where
  "sd_get_output_len d = length (sd_output_token_ids d)"

definition sd_get_prefix_token_ids :: "nat \<Rightarrow> seq_data \<Rightarrow> int list \<times> int list option" where
  "sd_get_prefix_token_ids n d =
     (if sd_get_prompt_len d < n
      then (sd_prompt_token_ids d, Some (take (n - sd_get_prompt_len d) (sd_output_token_ids d)))
      else (take n (sd_prompt_token_ids d), None))"

definition sd_get_num_uncomputed_tokens :: "seq_data \<Rightarrow> int" where
  "sd_get_num_uncomputed_tokens d = int (sd_get_len d) - sd_num_computed_tokens d"

definition sd_update_num_computed_tokens :: "int \<Rightarrow> (seq_data, unit) act" where
  "sd_update_num_computed_tokens n =
     bind_act (modify (\<lambda>d. d\<lparr>sd_num_computed_tokens := sd_num_computed_tokens d + n\<rparr>)) (\<lambda>_.
     bind_act (gets (\<lambda>d. sd_num_computed_tokens d \<le> int (sd_get_len d))) (\<lambda>ok.
     bind_act (check ok) (\<lambda>_.
       modify (\<lambda>d. if sd_get_num_uncomputed_tokens d = 0 then d\<lparr>sd_stage := DECODE\<rparr> else d))))"

definition sd_update_num_cached_tokens :: "int \<Rightarrow> seq_data \<Rightarrow> seq_data" where
  "sd_update_num_cached_tokens n d = d\<lparr>sd_num_cached_tokens := n\<rparr>"

definition sd_reset_state_for_recompute :: "seq_data \<Rightarrow> seq_data" where
  "sd_reset_state_for_recompute d = d\<lparr>sd_num_computed_tokens := 0, sd_stage := PREFILL, sd_new_appended_tokens := []\<rparr>"

definition sd_get_last_token_id :: "seq_data \<Rightarrow> int res" where
  "sd_get_last_token_id d =
     (if sd_output_token_ids d = []
      then (if sd_prompt_token_ids d = [] then Inl IndexError else Inr (last (sd_prompt_token_ids d)))
      else Inr (last (sd_output_token_ids d)))"

text \<open>The change since the last step, which is sent to the workers.\<close>

record seq_delta =
  dl_new_output_token_ids :: "int list"
  dl_new_cumulative_logprob :: pyfloat
  dl_new_num_computed_tokens :: int
  dl_new_stage :: seq_stage

definition sd_get_delta_and_reset :: "seq_data \<Rightarrow> seq_delta \<times> seq_data" where
  "sd_get_delta_and_reset d =
     (\<lparr>dl_new_output_token_ids = sd_new_appended_tokens d, dl_new_cumulative_logprob = sd_cumulative_logprob d,
       dl_new_num_computed_tokens = sd_num_computed_tokens d, dl_new_stage = sd_stage d\<rparr>,
      d\<lparr>sd_new_appended_tokens := []\<rparr>)"

definition sd_apply_delta :: "seq_delta \<Rightarrow> seq_data \<Rightarrow> seq_data" where
  "sd_apply_delta dl d =
     d\<lparr>sd_num_computed_tokens := dl_new_num_computed_tokens dl, sd_cumulative_logprob := dl_new_cumulative_logprob dl,
       sd_stage := dl_new_stage dl, sd_output_token_ids := sd_output_token_ids d @ dl_new_output_token_ids dl,
       sd_cached_all_token_ids := sd_cached_all_token_ids d @ dl_new_output_token_ids dl\<rparr>"

section \<open>A sequence\<close>

record seq =
  sq_seq_id :: int
  sq_block_size :: nat
  sq_lora_int_id :: int
  sq_prompt_adapter_id :: int
  sq_data :: seq_data
  sq_output_logprobs :: "(int, pyfloat) dict list"
  sq_output_text :: string
  sq_status :: seq_status
  sq_last_output_token_ids_offset :: nat
  sq_last_output_text_offset :: nat

definition seq_new :: "int \<Rightarrow> int list \<Rightarrow> nat \<Rightarrow> int \<Rightarrow> int \<Rightarrow> seq" where
  "seq_new sid prompt bs lora adapter =
     \<lparr>sq_seq_id = sid, sq_block_size = bs, sq_lora_int_id = lora, sq_prompt_adapter_id = adapter, sq_data = sd_from_seqs prompt None,
      sq_output_logprobs = [], sq_output_text = '''', sq_status = WAITING, sq_last_output_token_ids_offset = 0,
      sq_last_output_text_offset = 0\<rparr>"

definition seq_get_len :: "seq \<Rightarrow> nat" where
  "seq_get_len q = sd_get_len (sq_data q)"

definition seq_n_blocks :: "seq \<Rightarrow> nat res" where
  "seq_n_blocks q =
     (if sq_block_size q = 0 then Inl ZeroDivisionError else Inr ((seq_get_len q + sq_block_size q - 1) div sq_block_size q))"

definition seq_is_finished :: "seq \<Rightarrow> bool" where
  "seq_is_finished q \<longleftrightarrow> status_is_finished (sq_status q)"

definition seq_token_ids :: "seq \<Rightarrow> int list" where
  "seq_token_ids q = sd_cached_all_token_ids (sq_data q)"

text \<open>\<open>buffer_length\<close> characters are held back until the sequence is finished.\<close>

definition get_output_text_to_return :: "nat \<Rightarrow> bool \<Rightarrow> seq \<Rightarrow> string \<times> seq" where
  "get_output_text_to_return buffer_length delta q =
     (let truncate = (buffer_length \<noteq> 0 \<and> \<not> seq_is_finished q);
          text = sq_output_text q
      in if \<not> delta then (if truncate then take (length text - buffer_length) text else text, q)
         else (let len = (if truncate then int (length text) - int buffer_length else int (length text));
                   last_offset = sq_last_output_text_offset q
               in if int last_offset < len
                  then (take (nat len - last_offset) (drop last_offset text), q\<lparr>sq_last_output_text_offset := nat len\<rparr>)
                  else ('''', q)))"

text \<open>A single new token is returned as an integer, more of them as a list.\<close>

datatype token_output = Token int | Tokens "int list"

definition last_n :: "nat \<Rightarrow> 'a list \<Rightarrow> 'a list" where
  "last_n n xs = drop (length xs - n) xs"

definition get_output_token_ids_to_return :: "bool \<Rightarrow> (seq, token_output) act" where
  "get_output_token_ids_to_return delta q =
     (if \<not> delta then (Inr (Tokens (sd_output_token_ids (sq_data q))), q)
      else
        (let output_len = int (sd_get_output_len (sq_data q));
             num_new = output_len - int (sq_last_output_token_ids_offset q);
             q' = q\<lparr>sq_last_output_token_ids_offset := nat output_len\<rparr>;
             ids = seq_token_ids q
         in if num_new = 1 then (if ids = [] then (Inl IndexError, q') else (Inr (Token (last ids)), q'))
            else if num_new = 0 then (Inr (Tokens []), q')
            else if num_new < 0 then (Inr (Tokens (drop (nat (- num_new)) ids)), q')
            else (Inr (Tokens (last_n (nat num_new) ids)), q')))"

text \<open>Python's hash of a pair of integers is the argument \<open>hash_pair\<close>.\<close>

definition seq_extra_hash :: "(int \<times> int \<Rightarrow> int) \<Rightarrow> seq \<Rightarrow> int option" where
  "seq_extra_hash hash_pair q =
     (if sq_prompt_adapter_id q = 0 \<and> sq_lora_int_id q = 0 then None
      else Some (hash_pair (sq_prompt_adapter_id q, sq_lora_int_id q)))"

definition num_hashed_tokens_of_block :: "nat \<Rightarrow> seq \<Rightarrow> nat" where
  "num_hashed_tokens_of_block idx q = idx * sq_block_size q + sq_block_size q"

definition on_data :: "(seq_data, 'a) act \<Rightarrow> (seq, 'a) act" where
  "on_data = zoom sq_data (\<lambda>d q. q\<lparr>sq_data := d\<rparr>)"

definition seq_reset_state_for_recompute :: "seq \<Rightarrow> seq" where
  "seq_reset_state_for_recompute q = q\<lparr>sq_data := sd_reset_state_for_recompute (sq_data q)\<rparr>"

definition seq_append_token_id :: "int \<Rightarrow> (int, pyfloat) dict \<Rightarrow> (seq, unit) act" where
  "seq_append_token_id t logprobs =
     bind_act (check (map_of logprobs t \<noteq> None)) (\<lambda>_.
     bind_act (modify (\<lambda>q. q\<lparr>sq_output_logprobs := sq_output_logprobs q @ [logprobs]\<rparr>)) (\<lambda>_.
     bind_act (lift_res (dict_item logprobs t)) (\<lambda>lp.
       on_data (modify (sd_append_token_id t lp)))))"

definition seq_fork :: "int \<Rightarrow> seq \<Rightarrow> seq" where
  "seq_fork new_id q = q\<lparr>sq_seq_id := new_id\<rparr>"

definition seq_get_num_new_tokens :: "seq \<Rightarrow> int" where
  "seq_get_num_new_tokens q = (if sd_stage (sq_data q) = DECODE then 1 else sd_get_num_uncomputed_tokens (sq_data q))"

definition seq_is_prefill :: "seq \<Rightarrow> bool" where
  "seq_is_prefill q \<longleftrightarrow> sd_stage (sq_data q) = PREFILL"

section \<open>A group of sequences\<close>

record metrics =
  mt_arrival_time :: pyfloat
  mt_last_token_time :: pyfloat
  mt_first_scheduled_time :: "pyfloat option"
  mt_first_token_time :: "pyfloat option"
  mt_time_in_queue :: "pyfloat option"
  mt_finished_time :: "pyfloat option"

text \<open>
  \<open>sg_extra_args\<close> is \<open>sampling_params.extra_args\<close>, or None when either is None. The list of
  sequences is not empty and its length never changes, so that \<open>first_seq\<close> and
  \<open>is_single_seq\<close> are read off it.
\<close>

record seq_group =
  sg_request_id :: string
  sg_seqs :: "seq list"
  sg_extra_args :: "(string, json) dict option"
  sg_metrics :: metrics
  sg_last_token_latency :: pyfloat
  sg_num_steps :: int
  sg_current_step :: int
  sg_encoder_seq :: "seq option"
  sg_priority :: int

definition seq_group_new ::
  "string \<Rightarrow> seq list \<Rightarrow> pyfloat \<Rightarrow> (string, json) dict option \<Rightarrow> seq option \<Rightarrow> int \<Rightarrow> seq_group res" where
  "seq_group_new rid seqs arrival args enc priority =
     (if seqs = [] then Inl IndexError
      else Inr \<lparr>sg_request_id = rid, sg_seqs = seqs, sg_extra_args = args,
        sg_metrics = \<lparr>mt_arrival_time = arrival, mt_last_token_time = arrival, mt_first_scheduled_time = None, mt_first_token_time = None,
                      mt_time_in_queue = None, mt_finished_time = None\<rparr>,
        sg_last_token_latency = 0, sg_num_steps = 1, sg_current_step = 0, sg_encoder_seq = enc, sg_priority = priority\<rparr>)"

definition first_seq :: "seq_group \<Rightarrow> seq" where
  "first_seq g = hd (sg_seqs g)"

definition is_single_seq :: "seq_group \<Rightarrow> bool" where
  "is_single_seq g \<longleftrightarrow> length (sg_seqs g) = 1"

definition remaining_steps :: "seq_group \<Rightarrow> int" where
  "remaining_steps g = sg_num_steps g - sg_current_step g"

definition sg_is_prefill :: "seq_group \<Rightarrow> bool" where
  "sg_is_prefill g \<longleftrightarrow> seq_is_prefill (first_seq g)"

definition init_multi_step :: "int \<Rightarrow> seq_group \<Rightarrow> seq_group" where
  "init_multi_step n g = g\<lparr>sg_num_steps := n, sg_current_step := 0\<rparr>"

definition init_multi_step_from_lookahead_slots :: "int \<Rightarrow> int \<Rightarrow> bool \<Rightarrow> bool \<Rightarrow> (seq_group, unit) act" where
  "init_multi_step_from_lookahead_slots lookahead steps is_multi_step enable_chunking =
     (if \<not> is_multi_step then modify (init_multi_step steps)
      else
        bind_act (gets sg_is_prefill) (\<lambda>is_prefill.
          if is_prefill \<and> enable_chunking then
            bind_act (check (lookahead = steps)) (\<lambda>_. modify (init_multi_step lookahead))
          else
            bind_act (check (lookahead = 0 \<or> \<not> is_prefill)) (\<lambda>_.
            bind_act (check (lookahead + 1 = steps \<or> is_prefill)) (\<lambda>_.
              modify (init_multi_step (lookahead + 1))))))"

definition set_last_token_time :: "pyfloat \<Rightarrow> (seq_group, unit) act" where
  "set_last_token_time now =
     bind_act (gets (\<lambda>g. \<not> sg_is_prefill g)) (\<lambda>ok.
     bind_act (check ok) (\<lambda>_.
       modify (\<lambda>g. g\<lparr>sg_last_token_latency := now - mt_last_token_time (sg_metrics g),
                     sg_metrics := (sg_metrics g)\<lparr>mt_last_token_time := now\<rparr>\<rparr>)))"

definition get_last_token_latency :: "(seq_group, pyfloat) act" where
  "get_last_token_latency =
     bind_act (gets (\<lambda>g. \<not> sg_is_prefill g)) (\<lambda>ok. bind_act (check ok) (\<lambda>_. gets sg_last_token_latency))"

definition maybe_set_first_token_time :: "pyfloat \<Rightarrow> seq_group \<Rightarrow> seq_group" where
  "maybe_set_first_token_time t g =
     (if mt_first_token_time (sg_metrics g) = None \<and> sd_get_output_len (sq_data (first_seq g)) = 1
      then g\<lparr>sg_metrics := (sg_metrics g)\<lparr>mt_first_token_time := Some t\<rparr>\<rparr> else g)"

definition maybe_set_first_scheduled_time :: "pyfloat \<Rightarrow> seq_group \<Rightarrow> seq_group" where
  "maybe_set_first_scheduled_time t g =
     (if mt_first_scheduled_time (sg_metrics g) = None
      then g\<lparr>sg_metrics := (sg_metrics g)\<lparr>mt_first_scheduled_time := Some t, mt_time_in_queue := Some (t - mt_arrival_time (sg_metrics g))\<rparr>\<rparr>
      else g)"

definition set_finished_time :: "pyfloat option \<Rightarrow> seq_group \<Rightarrow> seq_group" where
  "set_finished_time t g = g\<lparr>sg_metrics := (sg_metrics g)\<lparr>mt_finished_time := t\<rparr>\<rparr>"

definition get_seqs :: "seq_status option \<Rightarrow> seq_group \<Rightarrow> seq list" where
  "get_seqs status g =
     (case status of
        None \<Rightarrow> sg_seqs g
      | Some st \<Rightarrow>
          if is_single_seq g then (if sq_status (first_seq g) = st then sg_seqs g else [])
          else filter (\<lambda>q. sq_status q = st) (sg_seqs g))"

definition is_encoder_decoder :: "seq_group \<Rightarrow> bool" where
  "is_encoder_decoder g \<longleftrightarrow> sg_encoder_seq g \<noteq> None"

definition get_finished_seqs :: "seq_group \<Rightarrow> seq list" where
  "get_finished_seqs g =
     (if is_single_seq g then (if seq_is_finished (first_seq g) then sg_seqs g else [])
      else filter seq_is_finished (sg_seqs g))"

definition num_seqs :: "seq_status option \<Rightarrow> seq_group \<Rightarrow> nat" where
  "num_seqs status g =
     (case status of
        None \<Rightarrow> length (sg_seqs g)
      | Some st \<Rightarrow>
          if is_single_seq g then (if sq_status (sg_seqs g ! 0) = st then 1 else 0) else length (get_seqs status g))"

definition num_finished_seqs :: "seq_group \<Rightarrow> nat" where
  "num_finished_seqs g =
     (if is_single_seq g then (if seq_is_finished (sg_seqs g ! 0) then 1 else 0) else length (get_finished_seqs g))"

definition get_max_num_running_seqs :: "seq_group \<Rightarrow> int" where
  "get_max_num_running_seqs g =
     (if is_single_seq g then (if seq_is_finished (first_seq g) then 0 else 1)
      else int (num_seqs None g) - int (num_finished_seqs g))"

fun update_computed_loop :: "int \<Rightarrow> seq list \<Rightarrow> unit res \<times> seq list" where
  "update_computed_loop n [] = (Inr (), [])"
| "update_computed_loop n (q # qs) =
     (case (if seq_is_finished q then (Inr (), q) else on_data (sd_update_num_computed_tokens n) q) of
        (Inl e, q') \<Rightarrow> (Inl e, q' # qs)
      | (Inr _, q') \<Rightarrow> (case update_computed_loop n qs of (x, qs') \<Rightarrow> (x, q' # qs')))"

definition sg_update_num_computed_tokens :: "int \<Rightarrow> (seq_group, unit) act" where
  "sg_update_num_computed_tokens n g = (case update_computed_loop n (sg_seqs g) of (x, qs) \<Rightarrow> (x, g\<lparr>sg_seqs := qs\<rparr>))"

definition sg_get_num_uncomputed_tokens :: "seq_group \<Rightarrow> int" where
  "sg_get_num_uncomputed_tokens g =
     sum_list (map (\<lambda>q. sd_get_num_uncomputed_tokens (sq_data q)) (filter (\<lambda>q. \<not> seq_is_finished q) (sg_seqs g)))"

definition sg_is_finished :: "seq_group \<Rightarrow> bool" where
  "sg_is_finished g \<longleftrightarrow> (if is_single_seq g then seq_is_finished (first_seq g) else list_all seq_is_finished (sg_seqs g))"

section \<open>The state of a sequence\<close>

text \<open>
  The list of all tokens is the prompt followed by the output, at most all of them are computed,
  and the tokens not yet sent are a suffix of the output.
\<close>

definition sd_ok :: "seq_data \<Rightarrow> bool" where
  "sd_ok d \<longleftrightarrow> sd_cached_all_token_ids d = sd_prompt_token_ids d @ sd_output_token_ids d
     \<and> 0 \<le> sd_num_computed_tokens d \<and> sd_num_computed_tokens d \<le> int (sd_get_len d)
     \<and> (\<exists>sent. sd_output_token_ids d = sent @ sd_new_appended_tokens d)"

inductive sd_step :: "seq_data \<Rightarrow> seq_data \<Rightarrow> bool" where
  append: "sd_step d (sd_append_token_id t lp d)"
| computed: "0 \<le> n \<Longrightarrow> sd_update_num_computed_tokens n d = (Inr (), d') \<Longrightarrow> sd_step d d'"
| cached: "sd_step d (sd_update_num_cached_tokens n d)"
| recompute: "sd_step d (sd_reset_state_for_recompute d)"
| delta: "sd_get_delta_and_reset d = (dl, d') \<Longrightarrow> sd_step d d'"

inductive_cases sd_step_cases: "sd_step d d'"

lemma update_num_computed_Inr:
  assumes "sd_update_num_computed_tokens n d = (Inr (), d')"
  shows "sd_num_computed_tokens d + n \<le> int (sd_get_len d)"
    "d' = d\<lparr>sd_num_computed_tokens := sd_num_computed_tokens d + n,
            sd_stage := (if sd_num_computed_tokens d + n = int (sd_get_len d) then DECODE else sd_stage d)\<rparr>"
  using assms by (auto simp: sd_update_num_computed_tokens_def act_defs bind_act_def sd_get_len_def sd_get_num_uncomputed_tokens_def split: if_splits)

lemma sd_step_ok: "sd_step d d' \<Longrightarrow> sd_ok d \<Longrightarrow> sd_ok d'"
proof (induction rule: sd_step.induct)
  case (append d t lp)
  then show ?case by (auto simp: sd_ok_def sd_append_token_id_def sd_get_len_def)
next
  case (computed n d d')
  then show ?case using update_num_computed_Inr [OF computed(2)] by (auto simp: sd_ok_def sd_get_len_def)
next
  case (delta d dl d')
  then show ?case by (auto simp: sd_ok_def sd_get_delta_and_reset_def sd_get_len_def)
qed (auto simp: sd_ok_def sd_update_num_cached_tokens_def sd_reset_state_for_recompute_def sd_get_len_def)

lemma sd_steps_ok: "sd_step\<^sup>*\<^sup>* d d' \<Longrightarrow> sd_ok d \<Longrightarrow> sd_ok d'"
  by (induction rule: rtranclp_induct) (auto intro: sd_step_ok)

lemma sd_from_seqs_ok: "sd_ok (sd_from_seqs prompt None)"
  by (simp add: sd_ok_def sd_from_seqs_def update_cached_all_tokens_def sd_get_len_def)

section \<open>Workers and clients stay in step\<close>

text \<open>The scheduler's data and a worker's copy of it, to which deltas are applied.\<close>

inductive delta_run :: "seq_data \<Rightarrow> seq_data \<Rightarrow> bool" where
  start: "delta_run (sd_from_seqs prompt None) (sd_from_seqs prompt None)"
| append: "delta_run d w \<Longrightarrow> delta_run (sd_append_token_id t lp d) w"
| computed: "delta_run d w \<Longrightarrow> sd_update_num_computed_tokens n d = (Inr (), d') \<Longrightarrow> delta_run d' w"
| send: "delta_run d w \<Longrightarrow> sd_get_delta_and_reset d = (dl, d') \<Longrightarrow> delta_run d' (sd_apply_delta dl w)"

definition lags_behind :: "seq_data \<Rightarrow> seq_data \<Rightarrow> bool" where
  "lags_behind w d \<longleftrightarrow> sd_prompt_token_ids w = sd_prompt_token_ids d
     \<and> sd_output_token_ids d = sd_output_token_ids w @ sd_new_appended_tokens d
     \<and> sd_cached_all_token_ids d = sd_cached_all_token_ids w @ sd_new_appended_tokens d"

lemma delta_run_lags: "delta_run d w \<Longrightarrow> lags_behind w d"
proof (induction rule: delta_run.induct)
  case (computed d w n d')
  then show ?case by (simp add: update_num_computed_Inr(2) [OF computed(2)] lags_behind_def)
next
  case (send d w dl d')
  then show ?case by (auto simp: lags_behind_def sd_get_delta_and_reset_def sd_apply_delta_def)
qed (simp_all add: lags_behind_def sd_append_token_id_def sd_from_seqs_def update_cached_all_tokens_def)

text \<open>A client that reads deltas of tokens and of text while the sequence grows.\<close>

inductive stream_run :: "seq \<Rightarrow> int list \<Rightarrow> string \<Rightarrow> bool" where
  start: "stream_run (seq_new sid prompt bs lora adapter) [] ''''"
| append: "stream_run q toks text \<Longrightarrow> seq_append_token_id t lps q = (Inr (), q') \<Longrightarrow> stream_run q' toks text"
| detokenize: "stream_run q toks text \<Longrightarrow> stream_run (q\<lparr>sq_output_text := sq_output_text q @ more_text\<rparr>) toks text"
| status: "stream_run q toks text \<Longrightarrow> stream_run (q\<lparr>sq_status := st\<rparr>) toks text"
| read_tokens: "stream_run q toks text \<Longrightarrow> get_output_token_ids_to_return True q = (Inr out, q') \<Longrightarrow>
    stream_run q' (toks @ (case out of Token t \<Rightarrow> [t] | Tokens l \<Rightarrow> l)) text"
| read_text: "stream_run q toks text \<Longrightarrow> get_output_text_to_return buffer_length True q = (out, q') \<Longrightarrow> stream_run q' toks (text @ out)"

definition stream_ok :: "seq \<Rightarrow> int list \<Rightarrow> string \<Rightarrow> bool" where
  "stream_ok q toks text \<longleftrightarrow> seq_token_ids q = sd_prompt_token_ids (sq_data q) @ sd_output_token_ids (sq_data q)
     \<and> sq_last_output_token_ids_offset q \<le> length (sd_output_token_ids (sq_data q))
     \<and> toks = take (sq_last_output_token_ids_offset q) (sd_output_token_ids (sq_data q))
     \<and> sq_last_output_text_offset q \<le> length (sq_output_text q) \<and> text = take (sq_last_output_text_offset q) (sq_output_text q)"

lemma read_tokens_run:
  assumes "stream_ok q toks text" and "get_output_token_ids_to_return True q = (Inr out, q')"
  shows "toks @ (case out of Token t \<Rightarrow> [t] | Tokens l \<Rightarrow> l) = sd_output_token_ids (sq_data q)"
    "q' = q\<lparr>sq_last_output_token_ids_offset := length (sd_output_token_ids (sq_data q))\<rparr>"
proof -
  let ?o = "sd_output_token_ids (sq_data q)" and ?k = "sq_last_output_token_ids_offset q"
  have k: "?k \<le> length ?o" "toks = take ?k ?o" "seq_token_ids q = sd_prompt_token_ids (sq_data q) @ ?o"
    using assms(1) by (simp_all add: stream_ok_def)
  show "q' = q\<lparr>sq_last_output_token_ids_offset := length ?o\<rparr>"
    using assms(2) by (auto simp: get_output_token_ids_to_return_def Let_def sd_get_output_len_def split: if_splits)
  have "(case out of Token t \<Rightarrow> [t] | Tokens l \<Rightarrow> l) = drop ?k ?o"
  proof (cases "length ?o = Suc ?k")
    case True
    then have "?o \<noteq> []" by auto
    moreover from True have "drop ?k ?o = [last ?o]" using calculation by (metis Cons_nth_drop_Suc drop_eq_Nil diff_Suc_1 last_conv_nth le_refl lessI)
    ultimately show ?thesis using assms(2) True k(3) by (auto simp: get_output_token_ids_to_return_def Let_def sd_get_output_len_def)
  next
    case False
    have "length ?o - nat (int (length ?o) - int ?k) = ?k" using k(1) by linarith
    with False show ?thesis using assms(2) k(1,3)
      by (auto simp: get_output_token_ids_to_return_def Let_def sd_get_output_len_def last_n_def split: if_splits)
  qed
  with k(2) show "toks @ (case out of Token t \<Rightarrow> [t] | Tokens l \<Rightarrow> l) = ?o" by simp
qed

lemma stream_run_ok: "stream_run q toks text \<Longrightarrow> stream_ok q toks text"
proof (induction rule: stream_run.induct)
  case (append q toks shown t lps q')
  then show ?case
    by (auto simp: seq_append_token_id_def act_defs bind_act_def on_data_def zoom_def stream_ok_def seq_token_ids_def sd_append_token_id_def
        split: if_splits sum.splits)
next
  case (read_tokens q toks shown out q')
  then show ?case using read_tokens_run [OF read_tokens.IH read_tokens.hyps(2)] by (simp add: stream_ok_def seq_token_ids_def)
next
  case (read_text q toks shown buffer_length out q')
  then show ?case
    by (auto simp: get_output_text_to_return_def Let_def stream_ok_def seq_token_ids_def take_add [symmetric] nat_le_iff split: if_splits)
qed (auto simp: stream_ok_def seq_new_def sd_from_seqs_def update_cached_all_tokens_def seq_token_ids_def)

text \<open>
  Along every history of appended and computed tokens and of deltas sent to a worker, the
  worker's copy agrees with the scheduler's data right after each delta: the same tokens, the
  same number of computed tokens, stage and log probability.
\<close>

theorem worker_copy_in_step:
  assumes "delta_run d w" and "sd_get_delta_and_reset d = (dl, d')"
  shows "sd_apply_delta dl w = d'\<lparr>sd_num_cached_tokens := sd_num_cached_tokens w, sd_new_appended_tokens := sd_new_appended_tokens w\<rparr>
    \<and> sd_cached_all_token_ids d' = sd_prompt_token_ids d' @ sd_output_token_ids d'"
proof -
  have "sd_cached_all_token_ids d = sd_prompt_token_ids d @ sd_output_token_ids d"
    using assms(1)
  proof (induction rule: delta_run.induct)
    case (computed d w n d')
    then show ?case by (simp add: update_num_computed_Inr(2) [OF computed(2)])
  next
    case (send d w dl d')
    then show ?case by (auto simp: sd_get_delta_and_reset_def)
  qed (simp_all add: sd_append_token_id_def sd_from_seqs_def update_cached_all_tokens_def)
  then show ?thesis using delta_run_lags [OF assms(1)] assms(2)
    by (auto simp: lags_behind_def sd_get_delta_and_reset_def sd_apply_delta_def)
qed

theorem worker_copy_in_step_witness:
  "\<exists>d'. sd_apply_delta (fst (sd_get_delta_and_reset (sd_append_token_id 7 0 (sd_from_seqs [1, 2] None)))) (sd_from_seqs [1, 2] None) = d'
     \<and> sd_cached_all_token_ids d' = [1, 2, 7]"
  using worker_copy_in_step [OF delta_run.append [OF delta_run.start, of 7 0 "[1, 2]"] surjective_pairing]
  by (simp add: sd_get_delta_and_reset_def sd_append_token_id_def sd_from_seqs_def update_cached_all_tokens_def sd_apply_delta_def)

text \<open>
  C28. A client that asks for deltas gets every output token exactly once and in order, whatever
  tokens were appended between its calls, and the text it has is always a prefix of the output
  text; once the sequence is finished, one more call gives it the whole text.
\<close>

theorem streamed_output_complete:
  assumes "stream_run q toks text"
  shows "(\<forall>out q'. get_output_token_ids_to_return True q = (Inr out, q')
      \<longrightarrow> toks @ (case out of Token t \<Rightarrow> [t] | Tokens l \<Rightarrow> l) = sd_output_token_ids (sq_data q))
    \<and> (\<forall>n out q'. get_output_text_to_return n True q = (out, q')
      \<longrightarrow> (\<exists>rest. sq_output_text q = text @ out @ rest \<and> (seq_is_finished q \<longrightarrow> rest = [])))"
proof (intro conjI allI impI)
  note ok = stream_run_ok [OF assms]
  show "toks @ (case out of Token t \<Rightarrow> [t] | Tokens l \<Rightarrow> l) = sd_output_token_ids (sq_data q)"
    if "get_output_token_ids_to_return True q = (Inr out, q')" for out q' by (rule read_tokens_run(1) [OF ok that])
  show "\<exists>rest. sq_output_text q = text @ out @ rest \<and> (seq_is_finished q \<longrightarrow> rest = [])"
    if run: "get_output_text_to_return n True q = (out, q')" for n out q'
  proof -
    have k: "sq_last_output_text_offset q \<le> length (sq_output_text q)" "text = take (sq_last_output_text_offset q) (sq_output_text q)"
      using ok by (simp_all add: stream_ok_def)
    have "\<exists>m. out = take m (drop (sq_last_output_text_offset q) (sq_output_text q))
        \<and> (seq_is_finished q \<longrightarrow> length (sq_output_text q) \<le> sq_last_output_text_offset q + m)"
      using run k(1) by (auto simp: get_output_text_to_return_def Let_def split: if_splits
          intro: exI [of _ "nat (int (length (sq_output_text q)) - int n) - sq_last_output_text_offset q"] exI [of _ 0]
            exI [of _ "length (sq_output_text q)"])
    then obtain m where m: "out = take m (drop (sq_last_output_text_offset q) (sq_output_text q))"
      "seq_is_finished q \<longrightarrow> length (sq_output_text q) \<le> sq_last_output_text_offset q + m" by blast
    have "sq_output_text q = text @ out @ drop m (drop (sq_last_output_text_offset q) (sq_output_text q))" unfolding k(2) m(1) by (simp only: append_take_drop_id)
    then show ?thesis using m(2) by (metis add.commute drop_all drop_drop)
  qed
qed

theorem streamed_output_complete_witness:
  "fst (get_output_token_ids_to_return True (snd (seq_append_token_id 7 [(7, 0)] (seq_new 1 [1, 2] 16 0 0)))) = Inr (Token 7)"
proof -
  obtain q where q: "seq_append_token_id 7 [(7, 0)] (seq_new 1 [1, 2] 16 0 0) = (Inr (), q)"
    by (simp add: seq_append_token_id_def act_defs bind_act_def on_data_def zoom_def dict_item_def)
  have r: "stream_run q [] ''''" by (rule stream_run.append [OF stream_run.start q])
  show ?thesis using streamed_output_complete [OF r] q
    by (auto simp: seq_append_token_id_def act_defs bind_act_def on_data_def zoom_def dict_item_def seq_new_def sd_from_seqs_def
        update_cached_all_tokens_def sd_append_token_id_def get_output_token_ids_to_return_def Let_def sd_get_output_len_def seq_token_ids_def)
qed

section \<open>Well-formedness\<close>

lemma sd_steps_prompt: "sd_step\<^sup>*\<^sup>* d d' \<Longrightarrow> sd_prompt_token_ids d' = sd_prompt_token_ids d"
proof (induction rule: rtranclp_induct)
  case (step d1 d2)
  from step(2) have "sd_prompt_token_ids d2 = sd_prompt_token_ids d1"
    by cases (auto simp: sd_append_token_id_def sd_update_num_cached_tokens_def sd_reset_state_for_recompute_def sd_get_delta_and_reset_def
        dest: update_num_computed_Inr(2))
  with step show ?case by simp
qed simp



end
