(* ===== verification/BlockManager.thy ===== *)
theory BlockManager
  imports TableSpec Sequence
begin

text \<open>
  \<open>src/vllm/vllm/core/block_manager.py\<close>: the block manager of an instance. It keeps one block
  table per sequence over the allocator for both devices, decides whether a request can be
  admitted or swapped, and retains the blocks of finished requests. The two hash functions of
  Python that it depends on are the arguments \<open>H\<close> (the digest of a block) and \<open>hash_pair\<close>.
\<close>

section \<open>State\<close>

datatype alloc_status = OK | LATER | NEVER

record manager =
  bm_block_size :: nat
  bm_num_total_gpu_blocks :: nat
  bm_num_total_cpu_blocks :: nat
  bm_max_block_sliding_window :: "nat option"
  bm_enable_caching :: bool
  bm_watermark_blocks :: int
  bm_alloc :: dev_alloc
  bm_block_tables :: "(int, block_table) dict"
  bm_cross_block_tables :: "(string, block_table) dict"
  bm_tracker :: tracker
  bm_last_access :: last_access
  bm_synthetic_cached_tokens :: "(int, int) dict"
  bm_gpu_cached_entries :: "(int \<times> int, string \<times> int list \<times> int list) dict"

definition bm_new ::
  "nat \<Rightarrow> nat \<Rightarrow> nat \<Rightarrow> nat \<Rightarrow> pyfloat \<Rightarrow> nat option \<Rightarrow> bool \<Rightarrow> manager res" where
  "bm_new reserved bs num_gpu num_cpu watermark sliding_window caching =
     bind_res (case sliding_window of
                 None \<Rightarrow> Inr None
               | Some w \<Rightarrow> if bs = 0 then Inl ZeroDivisionError else Inr (Some (w div bs + 1 + 1))) (\<lambda>window.
       if watermark < 0 then Inl AssertionError
       else
         bind_res (da_create reserved (if caching then ''prefix_caching'' else ''naive'') num_gpu num_cpu bs) (\<lambda>a.
           Inr \<lparr>bm_block_size = bs, bm_num_total_gpu_blocks = num_gpu, bm_num_total_cpu_blocks = num_cpu,
                bm_max_block_sliding_window = window, bm_enable_caching = caching,
                bm_watermark_blocks = trunc_rat (watermark * rat_of_nat num_gpu), bm_alloc = a, bm_block_tables = [],
                bm_cross_block_tables = [], bm_tracker = tracker_new bs caching, bm_last_access = [],
                bm_synthetic_cached_tokens = [], bm_gpu_cached_entries = []\<rparr>))"

text \<open>Methods of the parts of the manager.\<close>

definition on_alloc :: "(dev_alloc, 'a) act \<Rightarrow> (manager, 'a) act" where
  "on_alloc = zoom bm_alloc (\<lambda>a m. m\<lparr>bm_alloc := a\<rparr>)"

definition on_tracker :: "(tracker, 'a) act \<Rightarrow> (manager, 'a) act" where
  "on_tracker = zoom bm_tracker (\<lambda>t m. m\<lparr>bm_tracker := t\<rparr>)"

definition on_last_access :: "(last_access, 'a) act \<Rightarrow> (manager, 'a) act" where
  "on_last_access = zoom bm_last_access (\<lambda>l m. m\<lparr>bm_last_access := l\<rparr>)"

definition get_table :: "int \<Rightarrow> (manager, block_table) act" where
  "get_table sid m = (dict_item (bm_block_tables m) sid, m)"

definition put_table :: "int \<Rightarrow> block_table \<Rightarrow> (manager, unit) act" where
  "put_table sid t = modify (\<lambda>m. m\<lparr>bm_block_tables := AList.update sid t (bm_block_tables m)\<rparr>)"

definition del_table :: "int \<Rightarrow> (manager, unit) act" where
  "del_table sid = modify (\<lambda>m. m\<lparr>bm_block_tables := AList.delete sid (bm_block_tables m)\<rparr>)"

text \<open>A method of the table of a sequence, which changes the table in place.\<close>

definition on_table :: "int \<Rightarrow> (dev_alloc, 'a) tb_act \<Rightarrow> (manager, 'a) act" where
  "on_table sid f =
     bind_act (get_table sid) (\<lambda>t m.
       (case f (t, bm_alloc m) of
          (x, (t', a)) \<Rightarrow> (x, m\<lparr>bm_alloc := a, bm_block_tables := AList.update sid t' (bm_block_tables m)\<rparr>)))"

text \<open>A method of a table that is in no dictionary; the table is returned with the result.\<close>

definition on_local :: "block_table \<Rightarrow> (dev_alloc, 'a) tb_act \<Rightarrow> (manager, 'a \<times> block_table) act" where
  "on_local t f m =
     (case f (t, bm_alloc m) of
        (Inl e, (t', a)) \<Rightarrow> (Inl e, m\<lparr>bm_alloc := a\<rparr>)
      | (Inr x, (t', a)) \<Rightarrow> (Inr (x, t'), m\<lparr>bm_alloc := a\<rparr>))"

definition empty_table :: "manager \<Rightarrow> block_table" where
  "empty_table m =
     \<lparr>tb_block_size = bm_block_size m, tb_blocks = \<lparr>bl_blocks = [], bl_block_ids = []\<rparr>,
      tb_max_block_sliding_window = bm_max_block_sliding_window m, tb_num_full_slots = 0\<rparr>"

definition seq_view_of :: "(int \<times> int \<Rightarrow> int) \<Rightarrow> seq \<Rightarrow> seq_view" where
  "seq_view_of hash_pair q =
     \<lparr>sv_seq_id = sq_seq_id q, sv_token_ids = seq_token_ids q, sv_extra_hash = seq_extra_hash hash_pair q,
      sv_is_prefill = seq_is_prefill q\<rparr>"

text \<open>Slices \<open>xs[:i]\<close> and \<open>xs[i:]\<close>; a negative index counts from the end.\<close>

definition py_take :: "int \<Rightarrow> 'a list \<Rightarrow> 'a list" where
  "py_take i xs = (if 0 \<le> i then take (nat i) xs else take (length xs - nat (- i)) xs)"

definition py_drop :: "int \<Rightarrow> 'a list \<Rightarrow> 'a list" where
  "py_drop i xs = (if 0 \<le> i then drop (nat i) xs else drop (length xs - nat (- i)) xs)"

section \<open>Admission\<close>

definition check_no_caching_or_swa :: "seq_group \<Rightarrow> manager \<Rightarrow> unit res" where
  "check_no_caching_or_swa g m =
     (if is_encoder_decoder g then
        if bm_max_block_sliding_window m \<noteq> None then Inl NotImplementedError
        else if bm_enable_caching m then Inl NotImplementedError
        else Inr ()
      else Inr ())"

definition can_allocate :: "(string \<Rightarrow> int) \<Rightarrow> (int \<times> int \<Rightarrow> int) \<Rightarrow> seq_group \<Rightarrow> int \<Rightarrow> manager \<Rightarrow> alloc_status res" where
  "can_allocate H hash_pair g lookahead m =
     bind_res (check_no_caching_or_swa g m) (\<lambda>_.
       (case get_seqs (Some WAITING) g of
          [] \<Rightarrow> Inl IndexError
        | q # _ \<Rightarrow>
            bind_res (da_num_new_blocks_needed H (seq_token_ids q) (seq_extra_hash hash_pair q) lookahead (int (bm_block_size m)) (bm_alloc m)) (\<lambda>base.
            bind_res (case sg_encoder_seq g of
                        None \<Rightarrow> Inr base
                      | Some e \<Rightarrow>
                          bind_res (get_num_required_blocks (seq_token_ids e) (int (bm_block_size m)) 0) (\<lambda>n. Inr (base + n))) (\<lambda>required.
              let required' = (case bm_max_block_sliding_window m of None \<Rightarrow> required | Some w \<Rightarrow> min required (int w));
                  free_gpu = int (da_num_free GPU (bm_alloc m))
              in Inr (if int (bm_num_total_gpu_blocks m) - required' < bm_watermark_blocks m then NEVER
                      else if bm_watermark_blocks m \<le> free_gpu - required' then OK
                      else LATER)))))"

definition bm_get_num_cached_tokens ::
  "(string \<Rightarrow> int) \<Rightarrow> (int \<times> int \<Rightarrow> int) \<Rightarrow> seq \<Rightarrow> device \<Rightarrow> (manager, int) act" where
  "bm_get_num_cached_tokens H hash_pair q dev m =
     on_tracker (get_num_cached_tokens H (\<lambda>hs d. da_find_cached_blocks_prefix hs d (bm_alloc m)) (seq_view_of hash_pair q) dev) m"

definition physical_pairs :: "device \<Rightarrow> device \<Rightarrow> (block_id, block_id) dict \<Rightarrow> manager \<Rightarrow> (nat \<times> nat) list res" where
  "physical_pairs src dst ps m =
     map_res (\<lambda>(i, j).
       bind_res (da_physical_block_id src i (bm_alloc m)) (\<lambda>pi.
       bind_res (da_physical_block_id dst j (bm_alloc m)) (\<lambda>pj. Inr (pi, pj)))) ps"

definition present_ids :: "heap \<Rightarrow> ref list \<Rightarrow> block_id list" where
  "present_ids hp rs = List.map_filter (\<lambda>r. b_block_id (hp ! r)) rs"

definition swap_in_cpu_prefix_if_needed ::
  "(string \<Rightarrow> int) \<Rightarrow> (int \<times> int \<Rightarrow> int) \<Rightarrow> seq \<Rightarrow> (manager, (nat \<times> nat) list) act" where
  "swap_in_cpu_prefix_if_needed H hash_pair q =
     bind_act (gets bm_enable_caching) (\<lambda>caching.
       if \<not> caching then ret []
       else
         bind_act (bm_get_num_cached_tokens H hash_pair q GPU) (\<lambda>gpu_cached.
         bind_act (bm_get_num_cached_tokens H hash_pair q CPU) (\<lambda>cpu_cached.
           let prefix = py_take cpu_cached (seq_token_ids q)
           in if cpu_cached \<le> gpu_cached \<or> cpu_cached \<le> 0 then ret []
              else if prefix = [] then ret []
              else
                bind_act (gets empty_table) (\<lambda>t0.
                bind_act (on_local t0 (tb_allocate (cpu_gpu_ops H) prefix CPU (seq_extra_hash hash_pair q))) (\<lambda>(_, t).
                bind_act (gets bm_block_size) (\<lambda>bs.
                  if bs = 0 then raise ZeroDivisionError
                  else
                    (let rs = py_drop (gpu_cached div int bs) (bl_blocks (tb_blocks t))
                     in bind_act (on_alloc (da_swap H rs CPU GPU)) (\<lambda>mapping.
                        bind_act (gets (\<lambda>m. present_ids (da_heap (bm_alloc m)) rs)) (\<lambda>ids.
                        bind_act (if ids \<noteq> [] then on_alloc (da_mark_blocks_as_computed ids) else ret ()) (\<lambda>_.
                        bind_act (on_tracker (update_num_cached_tokens H (seq_view_of hash_pair q) cpu_cached GPU)) (\<lambda>_.
                        bind_act (on_local t (tb_free (cpu_gpu_ops H))) (\<lambda>_.
                        bind_act (gets (physical_pairs CPU GPU mapping)) lift_res))))))))))))"

section \<open>Allocation\<close>

definition allocate_sequence :: "(string \<Rightarrow> int) \<Rightarrow> (int \<times> int \<Rightarrow> int) \<Rightarrow> seq \<Rightarrow> (manager, block_table) act" where
  "allocate_sequence H hash_pair q =
     bind_act (gets empty_table) (\<lambda>t.
       if seq_token_ids q = [] then ret t
       else bind_act (on_local t (tb_allocate (cpu_gpu_ops H) (seq_token_ids q) GPU (seq_extra_hash hash_pair q))) (\<lambda>(_, t'). ret t'))"

text \<open>The other sequences of the group share the blocks of the first one.\<close>

definition fork_waiting :: "(string \<Rightarrow> int) \<Rightarrow> block_table \<Rightarrow> seq \<Rightarrow> (manager, unit) act" where
  "fork_waiting H t q =
     bind_act (on_local t (tb_fork (cpu_gpu_ops H))) (\<lambda>(child, _).
     bind_act (put_table (sq_seq_id q) child) (\<lambda>_. on_last_access (la_add_seq (sq_seq_id q))))"

definition bm_allocate :: "(string \<Rightarrow> int) \<Rightarrow> (int \<times> int \<Rightarrow> int) \<Rightarrow> seq_group \<Rightarrow> (manager, (nat \<times> nat) list) act" where
  "bm_allocate H hash_pair g =
     (let waiting = get_seqs (Some WAITING) g
      in bind_act (gets (\<lambda>m. list_all (\<lambda>q. map_of (bm_block_tables m) (sq_seq_id q) = None) waiting)) (\<lambda>fresh.
         bind_act (check fresh) (\<lambda>_.
           (case waiting of
              [] \<Rightarrow> raise IndexError
            | q # rest \<Rightarrow>
                bind_act (allocate_sequence H hash_pair q) (\<lambda>t.
                bind_act (put_table (sq_seq_id q) t) (\<lambda>_.
                bind_act (swap_in_cpu_prefix_if_needed H hash_pair q) (\<lambda>swaps.
                bind_act (on_last_access (la_add_seq (sq_seq_id q))) (\<lambda>_.
                bind_act (for_each (fork_waiting H t) rest) (\<lambda>_.
                bind_act (gets (\<lambda>m. map_of (bm_cross_block_tables m) (sg_request_id g) = None)) (\<lambda>no_cross.
                bind_act (check no_cross) (\<lambda>_.
                bind_act (gets (check_no_caching_or_swa g)) (\<lambda>r.
                bind_act (lift_res r) (\<lambda>_.
                bind_act (case sg_encoder_seq g of
                            None \<Rightarrow> ret ()
                          | Some e \<Rightarrow>
                              bind_act (allocate_sequence H hash_pair e) (\<lambda>t'.
                                modify (\<lambda>m. m\<lparr>bm_cross_block_tables := AList.update (sg_request_id g) t' (bm_cross_block_tables m)\<rparr>))) (\<lambda>_.
                  ret swaps))))))))))))))"

text \<open>The blocks that the running sequences of a group may need for their next tokens.\<close>

definition seq_touched_blocks :: "int \<Rightarrow> manager \<Rightarrow> seq \<Rightarrow> int res" where
  "seq_touched_blocks lookahead m q =
     bind_res (dict_item (bm_block_tables m) (sq_seq_id q)) (\<lambda>t.
       num_blocks_touched_by_append_slots t (get_unseen_token_ids t (seq_token_ids q)) lookahead)"

definition can_append_slots :: "seq_group \<Rightarrow> int \<Rightarrow> manager \<Rightarrow> bool res" where
  "can_append_slots g lookahead m =
     bind_res (map_res (seq_touched_blocks lookahead m) (get_seqs (Some RUNNING) g)) (\<lambda>ns.
       Inr (sum_list ns \<le> int (da_num_free GPU (bm_alloc m))))"

definition append_slots :: "(string \<Rightarrow> int) \<Rightarrow> (int \<times> int \<Rightarrow> int) \<Rightarrow> seq \<Rightarrow> int \<Rightarrow> (manager, cows) act" where
  "append_slots H hash_pair q lookahead =
     bind_act (get_table (sq_seq_id q)) (\<lambda>t.
     bind_act (on_table (sq_seq_id q)
        (tb_append_token_ids (cpu_gpu_ops H) (get_unseen_token_ids t (seq_token_ids q)) lookahead
           (Some (sd_num_computed_tokens (sq_data q))) (seq_extra_hash hash_pair q))) (\<lambda>_.
       on_alloc da_clear_copy_on_writes))"

section \<open>Release\<close>

definition update_seq_blocks_last_access :: "int \<Rightarrow> (manager, unit) act" where
  "update_seq_blocks_last_access sid =
     bind_act (get_table sid) (\<lambda>t.
     bind_act (gets (\<lambda>m. la_update_seq_blocks sid (map int (tb_physical_block_ids t)) (bm_last_access m))) (\<lambda>r.
     bind_act (lift_res r) (\<lambda>call.
       (case call of None \<Rightarrow> ret () | Some (ids, ts) \<Rightarrow> on_alloc (da_mark_blocks_as_accessed (map nat ids) ts)))))"

text \<open>The steps that both ways of freeing a sequence share; only one of them forgets the synthetic entry.\<close>

definition release_sequence :: "(string \<Rightarrow> int) \<Rightarrow> bool \<Rightarrow> int \<Rightarrow> (manager, unit) act" where
  "release_sequence H forget_synthetic sid =
     bind_act (update_seq_blocks_last_access sid) (\<lambda>_.
     bind_act (on_last_access (la_remove_seq sid)) (\<lambda>_.
     bind_act (on_tracker (modify (tracker_remove_seq sid))) (\<lambda>_.
     bind_act (if forget_synthetic
               then modify (\<lambda>m. m\<lparr>bm_synthetic_cached_tokens := AList.delete sid (bm_synthetic_cached_tokens m)\<rparr>) else ret ()) (\<lambda>_.
     bind_act (on_table sid (tb_free (cpu_gpu_ops H))) (\<lambda>_. del_table sid)))))"

definition bm_free :: "(string \<Rightarrow> int) \<Rightarrow> seq \<Rightarrow> (manager, unit) act" where
  "bm_free H q =
     bind_act (gets (\<lambda>m. map_of (bm_block_tables m) (sq_seq_id q) = None)) (\<lambda>absent.
       if absent then ret () else release_sequence H True (sq_seq_id q))"

definition remove_seq_from_computed_blocks_tracker :: "seq \<Rightarrow> manager \<Rightarrow> manager" where
  "remove_seq_from_computed_blocks_tracker q m =
     m\<lparr>bm_tracker := tracker_remove_seq (sq_seq_id q) (bm_tracker m),
       bm_synthetic_cached_tokens := AList.delete (sq_seq_id q) (bm_synthetic_cached_tokens m)\<rparr>"

definition free_cross :: "(string \<Rightarrow> int) \<Rightarrow> seq_group \<Rightarrow> (manager, unit) act" where
  "free_cross H g =
     bind_act (gets (\<lambda>m. map_of (bm_cross_block_tables m) (sg_request_id g))) (\<lambda>t.
       (case t of
          None \<Rightarrow> ret ()
        | Some t \<Rightarrow>
            bind_act (on_local t (tb_free (cpu_gpu_ops H))) (\<lambda>_.
              modify (\<lambda>m. m\<lparr>bm_cross_block_tables := AList.delete (sg_request_id g) (bm_cross_block_tables m)\<rparr>))))"

section \<open>Tables and marks\<close>

definition get_block_table :: "seq \<Rightarrow> manager \<Rightarrow> block_id list res" where
  "get_block_table q m = bind_res (dict_item (bm_block_tables m) (sq_seq_id q)) (\<lambda>t. Inr (tb_physical_block_ids t))"

definition get_cross_block_table :: "seq_group \<Rightarrow> manager \<Rightarrow> block_id list res" where
  "get_cross_block_table g m =
     (case map_of (bm_cross_block_tables m) (sg_request_id g) of
        None \<Rightarrow> Inl AssertionError
      | Some t \<Rightarrow> Inr (tb_physical_block_ids t))"

definition access_all_blocks_in_seq :: "seq \<Rightarrow> pyfloat \<Rightarrow> (manager, unit) act" where
  "access_all_blocks_in_seq q now =
     bind_act (gets bm_enable_caching) (\<lambda>caching.
       if caching then on_last_access (la_update_last_access (sq_seq_id q) now) else ret ())"

definition mark_seq_as_computed :: "int \<Rightarrow> seq \<Rightarrow> (manager, unit) act" where
  "mark_seq_as_computed token_chunk_size q =
     bind_act (gets (\<lambda>m. (map_of (bm_block_tables m) (sq_seq_id q), bm_block_size m))) (\<lambda>(t, bs).
       (case t of
          None \<Rightarrow> ret ()
        | Some t \<Rightarrow>
            if bs = 0 then raise ZeroDivisionError
            else
              (let computed_after = min (int (seq_get_len q)) (sd_num_computed_tokens (sq_data q) + token_chunk_size);
                   ids = py_take (computed_after div int bs) (tb_physical_block_ids t)
               in if ids = [] then ret () else on_alloc (da_mark_blocks_as_computed ids))))"

definition bm_mark_blocks_as_computed :: "seq_group \<Rightarrow> int \<Rightarrow> (manager, unit) act" where
  "bm_mark_blocks_as_computed g token_chunk_size = for_each (mark_seq_as_computed token_chunk_size) (get_seqs (Some RUNNING) g)"

definition register_synthetic_cached_tokens :: "seq \<Rightarrow> int \<Rightarrow> (manager, int) act" where
  "register_synthetic_cached_tokens q cached_tokens =
     bind_act (gets (\<lambda>m. (map_of (bm_block_tables m) (sq_seq_id q), bm_block_size m))) (\<lambda>(t, bs).
       (case t of
          None \<Rightarrow> ret 0
        | Some t \<Rightarrow>
            if bs = 0 then raise ZeroDivisionError
            else
              (let wanted = min (max cached_tokens 0) (int (sd_get_prompt_len (sq_data q))) div int bs * int bs;
                   ids = py_take (wanted div int bs) (tb_physical_block_ids t);
                   effective = (if int (length ids) \<noteq> wanted div int bs then int (length ids) * int bs else wanted);
                   forget = modify (\<lambda>m. m\<lparr>bm_synthetic_cached_tokens := AList.delete (sq_seq_id q) (bm_synthetic_cached_tokens m)\<rparr>)
               in if wanted \<le> 0 \<or> effective \<le> 0 then bind_act forget (\<lambda>_. ret 0)
                  else
                    bind_act (modify (\<lambda>m. m\<lparr>bm_synthetic_cached_tokens :=
                        AList.update (sq_seq_id q) effective (bm_synthetic_cached_tokens m)\<rparr>)) (\<lambda>_.
                    bind_act (on_alloc (da_mark_blocks_as_computed ids)) (\<lambda>_. ret effective)))))"

section \<open>Common computed blocks and forks\<close>

definition seq_cached_ids :: "(string \<Rightarrow> int) \<Rightarrow> (int \<times> int \<Rightarrow> int) \<Rightarrow> seq \<Rightarrow> (manager, bool \<times> block_id list) act" where
  "seq_cached_ids H hash_pair q =
     bind_act (get_table (sq_seq_id q)) (\<lambda>t.
     bind_act (gets (\<lambda>m. map_of (bm_synthetic_cached_tokens m) (sq_seq_id q))) (\<lambda>synthetic.
     bind_act (case synthetic of Some n \<Rightarrow> ret n | None \<Rightarrow> bm_get_num_cached_tokens H hash_pair q GPU) (\<lambda>n.
     bind_act (gets bm_block_size) (\<lambda>bs.
       if bs = 0 then raise ZeroDivisionError
       else bind_act (check (n mod int bs = 0)) (\<lambda>_.
              ret (synthetic \<noteq> None, py_take (n div int bs) (tb_physical_block_ids t)))))))"

fun map_act :: "('a \<Rightarrow> ('s, 'b) act) \<Rightarrow> 'a list \<Rightarrow> ('s, 'b list) act" where
  "map_act f [] = ret []"
| "map_act f (x # xs) = bind_act (f x) (\<lambda>y. bind_act (map_act f xs) (\<lambda>ys. ret (y # ys)))"

text \<open>The loop over the positions stops at the first difference.\<close>

definition common_ids :: "block_id list list \<Rightarrow> block_id list" where
  "common_ids idss =
     (case idss of
        [] \<Rightarrow> []
      | ids # rest \<Rightarrow>
          map (\<lambda>k. ids ! k) (takeWhile (\<lambda>k. list_all (\<lambda>l. l ! k = ids ! k) rest)
            [0..<Min (set (map length idss))]))"

definition bm_get_common_computed_block_ids ::
  "(string \<Rightarrow> int) \<Rightarrow> (int \<times> int \<Rightarrow> int) \<Rightarrow> seq list \<Rightarrow> (manager, block_id list) act" where
  "bm_get_common_computed_block_ids H hash_pair qs =
     bind_act (map_act (seq_cached_ids H hash_pair) qs) (\<lambda>cs.
       if list_ex fst cs then ret (common_ids (map snd cs))
       else gets (\<lambda>m. da_common_computed_block_ids (map snd cs) (bm_alloc m)))"

definition bm_fork :: "(string \<Rightarrow> int) \<Rightarrow> seq \<Rightarrow> seq \<Rightarrow> (manager, unit) act" where
  "bm_fork H parent child =
     bind_act (gets (\<lambda>m. map_of (bm_block_tables m) (sq_seq_id parent))) (\<lambda>t.
       (case t of
          None \<Rightarrow> ret ()
        | Some t \<Rightarrow>
            bind_act (on_local t (tb_fork (cpu_gpu_ops H))) (\<lambda>(c, _).
            bind_act (put_table (sq_seq_id child) c) (\<lambda>_. on_last_access (la_add_seq (sq_seq_id child))))))"

section \<open>Swapping\<close>

text \<open>Whether every block of the table has an identifier that is in use.\<close>

fun all_active :: "dev_alloc \<Rightarrow> ref list \<Rightarrow> bool res" where
  "all_active s [] = Inr True"
| "all_active s (r # rs) =
     (case b_block_id (da_heap s ! r) of
        None \<Rightarrow> Inr False
      | Some i \<Rightarrow> bind_res (da_is_block_active i s) (\<lambda>a. if a then all_active s rs else Inr False))"

fun swapped_active :: "manager \<Rightarrow> seq list \<Rightarrow> bool res" where
  "swapped_active m [] = Inr True"
| "swapped_active m (q # qs) =
     (case map_of (bm_block_tables m) (sq_seq_id q) of
        None \<Rightarrow> Inr False
      | Some t \<Rightarrow> bind_res (all_active (bm_alloc m) (bl_blocks (tb_blocks t))) (\<lambda>a. if a then swapped_active m qs else Inr False))"

definition can_swap :: "(string \<Rightarrow> int) \<Rightarrow> seq_group \<Rightarrow> device \<Rightarrow> seq_status \<Rightarrow> int \<Rightarrow> (manager, alloc_status) act" where
  "can_swap H g dev status lookahead =
     bind_act (gets (\<lambda>m. map_res (\<lambda>q.
         bind_res (dict_item (bm_block_tables m) (sq_seq_id q)) (\<lambda>t.
         bind_res (num_blocks_touched_by_append_slots t (get_unseen_token_ids t (seq_token_ids q)) lookahead) (\<lambda>n.
           Inr (n, bl_blocks (tb_blocks t))))) (get_seqs (Some status) g))) (\<lambda>r.
     bind_act (lift_res r) (\<lambda>ps.
     bind_act (on_alloc (da_full_blocks_touched H (concat (map snd ps)) dev)) (\<lambda>full m.
       let touched = sum_list (map fst ps) + int full;
           watermark = (if dev = GPU then bm_watermark_blocks m else 0)
       in (Inr (if int (da_num_total dev (bm_alloc m)) < touched then NEVER
                else if watermark \<le> int (da_num_free dev (bm_alloc m)) - touched then OK
                else LATER), m))))"

definition can_swap_in :: "(string \<Rightarrow> int) \<Rightarrow> seq_group \<Rightarrow> int \<Rightarrow> (manager, alloc_status) act" where
  "can_swap_in H g lookahead =
     bind_act (gets (\<lambda>m. swapped_active m (get_seqs (Some SWAPPED) g))) (\<lambda>r.
     bind_act (lift_res r) (\<lambda>active. if active then can_swap H g GPU SWAPPED lookahead else ret NEVER))"

fun select_computed :: "dev_alloc \<Rightarrow> ref list \<Rightarrow> ref list res" where
  "select_computed s [] = Inr []"
| "select_computed s (r # rs) =
     bind_res (if b_is_full (da_heap s ! r)
               then (case b_block_id (da_heap s ! r) of None \<Rightarrow> Inr False | Some i \<Rightarrow> da_is_block_computed i s)
               else Inr False) (\<lambda>keep.
     bind_res (select_computed s rs) (\<lambda>rest. Inr (if keep then r # rest else rest)))"

definition seq_blocks_for_swap :: "manager \<Rightarrow> seq \<Rightarrow> ref list res" where
  "seq_blocks_for_swap m q =
     (case map_of (bm_block_tables m) (sq_seq_id q) of
        None \<Rightarrow> Inr []
      | Some t \<Rightarrow>
          if bl_blocks (tb_blocks t) = [] then Inr []
          else if \<not> bm_enable_caching m then Inr (bl_blocks (tb_blocks t))
          else select_computed (bm_alloc m) (bl_blocks (tb_blocks t)))"

definition collect_blocks_for_swap :: "seq_group \<Rightarrow> seq_status option \<Rightarrow> manager \<Rightarrow> (seq \<times> ref list) list res" where
  "collect_blocks_for_swap g status m =
     bind_res (map_res (\<lambda>q. bind_res (seq_blocks_for_swap m q) (\<lambda>rs. Inr (q, rs))) (get_seqs status g)) (\<lambda>ps.
       Inr (filter (\<lambda>(q, rs). rs \<noteq> []) ps))"

definition needed_cpu_blocks :: "(string \<Rightarrow> int) \<Rightarrow> (seq \<times> ref list) list \<Rightarrow> (manager, nat) act" where
  "needed_cpu_blocks H pending =
     bind_act (map_act (\<lambda>(q, rs). on_alloc (da_full_blocks_touched H rs CPU)) pending) (\<lambda>ns. ret (sum_list ns))"

definition swap_in_seq :: "(string \<Rightarrow> int) \<Rightarrow> seq \<Rightarrow> (manager, (nat \<times> nat) list) act" where
  "swap_in_seq H q =
     bind_act (get_table (sq_seq_id q)) (\<lambda>t.
       let rs = bl_blocks (tb_blocks t)
       in if rs = [] then ret []
          else
            bind_act (on_alloc (da_swap H rs CPU GPU)) (\<lambda>mapping.
            bind_act (on_table (sq_seq_id q) (tb_update (cpu_gpu_ops H) rs)) (\<lambda>_.
            bind_act (gets (physical_pairs CPU GPU mapping)) (\<lambda>r.
            bind_act (lift_res r) (\<lambda>ps. ret (dict_of_pairs ps []))))))"

definition swap_in :: "(string \<Rightarrow> int) \<Rightarrow> seq_group \<Rightarrow> (manager, (nat \<times> nat) list) act" where
  "swap_in H g = bind_act (map_act (swap_in_seq H) (get_seqs (Some SWAPPED) g)) (\<lambda>pss. ret (concat pss))"

definition can_swap_out :: "(string \<Rightarrow> int) \<Rightarrow> seq_group \<Rightarrow> (manager, bool) act" where
  "can_swap_out H g =
     bind_act (gets (collect_blocks_for_swap g (Some RUNNING))) (\<lambda>r.
     bind_act (lift_res r) (\<lambda>pending.
       if pending = [] then ret True
       else bind_act (needed_cpu_blocks H pending) (\<lambda>n. gets (\<lambda>m. n \<le> da_num_free CPU (bm_alloc m)))))"

text \<open>\<open>time.time()\<close>, read once per sequence, is the argument \<open>clock\<close>.\<close>

definition swap_out_seq :: "(string \<Rightarrow> int) \<Rightarrow> (seq \<Rightarrow> pyfloat) \<Rightarrow> seq \<times> ref list \<Rightarrow> (manager, (nat \<times> nat) list) act" where
  "swap_out_seq H clock p =
     (case p of (q, rs) \<Rightarrow>
        bind_act (get_table (sq_seq_id q)) (\<lambda>t.
        bind_act (on_alloc (da_mark_blocks_as_accessed (tb_physical_block_ids t) (clock q))) (\<lambda>_.
        bind_act (on_alloc (da_swap H rs GPU CPU)) (\<lambda>mapping.
        bind_act (on_table (sq_seq_id q) (tb_update (cpu_gpu_ops H) rs)) (\<lambda>_.
        bind_act (gets (physical_pairs GPU CPU mapping)) lift_res)))))"

definition swap_out_group ::
  "(string \<Rightarrow> int) \<Rightarrow> (seq \<Rightarrow> pyfloat) \<Rightarrow> seq_group \<Rightarrow> seq_status option \<Rightarrow> (manager, (nat \<times> nat) list option) act" where
  "swap_out_group H clock g status =
     bind_act (gets (collect_blocks_for_swap g status)) (\<lambda>r.
     bind_act (lift_res r) (\<lambda>pending.
       if pending = [] then ret None
       else
         bind_act (needed_cpu_blocks H pending) (\<lambda>n.
         bind_act (gets (\<lambda>m. da_num_free CPU (bm_alloc m) < n)) (\<lambda>full.
           if full then ret None
           else bind_act (map_act (swap_out_seq H clock) pending) (\<lambda>pss. ret (Some (concat pss)))))))"

definition swap_out :: "(string \<Rightarrow> int) \<Rightarrow> (seq \<Rightarrow> pyfloat) \<Rightarrow> seq_group \<Rightarrow> (manager, (nat \<times> nat) list) act" where
  "swap_out H clock g =
     bind_act (swap_out_group H clock g (Some RUNNING)) (\<lambda>r. ret (case r of None \<Rightarrow> [] | Some ps \<Rightarrow> ps))"

definition swap_out_finished ::
  "(string \<Rightarrow> int) \<Rightarrow> (seq \<Rightarrow> pyfloat) \<Rightarrow> seq_group \<Rightarrow> (manager, (nat \<times> nat) list option) act" where
  "swap_out_finished H clock g = swap_out_group H clock g None"

section \<open>Queries\<close>

definition get_num_free_gpu_blocks :: "manager \<Rightarrow> nat" where
  "get_num_free_gpu_blocks m = da_num_free GPU (bm_alloc m)"

definition get_num_free_cpu_blocks :: "manager \<Rightarrow> nat" where
  "get_num_free_cpu_blocks m = da_num_free CPU (bm_alloc m)"

definition get_prefix_cache_hit_rate :: "device \<Rightarrow> manager \<Rightarrow> pyfloat res" where
  "get_prefix_cache_hit_rate d m = da_hit_rate d (bm_alloc m)"

definition bm_reset_prefix_cache :: "device option \<Rightarrow> (manager, bool) act" where
  "bm_reset_prefix_cache d = on_alloc (da_reset_prefix_cache d)"

definition bm_get_computed_cached_block_hashes :: "device \<Rightarrow> manager \<Rightarrow> int list res" where
  "bm_get_computed_cached_block_hashes d m = da_computed_cached_block_hashes d (bm_alloc m)"

section \<open>Retention of finished requests\<close>

definition free_cached_seq :: "(string \<Rightarrow> int) \<Rightarrow> int \<Rightarrow> (manager, unit) act" where
  "free_cached_seq H sid =
     bind_act (gets (\<lambda>m. map_of (bm_block_tables m) sid = None)) (\<lambda>absent.
       if absent then ret () else release_sequence H False sid)"

definition free_cached_seq_blocks :: "(string \<Rightarrow> int) \<Rightarrow> int list \<Rightarrow> (manager, unit) act" where
  "free_cached_seq_blocks H sids = for_each (free_cached_seq H) sids"

definition pop_gpu_entry :: "int \<times> int \<Rightarrow> (manager, (string \<times> int list \<times> int list) option) act" where
  "pop_gpu_entry key m =
     (Inr (map_of (bm_gpu_cached_entries m) key), m\<lparr>bm_gpu_cached_entries := AList.delete key (bm_gpu_cached_entries m)\<rparr>)"

definition evict_cached_blocks :: "(string \<Rightarrow> int) \<Rightarrow> int \<times> int \<Rightarrow> (manager, unit) act" where
  "evict_cached_blocks H key =
     bind_act (pop_gpu_entry key) (\<lambda>e.
       (case e of None \<Rightarrow> ret () | Some (rid, sids, toks) \<Rightarrow> free_cached_seq_blocks H sids))"

text \<open>\<open>(int(query_id), int(invocation_id))\<close>, or None when one of them is missing.\<close>

definition request_key :: "seq_group \<Rightarrow> (int \<times> int) option res" where
  "request_key g =
     (case sg_extra_args g of
        None \<Rightarrow> Inr None
      | Some args \<Rightarrow>
          (let query = (case map_of args ''query_id'' of None \<Rightarrow> JNull | Some v \<Rightarrow> v);
               invocation = (case map_of args ''invocation_id'' of None \<Rightarrow> JNull | Some v \<Rightarrow> v)
           in if query = JNull \<or> invocation = JNull then Inr None
              else bind_res (int_of_json query) (\<lambda>qid. bind_res (int_of_json invocation) (\<lambda>ivid. Inr (Some (qid, ivid))))))"

definition retain_blocks :: "(string \<Rightarrow> int) \<Rightarrow> seq_group \<Rightarrow> (manager, unit) act" where
  "retain_blocks H g =
     bind_act (lift_res (request_key g)) (\<lambda>k.
       (case k of
          None \<Rightarrow> ret ()
        | Some key \<Rightarrow>
            bind_act (evict_cached_blocks H key) (\<lambda>_.
              let finished = filter seq_is_finished (get_seqs None g);
                  sids = map sq_seq_id finished;
                  toks = (case filter (\<lambda>l. l \<noteq> []) (map seq_token_ids finished) of [] \<Rightarrow> [] | l # _ \<Rightarrow> l)
              in modify (\<lambda>m. m\<lparr>bm_gpu_cached_entries := AList.update key (sg_request_id g, sids, toks) (bm_gpu_cached_entries m)\<rparr>))))"

definition get_gpu_cached_entry :: "int \<Rightarrow> int \<Rightarrow> manager \<Rightarrow> (string \<times> int list) option" where
  "get_gpu_cached_entry qid ivid m =
     map_option (\<lambda>(rid, sids, toks). (rid, toks)) (map_of (bm_gpu_cached_entries m) (qid, ivid))"

definition get_gpu_cached_entry_keys :: "manager \<Rightarrow> (int \<times> int) list" where
  "get_gpu_cached_entry_keys m = map fst (bm_gpu_cached_entries m)"

definition consume_gpu_cached_entry :: "(string \<Rightarrow> int) \<Rightarrow> int \<Rightarrow> int \<Rightarrow> (manager, (string \<times> int list) option) act" where
  "consume_gpu_cached_entry H qid ivid =
     bind_act (pop_gpu_entry (qid, ivid)) (\<lambda>e.
       (case e of
          None \<Rightarrow> ret None
        | Some (rid, sids, toks) \<Rightarrow> bind_act (free_cached_seq_blocks H sids) (\<lambda>_. ret (Some (rid, toks)))))"

definition evict_request :: "(string \<Rightarrow> int) \<Rightarrow> seq_group \<Rightarrow> (manager, unit) act" where
  "evict_request H g =
     bind_act (lift_res (request_key g)) (\<lambda>k. (case k of None \<Rightarrow> ret () | Some key \<Rightarrow> evict_cached_blocks H key))"

definition free_request_cache :: "(string \<Rightarrow> int) \<Rightarrow> seq_group \<Rightarrow> (manager, unit) act" where
  "free_request_cache H g = evict_request H g"

definition free_finished_blocks :: "(string \<Rightarrow> int) \<Rightarrow> seq_group \<Rightarrow> (manager, unit) act" where
  "free_finished_blocks H g = evict_request H g"

section \<open>Migrated and swapped caches\<close>

definition register_migrated_cpu_cache :: "(string \<Rightarrow> int) \<Rightarrow> pyfloat \<Rightarrow> int list \<Rightarrow> (manager, bool) act" where
  "register_migrated_cpu_cache H now toks =
     bind_act (gets (\<lambda>m. (bm_enable_caching m, bm_block_size m))) (\<lambda>(caching, bs).
       if \<not> caching \<or> toks = [] then ret False
       else if bs = 0 then raise ZeroDivisionError
       else
         (let full = take (length toks div bs * bs) toks
          in if full = [] then ret False
             else
               bind_act (gets empty_table) (\<lambda>t0.
               bind_act (on_local t0 (tb_allocate (cpu_gpu_ops H) full CPU None)) (\<lambda>(_, t).
               bind_act (gets (\<lambda>m. present_ids (da_heap (bm_alloc m))
                   (filter (\<lambda>r. b_is_full (da_heap (bm_alloc m) ! r)) (bl_blocks (tb_blocks t))))) (\<lambda>ids.
               bind_act (if ids = [] then ret ()
                         else bind_act (on_alloc (da_mark_blocks_as_computed_on_device ids CPU)) (\<lambda>_.
                                on_alloc (da_mark_blocks_as_accessed ids now))) (\<lambda>_.
               bind_act (on_local t (tb_free (cpu_gpu_ops H))) (\<lambda>_. ret True)))))))"

fun active_prefix :: "dev_alloc \<Rightarrow> ref list \<Rightarrow> nat res" where
  "active_prefix s [] = Inr 0"
| "active_prefix s (r # rs) =
     (case b_block_id (da_heap s ! r) of
        None \<Rightarrow> Inr 0
      | Some i \<Rightarrow> bind_res (da_is_block_active i s) (\<lambda>a. if a then bind_res (active_prefix s rs) (\<lambda>n. Inr (Suc n)) else Inr 0))"

definition get_num_actually_cached_cpu_tokens :: "seq \<Rightarrow> manager \<Rightarrow> nat res" where
  "get_num_actually_cached_cpu_tokens q m =
     (case map_of (bm_block_tables m) (sq_seq_id q) of
        None \<Rightarrow> Inr 0
      | Some t \<Rightarrow> bind_res (active_prefix (bm_alloc m) (bl_blocks (tb_blocks t))) (\<lambda>n. Inr (n * bm_block_size m)))"

definition refresh_swapped_seq :: "(string \<Rightarrow> int) \<Rightarrow> (int \<times> int \<Rightarrow> int) \<Rightarrow> seq \<Rightarrow> (manager, unit) act" where
  "refresh_swapped_seq H hash_pair q =
     bind_act (gets (get_num_actually_cached_cpu_tokens q)) (\<lambda>r.
     bind_act (lift_res r) (\<lambda>n.
     bind_act (on_tracker (update_num_cached_tokens H (seq_view_of hash_pair q) (int n) CPU)) (\<lambda>_.
       on_tracker (update_num_cached_tokens H (seq_view_of hash_pair q) 0 GPU))))"

definition refresh_swapped_cached_tokens :: "(string \<Rightarrow> int) \<Rightarrow> (int \<times> int \<Rightarrow> int) \<Rightarrow> seq_group \<Rightarrow> (manager, unit) act" where
  "refresh_swapped_cached_tokens H hash_pair g = for_each (refresh_swapped_seq H hash_pair) (get_seqs (Some SWAPPED) g)"

end
