(* ===== verification/ManagerInv.thy ===== *)
theory ManagerInv
  imports BlockManager
begin

text \<open>
  The block manager with prefix caching and without a sliding window: what its state satisfies
  between the operations on requests with one sequence.
\<close>

section \<open>The blocks of all tables\<close>

definition dict_blocks :: "(int, block_table) dict \<Rightarrow> ref list" where
  "dict_blocks d = concat (map (\<lambda>(sid, t). bl_blocks (tb_blocks t)) d)"

definition manager_blocks :: "manager \<Rightarrow> ref list" where
  "manager_blocks m = dict_blocks (bm_block_tables m)"

lemma dict_blocks_simps [simp]:
  "dict_blocks [] = []" "dict_blocks ((sid, t) # d) = bl_blocks (tb_blocks t) @ dict_blocks d"
  by (simp_all add: dict_blocks_def)

lemma dict_blocks_update_new:
  "map_of d sid = None \<Longrightarrow> dict_blocks (AList.update sid t d) = dict_blocks d @ bl_blocks (tb_blocks t)"
  by (induction d) (auto split: if_splits)

lemma dict_blocks_update:
  "map_of d sid = Some t \<Longrightarrow> dict_wf d \<Longrightarrow>
   mset (dict_blocks (AList.update sid t' d)) + mset (bl_blocks (tb_blocks t)) = mset (dict_blocks d) + mset (bl_blocks (tb_blocks t'))"
proof (induction d)
  case (Cons p d)
  then show ?case by (cases p) (auto simp: dict_wf_def)
qed simp

lemma delete_absent: "map_of d k = None \<Longrightarrow> AList.delete k d = d"
  by (induction d) (auto simp: AList.delete_eq split: if_splits)

lemma update_delete_same: "AList.delete k (AList.update k v d) = AList.delete k d"
  by (induction d) (auto simp: AList.delete_eq)

lemma dict_blocks_delete:
  "map_of d sid = Some t \<Longrightarrow> dict_wf d \<Longrightarrow> mset (dict_blocks (AList.delete sid d)) + mset (bl_blocks (tb_blocks t)) = mset (dict_blocks d)"
proof (induction d)
  case (Cons p d)
  obtain k u where p: "p = (k, u)" by (cases p)
  show ?case
  proof (cases "k = sid")
    case True
    then have "map_of d sid = None" using Cons.prems p by (auto simp: dict_wf_def map_of_eq_None_iff)
    from delete_absent [OF this] show ?thesis using Cons.prems True p by (simp add: AList.delete_eq)
  next
    case False
    then show ?thesis using Cons p by (simp add: AList.delete_eq dict_wf_def)
  qed
qed simp

lemma mset_rest:
  assumes "mset xs + mset ys = mset zs" "distinct zs" "set us = set zs - set ys" "distinct us"
  shows "mset xs = mset us"
proof -
  have "mset zs = mset (xs @ ys)" using assms(1) by simp
  then have "distinct (xs @ ys)" "set zs = set (xs @ ys)" using assms(2) by (metis distinct_count_atmost_1 set_mset_mset, metis set_mset_mset)
  then have "set xs = set us" "distinct xs" using assms(3) by auto
  then show ?thesis using assms(4) by (metis set_eq_iff_mset_eq_distinct)
qed

lemma dict_blocks_in: "map_of d sid = Some t \<Longrightarrow> set (bl_blocks (tb_blocks t)) \<subseteq> set (dict_blocks d)"
  by (force simp: dict_blocks_def dest: map_of_SomeD)

lemma gpu_held_perm: "gpu_held H s hs \<Longrightarrow> mset rs = mset hs \<Longrightarrow> gpu_held H s rs"
  by (auto simp: gpu_held_def intro: pc_inv_perm split: allocator.splits)

lemma table_holds_cong:
  assumes "table_holds hp t xs" "\<And>r. r \<in> set (bl_blocks (tb_blocks t)) \<Longrightarrow> hp' ! r = hp ! r"
  shows "table_holds hp' t xs"
  using assms unfolding table_holds_def holds_tokens_def ids_current_def by auto

section \<open>The invariant\<close>

definition tables_ok :: "manager \<Rightarrow> bool" where
  "tables_ok m \<longleftrightarrow> dict_wf (bm_block_tables m)
     \<and> (\<forall>sid t. map_of (bm_block_tables m) sid = Some t \<longrightarrow> tb_block_size t = bm_block_size m
          \<and> tb_max_block_sliding_window t = None \<and> (\<exists>xs. table_holds (da_heap (bm_alloc m)) t xs))"

definition bm_ok :: "(string \<Rightarrow> int) \<Rightarrow> manager \<Rightarrow> bool" where
  "bm_ok H m \<longleftrightarrow> bm_enable_caching m \<and> bm_max_block_sliding_window m = None \<and> gpu_held H (bm_alloc m) (manager_blocks m)
     \<and> da_block_size (bm_alloc m) = bm_block_size m \<and> tables_ok m \<and> bm_cross_block_tables m = []
     \<and> tr_enable_caching (bm_tracker m) \<and> tr_block_size (bm_tracker m) = bm_block_size m
     \<and> dom (map_of (bm_last_access m)) = dom (map_of (bm_block_tables m))"

lemma bm_ok_pos: "bm_ok H m \<Longrightarrow> 0 < bm_block_size m"
  using gpu_held_facts(2) [of H "bm_alloc m" "manager_blocks m"] by (simp add: bm_ok_def)

lemma bm_ok_state: "bm_ok H m \<Longrightarrow> gpu_state H (gpu_fixed (bm_alloc m)) (bm_alloc m) (manager_blocks m)"
  by (rule gpu_state_held) (simp add: bm_ok_def)

lemma bm_ok_table:
  assumes "bm_ok H m" "map_of (bm_block_tables m) sid = Some t"
  obtains xs where "tb_block_size t = da_block_size (bm_alloc m)" "tb_max_block_sliding_window t = None"
    "table_holds (da_heap (bm_alloc m)) t xs" "set (bl_blocks (tb_blocks t)) \<subseteq> set (manager_blocks m)"
proof -
  have "tb_block_size t = bm_block_size m \<and> tb_max_block_sliding_window t = None \<and> (\<exists>xs. table_holds (da_heap (bm_alloc m)) t xs)"
    using assms unfolding bm_ok_def tables_ok_def by blast
  with that dict_blocks_in [OF assms(2)] assms(1) show thesis by (auto simp: bm_ok_def manager_blocks_def)
qed

text \<open>Changes of the state that the invariant does not see.\<close>

lemma bm_ok_irrelevant [simp]:
  "bm_ok H (m\<lparr>bm_synthetic_cached_tokens := x\<rparr>) \<longleftrightarrow> bm_ok H m" "bm_ok H (m\<lparr>bm_gpu_cached_entries := y\<rparr>) \<longleftrightarrow> bm_ok H m"
  by (simp_all add: bm_ok_def tables_ok_def manager_blocks_def)

text \<open>One table replaced, added or removed, while the objects of the others stay the same.\<close>

lemma tables_ok_step:
  assumes ok: "tables_ok m" and wf: "dict_wf (bm_block_tables m')" and bs: "bm_block_size m' = bm_block_size m"
    and others: "\<And>k t. k \<noteq> sid \<Longrightarrow> map_of (bm_block_tables m') k = Some t \<Longrightarrow> map_of (bm_block_tables m) k = Some t"
    and own: "\<And>t. map_of (bm_block_tables m') sid = Some t \<Longrightarrow> tb_block_size t = bm_block_size m
      \<and> tb_max_block_sliding_window t = None \<and> (\<exists>xs. table_holds (da_heap (bm_alloc m')) t xs)"
    and same: "\<And>k t r. k \<noteq> sid \<Longrightarrow> map_of (bm_block_tables m) k = Some t \<Longrightarrow> r \<in> set (bl_blocks (tb_blocks t)) \<Longrightarrow>
      da_heap (bm_alloc m') ! r = da_heap (bm_alloc m) ! r"
  shows "tables_ok m'"
  unfolding tables_ok_def
proof (intro conjI allI impI)
  fix k t assume k: "map_of (bm_block_tables m') k = Some t"
  have "tb_block_size t = bm_block_size m \<and> tb_max_block_sliding_window t = None \<and> (\<exists>xs. table_holds (da_heap (bm_alloc m')) t xs)"
  proof (cases "k = sid")
    case True
    with own k show ?thesis by simp
  next
    case False
    note old = others [OF False k]
    with ok obtain xs where "tb_block_size t = bm_block_size m" "tb_max_block_sliding_window t = None" "table_holds (da_heap (bm_alloc m)) t xs"
      by (auto simp: tables_ok_def)
    with table_holds_cong [OF this(3) same [OF False old]] show ?thesis by blast
  qed
  with bs show "tb_block_size t = bm_block_size m'" "tb_max_block_sliding_window t = None" "\<exists>xs. table_holds (da_heap (bm_alloc m')) t xs" by auto
qed (rule wf)

text \<open>Blocks of different tables are different.\<close>

lemma other_table_blocks:
  assumes ok: "bm_ok H m" and t: "map_of (bm_block_tables m) sid = Some t" "map_of (bm_block_tables m) k = Some u" "k \<noteq> sid"
    and r: "r \<in> set (bl_blocks (tb_blocks u))"
  shows "r \<in> set (manager_blocks m) - set (bl_blocks (tb_blocks t))"
proof -
  have dist: "distinct (manager_blocks m)" using ok gpu_held_facts(1) [of H "bm_alloc m"] by (simp add: bm_ok_def)
  have wf: "dict_wf (bm_block_tables m)" using ok by (simp add: bm_ok_def tables_ok_def)
  from dict_blocks_delete [OF t(1) wf] have eq: "mset (manager_blocks m) = mset (dict_blocks (AList.delete sid (bm_block_tables m)) @ bl_blocks (tb_blocks t))"
    by (simp add: manager_blocks_def)
  then have "distinct (dict_blocks (AList.delete sid (bm_block_tables m)) @ bl_blocks (tb_blocks t))"
    using dist by (metis distinct_count_atmost_1 set_mset_mset)
  moreover have "map_of (AList.delete sid (bm_block_tables m)) k = Some u" using t(2,3) by (simp add: delete_conv')
  from dict_blocks_in [OF this] r have "r \<in> set (dict_blocks (AList.delete sid (bm_block_tables m)))" by blast
  ultimately show ?thesis using eq by (metis Diff_iff IntI distinct_append empty_iff mset_eq_setD set_append UnI1)
qed

section \<open>Appending\<close>

lemma cows_irrelevant: "pc_inv H (p\<lparr>pc_cows := c\<rparr>) hs \<longleftrightarrow> pc_inv H p hs"
proof -
  have "abs_phys (p\<lparr>pc_cows := c\<rparr>) = abs_phys p" "pc_wf (p\<lparr>pc_cows := c\<rparr>) = pc_wf p" by (simp_all add: abs_phys_def pc_wf_def)
  moreover have "held_inv H (p\<lparr>pc_cows := c\<rparr>) hs pend = held_inv H p hs pend" for pend
    by (simp add: held_inv_def owned_def blk_ok_def filling_def sealed_def holders_def)
  ultimately show ?thesis by (simp add: pc_inv_def pc_good_def)
qed

lemma gpu_clear_cows:
  assumes "gpu_held H s hs"
  obtains c s' where "da_clear_copy_on_writes s = (Inr c, s')" "gpu_held H s' hs" "da_heap s' = da_heap s" "da_block_size s' = da_block_size s"
    "gpu_ready s' = gpu_ready s" "gpu_fixed s' = gpu_fixed s"
proof -
  obtain p where p: "da_of GPU s = Prefix p" "pc_inv H p hs" "no_none H" "da_null s = None" "da_heap s = na_heap (pc_hashless p)"
    "da_block_size s = na_block_size (pc_hashless p)" by (rule gpu_heldE [OF assms])
  obtain c where c: "pc_clear_copy_on_writes p = (Inr c, p\<lparr>pc_cows := []\<rparr>)"
    by (simp add: pc_clear_copy_on_writes_def zoom_def clear_cows_def)
  let ?s = "da_put GPU (Prefix (p\<lparr>pc_cows := []\<rparr>)) s"
  have "da_clear_copy_on_writes s = (Inr c, ?s)" using c by (simp add: da_clear_copy_on_writes_def on_dev_gpu [OF p(1)])
  moreover have "gpu_held H ?s hs" by (rule gpu_held_put [OF p(3,4)]) (use p(2) cows_irrelevant in blast)
  moreover have "gpu_fixed ?s = gpu_fixed s"
    using gpu_total [OF p(1)] gpu_total [of ?s "p\<lparr>pc_cows := []\<rparr>"] by (simp add: gpu_fixed_def)
  ultimately show thesis using that p(1,5,6) by (simp add: gpu_ready_def)
qed

lemma append_slots_ok:
  assumes ok: "bm_ok H m" and t: "map_of (bm_block_tables m) (sq_seq_id q) = Some t" and holds: "table_holds (da_heap (bm_alloc m)) t xs"
    and toks: "seq_token_ids q = xs @ ys" and run: "append_slots H hash_pair q lookahead m = (Inr cows, m')"
  obtains t' where "map_of (bm_block_tables m') = (map_of (bm_block_tables m))(sq_seq_id q \<mapsto> t')" "table_holds (da_heap (bm_alloc m')) t' (seq_token_ids q)"
    "bm_ok H m'" "gpu_fixed (bm_alloc m') = gpu_fixed (bm_alloc m)" "bm_watermark_blocks m' = bm_watermark_blocks m"
    "bm_gpu_cached_entries m' = bm_gpu_cached_entries m"
proof -
  let ?sid = "sq_seq_id q"
  have tb: "tb_block_size t = da_block_size (bm_alloc m)" "tb_max_block_sliding_window t = None" "set (bl_blocks (tb_blocks t)) \<subseteq> set (manager_blocks m)"
    using bm_ok_table [OF ok t] by metis+
  have un: "get_unseen_token_ids t (seq_token_ids q) = ys"
    using holds toks by (simp add: get_unseen_token_ids_def table_holds_def)
  obtain t1 a1 where ap: "tb_append_token_ids (cpu_gpu_ops H) ys lookahead (Some (sd_num_computed_tokens (sq_data q))) (seq_extra_hash hash_pair q)
      (t, bm_alloc m) = (Inr (), (t1, a1))"
    and cl: "on_alloc da_clear_copy_on_writes (m\<lparr>bm_alloc := a1, bm_block_tables := AList.update ?sid t1 (bm_block_tables m)\<rparr>) = (Inr cows, m')"
    using run t un by (auto simp: append_slots_def bind_act_Inr_iff get_table_def dict_item_def on_table_def split: prod.splits sum.splits)
  have h: "table_holds (op_heap (cpu_gpu_ops H) (bm_alloc m)) t xs" using holds by simp
  obtain new where n: "gpu_state H (gpu_fixed (bm_alloc m)) a1 (new @ manager_blocks m)" "table_holds (da_heap a1) t1 (xs @ ys)"
    "tb_block_size t1 = da_block_size a1" "da_block_size a1 = da_block_size (bm_alloc m)" "bl_blocks (tb_blocks t1) = bl_blocks (tb_blocks t) @ rev new"
    "tb_max_block_sliding_window t1 = None" "same_objs (cpu_gpu_ops H) (set (manager_blocks m) - set (bl_blocks (tb_blocks t))) (bm_alloc m) a1"
    using gpu.table_append [OF bm_ok_state [OF ok] tb(1,3) h tb(2) ap] by (metis cpu_gpu_ops_simps(1))
  let ?m1 = "m\<lparr>bm_alloc := a1, bm_block_tables := AList.update ?sid t1 (bm_block_tables m)\<rparr>"
  have wf: "dict_wf (bm_block_tables m)" using ok by (simp add: bm_ok_def tables_ok_def)
  have "mset (manager_blocks ?m1) + mset (bl_blocks (tb_blocks t)) = mset (manager_blocks m) + mset (bl_blocks (tb_blocks t1))"
    using dict_blocks_update [OF t wf, of t1] by (simp add: manager_blocks_def)
  then have perm: "mset (manager_blocks ?m1) = mset (new @ manager_blocks m)" using n(5) by simp
  have held1: "gpu_held H a1 (manager_blocks ?m1)" using gpu_held_perm [OF _ perm] n(1) by (simp add: gpu_state_def)
  from gpu_clear_cows [OF held1] obtain a2 where a2: "m' = ?m1\<lparr>bm_alloc := a2\<rparr>" "gpu_held H a2 (manager_blocks ?m1)" "da_heap a2 = da_heap a1"
    "da_block_size a2 = da_block_size a1" "gpu_fixed a2 = gpu_fixed a1" using cl by (auto simp: on_alloc_def zoom_def split: prod.splits)
  have "tables_ok m'"
  proof (rule tables_ok_step [of m _ ?sid])
    show "tables_ok m" using ok by (simp add: bm_ok_def)
    show "da_heap (bm_alloc m') ! r = da_heap (bm_alloc m) ! r"
      if "k \<noteq> ?sid" "map_of (bm_block_tables m) k = Some u" "r \<in> set (bl_blocks (tb_blocks u))" for k u r
      using other_table_blocks [OF ok t that(2,1,3)] n(7) a2(3) by (simp add: a2(1) same_objs_def)
  qed (use wf n(2,3,4,6) a2(3) ok in \<open>auto simp: a2(1) bm_ok_def split: if_splits\<close>)
  moreover have "manager_blocks m' = manager_blocks ?m1" by (simp add: a2(1) manager_blocks_def)
  moreover have "insert ?sid (dom (map_of (bm_block_tables m))) = dom (map_of (bm_block_tables m))" using t by auto
  ultimately have "bm_ok H m'" using ok a2 n(4) by (simp add: bm_ok_def)
  moreover have "table_holds (da_heap (bm_alloc m')) t1 (seq_token_ids q)" using n(2) toks a2(3) by (simp add: a2(1))
  ultimately show thesis using that [of t1] n(1) a2(5) by (simp add: a2(1) gpu_state_def)
qed

section \<open>Release\<close>

lemma gpu_mark_accessed_one:
  assumes held: "gpu_held H s hs" and r: "r \<in> set hs" "b_block_id (da_heap s ! r) = Some i"
  obtains s' where "da_mark_accessed_one now i s = (Inr (), s')" "gpu_held H s' hs" "da_heap s' = da_heap s" "da_block_size s' = da_block_size s"
    "gpu_fixed s' = gpu_fixed s"
proof -
  obtain p where p: "da_of GPU s = Prefix p" "pc_inv H p hs" "no_none H" "da_null s = None" "da_heap s = na_heap (pc_hashless p)"
    "da_block_size s = na_block_size (pc_hashless p)" by (rule gpu_heldE [OF held])
  have good: "pc_good p" and hi: "held_inv H p hs (\<lambda>_. 0)" using p(2) by (simp_all add: pc_inv_def)
  obtain n where n: "map_of (pc_rc p) i = Some n" "0 < n" using held_id [OF hi good r(1)] r(2) p(5) by (metis option.inject)
  obtain t where t: "map_of (pc_tracker p) i = Some t" "bt_active t" using pc_good_tracker [OF good n(1)] n(2) by metis
  let ?p = "set_tracker i (t\<lparr>bt_last_accessed := now\<rparr>) p"
  have run: "pc_mark_blocks_as_accessed [i] now p = (Inr (), ?p)"
    using t by (simp add: pc_mark_blocks_as_accessed_def mark_accessed_one_def bind_act_def get_tracker_def dict_item_def modify_def ret_def)
  have "ids_kept p ?p" by (rule set_tracker_kept [OF good t(1)]) simp
  then have inv': "pc_inv H ?p hs" using p(2) by (rule ids_kept_inv)
  have "da_device s i = Some GPU"
    using gpu_device [OF p(1,2) r(1)] r(2) by (auto simp: da_device_of_block_def split: option.splits)
  then have "da_mark_accessed_one now i s = (Inr (), da_put GPU (Prefix ?p) s)"
    using run by (simp add: da_mark_accessed_one_def bind_act_def gets_def on_dev_gpu [OF p(1)])
  moreover have "gpu_fixed (da_put GPU (Prefix ?p) s) = gpu_fixed s"
    using gpu_total [OF p(1)] gpu_total [of "da_put GPU (Prefix ?p) s" ?p] by (simp add: gpu_fixed_def)
  ultimately show thesis using that gpu_held_put [OF p(3,4) inv'] p(5,6) by simp
qed

lemma gpu_mark_accessed:
  "gpu_held H s hs \<Longrightarrow> \<forall>i \<in> set ids. \<exists>r \<in> set hs. b_block_id (da_heap s ! r) = Some i \<Longrightarrow>
   \<exists>s'. da_mark_blocks_as_accessed ids now s = (Inr (), s') \<and> gpu_held H s' hs \<and> da_heap s' = da_heap s \<and> da_block_size s' = da_block_size s
     \<and> gpu_fixed s' = gpu_fixed s"
proof (induction ids arbitrary: s)
  case Nil
  then show ?case by (simp add: da_mark_blocks_as_accessed_def ret_def)
next
  case (Cons i ids)
  then obtain r where r: "r \<in> set hs" "b_block_id (da_heap s ! r) = Some i" by auto
  obtain s1 where s1: "da_mark_accessed_one now i s = (Inr (), s1)" "gpu_held H s1 hs" "da_heap s1 = da_heap s" "da_block_size s1 = da_block_size s"
    "gpu_fixed s1 = gpu_fixed s" by (rule gpu_mark_accessed_one [OF Cons.prems(1) r])
  have "\<forall>i \<in> set ids. \<exists>r \<in> set hs. b_block_id (da_heap s1 ! r) = Some i" using Cons.prems(2) s1(3) by simp
  from Cons.IH [OF s1(2) this] s1 show ?case by (auto simp: da_mark_blocks_as_accessed_def bind_act_def)
qed

lemma table_ids_held:
  assumes "table_holds hp t xs" "i \<in> set (tb_physical_block_ids t)"
  shows "\<exists>r \<in> set (bl_blocks (tb_blocks t)). b_block_id (hp ! r) = Some i"
proof -
  have "map Some (tb_physical_block_ids t) = map (\<lambda>r. b_block_id (hp ! r)) (bl_blocks (tb_blocks t))"
    using assms(1) by (simp add: table_holds_def ids_current_def tb_physical_block_ids_def)
  then have "Some i \<in> (\<lambda>r. b_block_id (hp ! r)) ` set (bl_blocks (tb_blocks t))"
    using assms(2) by (metis imageI list.set_map)
  then show ?thesis by force
qed

text \<open>The block manager never fails to release a sequence, and the sequence leaves no trace.\<close>

lemma release_sequence_ok:
  assumes ok: "bm_ok H m" and t: "map_of (bm_block_tables m) sid = Some t"
  obtains m' where "release_sequence H forget sid m = (Inr (), m')" "bm_ok H m'"
    "map_of (bm_block_tables m') = (map_of (bm_block_tables m))(sid := None)"
    "map_of (bm_last_access m') = (map_of (bm_last_access m))(sid := None)" "bm_tracker m' = tracker_remove_seq sid (bm_tracker m)"
    "bm_synthetic_cached_tokens m' = (if forget then AList.delete sid (bm_synthetic_cached_tokens m) else bm_synthetic_cached_tokens m)"
    "bm_gpu_cached_entries m' = bm_gpu_cached_entries m" "gpu_fixed (bm_alloc m') = gpu_fixed (bm_alloc m)"
    "\<And>k u r. k \<noteq> sid \<Longrightarrow> map_of (bm_block_tables m) k = Some u \<Longrightarrow> r \<in> set (bl_blocks (tb_blocks u)) \<Longrightarrow>
       da_heap (bm_alloc m') ! r = da_heap (bm_alloc m) ! r"
    "bm_watermark_blocks m' = bm_watermark_blocks m"
proof -
  obtain xs where tb: "table_holds (da_heap (bm_alloc m)) t xs" "set (bl_blocks (tb_blocks t)) \<subseteq> set (manager_blocks m)"
    using bm_ok_table [OF ok t] by metis
  have held: "gpu_held H (bm_alloc m) (manager_blocks m)" using ok by (simp add: bm_ok_def)
  have ids: "\<forall>i \<in> set (tb_physical_block_ids t). \<exists>r \<in> set (manager_blocks m). b_block_id (da_heap (bm_alloc m) ! r) = Some i"
    using table_ids_held [OF tb(1)] tb(2) by blast
  obtain la where la: "map_of (bm_last_access m) sid = Some la" using ok t unfolding bm_ok_def by (metis domD domI)
  obtain a1 where acc: "update_seq_blocks_last_access sid m = (Inr (), m\<lparr>bm_alloc := a1\<rparr>)"
    and a1: "gpu_held H a1 (manager_blocks m)" "da_heap a1 = da_heap (bm_alloc m)" "da_block_size a1 = da_block_size (bm_alloc m)"
      "gpu_fixed a1 = gpu_fixed (bm_alloc m)"
  proof (cases la)
    case None
    then have "update_seq_blocks_last_access sid m = (Inr (), m\<lparr>bm_alloc := bm_alloc m\<rparr>)"
      using t la by (simp add: update_seq_blocks_last_access_def bind_act_def get_table_def dict_item_def gets_def la_update_seq_blocks_def lift_res_def ret_def)
    with that held show thesis by blast
  next
    case (Some now)
    from gpu_mark_accessed [OF held ids, of now] obtain a1 where "da_mark_blocks_as_accessed (tb_physical_block_ids t) now (bm_alloc m) = (Inr (), a1)"
      "gpu_held H a1 (manager_blocks m)" "da_heap a1 = da_heap (bm_alloc m)" "da_block_size a1 = da_block_size (bm_alloc m)"
      "gpu_fixed a1 = gpu_fixed (bm_alloc m)" by blast
    with that [of a1] Some t la show thesis
      by (simp add: update_seq_blocks_last_access_def bind_act_def get_table_def dict_item_def gets_def la_update_seq_blocks_def lift_res_def
          on_alloc_def zoom_def comp_def)
  qed
  let ?rs = "bl_blocks (tb_blocks t)"
  have st: "gpu_state H (gpu_fixed a1) a1 (manager_blocks m)" by (rule gpu_state_held [OF a1(1)])
  have dist: "distinct ?rs" using tb(1) by (simp add: table_holds_def holds_tokens_def)
  from gpu.free_blocks [OF st dist tb(2)] obtain a2 hs2 where fr: "for_each (da_free H) ?rs a1 = (Inr (), a2)" "gpu_state H (gpu_fixed a1) a2 hs2"
    "set hs2 = set (manager_blocks m) - set ?rs" "da_block_size a2 = da_block_size a1"
    "same_objs (cpu_gpu_ops H) (set (manager_blocks m) - set ?rs) a1 a2" by auto
  let ?syn = "if forget then AList.delete sid (bm_synthetic_cached_tokens m) else bm_synthetic_cached_tokens m"
  let ?m = "m\<lparr>bm_alloc := a2, bm_block_tables := AList.delete sid (bm_block_tables m), bm_last_access := AList.delete sid (bm_last_access m),
     bm_tracker := tracker_remove_seq sid (bm_tracker m), bm_synthetic_cached_tokens := ?syn\<rparr>"
  have run: "release_sequence H forget sid m = (Inr (), ?m)"
    using acc la t fr(1)
    by (simp add: release_sequence_def bind_act_def on_last_access_def la_remove_seq_def zoom_def on_tracker_def modify_def on_table_def get_table_def
        dict_item_def tb_free_def gets_def on_store_def del_table_def ret_def update_delete_same)
  have wf: "dict_wf (bm_block_tables m)" using ok by (simp add: bm_ok_def tables_ok_def)
  have same: "da_heap a2 ! r = da_heap (bm_alloc m) ! r"
    if "k \<noteq> sid" "map_of (bm_block_tables m) k = Some u" "r \<in> set (bl_blocks (tb_blocks u))" for k u r
    using other_table_blocks [OF ok t that(2,1,3)] fr(5) a1(2) by (simp add: same_objs_def)
  have "manager_blocks ?m = dict_blocks (AList.delete sid (bm_block_tables m))" by (simp add: manager_blocks_def)
  moreover have "mset (dict_blocks (AList.delete sid (bm_block_tables m))) = mset hs2"
  proof (rule mset_rest [OF _ _ fr(3)])
    show "mset (dict_blocks (AList.delete sid (bm_block_tables m))) + mset ?rs = mset (manager_blocks m)"
      using dict_blocks_delete [OF t wf] by (simp add: manager_blocks_def)
    show "distinct (manager_blocks m)" by (rule gpu_held_facts(1) [OF held])
    show "distinct hs2" by (rule gpu.valid_distinct [OF fr(2)])
  qed
  ultimately have held2: "gpu_held H a2 (manager_blocks ?m)" using gpu_held_perm [of H a2 hs2] fr(2) by (simp add: gpu_state_def)
  have "tables_ok ?m"
  proof (rule tables_ok_step [of m _ sid])
    show "tables_ok m" using ok by (simp add: bm_ok_def)
    show "da_heap (bm_alloc ?m) ! r = da_heap (bm_alloc m) ! r"
      if "k \<noteq> sid" "map_of (bm_block_tables m) k = Some u" "r \<in> set (bl_blocks (tb_blocks u))" for k u r
      using same [OF that] by simp
  qed (use wf in \<open>auto simp: delete_conv split: if_splits\<close>)
  moreover have "da_block_size a2 = bm_block_size m" using fr(4) a1(3) ok by (simp add: bm_ok_def)
  ultimately have "bm_ok H ?m" using ok held2 by (auto simp: bm_ok_def delete_conv tracker_remove_seq_def)
  then show thesis using that [OF run] same fr(2) a1(4) by (simp add: gpu_state_def delete_conv)
qed

section \<open>Allocation\<close>

text \<open>What the tracker may know of a sequence before it is allocated: no more hashes than it has full
  blocks, and no cached tokens on the CPU.\<close>

definition tracker_ready :: "int \<Rightarrow> nat \<Rightarrow> tracker \<Rightarrow> bool" where
  "tracker_ready sid n tr \<longleftrightarrow> (\<forall>hs. map_of (tr_blocks_hashes tr) sid = Some hs \<longrightarrow> length hs * tr_block_size tr \<le> n)
     \<and> (\<forall>k. map_of (tr_num_tokens_computed tr) (sid, CPU) = Some k \<longrightarrow> k = 0)"

definition same_setting :: "tracker \<Rightarrow> tracker \<Rightarrow> bool" where
  "same_setting tr tr' \<longleftrightarrow> tr_enable_caching tr' = tr_enable_caching tr \<and> tr_block_size tr' = tr_block_size tr"

lemma update_seq_hashes_ok:
  assumes "tr_enable_caching tr" "0 < tr_block_size tr" "tracker_ready (sv_seq_id sq) (length (sv_token_ids sq)) tr"
  obtains tr' hs where "update_seq_hashes H sq tr = (Inr (), tr')" "same_setting tr tr'" "tr_num_tokens_computed tr' = tr_num_tokens_computed tr"
    "map_of (tr_blocks_hashes tr') (sv_seq_id sq) = Some hs" "tracker_ready (sv_seq_id sq) (length (sv_token_ids sq)) tr'"
proof -
  let ?bs = "tr_block_size tr" and ?toks = "sv_token_ids sq"
  define rec where "rec = (case map_of (tr_blocks_hashes tr) (sv_seq_id sq) of None \<Rightarrow> [] | Some hs \<Rightarrow> hs)"
  define hs where "hs = tracker_loop H ?bs (sv_extra_hash sq) ?toks [length rec..<length ?toks div ?bs] (if length rec = 0 then NONE_HASH else last rec) rec"
  have short: "length rec * ?bs \<le> length ?toks" using assms(3) by (auto simp: rec_def tracker_ready_def split: option.splits)
  then have "length rec \<le> length ?toks div ?bs" using assms(2) by (simp add: less_eq_div_iff_mult_less_eq)
  then have "length hs = length ?toks div ?bs" by (simp add: hs_def tracker_loop_chain)
  then have len: "length hs * ?bs \<le> length ?toks" by simp
  have "update_seq_hashes H sq tr = (Inr (), tr\<lparr>tr_blocks_hashes := AList.update (sv_seq_id sq) hs (tr_blocks_hashes tr)\<rparr>)"
    using assms(1,2) short by (simp add: update_seq_hashes_def Let_def rec_def [symmetric] hs_def not_less)
  with that len assms(3) show thesis by (simp add: same_setting_def tracker_ready_def)
qed

lemma bisect_all_false: "bisect_left (\<lambda>_. Inr False) xs 0 hi = Inr 0"
proof (induction hi rule: less_induct)
  case (less hi)
  show ?case
  proof (cases hi)
    case (Suc n)
    then have "hi div 2 < hi" by simp
    from less.IH [OF this] show ?thesis using Suc by (subst bisect_left.simps) (simp add: Let_def)
  qed (simp add: bisect_left.simps)
qed

definition cpu_cold :: "dev_alloc \<Rightarrow> bool" where
  "cpu_cold s \<longleftrightarrow> (case da_cpu s of Prefix p \<Rightarrow> pc_cached p = [] | Naive _ \<Rightarrow> True)"

lemma find_prefix_cpu_cold: "cpu_cold s \<Longrightarrow> da_find_cached_blocks_prefix hs CPU s = Inr []"
proof (cases "da_cpu s")
  case (Prefix p)
  moreover assume "cpu_cold s"
  ultimately have "hash_is_cached (p\<lparr>pc_hashless := (pc_hashless p)\<lparr>na_heap := da_heap s\<rparr>\<rparr>) = (\<lambda>_. Inr False)"
    by (simp add: cpu_cold_def hash_is_cached_def fun_eq_iff)
  with Prefix show ?thesis by (simp add: da_find_cached_blocks_prefix_def da_of_def find_cached_blocks_prefix_def bisect_all_false)
qed (simp add: da_find_cached_blocks_prefix_def da_of_def)

lemma find_prefix_gpu: "gpu_held H s hs \<Longrightarrow> \<exists>found. da_find_cached_blocks_prefix bhs GPU s = Inr found"
proof -
  assume "gpu_held H s hs"
  then obtain p where p: "da_of GPU s = Prefix p" "pc_inv H p hs" by (rule gpu_heldE)
  have good: "pc_good p" using p(2) by (simp add: pc_inv_def)
  have tot: "hash_is_cached p h = Inr (hash_is_cached p h = Inr True)" for h using hash_is_cached_total [OF good, of h] by auto
  have "\<exists>n. bisect_left (hash_is_cached p) bhs 0 (length bhs) = Inr n"
    using bisect_left_spec [of bhs "hash_is_cached p" "\<lambda>h. hash_is_cached p h = Inr True" 0 "length bhs"] tot by blast
  then show ?thesis using p(1) by (auto simp: da_find_cached_blocks_prefix_def find_cached_blocks_prefix_def)
qed

lemma cached_tokens_ok:
  assumes tr: "tr_enable_caching tr" "0 < tr_block_size tr" "tracker_ready (sv_seq_id sq) (length (sv_token_ids sq)) tr"
    and find: "\<And>hs. \<exists>found. find_prefix hs dev = Inr found" "dev = CPU \<Longrightarrow> (\<And>hs. find_prefix hs dev = Inr [])"
  obtains n tr' where "get_num_cached_tokens H find_prefix sq dev tr = (Inr n, tr')" "same_setting tr tr'"
    "tracker_ready (sv_seq_id sq) (length (sv_token_ids sq)) tr'" "dev = CPU \<Longrightarrow> n = 0"
proof -
  obtain tr1 hs where t1: "update_seq_hashes H sq tr = (Inr (), tr1)" "same_setting tr tr1" "tr_num_tokens_computed tr1 = tr_num_tokens_computed tr"
    "map_of (tr_blocks_hashes tr1) (sv_seq_id sq) = Some hs" "tracker_ready (sv_seq_id sq) (length (sv_token_ids sq)) tr1"
    by (rule update_seq_hashes_ok [OF tr])
  obtain found where f: "find_prefix hs dev = Inr found" using find(1) by blast
  show thesis
  proof (cases "\<exists>n. map_of (tr_num_tokens_computed tr1) (sv_seq_id sq, dev) = Some n \<and> sv_is_prefill sq")
    case True
    then obtain n where n: "map_of (tr_num_tokens_computed tr1) (sv_seq_id sq, dev) = Some n" "sv_is_prefill sq" by blast
    then have "get_num_cached_tokens H find_prefix sq dev tr = (Inr n, tr1)" using tr(1) t1(1) by (simp add: get_num_cached_tokens_def)
    moreover have "dev = CPU \<Longrightarrow> n = 0" using n(1) t1(5) by (auto simp: tracker_ready_def)
    ultimately show thesis using that t1(2,5) by blast
  next
    case False
    let ?n = "int (length found) * int (tr_block_size tr1)"
    let ?tr = "tr1\<lparr>tr_num_tokens_computed := AList.update (sv_seq_id sq, dev) ?n (tr_num_tokens_computed tr1)\<rparr>"
    have "get_num_cached_tokens H find_prefix sq dev tr = (Inr ?n, ?tr)"
      using False tr(1) t1(1,4) f by (auto simp: get_num_cached_tokens_def Let_def split: option.splits bool.splits)
    moreover have z: "dev = CPU \<Longrightarrow> ?n = 0" using find(2) f by auto
    moreover have "tracker_ready (sv_seq_id sq) (length (sv_token_ids sq)) ?tr"
      using t1(5) z by (cases dev) (auto simp: tracker_ready_def)
    ultimately show thesis using that [of ?n ?tr] t1(2) by (simp add: same_setting_def)
  qed
qed

lemma swap_in_not_needed:
  assumes tr: "tr_enable_caching (bm_tracker m)" "0 < tr_block_size (bm_tracker m)" "tracker_ready (sq_seq_id q) (length (seq_token_ids q)) (bm_tracker m)"
    and cach: "bm_enable_caching m" and held: "gpu_held H (bm_alloc m) hs" and cold: "cpu_cold (bm_alloc m)"
  obtains tr' where "swap_in_cpu_prefix_if_needed H hash_pair q m = (Inr [], m\<lparr>bm_tracker := tr'\<rparr>)" "same_setting (bm_tracker m) tr'"
    "tracker_ready (sq_seq_id q) (length (seq_token_ids q)) tr'"
proof -
  let ?sq = "seq_view_of hash_pair q" and ?find = "\<lambda>hs d. da_find_cached_blocks_prefix hs d (bm_alloc m)"
  have v: "sv_seq_id ?sq = sq_seq_id q" "sv_token_ids ?sq = seq_token_ids q" by (simp_all add: seq_view_of_def)
  note tr' = tr(3) [folded v]
  obtain n1 tr1 where 1: "get_num_cached_tokens H ?find ?sq GPU (bm_tracker m) = (Inr n1, tr1)" "same_setting (bm_tracker m) tr1"
    "tracker_ready (sv_seq_id ?sq) (length (sv_token_ids ?sq)) tr1"
    by (rule cached_tokens_ok [OF tr(1,2) tr', of ?find GPU]) (use find_prefix_gpu [OF held] in auto)
  have tr1: "tr_enable_caching tr1" "0 < tr_block_size tr1" using 1(2) tr(1,2) by (simp_all add: same_setting_def)
  obtain n2 tr2 where 2: "get_num_cached_tokens H ?find ?sq CPU tr1 = (Inr n2, tr2)" "same_setting tr1 tr2"
    "tracker_ready (sv_seq_id ?sq) (length (sv_token_ids ?sq)) tr2" "n2 = 0"
    by (rule cached_tokens_ok [OF tr1 1(3), of ?find CPU]) (use find_prefix_cpu_cold [OF cold] in auto)
  have "swap_in_cpu_prefix_if_needed H hash_pair q m = (Inr [], m\<lparr>bm_tracker := tr2\<rparr>)"
    using 1(1) 2(1,4) cach by (simp add: swap_in_cpu_prefix_if_needed_def bind_act_def gets_def bm_get_num_cached_tokens_def on_tracker_def zoom_def ret_def)
  with that [of tr2] 1(2) 2(2,3) v show thesis by (simp add: same_setting_def)
qed

lemma empty_table_facts:
  "tb_block_size (empty_table m) = bm_block_size m" "tb_max_block_sliding_window (empty_table m) = bm_max_block_sliding_window m"
  "\<not> tb_is_allocated (empty_table m)"
  by (simp_all add: empty_table_def tb_is_allocated_def)

definition new_request :: "seq_group \<Rightarrow> seq \<Rightarrow> manager \<Rightarrow> bool" where
  "new_request g q m \<longleftrightarrow> get_seqs (Some WAITING) g = [q] \<and> sg_encoder_seq g = None \<and> seq_token_ids q \<noteq> []
     \<and> map_of (bm_block_tables m) (sq_seq_id q) = None \<and> tracker_ready (sq_seq_id q) (length (seq_token_ids q)) (bm_tracker m)"

lemma allocate_request_run:
  assumes ok: "bm_ok H m" and new: "new_request g q m" and cold: "cpu_cold (bm_alloc m)"
    and al: "tb_allocate (cpu_gpu_ops H) (seq_token_ids q) GPU (seq_extra_hash hash_pair q) (empty_table m, bm_alloc m) = (Inr (), (t, a))"
  obtains m' where "bm_allocate H hash_pair g m = (Inr [], m')" "bm_ok H m'" "bm_alloc m' = a"
    "map_of (bm_block_tables m') = (map_of (bm_block_tables m))(sq_seq_id q \<mapsto> t)" "table_holds (da_heap a) t (seq_token_ids q)"
    "tracker_ready (sq_seq_id q) (length (seq_token_ids q)) (bm_tracker m')"
    "gpu_fixed a = gpu_fixed (bm_alloc m)" "length (bl_blocks (tb_blocks t)) = length (chunks (bm_block_size m) (seq_token_ids q))"
    "same_objs (cpu_gpu_ops H) (set (manager_blocks m)) (bm_alloc m) a"
    "bm_gpu_cached_entries m' = bm_gpu_cached_entries m" "bm_synthetic_cached_tokens m' = bm_synthetic_cached_tokens m"
    "bm_watermark_blocks m' = bm_watermark_blocks m"
proof -
  let ?sid = "sq_seq_id q"
  have n: "get_seqs (Some WAITING) g = [q]" "sg_encoder_seq g = None" "seq_token_ids q \<noteq> []" "map_of (bm_block_tables m) ?sid = None"
    "tracker_ready ?sid (length (seq_token_ids q)) (bm_tracker m)" using new by (simp_all add: new_request_def)
  have bs: "tb_block_size (empty_table m) = da_block_size (bm_alloc m)" using ok by (simp add: empty_table_facts bm_ok_def)
  note A = gpu.table_allocate [OF bm_ok_state [OF ok] bs al]
  have win: "tb_max_block_sliding_window t = None" using A(6) ok by (simp add: empty_table_facts bm_ok_def)
  have la: "map_of (bm_last_access m) ?sid = None" using ok n(4) unfolding bm_ok_def by (metis domIff)
  let ?m1 = "m\<lparr>bm_alloc := a, bm_block_tables := AList.update ?sid t (bm_block_tables m)\<rparr>"
  have perm: "mset (manager_blocks ?m1) = mset (rev (bl_blocks (tb_blocks t)) @ manager_blocks m)"
    using dict_blocks_update_new [OF n(4), of t] by (simp add: manager_blocks_def)
  have held1: "gpu_held H a (manager_blocks ?m1)" using gpu_held_perm [OF _ perm] A(1) by (simp add: gpu_state_def)
  have fx: "gpu_fixed a = gpu_fixed (bm_alloc m)" using A(1) by (simp add: gpu_state_def)
  then have cold1: "cpu_cold a" using cold by (simp add: cpu_cold_def gpu_fixed_def)
  obtain tr where sw: "swap_in_cpu_prefix_if_needed H hash_pair q ?m1 = (Inr [], ?m1\<lparr>bm_tracker := tr\<rparr>)" and tr: "same_setting (bm_tracker m) tr"
    "tracker_ready ?sid (length (seq_token_ids q)) tr"
    by (rule swap_in_not_needed [of ?m1 q H "manager_blocks ?m1" hash_pair]) (use ok held1 cold1 n(5) bm_ok_pos [OF ok] in \<open>simp_all add: bm_ok_def\<close>)
  let ?m = "?m1\<lparr>bm_tracker := tr, bm_last_access := AList.update ?sid None (bm_last_access m)\<rparr>"
  have "allocate_sequence H hash_pair q m = (Inr t, m\<lparr>bm_alloc := a\<rparr>)"
    using al n(3) by (simp add: allocate_sequence_def bind_act_def gets_def on_local_def ret_def)
  then have run: "bm_allocate H hash_pair g m = (Inr [], ?m)"
    using n(1,2,4) sw la ok by (simp add: bm_allocate_def Let_def bind_act_def gets_def check_def ret_def put_table_def modify_def on_last_access_def
        zoom_def la_add_seq_def lift_res_def check_no_caching_or_swa_def is_encoder_decoder_def bm_ok_def)
  have "tables_ok ?m"
  proof (rule tables_ok_step [of m _ ?sid])
    show "tables_ok m" using ok by (simp add: bm_ok_def)
    show "da_heap (bm_alloc ?m) ! r = da_heap (bm_alloc m) ! r"
      if "k \<noteq> ?sid" "map_of (bm_block_tables m) k = Some u" "r \<in> set (bl_blocks (tb_blocks u))" for k u r
      using A(5) dict_blocks_in [OF that(2)] that(3) by (auto simp: same_objs_def manager_blocks_def)
  qed (use ok A(2,3,4) win in \<open>auto simp: bm_ok_def tables_ok_def split: if_splits\<close>)
  moreover have "manager_blocks ?m = manager_blocks ?m1" by (simp add: manager_blocks_def)
  ultimately have "bm_ok H ?m" using ok held1 A(3,4) tr(1) by (simp add: bm_ok_def same_setting_def)
  moreover have "table_holds (da_heap a) t (seq_token_ids q)" using A(2) by simp
  moreover have "length (bl_blocks (tb_blocks t)) = length (chunks (bm_block_size m) (seq_token_ids q))" using A(7) ok by (simp add: bm_ok_def)
  ultimately show thesis using that [OF run] fx tr(2) A(5) by simp
qed

lemma allocate_request_Inr:
  assumes new: "new_request g q m" and run: "bm_allocate H hash_pair g m = (Inr swaps, m')"
  obtains t a where "tb_allocate (cpu_gpu_ops H) (seq_token_ids q) GPU (seq_extra_hash hash_pair q) (empty_table m, bm_alloc m) = (Inr (), (t, a))"
proof -
  have "\<exists>t m1. allocate_sequence H hash_pair q m = (Inr t, m1)"
    using run new by (auto simp: bm_allocate_def new_request_def Let_def bind_act_Inr_iff gets_def check_def ret_def raise_def split: if_splits)
  with that new show thesis
    by (auto simp: allocate_sequence_def bind_act_Inr_iff gets_def on_local_def new_request_def split: if_splits prod.splits sum.splits)
qed

end
