(* ===== verification/ManagerReach.thy ===== *)
theory ManagerReach
  imports ManagerInv
begin

text \<open>
  Histories of the block manager with prefix caching: requests with one sequence are admitted,
  grow, are marked, retained, consumed and freed. Forks, swapping to the CPU and cross-attention
  tables are outside these histories.
\<close>

section \<open>The invariant of a history\<close>

definition bm_inv :: "(string \<Rightarrow> int) \<Rightarrow> manager \<Rightarrow> bool" where
  "bm_inv H m \<longleftrightarrow> bm_ok H m \<and> cpu_cold (bm_alloc m) \<and> 0 \<le> bm_watermark_blocks m"

lemma cpu_cold_fixed: "gpu_fixed s' = gpu_fixed s \<Longrightarrow> cpu_cold s' \<longleftrightarrow> cpu_cold s"
  by (simp add: gpu_fixed_def cpu_cold_def)

lemma for_each_keeps:
  assumes "\<And>x s s'. I s \<Longrightarrow> f x s = (Inr (), s') \<Longrightarrow> I s'"
  shows "I s \<Longrightarrow> for_each f xs s = (Inr (), s') \<Longrightarrow> I s'"
proof (induction xs arbitrary: s)
  case Nil
  then show ?case by (simp add: ret_def)
next
  case (Cons x xs)
  then obtain s1 where "f x s = (Inr (), s1)" "for_each f xs s1 = (Inr (), s')" by (auto simp: bind_act_Inr_iff)
  with Cons assms show ?case by blast
qed

lemma release_inv:
  assumes "bm_inv H m" "map_of (bm_block_tables m) sid = Some t" "release_sequence H forget sid m = (Inr (), m')"
  shows "bm_inv H m'"
proof -
  have ok: "bm_ok H m" using assms(1) by (simp add: bm_inv_def)
  obtain m1 where m1: "release_sequence H forget sid m = (Inr (), m1)" "bm_ok H m1" "gpu_fixed (bm_alloc m1) = gpu_fixed (bm_alloc m)"
    "bm_watermark_blocks m1 = bm_watermark_blocks m" by (rule release_sequence_ok [OF ok assms(2)])
  with assms cpu_cold_fixed [OF m1(3)] show ?thesis by (simp add: bm_inv_def)
qed

lemma manager_free_inv:
  assumes "bm_inv H m" "bm_free H q m = (Inr (), m')"
  shows "bm_inv H m'"
  using assms release_inv [of H m "sq_seq_id q"]
  by (cases "map_of (bm_block_tables m) (sq_seq_id q)") (auto simp: bm_free_def bind_act_def gets_def ret_def)

lemma free_cached_seq_inv:
  assumes "bm_inv H m" "free_cached_seq H sid m = (Inr (), m')"
  shows "bm_inv H m'"
  using assms release_inv [of H m sid]
  by (cases "map_of (bm_block_tables m) sid") (auto simp: free_cached_seq_def bind_act_def gets_def ret_def)

lemma free_cached_seq_blocks_inv: "bm_inv H m \<Longrightarrow> free_cached_seq_blocks H sids m = (Inr (), m') \<Longrightarrow> bm_inv H m'"
  unfolding free_cached_seq_blocks_def by (rule for_each_keeps [of "bm_inv H"]) (rule free_cached_seq_inv)

lemma bm_inv_entries [simp]: "bm_inv H (m\<lparr>bm_gpu_cached_entries := e\<rparr>) \<longleftrightarrow> bm_inv H m"
  "bm_inv H (m\<lparr>bm_synthetic_cached_tokens := e2\<rparr>) \<longleftrightarrow> bm_inv H m"
  by (simp_all add: bm_inv_def)

lemma manager_evict_inv:
  assumes "bm_inv H m" "evict_cached_blocks H key m = (Inr (), m')"
  shows "bm_inv H m'"
  using assms(2) free_cached_seq_blocks_inv [of H "m\<lparr>bm_gpu_cached_entries := AList.delete key (bm_gpu_cached_entries m)\<rparr>"] assms(1)
  by (auto simp: evict_cached_blocks_def bind_act_def pop_gpu_entry_def ret_def split: option.splits)

lemma retain_inv:
  assumes "bm_inv H m" "retain_blocks H g m = (Inr (), m')"
  shows "bm_inv H m'"
  using assms(2) manager_evict_inv [OF assms(1)] assms(1)
  by (auto simp: retain_blocks_def bind_act_Inr_iff lift_res_def ret_def Let_def modify_def split: option.splits sum.splits)

lemma evict_request_inv:
  assumes "bm_inv H m" "evict_request H g m = (Inr (), m')"
  shows "bm_inv H m'"
  using assms(2) manager_evict_inv [OF assms(1)] assms(1)
  by (auto simp: evict_request_def bind_act_Inr_iff lift_res_def ret_def split: option.splits)

lemma consume_inv:
  assumes "bm_inv H m" "consume_gpu_cached_entry H qid ivid m = (Inr r, m')"
  shows "bm_inv H m'"
  using assms(2) free_cached_seq_blocks_inv [of H "m\<lparr>bm_gpu_cached_entries := AList.delete (qid, ivid) (bm_gpu_cached_entries m)\<rparr>"] assms(1)
  by (auto simp: consume_gpu_cached_entry_def bind_act_Inr_iff pop_gpu_entry_def ret_def split: option.splits)

section \<open>Marks\<close>

lemma gpu_mark_computed:
  assumes held: "gpu_held H s hs" and run: "da_mark_blocks_as_computed ids s = (Inr (), s')"
  shows "gpu_held H s' hs" "da_heap s' = da_heap s" "da_block_size s' = da_block_size s" "gpu_fixed s' = gpu_fixed s"
proof -
  obtain p where p: "da_of GPU s = Prefix p" "pc_inv H p hs" "no_none H" "da_null s = None" "da_heap s = na_heap (pc_hashless p)"
    "da_block_size s = na_block_size (pc_hashless p)" by (rule gpu_heldE [OF held])
  obtain p' where r: "pc_mark_blocks_as_computed ids p = (Inr (), p')" and s': "s' = da_put GPU (Prefix p') s"
    using run by (auto simp: da_mark_blocks_as_computed_def da_mark_blocks_as_computed_on_device_def on_dev_gpu_Inr [OF p(1)])
  have k: "ids_kept p p'" by (rule mark_blocks_as_computed_kept [OF _ r]) (use p(2) in \<open>simp add: pc_inv_def\<close>)
  show "gpu_held H s' hs" unfolding s' by (rule gpu_held_put [OF p(3,4) ids_kept_inv [OF k p(2)]])
  show "da_heap s' = da_heap s" "da_block_size s' = da_block_size s" using k p(5,6) by (simp_all add: s' ids_kept_def)
  show "gpu_fixed s' = gpu_fixed s"
    using k gpu_total [OF p(1)] gpu_total [of s' p'] by (simp add: s' gpu_fixed_def ids_kept_def)
qed

lemma bm_inv_alloc:
  assumes "bm_inv H m" "gpu_held H a (manager_blocks m)" "da_heap a = da_heap (bm_alloc m)" "da_block_size a = da_block_size (bm_alloc m)"
    "gpu_fixed a = gpu_fixed (bm_alloc m)"
  shows "bm_inv H (m\<lparr>bm_alloc := a\<rparr>)"
  using assms cpu_cold_fixed [OF assms(5)] by (simp add: bm_inv_def bm_ok_def tables_ok_def manager_blocks_def)

lemma mark_computed_inv:
  assumes "bm_inv H m" "on_alloc (da_mark_blocks_as_computed ids) m = (Inr (), m')"
  shows "bm_inv H m'"
proof -
  obtain a where a: "da_mark_blocks_as_computed ids (bm_alloc m) = (Inr (), a)" "m' = m\<lparr>bm_alloc := a\<rparr>"
    using assms(2) by (auto simp: on_alloc_def zoom_def split: prod.splits)
  have held: "gpu_held H (bm_alloc m) (manager_blocks m)" using assms(1) by (simp add: bm_inv_def bm_ok_def)
  from bm_inv_alloc [OF assms(1) gpu_mark_computed [OF held a(1)]] show ?thesis by (simp add: a(2))
qed

lemma mark_group_computed_inv:
  assumes "bm_inv H m" "bm_mark_blocks_as_computed g n m = (Inr (), m')"
  shows "bm_inv H m'"
proof -
  have "bm_inv H s'" if "bm_inv H s" "mark_seq_as_computed n q s = (Inr (), s')" for q s s'
    using that mark_computed_inv [of H s]
    by (auto simp: mark_seq_as_computed_def bind_act_def gets_def ret_def raise_def Let_def split: option.splits if_splits)
  then show ?thesis using assms for_each_keeps [of "bm_inv H" "mark_seq_as_computed n"] unfolding bm_mark_blocks_as_computed_def by blast
qed

lemma synthetic_inv:
  assumes "bm_inv H m" "register_synthetic_cached_tokens q n m = (Inr k, m')"
  shows "bm_inv H m'"
  using assms mark_computed_inv [of H "m\<lparr>bm_synthetic_cached_tokens := e\<rparr>" for e]
  by (auto simp: register_synthetic_cached_tokens_def bind_act_Inr_iff gets_def ret_def raise_def modify_def Let_def split: option.splits if_splits)

lemma access_inv:
  assumes "bm_inv H m" "access_all_blocks_in_seq q now m = (Inr (), m')"
  shows "bm_inv H m'"
proof (cases "bm_enable_caching m")
  case True
  then obtain y where y: "map_of (bm_last_access m) (sq_seq_id q) = Some y"
    and m': "m' = m\<lparr>bm_last_access := AList.update (sq_seq_id q) (Some now) (bm_last_access m)\<rparr>"
    using assms(2) by (auto simp: access_all_blocks_in_seq_def bind_act_def gets_def on_last_access_def zoom_def la_update_last_access_def split: if_splits)
  have "insert (sq_seq_id q) (dom (map_of (bm_last_access m))) = dom (map_of (bm_last_access m))" using y by auto
  then have "dom (map_of (bm_last_access m')) = dom (map_of (bm_last_access m))" by (simp add: m')
  with assms(1) show ?thesis by (simp add: m' bm_inv_def bm_ok_def tables_ok_def manager_blocks_def)
qed (use assms in \<open>simp add: access_all_blocks_in_seq_def bind_act_def gets_def ret_def\<close>)

section \<open>Histories\<close>

text \<open>A table may be extended for a sequence whose tokens start with what the table stores.\<close>

inductive bm_reach :: "(string \<Rightarrow> int) \<Rightarrow> (int \<times> int \<Rightarrow> int) \<Rightarrow> manager \<Rightarrow> bool" for H hash_pair where
  new: "bm_new reserved bs num_gpu num_cpu watermark None True = Inr m \<Longrightarrow> reserved < num_gpu \<Longrightarrow> 0 < bs \<Longrightarrow> bm_reach H hash_pair m"
| allocate: "bm_reach H hash_pair m \<Longrightarrow> new_request g q m \<Longrightarrow> bm_allocate H hash_pair g m = (Inr swaps, m') \<Longrightarrow> bm_reach H hash_pair m'"
| append: "bm_reach H hash_pair m \<Longrightarrow> map_of (bm_block_tables m) (sq_seq_id q) = Some t \<Longrightarrow>
    seq_token_ids q = get_all_token_ids (da_heap (bm_alloc m)) t @ ys \<Longrightarrow>
    append_slots H hash_pair q lookahead m = (Inr cows, m') \<Longrightarrow> bm_reach H hash_pair m'"
| free: "bm_reach H hash_pair m \<Longrightarrow> bm_free H q m = (Inr (), m') \<Longrightarrow> bm_reach H hash_pair m'"
| accessed: "bm_reach H hash_pair m \<Longrightarrow> access_all_blocks_in_seq q now m = (Inr (), m') \<Longrightarrow> bm_reach H hash_pair m'"
| computed: "bm_reach H hash_pair m \<Longrightarrow> bm_mark_blocks_as_computed g n m = (Inr (), m') \<Longrightarrow> bm_reach H hash_pair m'"
| synthetic: "bm_reach H hash_pair m \<Longrightarrow> register_synthetic_cached_tokens q n m = (Inr k, m') \<Longrightarrow> bm_reach H hash_pair m'"
| retain: "bm_reach H hash_pair m \<Longrightarrow> retain_blocks H g m = (Inr (), m') \<Longrightarrow> bm_reach H hash_pair m'"
| consume: "bm_reach H hash_pair m \<Longrightarrow> consume_gpu_cached_entry H qid ivid m = (Inr r, m') \<Longrightarrow> bm_reach H hash_pair m'"
| evict: "bm_reach H hash_pair m \<Longrightarrow> free_request_cache H g m = (Inr (), m') \<Longrightarrow> bm_reach H hash_pair m'"

lemma trunc_rat_nonneg: "0 \<le> r \<Longrightarrow> 0 \<le> trunc_rat r"
  by (simp add: trunc_rat_def)

lemma bm_new_inv:
  assumes "bm_new reserved bs num_gpu num_cpu watermark None True = Inr m" "reserved < num_gpu" "0 < bs" "no_none H"
  shows "bm_inv H m"
proof -
  obtain a where wm: "0 \<le> watermark" and a: "da_create reserved ''prefix_caching'' num_gpu num_cpu bs = Inr a"
    and m: "m = \<lparr>bm_block_size = bs, bm_num_total_gpu_blocks = num_gpu, bm_num_total_cpu_blocks = num_cpu, bm_max_block_sliding_window = None,
      bm_enable_caching = True, bm_watermark_blocks = trunc_rat (watermark * rat_of_nat num_gpu), bm_alloc = a, bm_block_tables = [],
      bm_cross_block_tables = [], bm_tracker = tracker_new bs True, bm_last_access = [], bm_synthetic_cached_tokens = [], bm_gpu_cached_entries = []\<rparr>"
    using assms(1) by (auto simp: bm_new_def bind_res_Inr_iff split: if_splits)
  have "cpu_cold a" using a by (auto simp: da_create_def Let_def bind_res_Inr_iff da_init_def pc_new_def cpu_cold_def split: if_splits)
  then show ?thesis using da_create_held [OF a assms(2,3,4)] wm trunc_rat_nonneg [of "watermark * rat_of_nat num_gpu"]
    by (simp add: m bm_inv_def bm_ok_def tables_ok_def manager_blocks_def tracker_new_def)
qed

lemma manager_allocate_inv:
  assumes "bm_inv H m" "new_request g q m" "bm_allocate H hash_pair g m = (Inr swaps, m')"
  shows "bm_inv H m'"
proof -
  have ok: "bm_ok H m" "cpu_cold (bm_alloc m)" using assms(1) by (simp_all add: bm_inv_def)
  obtain t a where al: "tb_allocate (cpu_gpu_ops H) (seq_token_ids q) GPU (seq_extra_hash hash_pair q) (empty_table m, bm_alloc m) = (Inr (), (t, a))"
    by (rule allocate_request_Inr [OF assms(2,3)])
  obtain m1 where m1: "bm_allocate H hash_pair g m = (Inr [], m1)" "bm_ok H m1" "bm_alloc m1 = a" "gpu_fixed a = gpu_fixed (bm_alloc m)"
    "bm_watermark_blocks m1 = bm_watermark_blocks m" by (rule allocate_request_run [OF ok(1) assms(2) ok(2) al])
  with assms cpu_cold_fixed [OF m1(4)] show ?thesis by (simp add: bm_inv_def)
qed

lemma manager_append_inv:
  assumes "bm_inv H m" "map_of (bm_block_tables m) (sq_seq_id q) = Some t" "seq_token_ids q = get_all_token_ids (da_heap (bm_alloc m)) t @ ys"
    "append_slots H hash_pair q lookahead m = (Inr cows, m')"
  shows "bm_inv H m'"
proof -
  have ok: "bm_ok H m" using assms(1) by (simp add: bm_inv_def)
  obtain xs where xs: "table_holds (da_heap (bm_alloc m)) t xs" using bm_ok_table [OF ok assms(2)] by metis
  have toks: "seq_token_ids q = xs @ ys" using assms(3) get_all_token_ids_holds [OF xs] by simp
  obtain t' where t': "bm_ok H m'" "gpu_fixed (bm_alloc m') = gpu_fixed (bm_alloc m)" "bm_watermark_blocks m' = bm_watermark_blocks m"
    by (rule append_slots_ok [OF ok assms(2) xs toks assms(4)]) blast
  with assms(1) cpu_cold_fixed [OF t'(2)] show ?thesis by (simp add: bm_inv_def)
qed

lemma bm_reach_inv: "bm_reach H hash_pair m \<Longrightarrow> no_none H \<Longrightarrow> bm_inv H m"
proof (induction rule: bm_reach.induct)
  case (new reserved bs num_gpu num_cpu watermark m)
  then show ?case by (blast intro: bm_new_inv)
next
  case (allocate m g q swaps m')
  then show ?case by (blast intro: manager_allocate_inv)
next
  case (append m q t ys lookahead cows m')
  then show ?case by (blast intro: manager_append_inv)
next
  case (evict m g m')
  then show ?case using evict_request_inv by (simp add: free_request_cache_def)
qed (blast intro: manager_free_inv access_inv mark_group_computed_inv synthetic_inv retain_inv consume_inv)+

end
