(* ===== verification/ManagerSpec.thy ===== *)
theory ManagerSpec
  imports ManagerReach
begin

text \<open>
  What the block manager promises to the scheduler: every block is accounted for, a request that
  was admitted is stored, a running request for which there is room grows, a freed or consumed
  request leaves nothing behind.
\<close>

section \<open>Accounting\<close>

lemma dict_blocks_set: "dict_wf d \<Longrightarrow> set (dict_blocks d) = {r. \<exists>sid t. map_of d sid = Some t \<and> r \<in> set (bl_blocks (tb_blocks t))}"
  by (force simp: dict_blocks_def dict_wf_map_of [symmetric])

definition table_ids :: "manager \<Rightarrow> block_id set" where
  "table_ids m = {i. \<exists>sid t. map_of (bm_block_tables m) sid = Some t \<and> i \<in> set (tb_physical_block_ids t)}"

lemma table_ids_held_ids:
  assumes ok: "bm_ok H m" and p: "da_heap (bm_alloc m) = na_heap (pc_hashless p)"
  shows "held_ids p (manager_blocks m) = table_ids m"
proof -
  have wf: "dict_wf (bm_block_tables m)" using ok by (simp add: bm_ok_def tables_ok_def)
  have ids: "Some ` set (tb_physical_block_ids t) = (\<lambda>r. b_block_id (pc_obj p r)) ` set (bl_blocks (tb_blocks t))"
    if t: "map_of (bm_block_tables m) sid = Some t" for sid t
  proof -
    obtain xs where "table_holds (da_heap (bm_alloc m)) t xs" using bm_ok_table [OF ok t] by metis
    then have "map Some (tb_physical_block_ids t) = map (\<lambda>r. b_block_id (pc_obj p r)) (bl_blocks (tb_blocks t))"
      using p by (simp add: table_holds_def ids_current_def tb_physical_block_ids_def)
    then show ?thesis by (metis list.set_map)
  qed
  have "i \<in> held_ids p (manager_blocks m) \<longleftrightarrow> i \<in> table_ids m" for i
  proof -
    have "i \<in> held_ids p (manager_blocks m) \<longleftrightarrow>
        (\<exists>sid t. map_of (bm_block_tables m) sid = Some t \<and> Some i \<in> (\<lambda>r. b_block_id (pc_obj p r)) ` set (bl_blocks (tb_blocks t)))"
      unfolding held_ids_def manager_blocks_def dict_blocks_set [OF wf] by (force simp: image_iff)
    also have "\<dots> \<longleftrightarrow> (\<exists>sid t. map_of (bm_block_tables m) sid = Some t \<and> Some i \<in> Some ` set (tb_physical_block_ids t))"
      using ids by metis
    finally show ?thesis by (auto simp: table_ids_def)
  qed
  then show ?thesis by blast
qed

lemma accounted:
  assumes "bm_reach H hash_pair m" "no_none H"
  shows "get_num_free_gpu_blocks m + card (table_ids m) = da_num_total GPU (bm_alloc m)"
proof -
  have ok: "bm_ok H m" using bm_reach_inv [OF assms] by (simp add: bm_inv_def)
  then have "gpu_held H (bm_alloc m) (manager_blocks m)" by (simp add: bm_ok_def)
  then obtain p where p: "da_of GPU (bm_alloc m) = Prefix p" "pc_inv H p (manager_blocks m)" "da_heap (bm_alloc m) = na_heap (pc_hashless p)"
    by (rule gpu_heldE)
  show ?thesis using num_free_held [OF p(2)] table_ids_held_ids [OF ok p(3)] gpu_total [OF p(1)] p(1)
    by (simp add: get_num_free_gpu_blocks_def da_num_free_def al_num_free_def pc_num_total_blocks_def na_num_total_blocks_def)
qed


section \<open>Admission\<close>

lemma can_allocate_room:
  assumes inv: "bm_inv H m" and new: "new_request g q m" and adm: "can_allocate H hash_pair g lookahead m = Inr OK"
  obtains n where "da_num_new_blocks_needed H (seq_token_ids q) (seq_extra_hash hash_pair q) lookahead (int (bm_block_size m)) (bm_alloc m) = Inr n"
    "n \<le> int (da_num_free GPU (bm_alloc m))"
proof -
  have "bm_max_block_sliding_window m = None" "0 \<le> bm_watermark_blocks m" using inv by (simp_all add: bm_inv_def bm_ok_def)
  with that new adm show thesis
    by (auto simp: can_allocate_def new_request_def bind_res_Inr_iff Let_def split: if_splits)
qed

lemma room_allocates:
  assumes inv: "bm_inv H m" and rd: "gpu_ready (bm_alloc m)" and new: "new_request g q m" and adm: "can_allocate H hash_pair g lookahead m = Inr OK"
  obtains t a where "tb_allocate (cpu_gpu_ops H) (seq_token_ids q) GPU (seq_extra_hash hash_pair q) (empty_table m, bm_alloc m) = (Inr (), (t, a))"
    "gpu_ready a"
proof -
  have ok: "bm_ok H m" using inv by (simp add: bm_inv_def)
  obtain n where n: "da_num_new_blocks_needed H (seq_token_ids q) (seq_extra_hash hash_pair q) lookahead (int (bm_block_size m)) (bm_alloc m) = Inr n"
    "n \<le> int (da_num_free GPU (bm_alloc m))" by (rule can_allocate_room [OF inv new adm])
  have held: "gpu_held H (bm_alloc m) (manager_blocks m)" and bs: "tb_block_size (empty_table m) = da_block_size (bm_alloc m)"
    using ok by (simp_all add: bm_ok_def empty_table_facts)
  have "seq_token_ids q \<noteq> []" using new by (simp add: new_request_def)
  from needed_blocks_suffice [OF held rd bs empty_table_facts(3) this n] that show thesis by blast
qed


lemma map_res_singleton: "map_res f [x] = Inr ns \<longleftrightarrow> (\<exists>n. f x = Inr n \<and> ns = [n])"
  by (auto split: sum.splits)


section \<open>Release and retention\<close>

lemma table_ids_cong: "map_of (bm_block_tables m') = map_of (bm_block_tables m) \<Longrightarrow> table_ids m' = table_ids m"
  by (simp add: table_ids_def)

text \<open>
  C14. Allocating a request and freeing it again is without a trace: \<open>free\<close> succeeds, the dictionary of
  block tables is the one before the allocation, the entries of the sequence are gone from the
  table of access times and of synthetic tokens, and as many GPU blocks are free as before.
\<close>

theorem freed_request_leaves_nothing:
  assumes reach: "bm_reach H hash_pair m" "no_none H" and new: "new_request g q m"
    and run: "bm_allocate H hash_pair g m = (Inr swaps, m1)"
  shows "\<exists>m2. bm_free H q m1 = (Inr (), m2) \<and> map_of (bm_block_tables m2) = map_of (bm_block_tables m)
    \<and> map_of (bm_last_access m2) (sq_seq_id q) = None \<and> map_of (bm_synthetic_cached_tokens m2) (sq_seq_id q) = None
    \<and> get_num_free_gpu_blocks m2 = get_num_free_gpu_blocks m"
proof -
  have inv: "bm_inv H m" by (rule bm_reach_inv [OF reach])
  then have ok: "bm_ok H m" "cpu_cold (bm_alloc m)" by (simp_all add: bm_inv_def)
  obtain t a where al: "tb_allocate (cpu_gpu_ops H) (seq_token_ids q) GPU (seq_extra_hash hash_pair q) (empty_table m, bm_alloc m) = (Inr (), (t, a))"
    by (rule allocate_request_Inr [OF new run])
  obtain m' where m': "bm_allocate H hash_pair g m = (Inr [], m')" "bm_ok H m'" "bm_alloc m' = a"
    "map_of (bm_block_tables m') = (map_of (bm_block_tables m))(sq_seq_id q \<mapsto> t)" "gpu_fixed a = gpu_fixed (bm_alloc m)"
    by (rule allocate_request_run [OF ok(1) new ok(2) al]) blast
  have [simp]: "m' = m1" using m'(1) run by simp
  have t: "map_of (bm_block_tables m1) (sq_seq_id q) = Some t" using m'(4) by simp
  obtain m2 where m2: "release_sequence H True (sq_seq_id q) m1 = (Inr (), m2)"
    "map_of (bm_block_tables m2) = (map_of (bm_block_tables m1))(sq_seq_id q := None)"
    "map_of (bm_last_access m2) = (map_of (bm_last_access m1))(sq_seq_id q := None)"
    "bm_synthetic_cached_tokens m2 = AList.delete (sq_seq_id q) (bm_synthetic_cached_tokens m1)"
    "gpu_fixed (bm_alloc m2) = gpu_fixed (bm_alloc m1)"
    by (rule release_sequence_ok [OF m'(2) [simplified] t, of True]) simp
  have free: "bm_free H q m1 = (Inr (), m2)" using t m2(1) by (simp add: bm_free_def bind_act_def gets_def)
  have "bm_reach H hash_pair m2" by (rule bm_reach.free [OF bm_reach.allocate [OF reach(1) new run] free])
  note acc = accounted [OF this reach(2)] accounted [OF reach]
  have tables: "map_of (bm_block_tables m2) = map_of (bm_block_tables m)" using m2(2) m'(4) new by (auto simp: new_request_def)
  moreover have "get_num_free_gpu_blocks m2 = get_num_free_gpu_blocks m"
    using acc table_ids_cong [OF tables] m2(5) m'(3,5) by (simp add: gpu_fixed_def)
  ultimately show ?thesis using free m2(3,4) by (simp add: delete_conv')
qed

lemma free_cached_seq_run:
  assumes inv: "bm_inv H m"
  obtains m' where "free_cached_seq H sid m = (Inr (), m')" "bm_inv H m'" "map_of (bm_block_tables m') = (map_of (bm_block_tables m))(sid := None)"
    "bm_gpu_cached_entries m' = bm_gpu_cached_entries m" "bm_synthetic_cached_tokens m' = bm_synthetic_cached_tokens m"
proof (cases "map_of (bm_block_tables m) sid")
  case None
  then have "(map_of (bm_block_tables m))(sid := None) = map_of (bm_block_tables m)" by auto
  with None inv that [of m] show thesis by (simp add: free_cached_seq_def bind_act_def gets_def ret_def)
next
  case (Some t)
  have ok: "bm_ok H m" using inv by (simp add: bm_inv_def)
  obtain m' where m': "release_sequence H False sid m = (Inr (), m')" "map_of (bm_block_tables m') = (map_of (bm_block_tables m))(sid := None)"
    "bm_gpu_cached_entries m' = bm_gpu_cached_entries m" "bm_synthetic_cached_tokens m' = bm_synthetic_cached_tokens m"
    by (rule release_sequence_ok [OF ok Some, of False]) simp
  with Some have run: "free_cached_seq H sid m = (Inr (), m')" by (simp add: free_cached_seq_def bind_act_def gets_def)
  from that [OF run free_cached_seq_inv [OF inv run] m'(2-4)] show thesis .
qed

lemma free_cached_seq_blocks_run:
  "bm_inv H m \<Longrightarrow> \<exists>m'. free_cached_seq_blocks H sids m = (Inr (), m') \<and> bm_inv H m'
     \<and> map_of (bm_block_tables m') = map_of (bm_block_tables m) |` (- set sids)
     \<and> bm_gpu_cached_entries m' = bm_gpu_cached_entries m \<and> bm_synthetic_cached_tokens m' = bm_synthetic_cached_tokens m"
proof (induction sids arbitrary: m)
  case Nil
  then show ?case by (simp add: free_cached_seq_blocks_def ret_def)
next
  case (Cons sid sids)
  obtain m1 where m1: "free_cached_seq H sid m = (Inr (), m1)" "bm_inv H m1" "map_of (bm_block_tables m1) = (map_of (bm_block_tables m))(sid := None)"
    "bm_gpu_cached_entries m1 = bm_gpu_cached_entries m" "bm_synthetic_cached_tokens m1 = bm_synthetic_cached_tokens m"
    by (rule free_cached_seq_run [OF Cons.prems])
  have "map_of (bm_block_tables m1) |` (- set sids) = map_of (bm_block_tables m) |` (- set (sid # sids))"
    unfolding m1(3) by (auto simp: restrict_map_def fun_eq_iff)
  with Cons.IH [OF m1(2)] m1(1,4,5) show ?case by (auto simp: free_cached_seq_blocks_def bind_act_def)
qed

lemma evict_cached_blocks_run:
  assumes inv: "bm_inv H m"
  obtains m' where "evict_cached_blocks H key m = (Inr (), m')" "bm_inv H m'" "map_of (bm_gpu_cached_entries m') = (map_of (bm_gpu_cached_entries m))(key := None)"
    "\<And>sid u. map_of (bm_block_tables m') sid = Some u \<Longrightarrow> map_of (bm_block_tables m) sid = Some u"
proof -
  let ?m = "m\<lparr>bm_gpu_cached_entries := AList.delete key (bm_gpu_cached_entries m)\<rparr>"
  have inv': "bm_inv H ?m" using inv by simp
  show thesis
  proof (cases "map_of (bm_gpu_cached_entries m) key")
    case None
    then have "evict_cached_blocks H key m = (Inr (), ?m)" by (simp add: evict_cached_blocks_def bind_act_def pop_gpu_entry_def ret_def)
    from that [OF this inv'] show thesis by (simp add: delete_conv)
  next
    case (Some e)
    then obtain rid sids toks where e: "map_of (bm_gpu_cached_entries m) key = Some (rid, sids, toks)" by (cases e) simp
    from free_cached_seq_blocks_run [OF inv', of sids] obtain m' where m': "free_cached_seq_blocks H sids ?m = (Inr (), m')" "bm_inv H m'"
      "map_of (bm_block_tables m') = map_of (bm_block_tables m) |` (- set sids)" "bm_gpu_cached_entries m' = AList.delete key (bm_gpu_cached_entries m)"
      by auto
    then have "evict_cached_blocks H key m = (Inr (), m')" using e by (simp add: evict_cached_blocks_def bind_act_def pop_gpu_entry_def)
    then show thesis by (rule that [OF _ m'(2)]) (auto simp: m'(3,4) delete_conv restrict_map_def split: if_splits)
  qed
qed

text \<open>
  C15. A finished request that is retained under its query and invocation can be looked up and consumed:
  both return its request identifier and its tokens, and after it was consumed neither the entry nor
  the block tables of its sequences exist, while the tokens of other entries are still there.
\<close>

theorem retained_entry_round_trip:
  assumes reach: "bm_reach H hash_pair m" "no_none H" and key: "request_key g = Inr (Some (qid, ivid))"
    and seqs: "sg_seqs g = q # qs" "list_all seq_is_finished (sg_seqs g)" "seq_token_ids q \<noteq> []"
  shows "\<exists>m1 m2. retain_blocks H g m = (Inr (), m1) \<and> get_gpu_cached_entry qid ivid m1 = Some (sg_request_id g, seq_token_ids q)
    \<and> consume_gpu_cached_entry H qid ivid m1 = (Inr (Some (sg_request_id g, seq_token_ids q)), m2)
    \<and> map_of (bm_gpu_cached_entries m2) = (map_of (bm_gpu_cached_entries m))((qid, ivid) := None)
    \<and> (\<forall>p \<in> set (sg_seqs g). map_of (bm_block_tables m2) (sq_seq_id p) = None)"
proof -
  have inv: "bm_inv H m" by (rule bm_reach_inv [OF reach])
  obtain m0 where m0: "evict_cached_blocks H (qid, ivid) m = (Inr (), m0)" "bm_inv H m0"
    "map_of (bm_gpu_cached_entries m0) = (map_of (bm_gpu_cached_entries m))((qid, ivid) := None)" by (rule evict_cached_blocks_run [OF inv])
  have fin: "filter seq_is_finished (get_seqs None g) = sg_seqs g" using seqs(2) by (simp add: get_seqs_def list_all_iff filter_id_conv)
  let ?e = "(sg_request_id g, map sq_seq_id (sg_seqs g), seq_token_ids q)"
  define m1 where "m1 = m0\<lparr>bm_gpu_cached_entries := AList.update (qid, ivid) ?e (bm_gpu_cached_entries m0)\<rparr>"
  have keep: "retain_blocks H g m = (Inr (), m1)"
    using key m0(1) seqs(3) fin by (simp add: retain_blocks_def bind_act_def lift_res_def Let_def modify_def m1_def seqs(1))
  let ?m = "m1\<lparr>bm_gpu_cached_entries := AList.delete (qid, ivid) (bm_gpu_cached_entries m1)\<rparr>"
  have "bm_inv H ?m" using m0(2) by (simp add: m1_def)
  from free_cached_seq_blocks_run [OF this, of "map sq_seq_id (sg_seqs g)"] obtain m2 where
    m2: "free_cached_seq_blocks H (map sq_seq_id (sg_seqs g)) ?m = (Inr (), m2)"
    "map_of (bm_block_tables m2) = map_of (bm_block_tables m1) |` (- set (map sq_seq_id (sg_seqs g)))"
    "bm_gpu_cached_entries m2 = AList.delete (qid, ivid) (bm_gpu_cached_entries m1)" by auto
  have entry: "map_of (bm_gpu_cached_entries m1) (qid, ivid) = Some ?e" by (simp add: m1_def)
  with m2(1) have "consume_gpu_cached_entry H qid ivid m1 = (Inr (Some (sg_request_id g, seq_token_ids q)), m2)"
    by (simp add: consume_gpu_cached_entry_def bind_act_def pop_gpu_entry_def ret_def)
  moreover have "map_of (bm_gpu_cached_entries m2) = (map_of (bm_gpu_cached_entries m))((qid, ivid) := None)"
    using m0(3) by (simp add: m2(3) m1_def delete_conv update_delete_same)
  ultimately show ?thesis using keep entry m2(2) by (simp add: get_gpu_cached_entry_def restrict_map_def)
qed

section \<open>A small history\<close>

definition demo_manager :: manager where
  "demo_manager = (case bm_new 0 2 4 2 0 None True of Inr m \<Rightarrow> m | Inl _ \<Rightarrow> undefined)"

definition demo_seq :: "int list \<Rightarrow> seq_status \<Rightarrow> seq" where
  "demo_seq toks st = (seq_new 7 toks 2 0 0)\<lparr>sq_status := st\<rparr>"

definition demo_group :: "int list \<Rightarrow> seq_status \<Rightarrow> seq_group" where
  "demo_group toks st =
     (case seq_group_new ''r1'' [demo_seq toks st] 0 (Some [(''query_id'', JInt 5), (''invocation_id'', JInt 6)]) None 0 of
        Inr g \<Rightarrow> g | Inl _ \<Rightarrow> undefined)"

lemma demo_group_facts [simp]:
  "sg_seqs (demo_group toks st) = [demo_seq toks st]" "sg_encoder_seq (demo_group toks st) = None" "sg_request_id (demo_group toks st) = ''r1''"
  "sq_seq_id (demo_seq toks st) = 7" "seq_token_ids (demo_seq toks st) = toks" "get_seqs (Some st) (demo_group toks st) = [demo_seq toks st]"
  "seq_extra_hash hp (demo_seq toks st) = None" "seq_is_finished (demo_seq toks st) = status_is_finished st"
  "request_key (demo_group toks st) = Inr (Some (5, 6))"
  by (simp_all add: demo_group_def seq_group_new_def demo_seq_def seq_new_def seq_token_ids_def sd_from_seqs_def update_cached_all_tokens_def
      get_seqs_def is_single_seq_def first_seq_def seq_extra_hash_def seq_is_finished_def request_key_def bind_res_def)

lemma demo_manager_run: "bm_new 0 2 4 2 0 None True = Inr demo_manager" "bm_alloc demo_manager = demo_da" "bm_block_tables demo_manager = []"
  "bm_tracker demo_manager = tracker_new 2 True" "bm_block_size demo_manager = 2" "bm_num_total_gpu_blocks demo_manager = 4"
  "bm_watermark_blocks demo_manager = 0" "bm_max_block_sliding_window demo_manager = None"
  by (simp_all add: demo_manager_def bm_new_def bind_res_def demo_da_run trunc_rat_def)

lemma demo_manager_reach: "bm_reach digits_digest hp demo_manager"
  by (rule bm_reach.new [OF demo_manager_run(1)]) simp_all

lemma demo_new_request: "new_request (demo_group [1, 2, 3] WAITING) (demo_seq [1, 2, 3] WAITING) demo_manager"
  by (simp add: new_request_def demo_manager_run tracker_ready_def tracker_new_def)

lemma demo_admitted: "can_allocate digits_digest hp (demo_group [1, 2, 3] WAITING) 0 demo_manager = Inr OK"
proof -
  obtain p where p: "da_of GPU demo_da = Prefix p" "na_block_size (pc_hashless p) = 2"
    using demo_da_held(1,3) by (metis gpu_heldE)
  define k where "k = count_new_loop digits_digest p 2 None None (chunks 2 [1, 2, 3])"
  have k: "k \<le> 2" using count_new_loop_le [of digits_digest p 2 None None "chunks 2 [1, 2, 3]"] by (simp add: k_def chunks_step)
  have "da_num_new_blocks_needed digits_digest [1, 2, 3] None 0 2 demo_da = Inr (int k)"
    using p by (simp add: da_num_new_blocks_needed_def bind_res_def cdiv_def count_new_blocks_for_token_ids_def Let_def k_def)
  then show ?thesis using k demo_da_held(4)
    by (simp add: can_allocate_def check_no_caching_or_swa_def is_encoder_decoder_def bind_res_def demo_manager_run Let_def)
qed

lemma demo_stored:
  obtains t m1 where "bm_allocate digits_digest hp (demo_group [1, 2, 3] WAITING) demo_manager = (Inr [], m1)" "gpu_ready (bm_alloc m1)"
    "map_of (bm_block_tables m1) 7 = Some t" "bm_reach digits_digest hp m1" "get_all_token_ids (da_heap (bm_alloc m1)) t = [1, 2, 3]"
    "da_num_total GPU (bm_alloc m1) = 4" "2 \<le> da_num_free GPU (bm_alloc m1)" "tb_num_full_slots t = 3" "tb_block_size t = 2"
proof -
  let ?g = "demo_group [1, 2, 3] WAITING" and ?q = "demo_seq [1, 2, 3] WAITING"
  have inv: "bm_inv digits_digest demo_manager" by (rule bm_reach_inv [OF demo_manager_reach digits_digest_no_none])
  then have ok: "bm_ok digits_digest demo_manager" "cpu_cold (bm_alloc demo_manager)" by (simp_all add: bm_inv_def)
  have rd: "gpu_ready (bm_alloc demo_manager)" using demo_da_held(2) by (simp add: demo_manager_run)
  obtain t a where al: "tb_allocate (cpu_gpu_ops digits_digest) (seq_token_ids ?q) GPU (seq_extra_hash hp ?q) (empty_table demo_manager, bm_alloc demo_manager)
      = (Inr (), (t, a))" "gpu_ready a" by (rule room_allocates [OF inv rd demo_new_request demo_admitted])
  obtain m1 where m1: "bm_allocate digits_digest hp ?g demo_manager = (Inr [], m1)" "bm_alloc m1 = a"
    "map_of (bm_block_tables m1) = (map_of (bm_block_tables demo_manager))(sq_seq_id ?q \<mapsto> t)" "table_holds (da_heap a) t (seq_token_ids ?q)"
    "gpu_fixed a = gpu_fixed (bm_alloc demo_manager)" "length (bl_blocks (tb_blocks t)) = length (chunks (bm_block_size demo_manager) (seq_token_ids ?q))"
    "bm_ok digits_digest m1" by (rule allocate_request_run [OF ok(1) demo_new_request ok(2) al(1)]) blast
  have reach: "bm_reach digits_digest hp m1" by (rule bm_reach.allocate [OF demo_manager_reach demo_new_request m1(1)])
  have total: "da_num_total GPU a = 4" using m1(5) demo_da_held(5) by (simp add: gpu_fixed_def demo_manager_run)
  have t: "map_of (bm_block_tables m1) 7 = Some t" using m1(3) by simp
  have "length (tb_physical_block_ids t) = length (bl_blocks (tb_blocks t))"
    using m1(4) unfolding table_holds_def ids_current_def tb_physical_block_ids_def by (metis length_map)
  also have "\<dots> = 2" unfolding m1(6) by (simp add: demo_manager_run(5) chunks_step del: chunks.simps)
  finally have "card (set (tb_physical_block_ids t)) \<le> 2" using card_length by metis
  moreover have "table_ids m1 = set (tb_physical_block_ids t)" using m1(3) by (simp add: table_ids_def demo_manager_run(3))
  ultimately have "2 \<le> da_num_free GPU a" using accounted [OF reach digits_digest_no_none] total m1(2) by (simp add: get_num_free_gpu_blocks_def)
  moreover have "tb_num_full_slots t = 3" using m1(4) by (simp add: table_holds_def)
  moreover have "tb_block_size t = 2"
    using gpu.table_allocate(2-4,6) [OF bm_ok_state [OF ok(1)] _ al(1)] demo_da_held(3) by (simp add: empty_table_def demo_manager_run)
  ultimately show thesis using that [OF m1(1) _ t reach] al(2) m1(2) total get_all_token_ids_holds [OF m1(4)] by simp
qed




theorem freed_request_leaves_nothing_witness:
  "\<exists>m1 m2. bm_allocate digits_digest (\<lambda>_. 0) (demo_group [1, 2, 3] WAITING) demo_manager = (Inr [], m1)
     \<and> bm_free digits_digest (demo_seq [1, 2, 3] WAITING) m1 = (Inr (), m2) \<and> map_of (bm_block_tables m2) 7 = None \<and> get_num_free_gpu_blocks m2 = 4"
proof -
  obtain m1 where m1: "bm_allocate digits_digest (\<lambda>_. 0) (demo_group [1, 2, 3] WAITING) demo_manager = (Inr [], m1)" by (rule demo_stored)
  from freed_request_leaves_nothing [OF demo_manager_reach digits_digest_no_none demo_new_request m1] m1 demo_da_held(4) show ?thesis
    by (auto simp: demo_manager_run(2,3) get_num_free_gpu_blocks_def)
qed

theorem retained_entry_round_trip_witness:
  "\<exists>m0 m1 m2. retain_blocks digits_digest (demo_group [1, 2, 3] FINISHED_STOPPED) m0 = (Inr (), m1) \<and> map_of (bm_block_tables m0) 7 \<noteq> None
     \<and> consume_gpu_cached_entry digits_digest 5 6 m1 = (Inr (Some (''r1'', [1, 2, 3])), m2) \<and> map_of (bm_block_tables m2) 7 = None"
proof -
  obtain t m0 where m0: "map_of (bm_block_tables m0) 7 = Some t" "bm_reach digits_digest (\<lambda>_. 0) m0" by (rule demo_stored)
  from retained_entry_round_trip [OF m0(2) digits_digest_no_none demo_group_facts(9) demo_group_facts(1), of "[1, 2, 3]" FINISHED_STOPPED] m0(1)
  show ?thesis by (auto simp: status_is_finished_def)
qed

section \<open>What swapping out leaves behind\<close>

text \<open>
  \<open>_swap_out_group\<close> swaps out the full computed blocks of a sequence and replaces the list of its table
  by them. The other blocks of the table, such as its last partial block, are in no table afterwards
  and \<open>free\<close> cannot reach them; the number of slots that the table believes to be filled is not
  reduced.
\<close>

lemma swapped_out_table:
  assumes "swap_out_seq H clock (q, rs) m = (Inr ps, m')" "map_of (bm_block_tables m) (sq_seq_id q) = Some t"
  shows "\<exists>t'. map_of (bm_block_tables m') (sq_seq_id q) = Some t' \<and> bl_blocks (tb_blocks t') = rs \<and> tb_num_full_slots t' = tb_num_full_slots t"
proof -
  have on_alloc_tables: "on_alloc f s = (Inr x, s') \<Longrightarrow> bm_block_tables s' = bm_block_tables s" for f :: "(dev_alloc, 'b) act" and x s s'
    by (auto simp: on_alloc_def zoom_def split: prod.splits)
  obtain m2 where m2: "bm_block_tables m2 = bm_block_tables m" "on_table (sq_seq_id q) (tb_update (cpu_gpu_ops H) rs) m2 = (Inr (), m')"
    using assms by (auto simp: swap_out_seq_def bind_act_Inr_iff get_table_def dict_item_def gets_def lift_res_def dest!: on_alloc_tables)
  have "\<exists>t'. map_of (bm_block_tables m') (sq_seq_id q) = Some t' \<and> tb_update (cpu_gpu_ops H) rs (t, bm_alloc m2) = (Inr (), (t', bm_alloc m'))"
    using m2 assms(2) by (auto simp: on_table_def bind_act_Inr_iff get_table_def dict_item_def split: prod.splits)
  then show ?thesis by (auto simp: tb_update_def on_list_def split: prod.splits dest: bl_update_Inr(1))
qed

end
