(* ===== verification/SchedState.thy ===== *)
theory SchedState
  imports ManagerSpec
begin

text \<open>
  The data of the scheduler of an instance, \<open>src/vllm/vllm/core/scheduler.py\<close>: its configuration,
  the budget of one scheduling step, the metadata of concurrent partial prefills, and the queues.
  Sequence groups are objects that the queues and the outputs of a step share, so they live in a
  list of groups and are named by their position in it.
\<close>

section \<open>Configuration\<close>

record sched_config =
  cf_max_num_batched_tokens :: int
  cf_max_num_seqs :: int
  cf_max_model_len :: int
  cf_max_num_partial_prefills :: int
  cf_max_long_partial_prefills :: int
  cf_long_prefill_token_threshold :: int
  cf_num_lookahead_slots :: int
  cf_num_scheduler_steps :: int
  cf_delay_factor :: pyfloat
  cf_chunked_prefill_enabled :: bool
  cf_policy :: string
  cf_preemption_mode :: "string option"
  cf_send_delta_data :: bool
  cf_block_size :: int
  cf_enable_prefix_caching :: bool
  cf_max_loras :: "int option"
  cf_use_async_output_proc :: bool

definition cf_is_multi_step :: "sched_config \<Rightarrow> bool" where
  "cf_is_multi_step cf \<longleftrightarrow> 1 < cf_num_scheduler_steps cf"

definition verify_args :: "sched_config \<Rightarrow> unit res" where
  "verify_args cf =
     (if cf_max_num_batched_tokens cf < cf_max_model_len cf \<and> \<not> cf_chunked_prefill_enabled cf then Inl ValueError
      else if cf_max_num_batched_tokens cf < cf_max_num_seqs cf then Inl ValueError
      else if cf_num_lookahead_slots cf < 0 then Inl ValueError
      else if cf_num_scheduler_steps cf < 1 then Inl ValueError
      else if cf_max_num_partial_prefills cf < 1 then Inl ValueError
      else if 1 < cf_max_num_partial_prefills cf \<and> \<not> cf_chunked_prefill_enabled cf then Inl ValueError
      else if 1 < cf_max_num_partial_prefills cf \<and> cf_max_model_len cf < cf_long_prefill_token_threshold cf then Inl ValueError
      else if cf_max_long_partial_prefills cf < 1 \<or> cf_max_num_partial_prefills cf < cf_max_long_partial_prefills cf then Inl ValueError
      else Inr ())"

text \<open>The chunk sizes by the number of partial prefills.\<close>

definition budget_lookup_list :: "sched_config \<Rightarrow> int list" where
  "budget_lookup_list cf =
     cf_max_num_batched_tokens cf # map (\<lambda>i. cf_max_num_batched_tokens cf div int i) [1..<nat (cf_max_num_partial_prefills cf) + 1]"

section \<open>The budget of a step\<close>

record budget =
  bu_token_budget :: int
  bu_max_num_seqs :: int
  bu_batched_ids :: "string set"
  bu_seqs_ids :: "string set"
  bu_num_cached_tokens :: int
  bu_num_batched_tokens :: int
  bu_num_curr_seqs :: int

definition budget_new :: "int \<Rightarrow> int \<Rightarrow> budget" where
  "budget_new tokens seqs =
     \<lparr>bu_token_budget = tokens, bu_max_num_seqs = seqs, bu_batched_ids = {}, bu_seqs_ids = {}, bu_num_cached_tokens = 0,
      bu_num_batched_tokens = 0, bu_num_curr_seqs = 0\<rparr>"

definition bu_can_schedule :: "int \<Rightarrow> int \<Rightarrow> budget \<Rightarrow> bool res" where
  "bu_can_schedule new_tokens new_seqs b =
     (if new_tokens < 0 then Inl AssertionError
      else if new_seqs = 0 then Inl AssertionError
      else Inr (bu_num_batched_tokens b + new_tokens \<le> bu_token_budget b \<and> bu_num_curr_seqs b + new_seqs \<le> bu_max_num_seqs b))"

definition bu_remaining_token_budget :: "budget \<Rightarrow> int" where
  "bu_remaining_token_budget b = bu_token_budget b - bu_num_batched_tokens b"

definition bu_add_num_batched_tokens :: "string \<Rightarrow> int \<Rightarrow> int \<Rightarrow> (budget, unit) act" where
  "bu_add_num_batched_tokens rid tokens cached b =
     (if rid \<in> bu_batched_ids b then (Inr (), b)
      else if cached < 0 then (Inl AssertionError, b)
      else if tokens < 0 then (Inl AssertionError, b)
      else (Inr (), b\<lparr>bu_batched_ids := insert rid (bu_batched_ids b), bu_num_batched_tokens := bu_num_batched_tokens b + tokens,
                      bu_num_cached_tokens := bu_num_cached_tokens b + cached\<rparr>))"

definition bu_subtract_num_batched_tokens :: "string \<Rightarrow> int \<Rightarrow> budget \<Rightarrow> budget" where
  "bu_subtract_num_batched_tokens rid tokens b =
     (if rid \<in> bu_batched_ids b
      then b\<lparr>bu_batched_ids := bu_batched_ids b - {rid}, bu_num_batched_tokens := bu_num_batched_tokens b - tokens\<rparr> else b)"

definition bu_add_num_seqs :: "string \<Rightarrow> int \<Rightarrow> budget \<Rightarrow> budget" where
  "bu_add_num_seqs rid n b =
     (if rid \<in> bu_seqs_ids b then b
      else b\<lparr>bu_seqs_ids := insert rid (bu_seqs_ids b), bu_num_curr_seqs := bu_num_curr_seqs b + n\<rparr>)"

definition bu_subtract_num_seqs :: "string \<Rightarrow> int \<Rightarrow> budget \<Rightarrow> budget" where
  "bu_subtract_num_seqs rid n b =
     (if rid \<in> bu_seqs_ids b
      then b\<lparr>bu_seqs_ids := bu_seqs_ids b - {rid}, bu_num_curr_seqs := bu_num_curr_seqs b - n\<rparr> else b)"

section \<open>Groups and queues\<close>

text \<open>
  What the scheduler reads of a group beside its sequences: the LoRA request (its identifier and
  the maximal length it was tuned for), the number of samples, and whether it uses embeddings.
\<close>

record sgroup =
  gr_group :: seq_group
  gr_lora :: "(int \<times> int option) option"
  gr_n :: "int option"
  gr_uses_embeds :: bool

type_synonym gref = nat

definition gr_lora_int_id :: "sgroup \<Rightarrow> int" where
  "gr_lora_int_id g = (case gr_lora g of None \<Rightarrow> 0 | Some (i, _) \<Rightarrow> i)"

record partial_meta =
  pm_schedulable_prefills :: int
  pm_long_prefills :: int

text \<open>
  The last three fields are the objects that one scheduling step passes from method to method by
  reference: the budget, the set of LoRA identifiers and the metadata of partial prefills. The
  field before them counts the readings of the clock.
\<close>

record sched_state =
  sc_bm :: manager
  sc_groups :: "sgroup list"
  sc_waiting :: "gref list"
  sc_running :: "gref list"
  sc_swapped :: "gref list"
  sc_finished_ids :: "string list"
  sc_pending_swap_out :: "(nat \<times> nat) list"
  sc_pending_groups :: "gref list"
  sc_prev_time :: pyfloat
  sc_prev_prompt :: bool
  sc_last_prompt_latency :: pyfloat
  sc_num_preemption :: int
  sc_async_stopped :: "gref list"
  sc_reads :: nat
  sc_budget :: budget
  sc_loras :: "int set option"
  sc_partial :: "partial_meta option"

text \<open>
  What the scheduler gets from outside: its configuration, the digest of blocks and the hash of
  pairs, the clock by the number of the reading, and the callback that finishes the output of an
  earlier step.
\<close>

record env =
  en_config :: sched_config
  en_digest :: "string \<Rightarrow> int"
  en_hash_pair :: "int \<times> int \<Rightarrow> int"
  en_clock :: "nat \<Rightarrow> pyfloat"
  en_output_proc :: "string \<Rightarrow> (sched_state, unit) act"

definition sched_state_new :: "env \<Rightarrow> manager \<Rightarrow> sched_state" where
  "sched_state_new en m =
     \<lparr>sc_bm = m, sc_groups = [], sc_waiting = [], sc_running = [], sc_swapped = [], sc_finished_ids = [], sc_pending_swap_out = [],
      sc_pending_groups = [], sc_prev_time = 0, sc_prev_prompt = False, sc_last_prompt_latency = 0, sc_num_preemption = 0,
      sc_async_stopped = [], sc_reads = 0, sc_budget = budget_new 0 0, sc_loras = None, sc_partial = None\<rparr>"

text \<open>
  \<open>__init__\<close>: the blocks are divided among the stages of the pipeline. \<open>reserved\<close> is how many
  blocks the allocator keeps for itself; the block manager has its default watermark.
\<close>

definition sched_init :: "env \<Rightarrow> nat \<Rightarrow> nat \<Rightarrow> nat \<Rightarrow> nat option \<Rightarrow> nat \<Rightarrow> sched_state res" where
  "sched_init en reserved num_gpu num_cpu sliding_window pipeline =
     (let share = (\<lambda>n. if n = 0 then Inr 0 else if pipeline = 0 then Inl ZeroDivisionError else Inr (n div pipeline))
      in bind_res (share num_gpu) (\<lambda>gpu.
         bind_res (share num_cpu) (\<lambda>cpu.
         bind_res (bm_new reserved (nat (cf_block_size (en_config en))) gpu cpu (1 / 100) sliding_window (cf_enable_prefix_caching (en_config en))) (\<lambda>m.
           Inr (sched_state_new en m)))))"

definition group_at :: "sched_state \<Rightarrow> gref \<Rightarrow> seq_group" where
  "group_at s r = gr_group (sc_groups s ! r)"

definition upd_group :: "gref \<Rightarrow> (seq_group \<Rightarrow> seq_group) \<Rightarrow> sched_state \<Rightarrow> sched_state" where
  "upd_group r f s = s\<lparr>sc_groups := (sc_groups s)[r := (sc_groups s ! r)\<lparr>gr_group := f (group_at s r)\<rparr>]\<rparr>"

text \<open>A change of one sequence of a group; the sequences of a group have different identifiers.\<close>

definition upd_seq :: "gref \<Rightarrow> int \<Rightarrow> (seq \<Rightarrow> seq) \<Rightarrow> sched_state \<Rightarrow> sched_state" where
  "upd_seq r sid f = upd_group r (\<lambda>g. g\<lparr>sg_seqs := map (\<lambda>q. if sq_seq_id q = sid then f q else q) (sg_seqs g)\<rparr>)"

definition set_seq_status :: "gref \<Rightarrow> int \<Rightarrow> seq_status \<Rightarrow> sched_state \<Rightarrow> sched_state" where
  "set_seq_status r sid st = upd_seq r sid (\<lambda>q. q\<lparr>sq_status := st\<rparr>)"

definition on_group :: "gref \<Rightarrow> (seq_group, 'a) act \<Rightarrow> (sched_state, 'a) act" where
  "on_group r f s = (case f (group_at s r) of (x, g) \<Rightarrow> (x, upd_group r (\<lambda>_. g) s))"

definition on_bm :: "(manager, 'a) act \<Rightarrow> (sched_state, 'a) act" where
  "on_bm = zoom sc_bm (\<lambda>m s. s\<lparr>sc_bm := m\<rparr>)"

definition on_budget :: "(budget, 'a) act \<Rightarrow> (sched_state, 'a) act" where
  "on_budget = zoom sc_budget (\<lambda>b s. s\<lparr>sc_budget := b\<rparr>)"

definition mod_budget :: "(budget \<Rightarrow> budget) \<Rightarrow> (sched_state, unit) act" where
  "mod_budget f = on_budget (modify f)"

definition read_clock :: "env \<Rightarrow> (sched_state, pyfloat) act" where
  "read_clock en s = (Inr (en_clock en (sc_reads s)), s\<lparr>sc_reads := Suc (sc_reads s)\<rparr>)"

text \<open>One reading for every sequence of a group.\<close>

definition read_clocks :: "env \<Rightarrow> seq_group \<Rightarrow> (sched_state, seq \<Rightarrow> pyfloat) act" where
  "read_clocks en g s =
     (Inr (\<lambda>q. en_clock en (sc_reads s + length (takeWhile (\<lambda>p. sq_seq_id p \<noteq> sq_seq_id q) (sg_seqs g)))),
      s\<lparr>sc_reads := sc_reads s + length (sg_seqs g)\<rparr>)"

section \<open>Partial prefills\<close>

definition pm_can_schedule :: "sched_config \<Rightarrow> seq_group \<Rightarrow> partial_meta \<Rightarrow> bool" where
  "pm_can_schedule cf g pm \<longleftrightarrow>
     \<not> (cf_long_prefill_token_threshold cf < seq_get_num_new_tokens (first_seq g)
        \<and> cf_max_long_partial_prefills cf \<le> pm_long_prefills pm \<and> 1 < cf_max_num_partial_prefills cf)"

definition pm_maybe_increment :: "sched_config \<Rightarrow> seq_group \<Rightarrow> partial_meta \<Rightarrow> partial_meta" where
  "pm_maybe_increment cf g pm =
     (if cf_long_prefill_token_threshold cf < seq_get_num_new_tokens (first_seq g)
      then pm\<lparr>pm_long_prefills := pm_long_prefills pm + 1\<rparr> else pm)"

text \<open>The loop over the waiting groups with the counts of prefills and of waiting long prefills.\<close>

fun count_waiting_prefills :: "sched_config \<Rightarrow> int \<Rightarrow> seq_group list \<Rightarrow> int \<Rightarrow> int \<Rightarrow> int" where
  "count_waiting_prefills cf long [] prefills waiting_long = prefills"
| "count_waiting_prefills cf long (g # gs) prefills waiting_long =
     (if cf_max_num_partial_prefills cf \<le> prefills then prefills
      else if cf_long_prefill_token_threshold cf < seq_get_num_new_tokens (first_seq g) then
        if cf_max_long_partial_prefills cf \<le> long + waiting_long then count_waiting_prefills cf long gs prefills waiting_long
        else count_waiting_prefills cf long gs (prefills + 1) (waiting_long + 1)
      else count_waiting_prefills cf long gs (prefills + 1) waiting_long)"

definition pm_from_queues :: "sched_config \<Rightarrow> seq_group list \<Rightarrow> seq_group list \<Rightarrow> partial_meta" where
  "pm_from_queues cf running waiting =
     (let prefilling = filter (\<lambda>g. sd_stage (sq_data (first_seq g)) = PREFILL) running;
          prefills = int (length prefilling);
          long = int (length (filter (\<lambda>g. cf_long_prefill_token_threshold cf < seq_get_num_new_tokens (first_seq g)) prefilling))
      in \<lparr>pm_schedulable_prefills = min (count_waiting_prefills cf long waiting prefills 0) (cf_max_num_partial_prefills cf),
          pm_long_prefills = long\<rparr>)"

end
