(* ===== verification/Scheduler.thy ===== *)
theory Scheduler
  imports SchedState
begin

text \<open>
  The operations of \<open>src/vllm/vllm/core/scheduler.py\<close>. Objects that the source keeps in a cache for
  reuse are fresh objects here, and the injected preemption that exists for tests is switched off.
\<close>

section \<open>What a request asks for\<close>

definition extra_arg :: "seq_group \<Rightarrow> string \<Rightarrow> json \<Rightarrow> json" where
  "extra_arg g k d = (case sg_extra_args g of None \<Rightarrow> d | Some args \<Rightarrow> (case map_of args k of None \<Rightarrow> d | Some v \<Rightarrow> v))"

definition should_keep_cache_in_gpu :: "seq_group \<Rightarrow> bool" where
  "should_keep_cache_in_gpu g = (case sg_extra_args g of None \<Rightarrow> False | Some _ \<Rightarrow> truthy (extra_arg g ''keep_cache_in_gpu'' (JBool False)))"

definition should_free_cache :: "seq_group \<Rightarrow> bool" where
  "should_free_cache g = (case sg_extra_args g of None \<Rightarrow> True | Some _ \<Rightarrow> truthy (extra_arg g ''free_cache'' (JBool True)))"

definition get_initial_cached_tokens :: "seq_group \<Rightarrow> int" where
  "get_initial_cached_tokens g =
     (case sg_extra_args g of
        None \<Rightarrow> 0
      | Some _ \<Rightarrow>
          (case int_of_json (json_or (extra_arg g ''cached_tokens'' (JInt 0)) (JInt 0)) of Inl _ \<Rightarrow> 0 | Inr n \<Rightarrow> max 0 n))"

definition request_total_length :: "seq_group \<Rightarrow> int" where
  "request_total_length g = int (Max (set (map seq_get_len (sg_seqs g))))"

text \<open>\<open>context_range[1]\<close>: a dictionary with string keys raises an exception that is not caught.\<close>

fun second_item :: "json \<Rightarrow> json res" where
  "second_item (JList xs) = (if length xs < 2 then Inl IndexError else Inr (xs ! 1))"
| "second_item (JStr s) = (if length s < 2 then Inl IndexError else Inr (JStr [s ! 1]))"
| "second_item (JObj d) = Inl KeyError"
| "second_item _ = Inl TypeError"

definition request_exceeds_context_range :: "seq_group \<Rightarrow> bool res" where
  "request_exceeds_context_range g =
     (case extra_arg g ''context_range'' JNull of
        JNull \<Rightarrow> Inr False
      | rng \<Rightarrow>
          (case bind_res (second_item rng) int_of_json of
             Inr upper \<Rightarrow> Inr (upper \<le> request_total_length g)
           | Inl e \<Rightarrow> if e \<in> {TypeError, IndexError, ValueError} then Inr False else Inl e))"

text \<open>
  The key by which the queues are sorted. Keys are compared as Python compares numbers and
  strings; numbers with strings cannot be compared, and neither
  can the other values that a request may carry here; lists do not occur as query identifiers.
\<close>

definition MAX_QUERY_ID :: int where
  "MAX_QUERY_ID = 2 ^ 31 - 1"

definition extract_query_id_key :: "seq_group \<Rightarrow> json" where
  "extract_query_id_key g =
     (case sg_extra_args g of
        Some _ \<Rightarrow> extra_arg g ''query_id'' (JInt MAX_QUERY_ID)
      | None \<Rightarrow>
          (case int_of_str (drop 1 (hd (split_on (CHR ''_'') (sg_request_id g)))) of
             Inr n \<Rightarrow> JInt n | Inl _ \<Rightarrow> JInt MAX_QUERY_ID))"

fun numeric_key :: "json \<Rightarrow> pyfloat res" where
  "numeric_key (JInt i) = Inr (of_int i)"
| "numeric_key (JBool b) = Inr (if b then 1 else 0)"
| "numeric_key (JFloat r) = Inr r"
| "numeric_key _ = Inl TypeError"

fun string_key :: "json \<Rightarrow> string res" where
  "string_key (JStr s) = Inr s"
| "string_key _ = Inl TypeError"

text \<open>A stable sort of values by the keys at the same positions.\<close>

definition sort_with :: "('k::linorder) list \<Rightarrow> 'a list \<Rightarrow> 'a list" where
  "sort_with ks xs = map snd (sort_key fst (zip ks xs))"

definition sort_by_query_id :: "sched_state \<Rightarrow> gref list \<Rightarrow> gref list res" where
  "sort_by_query_id s rs =
     (if length rs \<le> 1 then Inr rs
      else
        (let keys = map (\<lambda>r. extract_query_id_key (group_at s r)) rs
         in case map_res numeric_key keys of
              Inr ks \<Rightarrow> Inr (sort_with ks rs)
            | Inl _ \<Rightarrow> (case map_res string_key keys of Inr ks \<Rightarrow> Inr (sort_with ks rs) | Inl e \<Rightarrow> Inl e)))"

section \<open>Limits and slots\<close>

definition get_prompt_limit :: "sched_config \<Rightarrow> sgroup \<Rightarrow> int res" where
  "get_prompt_limit cf g =
     (let limit = (if cf_chunked_prefill_enabled cf \<and> \<not> cf_is_multi_step cf then cf_max_model_len cf
                   else min (cf_max_model_len cf) (cf_max_num_batched_tokens cf))
      in case gr_lora g of
           Some (_, Some long) \<Rightarrow> if long = 0 then Inr limit else if limit \<le> long then Inr long else Inl AssertionError
         | _ \<Rightarrow> Inr limit)"

definition get_num_lookahead_slots :: "sched_config \<Rightarrow> bool \<Rightarrow> bool \<Rightarrow> int" where
  "get_num_lookahead_slots cf is_prefill enable_chunking =
     (if is_prefill then (if cf_is_multi_step cf \<and> enable_chunking then cf_num_lookahead_slots cf + 1 else 0)
      else cf_num_lookahead_slots cf)"

definition get_priority :: "seq_group \<Rightarrow> int \<times> pyfloat" where
  "get_priority g = (sg_priority g, mt_arrival_time (sg_metrics g))"

definition passed_delay :: "env \<Rightarrow> (sched_state, bool) act" where
  "passed_delay en =
     bind_act (read_clock en) (\<lambda>now.
     bind_act (modify (\<lambda>s. if sc_prev_prompt s then s\<lparr>sc_last_prompt_latency := now - sc_prev_time s\<rparr> else s)) (\<lambda>_.
     bind_act (modify (\<lambda>s. s\<lparr>sc_prev_time := now, sc_prev_prompt := False\<rparr>)) (\<lambda>_.
       gets (\<lambda>s.
         if 0 < cf_delay_factor (en_config en) \<and> sc_waiting s \<noteq> []
         then (let earliest = Min (set (map (\<lambda>r. mt_arrival_time (sg_metrics (group_at s r))) (sc_waiting s)))
               in cf_delay_factor (en_config en) * sc_last_prompt_latency s < now - earliest \<or> sc_running s = [])
         else True))))"

text \<open>
  The number of tokens that fits in the budget; with prefix caching a prompt is cut at a multiple
  of the block size.
\<close>

definition chunk_new_tokens_to_schedule :: "sched_config \<Rightarrow> budget \<Rightarrow> int \<Rightarrow> int \<Rightarrow> partial_meta option \<Rightarrow> int res" where
  "chunk_new_tokens_to_schedule cf b prompt_limit num_new pm =
     (let remaining = bu_remaining_token_budget b
      in if cf_is_multi_step cf then
           if prompt_limit < num_new then Inr num_new
           else Inr (if remaining < num_new then 0 else num_new)
         else
           bind_res (case pm of
                       None \<Rightarrow> Inr remaining
                     | Some p \<Rightarrow>
                         (let k = pm_schedulable_prefills p; l = budget_lookup_list cf
                          in if 0 \<le> k \<and> nat k < length l then Inr (l ! nat k)
                             else if k < 0 \<and> nat (- k) \<le> length l then Inr (l ! (length l - nat (- k))) else Inl IndexError)) (\<lambda>slot.
             if cf_enable_prefix_caching cf \<and> cf_block_size cf = 0 then Inl ZeroDivisionError
             else
               (let remaining' = (if cf_enable_prefix_caching cf
                                  then min remaining slot div cf_block_size cf * cf_block_size cf else remaining)
                in Inr (min (min num_new remaining') slot))))"

section \<open>Cached prefixes\<close>

definition get_exact_gpu_cached_tokens :: "gref \<Rightarrow> (sched_state, int option) act" where
  "get_exact_gpu_cached_tokens r =
     bind_act (gets (\<lambda>s. group_at s r)) (\<lambda>g.
     bind_act (lift_res (request_key g)) (\<lambda>k.
       (case k of
          None \<Rightarrow> ret None
        | Some (qid, ivid) \<Rightarrow>
            gets (\<lambda>s. map_option (\<lambda>(rid, toks). int (length toks)) (get_gpu_cached_entry qid ivid (sc_bm s))))))"

definition has_synthetic_cache_source :: "gref \<Rightarrow> (sched_state, bool) act" where
  "has_synthetic_cache_source r =
     bind_act (gets (\<lambda>s. get_initial_cached_tokens (group_at s r))) (\<lambda>n.
       if 0 < n then ret True
       else bind_act (get_exact_gpu_cached_tokens r) (\<lambda>e. ret (e \<noteq> None)))"

definition round_cached_tokens :: "int \<Rightarrow> sched_state \<Rightarrow> int res" where
  "round_cached_tokens n s =
     (let bs = int (bm_block_size (sc_bm s)) in if bs = 0 then Inl ZeroDivisionError else Inr (n div bs * bs))"

definition num_cached_on :: "env \<Rightarrow> seq \<Rightarrow> device \<Rightarrow> (sched_state, int) act" where
  "num_cached_on en q d = on_bm (bm_get_num_cached_tokens (en_digest en) (en_hash_pair en) q d)"

definition resolve_cached_prefix_len :: "env \<Rightarrow> gref \<Rightarrow> seq \<Rightarrow> (sched_state, int) act" where
  "resolve_cached_prefix_len en r q =
     (let most = max (int (sd_get_prompt_len (sq_data q)) - 1) 0
      in bind_act (gets (\<lambda>s. get_initial_cached_tokens (group_at s r))) (\<lambda>wanted.
           if 0 < wanted then bind_act (gets (round_cached_tokens (min wanted most))) lift_res
           else
             bind_act (get_exact_gpu_cached_tokens r) (\<lambda>exact.
               (case exact of
                  Some n \<Rightarrow> bind_act (gets (round_cached_tokens (min n most))) lift_res
                | None \<Rightarrow>
                    if cf_enable_prefix_caching (en_config en)
                    then bind_act (num_cached_on en q GPU) (\<lambda>gpu. bind_act (num_cached_on en q CPU) (\<lambda>cpu. ret (max gpu cpu)))
                    else ret 0))))"

definition consume_exact_gpu_cache_hit :: "env \<Rightarrow> gref \<Rightarrow> (sched_state, unit) act" where
  "consume_exact_gpu_cache_hit en r =
     bind_act (gets (\<lambda>s. group_at s r)) (\<lambda>g.
     bind_act (lift_res (request_key g)) (\<lambda>k.
       (case k of
          None \<Rightarrow> ret ()
        | Some (qid, ivid) \<Rightarrow> bind_act (on_bm (consume_gpu_cached_entry (en_digest en) qid ivid)) (\<lambda>_. ret ()))))"

text \<open>The new tokens of one sequence, as uncached and cached ones.\<close>

definition seq_new_tokens :: "env \<Rightarrow> gref \<Rightarrow> seq \<Rightarrow> (sched_state, int \<times> int) act" where
  "seq_new_tokens en r q =
     (if \<not> seq_is_prefill q then ret (1, 0)
      else
        (let computed = sd_num_computed_tokens (sq_data q);
             remaining = max 0 (int (seq_get_len q) - computed)
         in bind_act (gets (\<lambda>s. get_initial_cached_tokens (group_at s r))) (\<lambda>wanted.
            bind_act (if 0 < wanted then ret (min wanted (int (seq_get_len q)))
                      else if cf_enable_prefix_caching (en_config en)
                      then bind_act (num_cached_on en q CPU) (\<lambda>cpu. bind_act (num_cached_on en q GPU) (\<lambda>gpu. ret (max cpu gpu)))
                      else ret 0) (\<lambda>cached.
              let new_cached = min (max 0 (cached - computed)) remaining
              in ret (remaining - new_cached, new_cached)))))"

definition get_num_new_tokens :: "env \<Rightarrow> gref \<Rightarrow> seq_status \<Rightarrow> bool \<Rightarrow> partial_meta option \<Rightarrow> (sched_state, int \<times> int) act" where
  "get_num_new_tokens en r st enable_chunking pm =
     bind_act (gets (\<lambda>s. get_seqs (Some st) (group_at s r))) (\<lambda>qs.
     bind_act (map_act (seq_new_tokens en r) qs) (\<lambda>ns.
       let uncached = sum_list (map fst ns); cached = sum_list (map snd ns);
           (uncached', cached') = (if uncached = 0 \<and> 0 < cached then (1, cached - 1) else (uncached, cached))
       in if enable_chunking \<and> length qs = 1 then
            bind_act (gets (\<lambda>s. bind_res (get_prompt_limit (en_config en) (sc_groups s ! r)) (\<lambda>limit.
                chunk_new_tokens_to_schedule (en_config en) (sc_budget s) limit uncached' pm))) (\<lambda>n.
            bind_act (lift_res n) (\<lambda>n. ret (n, cached')))
          else ret (uncached', cached')))"

section \<open>Sequences leave the block manager\<close>

definition free_seq :: "env \<Rightarrow> seq \<Rightarrow> (sched_state, unit) act" where
  "free_seq en q = on_bm (bm_free (en_digest en) q)"

definition fork_seq :: "env \<Rightarrow> seq \<Rightarrow> seq \<Rightarrow> (sched_state, unit) act" where
  "fork_seq en parent child = on_bm (bm_fork (en_digest en) parent child)"

definition remove_from_tracker :: "gref \<Rightarrow> seq_status \<Rightarrow> (sched_state, unit) act" where
  "remove_from_tracker r st =
     bind_act (gets (\<lambda>s. get_seqs (Some st) (group_at s r))) (\<lambda>qs.
       for_each (\<lambda>q. on_bm (modify (remove_seq_from_computed_blocks_tracker q))) qs)"

definition free_cross_blocks :: "env \<Rightarrow> gref \<Rightarrow> (sched_state, unit) act" where
  "free_cross_blocks en r =
     bind_act (gets (\<lambda>s. group_at s r)) (\<lambda>g.
       if is_encoder_decoder g then on_bm (free_cross (en_digest en) g) else ret ())"

definition free_finished_seqs :: "env \<Rightarrow> gref \<Rightarrow> (sched_state, unit) act" where
  "free_finished_seqs en r =
     bind_act (gets (\<lambda>s. filter seq_is_finished (sg_seqs (group_at s r)))) (\<lambda>qs. for_each (free_seq en) qs)"

definition has_cache_entry :: "gref \<Rightarrow> (sched_state, bool) act" where
  "has_cache_entry r = bind_act (get_exact_gpu_cached_tokens r) (\<lambda>e. ret (e \<noteq> None))"

section \<open>Finished requests\<close>

text \<open>Whether the group has to wait for the worker, because its blocks were swapped out.\<close>

definition settle_finished_cache :: "env \<Rightarrow> gref \<Rightarrow> (sched_state, bool) act" where
  "settle_finished_cache en r =
     bind_act (gets (\<lambda>s. group_at s r)) (\<lambda>g.
       let keep = should_keep_cache_in_gpu g
       in bind_act (if keep then lift_res (request_exceeds_context_range g) else ret False) (\<lambda>exceeds.
          let free_cache = (should_free_cache g \<or> keep \<and> exceeds); keep_in_gpu = (keep \<and> \<not> exceeds)
          in if free_cache then bind_act (on_bm (BlockManager.free_request_cache (en_digest en) g)) (\<lambda>_. ret False)
             else if keep_in_gpu then bind_act (on_bm (retain_blocks (en_digest en) g)) (\<lambda>_. ret False)
             else
               bind_act (read_clocks en g) (\<lambda>now.
               bind_act (on_bm (swap_out_finished (en_digest en) now g)) (\<lambda>swapped.
                 (case swapped of
                    None \<Rightarrow> bind_act (on_bm (free_finished_blocks (en_digest en) g)) (\<lambda>_. ret False)
                  | Some ps \<Rightarrow>
                      bind_act (modify (\<lambda>s. s\<lparr>sc_pending_swap_out := sc_pending_swap_out s @ ps\<rparr>)) (\<lambda>_. ret True))))))"

definition free_finished_seq_group_blocks :: "env \<Rightarrow> gref \<Rightarrow> (sched_state, unit) act" where
  "free_finished_seq_group_blocks en r =
     bind_act (gets (\<lambda>s. sg_is_finished (group_at s r))) (\<lambda>fin.
     bind_act (if fin then settle_finished_cache en r else ret False) (\<lambda>pending.
       if pending then modify (\<lambda>s. s\<lparr>sc_pending_groups := sc_pending_groups s @ [r]\<rparr>)
       else
         bind_act (if fin then has_cache_entry r else ret False) (\<lambda>cached.
           if cached then ret () else free_finished_seqs en r)))"

definition free_finished_seq_group :: "env \<Rightarrow> gref \<Rightarrow> (sched_state, unit) act" where
  "free_finished_seq_group en r =
     bind_act (gets (\<lambda>s. group_at s r)) (\<lambda>g.
     bind_act (free_finished_seq_group_blocks en r) (\<lambda>_.
       if sg_is_finished g then modify (\<lambda>s. s\<lparr>sc_finished_ids := sc_finished_ids s @ [sg_request_id g]\<rparr>) else ret ()))"

definition free_async_stopped :: "env \<Rightarrow> gref \<Rightarrow> (sched_state, unit) act" where
  "free_async_stopped en r =
     bind_act (free_cross_blocks en r) (\<lambda>_.
     bind_act (modify (\<lambda>s. s\<lparr>sc_finished_ids := sc_finished_ids s @ [sg_request_id (group_at s r)]\<rparr>)) (\<lambda>_.
       free_finished_seq_group_blocks en r))"

definition free_finished_seq_groups :: "env \<Rightarrow> (sched_state, unit) act" where
  "free_finished_seq_groups en =
     bind_act (gets (\<lambda>s. list_all (\<lambda>r. \<not> sg_is_finished (group_at s r)) (sc_waiting s @ sc_swapped s))) (\<lambda>ok.
     bind_act (check ok) (\<lambda>_.
     bind_act (gets sc_pending_groups) (\<lambda>pending.
     bind_act (for_each (free_finished_seqs en) pending) (\<lambda>_.
     bind_act (modify (\<lambda>s. s\<lparr>sc_pending_groups := []\<rparr>)) (\<lambda>_.
     bind_act (gets sc_running) (\<lambda>running.
     bind_act (for_each (free_finished_seq_group en) running) (\<lambda>_.
     bind_act (modify (\<lambda>s. s\<lparr>sc_running := filter (\<lambda>r. \<not> sg_is_finished (group_at s r)) running\<rparr>)) (\<lambda>_.
     bind_act (gets sc_async_stopped) (\<lambda>stopped.
     bind_act (for_each (free_async_stopped en) stopped) (\<lambda>_.
       modify (\<lambda>s. s\<lparr>sc_async_stopped := []\<rparr>)))))))))))"

section \<open>Adding and aborting\<close>

definition add_seq_group :: "gref \<Rightarrow> sched_state \<Rightarrow> sched_state" where
  "add_seq_group r s = s\<lparr>sc_waiting := sc_waiting s @ [r]\<rparr>"

text \<open>These two exist for tests.\<close>

definition add_seq_group_to_running :: "gref \<Rightarrow> sched_state \<Rightarrow> sched_state" where
  "add_seq_group_to_running r s = s\<lparr>sc_running := sc_running s @ [r]\<rparr>"

definition add_seq_group_to_swapped :: "gref \<Rightarrow> sched_state \<Rightarrow> sched_state" where
  "add_seq_group_to_swapped r s = s\<lparr>sc_swapped := sc_swapped s @ [r]\<rparr>"

definition sched_prefix_cache_hit_rate :: "device \<Rightarrow> sched_state \<Rightarrow> pyfloat res" where
  "sched_prefix_cache_hit_rate d s = get_prefix_cache_hit_rate d (sc_bm s)"

definition sched_reset_prefix_cache :: "device option \<Rightarrow> (sched_state, bool) act" where
  "sched_reset_prefix_cache d = on_bm (bm_reset_prefix_cache d)"

definition has_unfinished_seqs :: "sched_state \<Rightarrow> bool" where
  "has_unfinished_seqs s \<longleftrightarrow> sc_waiting s \<noteq> [] \<or> sc_running s \<noteq> [] \<or> sc_swapped s \<noteq> []"

definition get_num_unfinished_seq_groups :: "sched_state \<Rightarrow> nat" where
  "get_num_unfinished_seq_groups s = length (sc_waiting s) + length (sc_running s) + length (sc_swapped s)"

definition get_and_reset_finished_requests_ids :: "(sched_state, string list) act" where
  "get_and_reset_finished_requests_ids s = (Inr (sc_finished_ids s), s\<lparr>sc_finished_ids := []\<rparr>)"

definition abort_seq :: "env \<Rightarrow> gref \<Rightarrow> seq \<Rightarrow> (sched_state, unit) act" where
  "abort_seq en r q =
     (if seq_is_finished q then ret ()
      else bind_act (modify (set_seq_status r (sq_seq_id q) FINISHED_ABORTED)) (\<lambda>_. free_seq en q))"

definition abort_one :: "env \<Rightarrow> ((gref list \<Rightarrow> gref list) \<Rightarrow> sched_state \<Rightarrow> sched_state) \<Rightarrow> gref \<Rightarrow> (sched_state, unit) act" where
  "abort_one en upd_queue r =
     bind_act (modify (upd_queue (remove1 r))) (\<lambda>_.
     bind_act (modify (\<lambda>s. s\<lparr>sc_finished_ids := sc_finished_ids s @ [sg_request_id (group_at s r)]\<rparr>)) (\<lambda>_.
     bind_act (gets (\<lambda>s. sg_seqs (group_at s r))) (\<lambda>qs.
     bind_act (for_each (abort_seq en r) qs) (\<lambda>_. free_cross_blocks en r))))"

text \<open>
  \<open>groups_of\<close> is the dictionary of requests with several samples; it maps the identifier of a
  sample to the one of its request. The entry of an aborted group is deleted, which no later
  lookup of this call sees, since a group is in one queue only.
\<close>

definition abort_queue ::
  "env \<Rightarrow> string set \<Rightarrow> (string, string) dict \<Rightarrow> (sched_state \<Rightarrow> gref list) \<Rightarrow> ((gref list \<Rightarrow> gref list) \<Rightarrow> sched_state \<Rightarrow> sched_state) \<Rightarrow> (sched_state, unit) act" where
  "abort_queue en ids groups_of queue upd_queue =
     bind_act (gets (\<lambda>s. filter (\<lambda>r. let rid = sg_request_id (group_at s r)
         in (case map_of groups_of rid of Some parent \<Rightarrow> parent \<in> ids | None \<Rightarrow> rid \<in> ids)) (queue s))) (\<lambda>aborted.
       for_each (abort_one en upd_queue) aborted)"

definition abort_seq_group :: "env \<Rightarrow> string set \<Rightarrow> (string, string) dict \<Rightarrow> (sched_state, unit) act" where
  "abort_seq_group en ids groups_of =
     bind_act (abort_queue en ids groups_of sc_waiting (\<lambda>f s. s\<lparr>sc_waiting := f (sc_waiting s)\<rparr>)) (\<lambda>_.
     bind_act (abort_queue en ids groups_of sc_running (\<lambda>f s. s\<lparr>sc_running := f (sc_running s)\<rparr>)) (\<lambda>_.
       abort_queue en ids groups_of sc_swapped (\<lambda>f s. s\<lparr>sc_swapped := f (sc_swapped s)\<rparr>)))"

section \<open>Slots and preemption\<close>

datatype preemption_mode = SWAP | RECOMPUTE

definition sched_can_append_slots :: "env \<Rightarrow> gref \<Rightarrow> bool \<Rightarrow> (sched_state, bool) act" where
  "sched_can_append_slots en r enable_chunking =
     bind_act (gets (\<lambda>s. group_at s r)) (\<lambda>g.
       let is_prefill = sg_is_prefill g;
           lookahead = get_num_lookahead_slots (en_config en) is_prefill enable_chunking
       in bind_act (check (\<not> (is_prefill \<and> 0 < lookahead) \<or> cf_is_multi_step (en_config en) \<and> enable_chunking)) (\<lambda>_.
          bind_act (gets (\<lambda>s. can_append_slots g lookahead (sc_bm s))) lift_res))"

definition sched_append_slots :: "env \<Rightarrow> gref \<Rightarrow> bool \<Rightarrow> (sched_state, cows) act" where
  "sched_append_slots en r enable_chunking =
     bind_act (gets (\<lambda>s. sg_is_prefill (group_at s r))) (\<lambda>is_prefill.
       let lookahead = get_num_lookahead_slots (en_config en) is_prefill enable_chunking;
           multi = cf_is_multi_step (en_config en)
       in bind_act (on_group r (init_multi_step_from_lookahead_slots lookahead (cf_num_scheduler_steps (en_config en)) multi enable_chunking)) (\<lambda>_.
          bind_act (gets (\<lambda>s. get_seqs (if multi \<and> enable_chunking then None else Some RUNNING) (group_at s r))) (\<lambda>qs.
          bind_act (map_act (\<lambda>q. on_bm (append_slots (en_digest en) (en_hash_pair en) q lookahead)) qs) (\<lambda>css. ret (concat css)))))"

definition recompute_seq :: "env \<Rightarrow> gref \<Rightarrow> seq \<Rightarrow> (sched_state, unit) act" where
  "recompute_seq en r q =
     bind_act (modify (set_seq_status r (sq_seq_id q) WAITING)) (\<lambda>_.
     bind_act (free_seq en q) (\<lambda>_. modify (upd_seq r (sq_seq_id q) seq_reset_state_for_recompute)))"

definition preempt_by_recompute :: "env \<Rightarrow> gref \<Rightarrow> (sched_state, unit) act" where
  "preempt_by_recompute en r =
     bind_act (gets (\<lambda>s. get_seqs (Some RUNNING) (group_at s r))) (\<lambda>qs.
     bind_act (check (length qs = 1)) (\<lambda>_.
     bind_act (for_each (recompute_seq en r) qs) (\<lambda>_. free_cross_blocks en r)))"

definition sched_swap_out :: "env \<Rightarrow> gref \<Rightarrow> (sched_state, (nat \<times> nat) list) act" where
  "sched_swap_out en r =
     bind_act (gets (\<lambda>s. group_at s r)) (\<lambda>g.
     bind_act (on_bm (can_swap_out (en_digest en) g)) (\<lambda>ok.
       if \<not> ok then raise RuntimeError
       else
         bind_act (read_clocks en g) (\<lambda>now.
         bind_act (on_bm (swap_out (en_digest en) now g)) (\<lambda>mapping.
         bind_act (for_each (\<lambda>q. modify (set_seq_status r (sq_seq_id q) SWAPPED)) (get_seqs (Some RUNNING) g)) (\<lambda>_. ret mapping)))))"

definition sched_swap_in :: "env \<Rightarrow> gref \<Rightarrow> (sched_state, (nat \<times> nat) list) act" where
  "sched_swap_in en r =
     bind_act (gets (\<lambda>s. group_at s r)) (\<lambda>g.
     bind_act (on_bm (swap_in (en_digest en) g)) (\<lambda>mapping.
     bind_act (for_each (\<lambda>q. modify (set_seq_status r (sq_seq_id q) RUNNING)) (get_seqs (Some SWAPPED) g)) (\<lambda>_. ret mapping)))"

definition restart_swapped_seq :: "env \<Rightarrow> gref \<Rightarrow> seq \<Rightarrow> (sched_state, unit) act" where
  "restart_swapped_seq en r q =
     bind_act (modify (set_seq_status r (sq_seq_id q) WAITING)) (\<lambda>_.
     bind_act (modify (upd_seq r (sq_seq_id q) seq_reset_state_for_recompute)) (\<lambda>_. free_seq en q))"

definition preempt_by_swap :: "env \<Rightarrow> gref \<Rightarrow> (sched_state, (nat \<times> nat) list) act" where
  "preempt_by_swap en r =
     bind_act (sched_swap_out en r) (\<lambda>mapping.
     bind_act (gets (\<lambda>s. get_seqs (Some SWAPPED) (group_at s r))) (\<lambda>qs.
     bind_act (for_each (restart_swapped_seq en r) qs) (\<lambda>_.
     bind_act (free_cross_blocks en r) (\<lambda>_. ret mapping))))"

definition choose_preemption_mode :: "env \<Rightarrow> seq_group \<Rightarrow> preemption_mode" where
  "choose_preemption_mode en g =
     (case cf_preemption_mode (en_config en) of
        None \<Rightarrow> if get_max_num_running_seqs g = 1 then RECOMPUTE else SWAP
      | Some m \<Rightarrow> if m = ''swap'' then SWAP else RECOMPUTE)"

definition preempt :: "env \<Rightarrow> gref \<Rightarrow> (sched_state, preemption_mode \<times> (nat \<times> nat) list) act" where
  "preempt en r =
     bind_act (gets (\<lambda>s. choose_preemption_mode en (group_at s r))) (\<lambda>mode.
     bind_act (modify (\<lambda>s. s\<lparr>sc_num_preemption := sc_num_preemption s + 1\<rparr>)) (\<lambda>_.
       (case mode of
          RECOMPUTE \<Rightarrow> bind_act (preempt_by_recompute en r) (\<lambda>_. ret (RECOMPUTE, []))
        | SWAP \<Rightarrow> bind_act (preempt_by_swap en r) (\<lambda>mapping. ret (SWAP, mapping)))))"

end
