(* ===== verification/SchedStep.thy ===== *)
theory SchedStep
  imports Scheduler
begin

text \<open>
  One scheduling step of \<open>src/vllm/vllm/core/scheduler.py\<close>: which running groups continue, which are
  preempted, which waiting groups start, and the metadata that is sent to the workers.
\<close>

section \<open>Running groups\<close>

type_synonym scheduled = "gref \<times> int"

record running_outputs =
  ro_decode :: "scheduled list"
  ro_prefill :: "scheduled list"
  ro_preempted :: "gref list"
  ro_swapped_out :: "gref list"
  ro_swap_out :: "(nat \<times> nat) list"
  ro_copy :: cows
  ro_lookahead :: int

definition running_outputs_new :: "int \<Rightarrow> running_outputs" where
  "running_outputs_new lookahead =
     \<lparr>ro_decode = [], ro_prefill = [], ro_preempted = [], ro_swapped_out = [], ro_swap_out = [], ro_copy = [], ro_lookahead = lookahead\<rparr>"

text \<open>One victim: what was pending for it is processed first, and then it may turn out to be finished.\<close>

definition preempt_victim :: "env \<Rightarrow> gref \<Rightarrow> running_outputs \<Rightarrow> (sched_state, running_outputs) act" where
  "preempt_victim en v ro =
     bind_act (gets (\<lambda>s. sg_request_id (group_at s v))) (\<lambda>rid.
     bind_act (if cf_use_async_output_proc (en_config en)
               then bind_act (en_output_proc en rid) (\<lambda>_. gets (\<lambda>s. sg_is_finished (group_at s v))) else ret False) (\<lambda>fin.
       if fin then bind_act (free_finished_seq_group en v) (\<lambda>_. ret ro)
       else
         bind_act (preempt en v) (\<lambda>(mode, mapping).
           ret (case mode of
                  RECOMPUTE \<Rightarrow> ro\<lparr>ro_preempted := ro_preempted ro @ [v], ro_swap_out := ro_swap_out ro @ mapping\<rparr>
                | SWAP \<Rightarrow> ro\<lparr>ro_swapped_out := ro_swapped_out ro @ [v], ro_swap_out := ro_swap_out ro @ mapping\<rparr>))))"

definition leave_budget :: "gref \<Rightarrow> int \<Rightarrow> (sched_state, unit) act" where
  "leave_budget r tokens =
     bind_act (gets (\<lambda>s. group_at s r)) (\<lambda>g.
     bind_act (mod_budget (bu_subtract_num_batched_tokens (sg_request_id g) tokens)) (\<lambda>_.
       mod_budget (bu_subtract_num_seqs (sg_request_id g) (get_max_num_running_seqs g))))"

definition leave_loras :: "gref \<Rightarrow> (sched_state, unit) act" where
  "leave_loras r =
     modify (\<lambda>s. let i = gr_lora_int_id (sc_groups s ! r)
       in s\<lparr>sc_loras := map_option (\<lambda>l. if 0 < i \<and> i \<in> l then l - {i} else l) (sc_loras s)\<rparr>)"

text \<open>
  Groups are taken from the end of the running queue until there is room for the slots of the
  group \<open>r\<close>; with an empty queue the group itself is the last victim. The result says whether
  there is room. Every round shortens the queue, whose length therefore bounds the rounds.
\<close>

fun make_room :: "env \<Rightarrow> bool \<Rightarrow> gref \<Rightarrow> int \<Rightarrow> nat \<Rightarrow> running_outputs \<Rightarrow> (sched_state, bool \<times> running_outputs) act" where
  "make_room en enable_chunking r tokens 0 ro = ret (False, ro)"
| "make_room en enable_chunking r tokens (Suc n) ro =
     bind_act (sched_can_append_slots en r enable_chunking) (\<lambda>ok.
       if ok then ret (True, ro)
       else
         bind_act (leave_budget r tokens) (\<lambda>_.
         bind_act (leave_loras r) (\<lambda>_.
         bind_act (gets sc_running) (\<lambda>queue.
           if queue = [] then bind_act (preempt_victim en r ro) (\<lambda>ro'. ret (False, ro'))
           else
             bind_act (modify (\<lambda>s. s\<lparr>sc_running := butlast queue\<rparr>)) (\<lambda>_.
             bind_act (preempt_victim en (last queue) ro) (\<lambda>ro'. make_room en enable_chunking r tokens n ro'))))))"

definition continue_group :: "env \<Rightarrow> bool \<Rightarrow> gref \<Rightarrow> int \<Rightarrow> running_outputs \<Rightarrow> (sched_state, running_outputs) act" where
  "continue_group en enable_chunking r tokens ro =
     bind_act (sched_append_slots en r enable_chunking) (\<lambda>cows.
     bind_act (gets (\<lambda>s. group_at s r)) (\<lambda>g.
     bind_act (on_budget (bu_add_num_batched_tokens (sg_request_id g) tokens 0)) (\<lambda>_.
     bind_act (if enable_chunking then mod_budget (bu_add_num_seqs (sg_request_id g) (get_max_num_running_seqs g)) else ret ()) (\<lambda>_.
     bind_act (modify (\<lambda>s. let i = gr_lora_int_id (sc_groups s ! r)
         in s\<lparr>sc_loras := map_option (\<lambda>l. if 0 < i then insert i l else l) (sc_loras s)\<rparr>)) (\<lambda>_.
       ret (if sg_is_prefill g then ro\<lparr>ro_copy := ro_copy ro @ cows, ro_prefill := ro_prefill ro @ [(r, tokens)]\<rparr>
            else ro\<lparr>ro_copy := ro_copy ro @ cows, ro_decode := ro_decode ro @ [(r, 1)]\<rparr>))))))"

text \<open>One round of the loop; None when the budget is used up.\<close>

definition run_front :: "env \<Rightarrow> bool \<Rightarrow> gref \<Rightarrow> running_outputs \<Rightarrow> (sched_state, running_outputs option) act" where
  "run_front en enable_chunking r ro =
     bind_act (gets sc_partial) (\<lambda>pm.
     bind_act (get_num_new_tokens en r RUNNING enable_chunking pm) (\<lambda>(tokens, _).
       if tokens = 0 then ret None
       else
         bind_act (modify (\<lambda>s. s\<lparr>sc_running := tl (sc_running s)\<rparr>)) (\<lambda>_.
         bind_act (gets (\<lambda>s. int (seq_get_len (first_seq (group_at s r))))) (\<lambda>len.
           if cf_use_async_output_proc (en_config en) \<and> cf_max_model_len (en_config en) < len
           then bind_act (modify (\<lambda>s. s\<lparr>sc_async_stopped := sc_async_stopped s @ [r]\<rparr>)) (\<lambda>_. ret (Some ro))
           else
             bind_act (gets (\<lambda>s. length (sc_running s))) (\<lambda>n.
             bind_act (make_room en enable_chunking r tokens (Suc n) ro) (\<lambda>(ok, ro').
               if ok then bind_act (continue_group en enable_chunking r tokens ro') (\<lambda>ro''. ret (Some ro'')) else ret (Some ro')))))))"

fun run_queue :: "env \<Rightarrow> bool \<Rightarrow> nat \<Rightarrow> running_outputs \<Rightarrow> (sched_state, running_outputs) act" where
  "run_queue en enable_chunking 0 ro = ret ro"
| "run_queue en enable_chunking (Suc n) ro =
     bind_act (gets sc_running) (\<lambda>queue.
       if queue = [] then ret ro
       else
         bind_act (run_front en enable_chunking (hd queue) ro) (\<lambda>outcome.
           (case outcome of None \<Rightarrow> ret ro | Some ro' \<Rightarrow> run_queue en enable_chunking n ro')))"

definition schedule_running :: "env \<Rightarrow> bool \<Rightarrow> (sched_state, running_outputs) act" where
  "schedule_running en enable_chunking =
     bind_act (gets (\<lambda>s. sc_async_stopped s = [])) (\<lambda>ok.
     bind_act (check ok) (\<lambda>_.
     bind_act (gets (\<lambda>s. length (sc_running s))) (\<lambda>n.
       run_queue en enable_chunking n (running_outputs_new (get_num_lookahead_slots (en_config en) False enable_chunking)))))"

section \<open>Preemption by priority\<close>

text \<open>
  Running groups with a worse priority than the first waiting group \<open>g\<close> are preempted, from the
  end of the sorted queue, until \<open>g\<close> can be allocated. The swapped blocks of the victims are
  dropped, as in the source. Every round takes one group from the queue.
\<close>

fun preempt_for :: "env \<Rightarrow> gref \<Rightarrow> int \<Rightarrow> gref list \<Rightarrow> nat \<Rightarrow> (sched_state, gref list \<times> nat) act" where
  "preempt_for en r tokens queue 0 = ret (queue, 0)"
| "preempt_for en r tokens queue (Suc n) =
     bind_act (gets (\<lambda>s. queue \<noteq> [] \<and> get_priority (group_at s r) < get_priority (group_at s (last queue)))) (\<lambda>inversion.
       if \<not> inversion then ret (queue, 0)
       else
         bind_act (gets (\<lambda>s. can_allocate (en_digest en) (en_hash_pair en) (group_at s r) 0 (sc_bm s))) (\<lambda>a.
         bind_act (lift_res a) (\<lambda>a.
         bind_act (if 0 < tokens \<and> a = OK
                   then bind_act (gets (\<lambda>s. bu_can_schedule tokens (get_max_num_running_seqs (group_at s r)) (sc_budget s))) lift_res
                   else ret False) (\<lambda>fits.
           if fits then ret (queue, 0)
           else
             (let v = last queue
              in bind_act (get_num_new_tokens en v RUNNING False None) (\<lambda>(victim_tokens, _).
                 bind_act (leave_budget v victim_tokens) (\<lambda>_.
                 bind_act (preempt en v) (\<lambda>_.
                 bind_act (modify (\<lambda>s. s\<lparr>sc_waiting := v # sc_waiting s\<rparr>)) (\<lambda>_.
                 bind_act (preempt_for en r tokens (butlast queue) n) (\<lambda>(queue', k). ret (queue', Suc k)))))))))))"

definition schedule_priority_preemption :: "env \<Rightarrow> (sched_state, nat) act" where
  "schedule_priority_preemption en =
     bind_act (gets (\<lambda>s. (sort_key (\<lambda>r. get_priority (group_at s r)) (sc_running s), sc_waiting s))) (\<lambda>(queue, waiting).
     bind_act (case waiting of
                 [] \<Rightarrow> ret (queue, 0)
               | r # rest \<Rightarrow>
                   bind_act (modify (\<lambda>s. s\<lparr>sc_waiting := rest\<rparr>)) (\<lambda>_.
                   bind_act (get_num_new_tokens en r WAITING False None) (\<lambda>(tokens, _).
                   bind_act (preempt_for en r tokens queue (length queue)) (\<lambda>(queue', k).
                   bind_act (modify (\<lambda>s. s\<lparr>sc_waiting := r # sc_waiting s\<rparr>)) (\<lambda>_.
                   bind_act (remove_from_tracker r WAITING) (\<lambda>_. ret (queue', k))))))) (\<lambda>(queue', k).
     bind_act (modify (\<lambda>s. s\<lparr>sc_waiting := sort_key (\<lambda>r. get_priority (group_at s r)) (sc_waiting s), sc_running := queue'\<rparr>)) (\<lambda>_.
       ret k)))"

section \<open>Waiting groups\<close>

definition resolve_one :: "env \<Rightarrow> gref \<Rightarrow> seq \<Rightarrow> (sched_state, unit) act" where
  "resolve_one en r q =
     bind_act (resolve_cached_prefix_len en r q) (\<lambda>initial.
     bind_act (has_synthetic_cache_source r) (\<lambda>synthetic.
     bind_act (if synthetic \<and> 0 < initial then
                 bind_act (on_bm (register_synthetic_cached_tokens q initial)) (\<lambda>effective.
                   (let computed = sd_num_computed_tokens (sq_data q)
                    in if computed < effective then
                         (case sd_update_num_computed_tokens (effective - computed) (sq_data q) of
                            (x, d) \<Rightarrow>
                              bind_act (modify (upd_seq r (sq_seq_id q) (\<lambda>q. q\<lparr>sq_data := d\<rparr>))) (\<lambda>_.
                              bind_act (lift_res x) (\<lambda>_.
                                modify (upd_seq r (sq_seq_id q) (\<lambda>q. q\<lparr>sq_data := sd_update_num_cached_tokens effective (sq_data q)\<rparr>)))))
                       else ret ()))
               else ret ()) (\<lambda>_.
       modify (set_seq_status r (sq_seq_id q) RUNNING))))"

definition allocate_and_set_running :: "env \<Rightarrow> gref \<Rightarrow> (sched_state, (nat \<times> nat) list) act" where
  "allocate_and_set_running en r =
     bind_act (gets (\<lambda>s. group_at s r)) (\<lambda>g.
     bind_act (on_bm (bm_allocate (en_digest en) (en_hash_pair en) g)) (\<lambda>swaps.
     bind_act (for_each (resolve_one en r) (get_seqs (Some WAITING) g)) (\<lambda>_. ret swaps)))"

record prefill_outputs =
  po_seq_groups :: "scheduled list"
  po_ignored :: "gref list"
  po_leftover :: "gref list"
  po_swap_in :: "(nat \<times> nat) list"
  po_using_embeds :: bool

definition prefill_outputs_new :: prefill_outputs where
  "prefill_outputs_new = \<lparr>po_seq_groups = [], po_ignored = [], po_leftover = [], po_swap_in = [], po_using_embeds = False\<rparr>"

text \<open>What the checks decide about the first waiting group; \<open>Start\<close> has its uncached and cached tokens and the lookahead slots.\<close>

datatype decision = Postpone | Ignore | Stop | Start int int int

definition ignore_group :: "gref \<Rightarrow> (sched_state, decision) act" where
  "ignore_group r =
     bind_act (gets (\<lambda>s. get_seqs (Some WAITING) (group_at s r))) (\<lambda>qs.
     bind_act (for_each (\<lambda>q. modify (set_seq_status r (sq_seq_id q) FINISHED_IGNORED)) qs) (\<lambda>_.
     bind_act (remove_from_tracker r FINISHED_IGNORED) (\<lambda>_. ret Ignore)))"

definition give_back :: "gref \<Rightarrow> decision \<Rightarrow> (sched_state, decision) act" where
  "give_back r d = bind_act (remove_from_tracker r WAITING) (\<lambda>_. ret d)"

definition no_lora_room :: "env \<Rightarrow> gref \<Rightarrow> sched_state \<Rightarrow> bool res" where
  "no_lora_room en r s =
     (case cf_max_loras (en_config en) of
        None \<Rightarrow> Inr False
      | Some m \<Rightarrow>
          (case sc_loras s of
             None \<Rightarrow> Inl AssertionError
           | Some l \<Rightarrow> (let i = gr_lora_int_id (sc_groups s ! r) in Inr (0 < i \<and> i \<notin> l \<and> m \<le> int (card l)))))"

text \<open>The checks after the allocator has agreed.\<close>

definition decide_start :: "env \<Rightarrow> gref \<Rightarrow> bool \<Rightarrow> int \<Rightarrow> int \<Rightarrow> int \<Rightarrow> (sched_state, decision) act" where
  "decide_start en r using_embeds uncached cached lookahead =
     bind_act (gets (\<lambda>s. gr_uses_embeds (sc_groups s ! r))) (\<lambda>embeds.
       if using_embeds \<noteq> embeds then give_back r Postpone
       else
         bind_act (gets (no_lora_room en r)) (\<lambda>x. bind_act (lift_res x) (\<lambda>no_lora.
           if no_lora then give_back r Postpone
           else
             bind_act (gets (\<lambda>s. bu_num_batched_tokens (sc_budget s))) (\<lambda>batched.
               if cf_max_num_batched_tokens (en_config en) \<le> batched then give_back r Stop
               else
                 bind_act (gets (\<lambda>s. get_max_num_running_seqs (group_at s r))) (\<lambda>n.
                 bind_act (if uncached = 0 then ret False
                           else bind_act (gets (\<lambda>s. bu_can_schedule uncached n (sc_budget s))) lift_res) (\<lambda>fits.
                   if fits then ret (Start uncached cached lookahead) else give_back r Stop))))))"

text \<open>What follows from the answer of the allocator.\<close>

definition decide_allocated :: "env \<Rightarrow> gref \<Rightarrow> prefill_outputs \<Rightarrow> int \<Rightarrow> int \<Rightarrow> int \<Rightarrow> alloc_status \<Rightarrow> (sched_state, decision \<times> bool) act" where
  "decide_allocated en r po uncached cached lookahead a =
     (case a of
        LATER \<Rightarrow> bind_act (give_back r Stop) (\<lambda>d. ret (d, po_using_embeds po))
      | NEVER \<Rightarrow> bind_act (ignore_group r) (\<lambda>d. ret (d, po_using_embeds po))
      | OK \<Rightarrow>
          bind_act (gets (\<lambda>s. if po_seq_groups po = [] then gr_uses_embeds (sc_groups s ! r) else po_using_embeds po)) (\<lambda>embeds.
          bind_act (decide_start en r embeds uncached cached lookahead) (\<lambda>d. ret (d, embeds))))"

definition decide_prefill :: "env \<Rightarrow> bool \<Rightarrow> gref \<Rightarrow> prefill_outputs \<Rightarrow> (sched_state, decision \<times> bool) act" where
  "decide_prefill en enable_chunking r po =
     (let cf = en_config en
      in bind_act (gets (\<lambda>s. get_seqs (Some WAITING) (group_at s r))) (\<lambda>qs.
         bind_act (check (length qs = 1)) (\<lambda>_.
         bind_act (gets (\<lambda>s. (group_at s r, sc_partial s))) (\<lambda>(g, pm).
           if (case pm of Some p \<Rightarrow> \<not> pm_can_schedule cf g p | None \<Rightarrow> False) then ret (Postpone, po_using_embeds po)
           else
             bind_act (get_num_new_tokens en r WAITING enable_chunking pm) (\<lambda>(uncached, cached).
             bind_act (check (enable_chunking \<or> uncached + cached = int (seq_get_len (hd qs)))) (\<lambda>_.
             bind_act (gets (\<lambda>s. get_prompt_limit cf (sc_groups s ! r))) (\<lambda>x. bind_act (lift_res x) (\<lambda>limit.
               if limit < uncached + cached then bind_act (ignore_group r) (\<lambda>d. ret (d, po_using_embeds po))
               else
                 (let lookahead = (if cf_is_multi_step cf \<and> enable_chunking then get_num_lookahead_slots cf True enable_chunking else 0)
                  in bind_act (gets (\<lambda>s. can_allocate (en_digest en) (en_hash_pair en) g lookahead (sc_bm s))) (\<lambda>x. bind_act (lift_res x) (\<lambda>a.
                       decide_allocated en r po uncached cached lookahead a)))))))))))"

definition start_group :: "env \<Rightarrow> bool \<Rightarrow> gref \<Rightarrow> int \<Rightarrow> int \<Rightarrow> int \<Rightarrow> prefill_outputs \<Rightarrow> (sched_state, prefill_outputs) act" where
  "start_group en enable_chunking r uncached cached lookahead po =
     (let cf = en_config en
      in bind_act (gets (\<lambda>s. get_max_num_running_seqs (group_at s r))) (\<lambda>n.
         bind_act (modify (\<lambda>s. let i = gr_lora_int_id (sc_groups s ! r)
             in if cf_max_loras cf \<noteq> None \<and> 0 < i then s\<lparr>sc_loras := map_option (insert i) (sc_loras s)\<rparr> else s)) (\<lambda>_.
         bind_act (has_synthetic_cache_source r) (\<lambda>synthetic.
         bind_act (modify (\<lambda>s. s\<lparr>sc_waiting := tl (sc_waiting s)\<rparr>)) (\<lambda>_.
         bind_act (allocate_and_set_running en r) (\<lambda>swaps.
         bind_act (consume_exact_gpu_cache_hit en r) (\<lambda>_.
         bind_act (modify (\<lambda>s. s\<lparr>sc_partial := map_option (pm_maybe_increment cf (group_at s r)) (sc_partial s)\<rparr>)) (\<lambda>_.
         bind_act (if enable_chunking \<and> cf_is_multi_step cf
                   then bind_act (sched_append_slots en r enable_chunking) (\<lambda>cows. check (cows = []))
                   else on_group r (init_multi_step_from_lookahead_slots lookahead (cf_num_scheduler_steps cf) (cf_is_multi_step cf) enable_chunking)) (\<lambda>_.
         bind_act (gets (\<lambda>s. sg_request_id (group_at s r))) (\<lambda>rid.
         bind_act (on_budget (bu_add_num_batched_tokens rid uncached cached)) (\<lambda>_.
         bind_act (mod_budget (bu_add_num_seqs rid n)) (\<lambda>_.
           ret (po\<lparr>po_seq_groups := po_seq_groups po @ [(r, if synthetic then uncached else uncached + cached)],
                   po_swap_in := po_swap_in po @ swaps\<rparr>)))))))))))))"

text \<open>One round of the loop; the result says whether the loop goes on.\<close>

definition carry_out :: "env \<Rightarrow> bool \<Rightarrow> gref \<Rightarrow> prefill_outputs \<Rightarrow> decision \<Rightarrow> (sched_state, bool \<times> prefill_outputs) act" where
  "carry_out en enable_chunking r po d =
     (let pop = modify (\<lambda>s. s\<lparr>sc_waiting := tl (sc_waiting s)\<rparr>)
      in case d of
           Stop \<Rightarrow> ret (False, po)
         | Postpone \<Rightarrow> bind_act pop (\<lambda>_. ret (True, po\<lparr>po_leftover := r # po_leftover po\<rparr>))
         | Ignore \<Rightarrow> bind_act pop (\<lambda>_. ret (True, po\<lparr>po_ignored := po_ignored po @ [r]\<rparr>))
         | Start uncached cached lookahead \<Rightarrow>
             bind_act (start_group en enable_chunking r uncached cached lookahead po) (\<lambda>po'. ret (True, po')))"

definition prefill_front :: "env \<Rightarrow> bool \<Rightarrow> gref \<Rightarrow> prefill_outputs \<Rightarrow> (sched_state, bool \<times> prefill_outputs) act" where
  "prefill_front en enable_chunking r po =
     bind_act (decide_prefill en enable_chunking r po) (\<lambda>(d, embeds). carry_out en enable_chunking r (po\<lparr>po_using_embeds := embeds\<rparr>) d)"

text \<open>Every round takes the first waiting group from the queue or ends the loop.\<close>

fun prefill_queue :: "env \<Rightarrow> bool \<Rightarrow> nat \<Rightarrow> prefill_outputs \<Rightarrow> (sched_state, prefill_outputs) act" where
  "prefill_queue en enable_chunking 0 po = ret po"
| "prefill_queue en enable_chunking (Suc n) po =
     bind_act (passed_delay en) (\<lambda>passed.
     bind_act (gets sc_waiting) (\<lambda>queue.
       if \<not> passed \<or> queue = [] then ret po
       else
         bind_act (prefill_front en enable_chunking (hd queue) po) (\<lambda>(continue, po').
           if continue then prefill_queue en enable_chunking n po' else ret po')))"

definition schedule_prefills :: "env \<Rightarrow> bool \<Rightarrow> (sched_state, prefill_outputs) act" where
  "schedule_prefills en enable_chunking =
     bind_act (gets (\<lambda>s. bu_remaining_token_budget (sc_budget s) = 0)) (\<lambda>no_budget.
       if no_budget then ret prefill_outputs_new
       else
         bind_act (gets (\<lambda>s. Suc (length (sc_waiting s)))) (\<lambda>n.
         bind_act (prefill_queue en enable_chunking n prefill_outputs_new) (\<lambda>po.
         bind_act (modify (\<lambda>s. s\<lparr>sc_waiting := rev (po_leftover po) @ sc_waiting s,
             sc_prev_prompt := (po_seq_groups po \<noteq> [] \<or> sc_prev_prompt s)\<rparr>)) (\<lambda>_. ret po))))"

section \<open>The whole step\<close>

record sched_outputs =
  so_scheduled :: "scheduled list"
  so_num_prefill_groups :: nat
  so_num_batched_tokens :: int
  so_swap_in :: "(nat \<times> nat) list"
  so_swap_out :: "(nat \<times> nat) list"
  so_copy :: cows
  so_ignored :: "gref list"
  so_lookahead :: int
  so_running_queue_size :: nat
  so_preempted :: nat

definition so_is_empty :: "sched_outputs \<Rightarrow> bool" where
  "so_is_empty o' \<longleftrightarrow> so_scheduled o' = [] \<and> so_swap_in o' = [] \<and> so_swap_out o' = [] \<and> so_copy o' = []"

definition lora_requests :: "sched_state \<Rightarrow> sched_outputs \<Rightarrow> (int \<times> int option) set" where
  "lora_requests s so = set (concat (map (\<lambda>(r, _). case gr_lora (sc_groups s ! r) of None \<Rightarrow> [] | Some l \<Rightarrow> [l]) (so_scheduled so)))"

text \<open>With LoRA requests the batch is sorted by adapter; prefills stay before decodes in a mixed batch.\<close>

definition lora_sorted :: "sched_state \<Rightarrow> nat \<Rightarrow> scheduled list \<Rightarrow> scheduled list" where
  "lora_sorted s prefills xs =
     sort_key (\<lambda>(r, _). (0 < prefills \<and> prefills < length xs \<and> \<not> sg_is_prefill (group_at s r),
                         gr_lora_int_id (sc_groups s ! r), sg_request_id (group_at s r))) xs"

definition outputs_post_init :: "sched_outputs \<Rightarrow> (sched_state, sched_outputs) act" where
  "outputs_post_init so =
     bind_act (check (so_swap_in so = [] \<or> so_swap_out so = [])) (\<lambda>_.
     bind_act (gets (\<lambda>s. list_ex (\<lambda>(r, _). gr_lora (sc_groups s ! r) \<noteq> None) (so_scheduled so))) (\<lambda>loras.
       if \<not> loras then ret so
       else
         bind_act (check (so_num_prefill_groups so \<le> length (so_scheduled so))) (\<lambda>_.
           gets (\<lambda>s. so\<lparr>so_scheduled := lora_sorted s (so_num_prefill_groups so) (so_scheduled so)\<rparr>))))"

definition check_budget_limits :: "env \<Rightarrow> (sched_state, unit) act" where
  "check_budget_limits en =
     bind_act (gets sc_budget) (\<lambda>b.
     bind_act (check (bu_num_batched_tokens b \<le> cf_max_num_batched_tokens (en_config en))) (\<lambda>_.
       check (bu_num_curr_seqs b \<le> cf_max_num_seqs (en_config en))))"

definition new_budget :: "env \<Rightarrow> budget" where
  "new_budget en = budget_new (cf_max_num_batched_tokens (en_config en)) (cf_max_num_seqs (en_config en))"

definition start_default :: "env \<Rightarrow> sched_state \<Rightarrow> sched_state" where
  "start_default en s =
     s\<lparr>sc_budget := fold (\<lambda>r. bu_add_num_seqs (sg_request_id (group_at s r)) (get_max_num_running_seqs (group_at s r))) (sc_running s) (new_budget en),
       sc_loras := (if cf_max_loras (en_config en) \<noteq> None
                    then Some (set (filter (\<lambda>i. 0 < i) (map (\<lambda>r. gr_lora_int_id (sc_groups s ! r)) (sc_running s)))) else None),
       sc_partial := None\<rparr>"

text \<open>Groups of a decode batch that differ from its first one in the use of embeddings are left out.\<close>

definition split_by_embeds :: "sched_state \<Rightarrow> scheduled list \<Rightarrow> scheduled list \<times> gref list" where
  "split_by_embeds s xs =
     (case xs of
        [] \<Rightarrow> ([], [])
      | (r0, _) # _ \<Rightarrow>
          (let same = (\<lambda>(r, _). gr_uses_embeds (sc_groups s ! r) = gr_uses_embeds (sc_groups s ! r0))
           in (filter same xs, map fst (filter (\<lambda>x. \<not> same x) xs))))"

definition requeue :: "prefill_outputs \<Rightarrow> running_outputs \<Rightarrow> gref list \<Rightarrow> sched_state \<Rightarrow> sched_state" where
  "requeue po ro continued s =
     s\<lparr>sc_waiting := rev (ro_swapped_out ro) @ rev (ro_preempted ro) @ sc_waiting s, sc_running := sc_running s @ continued\<rparr>"

text \<open>The batch of a step with prefills, or of one with decodes only.\<close>

definition default_batch :: "prefill_outputs \<Rightarrow> running_outputs \<Rightarrow> sched_state \<Rightarrow> scheduled list \<times> gref list" where
  "default_batch po ro s =
     (if po_seq_groups po \<noteq> [] then (po_seq_groups po @ ro_decode ro, []) else split_by_embeds s (ro_decode ro))"

definition default_outputs :: "prefill_outputs \<Rightarrow> running_outputs \<Rightarrow> sched_state \<Rightarrow> sched_outputs" where
  "default_outputs po ro s =
     \<lparr>so_scheduled = fst (default_batch po ro s), so_num_prefill_groups = length (po_seq_groups po),
      so_num_batched_tokens = bu_num_batched_tokens (sc_budget s) + bu_num_cached_tokens (sc_budget s),
      so_swap_in = po_swap_in po, so_swap_out = ro_swap_out ro, so_copy = ro_copy ro,
      so_ignored = po_ignored po @ snd (default_batch po ro s), so_lookahead = ro_lookahead ro,
      so_running_queue_size = length (sc_running s), so_preempted = length (ro_preempted ro) + length (ro_swapped_out ro)\<rparr>"

definition finish_default :: "env \<Rightarrow> prefill_outputs \<Rightarrow> running_outputs \<Rightarrow> (sched_state, sched_outputs) act" where
  "finish_default en po ro =
     bind_act (check_budget_limits en) (\<lambda>_.
     bind_act (modify (requeue po ro (map fst (po_seq_groups po) @ map fst (ro_decode ro)))) (\<lambda>_.
     bind_act (check (ro_prefill ro = [])) (\<lambda>_.
     bind_act (gets (default_outputs po ro)) outputs_post_init)))"

definition schedule_default :: "env \<Rightarrow> (sched_state, sched_outputs) act" where
  "schedule_default en =
     bind_act (modify (start_default en)) (\<lambda>_.
     bind_act (gets (\<lambda>s. sc_swapped s = [] \<and> sc_pending_swap_out s = [])) (\<lambda>admit.
     bind_act (if admit then schedule_prefills en False else ret prefill_outputs_new) (\<lambda>po.
     bind_act (if po_seq_groups po = [] \<and> cf_policy (en_config en) = ''priority'' then schedule_priority_preemption en else ret 0) (\<lambda>_.
     bind_act (if po_seq_groups po = [] then schedule_running en False else ret (running_outputs_new 0)) (\<lambda>ro.
       finish_default en po ro)))))"

definition order_finishing_prefills_first :: "sched_state \<Rightarrow> scheduled list \<Rightarrow> gref list" where
  "order_finishing_prefills_first s xs =
     (let finishing = (\<lambda>(r, n). sg_get_num_uncomputed_tokens (group_at s r) = n)
      in map fst (filter finishing xs) @ map fst (filter (\<lambda>x. \<not> finishing x) xs))"

definition start_chunked :: "env \<Rightarrow> sched_state \<Rightarrow> sched_state" where
  "start_chunked en s =
     s\<lparr>sc_budget := new_budget en, sc_loras := Some {},
       sc_partial := Some (pm_from_queues (en_config en) (map (group_at s) (sc_running s)) (map (group_at s) (sc_waiting s)))\<rparr>"

definition chunked_outputs :: "env \<Rightarrow> prefill_outputs \<Rightarrow> running_outputs \<Rightarrow> sched_state \<Rightarrow> sched_outputs" where
  "chunked_outputs en po ro s =
     (let scheduled = po_seq_groups po @ ro_prefill ro @ ro_decode ro;
          prefills = length (po_seq_groups po) + length (ro_prefill ro)
      in \<lparr>so_scheduled = scheduled, so_num_prefill_groups = prefills,
          so_num_batched_tokens = bu_num_batched_tokens (sc_budget s) + bu_num_cached_tokens (sc_budget s),
          so_swap_in = po_swap_in po, so_swap_out = ro_swap_out ro, so_copy = ro_copy ro, so_ignored = po_ignored po,
          so_lookahead = (if length scheduled = prefills \<and> \<not> cf_is_multi_step (en_config en) then 0 else ro_lookahead ro),
          so_running_queue_size = length (sc_running s),
          so_preempted = length (ro_preempted ro) + length (ro_swapped_out ro)\<rparr>)"

definition finish_chunked :: "env \<Rightarrow> prefill_outputs \<Rightarrow> running_outputs \<Rightarrow> (sched_state, sched_outputs) act" where
  "finish_chunked en po ro =
     bind_act (check_budget_limits en) (\<lambda>_.
     bind_act (modify (\<lambda>s. requeue po ro (map fst (ro_decode ro) @ order_finishing_prefills_first s (ro_prefill ro) @ map fst (po_seq_groups po)) s)) (\<lambda>_.
     bind_act (gets (chunked_outputs en po ro)) outputs_post_init))"

definition schedule_chunked_prefill :: "env \<Rightarrow> (sched_state, sched_outputs) act" where
  "schedule_chunked_prefill en =
     bind_act (modify (start_chunked en)) (\<lambda>_.
     bind_act (schedule_running en True) (\<lambda>ro.
     bind_act (gets (\<lambda>s. ro_swap_out ro \<noteq> [] \<or> sc_pending_swap_out s \<noteq> [])) (\<lambda>has_swap_out.
     bind_act (if has_swap_out then ret prefill_outputs_new else schedule_prefills en True) (\<lambda>po.
       finish_chunked en po ro))))"

definition sort_waiting_by_query_id :: "(sched_state, unit) act" where
  "sort_waiting_by_query_id =
     bind_act (gets (\<lambda>s. sort_by_query_id s (sc_waiting s))) (\<lambda>x.
     bind_act (lift_res x) (\<lambda>q. modify (\<lambda>s. s\<lparr>sc_waiting := q\<rparr>)))"

definition sort_running_by_query_id :: "(sched_state, unit) act" where
  "sort_running_by_query_id =
     bind_act (gets (\<lambda>s. sort_by_query_id s (sc_running s))) (\<lambda>x.
     bind_act (lift_res x) (\<lambda>q. modify (\<lambda>s. s\<lparr>sc_running := q\<rparr>)))"

definition schedule_step :: "env \<Rightarrow> (sched_state, sched_outputs) act" where
  "schedule_step en =
     bind_act sort_waiting_by_query_id (\<lambda>_.
     bind_act sort_running_by_query_id (\<lambda>_.
       if cf_chunked_prefill_enabled (en_config en) then schedule_chunked_prefill en else schedule_default en))"

section \<open>The data for the workers\<close>

text \<open>Sampling parameters, adapters and multi-modal inputs are passed on and left out here.\<close>

record group_meta =
  gm_request_id :: string
  gm_is_prompt :: bool
  gm_block_tables :: "(int, block_id list) dict"
  gm_do_sample :: bool
  gm_token_chunk_size :: int
  gm_computed_block_nums :: "block_id list"

datatype metadata =
    FullMeta group_meta "(int, seq_data) dict" "(seq_data \<times> block_id list) option"
  | DeltaMeta group_meta "(int, seq_delta) dict"

definition seq_table :: "env \<Rightarrow> pyfloat \<Rightarrow> seq \<Rightarrow> (sched_state, int \<times> block_id list) act" where
  "seq_table en now q =
     bind_act (gets (\<lambda>s. get_block_table q (sc_bm s))) (\<lambda>x.
     bind_act (lift_res x) (\<lambda>ids.
     bind_act (on_bm (access_all_blocks_in_seq q now)) (\<lambda>_. ret (sq_seq_id q, ids))))"

definition send_delta :: "gref \<Rightarrow> seq \<Rightarrow> (sched_state, int \<times> seq_delta) act" where
  "send_delta r q =
     (case sd_get_delta_and_reset (sq_data q) of
        (dl, d) \<Rightarrow> bind_act (modify (upd_seq r (sq_seq_id q) (\<lambda>q. q\<lparr>sq_data := d\<rparr>))) (\<lambda>_. ret (sq_seq_id q, dl)))"

definition group_metadata :: "env \<Rightarrow> pyfloat \<Rightarrow> scheduled \<Rightarrow> (sched_state, metadata) act" where
  "group_metadata en now sg =
     (case sg of (r, chunk) \<Rightarrow>
        bind_act (modify (upd_group r (maybe_set_first_scheduled_time now))) (\<lambda>_.
        bind_act (gets (\<lambda>s. group_at s r)) (\<lambda>g.
        bind_act (case sg_encoder_seq g of
                    None \<Rightarrow> ret None
                  | Some e \<Rightarrow> bind_act (gets (\<lambda>s. get_cross_block_table g (sc_bm s))) (\<lambda>x. bind_act (lift_res x) (\<lambda>t. ret (Some (sq_data e, t))))) (\<lambda>enc.
          let running = get_seqs (Some RUNNING) g
          in bind_act (map_act (seq_table en now) running) (\<lambda>tables.
             bind_act (if cf_enable_prefix_caching (en_config en) \<or> 0 < get_initial_cached_tokens g
                       then on_bm (bm_get_common_computed_block_ids (en_digest en) (en_hash_pair en) running) else ret []) (\<lambda>computed.
             bind_act (check (\<not> sg_is_prefill g \<or> length (sg_seqs g) = 1)) (\<lambda>_.
               let d = sq_data (first_seq g);
                   first_prefill = (sg_is_prefill g \<and> sd_num_computed_tokens d = 0);
                   sample = (\<not> sg_is_prefill g \<or> \<not> chunk + sd_num_computed_tokens d < int (sd_get_len d));
                   gm = \<lparr>gm_request_id = sg_request_id g, gm_is_prompt = sg_is_prefill g, gm_block_tables = tables, gm_do_sample = sample,
                         gm_token_chunk_size = chunk, gm_computed_block_nums = computed\<rparr>
               in if first_prefill \<or> \<not> cf_send_delta_data (en_config en)
                  then ret (FullMeta gm (map (\<lambda>q. (sq_seq_id q, sq_data q)) running) enc)
                  else bind_act (map_act (send_delta r) running) (\<lambda>ds. ret (DeltaMeta gm ds)))))))))"

definition allow_async_output_proc :: "sgroup \<Rightarrow> bool" where
  "allow_async_output_proc g \<longleftrightarrow> gr_n g = None \<or> gr_n g = Some 1"

definition schedule :: "env \<Rightarrow> (sched_state, metadata list \<times> sched_outputs \<times> bool) act" where
  "schedule en =
     bind_act (schedule_step en) (\<lambda>so0.
     bind_act (gets (\<lambda>s. so0\<lparr>so_swap_out := so_swap_out so0 @ sc_pending_swap_out s\<rparr>)) (\<lambda>so.
     bind_act (modify (\<lambda>s. s\<lparr>sc_pending_swap_out := []\<rparr>)) (\<lambda>_.
     bind_act (read_clock en) (\<lambda>now.
     bind_act (map_act (group_metadata en now) (so_scheduled so)) (\<lambda>ms.
     bind_act (gets (\<lambda>s. cf_use_async_output_proc (en_config en)
         \<and> list_all (\<lambda>(r, _). allow_async_output_proc (sc_groups s ! r)) (so_scheduled so))) (\<lambda>allow.
     bind_act (for_each (\<lambda>(r, chunk). bind_act (gets (\<lambda>s. group_at s r)) (\<lambda>g. on_bm (bm_mark_blocks_as_computed g chunk))) (so_scheduled so)) (\<lambda>_.
       ret (ms, so, allow))))))))"

end
