(* ===== verification/SchedFrame.thy ===== *)
theory SchedFrame
  imports SchedStep
begin

text \<open>
  Rules for reasoning about operations of the scheduler. \<open>keeps q f\<close> says that \<open>f\<close> leaves \<open>q\<close> of the
  state alone, whether or not it raises; \<open>wp f Q s\<close> that \<open>Q\<close> holds of the result and the state
  whenever \<open>f\<close> returns from \<open>s\<close>. Two locales state what the operations that only reach into the
  block manager, and those that also change sequence groups, leave alone.
\<close>

named_theorems keeps_rules "operations that leave a part of the state alone"
named_theorems wp_rules "what holds after an operation"

section \<open>What an operation leaves alone\<close>

definition keeps :: "('s \<Rightarrow> 'q) \<Rightarrow> ('s, 'a) act \<Rightarrow> bool" where
  "keeps q f \<longleftrightarrow> (\<forall>s. q (snd (f s)) = q s)"

lemma keepsD: "keeps q f \<Longrightarrow> f s = (x, s') \<Longrightarrow> q s' = q s"
  unfolding keeps_def by (metis snd_conv)

lemma keepsI: "(\<And>s x s'. f s = (x, s') \<Longrightarrow> q s' = q s) \<Longrightarrow> keeps q f"
  unfolding keeps_def by (metis surjective_pairing)

lemma keeps_ret [keeps_rules]: "keeps q (ret x)"
  by (simp add: keeps_def ret_def)

lemma keeps_raise [keeps_rules]: "keeps q (raise e)"
  by (simp add: keeps_def raise_def)

lemma keeps_check [keeps_rules]: "keeps q (check b)"
  by (simp add: keeps_def check_def)

lemma keeps_gets [keeps_rules]: "keeps q (gets f)"
  by (simp add: keeps_def gets_def)

lemma keeps_lift_res [keeps_rules]: "keeps q (lift_res r)"
  by (simp add: keeps_def lift_res_def)

lemma keeps_bind [keeps_rules]: "keeps q f \<Longrightarrow> (\<And>x. keeps q (g x)) \<Longrightarrow> keeps q (bind_act f g)"
  by (auto simp: keeps_def bind_act_def split: prod.splits sum.splits) (metis snd_conv)+

lemma keeps_modify [keeps_rules]: "(\<And>s. q (h s) = q s) \<Longrightarrow> keeps q (modify h)"
  by (simp add: keeps_def modify_def)

lemma keeps_if [keeps_rules]: "keeps q f \<Longrightarrow> keeps q g \<Longrightarrow> keeps q (if b then f else g)"
  by simp

lemma keeps_let [keeps_rules]: "keeps q (f x) \<Longrightarrow> keeps q (let y = x in f y)"
  by simp

lemma keeps_option [keeps_rules]: "keeps q f \<Longrightarrow> (\<And>x. keeps q (g x)) \<Longrightarrow> keeps q (case z of None \<Rightarrow> f | Some x \<Rightarrow> g x)"
  by (cases z) auto

lemma keeps_prod [keeps_rules]: "(\<And>x y. keeps q (f x y)) \<Longrightarrow> keeps q (case z of (x, y) \<Rightarrow> f x y)"
  by (cases z) auto

lemma keeps_mode [keeps_rules]: "keeps q f \<Longrightarrow> keeps q g \<Longrightarrow> keeps q (case m of SWAP \<Rightarrow> f | RECOMPUTE \<Rightarrow> g)"
  by (cases m) auto

lemma keeps_alloc_status [keeps_rules]: "keeps q f \<Longrightarrow> keeps q g \<Longrightarrow> keeps q h \<Longrightarrow> keeps q (case a of OK \<Rightarrow> f | LATER \<Rightarrow> g | NEVER \<Rightarrow> h)"
  by (cases a) auto

lemma keeps_for_each [keeps_rules]: "(\<And>x. keeps q (f x)) \<Longrightarrow> keeps q (for_each f xs)"
  by (induction xs) (auto intro: keeps_rules)

lemma keeps_map_act [keeps_rules]: "(\<And>x. keeps q (f x)) \<Longrightarrow> keeps q (map_act f xs)"
  by (induction xs) (auto intro!: keeps_rules)

section \<open>What holds after an operation\<close>

definition wp :: "('s, 'a) act \<Rightarrow> ('a \<Rightarrow> 's \<Rightarrow> bool) \<Rightarrow> 's \<Rightarrow> bool" where
  "wp f Q s \<longleftrightarrow> (\<forall>x s'. f s = (Inr x, s') \<longrightarrow> Q x s')"

lemma wpD: "wp f Q s \<Longrightarrow> f s = (Inr x, s') \<Longrightarrow> Q x s'"
  by (simp add: wp_def)

lemma wp_ret [simp]: "wp (ret x) Q = Q x"
  by (simp add: fun_eq_iff wp_def ret_def)

lemma wp_gets [simp]: "wp (gets f) Q s \<longleftrightarrow> Q (f s) s"
  by (simp add: wp_def gets_def)

lemma wp_modify [simp]: "wp (modify h) Q s \<longleftrightarrow> Q () (h s)"
  by (simp add: wp_def modify_def)

lemma wp_check [simp]: "wp (check b) Q s \<longleftrightarrow> (b \<longrightarrow> Q () s)"
  by (simp add: wp_def check_def)

lemma wp_raise [simp]: "wp (raise e) Q s"
  by (simp add: wp_def raise_def)

lemma wp_lift_res [simp]: "wp (lift_res r) Q s \<longleftrightarrow> (\<forall>x. r = Inr x \<longrightarrow> Q x s)"
  by (simp add: wp_def lift_res_def)

lemma wp_bind [simp]: "wp (bind_act f g) Q = wp f (\<lambda>x. wp (g x) Q)"
  by (auto simp: fun_eq_iff wp_def bind_act_Inr_iff)

lemma wp_if [simp]: "wp (if b then f else g) Q s \<longleftrightarrow> (b \<longrightarrow> wp f Q s) \<and> (\<not> b \<longrightarrow> wp g Q s)"
  by simp

lemma wp_intros [wp_rules]:
  "wp f (\<lambda>x. wp (g x) Q) s \<Longrightarrow> wp (bind_act f g) Q s" "Q' y s \<Longrightarrow> wp (ret y) Q' s" "Q' (h s) s \<Longrightarrow> wp (gets h) Q' s"
  "Q'' () (u s) \<Longrightarrow> wp (modify u) Q'' s" "(b \<Longrightarrow> Q'' () s) \<Longrightarrow> wp (check b) Q'' s" "(\<And>y. r = Inr y \<Longrightarrow> Q' y s) \<Longrightarrow> wp (lift_res r) Q' s"
  by simp_all

lemma wp_ifI: "(b \<Longrightarrow> wp f Q s) \<Longrightarrow> (\<not> b \<Longrightarrow> wp g Q s) \<Longrightarrow> wp (if b then f else g) Q s"
  by simp

lemma wp_mono: "wp f P s \<Longrightarrow> (\<And>x s'. P x s' \<Longrightarrow> Q x s') \<Longrightarrow> wp f Q s"
  by (auto simp: wp_def)

lemma wp_conj: "wp f P s \<Longrightarrow> wp f Q s \<Longrightarrow> wp f (\<lambda>x s'. P x s' \<and> Q x s') s"
  by (simp add: wp_def)

lemma wp_keeps: "keeps q f \<Longrightarrow> (\<And>x s'. q s' = q s \<Longrightarrow> Q x s') \<Longrightarrow> wp f Q s"
  unfolding wp_def by (metis keepsD)

lemma keeps_wp: "keeps q f \<Longrightarrow> wp f (\<lambda>x s'. q s' = q s) s"
  by (rule wp_keeps)

section \<open>Operations on the block manager\<close>

locale manager_blind =
  fixes q :: "sched_state \<Rightarrow> 'q"
  assumes q_bm [simp]: "q (s\<lparr>sc_bm := m\<rparr>) = q s"
    and q_reads [simp]: "q (s\<lparr>sc_reads := n\<rparr>) = q s"
begin

lemma k_on_bm [keeps_rules]: "keeps q (on_bm f)"
  by (rule keepsI) (auto simp: on_bm_def zoom_def split: prod.splits)

lemma k_read_clock [keeps_rules]: "keeps q (read_clock en)"
  by (rule keepsI) (auto simp: read_clock_def)

lemma k_read_clocks [keeps_rules]: "keeps q (read_clocks en g)"
  by (rule keepsI) (auto simp: read_clocks_def)

lemma k_get_exact [keeps_rules]: "keeps q (get_exact_gpu_cached_tokens r)"
  unfolding get_exact_gpu_cached_tokens_def by (intro keeps_rules)

lemma k_synthetic [keeps_rules]: "keeps q (has_synthetic_cache_source r)"
  unfolding has_synthetic_cache_source_def by (intro keeps_rules)

lemma k_num_cached [keeps_rules]: "keeps q (num_cached_on en sq d)"
  unfolding num_cached_on_def by (intro keeps_rules)

lemma k_resolve [keeps_rules]: "keeps q (resolve_cached_prefix_len en r sq)"
  unfolding resolve_cached_prefix_len_def by (intro keeps_rules)

lemma k_consume [keeps_rules]: "keeps q (consume_exact_gpu_cache_hit en r)"
  unfolding consume_exact_gpu_cache_hit_def by (intro keeps_rules)

lemma k_seq_new_tokens [keeps_rules]: "keeps q (seq_new_tokens en r sq)"
  unfolding seq_new_tokens_def by (intro keeps_rules)

lemma k_get_num_new_tokens [keeps_rules]: "keeps q (get_num_new_tokens en r st c pm)"
  unfolding get_num_new_tokens_def by (intro keeps_rules)

lemma k_free_seq [keeps_rules]: "keeps q (free_seq en sq)"
  unfolding free_seq_def by (intro keeps_rules)

lemma k_remove_from_tracker [keeps_rules]: "keeps q (remove_from_tracker r st)"
  unfolding remove_from_tracker_def by (intro keeps_rules)

lemma k_free_cross_blocks [keeps_rules]: "keeps q (free_cross_blocks en r)"
  unfolding free_cross_blocks_def by (intro keeps_rules)

lemma k_free_finished_seqs [keeps_rules]: "keeps q (free_finished_seqs en r)"
  unfolding free_finished_seqs_def by (intro keeps_rules)

lemma k_has_cache_entry [keeps_rules]: "keeps q (has_cache_entry r)"
  unfolding has_cache_entry_def by (intro keeps_rules)

lemma k_can_append [keeps_rules]: "keeps q (sched_can_append_slots en r c)"
  unfolding sched_can_append_slots_def by (intro keeps_rules)

lemma k_give_back [keeps_rules]: "keeps q (give_back r d)"
  unfolding give_back_def by (intro keeps_rules)

lemma k_decide_start [keeps_rules]: "keeps q (decide_start en r e u c l)"
  unfolding decide_start_def by (intro keeps_rules)

end

section \<open>Operations on groups\<close>

locale group_blind = manager_blind +
  assumes q_group [simp]: "q (upd_group r f s) = q s"
    and q_preemption [simp]: "q (s\<lparr>sc_num_preemption := n\<rparr>) = q s"
    and q_latency [simp]: "q (s\<lparr>sc_last_prompt_latency := t\<rparr>) = q s"
    and q_prev [simp]: "q (s\<lparr>sc_prev_time := t, sc_prev_prompt := b\<rparr>) = q s"
begin

lemma q_upd_seq [simp]: "q (upd_seq r sid f s) = q s" "q (set_seq_status r sid st s) = q s"
  by (simp_all add: set_seq_status_def upd_seq_def)

lemma k_on_group [keeps_rules]: "keeps q (on_group r f)"
  by (rule keepsI) (auto simp: on_group_def split: prod.splits)

lemma k_status [keeps_rules]: "keeps q (modify (set_seq_status r sid st))"
  by (intro keeps_rules; simp)

lemma k_upd_seq [keeps_rules]: "keeps q (modify (upd_seq r sid f))"
  by (intro keeps_rules; simp)

lemma k_append_slots [keeps_rules]: "keeps q (sched_append_slots en r c)"
  unfolding sched_append_slots_def by (intro keeps_rules)

lemma k_recompute [keeps_rules]: "keeps q (preempt_by_recompute en r)"
  unfolding preempt_by_recompute_def recompute_seq_def by (intro keeps_rules; simp)

lemma k_swap_out [keeps_rules]: "keeps q (sched_swap_out en r)"
  unfolding sched_swap_out_def by (intro keeps_rules; simp)

lemma k_preempt_by_swap [keeps_rules]: "keeps q (preempt_by_swap en r)"
  unfolding preempt_by_swap_def restart_swapped_seq_def by (intro keeps_rules; simp)

lemma k_preempt [keeps_rules]: "keeps q (preempt en r)"
  unfolding preempt_def by (intro keeps_rules; simp)

lemma k_resolve_one [keeps_rules]: "keeps q (resolve_one en r sq)"
  unfolding resolve_one_def by (intro keeps_rules; simp)

lemma k_allocate [keeps_rules]: "keeps q (allocate_and_set_running en r)"
  unfolding allocate_and_set_running_def by (intro keeps_rules)

lemma k_ignore_group [keeps_rules]: "keeps q (ignore_group r)"
  unfolding ignore_group_def by (intro keeps_rules; simp)

lemma k_decide_allocated [keeps_rules]: "keeps q (decide_allocated en r po u c l a)"
  unfolding decide_allocated_def by (intro keeps_rules)

lemma k_decide_prefill [keeps_rules]: "keeps q (decide_prefill en c r po)"
  unfolding decide_prefill_def by (intro keeps_rules)

lemma k_passed_delay [keeps_rules]: "keeps q (passed_delay en)"
  unfolding passed_delay_def by (intro keeps_rules; simp)

lemma k_seq_table [keeps_rules]: "keeps q (seq_table en now sq)"
  unfolding seq_table_def by (intro keeps_rules)

lemma k_send_delta [keeps_rules]: "keeps q (send_delta r sq)"
  unfolding send_delta_def by (intro keeps_rules; simp)

lemma k_group_metadata [keeps_rules]: "keeps q (group_metadata en now x)"
  unfolding group_metadata_def by (intro keeps_rules; simp)

lemma k_abort_seq [keeps_rules]: "keeps q (abort_seq en r sq)"
  unfolding abort_seq_def by (intro keeps_rules; simp)

end

section \<open>The queues and the budget\<close>

definition queues :: "sched_state \<Rightarrow> gref list \<times> gref list \<times> gref list \<times> gref list" where
  "queues s = (sc_waiting s, sc_running s, sc_swapped s, sc_async_stopped s)"

interpretation queued: group_blind queues
  by unfold_locales (simp_all add: queues_def upd_group_def)

interpretation spent: group_blind sc_budget
  by unfold_locales (simp_all add: upd_group_def)

text \<open>Operations on the budget leave the queues alone.\<close>

lemma queues_fields [simp]:
  "queues (s\<lparr>sc_budget := b\<rparr>) = queues s" "queues (s\<lparr>sc_loras := l\<rparr>) = queues s" "queues (s\<lparr>sc_partial := pm\<rparr>) = queues s"
  by (simp_all add: queues_def)

lemma queues_eq_iff: "queues s' = queues s \<longleftrightarrow>
    sc_waiting s' = sc_waiting s \<and> sc_running s' = sc_running s \<and> sc_swapped s' = sc_swapped s \<and> sc_async_stopped s' = sc_async_stopped s"
  by (auto simp: queues_def)

lemma k_on_budget [keeps_rules]: "keeps queues (on_budget f)"
  by (rule keepsI) (auto simp: on_budget_def zoom_def split: prod.splits)

lemma k_mod_budget [keeps_rules]: "keeps queues (mod_budget f)"
  unfolding mod_budget_def by (intro keeps_rules)

lemma k_leave_budget [keeps_rules]: "keeps queues (leave_budget r n)"
  unfolding leave_budget_def by (intro keeps_rules)

lemma k_leave_loras [keeps_rules]: "keeps queues (leave_loras r)"
  unfolding leave_loras_def by (intro keeps_rules) (simp add: Let_def)

lemma k_continue_group [keeps_rules]: "keeps queues (continue_group en c r n ro)"
  unfolding continue_group_def by (intro keeps_rules; simp add: Let_def)

end
