(* ===== verification/SchedQueues.thy ===== *)
theory SchedQueues
  imports SchedFrame
begin

text \<open>
  What one scheduling step does with the queues: the waiting groups are taken in order, every group
  is started, ignored or postponed, and no group is lost or listed twice.
\<close>

declare prefill_queue.simps(2) [simp del] run_queue.simps(2) [simp del] make_room.simps(2) [simp del] preempt_for.simps(2) [simp del]

section \<open>Prefills\<close>

datatype verdict = Started | Ignored | Postponed

definition with_verdict :: "verdict \<Rightarrow> (gref \<times> verdict) list \<Rightarrow> gref list" where
  "with_verdict v ds = map fst (filter (\<lambda>d. snd d = v) ds)"

lemma with_verdict_simps [simp]:
  "with_verdict v [] = []" "with_verdict v (d # ds) = (if snd d = v then fst d # with_verdict v ds else with_verdict v ds)"
  by (simp_all add: with_verdict_def)

lemma mset_with_verdict:
  "mset (map fst ds) = mset (with_verdict Started ds) + mset (with_verdict Ignored ds) + mset (with_verdict Postponed ds)"
proof (induction ds)
  case (Cons d ds)
  then show ?case by (cases "snd d") auto
qed simp

lemma start_group_queues:
  "wp (start_group en c r u ca l po) (\<lambda>po' s'. queues s' = queues (s\<lparr>sc_waiting := tl (sc_waiting s)\<rparr>)
     \<and> map fst (po_seq_groups po') = map fst (po_seq_groups po) @ [r] \<and> po_ignored po' = po_ignored po \<and> po_leftover po' = po_leftover po
     \<and> po_using_embeds po' = po_using_embeds po) s"
  unfolding start_group_def Let_def
  by (intro wp_rules | (rule wp_keeps [where q = queues], (intro keeps_rules; fail)))+ (simp add: queues_def)

text \<open>The groups that the loop takes from the queue, in order, with what it decided about them.\<close>

definition prefill_trace :: "prefill_outputs \<Rightarrow> sched_state \<Rightarrow> (gref \<times> verdict) list \<Rightarrow> prefill_outputs \<Rightarrow> sched_state \<Rightarrow> bool" where
  "prefill_trace po s ds po' s' \<longleftrightarrow>
     queues s = (map fst ds @ sc_waiting s', sc_running s', sc_swapped s', sc_async_stopped s')
     \<and> map fst (po_seq_groups po') = map fst (po_seq_groups po) @ with_verdict Started ds
     \<and> po_ignored po' = po_ignored po @ with_verdict Ignored ds
     \<and> rev (po_leftover po') = rev (po_leftover po) @ with_verdict Postponed ds"

lemma prefill_trace_Nil: "queues s' = queues s \<Longrightarrow> po' = po\<lparr>po_using_embeds := e\<rparr> \<Longrightarrow> prefill_trace po s [] po' s'"
  by (simp add: prefill_trace_def queues_def)

lemma prefill_front_trace:
  assumes "sc_waiting s = r # rest"
  shows "wp (prefill_front en c r po) (\<lambda>x s'. \<exists>ds. prefill_trace po s ds (snd x) s' \<and> (fst x \<longleftrightarrow> ds \<noteq> [])) s"
proof -
  define Q where "Q = (\<lambda>x s'. \<exists>ds. prefill_trace po s ds (snd x) s' \<and> (fst x \<longleftrightarrow> ds \<noteq> []))"
  have taken: "Q (True, po') s'" if "prefill_trace po s [(r, v)] po' s'" for v po' s'
    using that by (auto simp: Q_def)
  have decided: "wp (carry_out en c r po1 d) Q s1" if "queues s1 = queues s" "po1 = po\<lparr>po_using_embeds := e\<rparr>" for d s1 po1 e
  proof (cases d)
    case Stop
    then show ?thesis using prefill_trace_Nil [OF that] by (auto simp: Q_def carry_out_def)
  next
    case Postpone
    then show ?thesis using that assms by (auto intro!: taken [of Postponed] simp: prefill_trace_def queues_def carry_out_def)
  next
    case Ignore
    then show ?thesis using that assms by (auto intro!: taken [of Ignored] simp: prefill_trace_def queues_def carry_out_def)
  next
    case (Start u ca l)
    then show ?thesis using that assms
      by (auto intro!: wp_mono [OF start_group_queues] taken [of Started] simp: prefill_trace_def queues_def carry_out_def)
  qed
  show ?thesis unfolding prefill_front_def Q_def [symmetric]
    by (intro wp_rules, rule wp_keeps [OF queued.k_decide_prefill]) (auto intro: decided)
qed

lemma prefill_trace_append:
  "prefill_trace po s ds po1 s1 \<Longrightarrow> prefill_trace po1 s1 ds' po' s' \<Longrightarrow> prefill_trace po s (ds @ ds') po' s'"
  by (auto simp: prefill_trace_def queues_def with_verdict_def)

lemma prefill_queue_trace: "wp (prefill_queue en c n po) (\<lambda>po' s'. \<exists>ds. prefill_trace po s ds po' s') s"
proof (induction n arbitrary: po s)
  case 0
  show ?case using prefill_trace_Nil [where s = s and s' = s and po = po and po' = po and e = "po_using_embeds po"] by auto
next
  case (Suc n)
  have step: "wp (if \<not> passed \<or> sc_waiting s1 = [] then ret po
       else bind_act (prefill_front en c (hd (sc_waiting s1)) po) (\<lambda>(continue, po'). if continue then prefill_queue en c n po' else ret po'))
       (\<lambda>po' s'. \<exists>ds. prefill_trace po s ds po' s') s1" if q: "queues s1 = queues s" for passed s1
  proof (cases "\<not> passed \<or> sc_waiting s1 = []")
    case True
    then show ?thesis using prefill_trace_Nil [OF q, where po = po and po' = po and e = "po_using_embeds po"] by auto
  next
    case False
    then have w: "sc_waiting s1 = hd (sc_waiting s1) # tl (sc_waiting s1)" by simp
    have tr: "prefill_trace po s ds po1 s2" if "prefill_trace po s1 ds po1 s2" for ds po1 s2 using that q by (simp add: prefill_trace_def)
    have "wp (case x of (continue, po') \<Rightarrow> if continue then prefill_queue en c n po' else ret po') (\<lambda>po' s'. \<exists>ds. prefill_trace po s ds po' s') s2"
      if out: "\<exists>ds. prefill_trace po s1 ds (snd x) s2 \<and> (fst x \<longleftrightarrow> ds \<noteq> [])" for x s2
    proof -
      obtain continue po1 where x: "x = (continue, po1)" by (cases x)
      from out obtain ds where "prefill_trace po s1 ds po1 s2" by (auto simp: x)
      then have ds: "prefill_trace po s ds po1 s2" by (rule tr)
      have "wp (prefill_queue en c n po1) (\<lambda>po' s'. \<exists>ds. prefill_trace po s ds po' s') s2"
        by (rule wp_mono [OF Suc.IH [of po1 s2]]) (blast intro: prefill_trace_append [OF ds])
      then show ?thesis using ds by (auto simp: x)
    qed
    then have "wp (bind_act (prefill_front en c (hd (sc_waiting s1)) po) (\<lambda>(continue, po'). if continue then prefill_queue en c n po' else ret po'))
      (\<lambda>po' s'. \<exists>ds. prefill_trace po s ds po' s') s1"
      unfolding wp_bind by (rule wp_mono [OF prefill_front_trace [OF w]])
    then show ?thesis using False by simp
  qed
  show ?case unfolding prefill_queue.simps
    by (intro wp_rules, rule wp_keeps [OF queued.k_passed_delay], intro wp_rules) (rule step)
qed

lemma schedule_prefills_trace:
  "wp (schedule_prefills en c) (\<lambda>po s'. \<exists>ds rest. queues s = (map fst ds @ rest, sc_running s', sc_swapped s', sc_async_stopped s')
     \<and> sc_waiting s' = with_verdict Postponed ds @ rest \<and> map fst (po_seq_groups po) = with_verdict Started ds
     \<and> po_ignored po = with_verdict Ignored ds \<and> rev (po_leftover po) = with_verdict Postponed ds) s"
proof -
  define Q :: "prefill_outputs \<Rightarrow> sched_state \<Rightarrow> bool" where "Q = (\<lambda>po s'. \<exists>ds rest. queues s = (map fst ds @ rest, sc_running s', sc_swapped s', sc_async_stopped s')
     \<and> sc_waiting s' = with_verdict Postponed ds @ rest \<and> map fst (po_seq_groups po) = with_verdict Started ds
     \<and> po_ignored po = with_verdict Ignored ds \<and> rev (po_leftover po) = with_verdict Postponed ds)"
  have none: "Q prefill_outputs_new s"
    unfolding Q_def by (rule exI [of _ "[]"]) (simp add: queues_def prefill_outputs_new_def)
  have some: "Q po (s'\<lparr>sc_waiting := rev (po_leftover po) @ sc_waiting s', sc_prev_prompt := p\<rparr>)"
    if "prefill_trace prefill_outputs_new s ds po s'" for po s' ds p
    unfolding Q_def by (rule exI [of _ ds], rule exI [of _ "sc_waiting s'"]) (use that in \<open>simp add: prefill_trace_def prefill_outputs_new_def queues_def\<close>)
  show ?thesis unfolding schedule_prefills_def Q_def [symmetric]
    by (intro wp_rules wp_ifI none, rule wp_mono [OF prefill_queue_trace], elim exE, intro wp_rules some)
qed

section \<open>Running groups\<close>

definition held :: "running_outputs \<Rightarrow> gref multiset" where
  "held ro = mset (map fst (ro_decode ro)) + mset (map fst (ro_prefill ro)) + mset (ro_preempted ro) + mset (ro_swapped_out ro)"

lemma held_new [simp]: "held (running_outputs_new n) = {#}"
  by (simp add: held_def running_outputs_new_def)

lemma preempt_victim_queues:
  assumes "\<not> cf_use_async_output_proc (en_config en)"
  shows "wp (preempt_victim en v ro) (\<lambda>ro' s'. queues s' = queues s \<and> held ro' = held ro + {#v#}) s"
  unfolding preempt_victim_def
  by (simp add: assms, rule wp_keeps [OF queued.k_preempt]) (auto simp: held_def split: preemption_mode.splits)

lemma continue_group_queues:
  "wp (continue_group en c r n ro) (\<lambda>ro' s'. queues s' = queues s \<and> held ro' = held ro + {#r#}) s"
  unfolding continue_group_def
  by (intro wp_rules | (rule wp_keeps [where q = queues], (intro keeps_rules; fail)))+ (auto simp: held_def Let_def)

text \<open>The groups that are in the running queue or were taken from it.\<close>

definition accounted_for :: "running_outputs \<Rightarrow> sched_state \<Rightarrow> gref multiset" where
  "accounted_for ro s = mset (sc_running s) + held ro"

definition room_made :: "running_outputs \<Rightarrow> sched_state \<Rightarrow> gref \<Rightarrow> bool \<times> running_outputs \<Rightarrow> sched_state \<Rightarrow> bool" where
  "room_made ro s r x s' \<longleftrightarrow> accounted_for (snd x) s' = accounted_for ro s + (if fst x then {#} else {#r#})
     \<and> length (sc_running s') \<le> length (sc_running s) \<and> sc_waiting s' = sc_waiting s \<and> sc_swapped s' = sc_swapped s
     \<and> sc_async_stopped s' = sc_async_stopped s"

lemma take_victim:
  assumes "queues s1 = queues s" "sc_running s \<noteq> []"
    "queues s' = queues (s1\<lparr>sc_running := butlast (sc_running s)\<rparr>) \<and> held ro' = held ro + {#last (sc_running s)#}"
  shows "room_made ro s r (True, ro') s'" "length (sc_running s') < length (sc_running s)"
proof -
  have "add_mset (last (sc_running s)) (mset (butlast (sc_running s))) = mset (sc_running s)"
    using assms(2) by (cases "sc_running s" rule: rev_cases) auto
  then show "room_made ro s r (True, ro') s'" using assms by (auto simp: room_made_def accounted_for_def queues_def)
  show "length (sc_running s') < length (sc_running s)" using assms by (cases "sc_running s" rule: rev_cases) (auto simp: queues_def)
qed

lemma room_made_trans: "room_made ro s r (True, ro1) s1 \<Longrightarrow> room_made ro1 s1 r x s' \<Longrightarrow> room_made ro s r x s'"
  by (auto simp: room_made_def)

lemma make_room_queues:
  assumes "\<not> cf_use_async_output_proc (en_config en)"
  shows "length (sc_running s) < n \<Longrightarrow> wp (make_room en c r k n ro) (room_made ro s r) s"
proof (induction n arbitrary: ro s)
  case 0
  then show ?case by simp
next
  case (Suc n)
  have fits: "room_made ro s r (True, ro) s1" if "queues s1 = queues s" for s1
    using that by (simp add: room_made_def accounted_for_def queues_def)
  have last_one: "wp (bind_act (preempt_victim en r ro) (\<lambda>ro'. ret (False, ro'))) (room_made ro s r) s1" if "queues s1 = queues s" for s1
    unfolding wp_bind
    by (rule wp_mono [OF preempt_victim_queues [OF assms]]) (use that in \<open>auto simp: room_made_def accounted_for_def queues_def\<close>)
  have again: "wp (bind_act (modify (\<lambda>s2. s2\<lparr>sc_running := butlast (sc_running s)\<rparr>)) (\<lambda>_.
        bind_act (preempt_victim en (last (sc_running s)) ro) (\<lambda>ro'. make_room en c r k n ro'))) (room_made ro s r) s1"
    if q: "queues s1 = queues s" and ne: "sc_running s \<noteq> []" for s1
  proof (intro wp_rules, rule wp_mono [OF preempt_victim_queues [OF assms]])
    fix ro' s'
    assume s': "queues s' = queues (s1\<lparr>sc_running := butlast (sc_running s)\<rparr>) \<and> held ro' = held ro + {#last (sc_running s)#}"
    have "length (sc_running s') < n" using Suc.prems take_victim(2) [OF q ne s'] by simp
    from wp_mono [OF Suc.IH [OF this] room_made_trans [OF take_victim(1) [OF q ne s']]]
    show "wp (make_room en c r k n ro') (room_made ro s r) s'" .
  qed
  have step: "wp (if sc_running s3 = [] then bind_act (preempt_victim en r ro) (\<lambda>ro'. ret (False, ro'))
      else bind_act (modify (\<lambda>s. s\<lparr>sc_running := butlast (sc_running s3)\<rparr>)) (\<lambda>_.
             bind_act (preempt_victim en (last (sc_running s3)) ro) (\<lambda>ro'. make_room en c r k n ro'))) (room_made ro s r) s3"
    if "queues s3 = queues s" for s3
  proof -
    have "sc_running s3 = sc_running s" using that by (simp add: queues_def)
    then show ?thesis by (simp only:) (rule wp_ifI, rule last_one [OF that], rule again [OF that])
  qed
  show ?case unfolding make_room.simps
    by (intro wp_rules, rule wp_keeps [OF queued.k_can_append], intro wp_ifI wp_rules, erule fits,
        rule wp_keeps [OF k_leave_budget], intro wp_rules, rule wp_keeps [OF k_leave_loras], intro wp_rules, rule step, simp)
qed

text \<open>A round either stops with the queues as they were, or takes the first group and maybe victims.\<close>

definition round_done :: "running_outputs \<Rightarrow> sched_state \<Rightarrow> running_outputs option \<Rightarrow> sched_state \<Rightarrow> bool" where
  "round_done ro s x s' \<longleftrightarrow>
     (case x of
        None \<Rightarrow> queues s' = queues s
      | Some ro' \<Rightarrow> accounted_for ro' s' = accounted_for ro s \<and> length (sc_running s') < length (sc_running s)
          \<and> sc_waiting s' = sc_waiting s \<and> sc_swapped s' = sc_swapped s \<and> sc_async_stopped s' = sc_async_stopped s)"

lemma popped_round:
  assumes "queues s1 = queues s" "sc_running s = r # rest" "room_made ro (s1\<lparr>sc_running := tl (sc_running s1)\<rparr>) r x s2" "queues s' = queues s2"
    "held ro' = held (snd x) + (if fst x then {#r#} else {#})"
  shows "round_done ro s (Some ro') s'"
  using assms by (auto simp: round_done_def room_made_def accounted_for_def queues_def)

lemma run_front_queues:
  assumes off: "\<not> cf_use_async_output_proc (en_config en)" and run: "sc_running s = r # rest"
  shows "wp (run_front en c r ro) (round_done ro s) s"
proof -
  have made: "wp (case x of (ok, ro') \<Rightarrow> if ok then bind_act (continue_group en c r k ro') (\<lambda>ro''. ret (Some ro'')) else ret (Some ro')) (round_done ro s) s2"
    if "queues s1 = queues s" "room_made ro (s1\<lparr>sc_running := tl (sc_running s1)\<rparr>) r x s2" for x s1 s2 k
  proof -
    obtain ok ro1 where x: "x = (ok, ro1)" by (cases x)
    have "wp (continue_group en c r k ro1) (\<lambda>ro''. round_done ro s (Some ro'')) s2" if ok
      by (rule wp_mono [OF continue_group_queues]) (use popped_round [OF \<open>queues s1 = queues s\<close> run \<open>room_made _ _ _ _ _\<close>] that x in auto)
    moreover have "round_done ro s (Some ro1) s2" if "\<not> ok"
      by (rule popped_round [OF \<open>queues s1 = queues s\<close> run \<open>room_made _ _ _ _ _\<close>]) (use that x in auto)
    ultimately show ?thesis by (simp add: x)
  qed
  have popped: "wp (bind_act (modify (\<lambda>s. s\<lparr>sc_running := tl (sc_running s)\<rparr>)) (\<lambda>_.
         bind_act (gets (\<lambda>s. int (seq_get_len (first_seq (group_at s r))))) (\<lambda>len.
           if cf_use_async_output_proc (en_config en) \<and> cf_max_model_len (en_config en) < len
           then bind_act (modify (\<lambda>s. s\<lparr>sc_async_stopped := sc_async_stopped s @ [r]\<rparr>)) (\<lambda>_. ret (Some ro))
           else bind_act (gets (\<lambda>s. length (sc_running s))) (\<lambda>n. bind_act (make_room en c r k (Suc n) ro) (\<lambda>(ok, ro').
             if ok then bind_act (continue_group en c r k ro') (\<lambda>ro''. ret (Some ro'')) else ret (Some ro')))))) (round_done ro s) s1"
    if "queues s1 = queues s" for s1 k
    by (intro wp_rules wp_ifI, use off in blast, rule wp_mono [OF make_room_queues [OF off]], simp, rule made [OF that])
  show ?thesis unfolding run_front_def
    by (intro wp_rules, rule wp_keeps [OF queued.k_get_num_new_tokens], simp only: case_prod_unfold, intro wp_ifI)
       (intro wp_rules, simp add: round_done_def, rule popped [unfolded case_prod_unfold])
qed

definition queue_done :: "running_outputs \<Rightarrow> sched_state \<Rightarrow> running_outputs \<Rightarrow> sched_state \<Rightarrow> bool" where
  "queue_done ro s ro' s' \<longleftrightarrow> accounted_for ro' s' = accounted_for ro s
     \<and> sc_waiting s' = sc_waiting s \<and> sc_swapped s' = sc_swapped s \<and> sc_async_stopped s' = sc_async_stopped s"

lemma run_queue_queues:
  assumes off: "\<not> cf_use_async_output_proc (en_config en)"
  shows "wp (run_queue en c n ro) (queue_done ro s) s"
proof (induction n arbitrary: ro s)
  case 0
  show ?case by (simp add: queue_done_def)
next
  case (Suc n)
  have round: "wp (case x of None \<Rightarrow> ret ro | Some ro' \<Rightarrow> run_queue en c n ro') (queue_done ro s) s1" if "round_done ro s x s1" for x s1
  proof (cases x)
    case None
    then show ?thesis using that by (simp add: round_done_def queue_done_def accounted_for_def queues_def)
  next
    case (Some ro1)
    with that show ?thesis
      by (auto intro!: wp_mono [OF Suc.IH] simp: round_done_def queue_done_def)
  qed
  show ?case unfolding run_queue.simps
  proof (intro wp_rules wp_ifI)
    assume "sc_running s \<noteq> []"
    then have "sc_running s = hd (sc_running s) # tl (sc_running s)" by simp
    then show "wp (run_front en c (hd (sc_running s)) ro) (\<lambda>x. wp (case x of None \<Rightarrow> ret ro | Some ro' \<Rightarrow> run_queue en c n ro') (queue_done ro s)) s"
      by (rule wp_mono [OF run_front_queues [OF off]]) (rule round)
  qed (simp add: queue_done_def)
qed

lemma schedule_running_queues:
  assumes "\<not> cf_use_async_output_proc (en_config en)"
  shows "wp (schedule_running en c) (\<lambda>ro s'. mset (sc_running s) = mset (sc_running s') + held ro
     \<and> sc_waiting s' = sc_waiting s \<and> sc_swapped s' = sc_swapped s \<and> sc_async_stopped s' = sc_async_stopped s) s"
  unfolding schedule_running_def
  by (intro wp_rules, rule wp_mono [OF run_queue_queues [OF assms]]) (simp add: queue_done_def accounted_for_def)

section \<open>Preemption by priority\<close>

lemma preempt_for_queues:
  "length queue \<le> n \<Longrightarrow> wp (preempt_for en r k queue n) (\<lambda>x s'. mset (fst x) + mset (sc_waiting s') = mset queue + mset (sc_waiting s)
     \<and> sc_running s' = sc_running s \<and> sc_swapped s' = sc_swapped s \<and> sc_async_stopped s' = sc_async_stopped s) s"
proof (induction n arbitrary: queue s)
  case 0
  then show ?case by simp
next
  case (Suc n)
  define Q where "Q = (\<lambda>(x :: gref list \<times> nat) (s' :: sched_state). mset (fst x) + mset (sc_waiting s') = mset queue + mset (sc_waiting s)
     \<and> sc_running s' = sc_running s \<and> sc_swapped s' = sc_swapped s \<and> sc_async_stopped s' = sc_async_stopped s)"
  have stop: "Q (queue, 0) s1" if "queues s1 = queues s" for s1 using that by (simp add: Q_def queues_def)
  have victim: "wp (preempt_for en r k (butlast queue) n) (\<lambda>x. Q (fst x, Suc (snd x))) (s1\<lparr>sc_waiting := last queue # sc_waiting s1\<rparr>)"
    if "queues s1 = queues s" "queue \<noteq> []" for s1
  proof -
    have "mset queue = add_mset (last queue) (mset (butlast queue))" using that(2) by (cases queue rule: rev_cases) auto
    then show ?thesis using that Suc.prems by (intro wp_mono [OF Suc.IH]) (auto simp: Q_def queues_def)
  qed
  have step: "wp (get_num_new_tokens en (last queue) RUNNING False None) (\<lambda>x. wp (bind_act (leave_budget (last queue) (fst x)) (\<lambda>_.
      bind_act (preempt en (last queue)) (\<lambda>_. bind_act (modify (\<lambda>s. s\<lparr>sc_waiting := last queue # sc_waiting s\<rparr>)) (\<lambda>_.
        bind_act (preempt_for en r k (butlast queue) n) (\<lambda>p. ret (fst p, Suc (snd p))))))) Q) s" if "queue \<noteq> []"
    by (rule wp_keeps [OF queued.k_get_num_new_tokens], intro wp_rules, rule wp_keeps [OF k_leave_budget], intro wp_rules,
        rule wp_keeps [OF queued.k_preempt], intro wp_rules) (use victim that in simp)
  show ?case unfolding preempt_for.simps Q_def [symmetric] Let_def case_prod_unfold
    by (intro wp_rules wp_ifI stop refl; rule step; blast)
qed

lemma schedule_priority_preemption_queues:
  "wp (schedule_priority_preemption en) (\<lambda>_ s'. mset (sc_running s') + mset (sc_waiting s') = mset (sc_running s) + mset (sc_waiting s)
     \<and> sc_swapped s' = sc_swapped s \<and> sc_async_stopped s' = sc_async_stopped s) s"
proof -
  define queue where "queue = sort_key (\<lambda>r. get_priority (group_at s r)) (sc_running s)"
  define Q where "Q = (\<lambda>(x :: gref list \<times> nat) (s' :: sched_state). mset (fst x) + mset (sc_waiting s') = mset (sc_running s) + mset (sc_waiting s)
     \<and> sc_swapped s' = sc_swapped s \<and> sc_async_stopped s' = sc_async_stopped s)"
  have victims: "wp (case sc_waiting s of
                 [] \<Rightarrow> ret (queue, 0)
               | r # rest \<Rightarrow>
                   bind_act (modify (\<lambda>s. s\<lparr>sc_waiting := rest\<rparr>)) (\<lambda>_.
                   bind_act (get_num_new_tokens en r WAITING False None) (\<lambda>(tokens, _).
                   bind_act (preempt_for en r tokens queue (length queue)) (\<lambda>(queue', k).
                   bind_act (modify (\<lambda>s. s\<lparr>sc_waiting := r # sc_waiting s\<rparr>)) (\<lambda>_.
                   bind_act (remove_from_tracker r WAITING) (\<lambda>_. ret (queue', k))))))) Q s"
  proof (cases "sc_waiting s")
    case Nil
    then show ?thesis by (simp add: Q_def queue_def)
  next
    case (Cons r rest)
    show ?thesis unfolding Cons list.case case_prod_unfold
      by (intro wp_rules, rule wp_keeps [OF queued.k_get_num_new_tokens], intro wp_rules, rule wp_mono [OF preempt_for_queues [OF order_refl]],
          intro wp_rules, rule wp_keeps [OF queued.k_remove_from_tracker], intro wp_rules) (use Cons in \<open>auto simp: Q_def queue_def queues_def\<close>)
  qed
  show ?thesis unfolding schedule_priority_preemption_def
    by (simp add: queue_def [symmetric]) (rule wp_mono [OF victims], auto simp: Q_def case_prod_unfold)
qed

section \<open>The whole step\<close>

definition in_queues :: "sched_state \<Rightarrow> gref multiset" where
  "in_queues s = mset (sc_waiting s) + mset (sc_running s) + mset (sc_swapped s)"

definition taken_up :: "prefill_outputs \<Rightarrow> gref multiset" where
  "taken_up po = mset (map fst (po_seq_groups po)) + mset (po_ignored po)"

lemma taken_up_new [simp]: "taken_up prefill_outputs_new = {#}"
  by (simp add: taken_up_def prefill_outputs_new_def)

lemma in_queues_cong: "queues s' = queues s \<Longrightarrow> in_queues s' = in_queues s"
  by (simp add: in_queues_def queues_def)

lemma prefills_conserve: "wp (schedule_prefills en c) (\<lambda>po s'. in_queues s = in_queues s' + taken_up po) s"
  by (rule wp_mono [OF schedule_prefills_trace])
     (auto simp: in_queues_def taken_up_def queues_def mset_with_verdict ac_simps simp del: mset_map)

lemma running_conserves:
  assumes "\<not> cf_use_async_output_proc (en_config en)"
  shows "wp (schedule_running en c) (\<lambda>ro s'. in_queues s = in_queues s' + held ro) s"
  by (rule wp_mono [OF schedule_running_queues [OF assms]]) (auto simp: in_queues_def)

lemma priority_conserves: "wp (schedule_priority_preemption en) (\<lambda>_ s'. in_queues s' = in_queues s) s"
  by (rule wp_mono [OF schedule_priority_preemption_queues]) (auto simp: in_queues_def ac_simps)

lemma k_check_budget_limits [keeps_rules]: "keeps queues (check_budget_limits en)"
  unfolding check_budget_limits_def by (intro keeps_rules)

lemma start_queues [simp]: "queues (start_default en s) = queues s" "queues (start_chunked en s) = queues s"
  by (simp_all add: start_default_def start_chunked_def queues_def)

text \<open>The groups of a batch are running, each listed once more than it is left out.\<close>

definition step_conserves :: "sched_state \<Rightarrow> sched_outputs \<Rightarrow> sched_state \<Rightarrow> bool" where
  "step_conserves s so s' \<longleftrightarrow>
     (\<exists>ign rest. so_ignored so = ign @ rest \<and> in_queues s = in_queues s' + mset ign
        \<and> mset (map fst (so_scheduled so)) + mset rest \<subseteq># mset (sc_running s'))"

lemma outputs_post_init_conserves:
  "step_conserves s so s1 \<Longrightarrow> wp (outputs_post_init so) (step_conserves s) s1"
  unfolding outputs_post_init_def
  by (intro wp_rules wp_ifI) (auto simp: step_conserves_def lora_sorted_def)

lemma requeue_conserves:
  assumes "in_queues s = in_queues s1 + taken_up po + held ro"
    "mset continued = mset (map fst (po_seq_groups po)) + mset (map fst (ro_decode ro)) + mset (map fst (ro_prefill ro))"
  shows "in_queues s = in_queues (requeue po ro continued s1) + mset (po_ignored po)"
  using assms by (simp add: in_queues_def taken_up_def held_def requeue_def ac_simps)

lemma split_by_embeds_mset: "mset (map fst (fst (split_by_embeds s xs))) + mset (snd (split_by_embeds s xs)) = mset (map fst xs)"
proof (cases xs)
  case (Cons x ys)
  define P where "P = (\<lambda>y :: scheduled. gr_uses_embeds (sc_groups s ! fst y) = gr_uses_embeds (sc_groups s ! fst x))"
  have "split_by_embeds s xs = (filter P xs, map fst (filter (\<lambda>y. \<not> P y) xs))"
    by (cases x) (simp add: split_by_embeds_def Cons P_def case_prod_unfold)
  then show ?thesis by (simp flip: image_mset_union)
qed (simp add: split_by_embeds_def)

lemma finish_default_conserves:
  assumes sum: "in_queues s = in_queues s1 + taken_up po + held ro"
  shows "wp (finish_default en po ro) (step_conserves s) s1"
  unfolding finish_default_def
proof (intro wp_rules, rule wp_keeps [OF k_check_budget_limits], intro wp_rules outputs_post_init_conserves)
  fix x s2
  assume "queues s2 = queues s1" and none: "ro_prefill ro = []"
  then have sum2: "in_queues s = in_queues s2 + taken_up po + held ro" using sum in_queues_cong [of s2 s1] by simp
  define s3 where "s3 = requeue po ro (map fst (po_seq_groups po) @ map fst (ro_decode ro)) s2"
  have "in_queues s = in_queues s3 + mset (po_ignored po)" unfolding s3_def by (rule requeue_conserves [OF sum2]) (simp add: none)
  moreover have "mset (map fst (fst (default_batch po ro s3))) + mset (snd (default_batch po ro s3)) \<subseteq># mset (sc_running s3)"
    using split_by_embeds_mset [of s3 "ro_decode ro"] by (auto simp: s3_def requeue_def default_batch_def)
  ultimately have "step_conserves s (default_outputs po ro s3) s3"
    unfolding step_conserves_def by (intro exI [of _ "po_ignored po"] exI [of _ "snd (default_batch po ro s3)"]) (simp add: default_outputs_def)
  then show "step_conserves s (default_outputs po ro (requeue po ro (map fst (po_seq_groups po) @ map fst (ro_decode ro)) s2))
     (requeue po ro (map fst (po_seq_groups po) @ map fst (ro_decode ro)) s2)" by (simp only: s3_def)
qed

lemma order_finishing_mset: "mset (order_finishing_prefills_first s xs) = mset (map fst xs)"
  unfolding order_finishing_prefills_first_def Let_def mset_append mset_map mset_filter
  by (simp flip: image_mset_union)

lemma finish_chunked_conserves:
  assumes sum: "in_queues s = in_queues s1 + taken_up po + held ro"
  shows "wp (finish_chunked en po ro) (step_conserves s) s1"
  unfolding finish_chunked_def
proof (intro wp_rules, rule wp_keeps [OF k_check_budget_limits], intro wp_rules outputs_post_init_conserves)
  fix x s2
  assume "queues s2 = queues s1"
  then have sum2: "in_queues s = in_queues s2 + taken_up po + held ro" using sum in_queues_cong [of s2 s1] by simp
  define continued where "continued = map fst (ro_decode ro) @ order_finishing_prefills_first s2 (ro_prefill ro) @ map fst (po_seq_groups po)"
  have c: "mset continued = mset (map fst (po_seq_groups po)) + mset (map fst (ro_decode ro)) + mset (map fst (ro_prefill ro))"
    by (simp add: continued_def order_finishing_mset ac_simps)
  have "in_queues s = in_queues (requeue po ro continued s2) + mset (po_ignored po)" by (rule requeue_conserves [OF sum2 c])
  moreover have "mset (map fst (po_seq_groups po @ ro_prefill ro @ ro_decode ro)) \<subseteq># mset (sc_running (requeue po ro continued s2))"
    using c by (simp add: requeue_def ac_simps)
  ultimately have "step_conserves s (chunked_outputs en po ro (requeue po ro continued s2)) (requeue po ro continued s2)"
    unfolding step_conserves_def by (intro exI [of _ "po_ignored po"] exI [of _ "[]"]) (simp add: chunked_outputs_def Let_def)
  then show "step_conserves s (chunked_outputs en po ro (requeue po ro (map fst (ro_decode ro) @ order_finishing_prefills_first s2 (ro_prefill ro) @ map fst (po_seq_groups po)) s2))
     (requeue po ro (map fst (ro_decode ro) @ order_finishing_prefills_first s2 (ro_prefill ro) @ map fst (po_seq_groups po)) s2)"
    by (simp only: continued_def)
qed

lemma schedule_default_conserves:
  assumes off: "\<not> cf_use_async_output_proc (en_config en)"
  shows "wp (schedule_default en) (step_conserves s) s"
proof -
  have run: "wp (if po_seq_groups po = [] then schedule_running en False else ret (running_outputs_new 0)) (\<lambda>ro. wp (finish_default en po ro) (step_conserves s)) s1"
    if "in_queues s = in_queues s1 + taken_up po" for po s1
    by (rule wp_ifI, rule wp_mono [OF running_conserves [OF off]], rule finish_default_conserves, use that in simp)
       (intro wp_rules finish_default_conserves, use that in simp)
  have prio: "wp (if po_seq_groups po = [] \<and> cf_policy (en_config en) = ''priority'' then schedule_priority_preemption en else ret 0)
      (\<lambda>_. wp (bind_act (if po_seq_groups po = [] then schedule_running en False else ret (running_outputs_new 0)) (finish_default en po)) (step_conserves s)) s1"
    if "in_queues s = in_queues s1 + taken_up po" for po s1
    by (rule wp_ifI, rule wp_mono [OF priority_conserves], rule wp_rules, rule run, use that in simp) (intro wp_rules run that)
  have start: "in_queues (start_default en s) = in_queues s" by (rule in_queues_cong) simp
  show ?thesis unfolding schedule_default_def
    by (intro wp_rules, rule wp_ifI, rule wp_mono [OF prefills_conserve], rule wp_rules, rule prio, simp add: start)
       (intro wp_rules, rule prio, simp add: start)
qed

lemma schedule_chunked_conserves:
  assumes off: "\<not> cf_use_async_output_proc (en_config en)"
  shows "wp (schedule_chunked_prefill en) (step_conserves s) s"
proof -
  have fill: "wp (if b then ret prefill_outputs_new else schedule_prefills en True) (\<lambda>po. wp (finish_chunked en po ro) (step_conserves s)) s1"
    if "in_queues s = in_queues s1 + held ro" for b ro s1
    by (rule wp_ifI, intro wp_rules finish_chunked_conserves, use that in simp)
       (rule wp_mono [OF prefills_conserve], rule finish_chunked_conserves, use that in simp)
  show ?thesis unfolding schedule_chunked_prefill_def
    by (intro wp_rules, rule wp_mono [OF running_conserves [OF off]], intro wp_rules, rule fill)
       (use in_queues_cong [OF start_queues(2), of en s] in simp)
qed

lemma mset_sort_with: "length ks = length xs \<Longrightarrow> mset (sort_with ks xs) = mset xs"
  by (simp add: sort_with_def) (metis map_snd_zip mset_map)

lemma sort_by_query_id_mset: "sort_by_query_id s rs = Inr rs' \<Longrightarrow> mset rs' = mset rs"
  by (auto simp: sort_by_query_id_def Let_def mset_sort_with dest!: map_res_length split: if_splits sum.splits)

lemma step_conserves_start: "in_queues s1 = in_queues s \<Longrightarrow> step_conserves s1 so s' \<Longrightarrow> step_conserves s so s'"
  by (simp add: step_conserves_def)

lemma schedule_step_conserves:
  assumes off: "\<not> cf_use_async_output_proc (en_config en)"
  shows "wp (schedule_step en) (step_conserves s) s"
proof -
  have go: "wp (if cf_chunked_prefill_enabled (en_config en) then schedule_chunked_prefill en else schedule_default en) (step_conserves s) s1"
    if "in_queues s1 = in_queues s" for s1
    by (rule wp_ifI; rule wp_mono [OF _ step_conserves_start [OF that]]) (rule schedule_chunked_conserves [OF off], assumption, rule schedule_default_conserves [OF off], assumption)
  show ?thesis unfolding schedule_step_def sort_waiting_by_query_id_def sort_running_by_query_id_def
    by (intro wp_rules go) (auto simp: in_queues_def dest!: sort_by_query_id_mset)
qed

lemma schedule_conserves:
  assumes off: "\<not> cf_use_async_output_proc (en_config en)"
  shows "wp (schedule en) (\<lambda>x s'. step_conserves s (fst (snd x)) s') s"
proof -
  have kept: "step_conserves s (so\<lparr>so_swap_out := w\<rparr>) s'" if "step_conserves s so s1" "queues s' = queues s1" for so s1 s' w
    using that by (auto simp: step_conserves_def in_queues_def queues_def)
  show ?thesis unfolding schedule_def
    by (intro wp_rules, rule wp_mono [OF schedule_step_conserves [OF off]],
        (intro wp_rules | (rule wp_keeps [where q = queues], (intro keeps_rules; fail)))+) (use kept in \<open>simp add: queues_def\<close>)
qed

end
