(* ===== verification/SchedOrder.thy ===== *)
theory SchedOrder
  imports SchedQueues
begin

text \<open>
  The order in which waiting requests are served: the queue is sorted by query identifier, requests
  of the same query keep their order, and a step without adapters, partial prefills and embeddings
  takes a prefix of the queue.
\<close>

section \<open>Sorting by query\<close>

lemma insort_key_map: "insort_key f (g x) (map g xs) = map g (insort_key (\<lambda>x. f (g x)) x xs)"
  by (induction xs) auto

lemma sort_key_map: "sort_key f (map g xs) = map g (sort_key (\<lambda>x. f (g x)) xs)"
  by (induction xs) (auto simp: insort_key_map)

lemma sort_with_map: "sort_with (map k xs) xs = sort_key k xs"
proof -
  have z: "zip (map k xs) xs = map (\<lambda>x. (k x, x)) xs" by (induction xs) auto
  show ?thesis unfolding sort_with_def z sort_key_map by (simp add: comp_def)
qed

lemma sort_key_of_int: "sort_key (\<lambda>x. rat_of_int (k x)) xs = sort_key k xs"
proof -
  have "insort_key (\<lambda>x. rat_of_int (k x)) x ys = insort_key k x ys" for x ys by (induction ys) auto
  then show ?thesis by (induction xs) auto
qed

lemma map_res_numeric_key: "(\<And>r. r \<in> set rs \<Longrightarrow> f r = JInt (qid r)) \<Longrightarrow>
    map_res numeric_key (map f rs) = Inr (map (\<lambda>r. rat_of_int (qid r)) rs)"
  by (induction rs) auto

lemma sort_by_query_id_int:
  assumes "\<And>r. r \<in> set rs \<Longrightarrow> extract_query_id_key (group_at s r) = JInt (qid r)"
  shows "sort_by_query_id s rs = Inr (sort_key qid rs)"
proof (cases "length rs \<le> 1")
  case True
  then have "sort_key qid rs = rs" by (cases rs) auto
  then show ?thesis using True by (simp add: sort_by_query_id_def)
next
  case False
  have "map_res numeric_key (map (\<lambda>r. extract_query_id_key (group_at s r)) rs) = Inr (map (\<lambda>r. rat_of_int (qid r)) rs)"
    by (rule map_res_numeric_key) (rule assms)
  then show ?thesis using False by (simp add: sort_by_query_id_def sort_with_map sort_key_of_int)
qed

section \<open>Steps that postpone nothing\<close>

definition plain_view :: "sched_state \<Rightarrow> (gref \<Rightarrow> bool) \<times> bool" where
  "plain_view s = ((\<lambda>r. gr_uses_embeds (sc_groups s ! r)), sc_partial s = None)"

lemma embeds_upd_group [simp]: "gr_uses_embeds (sc_groups (upd_group r f s) ! r') = gr_uses_embeds (sc_groups s ! r')"
  by (cases "r < length (sc_groups s)"; cases "r = r'") (auto simp: upd_group_def list_update_beyond)

lemma partial_upd_group [simp]: "sc_partial (upd_group r f s) = sc_partial s"
  by (simp add: upd_group_def)

interpretation plainly: group_blind plain_view
  by unfold_locales (simp_all add: plain_view_def)

lemma k_plain_budget [keeps_rules]: "keeps plain_view (on_budget f)" "keeps plain_view (mod_budget g)"
  by (rule keepsI, auto simp: on_budget_def mod_budget_def zoom_def plain_view_def split: prod.splits)+

lemma k_plain_start [keeps_rules]: "keeps plain_view (start_group en c r u ca l po)"
  unfolding start_group_def Let_def by (intro keeps_rules; simp add: plain_view_def)

definition plain :: "env \<Rightarrow> prefill_outputs \<Rightarrow> sched_state \<Rightarrow> bool" where
  "plain en po s \<longleftrightarrow> cf_max_loras (en_config en) = None \<and> sc_partial s = None \<and> \<not> po_using_embeds po
     \<and> (\<forall>r \<in> set (sc_waiting s). \<not> gr_uses_embeds (sc_groups s ! r))"

lemma plain_kept:
  "plain en po s \<Longrightarrow> plain_view s' = plain_view s \<Longrightarrow> set (sc_waiting s') \<subseteq> set (sc_waiting s) \<Longrightarrow> po_using_embeds po' = po_using_embeds po
     \<Longrightarrow> plain en po' s'"
  by (auto simp: plain_def plain_view_def fun_eq_iff)

lemma decide_start_plain:
  assumes "cf_max_loras (en_config en) = None" "\<not> e" "\<not> gr_uses_embeds (sc_groups s ! r)"
  shows "wp (decide_start en r e u ca l) (\<lambda>d s'. d \<noteq> Postpone) s"
proof -
  have give: "wp (give_back r Stop) (\<lambda>d s'. d \<noteq> Postpone) s1" for s1
    unfolding give_back_def by (rule wp_rules, rule wp_keeps [OF queued.k_remove_from_tracker]) simp
  show ?thesis unfolding decide_start_def no_lora_room_def using assms
    by (auto intro!: give simp: wp_ifI)
qed

lemma decide_prefill_plain:
  assumes "cf_max_loras (en_config en) = None" "sc_partial s = None" "\<not> po_using_embeds po" "\<not> gr_uses_embeds (sc_groups s ! r)"
  shows "wp (decide_prefill en c r po) (\<lambda>x s'. fst x \<noteq> Postpone \<and> \<not> snd x) s"
proof -
  have give: "wp (give_back r Stop) (\<lambda>d s'. d \<noteq> Postpone) s1" for s1
    unfolding give_back_def by (rule wp_rules, rule wp_keeps [OF queued.k_remove_from_tracker]) simp
  have ignore: "wp (ignore_group r) (\<lambda>d s'. d \<noteq> Postpone) s1" for s1
    unfolding ignore_group_def
    by (intro wp_rules | (rule wp_keeps [where q = queues], (intro keeps_rules; simp; fail)))+ simp
  have embeds: "(if po_seq_groups po = [] then gr_uses_embeds (sc_groups s1 ! r) else po_using_embeds po) = False"
    "\<not> gr_uses_embeds (sc_groups s1 ! r)" if "plain_view s1 = plain_view s" for s1
    using that assms by (auto simp: plain_view_def fun_eq_iff)
  have status: "wp (decide_allocated en r po u ca l a) (\<lambda>x s'. fst x \<noteq> Postpone \<and> \<not> snd x) s1"
    if "plain_view s1 = plain_view s" for a u ca l s1
    by (cases a) (use embeds [OF that] assms in \<open>auto intro!: wp_mono [OF give] wp_mono [OF ignore] wp_mono [OF decide_start_plain] simp: decide_allocated_def\<close>)
  have ignored: "wp (bind_act (ignore_group r) (\<lambda>d. ret (d, po_using_embeds po))) (\<lambda>x s'. fst x \<noteq> Postpone \<and> \<not> snd x) s1" for s1
    by (rule wp_rules, rule wp_mono [OF ignore]) (use assms in simp)
  have sp: "plain_view s = plain_view s" ..
  show ?thesis unfolding decide_prefill_def Let_def case_prod_unfold
    by (intro wp_rules, rule wp_ifI, use assms in simp, rule wp_rules, rule wp_keeps [OF plainly.k_get_num_new_tokens])
       (intro wp_rules wp_ifI ignored status)
qed

lemma set_tl: "set (tl xs) \<subseteq> set xs"
  by (cases xs) auto

lemma start_group_plain:
  assumes "plain en po s"
  shows "wp (start_group en c r u ca l po) (\<lambda>po' s'. plain en po' s' \<and> po_leftover po' = po_leftover po) s"
  by (rule wp_mono [OF wp_conj [OF start_group_queues keeps_wp [OF k_plain_start]]])
     (auto intro!: plain_kept [OF assms] simp: queues_def dest: subsetD [OF set_tl])

lemma prefill_front_plain:
  assumes "plain en po s" "r \<in> set (sc_waiting s)"
  shows "wp (prefill_front en c r po) (\<lambda>x s'. plain en (snd x) s' \<and> po_leftover (snd x) = po_leftover po) s"
proof -
  have decided: "wp (decide_prefill en c r po) (\<lambda>x s'. (fst x \<noteq> Postpone \<and> \<not> snd x) \<and> queues s' = queues s \<and> plain_view s' = plain_view s) s"
    by (intro wp_conj keeps_wp decide_prefill_plain keeps_rules queued.k_decide_prefill plainly.k_decide_prefill) (use assms in \<open>auto simp: plain_def\<close>)
  have front: "plain en (po\<lparr>po_using_embeds := False\<rparr>) s1" if "queues s1 = queues s \<and> plain_view s1 = plain_view s" for s1
    by (rule plain_kept [OF assms(1)]) (use that assms(1) in \<open>auto simp: queues_def plain_def\<close>)
  have pop: "plain en (po\<lparr>po_using_embeds := False, po_ignored := i\<rparr>) (s1\<lparr>sc_waiting := tl (sc_waiting s1)\<rparr>)" 
    if "plain en (po\<lparr>po_using_embeds := False\<rparr>) s1" for s1 i
    by (rule plain_kept [OF that]) (auto simp: plain_view_def dest: subsetD [OF set_tl])
  have carried: "wp (carry_out en c r (po\<lparr>po_using_embeds := False\<rparr>) d) (\<lambda>x s'. plain en (snd x) s' \<and> po_leftover (snd x) = po_leftover po) s1"
    if "d \<noteq> Postpone" "plain en (po\<lparr>po_using_embeds := False\<rparr>) s1" for d s1
    using that by (cases d) (auto simp: carry_out_def pop intro: wp_mono [OF start_group_plain])
  show ?thesis unfolding prefill_front_def case_prod_unfold
    by (rule wp_rules, rule wp_mono [OF decided]) (simp add: carried front)
qed

lemma prefill_queue_plain: "plain en po s \<Longrightarrow> wp (prefill_queue en c n po) (\<lambda>po' s'. po_leftover po' = po_leftover po) s"
proof (induction n arbitrary: po s)
  case (Suc n)
  have rest: "wp (case x of (continue, po') \<Rightarrow> if continue then prefill_queue en c n po' else ret po') (\<lambda>po' s'. po_leftover po' = po_leftover po) s2"
    if "plain en (snd x) s2 \<and> po_leftover (snd x) = po_leftover po" for x s2
    using that Suc.IH [of "snd x" s2] by (simp add: case_prod_unfold)
  have "plain en po s1" if "queues s1 = queues s \<and> plain_view s1 = plain_view s" for s1
    by (rule plain_kept [OF Suc.prems]) (use that in \<open>auto simp: queues_def\<close>)
  then have step: "wp (if \<not> passed \<or> sc_waiting s1 = [] then ret po
       else bind_act (prefill_front en c (hd (sc_waiting s1)) po) (\<lambda>(continue, po'). if continue then prefill_queue en c n po' else ret po'))
       (\<lambda>po' s'. po_leftover po' = po_leftover po) s1" if "queues s1 = queues s \<and> plain_view s1 = plain_view s" for passed s1
    using that by (intro wp_ifI, simp, intro wp_rules, intro wp_mono [OF prefill_front_plain rest]) auto
  show ?case unfolding prefill_queue.simps
    by (intro wp_rules, rule wp_mono [OF wp_conj [OF keeps_wp [OF queued.k_passed_delay] keeps_wp [OF plainly.k_passed_delay]]], intro wp_rules) (rule step)
qed simp

lemma schedule_prefills_plain:
  assumes "plain en prefill_outputs_new s"
  shows "wp (schedule_prefills en c) (\<lambda>po s'. po_leftover po = []) s"
  unfolding schedule_prefills_def
  by (intro wp_rules wp_ifI, simp add: prefill_outputs_new_def, rule wp_mono [OF prefill_queue_plain [OF assms]], intro wp_rules)
     (simp add: prefill_outputs_new_def)

end
