(* ===== verification/SchedBounds.thy ===== *)
theory SchedBounds
  imports SchedQueues
begin

text \<open>
  The budget of a step is never overdrawn by starting waiting groups, a chunk fits into what is
  left of it, and the bounds on the rounds of the scheduling loops are never reached.
\<close>

section \<open>The budget\<close>

definition in_limits :: "budget \<Rightarrow> bool" where
  "in_limits b \<longleftrightarrow> bu_num_batched_tokens b \<le> bu_token_budget b \<and> bu_num_curr_seqs b \<le> bu_max_num_seqs b"

definition same_limits :: "budget \<Rightarrow> budget \<Rightarrow> bool" where
  "same_limits b b' \<longleftrightarrow> bu_token_budget b' = bu_token_budget b \<and> bu_max_num_seqs b' = bu_max_num_seqs b
     \<and> bu_num_batched_tokens b \<le> bu_num_batched_tokens b' \<and> bu_num_cached_tokens b \<le> bu_num_cached_tokens b'"

lemma wp_on_budget: "wp (on_budget f) Q s \<longleftrightarrow> wp f (\<lambda>x b. Q x (s\<lparr>sc_budget := b\<rparr>)) (sc_budget s)"
  by (auto simp: wp_def on_budget_def zoom_def split: prod.splits)

lemma wp_mod_budget: "wp (mod_budget f) Q s \<longleftrightarrow> Q () (s\<lparr>sc_budget := f (sc_budget s)\<rparr>)"
  by (simp add: mod_budget_def wp_on_budget)

definition fits :: "int \<Rightarrow> int \<Rightarrow> budget \<Rightarrow> bool" where
  "fits tokens n b \<longleftrightarrow> bu_can_schedule tokens n b = Inr True"

lemma add_in_limits:
  assumes "in_limits b" "fits tokens n b" "bu_add_num_batched_tokens rid tokens cached b = (Inr (), b1)"
  shows "in_limits (bu_add_num_seqs rid n b1)" "same_limits b (bu_add_num_seqs rid n b1)"
  using assms by (auto simp: in_limits_def fits_def same_limits_def bu_can_schedule_def bu_add_num_batched_tokens_def bu_add_num_seqs_def split: if_splits)

interpretation steady: manager_blind "\<lambda>s. (sc_groups s, sc_budget s)"
  by unfold_locales simp_all

lemma start_group_budget:
  assumes "in_limits (sc_budget s)" "fits u (get_max_num_running_seqs (group_at s r)) (sc_budget s)"
  shows "wp (start_group en c r u ca l po) (\<lambda>po' s'. in_limits (sc_budget s') \<and> same_limits (sc_budget s) (sc_budget s')) s"
  unfolding start_group_def Let_def
  by ((intro wp_rules | (rule wp_keeps [where q = sc_budget], (intro keeps_rules; fail)))+, simp only: wp_on_budget)
     (use assms in \<open>auto simp: wp_def mod_budget_def on_budget_def zoom_def ret_def bind_act_def modify_def dest: add_in_limits split: if_splits\<close>)

text \<open>A group is started only when its uncached tokens and its sequences fit.\<close>

definition start_fits :: "gref \<Rightarrow> sched_state \<Rightarrow> decision \<Rightarrow> sched_state \<Rightarrow> bool" where
  "start_fits r s d s' \<longleftrightarrow> sc_budget s' = sc_budget s
     \<and> (\<forall>u ca l. d = Start u ca l \<longrightarrow> sc_groups s' = sc_groups s \<and> fits u (get_max_num_running_seqs (group_at s r)) (sc_budget s))"

lemma start_fits_other: "sc_budget s' = sc_budget s \<Longrightarrow> (\<And>u ca l. d \<noteq> Start u ca l) \<Longrightarrow> start_fits r s d s'"
  by (simp add: start_fits_def)

lemma give_back_fits: "sc_budget s1 = sc_budget s \<Longrightarrow> (\<And>u ca l. d \<noteq> Start u ca l) \<Longrightarrow> wp (give_back r d) (start_fits r s) s1"
  unfolding give_back_def by (rule wp_rules, rule wp_keeps [OF spent.k_remove_from_tracker], rule wp_rules, rule start_fits_other) simp_all

lemma ignore_fits: "sc_budget s1 = sc_budget s \<Longrightarrow> wp (ignore_group r) (start_fits r s) s1"
  unfolding ignore_group_def
  by (intro wp_rules | (rule wp_keeps [where q = sc_budget], (intro keeps_rules; simp; fail)))+ (rule start_fits_other, simp_all)

lemma decide_start_fits:
  assumes "(sc_groups s1, sc_budget s1) = (sc_groups s, sc_budget s)"
  shows "wp (decide_start en r e u ca l) (start_fits r s) s1"
proof -
  have g: "group_at s1 r = group_at s r" using assms by (simp add: group_at_def)
  show ?thesis unfolding decide_start_def
    by (intro wp_rules wp_ifI give_back_fits, insert assms g, auto simp: start_fits_def fits_def)
qed

lemma decide_allocated_fits:
  assumes "(sc_groups s1, sc_budget s1) = (sc_groups s, sc_budget s)"
  shows "wp (decide_allocated en r po u ca l a) (\<lambda>x. start_fits r s (fst x)) s1"
proof (cases a)
  case OK
  show ?thesis unfolding OK decide_allocated_def alloc_status.case
    by (intro wp_rules wp_mono [OF decide_start_fits [OF assms]]) simp
next
  case LATER
  show ?thesis unfolding LATER decide_allocated_def alloc_status.case
    by (intro wp_rules wp_mono [OF give_back_fits]) (use assms in auto)
next
  case NEVER
  show ?thesis unfolding NEVER decide_allocated_def alloc_status.case
    by (intro wp_rules wp_mono [OF ignore_fits]) (use assms in auto)
qed

lemma decide_prefill_fits: "wp (decide_prefill en c r po) (\<lambda>x. start_fits r s (fst x)) s"
proof -
  have ignored: "wp (bind_act (ignore_group r) (\<lambda>d. ret (d, po_using_embeds po))) (\<lambda>x. start_fits r s (fst x)) s1"
    if "(sc_groups s1, sc_budget s1) = (sc_groups s, sc_budget s)" for s1
    by (intro wp_rules wp_mono [OF ignore_fits]) (use that in auto)
  show ?thesis unfolding decide_prefill_def Let_def case_prod_unfold
    by (intro wp_rules, rule wp_ifI, rule wp_rules, simp add: start_fits_def, rule wp_rules, rule wp_keeps [OF steady.k_get_num_new_tokens])
       (intro wp_rules wp_ifI ignored decide_allocated_fits)
qed

lemma same_limits_refl [simp]: "same_limits b b"
  by (simp add: same_limits_def)

lemma same_limits_trans: "same_limits b b1 \<Longrightarrow> same_limits b1 b2 \<Longrightarrow> same_limits b b2"
  by (simp add: same_limits_def)

definition still_within :: "sched_state \<Rightarrow> sched_state \<Rightarrow> bool" where
  "still_within s s' \<longleftrightarrow> (in_limits (sc_budget s) \<longrightarrow> in_limits (sc_budget s') \<and> same_limits (sc_budget s) (sc_budget s'))"

lemma still_within_same: "sc_budget s' = sc_budget s \<Longrightarrow> still_within s s'"
  by (simp add: still_within_def)

lemma still_within_trans: "still_within s s1 \<Longrightarrow> still_within s1 s2 \<Longrightarrow> still_within s s2"
  by (auto simp: still_within_def intro: same_limits_trans)

lemma prefill_front_budget: "wp (prefill_front en c r po) (\<lambda>_. still_within s) s"
proof -
  have start: "wp (start_group en c r u ca l po1) (\<lambda>_. still_within s) s1" if "start_fits r s (Start u ca l) s1" for u ca l po1 s1
  proof (cases "in_limits (sc_budget s)")
    case True
    have g: "group_at s1 r = group_at s r" using that by (simp add: start_fits_def group_at_def)
    show ?thesis
      by (rule wp_mono [OF start_group_budget]) (use that True g in \<open>auto simp: start_fits_def still_within_def\<close>)
  qed (simp add: still_within_def wp_def)
  have carried: "wp (carry_out en c r po1 d) (\<lambda>_. still_within s) s1" if "start_fits r s d s1" for po1 d s1
    using that by (cases d) (auto simp: carry_out_def start_fits_def intro!: still_within_same wp_mono [OF start])
  show ?thesis unfolding prefill_front_def case_prod_unfold
    by (rule wp_rules, rule wp_mono [OF decide_prefill_fits]) (rule carried)
qed

lemma prefill_queue_budget: "wp (prefill_queue en c n po) (\<lambda>_. still_within s) s"
proof (induction n arbitrary: po s)
  case 0
  show ?case by (simp add: still_within_same)
next
  case (Suc n)
  have step: "wp (if \<not> passed \<or> sc_waiting s1 = [] then ret po
       else bind_act (prefill_front en c (hd (sc_waiting s1)) po) (\<lambda>(continue, po'). if continue then prefill_queue en c n po' else ret po'))
       (\<lambda>_. still_within s) s1" if "sc_budget s1 = sc_budget s" for passed s1
  proof (intro wp_ifI wp_rules still_within_same that, rule wp_mono [OF prefill_front_budget])
    fix x s2
    assume "still_within s1 s2"
    then have "still_within s s2" using that by (simp add: still_within_def)
    then show "wp (case x of (continue, po') \<Rightarrow> if continue then prefill_queue en c n po' else ret po') (\<lambda>_. still_within s) s2"
      by (auto simp: case_prod_unfold intro: wp_mono [OF Suc.IH] still_within_trans)
  qed
  show ?case unfolding prefill_queue.simps
    by (intro wp_rules, rule wp_keeps [OF spent.k_passed_delay], intro wp_rules) (rule step)
qed

lemma schedule_prefills_budget: "wp (schedule_prefills en c) (\<lambda>_. still_within s) s"
  unfolding schedule_prefills_def
  by (intro wp_rules wp_ifI, simp add: still_within_same, rule wp_mono [OF prefill_queue_budget], intro wp_rules)
     (simp add: still_within_def)

section \<open>The loops end\<close>

lemma act_cong: "f s = f' s \<Longrightarrow> (\<And>x s'. f s = (Inr x, s') \<Longrightarrow> g x s' = g' x s') \<Longrightarrow> bind_act f g s = bind_act f' g' s"
  by (auto simp: bind_act_def split: prod.splits sum.splits)

lemma prefill_queue_enough: "length (sc_waiting s) < n \<Longrightarrow> prefill_queue en c (n + k) po s = prefill_queue en c n po s"
proof (induction n arbitrary: po s)
  case (Suc n)
  have next_round: "prefill_queue en c (n + k) po2 s2 = prefill_queue en c n po2 s2"
    if q: "queues s1 = queues s" and ne: "sc_waiting s1 \<noteq> []" and run: "prefill_front en c (hd (sc_waiting s1)) po s1 = (Inr (True, po2), s2)" for s1 po2 s2
  proof -
    have "sc_waiting s1 = hd (sc_waiting s1) # tl (sc_waiting s1)" using ne by simp
    then obtain ds where ds: "prefill_trace po s1 ds po2 s2" "ds \<noteq> []" using wpD [OF prefill_front_trace run] by auto
    then have "sc_waiting s = map fst ds @ sc_waiting s2" using q by (simp add: prefill_trace_def queues_def)
    with ds(2) Suc.prems have "length (sc_waiting s2) < n" by (cases ds) auto
    then show ?thesis by (rule Suc.IH)
  qed
  show ?case unfolding add_Suc prefill_queue.simps
    by (rule act_cong, rule refl, drule keepsD [OF queued.k_passed_delay], rule act_cong, rule refl)
       (auto simp: gets_def intro!: act_cong next_round)
qed simp

lemma make_room_enough:
  assumes "\<not> cf_use_async_output_proc (en_config en)"
  shows "length (sc_running s) < n \<Longrightarrow> make_room en c r t (n + k) ro s = make_room en c r t n ro s"
proof (induction n arbitrary: ro s)
  case (Suc n)
  have next_round: "make_room en c r t (n + k) ro2 s2 = make_room en c r t n ro2 s2"
    if "queues s1 = queues s" "sc_running s1 \<noteq> []" "preempt_victim en (last (sc_running s1)) ro (s1\<lparr>sc_running := butlast (sc_running s1)\<rparr>) = (Inr ro2, s2)" for s1 ro2 s2
  proof -
    have "sc_running s2 = butlast (sc_running s)" using wpD [OF preempt_victim_queues [OF assms] that(3)] that(1) by (simp add: queues_def)
    moreover have "sc_running s \<noteq> []" using that(1,2) by (simp add: queues_def)
    ultimately have "length (sc_running s2) < n" using Suc.prems by (cases "sc_running s" rule: rev_cases) auto
    then show ?thesis by (rule Suc.IH)
  qed
  show ?case unfolding add_Suc make_room.simps
    by (rule act_cong, rule refl, drule keepsD [OF queued.k_can_append])
       (auto intro!: act_cong next_round simp: gets_def modify_def dest!: keepsD [OF k_leave_budget] keepsD [OF k_leave_loras])
qed simp

lemma run_queue_enough:
  assumes "\<not> cf_use_async_output_proc (en_config en)"
  shows "length (sc_running s) \<le> n \<Longrightarrow> run_queue en c (n + k) ro s = run_queue en c n ro s"
proof (induction n arbitrary: ro s)
  case 0
  then show ?case by (cases k) (simp_all add: run_queue.simps)
next
  case (Suc n)
  have next_round: "run_queue en c (n + k) ro2 s2 = run_queue en c n ro2 s2"
    if ne: "sc_running s \<noteq> []" and run: "run_front en c (hd (sc_running s)) ro s = (Inr (Some ro2), s2)" for ro2 s2
  proof -
    have "sc_running s = hd (sc_running s) # tl (sc_running s)" using ne by simp
    from wpD [OF run_front_queues [OF assms this] run] have "length (sc_running s2) < length (sc_running s)" by (simp add: round_done_def)
    then show ?thesis using Suc by simp
  qed
  show ?case unfolding add_Suc run_queue.simps
    by (rule act_cong, rule refl) (auto simp: gets_def intro!: act_cong next_round split: option.splits)
qed

lemma preempt_for_enough: "length queue \<le> n \<Longrightarrow> preempt_for en r t queue (n + k) s = preempt_for en r t queue n s"
proof (induction n arbitrary: queue s)
  case 0
  then show ?case by (cases k) (simp_all add: preempt_for.simps)
next
  case (Suc n)
  then show ?case unfolding add_Suc preempt_for.simps
    by (intro act_cong refl) (auto simp: gets_def Let_def intro!: act_cong)
qed

section \<open>Chunks\<close>

lemma floor_multiple: "0 < bs \<Longrightarrow> (x::int) div bs * bs \<le> x"
  using pos_mod_sign [of bs x] div_mult_mod_eq [of x bs] by linarith

lemma floor_multiple_nonneg: "0 < bs \<Longrightarrow> 0 \<le> (x::int) \<Longrightarrow> 0 \<le> x div bs * bs"
  by (simp add: pos_imp_zdiv_nonneg_iff)

lemma budget_lookup_nonneg:
  assumes "0 \<le> cf_max_num_batched_tokens cf" "x \<in> set (budget_lookup_list cf)"
  shows "0 \<le> x"
  using assms by (auto simp: budget_lookup_list_def pos_imp_zdiv_nonneg_iff)

end
