(* ===== verification/SchedRequests.thy ===== *)
theory SchedRequests
  imports SchedFrame
begin

text \<open>How requests leave the scheduler: finished groups are freed and reported, and aborted ones are taken out of every queue.\<close>

section \<open>Finished requests\<close>

definition outside :: "sched_state \<Rightarrow> sgroup list \<times> gref list \<times> gref list \<times> gref list \<times> gref list" where
  "outside s = (sc_groups s, queues s)"

interpretation around: manager_blind "\<lambda>s. (outside s, sc_finished_ids s)"
  by unfold_locales (simp_all add: outside_def queues_def)

lemma k_settle [keeps_rules]: "keeps (\<lambda>s. (outside s, sc_finished_ids s)) (settle_finished_cache en r)"
  unfolding settle_finished_cache_def by (intro keeps_rules; simp add: outside_def queues_def)

lemma k_free_blocks [keeps_rules]: "keeps (\<lambda>s. (outside s, sc_finished_ids s)) (free_finished_seq_group_blocks en r)"
  unfolding free_finished_seq_group_blocks_def by (intro keeps_rules; simp add: outside_def queues_def)

definition finished_at :: "sched_state \<Rightarrow> gref \<Rightarrow> bool" where
  "finished_at s r \<longleftrightarrow> sg_is_finished (group_at s r)"

definition id_at :: "sched_state \<Rightarrow> gref \<Rightarrow> string" where
  "id_at s r = sg_request_id (group_at s r)"

lemma outside_at: "outside s' = outside s \<Longrightarrow> finished_at s' r = finished_at s r \<and> id_at s' r = id_at s r"
  by (simp add: outside_def finished_at_def id_at_def group_at_def)

lemma free_finished_seq_group_wp:
  "wp (free_finished_seq_group en r) (\<lambda>_ s'. outside s' = outside s
     \<and> sc_finished_ids s' = sc_finished_ids s @ (if finished_at s r then [id_at s r] else [])) s"
  unfolding free_finished_seq_group_def
  by (intro wp_rules, rule wp_keeps [OF k_free_blocks]) (auto simp: finished_at_def id_at_def outside_def queues_def)

lemma free_async_stopped_wp:
  "wp (free_async_stopped en r) (\<lambda>_ s'. outside s' = outside s \<and> sc_finished_ids s' = sc_finished_ids s @ [id_at s r]) s"
  unfolding free_async_stopped_def
  by (intro wp_rules, rule wp_keeps [OF around.k_free_cross_blocks], intro wp_rules, rule wp_keeps [OF k_free_blocks])
     (auto simp: id_at_def outside_def queues_def group_at_def)

lemma for_each_free_wp:
  assumes "\<And>r s. wp (f r) (\<lambda>_ s'. outside s' = outside s \<and> sc_finished_ids s' = sc_finished_ids s @ report (sc_groups s) r) s"
  shows "wp (for_each f rs) (\<lambda>_ s'. outside s' = outside s \<and> sc_finished_ids s' = sc_finished_ids s @ concat (map (report (sc_groups s)) rs)) s"
proof (induction rs arbitrary: s)
  case (Cons r rs)
  show ?case unfolding for_each.simps
    by (rule wp_rules, rule wp_mono [OF assms], rule wp_mono [OF Cons.IH]) (auto simp: outside_def)
qed simp

lemma concat_filter: "concat (map (\<lambda>r. if P r then [f r] else []) rs) = map f (filter P rs)"
  by (induction rs) auto

lemma free_running_wp:
  "wp (for_each (free_finished_seq_group en) rs) (\<lambda>_ s'. outside s' = outside s
     \<and> sc_finished_ids s' = sc_finished_ids s @ map (id_at s) (filter (finished_at s) rs)) s"
proof -
  have "wp (for_each (free_finished_seq_group en) rs) (\<lambda>_ s'. outside s' = outside s \<and> sc_finished_ids s' = sc_finished_ids s
      @ concat (map ((\<lambda>gs r. if sg_is_finished (gr_group (gs ! r)) then [sg_request_id (gr_group (gs ! r))] else []) (sc_groups s)) rs)) s"
    by (rule for_each_free_wp, rule wp_mono [OF free_finished_seq_group_wp]) (simp add: finished_at_def id_at_def group_at_def)
  then show ?thesis unfolding concat_filter by (simp add: finished_at_def [abs_def] id_at_def [abs_def] group_at_def)
qed

lemma free_stopped_wp:
  "wp (for_each (free_async_stopped en) rs) (\<lambda>_ s'. outside s' = outside s \<and> sc_finished_ids s' = sc_finished_ids s @ map (id_at s) rs) s"
proof -
  have "wp (for_each (free_async_stopped en) rs) (\<lambda>_ s'. outside s' = outside s \<and> sc_finished_ids s' = sc_finished_ids s
      @ concat (map ((\<lambda>gs r. [sg_request_id (gr_group (gs ! r))]) (sc_groups s)) rs)) s"
    by (rule for_each_free_wp, rule wp_mono [OF free_async_stopped_wp]) (simp add: id_at_def group_at_def)
  moreover have "concat (map (\<lambda>r. [f r]) rs) = map f rs" for f :: "gref \<Rightarrow> string" by (induction rs) auto
  ultimately show ?thesis by (simp add: id_at_def [abs_def] group_at_def)
qed

lemma free_finished_seq_groups_wp:
  "wp (free_finished_seq_groups en) (\<lambda>_ s'.
     queues s' = (sc_waiting s, filter (\<lambda>r. \<not> finished_at s r) (sc_running s), sc_swapped s, []) \<and> sc_groups s' = sc_groups s
     \<and> sc_finished_ids s' = sc_finished_ids s @ map (id_at s) (filter (finished_at s) (sc_running s)) @ map (id_at s) (sc_async_stopped s)) s"
  unfolding free_finished_seq_groups_def
  by (intro wp_rules, rule wp_keeps [where q = "\<lambda>s. (outside s, sc_finished_ids s)"], intro keeps_rules, intro wp_rules,
      rule wp_mono [OF free_running_wp], intro wp_rules, rule wp_mono [OF free_stopped_wp], intro wp_rules)
     (simp add: outside_def queues_def finished_at_def [abs_def] id_at_def [abs_def] group_at_def)

section \<open>Aborted requests\<close>

text \<open>What aborting leaves alone: the identifiers of all groups; and finished sequences stay finished.\<close>

definition ids :: "sched_state \<Rightarrow> gref \<Rightarrow> string" where
  "ids s = (\<lambda>r. sg_request_id (group_at s r))"

lemma group_at_upd: "group_at (upd_group r f s) r' = (if r' = r \<and> r < length (sc_groups s) then f (group_at s r) else group_at s r')"
  by (cases "r < length (sc_groups s)"; cases "r' = r") (auto simp: upd_group_def group_at_def list_update_beyond)

lemma length_upd_group: "length (sc_groups (upd_group r f s)) = length (sc_groups s)"
  by (simp add: upd_group_def)

lemma ids_set_status [simp]: "ids (set_seq_status r sid st s) = ids s"
  by (auto simp: ids_def fun_eq_iff set_seq_status_def upd_seq_def group_at_upd)

interpretation named: manager_blind ids
  by unfold_locales (simp_all add: ids_def group_at_def)

lemma k_ids_abort_seq [keeps_rules]: "keeps ids (abort_seq en r q)"
  unfolding abort_seq_def by (intro keeps_rules; simp)

definition stopped :: "sched_state \<Rightarrow> gref \<Rightarrow> bool" where
  "stopped s r \<longleftrightarrow> (\<forall>q \<in> set (sg_seqs (group_at s r)). seq_is_finished q)"

definition stopped_among :: "seq list \<Rightarrow> int set" where
  "stopped_among qs = {sid. \<forall>q \<in> set qs. sq_seq_id q = sid \<longrightarrow> seq_is_finished q}"

lemma stopped_among_Cons: "sid \<in> stopped_among (q # qs) \<longleftrightarrow> (sq_seq_id q = sid \<longrightarrow> seq_is_finished q) \<and> sid \<in> stopped_among qs"
  by (simp add: stopped_among_def)

definition stopped_ids :: "sched_state \<Rightarrow> gref \<Rightarrow> int set" where
  "stopped_ids s r = stopped_among (sg_seqs (group_at s r))"

definition seq_ids :: "sched_state \<Rightarrow> gref \<Rightarrow> int list" where
  "seq_ids s r = map sq_seq_id (sg_seqs (group_at s r))"

definition still_stopped :: "sched_state \<Rightarrow> sched_state \<Rightarrow> bool" where
  "still_stopped s s' \<longleftrightarrow> ids s' = ids s \<and> length (sc_groups s') = length (sc_groups s)
     \<and> (\<forall>r. seq_ids s' r = seq_ids s r \<and> stopped_ids s r \<subseteq> stopped_ids s' r)"

lemma still_stopped_groups: "sc_groups s' = sc_groups s \<Longrightarrow> still_stopped s s'"
  by (simp add: still_stopped_def seq_ids_def stopped_ids_def group_at_def ids_def)

lemma still_stopped_trans: "still_stopped s s1 \<Longrightarrow> still_stopped s1 s2 \<Longrightarrow> still_stopped s s2"
  by (auto simp: still_stopped_def)

lemma stopped_iff: "stopped s r \<longleftrightarrow> set (seq_ids s r) \<subseteq> stopped_ids s r"
  by (auto simp: stopped_def stopped_ids_def stopped_among_def seq_ids_def)

lemma stopped_mono: "still_stopped s s' \<Longrightarrow> stopped s r \<Longrightarrow> stopped s' r"
  unfolding stopped_iff still_stopped_def by fastforce

lemma set_seq_status_fields [simp]:
  "queues (set_seq_status r sid st s) = queues s" "sc_finished_ids (set_seq_status r sid st s) = sc_finished_ids s"
  "length (sc_groups (set_seq_status r sid st s)) = length (sc_groups s)"
  by (simp_all add: set_seq_status_def upd_seq_def upd_group_def queues_def)

lemma seqs_set_status: "sg_seqs (group_at (set_seq_status r sid st s) r') =
   (if r' = r \<and> r < length (sc_groups s) then map (\<lambda>q. if sq_seq_id q = sid then q\<lparr>sq_status := st\<rparr> else q) (sg_seqs (group_at s r)) else sg_seqs (group_at s r'))"
  by (simp add: set_seq_status_def upd_seq_def group_at_upd)

lemma seq_ids_set_status: "seq_ids (set_seq_status r sid st s) r' = seq_ids s r'"
  unfolding seq_ids_def seqs_set_status by (auto simp: comp_def intro!: map_cong)

lemma finished_aborted [simp]: "seq_is_finished (q\<lparr>sq_status := FINISHED_ABORTED\<rparr>)"
  by (simp add: seq_is_finished_def status_is_finished_def)

lemma stopped_among_aborted:
  "x \<in> stopped_among (map (\<lambda>q. if sq_seq_id q = sid then q\<lparr>sq_status := FINISHED_ABORTED\<rparr> else q) qs) \<longleftrightarrow> x = sid \<or> x \<in> stopped_among qs"
proof (induction qs)
  case Nil
  then show ?case by (simp add: stopped_among_def)
next
  case (Cons q qs)
  then show ?case by (cases "sq_seq_id q = sid") (auto simp: stopped_among_Cons)
qed

lemma stopped_ids_set_status:
  "stopped_ids s r' \<subseteq> stopped_ids (set_seq_status r sid FINISHED_ABORTED s) r'"
  "r < length (sc_groups s) \<Longrightarrow> sid \<in> stopped_ids (set_seq_status r sid FINISHED_ABORTED s) r"
  unfolding stopped_ids_def seqs_set_status by (cases "r' = r \<and> r < length (sc_groups s)") (simp_all add: subset_iff stopped_among_aborted)

lemma abort_status: "still_stopped s (set_seq_status r sid FINISHED_ABORTED s)"
  by (simp add: still_stopped_def seq_ids_set_status stopped_ids_set_status)

interpretation grouped: manager_blind "\<lambda>s. (sc_groups s, queues s, sc_finished_ids s)"
  by unfold_locales (simp_all add: queues_def)

definition aborted_seq :: "gref \<Rightarrow> seq \<Rightarrow> sched_state \<Rightarrow> sched_state \<Rightarrow> bool" where
  "aborted_seq r q s s' \<longleftrightarrow> still_stopped s s' \<and> (seq_is_finished q \<or> sq_seq_id q \<in> stopped_ids s' r)
     \<and> queues s' = queues s \<and> sc_finished_ids s' = sc_finished_ids s"

lemma abort_seq_wp:
  assumes "r < length (sc_groups s)"
  shows "wp (abort_seq en r q) (\<lambda>_. aborted_seq r q s) s"
proof -
  have freed: "aborted_seq r q s s'" if "(sc_groups s', queues s', sc_finished_ids s') = (sc_groups s1, queues s1, sc_finished_ids s1)"
      and s1: "s1 = set_seq_status r (sq_seq_id q) FINISHED_ABORTED s" for s1 s'
  proof -
    have "still_stopped s1 s'" "stopped_ids s' r = stopped_ids s1 r" using that(1) by (simp_all add: still_stopped_groups stopped_ids_def group_at_def)
    then show ?thesis using still_stopped_trans [OF abort_status] stopped_ids_set_status(2) [OF assms] that by (simp add: aborted_seq_def)
  qed
  show ?thesis unfolding abort_seq_def
    by (rule wp_ifI, rule wp_rules, simp add: aborted_seq_def still_stopped_groups, intro wp_rules, rule wp_keeps [OF grouped.k_free_seq], rule freed)
       (assumption, rule refl)
qed

lemma abort_seqs_wp:
  assumes "r < length (sc_groups s)"
  shows "wp (for_each (abort_seq en r) qs) (\<lambda>_ s'. \<forall>q \<in> set qs. seq_is_finished q \<or> sq_seq_id q \<in> stopped_ids s' r) s
    \<and> wp (for_each (abort_seq en r) qs) (\<lambda>_ s'. still_stopped s s' \<and> queues s' = queues s \<and> sc_finished_ids s' = sc_finished_ids s) s"
  using assms
proof (induction qs arbitrary: s)
  case Nil
  then show ?case by (simp add: still_stopped_groups)
next
  case (Cons q qs)
  have len: "r < length (sc_groups s1)" if "aborted_seq r q s s1" for s1 using that Cons.prems by (simp add: aborted_seq_def still_stopped_def)
  have "wp (for_each (abort_seq en r) qs) (\<lambda>_ s'. \<forall>q \<in> set (q # qs). seq_is_finished q \<or> sq_seq_id q \<in> stopped_ids s' r) s1"
      "wp (for_each (abort_seq en r) qs) (\<lambda>_ s'. still_stopped s s' \<and> queues s' = queues s \<and> sc_finished_ids s' = sc_finished_ids s) s1"
    if a: "aborted_seq r q s s1" for s1
  proof -
    note ih = Cons.IH [OF len [OF a]]
    show "wp (for_each (abort_seq en r) qs) (\<lambda>_ s'. \<forall>q \<in> set (q # qs). seq_is_finished q \<or> sq_seq_id q \<in> stopped_ids s' r) s1"
      by (rule wp_mono [OF wp_conj [OF conjunct1 [OF ih] conjunct2 [OF ih]]]) (use a in \<open>auto simp: aborted_seq_def still_stopped_def\<close>)
    show "wp (for_each (abort_seq en r) qs) (\<lambda>_ s'. still_stopped s s' \<and> queues s' = queues s \<and> sc_finished_ids s' = sc_finished_ids s) s1"
      by (rule wp_mono [OF conjunct2 [OF ih]]) (use a in \<open>auto simp: aborted_seq_def intro: still_stopped_trans\<close>)
  qed
  then show ?case unfolding for_each.simps wp_bind by (blast intro: wp_mono [OF abort_seq_wp [OF Cons.prems]])
qed

lemma abort_group_stopped:
  assumes "still_stopped s s'" "\<forall>q \<in> set (sg_seqs (group_at s r)). seq_is_finished q \<or> sq_seq_id q \<in> stopped_ids s' r"
  shows "stopped s' r"
proof -
  have "sq_seq_id q \<in> stopped_ids s' r" if "q \<in> set (sg_seqs (group_at s r))" for q
  proof (cases "sq_seq_id q \<in> stopped_ids s r")
    case False
    then obtain p where "p \<in> set (sg_seqs (group_at s r))" "sq_seq_id p = sq_seq_id q" "\<not> seq_is_finished p"
      by (auto simp: stopped_ids_def stopped_among_def)
    then show ?thesis using assms(2) by metis
  qed (use assms(1) in \<open>auto simp: still_stopped_def\<close>)
  then show ?thesis using assms(1) by (auto simp: stopped_iff still_stopped_def seq_ids_def)
qed

lemma fold_remove1_keep: "x \<notin> set ys \<Longrightarrow> fold remove1 ys (x # xs) = x # fold remove1 ys xs"
  by (induction ys arbitrary: xs) auto

lemma fold_remove1_filter: "fold remove1 (filter P xs) xs = filter (\<lambda>x. \<not> P x) xs"
  by (induction xs) (auto simp: fold_remove1_keep)

text \<open>The requests that a call of abort is about, by their own identifier or the one of the request they are a sample of.\<close>

definition matches :: "string set \<Rightarrow> (string, string) dict \<Rightarrow> sched_state \<Rightarrow> gref \<Rightarrow> bool" where
  "matches rids groups_of s r \<longleftrightarrow> (case map_of groups_of (ids s r) of Some parent \<Rightarrow> parent \<in> rids | None \<Rightarrow> ids s r \<in> rids)"

lemma matches_ids: "ids s' = ids s \<Longrightarrow> matches rids groups_of s' = matches rids groups_of s"
  by (intro ext) (simp add: matches_def split: option.splits)

text \<open>Access to one of the queues, with what the others hold.\<close>

locale queue_access =
  fixes queue :: "sched_state \<Rightarrow> gref list" and upd :: "(gref list \<Rightarrow> gref list) \<Rightarrow> sched_state \<Rightarrow> sched_state" and others :: "sched_state \<Rightarrow> 'o"
  assumes queue_upd: "queue (upd f s) = f (queue s)" and others_upd: "others (upd f s) = others s"
    and groups_upd: "sc_groups (upd f s) = sc_groups s" and finished_upd: "sc_finished_ids (upd f s) = sc_finished_ids s"
    and of_queues: "queues s' = queues s \<Longrightarrow> queue s' = queue s \<and> others s' = others s"
begin

definition aborts :: "gref list \<Rightarrow> sched_state \<Rightarrow> sched_state \<Rightarrow> bool" where
  "aborts rs s s' \<longleftrightarrow> still_stopped s s' \<and> (\<forall>r \<in> set rs. stopped s' r) \<and> queue s' = fold remove1 rs (queue s) \<and> others s' = others s
     \<and> sc_finished_ids s' = sc_finished_ids s @ map (ids s) rs"

lemma abort_one_wp:
  assumes "r < length (sc_groups s)"
  shows "wp (abort_one en upd r) (\<lambda>_. aborts [r] s) s"
proof -
  define s1 where "s1 = (upd (remove1 r) s)\<lparr>sc_finished_ids := sc_finished_ids s @ [ids s r]\<rparr>"
  have g: "sc_groups s1 = sc_groups s" "group_at s1 r = group_at s r" by (simp_all add: s1_def groups_upd group_at_def)
  have q1: "queue s1 = remove1 r (queue s)" "others s1 = others s"
    using of_queues [of s1 "upd (remove1 r) s"] by (simp_all add: s1_def queues_def queue_upd others_upd)
  have fin: "aborts [r] s s3" if a: "\<forall>q \<in> set (sg_seqs (group_at s r)). seq_is_finished q \<or> sq_seq_id q \<in> stopped_ids s2 r"
      and b: "still_stopped s1 s2" "queues s2 = queues s1" "sc_finished_ids s2 = sc_finished_ids s1"
      and c: "(sc_groups s3, queues s3, sc_finished_ids s3) = (sc_groups s2, queues s2, sc_finished_ids s2)" for s2 s3
  proof -
    have "still_stopped s s2" using b(1) still_stopped_groups [of s1 s] g by (blast intro: still_stopped_trans)
    then have "still_stopped s s3" "stopped s2 r" "stopped s3 r"
      using abort_group_stopped [OF _ a] c still_stopped_groups [of s3 s2] by (auto intro: still_stopped_trans stopped_mono)
    moreover have "queue s3 = queue s1" "others s3 = others s1" using b(2) c of_queues [of s3 s1] by simp_all
    ultimately show ?thesis using b(3) c q1 by (simp add: aborts_def s1_def)
  qed
  have run: "wp (for_each (abort_seq en r) (sg_seqs (group_at s r))) (\<lambda>_ s2. wp (free_cross_blocks en r) (\<lambda>_. aborts [r] s) s2) s1"
    by (rule wp_mono [OF wp_conj [OF conjunct1 [OF abort_seqs_wp] conjunct2 [OF abort_seqs_wp]]])
       (use assms g in simp, use assms g in simp, rule wp_keeps [OF grouped.k_free_cross_blocks], elim conjE, rule fin, assumption+)
  show ?thesis unfolding abort_one_def
    using run by (simp add: s1_def ids_def group_at_def groups_upd finished_upd)
qed

lemma abort_all_wp:
  "set rs \<subseteq> {..<length (sc_groups s)} \<Longrightarrow> wp (for_each (abort_one en upd) rs) (\<lambda>_. aborts rs s) s"
proof (induction rs arbitrary: s)
  case Nil
  then show ?case by (simp add: aborts_def still_stopped_groups)
next
  case (Cons r rs)
  have "wp (for_each (abort_one en upd) rs) (\<lambda>_. aborts (r # rs) s) s1" if a: "aborts [r] s s1" for s1
  proof -
    have s1: "still_stopped s s1" "ids s1 = ids s" "length (sc_groups s1) = length (sc_groups s)" using a by (simp_all add: aborts_def still_stopped_def)
    show ?thesis
      by (rule wp_mono [OF Cons.IH]) (use a s1 Cons.prems in \<open>auto simp: aborts_def intro: still_stopped_trans stopped_mono\<close>)
  qed
  then show ?case unfolding for_each.simps wp_bind by (intro wp_mono [OF abort_one_wp]) (use Cons.prems in auto)
qed

lemma abort_queue_wp:
  assumes "set (queue s) \<subseteq> {..<length (sc_groups s)}"
  shows "wp (abort_queue en rids groups_of queue upd) (\<lambda>_. aborts (filter (matches rids groups_of s) (queue s)) s) s"
proof -
  have "filter (\<lambda>r. let rid = sg_request_id (group_at s r) in (case map_of groups_of rid of Some parent \<Rightarrow> parent \<in> rids | None \<Rightarrow> rid \<in> rids)) (queue s)
      = filter (matches rids groups_of s) (queue s)"
    by (intro filter_cong) (simp_all add: matches_def ids_def Let_def split: option.splits)
  then show ?thesis unfolding abort_queue_def
    by (intro wp_rules) (simp only:, rule abort_all_wp, use assms in auto)
qed

lemma aborts_queue: "aborts (filter P (queue s)) s s' \<Longrightarrow> queue s' = filter (\<lambda>r. \<not> P r) (queue s)"
  by (simp add: aborts_def fold_remove1_filter)

end

interpretation in_waiting: queue_access sc_waiting "\<lambda>f s. s\<lparr>sc_waiting := f (sc_waiting s)\<rparr>" "\<lambda>s. (sc_running s, sc_swapped s, sc_async_stopped s)"
  by unfold_locales (simp_all add: queues_def)

interpretation in_running: queue_access sc_running "\<lambda>f s. s\<lparr>sc_running := f (sc_running s)\<rparr>" "\<lambda>s. (sc_waiting s, sc_swapped s, sc_async_stopped s)"
  by unfold_locales (simp_all add: queues_def)

interpretation in_swapped: queue_access sc_swapped "\<lambda>f s. s\<lparr>sc_swapped := f (sc_swapped s)\<rparr>" "\<lambda>s. (sc_waiting s, sc_running s, sc_async_stopped s)"
  by unfold_locales (simp_all add: queues_def)

lemma abort_seq_group_wp:
  assumes "set (sc_waiting s @ sc_running s @ sc_swapped s) \<subseteq> {..<length (sc_groups s)}"
  shows "wp (abort_seq_group en rids groups_of) (\<lambda>_ s'.
     queues s' = (filter (\<lambda>r. \<not> matches rids groups_of s r) (sc_waiting s), filter (\<lambda>r. \<not> matches rids groups_of s r) (sc_running s),
        filter (\<lambda>r. \<not> matches rids groups_of s r) (sc_swapped s), sc_async_stopped s)
     \<and> sc_finished_ids s' = sc_finished_ids s @ map (ids s) (filter (matches rids groups_of s) (sc_waiting s @ sc_running s @ sc_swapped s))
     \<and> (\<forall>r \<in> set (filter (matches rids groups_of s) (sc_waiting s @ sc_running s @ sc_swapped s)). stopped s' r)) s"
proof -
  have fin: "queues s3 = (filter (\<lambda>r. \<not> matches rids groups_of s r) (sc_waiting s), filter (\<lambda>r. \<not> matches rids groups_of s r) (sc_running s),
        filter (\<lambda>r. \<not> matches rids groups_of s r) (sc_swapped s), sc_async_stopped s)
     \<and> sc_finished_ids s3 = sc_finished_ids s @ map (ids s) (filter (matches rids groups_of s) (sc_waiting s @ sc_running s @ sc_swapped s))
     \<and> (\<forall>r \<in> set (filter (matches rids groups_of s) (sc_waiting s @ sc_running s @ sc_swapped s)). stopped s3 r)"
    if a: "in_waiting.aborts (filter (matches rids groups_of s) (sc_waiting s)) s s1"
      and b: "in_running.aborts (filter (matches rids groups_of s1) (sc_running s1)) s1 s2"
      and c: "in_swapped.aborts (filter (matches rids groups_of s2) (sc_swapped s2)) s2 s3" for s1 s2 s3
  proof -
    have i1: "ids s1 = ids s" and i2: "ids s2 = ids s" using a b by (simp_all add: in_waiting.aborts_def in_running.aborts_def still_stopped_def)
    have m: "matches rids groups_of s1 = matches rids groups_of s" "matches rids groups_of s2 = matches rids groups_of s"
      using matches_ids [OF i1] matches_ids [OF i2] by simp_all
    have st: "stopped s1 r \<Longrightarrow> stopped s3 r" "stopped s2 r \<Longrightarrow> stopped s3 r" for r
      using b c by (auto simp: in_running.aborts_def in_swapped.aborts_def intro: stopped_mono)
    have w: "sc_waiting s1 = filter (\<lambda>r. \<not> matches rids groups_of s r) (sc_waiting s)" "sc_running s1 = sc_running s" "sc_swapped s1 = sc_swapped s"
      "sc_async_stopped s1 = sc_async_stopped s" "sc_finished_ids s1 = sc_finished_ids s @ map (ids s) (filter (matches rids groups_of s) (sc_waiting s))"
      "\<forall>r \<in> set (filter (matches rids groups_of s) (sc_waiting s)). stopped s1 r"
      using in_waiting.aborts_queue [OF a] a by (simp_all add: in_waiting.aborts_def)
    have r: "sc_running s2 = filter (\<lambda>r. \<not> matches rids groups_of s r) (sc_running s1)" "sc_waiting s2 = sc_waiting s1" "sc_swapped s2 = sc_swapped s1"
      "sc_async_stopped s2 = sc_async_stopped s1" "sc_finished_ids s2 = sc_finished_ids s1 @ map (ids s) (filter (matches rids groups_of s) (sc_running s1))"
      "\<forall>r \<in> set (filter (matches rids groups_of s) (sc_running s1)). stopped s2 r"
      using in_running.aborts_queue [OF b] b by (simp_all add: in_running.aborts_def m i1)
    have x: "sc_swapped s3 = filter (\<lambda>r. \<not> matches rids groups_of s r) (sc_swapped s2)" "sc_waiting s3 = sc_waiting s2" "sc_running s3 = sc_running s2"
      "sc_async_stopped s3 = sc_async_stopped s2" "sc_finished_ids s3 = sc_finished_ids s2 @ map (ids s) (filter (matches rids groups_of s) (sc_swapped s2))"
      "\<forall>r \<in> set (filter (matches rids groups_of s) (sc_swapped s2)). stopped s3 r"
      using in_swapped.aborts_queue [OF c] c by (simp_all add: in_swapped.aborts_def m i2)
    show ?thesis
    proof (intro conjI ballI)
      fix y
      assume "y \<in> set (filter (matches rids groups_of s) (sc_waiting s @ sc_running s @ sc_swapped s))"
      then consider "y \<in> set (filter (matches rids groups_of s) (sc_waiting s))" | "y \<in> set (filter (matches rids groups_of s) (sc_running s1))"
        | "y \<in> set (filter (matches rids groups_of s) (sc_swapped s2))" unfolding w(2,3) r(3) filter_append set_append by blast
      then show "stopped s3 y"
        by cases (erule st(1) [OF bspec [OF w(6)]], erule st(2) [OF bspec [OF r(6)]], erule bspec [OF x(6)])
    qed (simp_all add: queues_def w r x)
  qed
  have len: "length (sc_groups s1) = length (sc_groups s)" "sc_running s1 = sc_running s" "sc_swapped s1 = sc_swapped s"
    if "in_waiting.aborts rs s s1" for rs s1 using that by (simp_all add: in_waiting.aborts_def still_stopped_def)
  have len2: "length (sc_groups s2) = length (sc_groups s1)" "sc_swapped s2 = sc_swapped s1"
    if "in_running.aborts rs s1 s2" for rs s1 s2 using that by (simp_all add: in_running.aborts_def still_stopped_def)
  show ?thesis unfolding abort_seq_group_def wp_bind
    by (rule wp_mono [OF in_waiting.abort_queue_wp], use assms in simp, rule wp_mono [OF in_running.abort_queue_wp], frule len(1), frule len(2), use assms in simp,
        rule wp_mono [OF in_swapped.abort_queue_wp], frule len(1), frule len(3), frule len2(1), frule len2(2), use assms in simp) (rule fin)
qed

end
