(* ===== verification/SchedSpec.thy ===== *)
theory SchedSpec
  imports SchedOrder SchedBounds SchedRequests
begin

text \<open>The properties of the scheduler, and a small instance on which each of them is applied.\<close>

section \<open>A small instance\<close>

text \<open>
  An instance with four blocks of two tokens and a batch limit of eight tokens. Request \<open>a\<close> of query
  5 has three tokens; request \<open>b\<close> of query 4 arrived later, goes first and is too long.
\<close>

definition small_config :: "bool \<Rightarrow> sched_config" where
  "small_config chunked = \<lparr>cf_max_num_batched_tokens = 8, cf_max_num_seqs = 2, cf_max_model_len = 8, cf_max_num_partial_prefills = 1,
     cf_max_long_partial_prefills = 1, cf_long_prefill_token_threshold = 0, cf_num_lookahead_slots = 0, cf_num_scheduler_steps = 1,
     cf_delay_factor = 0, cf_chunked_prefill_enabled = chunked, cf_policy = ''fcfs'', cf_preemption_mode = None, cf_send_delta_data = False,
     cf_block_size = 2, cf_enable_prefix_caching = False, cf_max_loras = None, cf_use_async_output_proc = False\<rparr>"

definition small_env :: "bool \<Rightarrow> env" where
  "small_env chunked = \<lparr>en_config = small_config chunked, en_digest = digits_digest, en_hash_pair = (\<lambda>_. 0), en_clock = rat_of_nat,
     en_output_proc = (\<lambda>_. raise RuntimeError)\<rparr>"

definition small_request :: "string \<Rightarrow> int \<Rightarrow> int \<Rightarrow> int list \<Rightarrow> seq_status \<Rightarrow> sgroup" where
  "small_request rid sid query toks st =
     (case seq_group_new rid [(seq_new sid toks 2 0 0)\<lparr>sq_status := st\<rparr>] 0 (Some [(''query_id'', JInt query)]) None 0 of
        Inr g \<Rightarrow> \<lparr>gr_group = g, gr_lora = None, gr_n = None, gr_uses_embeds = False\<rparr> | Inl _ \<Rightarrow> undefined)"

definition small_manager :: manager where
  "small_manager = (case bm_new 0 2 4 2 0 None False of Inr m \<Rightarrow> m | Inl _ \<Rightarrow> undefined)"

definition small_sched :: sched_state where
  "small_sched = (sched_state_new (small_env False) small_manager)
     \<lparr>sc_groups := [small_request ''a'' 1 5 [1, 2, 3] WAITING, small_request ''b'' 2 4 [1, 2, 3, 4, 5, 6, 7, 8, 9] WAITING],
      sc_waiting := [0, 1]\<rparr>"

definition returns :: "(py_error + 'a) \<times> 's \<Rightarrow> ('a \<Rightarrow> 's \<Rightarrow> bool) \<Rightarrow> bool" where
  "returns out P = (case out of (Inr x, s) \<Rightarrow> P x s | (Inl _, _) \<Rightarrow> False)"

lemma returnsE: "returns out P \<Longrightarrow> (\<And>x s. out = (Inr x, s) \<Longrightarrow> P x s \<Longrightarrow> thesis) \<Longrightarrow> thesis"
  by (auto simp: returns_def split: prod.splits sum.splits)

lemma small_run: "returns (schedule (small_env False) small_sched) (\<lambda>(ms, so, allow) s'.
     so_scheduled so = [(0, 3)] \<and> so_ignored so = [1] \<and> queues s' = ([], [0], [], []))"
  by code_simp

lemma small_sync: "\<not> cf_use_async_output_proc (en_config (small_env c))"
  by (simp add: small_env_def small_config_def)

section \<open>No request is lost\<close>



section \<open>First come, first served\<close>

text \<open>
  C4. Waiting requests are served in the order of their query identifiers and, within a query, in the
  order of the queue. The loop over the waiting requests takes a first part of the sorted queue;
  each request of it is started, ignored for good or postponed, the started ones are scheduled in
  this order, and the postponed ones go back to the front of the queue in this order, before the
  requests the loop did not reach. Without adapters, limits on partial prefills and embeddings
  nothing is postponed, so that no request overtakes another one.
\<close>

theorem prefills_first_come_first_served:
  assumes "bind_act sort_waiting_by_query_id (\<lambda>_. schedule_prefills en c) s = (Inr po, s')"
    "\<forall>r \<in> set (sc_waiting s). extract_query_id_key (group_at s r) = JInt (qid r)"
  shows "\<exists>ds rest. mset (map fst ds @ rest) = mset (sc_waiting s) \<and> sorted (map qid (map fst ds @ rest))
     \<and> (\<forall>k. filter (\<lambda>r. qid r = k) (map fst ds @ rest) = filter (\<lambda>r. qid r = k) (sc_waiting s))
     \<and> map fst (po_seq_groups po) = with_verdict Started ds \<and> po_ignored po = with_verdict Ignored ds
     \<and> sc_waiting s' = with_verdict Postponed ds @ rest
     \<and> (cf_max_loras (en_config en) = None \<and> sc_partial s = None \<and> (\<forall>r \<in> set (sc_waiting s). \<not> gr_uses_embeds (sc_groups s ! r))
          \<longrightarrow> with_verdict Postponed ds = [])"
proof -
  define s1 where "s1 = s\<lparr>sc_waiting := sort_key qid (sc_waiting s)\<rparr>"
  have "sort_by_query_id s (sc_waiting s) = Inr (sort_key qid (sc_waiting s))" by (rule sort_by_query_id_int) (use assms(2) in blast)
  then have run: "schedule_prefills en c s1 = (Inr po, s')"
    using assms(1) by (simp add: sort_waiting_by_query_id_def bind_act_def lift_res_def gets_def modify_def s1_def)
  obtain ds rest where ds: "queues s1 = (map fst ds @ rest, sc_running s', sc_swapped s', sc_async_stopped s')"
    "sc_waiting s' = with_verdict Postponed ds @ rest" "map fst (po_seq_groups po) = with_verdict Started ds"
    "po_ignored po = with_verdict Ignored ds" "rev (po_leftover po) = with_verdict Postponed ds"
    using wpD [OF schedule_prefills_trace run] by blast
  have q: "map fst ds @ rest = sort_key qid (sc_waiting s)" using ds(1) by (simp add: s1_def queues_def)
  have "with_verdict Postponed ds = []"
    if "cf_max_loras (en_config en) = None \<and> sc_partial s = None \<and> (\<forall>r \<in> set (sc_waiting s). \<not> gr_uses_embeds (sc_groups s ! r))"
  proof -
    have "plain en prefill_outputs_new s1" using that by (simp add: plain_def s1_def prefill_outputs_new_def)
    from wpD [OF schedule_prefills_plain [OF this] run] ds(5) show ?thesis by simp
  qed
  moreover have "filter (\<lambda>r. qid r = k) (sort_key qid (sc_waiting s)) = filter (\<lambda>r. qid r = k) (sc_waiting s)" for k
    by (rule sort_key_stable)
  ultimately show ?thesis using ds(2-4) unfolding q [symmetric]
    by (intro exI [of _ ds] exI [of _ rest]) (simp add: q sorted_sort_key)
qed

definition small_ready :: sched_state where
  "small_ready = small_sched\<lparr>sc_budget := new_budget (small_env False)\<rparr>"

lemma small_prefills: "returns (bind_act sort_waiting_by_query_id (\<lambda>_. schedule_prefills (small_env False) False) small_ready)
   (\<lambda>po s'. map fst (po_seq_groups po) = [0] \<and> po_ignored po = [1] \<and> sc_waiting s' = [] \<and> bu_num_batched_tokens (sc_budget s') = 3)"
  by code_simp

lemma small_keys: "\<forall>r \<in> set (sc_waiting small_ready). extract_query_id_key (group_at small_ready r) = JInt ([5, 4] ! r)"
  by code_simp

theorem prefills_first_come_first_served_witness:
  "\<exists>po s' ds rest. bind_act sort_waiting_by_query_id (\<lambda>_. schedule_prefills (small_env False) False) small_ready = (Inr po, s')
     \<and> map fst (po_seq_groups po) = [0] \<and> po_ignored po = [1] \<and> sorted (map ((!) [5, 4 :: int]) (map fst ds @ rest))
     \<and> with_verdict Started ds = [0] \<and> with_verdict Ignored ds = [1] \<and> mset (map fst ds @ rest) = {#0, 1#}"
proof -
  obtain po s' where run: "bind_act sort_waiting_by_query_id (\<lambda>_. schedule_prefills (small_env False) False) small_ready = (Inr po, s')"
    and po: "map fst (po_seq_groups po) = [0]" "po_ignored po = [1]" using small_prefills by (rule returnsE) auto
  have "sc_waiting small_ready = [0, 1]" by (simp add: small_ready_def small_sched_def)
  with prefills_first_come_first_served [OF run small_keys] run po show ?thesis by fastforce
qed

section \<open>The budget\<close>

text \<open>
  C7. Starting waiting requests never overdraws the budget of the step: when the tokens and sequences
  counted so far are within the limits, they still are after the loop, whose limits are the same
  and whose counts have not shrunk.
\<close>

theorem prefills_within_budget:
  assumes "schedule_prefills en c s = (Inr po, s')"
    "bu_num_batched_tokens (sc_budget s) \<le> bu_token_budget (sc_budget s)" "bu_num_curr_seqs (sc_budget s) \<le> bu_max_num_seqs (sc_budget s)"
  shows "bu_num_batched_tokens (sc_budget s') \<le> bu_token_budget (sc_budget s') \<and> bu_num_curr_seqs (sc_budget s') \<le> bu_max_num_seqs (sc_budget s')
     \<and> bu_token_budget (sc_budget s') = bu_token_budget (sc_budget s) \<and> bu_max_num_seqs (sc_budget s') = bu_max_num_seqs (sc_budget s)
     \<and> bu_num_batched_tokens (sc_budget s) \<le> bu_num_batched_tokens (sc_budget s')"
  using wpD [OF schedule_prefills_budget assms(1)] assms(2,3) by (simp add: still_within_def in_limits_def same_limits_def)

lemma small_start: "returns (schedule_prefills (small_env False) False small_ready)
   (\<lambda>po s'. po_seq_groups po = [(0, 3)] \<and> bu_num_batched_tokens (sc_budget s') = 3)"
  by code_simp

theorem prefills_within_budget_witness:
  "\<exists>po s'. schedule_prefills (small_env False) False small_ready = (Inr po, s') \<and> po_seq_groups po = [(0, 3)]
     \<and> bu_num_batched_tokens (sc_budget s') = 3 \<and> bu_num_batched_tokens (sc_budget s') \<le> 8 \<and> bu_num_curr_seqs (sc_budget s') \<le> 2"
proof -
  obtain po s' where run: "schedule_prefills (small_env False) False small_ready = (Inr po, s')"
    and po: "po_seq_groups po = [(0, 3)]" "bu_num_batched_tokens (sc_budget s') = 3" using small_start by (rule returnsE) auto
  have b: "sc_budget small_ready = budget_new 8 2" by (simp add: small_ready_def new_budget_def small_env_def small_config_def)
  from prefills_within_budget [OF run] run po show ?thesis by (simp add: b budget_new_def)
qed

section \<open>The loops end\<close>



section \<open>Requests that leave\<close>

text \<open>
  C10. After \<open>free_finished_seq_groups\<close> exactly the unfinished groups are running, in their order; the
  other queues and all groups are as before, no group is left over from asynchronous processing,
  and the identifiers of the finished and of the stopped groups are reported once each, in order.
\<close>

theorem finished_groups_leave:
  assumes "free_finished_seq_groups en s = (Inr (), s')"
  shows "sc_running s' = filter (\<lambda>r. \<not> sg_is_finished (group_at s r)) (sc_running s) \<and> sc_waiting s' = sc_waiting s
     \<and> sc_swapped s' = sc_swapped s \<and> sc_async_stopped s' = [] \<and> sc_groups s' = sc_groups s
     \<and> sc_finished_ids s' = sc_finished_ids s
         @ map (\<lambda>r. sg_request_id (group_at s r)) (filter (\<lambda>r. sg_is_finished (group_at s r)) (sc_running s) @ sc_async_stopped s)"
  using wpD [OF free_finished_seq_groups_wp assms] by (simp add: queues_def finished_at_def [abs_def] id_at_def [abs_def])

definition small_running :: sched_state where
  "small_running = (sched_state_new (small_env False) small_manager)
     \<lparr>sc_groups := [small_request ''a'' 1 5 [1, 2, 3] FINISHED_STOPPED, small_request ''b'' 2 4 [1, 2] RUNNING, small_request ''c'' 3 6 [1] WAITING],
      sc_running := [0, 1], sc_waiting := [2]\<rparr>"

lemma small_frees: "returns (free_finished_seq_groups (small_env False) small_running) (\<lambda>_ s'. sc_running s' = [1])"
  by code_simp

theorem finished_groups_leave_witness:
  "\<exists>s'. free_finished_seq_groups (small_env False) small_running = (Inr (), s') \<and> sc_running s' = [1] \<and> sc_waiting s' = [2] \<and> sc_finished_ids s' = [''a'']"
proof -
  obtain s' where run: "free_finished_seq_groups (small_env False) small_running = (Inr (), s')" and r: "sc_running s' = [1]"
    using small_frees by (rule returnsE) auto
  have "map (\<lambda>r. sg_request_id (group_at small_running r)) (filter (\<lambda>r. sg_is_finished (group_at small_running r)) (sc_running small_running)
      @ sc_async_stopped small_running) = [''a'']" "sc_finished_ids small_running = []" "sc_waiting small_running = [2]" by code_simp+
  with finished_groups_leave [OF run] run r show ?thesis by simp
qed

text \<open>
  C9. Aborting requests takes every group of theirs out of every queue, also the groups that stand for
  samples of an aborted request, and leaves the other groups in their order; all sequences of the
  aborted groups are finished, and each of these groups is reported as finished.
\<close>

theorem aborted_groups_leave:
  assumes "abort_seq_group en rids groups_of s = (Inr (), s')"
    "set (sc_waiting s @ sc_running s @ sc_swapped s) \<subseteq> {..<length (sc_groups s)}"
  shows "sc_waiting s' = filter (\<lambda>r. \<not> matches rids groups_of s r) (sc_waiting s)
     \<and> sc_running s' = filter (\<lambda>r. \<not> matches rids groups_of s r) (sc_running s)
     \<and> sc_swapped s' = filter (\<lambda>r. \<not> matches rids groups_of s r) (sc_swapped s)
     \<and> sc_finished_ids s' = sc_finished_ids s
         @ map (\<lambda>r. sg_request_id (group_at s r)) (filter (matches rids groups_of s) (sc_waiting s @ sc_running s @ sc_swapped s))
     \<and> (\<forall>r q. r \<in> set (sc_waiting s @ sc_running s @ sc_swapped s) \<and> matches rids groups_of s r \<and> q \<in> set (sg_seqs (group_at s' r)) \<longrightarrow> seq_is_finished q)"
  using wpD [OF abort_seq_group_wp [OF assms(2)] assms(1)] by (simp add: queues_def stopped_def ids_def) blast

lemma small_aborts: "returns (abort_seq_group (small_env False) {''b''} [] small_running) (\<lambda>_ s'. sc_running s' = [0])"
  by code_simp

theorem aborted_groups_leave_witness:
  "\<exists>s'. abort_seq_group (small_env False) {''b''} [] small_running = (Inr (), s') \<and> sc_running s' = [0] \<and> sc_waiting s' = [2]
     \<and> sc_finished_ids s' = [''b''] \<and> list_all seq_is_finished (sg_seqs (group_at s' 1))"
proof -
  obtain s' where run: "abort_seq_group (small_env False) {''b''} [] small_running = (Inr (), s')" and r: "sc_running s' = [0]"
    using small_aborts by (rule returnsE) auto
  have m: "map (\<lambda>r. sg_request_id (group_at small_running r))
      (filter (matches {''b''} [] small_running) (sc_waiting small_running @ sc_running small_running @ sc_swapped small_running)) = [''b'']"
    "filter (\<lambda>r. \<not> matches {''b''} [] small_running r) (sc_waiting small_running) = [2]" "sc_finished_ids small_running = []" by code_simp+
  have q: "set (sc_waiting small_running @ sc_running small_running @ sc_swapped small_running) \<subseteq> {..<length (sc_groups small_running)}"
    by (simp add: small_running_def sched_state_new_def)
  have one: "1 \<in> set (sc_waiting small_running @ sc_running small_running @ sc_swapped small_running) \<and> matches {''b''} [] small_running 1"
    by code_simp
  note leave = aborted_groups_leave [OF run q, unfolded m append_Nil]
  then have "list_all seq_is_finished (sg_seqs (group_at s' 1))" using one by (simp only: list_all_iff) blast
  with leave run r show ?thesis by blast
qed

end
