(* ===== verification/InstanceApi.thy ===== *)
theory InstanceApi
  imports Scheduler Controller
begin

text \<open>
  \<open>src/vllm/vllm/instance_api.py\<close>: the HTTP service of an instance. It starts generations whose output
  is forced to recorded tokens, reports the outcome to the controller, answers the queries of the
  router for the state of the cache, and takes over the caches of migrated requests. The asynchronous
  generation of the engine is the argument \<open>gen\<close>; requests are given after their validation by
  pydantic.
\<close>

section \<open>State\<close>

text \<open>The engine as far as the service sees it: the first scheduler and the counter of sequences.\<close>

record engine =
  eg_scheduler :: sched_state
  eg_seq_counter :: int

definition eg_manager :: "engine \<Rightarrow> manager" where
  "eg_manager e = sc_bm (eg_scheduler e)"

definition on_scheduler :: "(sched_state, 'a) act \<Rightarrow> (engine, 'a) act" where
  "on_scheduler = zoom eg_scheduler (\<lambda>s e. e\<lparr>eg_scheduler := s\<rparr>)"

definition next_seq_id :: "(engine, int) act" where
  "next_seq_id e = (Inr (eg_seq_counter e), e\<lparr>eg_seq_counter := eg_seq_counter e + 1\<rparr>)"

text \<open>The module's globals.\<close>

record service =
  sv_engine :: "engine option"
  sv_eos_token_id :: "int option"
  sv_controller_url :: "string option"
  sv_instance_id :: "string option"
  sv_context_range :: "(int \<times> int) option"

definition service_new :: service where
  "service_new = \<lparr>sv_engine = None, sv_eos_token_id = None, sv_controller_url = None, sv_instance_id = None, sv_context_range = None\<rparr>"

section \<open>Values\<close>

definition opt_int_json :: "int option \<Rightarrow> json" where
  "opt_int_json x = (case x of None \<Rightarrow> JNull | Some i \<Rightarrow> JInt i)"

definition opt_str_json :: "string option \<Rightarrow> json" where
  "opt_str_json x = (case x of None \<Rightarrow> JNull | Some s \<Rightarrow> JStr s)"

definition range_json :: "(int \<times> int) option \<Rightarrow> json" where
  "range_json x = (case x of None \<Rightarrow> JNull | Some (a, b) \<Rightarrow> JList [JInt a, JInt b])"

text \<open>\<open>str\<close> of a list of integers, and \<open>url or ""\<close>-style truth of an optional string.\<close>

definition repr_int_list :: "int list \<Rightarrow> string" where
  "repr_int_list xs = ''['' @ join_str '', '' (map show_int xs) @ '']''"

definition given :: "string option \<Rightarrow> bool" where
  "given x \<longleftrightarrow> (case x of None \<Rightarrow> False | Some s \<Rightarrow> s \<noteq> [])"

text \<open>Python's position of an index in a list of \<open>n\<close> elements.\<close>

definition py_position :: "nat \<Rightarrow> int \<Rightarrow> nat res" where
  "py_position n i =
     (if 0 \<le> i \<and> i < int n then Inr (nat i)
      else if i < 0 \<and> - int n \<le> i then Inr (nat (int n + i))
      else Inl IndexError)"

text \<open>A count stands for that many copies of a token; \<open>True\<close> is the count 1.\<close>

fun tokens_from_value :: "json \<Rightarrow> int \<Rightarrow> int list res" where
  "tokens_from_value (JInt n) t = Inr (replicate (nat n) t)"
| "tokens_from_value (JBool b) t = Inr (if b then [t] else [])"
| "tokens_from_value (JList xs) t = map_res int_of_json xs"
| "tokens_from_value JNull t = Inr []"
| "tokens_from_value (JFloat r) t = Inl TypeError"
| "tokens_from_value (JStr s) t = Inl TypeError"
| "tokens_from_value (JObj d) t = Inl TypeError"

text \<open>
  The processor replaces the row of logits by one that is minus infinity, \<open>None\<close>, everywhere but at
  the next recorded token.
\<close>

definition force_next_token :: "int list \<Rightarrow> int list \<Rightarrow> 'a list \<Rightarrow> pyfloat option list res" where
  "force_next_token output_tokens past logits =
     bind_res (py_position (length output_tokens) (min (int (length past)) (int (length output_tokens) - 1))) (\<lambda>i.
     bind_res (py_position (length logits) (output_tokens ! i)) (\<lambda>k.
       Inr ((replicate (length logits) None)[k := Some 0])))"

section \<open>Migrated caches\<close>

definition migrated_args :: "int \<Rightarrow> int \<Rightarrow> (string, json) dict" where
  "migrated_args query_id invocation_id =
     [(''query_id'', JInt query_id), (''invocation_id'', JInt invocation_id), (''keep_cache_in_gpu'', JBool True), (''free_cache'', JBool False)]"

text \<open>The sequence of a migrated cache; it is in no queue of the scheduler.\<close>

definition migrated_seq :: "int list \<Rightarrow> int \<Rightarrow> engine \<Rightarrow> seq" where
  "migrated_seq token_ids sid e = seq_new sid token_ids (bm_block_size (eg_manager e)) 0 0"

definition stop_seqs :: "seq_group \<Rightarrow> seq_group" where
  "stop_seqs g = g\<lparr>sg_seqs := map (\<lambda>q. q\<lparr>sq_status := FINISHED_STOPPED\<rparr>) (sg_seqs g)\<rparr>"

definition register_migrated_gpu_cache :: "env \<Rightarrow> int list \<Rightarrow> int \<Rightarrow> int \<Rightarrow> string \<Rightarrow> (engine, bool) act" where
  "register_migrated_gpu_cache en token_ids query_id invocation_id request_id =
     bind_act next_seq_id (\<lambda>sid.
     bind_act (gets (migrated_seq token_ids sid)) (\<lambda>q.
     bind_act (on_scheduler (read_clock en)) (\<lambda>now.
     bind_act (lift_res (seq_group_new request_id [q] now (Some (migrated_args query_id invocation_id)) None 0)) (\<lambda>g.
     bind_act (gets (\<lambda>e. can_allocate (en_digest en) (en_hash_pair en) g 0 (eg_manager e))) (\<lambda>r.
     bind_act (lift_res r) (\<lambda>status.
       if status \<noteq> OK then ret False
       else
         bind_act (on_scheduler (on_bm (bm_allocate (en_digest en) (en_hash_pair en) g))) (\<lambda>_.
         bind_act (on_scheduler (on_bm (retain_blocks (en_digest en) (stop_seqs g)))) (\<lambda>_.
           ret True))))))))"

record migrate_request =
  mq_query_id :: int
  mq_invocation_id :: int
  mq_request_id :: string
  mq_input_tokens :: "int list"
  mq_output_tokens :: "int list"
  mq_keep_cache_in_gpu :: bool

text \<open>An operation of the engine, which the service has.\<close>

definition on_engine :: "engine \<Rightarrow> (engine, 'a) act \<Rightarrow> (service, 'a) act" where
  "on_engine e f s = (case f e of (r, e') \<Rightarrow> (r, s\<lparr>sv_engine := Some e'\<rparr>))"

definition failure :: "string \<Rightarrow> json" where
  "failure msg = JObj [(''success'', JBool False), (''error'', JStr msg)]"

text \<open>The clock is read once for the blocks of a cache that goes to the CPU.\<close>

definition register_on_cpu :: "env \<Rightarrow> int list \<Rightarrow> (engine, bool) act" where
  "register_on_cpu en token_ids =
     bind_act (on_scheduler (read_clock en)) (\<lambda>now.
       on_scheduler (on_bm (register_migrated_cpu_cache (en_digest en) now token_ids)))"

definition migrate_cache :: "env \<Rightarrow> migrate_request \<Rightarrow> (service, json) act" where
  "migrate_cache en r s =
     (case sv_engine s of
        None \<Rightarrow> (Inr (failure ''engine not initialized''), s)
      | Some e \<Rightarrow>
          (let token_ids = mq_input_tokens r @ mq_output_tokens r
           in if token_ids = [] then (Inr (failure ''empty token_ids''), s)
              else
                on_engine e
                  (bind_act (if mq_keep_cache_in_gpu r
                             then register_migrated_gpu_cache en token_ids (mq_query_id r) (mq_invocation_id r) (mq_request_id r)
                             else ret False) (\<lambda>on_gpu.
                     if on_gpu then ret (JObj [(''success'', JBool True), (''device'', JStr ''gpu'')])
                     else
                       bind_act (register_on_cpu en token_ids) (\<lambda>registered.
                         ret (JObj [(''success'', JBool registered), (''device'', if registered then JStr ''cpu'' else JNull)])))) s))"

section \<open>The state of the cache\<close>

definition entry_json :: "int \<times> int \<Rightarrow> json" where
  "entry_json k = (case k of (qid, ivid) \<Rightarrow> JObj [(''query_id'', JInt qid), (''invocation_id'', JInt ivid)])"

definition cache_state :: "service \<Rightarrow> json res" where
  "cache_state s =
     (case sv_engine s of
        None \<Rightarrow> Inr (JObj [(''error'', JStr ''engine not initialized'')])
      | Some e \<Rightarrow>
          bind_res (bm_get_computed_cached_block_hashes GPU (eg_manager e)) (\<lambda>gpu.
          bind_res (bm_get_computed_cached_block_hashes CPU (eg_manager e)) (\<lambda>cpu.
            Inr (JObj [(''block_size'', JInt (int (bm_block_size (eg_manager e)))), (''none_hash'', JInt NONE_HASH),
                (''active_requests'', JInt (int (get_num_unfinished_seq_groups (eg_scheduler e)))),
                (''gpu_entries'', JList (map entry_json (get_gpu_cached_entry_keys (eg_manager e)))),
                (''hash_blocks'', JObj [(''gpu'', JList (map JInt gpu)), (''cpu'', JList (map JInt cpu))])]))))"

definition health :: json where
  "health = JObj [(''status'', JStr ''ok'')]"

section \<open>Generation\<close>

record generate_request =
  gq_query_id :: "int option"
  gq_invocation_id :: "int option"
  gq_agent_id :: "string option"
  gq_input_tokens :: json
  gq_output_tokens :: json
  gq_cached_tokens :: int
  gq_keep_cache_in_gpu :: bool
  gq_free_cache :: bool
  gq_repeat :: int
  gq_num_input_tokens :: "int option"
  gq_num_output_tokens :: "int option"

text \<open>The sampling parameters that depend on the request; \<open>sp_forced\<close> is the processor's recorded output.\<close>

record sampling =
  sp_max_tokens :: nat
  sp_forced :: "int list option"
  sp_extra_args :: "(string, json) dict"

record generation_output =
  go_finished :: bool
  go_outputs :: "int list list"

text \<open>The engine's generation: its outputs, or the text of the exception that ended it.\<close>

type_synonym generator = "int list \<Rightarrow> sampling \<Rightarrow> string \<Rightarrow> engine \<Rightarrow> (string + generation_output list) \<times> engine"

definition generate_args :: "generate_request \<Rightarrow> int list \<Rightarrow> int list \<Rightarrow> int \<Rightarrow> service \<Rightarrow> (string, json) dict" where
  "generate_args r input_tokens output_tokens cached_tokens s =
     [(''query_id'', opt_int_json (gq_query_id r)), (''invocation_id'', opt_int_json (gq_invocation_id r)),
      (''input_tokens'', JList (map JInt input_tokens)), (''output_tokens'', JList (map JInt output_tokens)),
      (''cached_tokens'', JInt cached_tokens), (''requested_input_tokens'', JInt (int (length input_tokens))),
      (''keep_cache_in_gpu'', JBool (gq_keep_cache_in_gpu r)), (''free_cache'', JBool (gq_free_cache r)),
      (''context_range'', range_json (sv_context_range s)),
      (''eos_token_id'', JInt (case sv_eos_token_id s of None \<Rightarrow> -1 | Some t \<Rightarrow> t))]"

definition generate_sampling :: "generate_request \<Rightarrow> int list \<Rightarrow> int list \<Rightarrow> int \<Rightarrow> service \<Rightarrow> sampling" where
  "generate_sampling r input_tokens output_tokens cached_tokens s =
     \<lparr>sp_max_tokens = max (length output_tokens) 1, sp_forced = (if output_tokens = [] then None else Some output_tokens),
      sp_extra_args = generate_args r input_tokens output_tokens cached_tokens s\<rparr>"

text \<open>\<open>input_tokens or [eos_token_id or 0]\<close>\<close>

definition generate_prompt :: "int list \<Rightarrow> service \<Rightarrow> int list" where
  "generate_prompt input_tokens s =
     (if input_tokens = [] then [case sv_eos_token_id s of None \<Rightarrow> 0 | Some t \<Rightarrow> t] else input_tokens)"

definition generate_request_id :: "generate_request \<Rightarrow> string" where
  "generate_request_id r =
     ''q'' @ repr_opt_int (gq_query_id r) @ ''_i'' @ repr_opt_int (gq_invocation_id r) @ ''_r'' @ show_int (gq_repeat r)"

text \<open>The tokens of the last finished output that has any.\<close>

definition generated_tokens :: "generation_output list \<Rightarrow> int list" where
  "generated_tokens outs = foldl (\<lambda>acc out. if go_finished out \<and> go_outputs out \<noteq> [] then hd (go_outputs out) else acc) [] outs"

definition token_match :: "int list \<Rightarrow> int list \<Rightarrow> bool" where
  "token_match output_tokens generated \<longleftrightarrow> output_tokens = [] \<or> take (length output_tokens) generated = output_tokens"

definition match_error :: "int list \<Rightarrow> int list \<Rightarrow> json" where
  "match_error output_tokens generated =
     (if token_match output_tokens generated then JNull
      else JStr (''forced decode mismatch: expected='' @ repr_int_list output_tokens @ '' got='' @ repr_int_list generated))"

text \<open>\<open>n or len(tokens)\<close>\<close>

definition count_or_length :: "int option \<Rightarrow> int list \<Rightarrow> int" where
  "count_or_length n toks = (case n of None \<Rightarrow> int (length toks) | Some k \<Rightarrow> if k = 0 then int (length toks) else k)"

definition generate_failure :: "generate_request \<Rightarrow> int list \<Rightarrow> int list \<Rightarrow> int \<Rightarrow> string \<Rightarrow> json" where
  "generate_failure r input_tokens output_tokens cached_tokens msg =
     JObj [(''success'', JBool False), (''query_id'', opt_int_json (gq_query_id r)), (''invocation_id'', opt_int_json (gq_invocation_id r)),
       (''generated_ids'', JList []), (''input_tokens'', JInt (int (length input_tokens))),
       (''model_input_tokens'', JInt (int (length input_tokens))), (''output_tokens'', JInt (int (length output_tokens))),
       (''cached_tokens'', JInt cached_tokens), (''keep_cache_in_gpu'', JBool (gq_keep_cache_in_gpu r)),
       (''free_cache'', JBool (gq_free_cache r)), (''error'', JStr msg)]"

definition generate_reply :: "generate_request \<Rightarrow> int list \<Rightarrow> int list \<Rightarrow> int \<Rightarrow> int list \<Rightarrow> json" where
  "generate_reply r input_tokens output_tokens cached_tokens generated =
     JObj [(''success'', JBool (token_match output_tokens generated)), (''query_id'', opt_int_json (gq_query_id r)),
       (''invocation_id'', opt_int_json (gq_invocation_id r)), (''generated_ids'', JList (map JInt generated)),
       (''input_tokens'', JInt (int (length input_tokens))), (''model_input_tokens'', JInt (int (length input_tokens))),
       (''output_tokens'', JInt (int (length output_tokens))), (''cached_tokens'', JInt cached_tokens),
       (''keep_cache_in_gpu'', JBool (gq_keep_cache_in_gpu r)), (''free_cache'', JBool (gq_free_cache r)),
       (''token_match'', JBool (token_match output_tokens generated)), (''error'', match_error output_tokens generated)]"

text \<open>What \<open>/node_complete\<close> of the controller is sent.\<close>

definition completion_payload :: "generate_request \<Rightarrow> int list \<Rightarrow> int list \<Rightarrow> int list \<Rightarrow> service \<Rightarrow> json" where
  "completion_payload r input_tokens output_tokens generated s =
     JObj [(''instance_id'', opt_str_json (sv_instance_id s)), (''query_id'', opt_int_json (gq_query_id r)),
       (''invocation_id'', opt_int_json (gq_invocation_id r)), (''repeat'', JInt (gq_repeat r)),
       (''agent_id'', opt_str_json (gq_agent_id r)), (''keep_cache_in_gpu'', JBool (gq_keep_cache_in_gpu r)),
       (''free_cache'', JBool (gq_free_cache r)),
       (''num_input_tokens'', JInt (count_or_length (gq_num_input_tokens r) input_tokens)),
       (''num_output_tokens'', JInt (count_or_length (gq_num_output_tokens r) output_tokens)),
       (''input_token_ids'', JList (map JInt input_tokens)), (''output_token_ids'', JList (map JInt generated)),
       (''success'', JBool (token_match output_tokens generated)), (''error'', match_error output_tokens generated)]"

definition report :: "generate_request \<Rightarrow> int list \<Rightarrow> int list \<Rightarrow> int list \<Rightarrow> service \<Rightarrow> (string \<times> json) option" where
  "report r input_tokens output_tokens generated s =
     (if given (sv_controller_url s)
      then Some (the (sv_controller_url s) @ ''/node_complete'', completion_payload r input_tokens output_tokens generated s)
      else None)"

text \<open>
  The handler returns the reply and the message to the controller, if there is one; what becomes of
  the message does not matter to the instance. The service that the message is built from is the one
  after the generation, whose other globals are the same.
\<close>

definition generate :: "generator \<Rightarrow> generate_request \<Rightarrow> (service, json \<times> (string \<times> json) option) act" where
  "generate gen r s =
     (case sv_engine s of
        None \<Rightarrow> (Inr (failure ''engine not initialized'', None), s)
      | Some e \<Rightarrow>
          (case bind_res (tokens_from_value (gq_input_tokens r) 1) (\<lambda>ins.
                bind_res (tokens_from_value (gq_output_tokens r) 2) (\<lambda>outs. Inr (ins, outs))) of
             Inl x \<Rightarrow> (Inl x, s)
           | Inr (ins, outs) \<Rightarrow>
               if gq_cached_tokens r < 0 \<or> int (length ins) < gq_cached_tokens r
               then (Inr (failure ''cached_tokens out of range'', None), s)
               else
                 (let cached = min (gq_cached_tokens r) (max (int (length ins) - 1) 0)
                  in case gen (generate_prompt ins s) (generate_sampling r ins outs cached s) (generate_request_id r) e of
                       (res, e') \<Rightarrow>
                         (Inr (case res of
                                 Inl msg \<Rightarrow> (generate_failure r ins outs cached msg, None)
                               | Inr os \<Rightarrow> (generate_reply r ins outs cached (generated_tokens os), report r ins outs (generated_tokens os) s)),
                          s\<lparr>sv_engine := Some e'\<rparr>))))"

section \<open>Start\<close>

definition run_instance_server :: "engine \<Rightarrow> int option \<Rightarrow> string option \<Rightarrow> string option \<Rightarrow> (int \<times> int) option \<Rightarrow> service \<Rightarrow> service" where
  "run_instance_server e eos url iid rng s =
     s\<lparr>sv_engine := Some e, sv_eos_token_id := eos, sv_controller_url := url, sv_instance_id := iid, sv_context_range := rng\<rparr>"

text \<open>The arguments of the command line that the start of an instance uses.\<close>

record instance_args =
  ia_advertise_host :: string
  ia_port :: int
  ia_controller_url :: "string option"
  ia_instance_id :: "string option"
  ia_agent_id :: "string option"
  ia_context_lower :: int
  ia_context_upper :: int
  ia_num_gpus :: int

definition rstrip_slash :: "string \<Rightarrow> string" where
  "rstrip_slash s = rev (dropWhile (\<lambda>c. c = CHR ''/'') (rev s))"

text \<open>The message that registers the instance with the controller before the service starts.\<close>

definition registration :: "instance_args \<Rightarrow> (string \<times> json) option" where
  "registration a =
     (if given (ia_controller_url a) \<and> given (ia_instance_id a) \<and> given (ia_agent_id a)
      then Some (rstrip_slash (the (ia_controller_url a)) @ ''/register'',
        JObj [(''instance_id'', opt_str_json (ia_instance_id a)), (''agent_id'', opt_str_json (ia_agent_id a)),
          (''host'', JStr (ia_advertise_host a)), (''port'', JInt (ia_port a)),
          (''context_range'', JList [JInt (ia_context_lower a), JInt (ia_context_upper a)]), (''num_gpus'', JInt (ia_num_gpus a))])
      else None)"

definition start_service :: "instance_args \<Rightarrow> engine \<Rightarrow> service" where
  "start_service a e =
     run_instance_server e None (ia_controller_url a) (ia_instance_id a) (Some (ia_context_lower a, ia_context_upper a)) service_new"

end
