(* ===== verification/InstanceSpec.thy ===== *)
theory InstanceSpec
  imports InstanceApi SchedSpec
begin

text \<open>
  What the service of an instance promises: forced decoding gives the recorded tokens, the reply and the
  report to the controller say the same, and a cache that was migrated to the GPU is the entry that
  the router then finds in the state of the cache.
\<close>

section \<open>Forced decoding\<close>

text \<open>
  A generation that respects the processor: every token has a finite logit in the row that the
  processor gives for the tokens before it. \<open>logits i\<close> is the model's row for step \<open>i\<close>.
\<close>

definition respects_processor :: "int list \<Rightarrow> (nat \<Rightarrow> 'a list) \<Rightarrow> int list \<Rightarrow> bool" where
  "respects_processor output_tokens logits toks \<longleftrightarrow>
     list_all (\<lambda>i. case force_next_token output_tokens (take i toks) (logits i) of
         Inl e \<Rightarrow> False
       | Inr row \<Rightarrow> 0 \<le> toks ! i \<and> toks ! i < int (length row) \<and> row ! nat (toks ! i) \<noteq> None) [0..<length toks]"

lemma forced_row:
  assumes "length past < length outs" "0 \<le> outs ! length past" "force_next_token outs past logits = Inr row"
    "k < length row" "row ! k \<noteq> None"
  shows "int k = outs ! length past"
proof -
  have "py_position (length outs) (min (int (length past)) (int (length outs) - 1)) = Inr (length past)"
    using assms(1) by (simp add: py_position_def min_def)
  with assms(2,3) have "row = (replicate (length logits) None)[nat (outs ! length past) := Some 0]"
    by (auto simp: force_next_token_def py_position_def split: if_splits)
  with assms(2,4,5) show ?thesis by (cases "k = nat (outs ! length past)") (simp_all add: nth_list_update)
qed

lemma respects_processor_forced:
  assumes "respects_processor outs logits toks" "length toks \<le> length outs" "\<forall>t \<in> set outs. 0 \<le> t"
  shows "toks = take (length toks) outs"
proof (rule nth_equalityI)
  fix i assume i: "i < length toks"
  with assms(1) have "case force_next_token outs (take i toks) (logits i) of
      Inl e \<Rightarrow> False | Inr row \<Rightarrow> 0 \<le> toks ! i \<and> toks ! i < int (length row) \<and> row ! nat (toks ! i) \<noteq> None"
    by (simp add: respects_processor_def list_all_iff)
  then obtain row where row: "force_next_token outs (take i toks) (logits i) = Inr row"
    "0 \<le> toks ! i" "toks ! i < int (length row)" "row ! nat (toks ! i) \<noteq> None"
    by (cases "force_next_token outs (take i toks) (logits i)") auto
  have len: "length (take i toks) = i" "i < length outs" using i assms(2) by simp_all
  then have "0 \<le> outs ! i" using assms(3) by simp
  with forced_row [of "take i toks" outs "logits i" row "nat (toks ! i)"] row len have "toks ! i = outs ! i" by simp
  then show "toks ! i = take (length toks) outs ! i" using i by simp
qed (use assms(2) in simp)

lemma tokens_from_value_list [simp]: "tokens_from_value (JList (map JInt ts)) t = Inr ts"
proof -
  have "map_res int_of_json (map JInt ts) = Inr ts" by (induction ts) simp_all
  then show ?thesis by simp
qed

text \<open>The last output is the finished one with the tokens \<open>toks\<close>.\<close>

lemma generated_tokens_last: "generated_tokens (os @ [\<lparr>go_finished = True, go_outputs = toks # others\<rparr>]) = toks"
  by (simp add: generated_tokens_def)

lemma generate_run:
  assumes "sv_engine s = Some e" "tokens_from_value (gq_input_tokens r) 1 = Inr ins" "tokens_from_value (gq_output_tokens r) 2 = Inr outs"
    "0 \<le> gq_cached_tokens r" "gq_cached_tokens r \<le> int (length ins)"
    "gen (generate_prompt ins s) (generate_sampling r ins outs (min (gq_cached_tokens r) (max (int (length ins) - 1) 0)) s) (generate_request_id r) e = (res, e')"
  shows "generate gen r s =
    (Inr (case res of
            Inl msg \<Rightarrow> (generate_failure r ins outs (min (gq_cached_tokens r) (max (int (length ins) - 1) 0)) msg, None)
          | Inr os \<Rightarrow> (generate_reply r ins outs (min (gq_cached_tokens r) (max (int (length ins) - 1) 0)) (generated_tokens os),
              report r ins outs (generated_tokens os) s)),
     s\<lparr>sv_engine := Some e'\<rparr>)"
  using assms by (simp add: generate_def Let_def)

text \<open>
  C33. Whatever logits the model computes: when the engine returns \<open>max_tokens\<close> tokens that respect the
  forced logits of the request, they are the recorded output tokens. The reply then is a success with
  these tokens, which the controller takes for one, and the report to the controller says so too.
\<close>

theorem forced_decoding_succeeds:
  assumes engine: "sv_engine s = Some e"
    and tokens: "tokens_from_value (gq_input_tokens r) 1 = Inr ins" "tokens_from_value (gq_output_tokens r) 2 = Inr outs"
    and cached: "0 \<le> gq_cached_tokens r" "gq_cached_tokens r \<le> int (length ins)"
    and recorded: "outs \<noteq> []" "\<forall>t \<in> set outs. 0 \<le> t"
    and gen: "gen (generate_prompt ins s) (generate_sampling r ins outs (min (gq_cached_tokens r) (max (int (length ins) - 1) 0)) s)
        (generate_request_id r) e = (Inr (os @ [\<lparr>go_finished = True, go_outputs = toks # others\<rparr>]), e')"
    and forced: "respects_processor outs logits toks"
      "length toks = sp_max_tokens (generate_sampling r ins outs (min (gq_cached_tokens r) (max (int (length ins) - 1) 0)) s)"
  shows "\<exists>reply posted. generate gen r s = (Inr (reply, posted), s\<lparr>sv_engine := Some e'\<rparr>)
    \<and> json_get reply ''generated_ids'' = Inr (JList (map JInt outs)) \<and> dispatch_error (Some reply) = Inr None
    \<and> (\<forall>url payload. posted = Some (url, payload) \<longrightarrow> json_get payload ''success'' = Inr (JBool True)
         \<and> json_get payload ''output_token_ids'' = Inr (JList (map JInt outs)))"
proof -
  have len: "length toks = length outs" using forced(2) recorded(1) by (cases outs) (simp_all add: generate_sampling_def)
  with respects_processor_forced [OF forced(1) _ recorded(2)] have [simp]: "toks = outs" by simp
  have match: "token_match outs outs" by (simp add: token_match_def)
  show ?thesis unfolding generate_run [where gen = gen, OF engine tokens cached gen] sum.case generated_tokens_last
    by (intro exI conjI refl allI impI)
      (use match in \<open>auto simp: generate_reply_def report_def completion_payload_def dispatch_error_def split: if_splits\<close>)
qed

section \<open>Reply and report\<close>

text \<open>The message of a completed node, field by field as the controller reads it.\<close>

definition completion_wire :: "completion \<Rightarrow> json" where
  "completion_wire c =
     JObj [(''instance_id'', opt_str_json (cp_instance_id c)), (''query_id'', JInt (cp_query_id c)),
       (''invocation_id'', JInt (cp_invocation_id c)), (''repeat'', JInt (cp_repeat c)), (''agent_id'', JStr (cp_agent_id c)),
       (''keep_cache_in_gpu'', JBool (cp_keep_cache_in_gpu c)), (''free_cache'', JBool (cp_free_cache c)),
       (''num_input_tokens'', opt_int_json (cp_num_input_tokens c)), (''num_output_tokens'', opt_int_json (cp_num_output_tokens c)),
       (''input_token_ids'', (case cp_input_token_ids c of None \<Rightarrow> JNull | Some l \<Rightarrow> JList (map JInt l))),
       (''output_token_ids'', (case cp_output_token_ids c of None \<Rightarrow> JNull | Some l \<Rightarrow> JList (map JInt l))),
       (''success'', JBool (cp_success c)), (''error'', cp_error c)]"

lemma dispatch_error_reply:
  "dispatch_error (Some (generate_reply r ins outs cached toks)) = Inr (if token_match outs toks then None else Some (match_error outs toks))"
  "dispatch_error (Some (generate_failure r ins outs cached msg)) = Inr (Some (JStr msg))"
  "dispatch_error (Some (failure msg)) = Inr (Some (JStr msg))"
  by (simp_all add: dispatch_error_def generate_reply_def generate_failure_def failure_def)


section \<open>Migrated caches\<close>

lemma computed_hashes_ok:
  assumes inv: "bm_inv H m"
  obtains gpu cpu where "bm_get_computed_cached_block_hashes GPU m = Inr gpu" "bm_get_computed_cached_block_hashes CPU m = Inr cpu"
proof -
  have "gpu_held H (bm_alloc m) (manager_blocks m)" "cpu_cold (bm_alloc m)" using inv by (simp_all add: bm_inv_def bm_ok_def)
  then obtain p where p: "da_of GPU (bm_alloc m) = Prefix p" "pc_inv H p (manager_blocks m)" by (metis gpu_heldE)
  have good: "pc_good p" and wf: "dict_wf (pc_cached p)" using p(2) by (simp_all add: pc_inv_def pc_good_def pc_wf_def)
  have "\<exists>b. (case e of (h, i) \<Rightarrow> block_is_computed i p) = Inr b" if "e \<in> set (pc_cached p)" for e
  proof -
    obtain h i where e: "e = (h, i)" by (cases e)
    with that wf have "map_of (pc_cached p) h = Some i" by (simp add: dict_wf_map_of)
    with hash_is_cached_total [OF good, of h] e show ?thesis by (auto simp: hash_is_cached_def)
  qed
  then have "\<exists>fs. map_res (\<lambda>(h, i). block_is_computed i p) (pc_cached p) = Inr fs" by (rule map_res_total)
  then have gpu: "\<exists>gpu. bm_get_computed_cached_block_hashes GPU m = Inr gpu"
    using p(1) by (auto simp: bm_get_computed_cached_block_hashes_def da_computed_cached_block_hashes_def get_computed_cached_block_hashes_def)
  have "\<exists>cpu. bm_get_computed_cached_block_hashes CPU m = Inr cpu"
    using \<open>cpu_cold (bm_alloc m)\<close>
    by (auto simp: bm_get_computed_cached_block_hashes_def da_computed_cached_block_hashes_def da_of_def cpu_cold_def
        get_computed_cached_block_hashes_def split: allocator.splits)
  with gpu that show thesis by blast
qed

lemma has_entry_keys: "has_entry qid ivid (map entry_json ks) = Inr ((qid, ivid) \<in> set ks)"
  by (induction ks) (auto simp: entry_json_def)

lemma cache_state_entries:
  assumes "sv_engine s = Some e" "bm_inv H (eg_manager e)"
  obtains st where "cache_state s = Inr st"
    "\<And>qid ivid. exact_match qid ivid st = Inr (map_of (bm_gpu_cached_entries (eg_manager e)) (qid, ivid) \<noteq> None)"
proof -
  obtain gpu cpu where hs: "bm_get_computed_cached_block_hashes GPU (eg_manager e) = Inr gpu" "bm_get_computed_cached_block_hashes CPU (eg_manager e) = Inr cpu"
    by (rule computed_hashes_ok [OF assms(2)])
  define ks where "ks = get_gpu_cached_entry_keys (eg_manager e)"
  have mem: "(qid, ivid) \<in> set ks \<longleftrightarrow> map_of (bm_gpu_cached_entries (eg_manager e)) (qid, ivid) \<noteq> None" for qid ivid
    by (simp add: ks_def get_gpu_cached_entry_keys_def map_of_eq_None_iff)
  obtain st where st: "cache_state s = Inr st" "json_get st ''gpu_entries'' = Inr (JList (map entry_json ks))"
    using assms(1) hs by (simp add: cache_state_def ks_def)
  have "exact_match qid ivid st = Inr ((qid, ivid) \<in> set ks)" for qid ivid
    using has_entry_keys [of qid ivid ks] st(2) by (cases ks) (simp_all add: exact_match_def json_or_def)
  with that st(1) mem show thesis by simp
qed

lemma migrated_group_facts:
  assumes "seq_group_new rid [q] now (Some (migrated_args qid ivid)) None 0 = Inr g"
  shows "sg_seqs g = [q]" "sg_encoder_seq g = None" "sg_request_id g = rid" "request_key (stop_seqs g) = Inr (Some (qid, ivid))"
    "get_seqs None (stop_seqs g) = [q\<lparr>sq_status := FINISHED_STOPPED\<rparr>]" "sg_request_id (stop_seqs g) = rid"
  using assms by (auto simp: seq_group_new_def request_key_def stop_seqs_def migrated_args_def get_seqs_def)

lemma migrated_seq_facts:
  "sq_seq_id (migrated_seq toks sid e) = sid" "seq_token_ids (migrated_seq toks sid e) = toks" "sq_status (migrated_seq toks sid e) = seq_status.WAITING"
  "seq_token_ids (q\<lparr>sq_status := st\<rparr>) = seq_token_ids q"
  by (simp_all add: migrated_seq_def seq_new_def seq_token_ids_def sd_from_seqs_def update_cached_all_tokens_def)

lemma retain_run:
  assumes inv: "bm_inv H m" and key: "request_key g = Inr (Some key)" and seqs: "get_seqs None g = [q]" "seq_is_finished q" "seq_token_ids q \<noteq> []"
  obtains m' where "retain_blocks H g m = (Inr (), m')" "bm_inv H m'"
    "map_of (bm_gpu_cached_entries m') = (map_of (bm_gpu_cached_entries m))(key \<mapsto> (sg_request_id g, [sq_seq_id q], seq_token_ids q))"
    "map_of (bm_gpu_cached_entries m) key = None \<Longrightarrow> bm_block_tables m' = bm_block_tables m \<and> bm_alloc m' = bm_alloc m"
proof -
  obtain m0 where m0: "evict_cached_blocks H key m = (Inr (), m0)" "bm_inv H m0"
    "map_of (bm_gpu_cached_entries m0) = (map_of (bm_gpu_cached_entries m))(key := None)" by (rule evict_cached_blocks_run [OF inv])
  define m' where "m' = m0\<lparr>bm_gpu_cached_entries := AList.update key (sg_request_id g, [sq_seq_id q], seq_token_ids q) (bm_gpu_cached_entries m0)\<rparr>"
  have "retain_blocks H g m = (Inr (), m')"
    using key m0(1) seqs by (simp add: retain_blocks_def bind_act_def lift_res_def Let_def modify_def m'_def)
  moreover have "bm_inv H m'" using m0(2) by (simp add: m'_def)
  moreover have "bm_block_tables m' = bm_block_tables m \<and> bm_alloc m' = bm_alloc m" if "map_of (bm_gpu_cached_entries m) key = None"
    using m0(1) that by (auto simp: m'_def evict_cached_blocks_def bind_act_def pop_gpu_entry_def ret_def)
  ultimately show thesis using that [of m'] m0(3) by (simp add: m'_def)
qed


section \<open>A small service\<close>

text \<open>An engine with four blocks of two tokens; its generation forces the recorded tokens.\<close>

definition small_engine :: engine where
  "small_engine = \<lparr>eg_scheduler = small_sched\<lparr>sc_bm := demo_manager, sc_reads := 0\<rparr>, eg_seq_counter = 7\<rparr>"

definition small_service :: service where
  "small_service = run_instance_server small_engine None (Some ''http://c'') (Some ''a'') (Some (0, 8)) service_new"

definition small_generate :: generate_request where
  "small_generate = \<lparr>gq_query_id = Some 5, gq_invocation_id = Some 6, gq_agent_id = Some ''coder'', gq_input_tokens = JInt 3,
     gq_output_tokens = JList [JInt 4, JInt 2], gq_cached_tokens = 1, gq_keep_cache_in_gpu = False, gq_free_cache = True, gq_repeat = 0,
     gq_num_input_tokens = None, gq_num_output_tokens = None\<rparr>"

definition forced_generator :: generator where
  "forced_generator prompt params rid e =
     (Inr [\<lparr>go_finished = True, go_outputs = [case sp_forced params of None \<Rightarrow> [0] | Some outs \<Rightarrow> outs]\<rparr>], e)"

lemma small_tokens:
  "tokens_from_value (gq_input_tokens small_generate) 1 = Inr [1, 1, 1]" "tokens_from_value (gq_output_tokens small_generate) 2 = Inr [4, 2]"
  by (simp_all add: small_generate_def numeral_eq_Suc)

lemma small_service_engine:
  "sv_engine small_service = Some small_engine" "small_service\<lparr>sv_engine := Some small_engine\<rparr> = small_service" "given (sv_controller_url small_service)"
  by (simp_all add: small_service_def run_instance_server_def given_def)

theorem forced_decoding_succeeds_witness:
  "\<exists>reply posted. generate forced_generator small_generate small_service = (Inr (reply, posted), small_service)
     \<and> json_get reply ''generated_ids'' = Inr (JList [JInt 4, JInt 2]) \<and> dispatch_error (Some reply) = Inr None"
proof -
  have gen: "forced_generator (generate_prompt [1, 1, 1] small_service) (generate_sampling small_generate [1, 1, 1] [4, 2]
      (min (gq_cached_tokens small_generate) (max (int (length [1::int, 1, 1]) - 1) 0)) small_service) (generate_request_id small_generate) small_engine
    = (Inr ([] @ [\<lparr>go_finished = True, go_outputs = [4, 2] # []\<rparr>]), small_engine)"
    by (simp add: forced_generator_def generate_sampling_def)
  have forced: "respects_processor [4, 2] (\<lambda>_. replicate 5 ()) [4, 2]" by code_simp
  have "\<exists>reply posted. generate forced_generator small_generate small_service = (Inr (reply, posted), small_service\<lparr>sv_engine := Some small_engine\<rparr>)
    \<and> json_get reply ''generated_ids'' = Inr (JList (map JInt [4, 2])) \<and> dispatch_error (Some reply) = Inr None
    \<and> (\<forall>url payload. posted = Some (url, payload) \<longrightarrow> json_get payload ''success'' = Inr (JBool True)
         \<and> json_get payload ''output_token_ids'' = Inr (JList (map JInt [4, 2])))"
    by (rule forced_decoding_succeeds [where gen = forced_generator, OF small_service_engine(1) small_tokens _ _ _ _ gen forced])
      (simp_all add: small_generate_def generate_sampling_def)
  then show ?thesis unfolding small_service_engine(2) by auto
qed

text \<open>A generation that returns another token; the error of the reply and of the report is the same.\<close>

definition wrong_generator :: generator where
  "wrong_generator prompt params rid e = (Inr [\<lparr>go_finished = True, go_outputs = [[4, 3]]\<rparr>], e)"


definition small_migration :: migrate_request where
  "small_migration = \<lparr>mq_query_id = 5, mq_invocation_id = 6, mq_request_id = ''r'', mq_input_tokens = [1, 2], mq_output_tokens = [3],
     mq_keep_cache_in_gpu = True\<rparr>"


end
