(* ===== verification/OutputProc.thy ===== *)
theory OutputProc
  imports Scheduler
begin

text \<open>
  What the engine does with a sampled token: \<open>src/vllm/vllm/engine/output_processor/single_step.py\<close> appends
  it to its sequence, and \<open>stop_checker.py\<close> decides whether the sequence is finished. The tokenizer that
  turns tokens into text is the argument \<open>decode\<close>.
\<close>

section \<open>Parameters\<close>

text \<open>The fields of the sampling parameters (\<open>sampling_params.py\<close>) that decide when a sequence stops.\<close>

record stop_params =
  pa_min_tokens :: int
  pa_max_tokens :: "int option"
  pa_ignore_eos :: bool
  pa_stop_token_ids :: "int list"
  pa_stop :: "string list"
  pa_include_stop :: bool
  pa_detokenize :: bool

definition verify_stop_args :: "stop_params \<Rightarrow> unit res" where
  "verify_stop_args p =
     (if (case pa_max_tokens p of None \<Rightarrow> False | Some k \<Rightarrow> k < 1) then Inl ValueError
      else if pa_min_tokens p < 0 then Inl ValueError
      else if (case pa_max_tokens p of None \<Rightarrow> False | Some k \<Rightarrow> k < pa_min_tokens p) then Inl ValueError
      else if list_ex (\<lambda>s. s = []) (pa_stop p) then Inl ValueError
      else if pa_stop p \<noteq> [] \<and> \<not> pa_detokenize p then Inl ValueError
      else Inr ())"

text \<open>How many characters are held back from the user until a sequence is finished.\<close>

definition output_text_buffer_length :: "stop_params \<Rightarrow> nat" where
  "output_text_buffer_length p =
     (if pa_stop p \<noteq> [] \<and> \<not> pa_include_stop p then foldr max (map length (pa_stop p)) 0 - 1 else 0)"

section \<open>Stop strings\<close>

text \<open>\<open>text.find(sub, start)\<close>; a negative start counts from the end.\<close>

definition py_find :: "string \<Rightarrow> string \<Rightarrow> int \<Rightarrow> nat option" where
  "py_find sub txt start =
     (let i = (if start < 0 then nat (int (length txt) + start) else nat start)
      in List.find (\<lambda>j. take (length sub) (drop j txt) = sub) [i..<length txt + 1 - length sub])"

text \<open>A match with the length to which the text is cut, or None for the whole text.\<close>

fun search_stop_strings :: "string \<Rightarrow> nat \<Rightarrow> bool \<Rightarrow> string list \<Rightarrow> (string \<times> nat option) option" where
  "search_stop_strings txt n include_in_output [] = None"
| "search_stop_strings txt n include_in_output (s # ss) =
     (case py_find s txt (1 - int n - int (length s)) of
        None \<Rightarrow> search_stop_strings txt n include_in_output ss
      | Some i \<Rightarrow>
          if include_in_output
          then Some (s, if length txt \<le> i + length s then None else Some (i + length s))
          else Some (s, Some i))"

definition check_stop_strings :: "string \<Rightarrow> nat \<Rightarrow> string list \<Rightarrow> bool \<Rightarrow> (string \<times> nat option) option" where
  "check_stop_strings txt new_char_count stop include_in_output =
     (if new_char_count = 0 \<or> stop = [] then None else search_stop_strings txt new_char_count include_in_output stop)"

section \<open>Stopping\<close>

datatype stop_reason = StopToken int | StopString string

text \<open>A sequence with two attributes that only the output processing uses.\<close>

record checked_seq =
  cs_seq :: seq
  cs_eos_token_id :: "int option"
  cs_stop_reason :: "stop_reason option"

type_synonym lora = "(int \<times> int option) option"

definition get_max_model_len :: "int \<Rightarrow> lora \<Rightarrow> int" where
  "get_max_model_len max_model_len lora =
     (case lora of Some (_, Some k) \<Rightarrow> if k \<noteq> 0 then k else max_model_len | _ \<Rightarrow> max_model_len)"

definition upd_cs :: "(seq \<Rightarrow> seq) \<Rightarrow> checked_seq \<Rightarrow> checked_seq" where
  "upd_cs f cs = cs\<lparr>cs_seq := f (cs_seq cs)\<rparr>"

definition cut_text :: "nat \<Rightarrow> seq \<Rightarrow> seq" where
  "cut_text k q = q\<lparr>sq_output_text := take k (sq_output_text q)\<rparr>"

text \<open>The text of the last token is removed unless it is to be part of the output.\<close>

definition drop_new_text :: "nat \<Rightarrow> stop_params \<Rightarrow> seq \<Rightarrow> seq" where
  "drop_new_text n p q = (if n \<noteq> 0 \<and> \<not> pa_include_stop p then cut_text (length (sq_output_text q) - n) q else q)"

definition set_status :: "seq_status \<Rightarrow> seq \<Rightarrow> seq" where
  "set_status st q = q\<lparr>sq_status := st\<rparr>"

definition is_eos :: "stop_params \<Rightarrow> checked_seq \<Rightarrow> bool res" where
  "is_eos p cs =
     (if pa_ignore_eos p then Inr False
      else bind_res (sd_get_last_token_id (sq_data (cs_seq cs))) (\<lambda>t. Inr (cs_eos_token_id cs = Some t)))"

definition stop_at_length :: "int \<Rightarrow> stop_params \<Rightarrow> lora \<Rightarrow> checked_seq \<Rightarrow> checked_seq" where
  "stop_at_length max_model_len p lora cs =
     (if get_max_model_len max_model_len lora \<le> int (seq_get_len (cs_seq cs)) then upd_cs (set_status FINISHED_LENGTH_CAPPED) cs
      else if pa_max_tokens p = Some (int (sd_get_output_len (sq_data (cs_seq cs)))) then upd_cs (set_status FINISHED_LENGTH_CAPPED) cs
      else cs)"

definition stop_at_string :: "int \<Rightarrow> nat \<Rightarrow> stop_params \<Rightarrow> lora \<Rightarrow> checked_seq \<Rightarrow> checked_seq" where
  "stop_at_string max_model_len n p lora cs =
     (case check_stop_strings (sq_output_text (cs_seq cs)) n (pa_stop p) (pa_include_stop p) of
        Some (s, bound) \<Rightarrow>
          (upd_cs (set_status FINISHED_STOPPED \<circ> (case bound of None \<Rightarrow> id | Some k \<Rightarrow> cut_text k)) cs)\<lparr>cs_stop_reason := Some (StopString s)\<rparr>
      | None \<Rightarrow> stop_at_length max_model_len p lora cs)"

definition maybe_stop_sequence :: "int \<Rightarrow> nat \<Rightarrow> stop_params \<Rightarrow> lora \<Rightarrow> (checked_seq, unit) act" where
  "maybe_stop_sequence max_model_len n p lora cs =
     (if int (sd_get_output_len (sq_data (cs_seq cs))) < pa_min_tokens p then (Inr (), cs)
      else
        (case is_eos p cs of
           Inl e \<Rightarrow> (Inl e, cs)
         | Inr eos \<Rightarrow>
             if eos then (Inr (), upd_cs (set_status FINISHED_STOPPED \<circ> drop_new_text n p) cs)
             else
               (case sd_get_last_token_id (sq_data (cs_seq cs)) of
                  Inl e \<Rightarrow> (Inl e, cs)
                | Inr t \<Rightarrow>
                    if t \<in> set (pa_stop_token_ids p)
                    then (Inr (), (upd_cs (set_status FINISHED_STOPPED \<circ> drop_new_text n p) cs)\<lparr>cs_stop_reason := Some (StopToken t)\<rparr>)
                    else (Inr (), stop_at_string max_model_len n p lora cs))))"

section \<open>One step\<close>

text \<open>
  \<open>decode_sequence_inplace\<close> appends the text of the last token and returns its length; \<open>decode\<close> is None
  for an engine without a tokenizer.
\<close>

definition decode_in_place :: "(seq \<Rightarrow> string) option \<Rightarrow> stop_params \<Rightarrow> (checked_seq, nat) act" where
  "decode_in_place decode p cs =
     (case decode of
        None \<Rightarrow> (Inr 0, cs)
      | Some f \<Rightarrow>
          if \<not> pa_detokenize p then (Inr 0, cs)
          else (Inr (length (f (cs_seq cs))), upd_cs (\<lambda>q. q\<lparr>sq_output_text := sq_output_text q @ f q\<rparr>) cs))"

definition process_sample ::
  "int \<Rightarrow> (seq \<Rightarrow> string) option \<Rightarrow> stop_params \<Rightarrow> lora \<Rightarrow> bool \<Rightarrow> int \<times> (int, pyfloat) dict \<Rightarrow> (checked_seq, unit) act" where
  "process_sample max_model_len decode p lora is_async sample =
     (case sample of (t, logprobs) \<Rightarrow>
        bind_act (if is_async then ret () else zoom cs_seq (\<lambda>q cs. cs\<lparr>cs_seq := q\<rparr>) (seq_append_token_id t logprobs)) (\<lambda>_.
        bind_act (decode_in_place decode p) (\<lambda>n. maybe_stop_sequence max_model_len n p lora)))"

text \<open>The outputs of a group; only the first sequence of the group gets a token.\<close>

definition process_outputs ::
  "env \<Rightarrow> (seq \<Rightarrow> string) option \<Rightarrow> stop_params \<Rightarrow> int option \<Rightarrow> gref \<Rightarrow> (int \<times> (int, pyfloat) dict) list list \<Rightarrow> bool
    \<Rightarrow> (sched_state, stop_reason option) act" where
  "process_outputs en decode p eos r outputs is_async s =
     (case outputs of
        [samples] \<Rightarrow>
          (case samples of
             [] \<Rightarrow> (Inl IndexError, s)
           | sample # _ \<Rightarrow>
               (case process_sample (cf_max_model_len (en_config en)) decode p (gr_lora (sc_groups s ! r)) is_async sample
                       \<lparr>cs_seq = first_seq (group_at s r), cs_eos_token_id = eos, cs_stop_reason = None\<rparr> of
                  (res, cs) \<Rightarrow>
                    (let s1 = upd_group r (\<lambda>g. g\<lparr>sg_seqs := cs_seq cs # tl (sg_seqs g)\<rparr>) s
                     in case res of
                          Inl e \<Rightarrow> (Inl e, s1)
                        | Inr _ \<Rightarrow>
                            bind_act (if seq_is_finished (cs_seq cs) then free_seq en (cs_seq cs) else ret ()) (\<lambda>_. ret (cs_stop_reason cs)) s1)))
      | _ \<Rightarrow> (Inl AssertionError, s))"

text \<open>The engine's steps for a sequence that gets the tokens \<open>toks\<close> one after the other, until it is finished.\<close>

fun process_samples ::
  "int \<Rightarrow> (seq \<Rightarrow> string) option \<Rightarrow> stop_params \<Rightarrow> lora \<Rightarrow> (int \<times> (int, pyfloat) dict) list \<Rightarrow> (checked_seq, unit) act" where
  "process_samples max_model_len decode p lora [] = ret ()"
| "process_samples max_model_len decode p lora (x # xs) =
     bind_act (process_sample max_model_len decode p lora False x) (\<lambda>_.
     bind_act (gets (\<lambda>cs. seq_is_finished (cs_seq cs))) (\<lambda>fin.
       if fin then ret () else process_samples max_model_len decode p lora xs))"

end
