(* ===== verification/OutputSpec.thy ===== *)
theory OutputSpec
  imports OutputProc
begin

text \<open>
  When generation stops: the incremental search for stop strings finds what a search of the whole
  text would find, text that was already shown to the user is never taken back, and a sequence
  ends at the latest with its last allowed token.
\<close>

section \<open>Stop strings\<close>

text \<open>\<open>s\<close> occurs in \<open>txt\<close> at position \<open>i\<close>.\<close>

definition occurs :: "string \<Rightarrow> string \<Rightarrow> nat \<Rightarrow> bool" where
  "occurs s txt i \<longleftrightarrow> i + length s \<le> length txt \<and> take (length s) (drop i txt) = s"

lemma find_upt_None: "List.find P [a..<b] = None \<longleftrightarrow> (\<forall>j. a \<le> j \<and> j < b \<longrightarrow> \<not> P j)"
  by (auto simp: find_None_iff)

lemma find_upt_Some: "List.find P [a..<b] = Some i \<longleftrightarrow> a \<le> i \<and> i < b \<and> P i \<and> (\<forall>j. a \<le> j \<and> j < i \<longrightarrow> \<not> P j)"
proof -
  have "List.find P [a..<b] = Some i \<longleftrightarrow> (\<exists>m < b - a. P (a + m) \<and> i = a + m \<and> (\<forall>j < m. \<not> P (a + j)))"
    by (auto simp: find_Some_iff)
  also have "\<dots> \<longleftrightarrow> a \<le> i \<and> i < b \<and> P i \<and> (\<forall>j. a \<le> j \<and> j < i \<longrightarrow> \<not> P j)"
  proof (intro iffI conjI allI impI)
    assume "a \<le> i \<and> i < b \<and> P i \<and> (\<forall>j. a \<le> j \<and> j < i \<longrightarrow> \<not> P j)"
    then show "\<exists>m < b - a. P (a + m) \<and> i = a + m \<and> (\<forall>j < m. \<not> P (a + j))" by (intro exI [of _ "i - a"]) auto
  next
    fix j assume "\<exists>m < b - a. P (a + m) \<and> i = a + m \<and> (\<forall>j < m. \<not> P (a + j))" and "a \<le> j \<and> j < i"
    then show "\<not> P j" by (metis le_add_diff_inverse less_diff_conv2 nat_add_left_cancel_less)
  qed auto
  finally show ?thesis .
qed

text \<open>Where the search of new text starts.\<close>

definition first_new_match :: "string \<Rightarrow> nat \<Rightarrow> string \<Rightarrow> nat" where
  "first_new_match txt n s = length txt + 1 - n - length s"

lemma py_find_new:
  assumes "0 < n" "s \<noteq> []"
  shows "py_find s txt (1 - int n - int (length s)) =
    List.find (\<lambda>j. take (length s) (drop j txt) = s) [first_new_match txt n s..<length txt + 1 - length s]"
proof -
  have "0 < length s" using assms(2) by simp
  with assms(1) have "1 - int n - int (length s) < 0" by linarith
  moreover have "nat (int (length txt) + (1 - int n - int (length s))) = first_new_match txt n s" by (simp add: first_new_match_def nat_diff_distrib')
  ultimately show ?thesis by (simp add: py_find_def)
qed

lemma in_range_occurs: "j < length txt + 1 - length s \<and> take (length s) (drop j txt) = s \<longleftrightarrow> occurs s txt j"
  by (auto simp: occurs_def)

lemma new_text_match:
  assumes "n \<le> length txt" "\<forall>i. \<not> occurs s (take (length txt - n) txt) i" "occurs s txt j"
  shows "first_new_match txt n s \<le> j"
proof (rule ccontr)
  assume "\<not> first_new_match txt n s \<le> j"
  then have le: "j + length s \<le> length txt - n" by (simp add: first_new_match_def)
  have "take (length s) (drop j (take (length txt - n) txt)) = take (length s) (drop j txt)"
    using le by (simp add: drop_take)
  with le assms(3) have "occurs s (take (length txt - n) txt) j" by (simp add: occurs_def)
  with assms(2) show False by blast
qed

lemma py_find_fresh:
  assumes "0 < n" "n \<le> length txt" "s \<noteq> []" "\<forall>i. \<not> occurs s (take (length txt - n) txt) i"
  shows "case py_find s txt (1 - int n - int (length s)) of
      None \<Rightarrow> \<forall>i. \<not> occurs s txt i
    | Some i \<Rightarrow> occurs s txt i \<and> (\<forall>j < i. \<not> occurs s txt j)"
proof (cases "py_find s txt (1 - int n - int (length s))")
  case None
  then have none: "\<not> (first_new_match txt n s \<le> j \<and> occurs s txt j)" for j
    unfolding py_find_new [OF assms(1,3)] find_upt_None in_range_occurs [symmetric] by blast
  show ?thesis unfolding None option.case using none new_text_match [OF assms(2,4)] by blast
next
  case (Some i)
  then have i: "occurs s txt i" "\<And>j. first_new_match txt n s \<le> j \<Longrightarrow> j < i \<Longrightarrow> \<not> occurs s txt j"
    unfolding py_find_new [OF assms(1,3)] find_upt_Some in_range_occurs [symmetric] by (blast, auto)
  show ?thesis using Some i new_text_match [OF assms(2,4)] by auto
qed

text \<open>The text that is kept.\<close>

definition kept_text :: "string \<Rightarrow> nat option \<Rightarrow> string" where
  "kept_text txt bound = (case bound of None \<Rightarrow> txt | Some k \<Rightarrow> take k txt)"

lemma search_stop_strings_fresh:
  assumes "0 < n" "n \<le> length txt" "\<forall>s \<in> set stop. s \<noteq> [] \<and> (\<forall>i. \<not> occurs s (take (length txt - n) txt) i)"
  shows "case search_stop_strings txt n incl stop of
      None \<Rightarrow> \<forall>s \<in> set stop. \<forall>i. \<not> occurs s txt i
    | Some (s, bound) \<Rightarrow> \<exists>us vs i. stop = us @ s # vs \<and> (\<forall>u \<in> set us. \<forall>j. \<not> occurs u txt j) \<and> occurs s txt i \<and> (\<forall>j < i. \<not> occurs s txt j)
        \<and> kept_text txt bound = take (if incl then i + length s else i) txt"
  using assms(3)
proof (induction stop)
  case (Cons s stop)
  note F = py_find_fresh [OF assms(1,2), of s]
  show ?case
  proof (cases "py_find s txt (1 - int n - int (length s))")
    case None
    then have no: "\<forall>i. \<not> occurs s txt i" using F Cons.prems by simp
    show ?thesis
    proof (cases "search_stop_strings txt n incl stop")
      case (Some r)
      then obtain t bound where r: "r = (t, bound)" by (cases r)
      with Some Cons obtain us vs i where "stop = us @ t # vs" "\<forall>u \<in> set us. \<forall>j. \<not> occurs u txt j" "occurs t txt i" "\<forall>j < i. \<not> occurs t txt j"
        "kept_text txt bound = take (if incl then i + length t else i) txt" by auto
      then have "\<exists>us vs i. s # stop = us @ t # vs \<and> (\<forall>u \<in> set us. \<forall>j. \<not> occurs u txt j) \<and> occurs t txt i \<and> (\<forall>j < i. \<not> occurs t txt j)
        \<and> kept_text txt bound = take (if incl then i + length t else i) txt"
        using no by (intro exI [of _ "s # us"] exI [of _ vs] exI [of _ i]) simp
      then show ?thesis using None Some r by simp
    qed (use None no Cons in simp)
  next
    case (Some i)
    then have i: "occurs s txt i" "\<forall>j < i. \<not> occurs s txt j" using F Cons.prems by simp_all
    define bound where "bound = (if incl then if length txt \<le> i + length s then None else Some (i + length s) else Some i)"
    have "\<exists>us vs i. s # stop = us @ s # vs \<and> (\<forall>u \<in> set us. \<forall>j. \<not> occurs u txt j) \<and> occurs s txt i \<and> (\<forall>j < i. \<not> occurs s txt j)
        \<and> kept_text txt bound = take (if incl then i + length s else i) txt"
      by (intro exI [of _ "[]"] exI [of _ stop] exI [of _ i]) (simp add: kept_text_def bound_def i)
    moreover have "search_stop_strings txt n incl (s # stop) = Some (s, bound)" using Some by (simp add: bound_def)
    ultimately show ?thesis by (simp only: option.case prod.case)
  qed
qed simp


section \<open>What is shown stays\<close>

lemma length_le_longest: "s \<in> set stop \<Longrightarrow> length s \<le> foldr max (map length stop) 0"
  by (induction stop) auto

lemma search_stop_bound:
  assumes "0 < n" "\<forall>s \<in> set stop. s \<noteq> [] \<and> length s \<le> b + 1" "search_stop_strings txt n incl stop = Some (s, Some k)"
  shows "length txt - n - (if incl then 0 else b) \<le> k"
  using assms(2,3)
proof (induction stop)
  case (Cons u stop)
  show ?case
  proof (cases "py_find u txt (1 - int n - int (length u))")
    case (Some i)
    then have "first_new_match txt n u \<le> i" using py_find_new [OF assms(1), of u] Cons.prems(1) by (simp add: find_upt_Some)
    moreover have "k = (if incl then i + length u else i)" using Some Cons.prems(2) by (auto split: if_splits)
    moreover have "length u \<le> b + 1" using Cons.prems(1) by simp
    ultimately show ?thesis by (auto simp: first_new_match_def)
  qed (use Cons in simp)
qed simp

lemma verify_stop_args_ok:
  assumes "verify_stop_args p = Inr ()"
  shows "\<forall>s \<in> set (pa_stop p). s \<noteq> []" "pa_max_tokens p = Some k \<Longrightarrow> 1 \<le> k \<and> pa_min_tokens p \<le> k"
  using assms by (auto simp: verify_stop_args_def list_ex_iff split: if_splits option.splits)

lemma check_stop_bound:
  assumes "verify_stop_args p = Inr ()" "check_stop_strings txt n (pa_stop p) (pa_include_stop p) = Some (s, Some k)"
  shows "length txt - n - output_text_buffer_length p \<le> k"
proof -
  let ?b = "foldr max (map length (pa_stop p)) 0 - 1"
  have stops: "0 < n" "pa_stop p \<noteq> []" and run: "search_stop_strings txt n (pa_include_stop p) (pa_stop p) = Some (s, Some k)"
    using assms(2) by (simp_all add: check_stop_strings_def split: if_splits)
  have "\<forall>u \<in> set (pa_stop p). u \<noteq> [] \<and> length u \<le> ?b + 1"
    using verify_stop_args_ok(1) [OF assms(1)] length_le_longest [of _ "pa_stop p"] by fastforce
  from search_stop_bound [OF stops(1) this run] stops(2) show ?thesis by (auto simp: output_text_buffer_length_def)
qed

lemma finished_statuses [simp]:
  "status_is_finished FINISHED_STOPPED" "status_is_finished FINISHED_LENGTH_CAPPED"
  by (simp_all add: status_is_finished_def)

lemma stop_effects:
  "sq_data (cut_text k q) = sq_data q" "sq_data (drop_new_text n p q) = sq_data q" "sq_data (set_status st q) = sq_data q"
  "sq_output_text (cut_text k q) = take k (sq_output_text q)" "sq_output_text (set_status st q) = sq_output_text q"
  "seq_is_finished (set_status st q) \<longleftrightarrow> status_is_finished st" "cs_seq (upd_cs f cs) = f (cs_seq cs)" "cs_eos_token_id (upd_cs f cs) = cs_eos_token_id cs"
  by (simp_all add: cut_text_def drop_new_text_def set_status_def seq_is_finished_def upd_cs_def)

text \<open>What one check may do to a sequence whose last \<open>n\<close> characters are new.\<close>

definition stop_outcome :: "nat \<Rightarrow> stop_params \<Rightarrow> checked_seq \<Rightarrow> checked_seq \<Rightarrow> bool" where
  "stop_outcome n p cs cs' \<longleftrightarrow> sq_data (cs_seq cs') = sq_data (cs_seq cs) \<and> cs_eos_token_id cs' = cs_eos_token_id cs
     \<and> (\<exists>m. length (sq_output_text (cs_seq cs)) - n - output_text_buffer_length p \<le> m \<and> sq_output_text (cs_seq cs') = take m (sq_output_text (cs_seq cs)))
     \<and> (seq_is_finished (cs_seq cs') \<or> cs' = cs)"

lemma stop_at_length_outcome: "stop_outcome n p cs (stop_at_length M p lora cs)"
proof -
  have "\<exists>m. length (sq_output_text (cs_seq cs)) - n - output_text_buffer_length p \<le> m \<and> sq_output_text (cs_seq cs) = take m (sq_output_text (cs_seq cs))"
    by (rule exI [of _ "length (sq_output_text (cs_seq cs))"]) simp
  then show ?thesis by (simp add: stop_outcome_def stop_at_length_def stop_effects)
qed

lemma stop_at_string_outcome:
  assumes "verify_stop_args p = Inr ()"
  shows "stop_outcome n p cs (stop_at_string M n p lora cs)"
proof (cases "check_stop_strings (sq_output_text (cs_seq cs)) n (pa_stop p) (pa_include_stop p)")
  case (Some r)
  then obtain s bound where r: "r = (s, bound)" by (cases r)
  show ?thesis
  proof (cases bound)
    case None
    have "\<exists>m. length (sq_output_text (cs_seq cs)) - n - output_text_buffer_length p \<le> m \<and> sq_output_text (cs_seq cs) = take m (sq_output_text (cs_seq cs))"
      by (rule exI [of _ "length (sq_output_text (cs_seq cs))"]) simp
    with Some r None show ?thesis by (simp add: stop_outcome_def stop_at_string_def stop_effects)
  next
    case (Some k)
    with \<open>check_stop_strings _ _ _ _ = Some r\<close> r have c: "check_stop_strings (sq_output_text (cs_seq cs)) n (pa_stop p) (pa_include_stop p) = Some (s, Some k)"
      by simp
    from check_stop_bound [OF assms c] c show ?thesis by (auto simp: stop_outcome_def stop_at_string_def stop_effects)
  qed
qed (use stop_at_length_outcome in \<open>simp add: stop_at_string_def\<close>)

lemma drop_new_outcome: "stop_outcome n p cs (upd_cs (set_status FINISHED_STOPPED \<circ> drop_new_text n p) cs)"
proof -
  have "\<exists>m. length (sq_output_text (cs_seq cs)) - n - output_text_buffer_length p \<le> m
      \<and> sq_output_text (drop_new_text n p (cs_seq cs)) = take m (sq_output_text (cs_seq cs))"
  proof (cases "n \<noteq> 0 \<and> \<not> pa_include_stop p")
    case True
    then show ?thesis by (intro exI [of _ "length (sq_output_text (cs_seq cs)) - n"]) (simp add: drop_new_text_def stop_effects)
  next
    case False
    then show ?thesis by (intro exI [of _ "length (sq_output_text (cs_seq cs))"]) (auto simp: drop_new_text_def)
  qed
  then show ?thesis by (simp add: stop_outcome_def stop_effects)
qed

lemma stop_outcome_reason:
  "stop_outcome n p cs cs' \<Longrightarrow> seq_is_finished (cs_seq cs') \<Longrightarrow> stop_outcome n p cs (cs'\<lparr>cs_stop_reason := x\<rparr>)"
  by (simp add: stop_outcome_def)

lemma maybe_stop_eq:
  assumes "sd_get_last_token_id (sq_data (cs_seq cs)) = Inr t"
  shows "maybe_stop_sequence M n p lora cs =
    (Inr (), if int (sd_get_output_len (sq_data (cs_seq cs))) < pa_min_tokens p then cs
       else if \<not> pa_ignore_eos p \<and> cs_eos_token_id cs = Some t then upd_cs (set_status FINISHED_STOPPED \<circ> drop_new_text n p) cs
       else if t \<in> set (pa_stop_token_ids p)
       then (upd_cs (set_status FINISHED_STOPPED \<circ> drop_new_text n p) cs)\<lparr>cs_stop_reason := Some (StopToken t)\<rparr>
       else stop_at_string M n p lora cs)"
proof -
  have "is_eos p cs = Inr (\<not> pa_ignore_eos p \<and> cs_eos_token_id cs = Some t)" using assms by (simp add: is_eos_def)
  then show ?thesis using assms unfolding maybe_stop_sequence_def by (simp only: sum.case split: if_split) blast
qed

lemma maybe_stop_outcome:
  assumes "verify_stop_args p = Inr ()" "sd_get_last_token_id (sq_data (cs_seq cs)) = Inr t"
  obtains cs' where "maybe_stop_sequence M n p lora cs = (Inr (), cs')" "stop_outcome n p cs cs'"
proof -
  have "stop_outcome n p cs cs" by (auto simp: stop_outcome_def intro: exI [of _ "length (sq_output_text (cs_seq cs))"])
  moreover have "stop_outcome n p cs ((upd_cs (set_status FINISHED_STOPPED \<circ> drop_new_text n p) cs)\<lparr>cs_stop_reason := Some (StopToken t)\<rparr>)"
    by (rule stop_outcome_reason [OF drop_new_outcome]) (simp add: stop_effects)
  ultimately show thesis using that maybe_stop_eq [OF assms(2)] stop_at_string_outcome [OF assms(1)] drop_new_outcome by presburger
qed

lemma stop_at_string_capped:
  assumes "pa_max_tokens p = Some (int (sd_get_output_len (sq_data (cs_seq cs))))"
  shows "seq_is_finished (cs_seq (stop_at_string M n p lora cs))"
  using assms by (auto simp: stop_at_string_def stop_at_length_def stop_effects split: option.splits)

text \<open>The sequence after the token and its text were appended.\<close>

definition appended :: "(seq \<Rightarrow> string) option \<Rightarrow> stop_params \<Rightarrow> int \<Rightarrow> (int, pyfloat) dict \<Rightarrow> pyfloat \<Rightarrow> checked_seq \<Rightarrow> nat \<times> checked_seq" where
  "appended decode p t lps lp cs =
     (let q = (cs_seq cs)\<lparr>sq_output_logprobs := sq_output_logprobs (cs_seq cs) @ [lps], sq_data := sd_append_token_id t lp (sq_data (cs_seq cs))\<rparr>;
          new = (case decode of None \<Rightarrow> '''' | Some f \<Rightarrow> if pa_detokenize p then f q else '''')
      in (length new, cs\<lparr>cs_seq := q\<lparr>sq_output_text := sq_output_text q @ new\<rparr>\<rparr>))"

lemma process_sample_eq:
  assumes "map_of lps t = Some lp" "appended decode p t lps lp cs = (n, cs1)"
  shows "process_sample M decode p lora False (t, lps) cs = maybe_stop_sequence M n p lora cs1"
  using assms by (auto simp: process_sample_def seq_append_token_id_def bind_act_def check_def modify_def lift_res_def dict_item_def on_data_def
      zoom_def decode_in_place_def upd_cs_def appended_def Let_def split: option.splits if_splits)

lemma appended_facts:
  assumes "appended decode p t lps lp cs = (n, cs1)"
  obtains new where "n = length new" "sq_output_text (cs_seq cs1) = sq_output_text (cs_seq cs) @ new"
    "sd_output_token_ids (sq_data (cs_seq cs1)) = sd_output_token_ids (sq_data (cs_seq cs)) @ [t]"
    "sd_prompt_token_ids (sq_data (cs_seq cs1)) = sd_prompt_token_ids (sq_data (cs_seq cs))"
    "sd_get_last_token_id (sq_data (cs_seq cs1)) = Inr t" "sq_status (cs_seq cs1) = sq_status (cs_seq cs)" "cs_eos_token_id cs1 = cs_eos_token_id cs"
  using assms by (auto simp: appended_def Let_def sd_append_token_id_def sd_get_last_token_id_def)

definition outputs_of :: "checked_seq \<Rightarrow> int list" where
  "outputs_of cs = sd_output_token_ids (sq_data (cs_seq cs))"

lemma process_sample_run:
  assumes ok: "verify_stop_args p = Inr ()" and t: "map_of lps t \<noteq> None"
  obtains cs' m new where "process_sample M decode p lora False (t, lps) cs = (Inr (), cs')" "outputs_of cs' = outputs_of cs @ [t]"
    "sd_prompt_token_ids (sq_data (cs_seq cs')) = sd_prompt_token_ids (sq_data (cs_seq cs))"
    "length (sq_output_text (cs_seq cs)) - output_text_buffer_length p \<le> m" "sq_output_text (cs_seq cs') = take m (sq_output_text (cs_seq cs) @ new)"
    "\<not> seq_is_finished (cs_seq cs') \<Longrightarrow> sq_output_text (cs_seq cs') = sq_output_text (cs_seq cs) @ new"
    "pa_max_tokens p = Some (int (length (outputs_of cs'))) \<Longrightarrow> seq_is_finished (cs_seq cs')"
proof -
  obtain lp where lp: "map_of lps t = Some lp" using t by blast
  obtain n cs1 where a: "appended decode p t lps lp cs = (n, cs1)" by fastforce
  obtain new where new: "n = length new" "sq_output_text (cs_seq cs1) = sq_output_text (cs_seq cs) @ new"
    "sd_output_token_ids (sq_data (cs_seq cs1)) = sd_output_token_ids (sq_data (cs_seq cs)) @ [t]"
    "sd_prompt_token_ids (sq_data (cs_seq cs1)) = sd_prompt_token_ids (sq_data (cs_seq cs))"
    "sd_get_last_token_id (sq_data (cs_seq cs1)) = Inr t" by (rule appended_facts [OF a])
  obtain cs' where run: "maybe_stop_sequence M n p lora cs1 = (Inr (), cs')" and out: "stop_outcome n p cs1 cs'"
    by (rule maybe_stop_outcome [OF ok new(5)])
  obtain m where m: "length (sq_output_text (cs_seq cs1)) - n - output_text_buffer_length p \<le> m"
    "sq_output_text (cs_seq cs') = take m (sq_output_text (cs_seq cs1))" using out by (auto simp: stop_outcome_def)
  have data: "sq_data (cs_seq cs') = sq_data (cs_seq cs1)" using out by (simp add: stop_outcome_def)
  have capped: "seq_is_finished (cs_seq cs')" if "pa_max_tokens p = Some (int (length (outputs_of cs')))"
  proof -
    have cap: "pa_max_tokens p = Some (int (sd_get_output_len (sq_data (cs_seq cs1))))" using that data by (simp add: outputs_of_def sd_get_output_len_def)
    with verify_stop_args_ok(2) [OF ok] have "\<not> int (sd_get_output_len (sq_data (cs_seq cs1))) < pa_min_tokens p" by fastforce
    with maybe_stop_eq [OF new(5), of M n p lora] run stop_at_string_capped [OF cap, of M n lora] show ?thesis
      by (auto simp: stop_effects split: if_splits)
  qed
  show thesis
    by (rule that [of cs' m new]) (use process_sample_eq [OF lp a] run out m new data capped in \<open>auto simp: outputs_of_def stop_outcome_def\<close>)
qed

text \<open>The text that a client may have been shown.\<close>

definition shown_text :: "stop_params \<Rightarrow> checked_seq \<Rightarrow> string" where
  "shown_text p cs = fst (get_output_text_to_return (output_text_buffer_length p) False (cs_seq cs))"

lemma shown_text_eq: "\<not> seq_is_finished (cs_seq cs) \<Longrightarrow>
  shown_text p cs = take (length (sq_output_text (cs_seq cs)) - output_text_buffer_length p) (sq_output_text (cs_seq cs))"
  by (simp add: shown_text_def get_output_text_to_return_def Let_def)

lemma take_prefix_ex: "k \<le> m \<Longrightarrow> k \<le> length xs \<Longrightarrow> \<exists>rest. take m (xs @ ys) = take k xs @ rest"
proof -
  assume "k \<le> m" "k \<le> length xs"
  then have "take k (take m (xs @ ys)) = take k xs" by (simp add: min_def)
  then show ?thesis by (metis append_take_drop_id)
qed

text \<open>
  C30. Text that was shown to the user while a sequence was running is never taken back: however the
  sequence goes on and whatever makes it stop, its text at the end of the steps begins with all that
  was shown before, since characters that a stop string may still remove are held back.
\<close>

theorem shown_text_stays:
  assumes "verify_stop_args p = Inr ()" "\<not> seq_is_finished (cs_seq cs)" "\<forall>(t, lps) \<in> set xs. map_of lps t \<noteq> None"
  shows "\<exists>cs' rest. process_samples M decode p lora xs cs = (Inr (), cs') \<and> sq_output_text (cs_seq cs') = shown_text p cs @ rest"
  using assms(2,3)
proof (induction xs arbitrary: cs)
  case Nil
  have "\<exists>rest. sq_output_text (cs_seq cs) = shown_text p cs @ rest" unfolding shown_text_eq [OF Nil(1)] by (metis append_take_drop_id)
  then show ?case by (simp add: ret_def)
next
  case (Cons x xs)
  let ?old = "sq_output_text (cs_seq cs)"
  obtain t lps where x: "x = (t, lps)" "map_of lps t \<noteq> None" using Cons.prems(2) by (cases x) auto
  obtain cs1 m new where s: "process_sample M decode p lora False (t, lps) cs = (Inr (), cs1)"
    "length ?old - output_text_buffer_length p \<le> m" "sq_output_text (cs_seq cs1) = take m (?old @ new)"
    "\<not> seq_is_finished (cs_seq cs1) \<Longrightarrow> sq_output_text (cs_seq cs1) = ?old @ new" 
    by (rule process_sample_run [OF assms(1) x(2), where M = M and decode = decode and lora = lora and cs = cs]) (rule that)
  have shown: "\<exists>rest. sq_output_text (cs_seq cs1) = shown_text p cs @ rest"
    unfolding s(3) shown_text_eq [OF Cons.prems(1)] by (rule take_prefix_ex [OF s(2)]) simp
  show ?case
  proof (cases "seq_is_finished (cs_seq cs1)")
    case True
    then show ?thesis using s(1) x(1) shown by (simp add: bind_act_def gets_def ret_def)
  next
    case False
    obtain cs' rest where r: "process_samples M decode p lora xs cs1 = (Inr (), cs')" "sq_output_text (cs_seq cs') = shown_text p cs1 @ rest"
      using Cons.IH [OF False] Cons.prems(2) by auto
    have "\<exists>more. shown_text p cs1 = shown_text p cs @ more"
      unfolding shown_text_eq [OF False] shown_text_eq [OF Cons.prems(1)] s(4) [OF False] by (rule take_prefix_ex) simp_all
    then show ?thesis using s(1) x(1) r False by (auto simp: bind_act_def gets_def)
  qed
qed

section \<open>The end of a generation\<close>

text \<open>
  C31. A sequence with a limit on its tokens is finished after at most as many of them, whatever the tokens
  are: its output is the part of them up to where it stopped, and is not longer than the limit.
\<close>

theorem generation_ends:
  assumes "verify_stop_args p = Inr ()" "\<not> seq_is_finished (cs_seq cs)" "\<forall>(t, lps) \<in> set xs. map_of lps t \<noteq> None"
    and limit: "pa_max_tokens p = Some (int k)" "length (outputs_of cs) < k" "k \<le> length (outputs_of cs) + length xs"
  shows "\<exists>cs' j. process_samples M decode p lora xs cs = (Inr (), cs') \<and> seq_is_finished (cs_seq cs')
    \<and> 0 < j \<and> outputs_of cs' = outputs_of cs @ take j (map fst xs) \<and> length (outputs_of cs') \<le> k"
  using assms(2,3) limit(2,3)
proof (induction xs arbitrary: cs)
  case (Cons x xs)
  obtain t lps where x: "x = (t, lps)" "map_of lps t \<noteq> None" using Cons.prems(2) by (cases x) auto
  obtain cs1 where s: "process_sample M decode p lora False (t, lps) cs = (Inr (), cs1)" "outputs_of cs1 = outputs_of cs @ [t]"
    "pa_max_tokens p = Some (int (length (outputs_of cs1))) \<Longrightarrow> seq_is_finished (cs_seq cs1)"
    by (rule process_sample_run [OF assms(1) x(2), where M = M and decode = decode and lora = lora and cs = cs]) (rule that)
  show ?case
  proof (cases "seq_is_finished (cs_seq cs1)")
    case True
    then have "process_samples M decode p lora (x # xs) cs = (Inr (), cs1)" using s(1) x(1) by (simp add: bind_act_def gets_def ret_def)
    moreover have "outputs_of cs1 = outputs_of cs @ take 1 (map fst (x # xs))" using s(2) x(1) by simp
    moreover have "length (outputs_of cs1) \<le> k" using s(2) Cons.prems(3) by simp
    ultimately show ?thesis using True zero_less_one by blast
  next
    case False
    with s(3) limit(1) have "length (outputs_of cs1) \<noteq> k" by auto
    with s(2) Cons.prems have "length (outputs_of cs1) < k" "k \<le> length (outputs_of cs1) + length xs" by auto
    then obtain cs' j where r: "process_samples M decode p lora xs cs1 = (Inr (), cs')" "seq_is_finished (cs_seq cs')"
      "outputs_of cs' = outputs_of cs1 @ take j (map fst xs)" "length (outputs_of cs') \<le> k"
      using Cons.IH [OF False] Cons.prems(2) by auto
    have "process_samples M decode p lora (x # xs) cs = (Inr (), cs')" using s(1) x(1) False r(1) by (simp add: bind_act_def gets_def)
    moreover have "outputs_of cs' = outputs_of cs @ take (Suc j) (map fst (x # xs))" using s(2) r(3) x(1) by simp
    ultimately show ?thesis using r(2,4) by blast
  qed
qed simp

text \<open>Nothing but a length stops a sequence that ignores the end token and has no stop tokens or strings.\<close>

definition only_length_stops :: "stop_params \<Rightarrow> bool" where
  "only_length_stops p \<longleftrightarrow> pa_ignore_eos p \<and> pa_stop_token_ids p = [] \<and> pa_stop p = []"

definition total_length_of :: "checked_seq \<Rightarrow> int" where
  "total_length_of cs = int (length (sd_prompt_token_ids (sq_data (cs_seq cs)))) + int (length (outputs_of cs))"

lemma process_sample_continues:
  assumes plain: "only_length_stops p" and t: "map_of lps t \<noteq> None" and fin: "\<not> seq_is_finished (cs_seq cs)"
    and run: "process_sample M decode p lora False (t, lps) cs = (Inr (), cs')"
    and short: "total_length_of cs + 1 < get_max_model_len M lora" "pa_max_tokens p \<noteq> Some (int (length (outputs_of cs)) + 1)"
  shows "\<not> seq_is_finished (cs_seq cs')"
proof -
  obtain lp where lp: "map_of lps t = Some lp" using t by blast
  obtain n cs1 where a: "appended decode p t lps lp cs = (n, cs1)" by fastforce
  obtain new where new: "sd_output_token_ids (sq_data (cs_seq cs1)) = sd_output_token_ids (sq_data (cs_seq cs)) @ [t]"
    "sd_prompt_token_ids (sq_data (cs_seq cs1)) = sd_prompt_token_ids (sq_data (cs_seq cs))"
    "sd_get_last_token_id (sq_data (cs_seq cs1)) = Inr t" "sq_status (cs_seq cs1) = sq_status (cs_seq cs)"
    by (rule appended_facts [OF a]) (rule that)
  have "int (seq_get_len (cs_seq cs1)) = total_length_of cs + 1" "int (sd_get_output_len (sq_data (cs_seq cs1))) = int (length (outputs_of cs)) + 1"
    using new(1,2) by (simp_all add: seq_get_len_def sd_get_len_def sd_get_output_len_def total_length_of_def outputs_of_def)
  with short have "stop_at_length M p lora cs1 = cs1" by (simp add: stop_at_length_def)
  then have "stop_at_string M n p lora cs1 = cs1" using plain by (simp add: stop_at_string_def check_stop_strings_def only_length_stops_def)
  then have "maybe_stop_sequence M n p lora cs1 = (Inr (), cs1)" using maybe_stop_eq [OF new(3)] plain by (simp add: only_length_stops_def)
  then have "cs' = cs1" using run process_sample_eq [OF lp a] by simp
  then show ?thesis using fin new(4) by (simp add: seq_is_finished_def)
qed

text \<open>
  C32. A request with recorded outputs runs to its limit: when the end token is ignored, there are no stop tokens
  or strings and the model has room for the prompt and \<open>max_tokens\<close> tokens, the sequence is finished with
  exactly \<open>max_tokens\<close> tokens, the ones it was given.
\<close>

theorem recorded_generation_is_complete:
  assumes "verify_stop_args p = Inr ()" "\<not> seq_is_finished (cs_seq cs)" "\<forall>(t, lps) \<in> set xs. map_of lps t \<noteq> None"
    and limit: "pa_max_tokens p = Some (int k)" "length (outputs_of cs) < k" "k \<le> length (outputs_of cs) + length xs"
    and plain: "only_length_stops p"
    and room: "int (length (sd_prompt_token_ids (sq_data (cs_seq cs)))) + int k \<le> get_max_model_len M lora"
  shows "\<exists>cs'. process_samples M decode p lora xs cs = (Inr (), cs') \<and> seq_is_finished (cs_seq cs') \<and> length (outputs_of cs') = k
    \<and> outputs_of cs' = outputs_of cs @ take (k - length (outputs_of cs)) (map fst xs)"
  using assms(2,3) limit(2,3) room
proof (induction xs arbitrary: cs)
  case (Cons x xs)
  obtain t lps where x: "x = (t, lps)" "map_of lps t \<noteq> None" using Cons.prems(2) by (cases x) auto
  obtain cs1 where s: "process_sample M decode p lora False (t, lps) cs = (Inr (), cs1)" "outputs_of cs1 = outputs_of cs @ [t]"
    "sd_prompt_token_ids (sq_data (cs_seq cs1)) = sd_prompt_token_ids (sq_data (cs_seq cs))"
    "pa_max_tokens p = Some (int (length (outputs_of cs1))) \<Longrightarrow> seq_is_finished (cs_seq cs1)"
    by (rule process_sample_run [OF assms(1) x(2), where M = M and decode = decode and lora = lora and cs = cs]) (rule that)
  show ?case
  proof (cases "length (outputs_of cs) + 1 = k")
    case True
    then have fin: "seq_is_finished (cs_seq cs1)" using s(2,4) limit(1) by simp
    then have "process_samples M decode p lora (x # xs) cs = (Inr (), cs1)" using s(1) x(1) by (simp add: bind_act_def gets_def ret_def)
    moreover have "k - length (outputs_of cs) = 1" using True by simp
    ultimately show ?thesis using fin s(2) x(1) True by simp
  next
    case False
    have "total_length_of cs + 1 < get_max_model_len M lora" using Cons.prems(3,5) False by (simp add: total_length_of_def)
    moreover have "pa_max_tokens p \<noteq> Some (int (length (outputs_of cs)) + 1)" using limit(1) False by auto
    ultimately have fin: "\<not> seq_is_finished (cs_seq cs1)" by (rule process_sample_continues [OF plain x(2) Cons.prems(1) s(1)])
    have "length (outputs_of cs1) < k" "k \<le> length (outputs_of cs1) + length xs" using s(2) Cons.prems False by auto
    then obtain cs' where r: "process_samples M decode p lora xs cs1 = (Inr (), cs')" "seq_is_finished (cs_seq cs')" "length (outputs_of cs') = k"
      "outputs_of cs' = outputs_of cs1 @ take (k - length (outputs_of cs1)) (map fst xs)"
      using Cons.IH [OF fin] Cons.prems(2,5) s(3) by auto
    have "process_samples M decode p lora (x # xs) cs = (Inr (), cs')" using s(1) x(1) fin r(1) by (simp add: bind_act_def gets_def)
    moreover have "k - length (outputs_of cs) = Suc (k - length (outputs_of cs1))" using s(2) Cons.prems(3) False by simp
    then have "outputs_of cs' = outputs_of cs @ take (k - length (outputs_of cs)) (map fst (x # xs))" using s(2) r(4) x(1) by simp
    ultimately show ?thesis using r(2,3) by blast
  qed
qed simp

section \<open>Minimum and maximum\<close>

text \<open>
  While a sequence has fewer tokens than its minimum, not only the stop tokens and strings are skipped,
  as the comment in the code says, but also the check of the length that the model allows.
\<close>

lemma minimum_skips_length_check:
  "int (sd_get_output_len (sq_data (cs_seq cs))) < pa_min_tokens p \<Longrightarrow> maybe_stop_sequence M n p lora cs = (Inr (), cs)"
  by (simp add: maybe_stop_sequence_def)

section \<open>A small generation\<close>

definition small_params :: stop_params where
  "small_params = \<lparr>pa_min_tokens = 0, pa_max_tokens = Some 3, pa_ignore_eos = True, pa_stop_token_ids = [], pa_stop = [''bc''],
     pa_include_stop = False, pa_detokenize = True\<rparr>"

definition small_checked :: checked_seq where
  "small_checked = \<lparr>cs_seq = (seq_new 1 [7] 2 0 0)\<lparr>sq_status := RUNNING, sq_output_text := ''xa''\<rparr>, cs_eos_token_id = None, cs_stop_reason = None\<rparr>"

definition sampled :: "int \<Rightarrow> int \<times> (int, pyfloat) dict" where
  "sampled t = (t, [(t, 0)])"

text \<open>Tokens 1, 2 and any other one are the texts \<open>a\<close>, \<open>b\<close> and \<open>c\<close>.\<close>

definition small_decode :: "(seq \<Rightarrow> string) option" where
  "small_decode = Some (\<lambda>q. if last (seq_token_ids q) = 1 then ''a'' else if last (seq_token_ids q) = 2 then ''b'' else ''c'')"

lemma small_checked_facts:
  "\<not> seq_is_finished (cs_seq small_checked)" "outputs_of small_checked = []" "sd_prompt_token_ids (sq_data (cs_seq small_checked)) = [7]"
  "verify_stop_args small_params = Inr ()" "pa_max_tokens small_params = Some (int 3)" "\<forall>(t, lps) \<in> set (map sampled ts). map_of lps t \<noteq> None"
  by (simp_all add: small_checked_def seq_is_finished_def status_is_finished_def outputs_of_def seq_new_def sd_from_seqs_def
      update_cached_all_tokens_def small_params_def verify_stop_args_def sampled_def)


theorem shown_text_stays_witness:
  "\<exists>cs' rest. process_samples 9 small_decode small_params None (map sampled [2, 3]) small_checked = (Inr (), cs')
     \<and> sq_output_text (cs_seq cs') = shown_text small_params small_checked @ rest \<and> shown_text small_params small_checked = ''x''"
proof -
  have "shown_text small_params small_checked = ''x''" by code_simp
  with shown_text_stays [OF small_checked_facts(4,1,6), of 9 small_decode None "[2, 3]"] show ?thesis by blast
qed

theorem generation_ends_witness:
  "\<exists>cs' j. process_samples 9 small_decode small_params None (map sampled [1, 1, 2, 3]) small_checked = (Inr (), cs')
     \<and> seq_is_finished (cs_seq cs') \<and> outputs_of cs' = take j [1, 1, 2, 3] \<and> length (outputs_of cs') \<le> 3"
  using generation_ends [OF small_checked_facts(4,1,6,5), of "[1, 1, 2, 3]" 9 small_decode None]
  by (auto simp: small_checked_facts sampled_def)

theorem recorded_generation_is_complete_witness:
  "\<exists>cs'. process_samples 4 None (small_params\<lparr>pa_stop := []\<rparr>) None (map sampled [4, 2, 4, 2]) small_checked = (Inr (), cs')
     \<and> seq_is_finished (cs_seq cs') \<and> outputs_of cs' = [4, 2, 4]"
proof -
  let ?p = "small_params\<lparr>pa_stop := []\<rparr>"
  have p: "verify_stop_args ?p = Inr ()" "pa_max_tokens ?p = Some (int 3)" "only_length_stops ?p"
    by (simp_all add: small_params_def verify_stop_args_def only_length_stops_def)
  from recorded_generation_is_complete [OF p(1) small_checked_facts(1,6) p(2) _ _ p(3), of "[4, 2, 4, 2]" 4 None None] show ?thesis
    by (auto simp: small_checked_facts sampled_def get_max_model_len_def)
qed

end
