(* ===== verification/Spec2Isabelle.thy ===== *)
theory Spec2Isabelle
  imports Prelude PyValue Dag Config InstanceManager BlockHash RouteScheduler Controller
    Orchestrator RequestAnalyzer Predictor Estimator Allocator Evictor BlockCommon NaiveBlock PrefixCaching PhysBlocks
    BlockPoolInv PrefixInv PrefixHeld PrefixReach PrefixSpec PrefixAdmit PrefixReset CpuGpu BlockTable BlockTableInv TableRoom
    GpuStore TableSpec Sequence BlockManager ManagerInv ManagerReach ManagerSpec SchedState Scheduler SchedStep
    SchedFrame SchedQueues SchedOrder SchedBounds SchedRequests SchedSpec InstanceApi InstanceSpec
    OutputProc OutputSpec
begin

text \<open>
  A verification development for CoreFlow, which serves agentic workflows: a controller turns every
  query into a graph of LLM invocations and routes each invocation to one of several vLLM instances,
  every instance serves one agent and one range of context lengths, and an allocator decides
  beforehand how many instances every agent and range gets. Paths below are under \<open>src/\<close>.

  \<^bold>\<open>The parts and how they interact.\<close>

  \<^item> The controller (\<open>src/coreflow/controller.py\<close>, theory \<open>Controller\<close>) keeps the queries, the
    registry of instances and one router per agent. A query is loaded into a \<open>Dag\<close>; nodes whose
    dependencies are executed are handed to the router of their agent, and the report of a finished
    node starts its successors.
  \<^item> The execution graph (\<open>src/coreflow/dag\<close>, \<open>Dag\<close>), the registry
    (\<open>src/coreflow/instance_manager.py\<close>, \<open>InstanceManager\<close>) and the router
    (\<open>src/coreflow/scheduler.py\<close>, \<open>RouteScheduler\<close>) are the state behind the controller. The router asks
    the instances for the hashes of their cached blocks and compares them with the ones of the
    request, which \<open>BlockHash\<close> computes as \<open>scheduler.py\<close>, \<open>prefix_caching_block.py\<close> and the tracker of
    computed blocks do.
  \<^item> An instance is an HTTP service (\<open>src/vllm/vllm/instance_api.py\<close>, \<open>InstanceApi\<close>) around an engine. It
    runs generations whose output is forced to recorded tokens and reports them to the controller,
    tells the router the state of its cache, and takes over caches of requests that outgrew another
    instance.
  \<^item> Inside an instance the scheduler of vLLM (\<open>src/vllm/vllm/core/scheduler.py\<close>, \<open>SchedState\<close>,
    \<open>Scheduler\<close>, \<open>SchedStep\<close>) decides in every step which sequence groups run. It drives the block
    manager (\<open>core/block_manager.py\<close>, \<open>BlockManager\<close>), which keeps one block table per sequence
    (\<open>core/block/block_table.py\<close>, \<open>BlockTable\<close>) over an allocator for both devices
    (\<open>core/block/cpu_gpu_block_allocator.py\<close>, \<open>CpuGpu\<close>); its two halves are the naive allocator
    (\<open>core/block/naive_block.py\<close>, \<open>NaiveBlock\<close>) and the one with prefix caching
    (\<open>core/block/prefix_caching_block.py\<close>, \<open>PrefixCaching\<close>), on \<open>core/block/common.py\<close> (\<open>BlockCommon\<close>)
    and \<open>core/evictor.py\<close> (\<open>Evictor\<close>). Sequences and groups are \<open>sequence.py\<close> (\<open>Sequence\<close>). What
    becomes of a sampled token, and when a sequence stops, is \<open>engine/output_processor\<close> (\<open>OutputProc\<close>).
  \<^item> The allocator (\<open>src/coreflow/allocator\<close>) estimates with a latency model
    (\<open>src/coreflow/predictor\<close>, \<open>Predictor\<close>) and the statistics of recorded requests
    (\<open>RequestAnalyzer\<close>) what throughput an instance has on a range of contexts (\<open>Estimator\<close>), splits
    the context axis and the GPUs of an agent (\<open>Orchestrator\<close>) and the GPUs of the workflow
    (\<open>Allocator\<close>). \<open>Config\<close> has the parameters (\<open>src/coreflow/config.py\<close>).

  \<^bold>\<open>How code becomes definitions.\<close> A dataclass or object is a record, a dictionary an association list in
  insertion order, a Python set a set or a list whose order is a parameter, an exception a value of
  \<open>py_error\<close>. An operation on state has the type \<open>('s, 'a) act\<close>: it returns a result or an error, and
  the state it leaves behind, also when it raises. Block objects that are shared and mutated live in
  an explicit heap; a sequence group that is in a queue and in an output is an index into the list of
  groups. JSON is the datatype of \<open>PyValue\<close>. Floats are exact rationals. Code outside the repository is
  an argument: the digest of hashing (\<open>H\<close>, \<open>hash_pair\<close>), the clock, HTTP exchanges, the fitted
  regression, the tokenizer, the generation of the engine, and the callback that finishes the output of an earlier step. Theorems that need
  something of them say so (no digest is the reserved value for a missing hash; no collision on the
  strings at hand).

  \<^bold>\<open>What the lemmas show.\<close>

  \<^item> \<open>Prelude\<close>, \<open>PyValue\<close>: results, sequencing, dictionaries, first minima, heaps, chunks; conversions.
  \<^item> \<open>BlockHash\<close>: router, blocks and tracker compute the same hashes; equal hashes are equal prefixes.
  \<^item> \<open>Dag\<close>, \<open>Controller\<close>: reachable states of a query and of the controller, dispatch order, progress,
    the error paths, and a workflow that can never complete.
  \<^item> \<open>InstanceManager\<close>, \<open>RouteScheduler\<close>: the indices of the registry are exact; what the router
    prefers and where it migrates.
  \<^item> \<open>Orchestrator\<close>, \<open>Allocator\<close>, \<open>Estimator\<close>, \<open>RequestAnalyzer\<close>: optimality of the dynamic program, of
    the greedy loop and of the allocation, the bracket of the bisection, well-formed statistics.
  \<^item> \<open>Evictor\<close>: eviction is least recently used, and the refresh that breaks it.
  \<^item> \<open>PhysBlocks\<close> specifies the physical blocks abstractly; \<open>BlockPoolInv\<close>, \<open>PrefixInv\<close> and \<open>PrefixHeld\<close>
    prove the allocator's invariant and its refinement operation by operation, \<open>PrefixReach\<close> for
    histories; \<open>PrefixSpec\<close>, \<open>PrefixAdmit\<close> and \<open>PrefixReset\<close> hold what clients rely on.
  \<^item> \<open>BlockTableInv\<close> and \<open>TableRoom\<close> state the contract of an allocator as locales and prove the block
    table from it; \<open>GpuStore\<close> shows that the caching allocator satisfies it; \<open>TableSpec\<close> has the results.
  \<^item> \<open>ManagerInv\<close> and \<open>ManagerReach\<close>: the block manager over histories of requests with one sequence and
    prefix caching; \<open>ManagerSpec\<close>: accounting, admission, growth, release, retention.
  \<^item> \<open>Sequence\<close>: well-formed data, deltas that keep the copy of a worker in step, streamed output.
  \<^item> \<open>SchedFrame\<close> collects rules for what an operation of the scheduler leaves alone and what holds after
    it; its locales speak of every projection of the state that the block manager, or a change of a
    group, does not touch, and are interpreted on the queues, the budget and others. \<open>SchedQueues\<close>: no
    request is lost; \<open>SchedOrder\<close>: first come, first served; \<open>SchedBounds\<close>: the budget and the bounds of
    the loops; \<open>SchedRequests\<close>: finished and aborted requests; \<open>SchedSpec\<close>: the theorems, applied to a
    small instance.
  \<^item> \<open>InstanceSpec\<close>: forced decoding, agreement of replies and reports, and that the router finds a
    migrated cache.
  \<^item> \<open>OutputSpec\<close>: stop strings, text that was shown, and the end of a generation.

  \<^bold>\<open>Bounds and fuel.\<close> Loops are structural recursion or \<open>function\<close> with a termination proof where
  possible. The bisection of the estimator runs its fixed twenty rounds. The loop of
  \<open>reset_prefix_cache\<close> is bounded by one more than the evictable blocks; \<open>PrefixReset\<close> shows that it drains
  the evictor within this bound when no block is held.
  The loops of the scheduler take the length of the queue as a bound on their rounds, since every
  round shortens the queue; \<open>SchedSpec\<close> proves that a larger bound changes nothing.

  \<^bold>\<open>Not modelled.\<close> Rounding of floats. Logging, threads and the scheduling of asynchronous tasks between
  two awaits (an operation that awaits takes the state of each of its moments). The validation of
  requests by pydantic, server start and stop, scripts and profilers, which are input and output
  around the modelled operations. In vLLM: everything outside the files above, that is the engine, the workers,
  the kernels and the V1 engine, which CoreFlow does not use; of the scheduler, the caches of reusable
  objects, the preemption injected for tests and the inputs it only passes on. The theorems about
  histories of the block manager leave out forks, swapping and cross-attention tables, and the one
  about lost requests leaves out the asynchronous callback, which may run any code of the engine.
\<close>

end
